(* ===== verification/Prelude.thy ===== *)
theory Prelude
  imports
    Main
    "HOL-Library.Word"
    "HOL-Library.Product_Lexorder"
    "HOL-Library.List_Lexorder"
    "HOL-Library.Char_ord"
begin

unbundle bit_operations_syntax

text \<open>
  Shared vocabulary of the development: the names of Rust's machine types, wrap-around
  arithmetic on \<open>u64\<close> values kept as natural numbers, decimal printing and parsing,
  little-endian codecs, UTF-8 validity, the ordered containers of Rust's standard library
  (\<open>BTreeMap\<close>, \<open>BTreeSet\<close>) as strictly sorted lists, and the cutting of a byte sequence into
  chunks.  Everything here models the language and its standard library or is a generic
  lemma; the program itself starts in the component theories.
\<close>

named_theorems wrap_simps \<open>removal of wrap-around under no-overflow side conditions\<close>
named_theorems codec_simps \<open>round trips and lengths of byte-level codecs\<close>
named_theorems chunk_simps \<open>facts on cutting lists into chunks\<close>


section \<open>Machine types\<close>

type_synonym u8 = "8 word"
type_synonym u16 = "16 word"
type_synonym u32 = "32 word"
type_synonym u64 = "64 word"
type_synonym bytes = "u8 list"

text \<open>
  \<open>u64\<close> and \<open>usize\<close> quantities that are only counted and compared are natural numbers below
  \<open>2 ^ 64\<close>; addition and subtraction wrap, as they do in a release build.
\<close>

definition wadd64 :: "nat \<Rightarrow> nat \<Rightarrow> nat" where
  "wadd64 a b = (a + b) mod 2 ^ 64"

definition wsub64 :: "nat \<Rightarrow> nat \<Rightarrow> nat" where
  "wsub64 a b = (a + 2 ^ 64 - b) mod 2 ^ 64"

definition as_u32 :: "nat \<Rightarrow> nat" where
  "as_u32 n = n mod 2 ^ 32"

lemma wadd64_exact [wrap_simps]: "a + b < 2 ^ 64 \<Longrightarrow> wadd64 a b = a + b"
  by (simp add: wadd64_def)

lemma wsub64_exact [wrap_simps]:
  assumes "b \<le> a" and "a < 2 ^ 64"
  shows "wsub64 a b = a - b"
proof -
  have "a + 2 ^ 64 - b = (a - b) + 2 ^ 64"
    using assms(1) by simp
  moreover have "((a - b) + 2 ^ 64) mod 2 ^ 64 = a - b"
    using assms(2) by simp
  ultimately show ?thesis by (simp only: wsub64_def)
qed

lemma as_u32_exact [wrap_simps]: "n < 2 ^ 32 \<Longrightarrow> as_u32 n = n"
  by (simp add: as_u32_def)

text \<open>\<open>i64::checked_add\<close> and \<open>i64::saturating_add\<close> on mathematical integers.\<close>

abbreviation i64_min :: int where "i64_min \<equiv> - (2 ^ 63)"
abbreviation i64_max :: int where "i64_max \<equiv> 2 ^ 63 - 1"

definition checked_add_i64 :: "int \<Rightarrow> int \<Rightarrow> int option" where
  "checked_add_i64 a b = (if i64_min \<le> a + b \<and> a + b \<le> i64_max then Some (a + b) else None)"

definition saturating_i64 :: "int \<Rightarrow> int" where
  "saturating_i64 x = max i64_min (min i64_max x)"

definition saturating_add_i64 :: "int \<Rightarrow> int \<Rightarrow> int" where
  "saturating_add_i64 a b = saturating_i64 (a + b)"

definition saturating_mul_i64 :: "int \<Rightarrow> int \<Rightarrow> int" where
  "saturating_mul_i64 a b = saturating_i64 (a * b)"

definition div_ceil :: "nat \<Rightarrow> nat \<Rightarrow> nat" where
  "div_ceil a b = (a + b - 1) div b"

text \<open>The bit trick \<open>(n + align - 1) & !(align - 1)\<close> on 64-bit values.\<close>

definition align_up64 :: "nat \<Rightarrow> nat \<Rightarrow> nat" where
  "align_up64 n align =
     unat ((word_of_nat n + word_of_nat align - 1) AND NOT (word_of_nat align - 1) :: u64)"

lemma word_and_not_mask_unat:
  fixes w :: u64
  shows "unat (w AND NOT (mask k)) = unat w div 2 ^ k * 2 ^ k"
proof -
  have sum: "(w AND NOT (mask k)) + take_bit k w = w"
  proof -
    have "(w AND NOT (mask k)) + take_bit k w = (w AND NOT (mask k)) OR take_bit k w"
      by (rule disjunctive_add) (auto simp: bit_simps)
    also have "\<dots> = w"
      by (rule bit_eqI) (auto simp: bit_simps)
    finally show ?thesis .
  qed
  have "w AND NOT (mask k) = w - take_bit k w"
    using sum by (simp only: eq_diff_eq)
  moreover have "take_bit k w \<le> w"
    by (simp add: word_le_nat_alt unsigned_take_bit_eq take_bit_nat_less_eq_self)
  ultimately have "unat (w AND NOT (mask k)) = unat w - unat (take_bit k w)"
    by (simp add: unat_sub)
  also have "\<dots> = unat w - unat w mod 2 ^ k"
    by (simp only: unsigned_take_bit_eq take_bit_nat_def)
  finally show ?thesis
    by (simp add: minus_mod_eq_div_mult)
qed

lemma align_up64_pow2 [wrap_simps]:
  assumes "k < 64" and "n + 2 ^ k \<le> 2 ^ 64"
  shows "align_up64 n (2 ^ k) = (n + 2 ^ k - 1) div 2 ^ k * 2 ^ k"
proof -
  have m: "(word_of_nat (2 ^ k) :: u64) - 1 = mask k"
    by (simp add: mask_eq_exp_minus_1)
  have "unat (word_of_nat n + (word_of_nat (2 ^ k) - 1) :: u64) = n + 2 ^ k - 1"
  proof -
    have "(word_of_nat n + (word_of_nat (2 ^ k) - 1) :: u64) = word_of_nat (n + (2 ^ k - 1))"
    proof -
      have "(word_of_nat (2 ^ k - 1) :: u64) = word_of_nat (2 ^ k) - 1"
        by (subst of_nat_diff) simp_all
      then show ?thesis by (simp only: of_nat_add)
    qed
    moreover have "n + (2 ^ k - 1) < 2 ^ 64"
      using assms(2) zero_less_power [of "2 :: nat" k] by linarith
    ultimately show ?thesis
      by (simp add: unat_of_nat)
  qed
  then have "unat ((word_of_nat n + (word_of_nat (2 ^ k) - 1)) AND NOT (mask k) :: u64)
      = (n + 2 ^ k - 1) div 2 ^ k * 2 ^ k"
    by (simp only: word_and_not_mask_unat)
  then show ?thesis
    by (simp only: align_up64_def m add_diff_eq [symmetric])
qed

lemma round_div_bounds:
  fixes n a :: nat
  assumes "0 < a"
  shows "n \<le> (n + a - 1) div a * a" and "(n + a - 1) div a * a < n + a"
proof -
  have "(n + a - 1) div a * a + (n + a - 1) mod a = n + a - 1"
    by (rule div_mult_mod_eq)
  moreover have "(n + a - 1) mod a < a"
    using assms by simp
  ultimately show "n \<le> (n + a - 1) div a * a" and "(n + a - 1) div a * a < n + a"
    using assms by linarith+
qed


section \<open>Decimal printing and parsing\<close>

definition digit_char :: "nat \<Rightarrow> char" where
  "digit_char d = char_of (48 + d)"

fun dec :: "nat \<Rightarrow> string" where
  "dec n = (if n < 10 then [digit_char n] else dec (n div 10) @ [digit_char (n mod 10)])"

declare dec.simps [simp del]

definition is_digit :: "char \<Rightarrow> bool" where
  "is_digit c \<longleftrightarrow> 48 \<le> (of_char c :: nat) \<and> (of_char c :: nat) \<le> 57"

definition digits_value :: "string \<Rightarrow> nat" where
  "digits_value s = foldl (\<lambda>a c. a * 10 + ((of_char c :: nat) - 48)) 0 s"

text \<open>
  \<open>str::parse::<usize>\<close>: an optional \<open>+\<close>, then at least one ASCII digit, and a value that
  fits 64 bits.
\<close>

definition parse_usize :: "string \<Rightarrow> nat option" where
  "parse_usize s =
     (let ds = (case s of c # cs \<Rightarrow> (if c = CHR ''+'' then cs else s) | [] \<Rightarrow> [])
      in if ds \<noteq> [] \<and> list_all is_digit ds \<and> digits_value ds < 2 ^ 64
         then Some (digits_value ds) else None)"

lemma of_char_digit_char [simp]: "d < 10 \<Longrightarrow> (of_char (digit_char d) :: nat) = 48 + d"
  by (simp add: digit_char_def)

lemma is_digit_digit_char [simp]: "d < 10 \<Longrightarrow> is_digit (digit_char d)"
  by (simp add: is_digit_def)

lemma dec_digits: "list_all is_digit (dec n)"
proof (induction n rule: dec.induct)
  case (1 n)
  then show ?case by (cases "n < 10") (simp_all add: dec.simps [of n])
qed

lemma dec_nonempty [simp]: "dec n \<noteq> []"
  by (simp add: dec.simps [of n])

lemma digits_value_snoc: "digits_value (s @ [c]) = digits_value s * 10 + ((of_char c :: nat) - 48)"
  by (simp add: digits_value_def)

lemma digits_value_dec [simp]: "digits_value (dec n) = n"
proof (induction n rule: dec.induct)
  case (1 n)
  show ?case
  proof (cases "n < 10")
    case True
    then show ?thesis by (simp add: dec.simps [of n] digits_value_def)
  next
    case False
    with 1 show ?thesis by (simp add: dec.simps [of n] digits_value_snoc)
  qed
qed

lemma dec_inject [simp]: "dec m = dec n \<longleftrightarrow> m = n"
  by (metis digits_value_dec)

lemma not_digit_notin_dec: "\<not> is_digit c \<Longrightarrow> c \<notin> set (dec n)"
  using dec_digits [of n] by (auto simp: list_all_iff)

lemma parse_usize_dec:
  assumes n: "n < 2 ^ 64"
  shows "parse_usize (dec n) = Some n"
proof -
  obtain c cs where d: "dec n = c # cs"
    using dec_nonempty [of n] by (cases "dec n") auto
  have "is_digit c" using dec_digits [of n] by (simp add: d)
  then have "c \<noteq> CHR ''+''" by (auto simp: is_digit_def)
  then show ?thesis
    using n dec_digits [of n] digits_value_dec [of n] by (simp add: parse_usize_def d)
qed


section \<open>Little-endian integers\<close>

text \<open>\<open>to_le_bytes\<close> and \<open>from_le_bytes\<close>, least significant byte first.\<close>

fun to_le :: "nat \<Rightarrow> nat \<Rightarrow> bytes" where
  "to_le 0 x = []"
| "to_le (Suc n) x = word_of_nat (x mod 256) # to_le n (x div 256)"

fun from_le :: "bytes \<Rightarrow> nat" where
  "from_le [] = 0"
| "from_le (b # bs) = unat b + 256 * from_le bs"

definition u16_le :: "u16 \<Rightarrow> bytes" where "u16_le w = to_le 2 (unat w)"
definition u32_le :: "u32 \<Rightarrow> bytes" where "u32_le w = to_le 4 (unat w)"
definition u64_le :: "u64 \<Rightarrow> bytes" where "u64_le w = to_le 8 (unat w)"
definition u16_of_le :: "bytes \<Rightarrow> u16" where "u16_of_le bs = word_of_nat (from_le bs)"
definition u32_of_le :: "bytes \<Rightarrow> u32" where "u32_of_le bs = word_of_nat (from_le bs)"
definition u64_of_le :: "bytes \<Rightarrow> u64" where "u64_of_le bs = word_of_nat (from_le bs)"

lemma length_to_le [simp]: "length (to_le n x) = n"
  by (induction n arbitrary: x) simp_all

lemma unat_byte_of_nat: "unat (word_of_nat (x mod 256) :: u8) = x mod 256"
  by (simp add: unat_of_nat)

lemma from_le_to_le: "from_le (to_le n x) = x mod 256 ^ n"
proof (induction n arbitrary: x)
  case 0
  then show ?case by simp
next
  case (Suc n)
  have "x mod 256 + 256 * (x div 256 mod 256 ^ n) = x mod (256 * 256 ^ n)"
    by (simp add: mod_mult2_eq)
  then show ?case by (simp only: to_le.simps from_le.simps unat_byte_of_nat Suc.IH power_Suc)
qed

lemma u16_of_le_u16_le [simp, codec_simps]: "u16_of_le (u16_le w) = w"
proof -
  have "unat w < 256 ^ 2" using unsigned_less [of w] by simp
  then show ?thesis by (simp add: u16_of_le_def u16_le_def from_le_to_le)
qed

lemma u32_of_le_u32_le [simp, codec_simps]: "u32_of_le (u32_le w) = w"
proof -
  have "unat w < 256 ^ 4" using unsigned_less [of w] by simp
  then show ?thesis by (simp add: u32_of_le_def u32_le_def from_le_to_le)
qed

lemma u64_of_le_u64_le [simp, codec_simps]: "u64_of_le (u64_le w) = w"
proof -
  have "unat w < 256 ^ 8" using unsigned_less [of w] by simp
  then show ?thesis by (simp add: u64_of_le_def u64_le_def from_le_to_le)
qed

lemma length_u_le [simp, codec_simps]:
  "length (u16_le a) = 2" "length (u32_le b) = 4" "length (u64_le c) = 8"
  by (simp_all add: u16_le_def u32_le_def u64_le_def)


section \<open>Strings as UTF-8 byte sequences\<close>

text \<open>
  A Rust \<open>String\<close> is a byte sequence that is valid UTF-8; HOL's \<open>string\<close> is a list of 8-bit
  characters, so \<open>len()\<close> is \<open>length\<close>.  \<open>utf8_ok\<close> is the check of \<open>String::from_utf8\<close>
  (the well-formed byte sequences of the Unicode standard).
\<close>

definition as_bytes :: "string \<Rightarrow> bytes" where
  "as_bytes s = map (\<lambda>c. word_of_nat (of_char c)) s"

definition bytes_string :: "bytes \<Rightarrow> string" where
  "bytes_string bs = map (\<lambda>b. char_of (unat b)) bs"

definition in_range :: "u8 \<Rightarrow> nat \<Rightarrow> nat \<Rightarrow> bool" where
  "in_range b lo hi \<longleftrightarrow> lo \<le> unat b \<and> unat b \<le> hi"

abbreviation is_cont :: "u8 \<Rightarrow> bool" where
  "is_cont b \<equiv> in_range b 128 191"

fun utf8_ok :: "bytes \<Rightarrow> bool" where
  "utf8_ok [] = True"
| "utf8_ok (a # r1) =
     (if in_range a 0 127 then utf8_ok r1
      else (case r1 of [] \<Rightarrow> False | b # r2 \<Rightarrow>
        if in_range a 194 223 then is_cont b \<and> utf8_ok r2
        else (case r2 of [] \<Rightarrow> False | c # r3 \<Rightarrow>
          if in_range a 224 239
          then in_range b (if unat a = 224 then 160 else 128) (if unat a = 237 then 159 else 191)
               \<and> is_cont c \<and> utf8_ok r3
          else (case r3 of [] \<Rightarrow> False | d # r4 \<Rightarrow>
            in_range a 240 244
            \<and> in_range b (if unat a = 240 then 144 else 128) (if unat a = 244 then 143 else 191)
            \<and> is_cont c \<and> is_cont d \<and> utf8_ok r4))))"

definition utf8_string :: "string \<Rightarrow> bool" where
  "utf8_string s \<longleftrightarrow> utf8_ok (as_bytes s)"

definition from_utf8 :: "bytes \<Rightarrow> string option" where
  "from_utf8 bs = (if utf8_ok bs then Some (bytes_string bs) else None)"

definition is_cont_char :: "char \<Rightarrow> bool" where
  "is_cont_char c \<longleftrightarrow> 128 \<le> (of_char c :: nat) \<and> (of_char c :: nat) \<le> 191"

definition is_char_boundary :: "string \<Rightarrow> nat \<Rightarrow> bool" where
  "is_char_boundary s i \<longleftrightarrow>
     i = 0 \<or> i = length s \<or> (i < length s \<and> \<not> is_cont_char (s ! i))"

lemma length_as_bytes [simp, codec_simps]: "length (as_bytes s) = length s"
  by (simp add: as_bytes_def)

lemma of_char_less_256 [simp]: "(of_char c :: nat) < 256"
  using of_char_mod_256 [of c, where 'a = nat] by (metis mod_less_divisor zero_less_numeral)

lemma unat_of_char [simp]: "unat (word_of_nat (of_char c) :: u8) = of_char c"
  by (simp add: unat_of_nat)

lemma bytes_string_as_bytes [simp, codec_simps]: "bytes_string (as_bytes s) = s"
  by (simp add: bytes_string_def as_bytes_def comp_def)

lemma as_bytes_bytes_string [simp, codec_simps]: "as_bytes (bytes_string bs) = bs"
proof -
  have "word_of_nat (of_char (char_of (unat b) :: char)) = b" for b :: u8
    using unsigned_less [of b, where 'a = nat] by (simp add: of_char_of)
  then show ?thesis by (simp add: as_bytes_def bytes_string_def comp_def)
qed

lemma as_bytes_append [simp]: "as_bytes (s @ t) = as_bytes s @ as_bytes t"
  by (simp add: as_bytes_def)

lemma from_utf8_as_bytes [simp, codec_simps]: "utf8_string s \<Longrightarrow> from_utf8 (as_bytes s) = Some s"
  by (simp add: from_utf8_def utf8_string_def)

lemma utf8_ok_head_not_cont:
  assumes "utf8_ok (b # bs)"
  shows "\<not> is_cont b"
proof
  assume "is_cont b"
  then have "\<not> in_range b 0 127" "\<not> in_range b 194 223" "\<not> in_range b 224 239"
    "\<not> in_range b 240 244"
    by (simp_all add: in_range_def)
  with assms show False by (simp split: list.splits)
qed

lemma utf8_string_start_boundary:
  assumes "utf8_string (c # cs)"
  shows "\<not> is_cont_char c"
proof -
  have "\<not> is_cont (word_of_nat (of_char c))"
    using assms utf8_ok_head_not_cont by (simp add: utf8_string_def as_bytes_def)
  then show ?thesis by (simp add: in_range_def is_cont_char_def)
qed


section \<open>Paths\<close>

text \<open>
  \<open>PathBuf::join\<close> on Unix, and \<open>Path::components\<close>, which is what path equality and
  \<open>Path::starts_with\<close> compare: repeated separators and inner \<open>.\<close> are dropped.
\<close>

abbreviation slash :: char where "slash \<equiv> CHR ''/''"

definition path_join :: "string \<Rightarrow> string \<Rightarrow> string" where
  "path_join base s =
     (if s \<noteq> [] \<and> hd s = slash then s
      else if base = [] \<or> last base = slash then base @ s
      else base @ [slash] @ s)"

fun split_on :: "char \<Rightarrow> string \<Rightarrow> string list" where
  "split_on d [] = [[]]"
| "split_on d (c # cs) =
     (if c = d then [] # split_on d cs
      else (case split_on d cs of [] \<Rightarrow> [[c]] | p # ps \<Rightarrow> (c # p) # ps))"

definition path_components :: "string \<Rightarrow> string list" where
  "path_components p =
     (let parts = split_on slash p in
      if p \<noteq> [] \<and> hd p = slash then ''/'' # filter (\<lambda>x. x \<noteq> [] \<and> x \<noteq> ''.'') parts
      else (if hd parts = ''.'' then [''.''] else []) @ filter (\<lambda>x. x \<noteq> [] \<and> x \<noteq> ''.'') parts)"

definition path_starts_with :: "string \<Rightarrow> string \<Rightarrow> bool" where
  "path_starts_with p root \<longleftrightarrow>
     take (length (path_components root)) (path_components p) = path_components root"

lemma split_on_nonempty [simp]: "split_on d s \<noteq> []"
  by (induction s) (auto split: list.splits)

lemma split_on_no_sep [simp]: "d \<notin> set s \<Longrightarrow> split_on d s = [s]"
  by (induction s) auto

lemma split_on_append: "d \<notin> set s \<Longrightarrow> split_on d (s @ d # t) = s # split_on d t"
  by (induction s) auto

lemma split_on_append_sep: "split_on d (s @ d # t) = split_on d s @ split_on d t"
  by (induction s) (auto split: list.splits simp: append_eq_Cons_conv)


section \<open>Ordered containers\<close>

text \<open>
  \<open>BTreeMap\<close> and \<open>BTreeSet\<close> as lists in strictly increasing key order: \<open>insert\<close>,
  \<open>remove\<close>, the first element of \<open>range(k..)\<close> and the last of \<open>range(..k)\<close>.
\<close>

fun btm_insert :: "'k::linorder \<Rightarrow> 'v \<Rightarrow> ('k \<times> 'v) list \<Rightarrow> ('k \<times> 'v) list" where
  "btm_insert k v [] = [(k, v)]"
| "btm_insert k v (p # ps) =
     (if k < fst p then (k, v) # p # ps
      else if k = fst p then (k, v) # ps
      else p # btm_insert k v ps)"

definition btm_remove :: "'k \<Rightarrow> ('k \<times> 'v) list \<Rightarrow> ('k \<times> 'v) list" where
  "btm_remove k m = filter (\<lambda>p. fst p \<noteq> k) m"

definition btm_last_below :: "'k::linorder \<Rightarrow> ('k \<times> 'v) list \<Rightarrow> ('k \<times> 'v) option" where
  "btm_last_below k m = find (\<lambda>p. fst p < k) (rev m)"

fun bts_insert :: "'a::linorder \<Rightarrow> 'a list \<Rightarrow> 'a list" where
  "bts_insert x [] = [x]"
| "bts_insert x (y # ys) =
     (if x < y then x # y # ys else if x = y then y # ys else y # bts_insert x ys)"

definition bts_remove :: "'a \<Rightarrow> 'a list \<Rightarrow> 'a list" where
  "bts_remove x s = filter (\<lambda>y. y \<noteq> x) s"

definition bts_first_from :: "'a::linorder \<Rightarrow> 'a list \<Rightarrow> 'a option" where
  "bts_first_from x s = find (\<lambda>y. x \<le> y) s"

abbreviation btm_sorted :: "('k::linorder \<times> 'v) list \<Rightarrow> bool" where
  "btm_sorted m \<equiv> sorted_wrt (<) (map fst m)"

abbreviation bts_sorted :: "'a::linorder list \<Rightarrow> bool" where
  "bts_sorted s \<equiv> sorted_wrt (<) s"

lemma set_bts_insert [simp]: "set (bts_insert x s) = insert x (set s)"
  by (induction s) auto

lemma set_bts_remove [simp]: "set (bts_remove x s) = set s - {x}"
  by (auto simp: bts_remove_def)

lemma bts_sorted_insert [simp]: "bts_sorted s \<Longrightarrow> bts_sorted (bts_insert x s)"
  by (induction s) auto

lemma bts_sorted_remove [simp]: "bts_sorted s \<Longrightarrow> bts_sorted (bts_remove x s)"
  by (simp add: bts_remove_def sorted_wrt_filter)

lemma keys_btm_insert [simp]: "fst ` set (btm_insert k v m) = insert k (fst ` set m)"
  by (induction m) auto

lemma btm_sorted_insert [simp]: "btm_sorted m \<Longrightarrow> btm_sorted (btm_insert k v m)"
proof (induction m)
  case (Cons p ps)
  have "fst p < y" if "\<not> k < fst p" "k \<noteq> fst p" "y \<in> fst ` set (btm_insert k v ps)" for y
    using that Cons.prems by auto
  with Cons show ?case by auto
qed simp

lemma btm_sorted_remove [simp]: "btm_sorted m \<Longrightarrow> btm_sorted (btm_remove k m)"
  by (induction m) (auto simp: btm_remove_def)

lemma map_of_btm_insert [simp]:
  "btm_sorted m \<Longrightarrow> map_of (btm_insert k v m) = (map_of m)(k \<mapsto> v)"
proof (induction m)
  case (Cons p ps)
  have "map_of ps k = None" if "k < fst p"
    using that Cons.prems by (fastforce simp: map_of_eq_None_iff)
  with Cons show ?case by (cases p) (auto simp: fun_eq_iff)
qed auto

lemma map_of_btm_remove [simp]: "map_of (btm_remove k m) = (map_of m)(k := None)"
  by (induction m) (auto simp: btm_remove_def)

lemma find_sorted_Some:
  assumes "bts_sorted s"
  shows "find P s = Some y \<longleftrightarrow> y \<in> set s \<and> P y \<and> (\<forall>z \<in> set s. P z \<longrightarrow> y \<le> z)"
  using assms by (induction s) (auto simp: less_imp_le dest: leD)

lemma bts_first_from_Some:
  "bts_sorted s \<Longrightarrow>
     bts_first_from x s = Some y \<longleftrightarrow> y \<in> set s \<and> x \<le> y \<and> (\<forall>z \<in> set s. x \<le> z \<longrightarrow> y \<le> z)"
  by (simp add: bts_first_from_def find_sorted_Some)

lemma bts_first_from_None: "bts_first_from x s = None \<longleftrightarrow> (\<forall>z \<in> set s. \<not> x \<le> z)"
  by (auto simp: bts_first_from_def find_None_iff)

lemma btm_last_below_None: "btm_last_below k m = None \<longleftrightarrow> (\<forall>p \<in> set m. k \<le> fst p)"
  by (auto simp: btm_last_below_def find_None_iff not_less)

lemma btm_last_below_Some:
  assumes "btm_sorted m" "btm_last_below k m = Some p"
  shows "p \<in> set m" "fst p < k" "\<And>q. q \<in> set m \<Longrightarrow> fst q < k \<Longrightarrow> fst q \<le> fst p"
proof -
  have *: "p \<in> set m \<and> fst p < k \<and> (\<forall>q \<in> set m. fst q < k \<longrightarrow> fst q \<le> fst p)"
    using assms unfolding btm_last_below_def
  proof (induction m rule: rev_induct)
    case (snoc x xs)
    then show ?case by (auto simp: sorted_wrt_append less_imp_le split: if_splits)
  qed simp
  then show "p \<in> set m" "fst p < k" "\<And>q. q \<in> set m \<Longrightarrow> fst q < k \<Longrightarrow> fst q \<le> fst p"
    by blast+
qed

lemma btm_sorted_distinct: "btm_sorted m \<Longrightarrow> distinct (map fst m)"
  by (simp add: strict_sorted_iff)

lemma btm_mem_iff: "btm_sorted m \<Longrightarrow> (k, v) \<in> set m \<longleftrightarrow> map_of m k = Some v"
  by (simp add: btm_sorted_distinct)

lemma set_btm_insert:
  assumes "btm_sorted m"
  shows "set (btm_insert k v m) = insert (k, v) {p \<in> set m. fst p \<noteq> k}"
proof -
  have "(a, b) \<in> set (btm_insert k v m) \<longleftrightarrow> (a, b) \<in> insert (k, v) {p \<in> set m. fst p \<noteq> k}" for a b
    using assms by (auto simp: btm_mem_iff split: if_splits)
  then show ?thesis by auto
qed

lemma set_btm_remove [simp]: "set (btm_remove k m) = {p \<in> set m. fst p \<noteq> k}"
  by (auto simp: btm_remove_def)


lemma distinct_set_singleton:
  assumes "distinct xs" "set xs = {x}"
  shows "xs = [x]"
proof -
  have "length xs = Suc 0" using distinct_card [OF assms(1)] assms(2) by simp
  then obtain y where "xs = [y]" by (auto simp: length_Suc_conv)
  with assms(2) show ?thesis by simp
qed


section \<open>Chunked lists\<close>

text \<open>
  \<open>slice::chunks\<close>, and the facts that tie consecutive pieces of a buffer to the whole.
\<close>

fun chunks :: "nat \<Rightarrow> 'a list \<Rightarrow> 'a list list" where
  "chunks n xs = (if n = 0 \<or> xs = [] then [] else take n xs # chunks n (drop n xs))"

declare chunks.simps [simp del]

lemma chunks_Nil [simp, chunk_simps]: "chunks n [] = []"
  by (simp add: chunks.simps)

lemma chunks_step: "0 < n \<Longrightarrow> xs \<noteq> [] \<Longrightarrow> chunks n xs = take n xs # chunks n (drop n xs)"
  by (subst chunks.simps) simp

lemma concat_chunks [simp, chunk_simps]: "0 < n \<Longrightarrow> concat (chunks n xs) = xs"
proof (induction n xs rule: chunks.induct)
  case (1 n xs)
  then show ?case by (cases "xs = []") (simp_all add: chunks_step)
qed

lemma chunks_append:
  assumes "0 < n" "length a = n"
  shows "chunks n (a @ b) = a # chunks n b"
  using assms by (subst chunks_step) auto

lemma chunks_short:
  assumes "0 < n" "xs \<noteq> []" "length xs \<le> n"
  shows "chunks n xs = [xs]"
  using assms by (subst chunks_step) auto

lemma length_chunks:
  assumes "0 < n"
  shows "length (chunks n xs) = div_ceil (length xs) n"
  using assms
proof (induction n xs rule: chunks.induct)
  case (1 n xs)
  show ?case
  proof (cases "xs = []")
    case False
    then have "0 < length xs" by simp
    show ?thesis
    proof (cases "length xs \<le> n")
      case True
      then have "(length xs + n - 1) div n = 1"
        using \<open>0 < length xs\<close> by (cases "length xs") (auto intro!: div_nat_eqI)
      with False True \<open>0 < n\<close> show ?thesis by (simp add: chunks_short div_ceil_def)
    next
      case big: False
      then have "(length xs + n - 1) div n = Suc ((length xs - n + n - 1) div n)"
        using \<open>0 < n\<close> by (simp add: le_div_geq)
      with False 1 show ?thesis by (simp add: chunks_step div_ceil_def)
    qed
  qed (use 1 in \<open>simp add: div_ceil_def\<close>)
qed

lemma nth_chunks:
  assumes "0 < n" "i < length (chunks n xs)"
  shows "chunks n xs ! i = take n (drop (i * n) xs)"
  using assms
proof (induction n xs arbitrary: i rule: chunks.induct)
  case (1 n xs)
  then have ne: "xs \<noteq> []" by auto
  show ?case
  proof (cases i)
    case 0
    with 1 ne show ?thesis by (simp add: chunks_step)
  next
    case (Suc j)
    with 1 ne show ?thesis by (simp add: chunks_step add.commute)
  qed
qed

lemma length_nth_chunks:
  assumes "0 < n" "Suc i < length (chunks n xs)"
  shows "length (chunks n xs ! i) = n"
  using assms
proof (induction n xs arbitrary: i rule: chunks.induct)
  case (1 n xs)
  then have ne: "xs \<noteq> []" by auto
  have "n < length xs"
  proof (rule ccontr)
    assume "\<not> n < length xs"
    with 1 ne have "length (chunks n xs) = 1" by (simp add: chunks_short)
    with 1 show False by simp
  qed
  with 1 ne show ?case by (cases i) (simp_all add: chunks_step)
qed

lemma chunks_all_nonempty: "x \<in> set (chunks n xs) \<Longrightarrow> x \<noteq> [] \<and> length x \<le> n"
proof (induction n xs rule: chunks.induct)
  case (1 n xs)
  then show ?case by (cases "n = 0 \<or> xs = []") (auto simp: chunks.simps [of n xs])
qed


section \<open>Raw memory\<close>

text \<open>Byte-addressed memory, for the code that works through pointers.\<close>

definition store_bytes :: "nat \<Rightarrow> bytes \<Rightarrow> (nat \<Rightarrow> u8) \<Rightarrow> nat \<Rightarrow> u8" where
  "store_bytes at bs mem = (\<lambda>a. if at \<le> a \<and> a < at + length bs then bs ! (a - at) else mem a)"

definition load_bytes :: "nat \<Rightarrow> nat \<Rightarrow> (nat \<Rightarrow> u8) \<Rightarrow> bytes" where
  "load_bytes at n mem = map mem [at ..< at + n]"

lemma store_bytes_append:
  "store_bytes (off + length a) b (store_bytes off a mem) = store_bytes off (a @ b) mem"
  by (auto simp: store_bytes_def fun_eq_iff nth_append)

lemma store_bytes_Nil [simp]: "store_bytes off [] mem = mem"
  by (auto simp: store_bytes_def fun_eq_iff)

lemma load_store_same: "load_bytes off (length bs) (store_bytes off bs mem) = bs"
  by (intro nth_equalityI) (simp_all add: load_bytes_def store_bytes_def)

lemma load_store_apart:
  "off + length bs \<le> a \<or> a + n \<le> off \<Longrightarrow> load_bytes a n (store_bytes off bs mem) = load_bytes a n mem"
  by (auto simp: load_bytes_def store_bytes_def)

end
