(* ===== verification/KVError.thy ===== *)
theory KVError
  imports Prelude
begin

text \<open>
  The error type of the server (\<open>error.rs\<close>): \<open>KVError\<close> with its \<open>Display\<close> text and the
  conversion to a gRPC status.  A fallible operation returns \<open>kverror + 'a\<close>, the error on the
  left, and \<open>res_bind\<close> is the \<open>?\<close> operator.  A \<open>std::io::Error\<close> is its kind with its text.
\<close>

datatype io_kind =
  IoNotFound | IoPermissionDenied | IoAlreadyExists | IoInvalidInput | IoInvalidData
  | IoUnexpectedEof | IoWriteZero | IoInterrupted | IoOther

datatype io_error = IoError (io_kind: io_kind) (io_text: string)

datatype kverror =
  Config string
| NotFound string
| AlreadyExists string
| Io io_error
| Metadata string
| InvalidArgument string
| Internal string

type_synonym 'a res = "kverror + 'a"

datatype status_code = Code_NotFound | Code_AlreadyExists | Code_InvalidArgument
  | Code_FailedPrecondition | Code_Unimplemented | Code_Unavailable | Code_Internal

datatype grpc_status = Status (st_code: status_code) (st_message: string)

fun kverror_to_string :: "kverror \<Rightarrow> string" where
  "kverror_to_string (Config m) = ''config error: '' @ m"
| "kverror_to_string (NotFound m) = ''Key not found: '' @ m"
| "kverror_to_string (AlreadyExists m) = ''Key already exists: '' @ m"
| "kverror_to_string (Io e) = ''I/O error: '' @ io_text e"
| "kverror_to_string (Metadata m) = ''metadata error: '' @ m"
| "kverror_to_string (InvalidArgument m) = ''invalid argument: '' @ m"
| "kverror_to_string (Internal m) = ''internal error: '' @ m"

fun status_from :: "kverror \<Rightarrow> grpc_status" where
  "status_from (NotFound m) = Status Code_NotFound m"
| "status_from (AlreadyExists m) = Status Code_AlreadyExists m"
| "status_from (InvalidArgument m) = Status Code_InvalidArgument m"
| "status_from other = Status Code_Internal (kverror_to_string other)"

definition res_bind :: "'e + 'a \<Rightarrow> ('a \<Rightarrow> 'e + 'b) \<Rightarrow> 'e + 'b" where
  "res_bind r f = (case r of Inl e \<Rightarrow> Inl e | Inr x \<Rightarrow> f x)"

definition is_ok :: "'e + 'a \<Rightarrow> bool" where
  "is_ok r = (case r of Inl _ \<Rightarrow> False | Inr _ \<Rightarrow> True)"

fun map_res :: "('a \<Rightarrow> 'e + 'b) \<Rightarrow> 'a list \<Rightarrow> 'e + 'b list" where
  "map_res f [] = Inr []"
| "map_res f (x # xs) =
     (case f x of Inl e \<Rightarrow> Inl e
      | Inr y \<Rightarrow> (case map_res f xs of Inl e \<Rightarrow> Inl e | Inr ys \<Rightarrow> Inr (y # ys)))"

lemma res_bind_simps [simp]:
  "res_bind (Inl e) f = Inl e" "res_bind (Inr x) f = f x"
  by (simp_all add: res_bind_def)

lemma is_ok_simps [simp]: "\<not> is_ok (Inl e)" "is_ok (Inr x)"
  by (simp_all add: is_ok_def)

lemma res_bind_eq_Inr [simp]: "res_bind r f = Inr y \<longleftrightarrow> (\<exists>x. r = Inr x \<and> f x = Inr y)"
  by (cases r) auto

lemma map_res_Inr_iff:
  "map_res f xs = Inr ys \<longleftrightarrow> length ys = length xs \<and> (\<forall>i < length xs. f (xs ! i) = Inr (ys ! i))"
proof (induction xs arbitrary: ys)
  case (Cons x xs)
  show ?case
  proof (cases ys)
    case (Cons y zs)
    then show ?thesis
      using Cons.IH [of zs]
      by (auto split: sum.splits simp: nth_Cons' less_Suc_eq_0_disj all_conj_distrib)
  qed (auto split: sum.splits)
qed auto

end
