(* ===== verification/IO_Executor.thy ===== *)
theory IO_Executor
  imports KVError
begin

text \<open>
  \<open>io_executor/mod.rs\<close> and \<open>io_executor/tier_a.rs\<close>: the executor interface and the thread-pool
  executor.  The operating system is a file map together with a script of system-call outcomes: each
  call consumes one event, which makes it succeed, fail, or transfer only part of its bytes; an
  exhausted script means success.  Files are written under a temporary name and renamed.  \<open>w_pool\<close> is what
  the buffer that the pool hands out for reading a path held before: any bytes.

  Worker threads handle the items of a batch concurrently, each on its own files; the model runs
  them one after the other in request order.  Directories are not modelled beyond the outcome of
  \<open>create_dir_all\<close>.  Logging and metrics have no effect on the results.
\<close>

section \<open>The operating system\<close>

datatype os_event = OsOk | OsFail io_error | OsCount nat

record world =
  w_files :: "string \<Rightarrow> bytes option"
  w_script :: "os_event list"
  w_sync :: bool
  w_pool :: "string \<Rightarrow> bytes"

definition next_event :: "world \<Rightarrow> os_event \<times> world" where
  "next_event w = (case w_script w of [] \<Rightarrow> (OsOk, w) | e # es \<Rightarrow> (e, w\<lparr> w_script := es \<rparr>))"

definition syscall :: "(world \<Rightarrow> 'a res \<times> world) \<Rightarrow> world \<Rightarrow> 'a res \<times> world" where
  "syscall act w = (case next_event w of (OsFail e, w') \<Rightarrow> (Inl (Io e), w') | (_, w') \<Rightarrow> act w')"

definition io_step :: "'a res \<times> 'w \<Rightarrow> ('a \<Rightarrow> 'w \<Rightarrow> 'b res \<times> 'w) \<Rightarrow> 'b res \<times> 'w" where
  "io_step r f = (case r of (Inl e, w) \<Rightarrow> (Inl e, w) | (Inr x, w) \<Rightarrow> f x w)"

definition not_found :: "'a res" where
  "not_found = Inl (Io (IoError IoNotFound ''No such file or directory (os error 2)''))"

definition set_file :: "string \<Rightarrow> bytes option \<Rightarrow> world \<Rightarrow> world" where
  "set_file p c w = w\<lparr> w_files := (w_files w)(p := c) \<rparr>"

definition sys_create_dir_all :: "string \<Rightarrow> world \<Rightarrow> unit res \<times> world" where
  "sys_create_dir_all path = syscall (\<lambda>w. (Inr (), w))"

definition sys_create :: "string \<Rightarrow> world \<Rightarrow> unit res \<times> world" where
  "sys_create path = syscall (\<lambda>w. (Inr (), set_file path (Some []) w))"

definition sys_open :: "string \<Rightarrow> world \<Rightarrow> unit res \<times> world" where
  "sys_open path = syscall (\<lambda>w. if w_files w path = None then (not_found, w) else (Inr (), w))"

definition sys_file_len :: "string \<Rightarrow> world \<Rightarrow> nat res \<times> world" where
  "sys_file_len path = syscall (\<lambda>w. case w_files w path of None \<Rightarrow> (not_found, w) | Some c \<Rightarrow> (Inr (length c), w))"

definition sys_sync_data :: "world \<Rightarrow> unit res \<times> world" where
  "sys_sync_data w = (if w_sync w then syscall (\<lambda>w. (Inr (), w)) w else (Inr (), w))"

definition sys_rename :: "string \<Rightarrow> string \<Rightarrow> world \<Rightarrow> unit res \<times> world" where
  "sys_rename src dst = syscall (\<lambda>w. case w_files w src of
     None \<Rightarrow> (not_found, w)
   | Some c \<Rightarrow> (Inr (), set_file dst (Some c) (set_file src None w)))"

definition sys_remove :: "string \<Rightarrow> world \<Rightarrow> unit res \<times> world" where
  "sys_remove path = syscall (\<lambda>w. case w_files w path of
     None \<Rightarrow> (not_found, w) | Some _ \<Rightarrow> (Inr (), set_file path None w))"

definition sys_set_len :: "string \<Rightarrow> nat \<Rightarrow> world \<Rightarrow> unit res \<times> world" where
  "sys_set_len path n = syscall (\<lambda>w. case w_files w path of
     None \<Rightarrow> (not_found, w)
   | Some c \<Rightarrow> (Inr (), set_file path (Some (take n c @ replicate (n - length c) 0)) w))"

definition splice :: "bytes \<Rightarrow> nat \<Rightarrow> bytes \<Rightarrow> bytes" where
  "splice c off d = take off c @ replicate (off - length c) 0 @ d @ drop (off + length d) c"

text \<open>\<open>write_at\<close> transfers a prefix of its buffer and returns how many bytes it wrote.\<close>

definition sys_write_at :: "string \<Rightarrow> bytes \<Rightarrow> nat \<Rightarrow> world \<Rightarrow> nat res \<times> world" where
  "sys_write_at path buf off w =
     (case next_event w of
        (OsFail e, w') \<Rightarrow> (Inl (Io e), w')
      | (ev, w') \<Rightarrow>
          let n = (case ev of OsCount k \<Rightarrow> min k (length buf) | _ \<Rightarrow> length buf) in
          (case w_files w' path of
             None \<Rightarrow> (not_found, w')
           | Some c \<Rightarrow> (Inr n, set_file path (Some (if n = 0 then c else splice c off (take n buf))) w')))"

text \<open>\<open>read_at\<close> returns a non-empty prefix of what is left, and nothing only at the end of the file.\<close>

definition sys_read_at :: "string \<Rightarrow> nat \<Rightarrow> nat \<Rightarrow> world \<Rightarrow> bytes res \<times> world" where
  "sys_read_at path cap off w =
     (case next_event w of
        (OsFail e, w') \<Rightarrow> (Inl (Io e), w')
      | (ev, w') \<Rightarrow>
          (case w_files w' path of
             None \<Rightarrow> (not_found, w')
           | Some c \<Rightarrow>
               let avail = take cap (drop off c) in
               (Inr (case ev of OsCount k \<Rightarrow> take (max 1 k) avail | _ \<Rightarrow> avail), w')))"


section \<open>Requests and paths\<close>

record IORequest =
  rq_path :: string
  rq_offset :: nat
  rq_length :: nat

text \<open>\<open>Path::with_extension\<close>: the text after the last dot of the file name is replaced.\<close>

definition last_index :: "char \<Rightarrow> string \<Rightarrow> nat option" where
  "last_index c s = (if c \<in> set s then Some (length s - 1 - length (takeWhile (\<lambda>x. x \<noteq> c) (rev s))) else None)"

definition file_name_start :: "string \<Rightarrow> nat" where
  "file_name_start p = length p - length (takeWhile (\<lambda>x. x \<noteq> slash) (rev p))"

definition file_stem_name :: "string \<Rightarrow> string" where
  "file_stem_name name =
     (if name = ''..'' then name
      else case last_index CHR ''.'' name of
        None \<Rightarrow> name
      | Some i \<Rightarrow> if i = 0 then name else take i name)"

definition with_extension :: "string \<Rightarrow> string \<Rightarrow> string" where
  "with_extension p ext =
     (let k = file_name_start p; name = drop k p in
      if name = [] \<or> name = ''..'' then p else take k p @ file_stem_name name @ ''.'' @ ext)"

definition tmp_path :: "string \<Rightarrow> string" where
  "tmp_path p = with_extension p ''tmp''"

definition DIRECT_IO_ALIGN :: nat where "DIRECT_IO_ALIGN = 4096"

definition is_einval :: "kverror \<Rightarrow> bool" where
  "is_einval e = (case e of Io err \<Rightarrow> io_kind err = IoInvalidInput | _ \<Rightarrow> False)"


section \<open>The thread-pool executor\<close>

definition read_to_end :: "string \<Rightarrow> nat \<Rightarrow> world \<Rightarrow> bytes res \<times> world" where
  "read_to_end path off = syscall (\<lambda>w. case w_files w path of
     None \<Rightarrow> (not_found, w) | Some c \<Rightarrow> (Inr (drop off c), w))"

definition read_exact_at :: "string \<Rightarrow> nat \<Rightarrow> nat \<Rightarrow> world \<Rightarrow> bytes res \<times> world" where
  "read_exact_at path off n = syscall (\<lambda>w. case w_files w path of
     None \<Rightarrow> (not_found, w)
   | Some c \<Rightarrow> if length (drop off c) < n
       then (Inl (Io (IoError IoUnexpectedEof ''failed to fill whole buffer'')), w)
       else (Inr (take n (drop off c)), w))"

definition read_file_impl :: "IORequest \<Rightarrow> world \<Rightarrow> bytes res \<times> world" where
  "read_file_impl req w =
     io_step (sys_open (rq_path req) w) (\<lambda>_ w1.
       if rq_length req > 0 then read_exact_at (rq_path req) (rq_offset req) (rq_length req) w1
       else io_step (sys_file_len (rq_path req) w1) (\<lambda>_ w2. read_to_end (rq_path req) (rq_offset req) w2))"

text \<open>\<open>write_all\<close> at the current end of a freshly created file: retries until everything is written.\<close>

function pwrite_loop :: "string \<Rightarrow> kverror \<Rightarrow> bytes \<Rightarrow> nat \<Rightarrow> nat \<Rightarrow> world \<Rightarrow> unit res \<times> world" where
  "pwrite_loop path zero buf base written w =
     (if written < length buf then
        (case sys_write_at path (drop written buf) (base + written) w of
           (Inl e, w1) \<Rightarrow> (Inl e, w1)
         | (Inr n, w1) \<Rightarrow>
             if n = 0 then (Inl zero, w1) else pwrite_loop path zero buf base (written + n) w1)
      else (Inr (), w))"
  by pat_completeness auto
termination
  by (relation "measure (\<lambda>(path, zero, buf, base, written, w). length buf - written)") auto

declare pwrite_loop.simps [simp del]

definition write_zero_error :: kverror where
  "write_zero_error = Io (IoError IoWriteZero ''failed to write whole buffer'')"

definition write_file_impl :: "IORequest \<Rightarrow> bytes \<Rightarrow> world \<Rightarrow> unit res \<times> world" where
  "write_file_impl req data w =
     io_step (sys_create_dir_all (rq_path req) w) (\<lambda>_ w1.
     io_step (sys_create (tmp_path (rq_path req)) w1) (\<lambda>_ w2.
     io_step (pwrite_loop (tmp_path (rq_path req)) write_zero_error data 0 0 w2) (\<lambda>_ w3.
     io_step (sys_sync_data w3) (\<lambda>_ w4.
       sys_rename (tmp_path (rq_path req)) (rq_path req) w4))))"


text \<open>
  The vectored fallback: \<open>advance\<close> is the inner loop that skips the segments a partial \<open>writev\<close>
  covered completely, returning how many and the bytes left over.
\<close>

fun advance :: "bytes list \<Rightarrow> nat \<Rightarrow> nat \<times> nat" where
  "advance [] r = (0, r)"
| "advance (s # ss) r =
     (if length s \<le> r then (case advance ss (r - length s) of (k, r') \<Rightarrow> (Suc k, r')) else (0, r))"

definition iov :: "bytes list \<Rightarrow> nat \<Rightarrow> nat \<Rightarrow> bytes" where
  "iov segments start offset = drop offset (segments ! start) @ concat (drop (Suc start) segments)"

definition next_iov :: "bytes list \<Rightarrow> nat \<Rightarrow> nat \<Rightarrow> nat \<Rightarrow> nat \<times> nat" where
  "next_iov segments start offset n =
     (let first_avail = length (segments ! start) - offset in
      if n < first_avail then (start, offset + n)
      else (case advance (drop (Suc start) segments) (n - first_avail) of
        (k, remaining) \<Rightarrow>
          (Suc start + k, if remaining > 0 \<and> Suc start + k < length segments then remaining else 0)))"

lemma advance_spec:
  assumes "advance ss r = (k, r')" "r \<le> length (concat ss)"
  shows "k \<le> length ss \<and> r' + length (concat (take k ss)) = r
    \<and> (k < length ss \<longrightarrow> r' < length (ss ! k)) \<and> (k = length ss \<longrightarrow> r' = 0)"
  using assms
proof (induction ss r arbitrary: k r' rule: advance.induct)
  case (2 s ss r)
  show ?case
  proof (cases "length s \<le> r")
    case True
    obtain k0 r0 where k0: "advance ss (r - length s) = (k0, r0)" by fastforce
    with True 2 have "k = Suc k0" "r' = r0" by auto
    with 2 True k0 show ?thesis by fastforce
  qed (use 2 in auto)
qed auto

lemma next_iov_spec:
  assumes "start < length segments" "offset \<le> length (segments ! start)" "n \<le> length (iov segments start offset)"
    "next_iov segments start offset n = (start', offset')"
  shows "start' \<le> length segments" "start' < length segments \<Longrightarrow> offset' \<le> length (segments ! start')"
    "(if start' < length segments then iov segments start' offset' else []) = drop n (iov segments start offset)"
proof -
  let ?rest = "drop (Suc start) segments" and ?first = "length (segments ! start) - offset"
  have "start' \<le> length segments \<and> (start' < length segments \<longrightarrow> offset' \<le> length (segments ! start'))
    \<and> (if start' < length segments then iov segments start' offset' else []) = drop n (iov segments start offset)"
  proof (cases "n < ?first")
    case True
    then have "start' = start" "offset' = offset + n" using assms(4) by (auto simp: next_iov_def)
    with True assms(1) show ?thesis by (simp add: iov_def add.commute)
  next
    case False
    obtain k r where a: "advance ?rest (n - ?first) = (k, r)" by fastforce
    have le: "n - ?first \<le> length (concat ?rest)" using assms(3) False by (simp add: iov_def)
    note sp = advance_spec [OF a le]
    have s': "start' = Suc start + k" "offset' = (if 0 < r \<and> Suc start + k < length segments then r else 0)"
      using assms(4) False a by (auto simp: next_iov_def)
    have split: "concat ?rest = concat (take k ?rest) @ concat (drop k ?rest)"
      by (metis append_take_drop_id concat_append)
    have dr: "drop n (iov segments start offset) = drop (n - ?first) (concat ?rest)"
      using False by (simp add: iov_def)
    also have "\<dots> = drop (r + length (concat (take k ?rest))) (concat (take k ?rest) @ concat (drop k ?rest))"
      using sp split by (simp only:)
    also have "\<dots> = drop r (concat (drop k ?rest))" by simp
    finally have d: "drop n (iov segments start offset) = drop r (concat (drop k ?rest))" .
    show ?thesis
    proof (cases "k < length ?rest")
      case True
      then have st: "start' < length segments" using s'(1) by simp
      have off: "offset' = r" using s'(2) st s'(1) by auto
      have nth: "?rest ! k = segments ! start'" using True s'(1) by simp
      have "drop k ?rest = segments ! start' # drop (Suc start') segments"
        using st s'(1) by (simp add: Cons_nth_drop_Suc drop_drop add.commute)
      then have "drop r (concat (drop k ?rest)) = iov segments start' offset'"
        using sp True nth off by (simp add: iov_def)
      with st d sp True nth off show ?thesis by simp
    next
      case False
      then have "k = length ?rest" "r = 0" using sp by auto
      moreover from this s'(1) assms(1) have "start' = length segments" by simp
      ultimately show ?thesis using d by simp
    qed
  qed
  then show "start' \<le> length segments" "start' < length segments \<Longrightarrow> offset' \<le> length (segments ! start')"
    "(if start' < length segments then iov segments start' offset' else []) = drop n (iov segments start offset)"
    by auto
qed

lemma sys_write_at_bound: "sys_write_at path buf off w = (Inr n, w') \<Longrightarrow> n \<le> length buf"
  by (auto simp: sys_write_at_def Let_def not_found_def split: prod.splits os_event.splits option.splits)

function writev_loop :: "string \<Rightarrow> bytes list \<Rightarrow> nat \<Rightarrow> nat \<Rightarrow> nat \<Rightarrow> world \<Rightarrow> unit res \<times> world" where
  "writev_loop path segments start offset pos w =
     (if start < length segments \<and> offset \<le> length (segments ! start) then
        (case sys_write_at path (iov segments start offset) pos w of
           (Inl e, w1) \<Rightarrow> (Inl e, w1)
         | (Inr n, w1) \<Rightarrow>
             if n = 0 then (Inl (Internal ''writev returned 0 bytes''), w1)
             else (case next_iov segments start offset n of (start', offset') \<Rightarrow>
               writev_loop path segments start' offset' (pos + n) w1))
      else (Inr (), w))"
  by pat_completeness auto
termination
proof (relation "measure (\<lambda>(path, segments, start, offset, pos, w).
    if start < length segments then length (iov segments start offset) else 0)", goal_cases)
  case (2 path segments start offset pos w r w1 n start' offset')
  then have n: "sys_write_at path (iov segments start offset) pos w = (Inr n, w1)" "0 < n" by auto
  note bound = sys_write_at_bound [OF n(1)]
  note sp = next_iov_spec [of start segments offset n start' offset']
  have "(if start' < length segments then length (iov segments start' offset') else 0)
      = length (drop n (iov segments start offset))"
    using sp(3) 2 bound by (auto split: if_splits)
  with 2 n(2) bound show ?case by auto
qed simp

declare writev_loop.simps [simp del]

text \<open>
  The loop test of the source is \<open>start < segments.len()\<close> only; \<open>offset\<close> never passes the end of
  the current segment, as \<open>next_iov_spec\<close> shows, so the added bound never ends the loop.
\<close>

definition write_vec_impl_buffered :: "IORequest \<Rightarrow> bytes list \<Rightarrow> string \<Rightarrow> world \<Rightarrow> unit res \<times> world" where
  "write_vec_impl_buffered req segments tmp w =
     io_step (sys_create tmp w) (\<lambda>_ w1.
     io_step (writev_loop tmp segments 0 0 0 w1) (\<lambda>_ w2.
     io_step (sys_sync_data w2) (\<lambda>_ w3. sys_rename tmp (rq_path req) w3)))"

definition align_up :: "nat \<Rightarrow> nat" where
  "align_up n = align_up64 n DIRECT_IO_ALIGN"

definition direct_zero_error :: kverror where
  "direct_zero_error = Internal ''O_DIRECT pwrite returned 0''"

definition truncate_to :: "string \<Rightarrow> nat \<Rightarrow> world \<Rightarrow> unit res \<times> world" where
  "truncate_to path n w = io_step (sys_open path w) (\<lambda>_ w1. sys_set_len path n w1)"

definition write_vec_impl :: "IORequest \<Rightarrow> bytes list \<Rightarrow> world \<Rightarrow> unit res \<times> world" where
  "write_vec_impl req segments w =
     (let tmp = tmp_path (rq_path req);
          total = length (concat segments);
          aligned_len = align_up total
      in io_step (sys_create_dir_all (rq_path req) w) (\<lambda>_ w1.
         (case sys_create tmp w1 of
            (Inr _, w2) \<Rightarrow>
              io_step (pwrite_loop tmp direct_zero_error
                  (concat segments @ replicate (aligned_len - total) 0) 0 0 w2) (\<lambda>_ w3.
              io_step (sys_sync_data w3) (\<lambda>_ w4.
              io_step (if aligned_len \<noteq> total then truncate_to tmp total w4 else (Inr (), w4)) (\<lambda>_ w5.
                sys_rename tmp (rq_path req) w5)))
          | (Inl e, w2) \<Rightarrow>
              if is_einval e then write_vec_impl_buffered req segments tmp w2 else (Inl e, w2))))"

definition write_aligned_impl :: "IORequest \<Rightarrow> (nat \<Rightarrow> u8) \<Rightarrow> nat \<Rightarrow> nat \<Rightarrow> world \<Rightarrow> unit res \<times> world" where
  "write_aligned_impl req mem ptr len w =
     (let tmp = tmp_path (rq_path req);
          aligned_down = len div DIRECT_IO_ALIGN * DIRECT_IO_ALIGN;
          tail = len - aligned_down
      in io_step (sys_create_dir_all (rq_path req) w) (\<lambda>_ w1.
         if ptr mod DIRECT_IO_ALIGN \<noteq> 0 then (Inl (Internal ''write_aligned_impl: ptr not 4K-aligned''), w1)
         else (case sys_create tmp w1 of
            (Inr _, w2) \<Rightarrow>
              io_step (if aligned_down > 0
                  then pwrite_loop tmp direct_zero_error (load_bytes ptr aligned_down mem) 0 0 w2
                  else (Inr (), w2)) (\<lambda>_ w3.
              io_step (if tail > 0
                  then pwrite_loop tmp (Internal ''O_DIRECT pwrite tail returned 0'')
                    (load_bytes (ptr + aligned_down) tail mem @ replicate (DIRECT_IO_ALIGN - tail) 0)
                    aligned_down 0 w3
                  else (Inr (), w3)) (\<lambda>_ w4.
              io_step (sys_sync_data w4) (\<lambda>_ w5.
              io_step (if tail > 0 then truncate_to tmp len w5 else (Inr (), w5)) (\<lambda>_ w6.
                sys_rename tmp (rq_path req) w6))))
          | (Inl e, w2) \<Rightarrow>
              if is_einval e then
                io_step (sys_create tmp w2) (\<lambda>_ w3.
                io_step (pwrite_loop tmp write_zero_error (load_bytes ptr len mem) 0 0 w3) (\<lambda>_ w4.
                  sys_rename tmp (rq_path req) w4))
              else (Inl e, w2))))"

definition read_buffered_to_bytes :: "string \<Rightarrow> nat \<Rightarrow> world \<Rightarrow> bytes res \<times> world" where
  "read_buffered_to_bytes path file_size w =
     io_step (sys_open path w) (\<lambda>_ w1. read_to_end path 0 w1)"

text \<open>
  The O_DIRECT read loop.  \<open>Inr None\<close> is the early return to the buffered path, taken when a read
  stops at an unaligned position before \<open>aligned_len\<close>.
\<close>

function read_loop :: "string \<Rightarrow> nat \<Rightarrow> nat \<Rightarrow> bytes \<Rightarrow> world \<Rightarrow> bytes option res \<times> world" where
  "read_loop path aligned_len file_size acc w =
     (if length acc < aligned_len then
        (case sys_read_at path (aligned_len - length acc) (length acc) w of
           (Inl e, w1) \<Rightarrow> (Inl e, w1)
         | (Inr d, w1) \<Rightarrow>
             if d = [] then (Inr (Some acc), w1)
             else if length (acc @ d) < aligned_len \<and> length (acc @ d) mod DIRECT_IO_ALIGN \<noteq> 0 then (Inr None, w1)
             else if length (acc @ d) \<ge> file_size then (Inr (Some (acc @ d)), w1)
             else read_loop path aligned_len file_size (acc @ d) w1)
      else (Inr (Some acc), w))"
  by pat_completeness auto
termination
  by (relation "measure (\<lambda>(path, aligned_len, file_size, acc, w). aligned_len - length acc)")
    (auto simp: length_greater_0_conv intro!: diff_less_mono2)

declare read_loop.simps [simp del]

text \<open>\<open>stale\<close> is what the pooled buffer held before; the first \<open>file_size\<close> bytes of it are returned.\<close>

definition read_aligned_impl :: "bytes \<Rightarrow> string \<Rightarrow> world \<Rightarrow> bytes res \<times> world" where
  "read_aligned_impl stale path w =
     io_step (sys_file_len path w) (\<lambda>file_size w1.
       if file_size = 0 then (Inr [], w1)
       else (case sys_open path w1 of
          (Inl e, w2) \<Rightarrow> if is_einval e then read_buffered_to_bytes path file_size w2 else (Inl e, w2)
        | (Inr _, w2) \<Rightarrow>
            io_step (read_loop path (align_up file_size) file_size [] w2) (\<lambda>r w3.
              case r of
                None \<Rightarrow> read_buffered_to_bytes path file_size w3
              | Some got \<Rightarrow> (Inr (take file_size (got @ drop (length got) stale)), w3))))"

definition delete_file :: "string \<Rightarrow> world \<Rightarrow> unit res \<times> world" where
  "delete_file path w = (if w_files w path \<noteq> None then sys_remove path w else (Inr (), w))"

definition file_exists :: "string \<Rightarrow> world \<Rightarrow> bool" where
  "file_exists path w = (w_files w path \<noteq> None)"

fun run_batch :: "('r \<Rightarrow> 'w \<Rightarrow> 'a res \<times> 'w) \<Rightarrow> 'r list \<Rightarrow> 'w \<Rightarrow> 'a res list \<times> 'w" where
  "run_batch job [] w = ([], w)"
| "run_batch job (r # rs) w =
     (case job r w of (x, w1) \<Rightarrow> (case run_batch job rs w1 of (xs, w2) \<Rightarrow> (x # xs, w2)))"

definition tier_a_read_file :: "string \<Rightarrow> world \<Rightarrow> bytes res \<times> world" where
  "tier_a_read_file path = read_file_impl \<lparr> rq_path = path, rq_offset = 0, rq_length = 0 \<rparr>"

definition tier_a_write_file :: "string \<Rightarrow> bytes \<Rightarrow> world \<Rightarrow> unit res \<times> world" where
  "tier_a_write_file path data = write_file_impl \<lparr> rq_path = path, rq_offset = 0, rq_length = length data \<rparr> data"

definition tier_a_read_batch :: "IORequest list \<Rightarrow> world \<Rightarrow> bytes res list \<times> world" where
  "tier_a_read_batch = run_batch read_file_impl"

definition tier_a_write_batch :: "(IORequest \<times> bytes) list \<Rightarrow> world \<Rightarrow> unit res list \<times> world" where
  "tier_a_write_batch = run_batch (\<lambda>(req, data). write_file_impl req data)"

definition tier_a_write_batch_vectored :: "(IORequest \<times> bytes list) list \<Rightarrow> world \<Rightarrow> unit res list \<times> world" where
  "tier_a_write_batch_vectored = run_batch (\<lambda>(req, segments). write_vec_impl req segments)"

definition tier_a_write_aligned_batch ::
  "(nat \<Rightarrow> u8) \<Rightarrow> (IORequest \<times> nat \<times> nat) list \<Rightarrow> world \<Rightarrow> unit res list \<times> world" where
  "tier_a_write_aligned_batch mem = run_batch (\<lambda>(req, ptr, len). write_aligned_impl req mem ptr len)"

definition tier_a_read_aligned_batch :: "IORequest list \<Rightarrow> world \<Rightarrow> bytes res list \<times> world" where
  "tier_a_read_aligned_batch = run_batch (\<lambda>req w. read_aligned_impl (w_pool w (rq_path req)) (rq_path req) w)"


section \<open>Effects on the file map\<close>

text \<open>\<open>only P w w'\<close>: going from \<open>w\<close> to \<open>w'\<close> changed no file outside \<open>P\<close>.\<close>

definition only :: "string set \<Rightarrow> world \<Rightarrow> world \<Rightarrow> bool" where
  "only P w w' \<longleftrightarrow> (\<forall>q. q \<notin> P \<longrightarrow> w_files w' q = w_files w q) \<and> w_sync w' = w_sync w"

lemma only_refl [simp]: "only P w w"
  by (simp add: only_def)

lemma only_trans: "only P w w1 \<Longrightarrow> only P w1 w2 \<Longrightarrow> only P w w2"
  by (simp add: only_def)

lemma only_mono: "only P w w' \<Longrightarrow> P \<subseteq> Q \<Longrightarrow> only Q w w'"
  by (auto simp: only_def)

lemma next_event_files [simp]:
  "next_event w = (e, w') \<Longrightarrow> w_files w' = w_files w"
  "next_event w = (e, w') \<Longrightarrow> w_sync w' = w_sync w"
  by (auto simp: next_event_def split: list.splits)

lemma set_file_simps [simp]:
  "w_files (set_file p c w) = (w_files w)(p := c)" "w_sync (set_file p c w) = w_sync w"
  by (simp_all add: set_file_def)

lemma io_step_Inr:
  "io_step r f = (Inr y, w') \<longleftrightarrow> (\<exists>x w1. r = (Inr x, w1) \<and> f x w1 = (Inr y, w'))"
  by (auto simp: io_step_def split: prod.splits sum.splits)

lemma io_step_ok: "io_step (Inr x, w) f = f x w"
  by (simp add: io_step_def)

lemma io_step_cases:
  assumes "io_step r f = (y, w')"
  obtains e where "r = (Inl e, w')" "y = Inl e" | x w1 where "r = (Inr x, w1)" "f x w1 = (y, w')"
  using assms by (auto simp: io_step_def split: prod.splits sum.splits)

lemma only_syscall: "(\<And>w0. only P w0 (snd (act w0))) \<Longrightarrow> only P w (snd (syscall act w))"
  by (auto simp: syscall_def only_def split: prod.splits os_event.splits)

lemma syscall_Inr: "syscall act w = (Inr x, w') \<Longrightarrow> \<exists>w0. w_files w0 = w_files w \<and> w_sync w0 = w_sync w \<and> act w0 = (Inr x, w')"
  by (auto simp: syscall_def split: prod.splits os_event.splits intro: next_event_files)

lemma only_sys:
  "only P w (snd (sys_create_dir_all path w))" "only P w (snd (sys_open path w))"
  "only P w (snd (sys_file_len path w))" "only P w (snd (sys_sync_data w))"
  "only P w (snd (read_to_end path off w))" "only P w (snd (read_exact_at path off n w))"
  unfolding sys_create_dir_all_def sys_open_def sys_file_len_def sys_sync_data_def read_to_end_def
    read_exact_at_def
  by (auto intro!: only_syscall split: option.splits)

lemma only_sys_write:
  "only {path} w (snd (sys_create path w))" "only {path} w (snd (sys_set_len path n w))"
  "only {path} w (snd (sys_remove path w))"
proof -
  show "only {path} w (snd (sys_create path w))"
    unfolding sys_create_def by (rule only_syscall) (simp add: only_def)
  show "only {path} w (snd (sys_set_len path n w))"
    unfolding sys_set_len_def by (rule only_syscall) (simp add: only_def split: option.splits)
  show "only {path} w (snd (sys_remove path w))"
    unfolding sys_remove_def by (rule only_syscall) (simp add: only_def split: option.splits)
qed

lemma only_write_at: "only {path} w (snd (sys_write_at path buf off w))"
  by (auto simp: sys_write_at_def only_def Let_def split: prod.splits os_event.splits option.splits)

lemma only_read_at: "only P w (snd (sys_read_at path cap off w))"
  by (auto simp: sys_read_at_def only_def Let_def split: prod.splits os_event.splits option.splits)

lemma sys_write_at_append:
  assumes "sys_write_at path buf off w = (Inr n, w')" "w_files w path = Some c" "off = length c"
  shows "w_files w' path = Some (c @ take n buf)" "n \<le> length buf"
  using assms
  by (auto simp: sys_write_at_def Let_def splice_def not_found_def
      split: prod.splits os_event.splits option.splits if_splits)

lemma pwrite_loop_spec:
  assumes "w_files w path = Some c" "length c = base + written"
    "pwrite_loop path zero buf base written w = (r, w')"
  shows "only {path} w w' \<and> (r = Inr () \<longrightarrow> w_files w' path = Some (c @ drop written buf))"
  using assms
proof (induction path zero buf base written w arbitrary: c r w' rule: pwrite_loop.induct)
  case (1 path zero buf base written w)
  note IH = 1(1) and content = 1(2,3) and run = 1(4) [unfolded pwrite_loop.simps [of path zero buf base written]]
  show ?case
  proof (cases "written < length buf")
    case True
    obtain x w1 where x: "sys_write_at path (drop written buf) (base + written) w = (x, w1)" by fastforce
    have o1: "only {path} w w1" using only_write_at [of path w "drop written buf" "base + written"] by (simp add: x)
    consider (err) e where "x = Inl e" | (zero) "x = Inr 0" | (some) n where "x = Inr n" "n \<noteq> 0"
      by (cases x) auto
    then show ?thesis
    proof cases
      case err
      then have "r = Inl e" "w' = w1" using run True x by simp_all
      with o1 show ?thesis by simp
    next
      case zero
      then have "r = Inl zero" "w' = w1" using run True x by simp_all
      with o1 show ?thesis by simp
    next
      case some
      have f: "w_files w1 path = Some (c @ take n (drop written buf))" "n \<le> length (drop written buf)"
        by (rule sys_write_at_append [OF x [unfolded some(1)] content(1)], simp add: content(2))+
      have l: "pwrite_loop path zero buf base (written + n) w1 = (r, w')"
        using run True x some by simp
      have "only {path} w1 w' \<and> (r = Inr () \<longrightarrow> w_files w' path = Some ((c @ take n (drop written buf)) @ drop (written + n) buf))"
        by (rule IH [OF True x [symmetric] some(1) some(2) f(1) _ l]) (use f content in auto)
      moreover have "drop (written + n) buf = drop n (drop written buf)" by (simp add: add.commute)
      ultimately have "only {path} w1 w'" "r = Inr () \<longrightarrow> w_files w' path = Some (c @ drop written buf)"
        by (simp_all del: drop_drop)
      then show ?thesis using only_trans [OF o1] by blast
    qed
  qed (use run content in auto)
qed

lemma writev_loop_spec:
  assumes "w_files w path = Some c" "length c = pos"
    "start < length segments \<Longrightarrow> offset \<le> length (segments ! start)"
    "writev_loop path segments start offset pos w = (r, w')"
  shows "only {path} w w' \<and> (r = Inr () \<longrightarrow>
    w_files w' path = Some (c @ (if start < length segments then iov segments start offset else [])))"
  using assms
proof (induction path segments start offset pos w arbitrary: c r w' rule: writev_loop.induct)
  case (1 path segments start offset pos w)
  note IH = 1(1) and content = 1(2,3) and run = 1(5) [unfolded writev_loop.simps [of path segments start offset pos w]]
  show ?case
  proof (cases "start < length segments")
    case True
    then have cond: "start < length segments \<and> offset \<le> length (segments ! start)" using 1(4) by simp
    obtain x w1 where x: "sys_write_at path (iov segments start offset) pos w = (x, w1)" by fastforce
    have o1: "only {path} w w1" using only_write_at [of path w "iov segments start offset" pos] by (simp add: x)
    consider (err) e where "x = Inl e" | (zero) "x = Inr 0" | (some) n where "x = Inr n" "n \<noteq> 0"
      by (cases x) auto
    then show ?thesis
    proof cases
      case err
      then have "r = Inl e" "w' = w1" using run cond x by simp_all
      with o1 show ?thesis by simp
    next
      case zero
      then have "is_ok r = False" "w' = w1" using run cond x by auto
      with o1 show ?thesis by auto
    next
      case some
      have f: "w_files w1 path = Some (c @ take n (iov segments start offset))" "n \<le> length (iov segments start offset)"
        by (rule sys_write_at_append [OF x [unfolded some(1)] content(1)], simp add: content(2))+
      obtain st of' where nx: "next_iov segments start offset n = (st, of')" by fastforce
      note sp = next_iov_spec [OF cond [THEN conjunct1] cond [THEN conjunct2] f(2) nx]
      have l: "writev_loop path segments st of' (pos + n) w1 = (r, w')"
        using run cond x some nx by simp
      have "only {path} w1 w' \<and> (r = Inr () \<longrightarrow> w_files w' path =
          Some ((c @ take n (iov segments start offset)) @ (if st < length segments then iov segments st of' else [])))"
        by (rule IH [OF cond x [symmetric] some(1) some(2) nx [symmetric] f(1) _ sp(2) l]) (use f content in auto)
      then have "only {path} w1 w'" "r = Inr () \<longrightarrow> w_files w' path = Some (c @ iov segments start offset)"
        unfolding sp(3) by simp_all
      then show ?thesis using only_trans [OF o1] True by simp
    qed
  qed (use run content in auto)
qed


section \<open>Writes are atomic\<close>

text \<open>
  \<open>commit_ok tmp path data w r\<close>: a write either failed and touched nothing but the temporary file,
  or put exactly \<open>data\<close> at \<open>path\<close>.
\<close>

definition commit_ok :: "string \<Rightarrow> string \<Rightarrow> bytes \<Rightarrow> world \<Rightarrow> unit res \<times> world \<Rightarrow> bool" where
  "commit_ok tmp path data w r \<longleftrightarrow>
     (case fst r of
        Inl _ \<Rightarrow> only {tmp} w (snd r)
      | Inr _ \<Rightarrow> only {tmp, path} w (snd r) \<and> w_files (snd r) path = Some data)"

lemma commit_step:
  assumes "only {tmp} w (snd r)" "\<And>x w1. r = (Inr x, w1) \<Longrightarrow> commit_ok tmp path data w1 (f x w1)"
  shows "commit_ok tmp path data w (io_step r f)"
proof (cases r)
  case (Pair x w1)
  show ?thesis
  proof (cases x)
    case (Inl e)
    then show ?thesis using assms(1) Pair by (simp add: io_step_def commit_ok_def)
  next
    case (Inr y)
    have "only {tmp, path} w w1" using assms(1) Pair by (auto intro: only_mono)
    then show ?thesis
      using assms Pair Inr only_trans [of "{tmp}" w w1] only_trans [of "{tmp, path}" w w1]
      by (auto simp: io_step_def commit_ok_def split: sum.splits)
  qed
qed

lemma commit_rename:
  assumes "w_files w tmp = Some data" "tmp \<noteq> path"
  shows "commit_ok tmp path data w (sys_rename tmp path w)"
proof -
  obtain ev w1 where e: "next_event w = (ev, w1)" by fastforce
  have f: "w_files w1 = w_files w" "w_sync w1 = w_sync w" using next_event_files [OF e] by simp_all
  show ?thesis
    using assms by (cases ev) (simp_all add: sys_rename_def syscall_def e commit_ok_def only_def f)
qed

lemma commit_fail: "only {tmp} w w1 \<Longrightarrow> commit_ok tmp path data w (Inl e, w1)"
  by (simp add: commit_ok_def)

lemma sys_create_Inr: "sys_create path w = (Inr x, w') \<Longrightarrow> w_files w' path = Some []"
  unfolding sys_create_def by (drule syscall_Inr) auto

lemma sync_files: "sys_sync_data w = (Inr x, w') \<Longrightarrow> w_files w' = w_files w"
  unfolding sys_sync_data_def by (auto dest!: syscall_Inr split: if_splits)

lemma pwrite_fresh:
  assumes "w_files w path = Some c" "length c = base"
  shows "only {path} w (snd (pwrite_loop path zero buf base 0 w))"
    "pwrite_loop path zero buf base 0 w = (Inr x, w') \<Longrightarrow> w_files w' path = Some (c @ buf)"
proof -
  obtain r w1 where r: "pwrite_loop path zero buf base 0 w = (r, w1)" by fastforce
  note sp = pwrite_loop_spec [OF assms(1) _ r] assms(2)
  then show "only {path} w (snd (pwrite_loop path zero buf base 0 w))" by (simp add: r)
  assume "pwrite_loop path zero buf base 0 w = (Inr x, w')"
  with sp r show "w_files w' path = Some (c @ buf)" by simp
qed

lemma truncate_ok:
  assumes "w_files w path = Some c"
  shows "only {path} w (snd (truncate_to path n w))"
    "truncate_to path n w = (Inr x, w') \<Longrightarrow> n \<le> length c \<Longrightarrow> w_files w' path = Some (take n c)"
proof -
  obtain o1 w1 where o: "sys_open path w = (o1, w1)" by fastforce
  have f: "only {path} w w1" "w_files w1 = w_files w"
    using only_sys(2) [of "{path}" w path] only_sys(2) [of "{}" w path] by (auto simp: o only_def)
  then show "only {path} w (snd (truncate_to path n w))"
    using only_trans [OF f(1) only_sys_write(2)] by (simp add: truncate_to_def o io_step_def split: sum.splits)
  assume "truncate_to path n w = (Inr x, w')" "n \<le> length c"
  then show "w_files w' path = Some (take n c)"
    using assms f(2)
    by (auto simp: truncate_to_def o io_step_Inr sys_set_len_def not_found_def dest!: syscall_Inr)
qed

lemma write_file_impl_commit:
  assumes "tmp_path (rq_path req) \<noteq> rq_path req"
  shows "commit_ok (tmp_path (rq_path req)) (rq_path req) data w (write_file_impl req data w)"
  unfolding write_file_impl_def
proof (intro commit_step only_sys only_sys_write)
  fix a w1 b w2
  assume c: "sys_create (tmp_path (rq_path req)) w1 = (Inr b, w2)"
  note f = sys_create_Inr [OF c]
  show "only {tmp_path (rq_path req)} w2 (snd (pwrite_loop (tmp_path (rq_path req)) write_zero_error data 0 0 w2))"
    by (rule pwrite_fresh(1) [OF f]) simp
  fix d w3 e w4
  assume "pwrite_loop (tmp_path (rq_path req)) write_zero_error data 0 0 w2 = (Inr d, w3)"
    "sys_sync_data w3 = (Inr e, w4)"
  then have "w_files w4 (tmp_path (rq_path req)) = Some data"
    using pwrite_fresh(2) [OF f] sync_files by fastforce
  then show "commit_ok (tmp_path (rq_path req)) (rq_path req) data w4 (sys_rename (tmp_path (rq_path req)) (rq_path req) w4)"
    using assms by (rule commit_rename)
qed

lemma writev_fresh:
  assumes "w_files w path = Some []"
  shows "only {path} w (snd (writev_loop path segs 0 0 0 w))"
    "writev_loop path segs 0 0 0 w = (Inr x, w') \<Longrightarrow> w_files w' path = Some (concat segs)"
proof -
  obtain r w1 where r: "writev_loop path segs 0 0 0 w = (r, w1)" by fastforce
  note sp = writev_loop_spec [OF assms _ _ r]
  have whole: "(if 0 < length segs then iov segs 0 0 else []) = concat segs"
    by (cases segs) (simp_all add: iov_def)
  from sp show "only {path} w (snd (writev_loop path segs 0 0 0 w))" by (simp add: r)
  assume "writev_loop path segs 0 0 0 w = (Inr x, w')"
  with sp r whole show "w_files w' path = Some (concat segs)" by simp
qed

lemma write_vec_buffered_commit:
  assumes "tmp \<noteq> rq_path req"
  shows "commit_ok tmp (rq_path req) (concat segs) w (write_vec_impl_buffered req segs tmp w)"
  unfolding write_vec_impl_buffered_def
proof (intro commit_step only_sys only_sys_write)
  fix b w2
  assume c: "sys_create tmp w = (Inr b, w2)"
  note f = sys_create_Inr [OF c]
  show "only {tmp} w2 (snd (writev_loop tmp segs 0 0 0 w2))" by (rule writev_fresh(1) [OF f])
  fix d w3 e w4
  assume "writev_loop tmp segs 0 0 0 w2 = (Inr d, w3)" "sys_sync_data w3 = (Inr e, w4)"
  then have "w_files w4 tmp = Some (concat segs)" using writev_fresh(2) [OF f] sync_files by fastforce
  then show "commit_ok tmp (rq_path req) (concat segs) w4 (sys_rename tmp (rq_path req) w4)"
    using assms by (rule commit_rename)
qed

lemma commit_after:
  assumes "only {tmp} w w1" "commit_ok tmp path data w1 r"
  shows "commit_ok tmp path data w r"
  using assms only_trans [OF assms(1)] only_trans [OF only_mono [OF assms(1)], of "{tmp, path}"]
  by (auto simp: commit_ok_def split: sum.splits)

lemma align_up_ge:
  assumes "n + 4096 \<le> 2 ^ 64"
  shows "n \<le> align_up n" "align_up n < n + 4096"
  using align_up64_pow2 [of 12 n] round_div_bounds [of 4096 n] assms
  by (simp_all add: align_up_def DIRECT_IO_ALIGN_def)

lemma write_vec_impl_commit:
  assumes tmp: "tmp_path (rq_path req) \<noteq> rq_path req" and small: "length (concat segs) + 4096 \<le> 2 ^ 64"
  shows "commit_ok (tmp_path (rq_path req)) (rq_path req) (concat segs) w (write_vec_impl req segs w)"
proof -
  let ?tmp = "tmp_path (rq_path req)" and ?data = "concat segs" and ?al = "align_up (length (concat segs))"
  let ?pad = "replicate (?al - length ?data) (0 :: u8)"
  have al: "length ?data \<le> ?al" using align_up_ge(1) [OF small] .
  have direct: "commit_ok ?tmp (rq_path req) ?data w2
      (io_step (pwrite_loop ?tmp direct_zero_error (?data @ ?pad) 0 0 w2) (\<lambda>_ w3.
       io_step (sys_sync_data w3) (\<lambda>_ w4.
       io_step (if ?al \<noteq> length ?data then truncate_to ?tmp (length ?data) w4 else (Inr (), w4)) (\<lambda>_ w5.
         sys_rename ?tmp (rq_path req) w5))))"
    if f: "w_files w2 ?tmp = Some []" for w2
  proof (intro commit_step only_sys)
    show "only {?tmp} w2 (snd (pwrite_loop ?tmp direct_zero_error (?data @ ?pad) 0 0 w2))"
      by (rule pwrite_fresh(1) [OF f]) simp
    fix d w3 e w4
    assume "pwrite_loop ?tmp direct_zero_error (?data @ ?pad) 0 0 w2 = (Inr d, w3)" "sys_sync_data w3 = (Inr e, w4)"
    then have "w_files w4 ?tmp = Some (?data @ ?pad)" using pwrite_fresh(2) [OF f] sync_files by fastforce
    then show "only {?tmp} w4 (snd (if ?al \<noteq> length ?data then truncate_to ?tmp (length ?data) w4 else (Inr (), w4)))"
      using truncate_ok(1) by simp
    fix g w5
    assume "(if ?al \<noteq> length ?data then truncate_to ?tmp (length ?data) w4 else (Inr (), w4)) = (Inr g, w5)"
    with \<open>w_files w4 ?tmp = Some (?data @ ?pad)\<close> have "w_files w5 ?tmp = Some ?data"
      using truncate_ok(2) [of w4 ?tmp "?data @ ?pad" "length ?data"] al by (auto split: if_splits)
    then show "commit_ok ?tmp (rq_path req) ?data w5 (sys_rename ?tmp (rq_path req) w5)"
      using tmp by (rule commit_rename)
  qed
  show ?thesis
    unfolding write_vec_impl_def Let_def
  proof (intro commit_step only_sys)
    fix a w1
    obtain c w2 where c: "sys_create ?tmp w1 = (c, w2)" by fastforce
    have o: "only {?tmp} w1 w2" using only_sys_write(1) [of ?tmp w1] by (simp add: c)
    show "commit_ok ?tmp (rq_path req) ?data w1
      (case sys_create ?tmp w1 of
            (Inr _, w2) \<Rightarrow>
              io_step (pwrite_loop ?tmp direct_zero_error (?data @ ?pad) 0 0 w2) (\<lambda>_ w3.
              io_step (sys_sync_data w3) (\<lambda>_ w4.
              io_step (if ?al \<noteq> length ?data then truncate_to ?tmp (length ?data) w4 else (Inr (), w4)) (\<lambda>_ w5.
                sys_rename ?tmp (rq_path req) w5)))
          | (Inl e, w2) \<Rightarrow> if is_einval e then write_vec_impl_buffered req segs ?tmp w2 else (Inl e, w2))"
    proof (cases c)
      case (Inl e)
      then show ?thesis
        using commit_after [OF o write_vec_buffered_commit [OF tmp]] commit_fail [OF o] by (simp add: c)
    next
      case (Inr x)
      then have "w_files w2 ?tmp = Some []" using sys_create_Inr c by blast
      from commit_after [OF o direct [OF this]] show ?thesis by (simp add: c Inr)
    qed
  qed
qed

lemma length_load_bytes [simp]: "length (load_bytes a n mem) = n"
  by (simp add: load_bytes_def)

lemma load_bytes_split: "m \<le> n \<Longrightarrow> load_bytes a m mem @ load_bytes (a + m) (n - m) mem = load_bytes a n mem"
  using upt_add_eq_append [of a "a + m" "n - m"] by (simp add: load_bytes_def flip: map_append)

lemma write_aligned_direct_commit:
  assumes tmp: "tmp \<noteq> path" and f: "w_files w2 tmp = Some []"
    and down: "down \<le> len"
  shows "commit_ok tmp path (load_bytes ptr len mem) w2
      (io_step (if down > 0 then pwrite_loop tmp direct_zero_error (load_bytes ptr down mem) 0 0 w2
          else (Inr (), w2)) (\<lambda>_ w3.
       io_step (if len - down > 0 then pwrite_loop tmp z
            (load_bytes (ptr + down) (len - down) mem @ replicate k 0) down 0 w3
          else (Inr (), w3)) (\<lambda>_ w4.
       io_step (sys_sync_data w4) (\<lambda>_ w5.
       io_step (if len - down > 0 then truncate_to tmp len w5 else (Inr (), w5)) (\<lambda>_ w6.
         sys_rename tmp path w6)))))"
proof (rule commit_step)
  show "only {tmp} w2 (snd (if down > 0 then pwrite_loop tmp direct_zero_error (load_bytes ptr down mem) 0 0 w2 else (Inr (), w2)))"
    using pwrite_fresh(1) [OF f] by simp
  fix d w3
  assume "(if down > 0 then pwrite_loop tmp direct_zero_error (load_bytes ptr down mem) 0 0 w2 else (Inr (), w2)) = (Inr d, w3)"
  then have f3: "w_files w3 tmp = Some (load_bytes ptr down mem)"
    using pwrite_fresh(2) [OF f, of 0 direct_zero_error "load_bytes ptr down mem"] f
    by (auto simp: load_bytes_def split: if_splits)
  let ?tail = "load_bytes (ptr + down) (len - down) mem @ replicate k 0"
  show "commit_ok tmp path (load_bytes ptr len mem) w3
      (io_step (if len - down > 0 then pwrite_loop tmp z ?tail down 0 w3 else (Inr (), w3)) (\<lambda>_ w4.
       io_step (sys_sync_data w4) (\<lambda>_ w5.
       io_step (if len - down > 0 then truncate_to tmp len w5 else (Inr (), w5)) (\<lambda>_ w6.
         sys_rename tmp path w6))))"
  proof (intro commit_step only_sys)
    show "only {tmp} w3 (snd (if len - down > 0 then pwrite_loop tmp z ?tail down 0 w3 else (Inr (), w3)))"
      using pwrite_fresh(1) [OF f3, of down] by simp
    fix a w4 b w5
    assume "(if len - down > 0 then pwrite_loop tmp z ?tail down 0 w3 else (Inr (), w3)) = (Inr a, w4)"
      "sys_sync_data w4 = (Inr b, w5)"
    then have f5: "w_files w5 tmp = Some (load_bytes ptr len mem @ (if len - down > 0 then replicate k 0 else []))"
      using pwrite_fresh(2) [OF f3, of down z ?tail a w4] sync_files [of w4 b w5] f3 down
        load_bytes_split [OF down, of ptr mem]
      by (auto split: if_splits)
    then show "only {tmp} w5 (snd (if len - down > 0 then truncate_to tmp len w5 else (Inr (), w5)))"
      using truncate_ok(1) by simp
    fix g w6
    assume "(if len - down > 0 then truncate_to tmp len w5 else (Inr (), w5)) = (Inr g, w6)"
    with f5 have "w_files w6 tmp = Some (load_bytes ptr len mem)"
      using truncate_ok(2) [OF f5, of len g w6] by (auto split: if_splits)
    then show "commit_ok tmp path (load_bytes ptr len mem) w6 (sys_rename tmp path w6)"
      using tmp by (rule commit_rename)
  qed
qed

lemma write_aligned_impl_commit:
  assumes tmp: "tmp_path (rq_path req) \<noteq> rq_path req"
  shows "commit_ok (tmp_path (rq_path req)) (rq_path req) (load_bytes ptr len mem) w
    (write_aligned_impl req mem ptr len w)"
  unfolding write_aligned_impl_def Let_def
proof (rule commit_step [OF only_sys(1)])
  let ?tmp = "tmp_path (rq_path req)" and ?down = "len div DIRECT_IO_ALIGN * DIRECT_IO_ALIGN"
  fix a w1
  obtain c w2 where c: "sys_create ?tmp w1 = (c, w2)" by fastforce
  have o: "only {?tmp} w1 w2" using only_sys_write(1) [of ?tmp w1] by (simp add: c)
  have buffered: "commit_ok ?tmp (rq_path req) (load_bytes ptr len mem) w2
      (io_step (sys_create ?tmp w2) (\<lambda>_ w3.
       io_step (pwrite_loop ?tmp write_zero_error (load_bytes ptr len mem) 0 0 w3) (\<lambda>_ w4.
         sys_rename ?tmp (rq_path req) w4)))"
  proof (intro commit_step only_sys_write)
    fix b w3 assume "sys_create ?tmp w2 = (Inr b, w3)"
    note f = sys_create_Inr [OF this]
    show "only {?tmp} w3 (snd (pwrite_loop ?tmp write_zero_error (load_bytes ptr len mem) 0 0 w3))"
      by (rule pwrite_fresh(1) [OF f]) simp
    fix d w4 assume "pwrite_loop ?tmp write_zero_error (load_bytes ptr len mem) 0 0 w3 = (Inr d, w4)"
    from pwrite_fresh(2) [OF f _ this] tmp
    show "commit_ok ?tmp (rq_path req) (load_bytes ptr len mem) w4 (sys_rename ?tmp (rq_path req) w4)"
      by (intro commit_rename) simp_all
  qed
  show "commit_ok ?tmp (rq_path req) (load_bytes ptr len mem) w1
    (if ptr mod DIRECT_IO_ALIGN \<noteq> 0 then (Inl (Internal ''write_aligned_impl: ptr not 4K-aligned''), w1)
     else (case sys_create ?tmp w1 of
        (Inr _, w2) \<Rightarrow>
          io_step (if ?down > 0 then pwrite_loop ?tmp direct_zero_error (load_bytes ptr ?down mem) 0 0 w2
              else (Inr (), w2)) (\<lambda>_ w3.
          io_step (if len - ?down > 0
              then pwrite_loop ?tmp (Internal ''O_DIRECT pwrite tail returned 0'')
                (load_bytes (ptr + ?down) (len - ?down) mem @ replicate (DIRECT_IO_ALIGN - (len - ?down)) 0) ?down 0 w3
              else (Inr (), w3)) (\<lambda>_ w4.
          io_step (sys_sync_data w4) (\<lambda>_ w5.
          io_step (if len - ?down > 0 then truncate_to ?tmp len w5 else (Inr (), w5)) (\<lambda>_ w6.
            sys_rename ?tmp (rq_path req) w6))))
      | (Inl e, w2) \<Rightarrow>
          if is_einval e then
            io_step (sys_create ?tmp w2) (\<lambda>_ w3.
            io_step (pwrite_loop ?tmp write_zero_error (load_bytes ptr len mem) 0 0 w3) (\<lambda>_ w4.
              sys_rename ?tmp (rq_path req) w4))
          else (Inl e, w2)))"
  proof (cases c)
    case (Inl e)
    then show ?thesis
      using commit_after [OF o buffered] commit_fail [OF o] by (simp add: c commit_fail)
  next
    case (Inr x)
    then have f: "w_files w2 ?tmp = Some []" using sys_create_Inr c by blast
    have le: "?down \<le> len" by simp
    note ok = commit_after [OF o write_aligned_direct_commit [OF tmp f le]]
    show ?thesis
    proof (cases "ptr mod DIRECT_IO_ALIGN \<noteq> 0")
      case True
      then show ?thesis by (simp add: commit_fail)
    next
      case False
      show ?thesis
        unfolding c Inr using False by (simp only: if_False prod.case sum.case not_True_eq_False) (rule ok)
    qed
  qed
qed


section \<open>Reads return the file\<close>

lemma sys_read_at_prefix:
  assumes "sys_read_at path cap off w = (Inr d, w')" "w_files w path = Some c" "0 < cap"
  shows "\<exists>k. d = take k (drop off c)" "d = [] \<Longrightarrow> length c \<le> off"
proof -
  obtain ev w1 where ev: "next_event w = (ev, w1)" by fastforce
  then have "w_files w1 path = Some c" using assms(2) by (simp add: next_event_files(1) [OF ev])
  then have "d = (case ev of OsCount k \<Rightarrow> take (max 1 k) (take cap (drop off c)) | _ \<Rightarrow> take cap (drop off c))"
    using assms(1) ev by (simp add: sys_read_at_def Let_def split: os_event.splits)
  then show "\<exists>k. d = take k (drop off c)" "d = [] \<Longrightarrow> length c \<le> off"
    using assms(3) by (auto simp: max_def split: os_event.splits if_splits)
qed

lemma prefix_extend:
  assumes "acc = take (length acc) c" "d = take k (drop (length acc) c)"
  shows "acc @ d = take (length (acc @ d)) c"
proof -
  have "acc @ d = take (length acc + k) c" using assms by (simp add: take_add)
  then show ?thesis by (simp only: length_take) (cases "length c \<le> length acc + k"; simp)
qed

lemma prefix_whole:
  assumes "acc = take (length acc) c" "length c \<le> length acc"
  shows "acc = c"
  using assms by simp

lemma read_loop_step:
  "read_loop path aligned_len file_size acc w =
     (if length acc < aligned_len then
        (case sys_read_at path (aligned_len - length acc) (length acc) w of
           (Inl e, w1) \<Rightarrow> (Inl e, w1)
         | (Inr d, w1) \<Rightarrow>
             if d = [] then (Inr (Some acc), w1)
             else if length (acc @ d) < aligned_len \<and> length (acc @ d) mod DIRECT_IO_ALIGN \<noteq> 0 then (Inr None, w1)
             else if length (acc @ d) \<ge> file_size then (Inr (Some (acc @ d)), w1)
             else read_loop path aligned_len file_size (acc @ d) w1)
      else (Inr (Some acc), w))"
  by (rule read_loop.simps)

lemma read_loop_spec:
  assumes "w_files w path = Some c" "acc = take (length acc) c" "length c \<le> aligned_len"
    "read_loop path aligned_len (length c) acc w = (r, w')"
  shows "only {} w w' \<and> (\<forall>got. r = Inr (Some got) \<longrightarrow> got = c)"
  using assms
proof (induction "aligned_len - length acc" arbitrary: acc w rule: less_induct)
  case less
  note run = less(5) [unfolded read_loop_step [of path aligned_len "length c" acc w]]
  show ?case
  proof (cases "length acc < aligned_len")
    case True
    obtain x w1 where x: "sys_read_at path (aligned_len - length acc) (length acc) w = (x, w1)" by fastforce
    have o1: "only {} w w1" using only_read_at [of "{}" w path "aligned_len - length acc" "length acc"] by (simp add: x)
    show ?thesis
    proof (cases x)
      case (Inl e)
      then show ?thesis using run True x o1 by auto
    next
      case (Inr d)
      note pre = sys_read_at_prefix [OF x [unfolded Inr] less(2)]
      obtain k where k: "d = take k (drop (length acc) c)" using pre(1) True by auto
      note acc' = prefix_extend [OF less(3) k]
      consider (eof) "d = []"
        | (unaligned) "d \<noteq> []" "length (acc @ d) < aligned_len \<and> length (acc @ d) mod DIRECT_IO_ALIGN \<noteq> 0"
        | (full) "d \<noteq> []" "\<not> (length (acc @ d) < aligned_len \<and> length (acc @ d) mod DIRECT_IO_ALIGN \<noteq> 0)"
            "length c \<le> length (acc @ d)"
        | (again) "d \<noteq> []" "\<not> (length (acc @ d) < aligned_len \<and> length (acc @ d) mod DIRECT_IO_ALIGN \<noteq> 0)"
            "\<not> length c \<le> length (acc @ d)" by blast
      then show ?thesis
      proof cases
        case eof
        then have "acc = c" using prefix_whole [OF less(3)] pre(2) True by simp
        then show ?thesis using run True x Inr o1 eof by auto
      next
        case unaligned
        then show ?thesis using run True x Inr o1 by auto
      next
        case full
        have "acc @ d = c" by (rule prefix_whole [OF acc' full(3)])
        then show ?thesis using run True x Inr o1 full by (auto split: if_splits)
      next
        case again
        then have l: "read_loop path aligned_len (length c) (acc @ d) w1 = (r, w')"
          using run True x Inr by (simp split: if_splits)
        have f: "w_files w1 path = Some c" using o1 less(2) by (simp add: only_def)
        have m: "aligned_len - length (acc @ d) < aligned_len - length acc"
          using True again(1) by (simp add: diff_less_mono2)
        have "only {} w1 w' \<and> (\<forall>got. r = Inr (Some got) \<longrightarrow> got = c)"
          by (rule less(1) [OF m f acc' less(4) l])
        then show ?thesis using only_trans [OF o1] by blast
      qed
    qed
  next
    case False
    then have "acc = c" using prefix_whole [OF less(3)] less(4) by simp
    then show ?thesis using run False by auto
  qed
qed

lemma sys_open_Inr: "sys_open path w = (Inr x, w') \<Longrightarrow> w_files w path \<noteq> None"
  by (auto simp: sys_open_def not_found_def dest!: syscall_Inr split: if_splits)

lemma read_to_end_Inr:
  assumes "read_to_end path off w = (Inr d, w')"
  shows "\<exists>c. w_files w path = Some c \<and> d = drop off c"
proof -
  obtain w0 where "w_files w0 = w_files w"
    "(case w_files w0 path of None \<Rightarrow> (not_found, w0) | Some c \<Rightarrow> (Inr (drop off c), w0)) = (Inr d, w')"
    using syscall_Inr [OF assms [unfolded read_to_end_def]] by blast
  then show ?thesis by (simp add: not_found_def split: option.splits)
qed

lemma only_io_step:
  assumes "only P w (snd r)" "\<And>x w1. r = (Inr x, w1) \<Longrightarrow> only P w1 (snd (f x w1))"
  shows "only P w (snd (io_step r f))"
proof (cases r)
  case (Pair x w1)
  show ?thesis
  proof (cases x)
    case (Inl e)
    then show ?thesis using assms(1) Pair by (simp add: io_step_def)
  next
    case (Inr y)
    then show ?thesis using only_trans [OF assms(1)] assms(2) [of y w1] Pair by (simp add: io_step_def)
  qed
qed

lemma only_read_buffered: "only {} w (snd (read_buffered_to_bytes path n w))"
  unfolding read_buffered_to_bytes_def by (intro only_io_step only_sys)

lemma read_buffered_spec:
  assumes "read_buffered_to_bytes path n w = (Inr d, w')"
  shows "w_files w path = Some d"
proof -
  obtain u w1 where o: "sys_open path w = (Inr u, w1)" "read_to_end path 0 w1 = (Inr d, w')"
    using assms by (auto simp: read_buffered_to_bytes_def io_step_Inr)
  have "only {} w w1" using only_sys(2) [of "{}" w path] o(1) by simp
  then show ?thesis using read_to_end_Inr [OF o(2)] by (auto simp: only_def)
qed

lemma read_aligned_impl_spec:
  assumes "read_aligned_impl stale path w = (r, w')" "\<And>c. w_files w path = Some c \<Longrightarrow> length c + 4096 \<le> 2 ^ 64"
  shows "only {} w w'" "r = Inr d \<Longrightarrow> w_files w path = Some d"
proof -
  obtain x w1 where x: "sys_file_len path w = (x, w1)" by fastforce
  have o1: "only {} w w1" using only_sys(3) [of "{}" w path] by (simp add: x)
  have "only {} w w' \<and> (r = Inr d \<longrightarrow> w_files w path = Some d)"
  proof (cases x)
    case (Inl e)
    then show ?thesis using assms(1) o1 x by (auto simp: read_aligned_impl_def io_step_def)
  next
    case (Inr n)
    obtain c where c: "w_files w path = Some c" "n = length c"
      using x [unfolded Inr] by (auto simp: sys_file_len_def not_found_def dest!: syscall_Inr split: option.splits)
    obtain y w2 where y: "sys_open path w1 = (y, w2)" by fastforce
    have o2: "only {} w w2" using only_trans [OF o1] only_sys(2) [of "{}" w1 path] by (simp add: y)
    have c2: "w_files w2 path = Some c" using o2 c(1) by (simp add: only_def)
    have buf: "only {} w w' \<and> (r = Inr d \<longrightarrow> w_files w path = Some d)"
      if "read_buffered_to_bytes path n w3 = (r, w')" "only {} w w3" for w3
      using that only_trans [OF that(2)] only_read_buffered [of w3 path n] read_buffered_spec [of path n w3 d w']
      by (auto simp: only_def)
    consider (empty) "n = 0" | (nodirect) e where "n \<noteq> 0" "y = Inl e" | (direct) u where "n \<noteq> 0" "y = Inr u"
      by (cases y) auto
    then show ?thesis
    proof cases
      case empty
      then show ?thesis using assms(1) x Inr o1 c by (auto simp: read_aligned_impl_def io_step_def)
    next
      case nodirect
      then have "(if is_einval e then read_buffered_to_bytes path n w2 else (Inl e, w2)) = (r, w')"
        using assms(1) x Inr y by (simp add: read_aligned_impl_def io_step_def)
      then show ?thesis using buf [OF _ o2] o2 by (auto split: if_splits)
    next
      case direct
      obtain z w3 where z: "read_loop path (align_up n) n [] w2 = (z, w3)" by fastforce
      have le: "length c \<le> align_up n"
        using align_up_ge(1) [of n] assms(2) [OF c(1)] c(2) by simp
      have sp: "only {} w2 w3 \<and> (\<forall>got. z = Inr (Some got) \<longrightarrow> got = c)"
        by (rule read_loop_spec [of w2 path c "[]" "align_up n"]) (use c2 le z c(2) in simp_all)
      have o3: "only {} w w3" using only_trans [OF o2] sp by blast
      have run: "io_step (z, w3) (\<lambda>r w3. case r of None \<Rightarrow> read_buffered_to_bytes path n w3
          | Some got \<Rightarrow> (Inr (take n (got @ drop (length got) stale)), w3)) = (r, w')"
        using assms(1) x Inr y direct z by (simp add: read_aligned_impl_def io_step_def)
      show ?thesis
      proof (cases z)
        case (Inr g)
        show ?thesis
        proof (cases g)
          case None
          then show ?thesis using run Inr buf [OF _ o3] by (simp add: io_step_def)
        next
          case (Some got)
          then have "got = c" using sp Inr by simp
          then show ?thesis using run Inr Some o3 c by (auto simp: io_step_def)
        qed
      qed (use run o3 in \<open>auto simp: io_step_def\<close>)
    qed
  qed
  then show "only {} w w'" "r = Inr d \<Longrightarrow> w_files w path = Some d" by auto
qed


section \<open>Runs without injected failures\<close>

definition calm :: "world \<Rightarrow> bool" where
  "calm w \<longleftrightarrow> w_script w = []"

lemma calm_next [simp]: "calm w \<Longrightarrow> next_event w = (OsOk, w)"
  by (simp add: calm_def next_event_def)

lemma calm_syscall [simp]: "calm w \<Longrightarrow> syscall act w = act w"
  by (simp add: syscall_def)

lemma calm_set_file [simp]: "calm (set_file p c w) = calm w"
  by (simp add: calm_def set_file_def)

lemma calm_sys:
  assumes "calm w"
  shows "sys_create_dir_all path w = (Inr (), w)" "sys_create path w = (Inr (), set_file path (Some []) w)"
    "sys_sync_data w = (Inr (), w)"
    "w_files w path = Some c \<Longrightarrow> sys_open path w = (Inr (), w)"
    "w_files w path = Some c \<Longrightarrow> sys_file_len path w = (Inr (length c), w)"
    "w_files w path = Some c \<Longrightarrow> read_to_end path off w = (Inr (drop off c), w)"
    "w_files w path = None \<Longrightarrow> sys_open path w = (not_found, w)"
    "w_files w path = None \<Longrightarrow> sys_file_len path w = (not_found, w)"
  using assms
  by (simp_all add: sys_create_dir_all_def sys_create_def sys_sync_data_def sys_open_def sys_file_len_def read_to_end_def)

lemma calm_rename:
  assumes "calm w" "w_files w src = Some c"
  shows "sys_rename src dst w = (Inr (), set_file dst (Some c) (set_file src None w))"
  using assms by (simp add: sys_rename_def)

lemma calm_pwrite_loop:
  assumes "calm w" "w_files w path = Some c"
  obtains w' c' where "pwrite_loop path zero buf base written w = (Inr (), w')" "calm w'" "w_files w' path = Some c'"
proof (cases "written < length buf")
  case True
  let ?w = "set_file path (Some (splice c (base + written) (drop written buf))) w"
  have "sys_write_at path (drop written buf) (base + written) w = (Inr (length buf - written), ?w)"
    using assms True by (simp add: sys_write_at_def)
  then have "pwrite_loop path zero buf base written w = (Inr (), ?w)"
    using True by (subst pwrite_loop.simps, simp, subst pwrite_loop.simps, simp)
  then show ?thesis using that assms by simp
next
  case False
  then have "pwrite_loop path zero buf base written w = (Inr (), w)" by (subst pwrite_loop.simps) simp
  then show ?thesis using that assms by blast
qed

lemma calm_truncate:
  assumes "calm w" "w_files w path = Some c"
  obtains w' c' where "truncate_to path n w = (Inr (), w')" "calm w'" "w_files w' path = Some c'"
proof -
  have "truncate_to path n w = (Inr (), set_file path (Some (take n c @ replicate (n - length c) 0)) w)"
    using assms by (simp add: truncate_to_def calm_sys io_step_def sys_set_len_def)
  then show ?thesis using that assms by simp
qed

lemma calm_write_vec_impl:
  assumes "calm w"
  shows "\<exists>w'. write_vec_impl req segs w = (Inr (), w') \<and> calm w'"
proof -
  let ?tmp = "tmp_path (rq_path req)" and ?n = "length (concat segs)"
  let ?buf = "concat segs @ replicate (align_up ?n - ?n) 0"
  have w1: "calm (set_file ?tmp (Some []) w)" "w_files (set_file ?tmp (Some []) w) ?tmp = Some []" using assms by simp_all
  obtain w2 c2 where w2: "pwrite_loop ?tmp direct_zero_error ?buf 0 0 (set_file ?tmp (Some []) w) = (Inr (), w2)"
    "calm w2" "w_files w2 ?tmp = Some c2" by (rule calm_pwrite_loop [OF w1])
  obtain w3 c3 where w3: "truncate_to ?tmp ?n w2 = (Inr (), w3)" "calm w3" "w_files w3 ?tmp = Some c3"
    by (rule calm_truncate [OF w2(2,3)])
  show ?thesis
    using assms w2 w3 by (simp add: write_vec_impl_def Let_def calm_sys io_step_def calm_rename)
qed

lemma calm_write_aligned_impl:
  assumes "calm w" "ptr mod DIRECT_IO_ALIGN = 0"
  shows "\<exists>w'. write_aligned_impl req mem ptr len w = (Inr (), w') \<and> calm w'"
proof -
  let ?tmp = "tmp_path (rq_path req)" and ?down = "len div DIRECT_IO_ALIGN * DIRECT_IO_ALIGN"
  let ?tail = "load_bytes (ptr + ?down) (len - ?down) mem @ replicate (DIRECT_IO_ALIGN - (len - ?down)) 0"
  let ?w1 = "set_file ?tmp (Some []) w"
  have w1: "calm ?w1" "w_files ?w1 ?tmp = Some []" using assms by simp_all
  obtain w2 c2 where w2: "(if ?down > 0 then pwrite_loop ?tmp direct_zero_error (load_bytes ptr ?down mem) 0 0 ?w1
      else (Inr (), ?w1)) = (Inr (), w2)" "calm w2" "w_files w2 ?tmp = Some c2"
    by (cases "?down > 0"; rule calm_pwrite_loop [OF w1]) (use w1 in auto)
  obtain w3 c3 where w3: "(if len - ?down > 0 then pwrite_loop ?tmp (Internal ''O_DIRECT pwrite tail returned 0'') ?tail ?down 0 w2
      else (Inr (), w2)) = (Inr (), w3)" "calm w3" "w_files w3 ?tmp = Some c3"
    by (cases "len - ?down > 0"; rule calm_pwrite_loop [OF w2(2,3)]) (use w2 in auto)
  obtain w4 c4 where w4: "(if len - ?down > 0 then truncate_to ?tmp len w3 else (Inr (), w3)) = (Inr (), w4)"
    "calm w4" "w_files w4 ?tmp = Some c4"
    by (cases "len - ?down > 0"; rule calm_truncate [OF w3(2,3)]) (use w3 in auto)
  show ?thesis
    unfolding write_aligned_impl_def Let_def calm_sys(1,2) [OF assms(1)] io_step_ok assms(2) sum.case prod.case
    by (simp only: simp_thms if_False io_step_ok w2(1) w3(1) calm_sys(3) [OF w3(2)] w4(1) calm_rename [OF w4(2,3)])
      (simp add: w4(2))
qed

lemma calm_write_file_impl:
  assumes "calm w"
  shows "\<exists>w'. write_file_impl req data w = (Inr (), w') \<and> calm w'"
proof -
  let ?tmp = "tmp_path (rq_path req)"
  have w1: "calm (set_file ?tmp (Some []) w)" "w_files (set_file ?tmp (Some []) w) ?tmp = Some []" using assms by simp_all
  obtain w2 c2 where w2: "pwrite_loop ?tmp write_zero_error data 0 0 (set_file ?tmp (Some []) w) = (Inr (), w2)"
    "calm w2" "w_files w2 ?tmp = Some c2" by (rule calm_pwrite_loop [OF w1])
  show ?thesis
    using assms w2 by (simp add: write_file_impl_def calm_sys io_step_def calm_rename)
qed

lemma calm_read_aligned_impl:
  assumes "calm w" "w_files w path = Some c" "length c < 2 ^ 63"
  shows "read_aligned_impl stale path w = (Inr c, w)"
proof (cases "c = []")
  case True
  then show ?thesis using assms by (simp add: read_aligned_impl_def calm_sys io_step_def)
next
  case False
  let ?al = "align_up (length c)"
  have le: "length c \<le> ?al" using align_up_ge(1) [of "length c"] assms(3) by simp
  have rd: "sys_read_at path ?al 0 w = (Inr c, w)" using assms le by (simp add: sys_read_at_def)
  have loop: "read_loop path ?al (length c) [] w =
      (if length c < ?al \<and> length c mod DIRECT_IO_ALIGN \<noteq> 0 then (Inr None, w) else (Inr (Some c), w))"
  proof (cases "length c < ?al")
    case True
    then show ?thesis using False by (subst read_loop.simps) (simp add: rd)
  next
    case full: False
    then have eq: "?al = length c" using le by simp
    show ?thesis using False by (subst read_loop.simps) (simp add: eq rd [unfolded eq])
  qed
  show ?thesis
    using assms False by (simp add: read_aligned_impl_def calm_sys io_step_def loop read_buffered_to_bytes_def)
qed

lemma read_aligned_missing:
  assumes "calm w" "w_files w path = None"
  shows "read_aligned_impl stale path w = (not_found, w)"
  using assms by (simp add: read_aligned_impl_def calm_sys io_step_def not_found_def)

lemma read_file_impl_spec:
  assumes "tier_a_read_file path w = (r, w')"
  shows "only {} w w'" "r = Inr d \<Longrightarrow> w_files w path = Some d"
proof -
  have o: "only {} w (snd (tier_a_read_file path w))"
    unfolding tier_a_read_file_def read_file_impl_def by (simp) (intro only_io_step only_sys)
  then show "only {} w w'" using assms by simp
  assume "r = Inr d"
  then obtain u w1 n w2 where s: "sys_open path w = (Inr u, w1)" "sys_file_len path w1 = (Inr n, w2)"
    "read_to_end path 0 w2 = (Inr d, w')"
    using assms by (auto simp: tier_a_read_file_def read_file_impl_def io_step_Inr)
  have "only {} w w1" "only {} w1 w2" using only_sys(2) [of "{}" w path] only_sys(3) [of "{}" w1 path] s by simp_all
  then show "w_files w path = Some d" using read_to_end_Inr [OF s(3)] by (auto simp: only_def)
qed

lemma calm_read_file:
  assumes "calm w"
  shows "tier_a_read_file path w = (case w_files w path of None \<Rightarrow> not_found | Some c \<Rightarrow> Inr c, w)"
  using assms
  by (auto simp: tier_a_read_file_def read_file_impl_def calm_sys io_step_def not_found_def split: option.splits)


section \<open>The executor interface\<close>

text \<open>
  Object files carry the extension \<open>.bin\<close>; the temporary files of the executor never do, so their
  contents are not observable through object paths.
\<close>

definition managed :: "string \<Rightarrow> bool" where
  "managed p \<longleftrightarrow> length p \<ge> 4 \<and> drop (length p - 4) p = ''.bin''"

lemma with_extension_suffix:
  assumes "p \<noteq> []" "last p \<noteq> slash" "last p \<noteq> CHR ''.''"
  shows "\<exists>q. with_extension p ext = q @ ''.'' @ ext"
proof -
  let ?k = "file_name_start p"
  have "rev p \<noteq> []" "hd (rev p) \<noteq> slash" using assms by (simp_all add: hd_rev)
  then have "takeWhile (\<lambda>x. x \<noteq> slash) (rev p) \<noteq> []" by (cases "rev p") auto
  then have "?k < length p" using assms(1) by (simp add: file_name_start_def)
  then have ne: "drop ?k p \<noteq> []" "last (drop ?k p) = last p" by simp_all
  have "drop ?k p \<noteq> ''..''"
  proof
    assume "drop ?k p = ''..''"
    then have "last (drop ?k p) = CHR ''.''" by simp
    then show False using ne(2) assms(3) by simp
  qed
  then show ?thesis using ne(1) by (simp add: with_extension_def Let_def flip: append_assoc)
qed

lemma tmp_path_unmanaged:
  assumes "managed p"
  shows "\<not> managed (tmp_path p)"
proof -
  let ?k = "length p - 4"
  have k: "length p \<ge> 4" "drop ?k p = ''.bin''" using assms by (simp_all add: managed_def)
  have "last p = last (drop ?k p)" using k(1) by (intro last_drop [symmetric]) simp
  then have "last p = CHR ''n''" by (simp add: k(2))
  moreover have "p \<noteq> []" using k(1) by auto
  ultimately obtain q where "tmp_path p = q @ ''.'' @ ''tmp''"
    using with_extension_suffix [of p "''tmp''"] by (auto simp: tmp_path_def)
  then show ?thesis by (simp add: managed_def)
qed

lemma managed_tmp_neq: "managed p \<Longrightarrow> managed q \<Longrightarrow> tmp_path p \<noteq> q"
  using tmp_path_unmanaged by blast

end
