(* ===== verification/IO_Contract.thy ===== *)
theory IO_Contract
  imports IO_Executor
begin

text \<open>
  The contract of the \<open>IOExecutor\<close> trait (\<open>io_executor/mod.rs\<close>) as a locale, and the thread-pool
  executor as an instance of it.  Clients see object files through \<open>content\<close>: a write that reports
  success has stored exactly its bytes, a write that reports an error has left the old file, no
  operation touches another object's file, and a read returns the stored bytes.
\<close>

section \<open>The trait\<close>

text \<open>
  Operations on caller-pinned memory take it as a byte map.  \<open>io_read_into_ptr_stream\<close> returns the
  completion events in the order of their arrival.  \<open>io_file_size\<close> is \<open>std::fs::metadata\<close>, which the
  storage tier calls on the executor's files.
\<close>

type_synonym mem = "nat \<Rightarrow> u8"

record 'x io_ops =
  io_read_file :: "string \<Rightarrow> 'x \<Rightarrow> bytes res \<times> 'x"
  io_write_file :: "string \<Rightarrow> bytes \<Rightarrow> 'x \<Rightarrow> unit res \<times> 'x"
  io_delete_file :: "string \<Rightarrow> 'x \<Rightarrow> unit res \<times> 'x"
  io_file_exists :: "string \<Rightarrow> 'x \<Rightarrow> bool"
  io_file_size :: "string \<Rightarrow> 'x \<Rightarrow> nat"
  io_read_batch :: "IORequest list \<Rightarrow> 'x \<Rightarrow> bytes res list \<times> 'x"
  io_write_batch_vectored :: "(IORequest \<times> bytes list) list \<Rightarrow> 'x \<Rightarrow> unit res list \<times> 'x"
  io_read_aligned_batch :: "IORequest list \<Rightarrow> 'x \<Rightarrow> bytes res list \<times> 'x"
  io_write_aligned_batch :: "mem \<Rightarrow> (IORequest \<times> nat \<times> nat) list \<Rightarrow> 'x \<Rightarrow> unit res list \<times> 'x"
  io_read_into_ptr_batch :: "(IORequest \<times> nat \<times> nat) list \<Rightarrow> mem \<Rightarrow> 'x \<Rightarrow> (nat res list \<times> mem) \<times> 'x"
  io_read_into_ptr_stream :: "(IORequest \<times> nat \<times> nat) list \<Rightarrow> mem \<Rightarrow> 'x \<Rightarrow> ((nat \<times> nat res) list \<times> mem) \<times> 'x"

text \<open>The default bodies of the trait.\<close>

definition default_write_batch_vectored ::
  "((IORequest \<times> bytes) list \<Rightarrow> 'x \<Rightarrow> unit res list \<times> 'x) \<Rightarrow> (IORequest \<times> bytes list) list \<Rightarrow> 'x \<Rightarrow> unit res list \<times> 'x" where
  "default_write_batch_vectored write_batch requests =
     write_batch (map (\<lambda>(req, segments). (req, concat segments)) requests)"

definition default_read_into_ptr_batch ::
  "(IORequest \<times> nat \<times> nat) list \<Rightarrow> mem \<Rightarrow> 'x \<Rightarrow> (nat res list \<times> mem) \<times> 'x" where
  "default_read_into_ptr_batch requests mem x =
     (([Inl (Internal ''read_aligned_into_ptr_batch not implemented by this executor'')], mem), x)"

definition default_read_into_ptr_stream ::
  "((IORequest \<times> nat \<times> nat) list \<Rightarrow> mem \<Rightarrow> 'x \<Rightarrow> (nat res list \<times> mem) \<times> 'x)
     \<Rightarrow> (IORequest \<times> nat \<times> nat) list \<Rightarrow> mem \<Rightarrow> 'x \<Rightarrow> ((nat \<times> nat res) list \<times> mem) \<times> 'x" where
  "default_read_into_ptr_stream batch requests mem x =
     (case batch requests mem x of ((results, mem'), x') \<Rightarrow> ((enumerate 0 results, mem'), x'))"


section \<open>The contract\<close>

text \<open>A Rust allocation, and a file of a POSIX system, has fewer than \<open>2 ^ 63\<close> bytes.\<close>

definition fits_isize :: "bytes \<Rightarrow> bool" where
  "fits_isize d \<longleftrightarrow> length d < 2 ^ 63"

text \<open>
  \<open>written content jobs x rs x'\<close>: the jobs (path and bytes) were attempted with results \<open>rs\<close>, each
  all or nothing, and no other object file changed.
\<close>

definition written :: "('x \<Rightarrow> string \<Rightarrow> bytes option) \<Rightarrow> (string \<times> bytes) list \<Rightarrow> 'x \<Rightarrow> unit res list \<Rightarrow> 'x \<Rightarrow> bool" where
  "written content jobs x rs x' \<longleftrightarrow>
     length rs = length jobs
     \<and> (\<forall>i < length jobs. content x' (fst (jobs ! i)) =
          (if is_ok (rs ! i) then Some (snd (jobs ! i)) else content x (fst (jobs ! i))))
     \<and> (\<forall>q. managed q \<and> q \<notin> fst ` set jobs \<longrightarrow> content x' q = content x q)"

definition good_jobs :: "(string \<times> bytes) list \<Rightarrow> bool" where
  "good_jobs jobs \<longleftrightarrow>
     distinct (map fst jobs) \<and> (\<forall>(p, d) \<in> set jobs. managed p \<and> fits_isize d)"

definition same_files :: "('x \<Rightarrow> string \<Rightarrow> bytes option) \<Rightarrow> 'x \<Rightarrow> 'x \<Rightarrow> bool" where
  "same_files content x x' \<longleftrightarrow> (\<forall>q. managed q \<longrightarrow> content x' q = content x q)"

locale io_executor =
  fixes ops :: "'x io_ops"
    and content :: "'x \<Rightarrow> string \<Rightarrow> bytes option"
    and quiet :: "'x \<Rightarrow> bool"
  assumes exists_law: "managed p \<Longrightarrow> io_file_exists ops p x = (content x p \<noteq> None)"
    and size_law: "managed p \<Longrightarrow> io_file_size ops p x = (case content x p of None \<Rightarrow> 0 | Some c \<Rightarrow> length c)"
    and write_file_law: "good_jobs [(p, d)] \<Longrightarrow> io_write_file ops p d x = (r, x') \<Longrightarrow>
      written content [(p, d)] x [r] x'"
    and write_file_quiet: "quiet x \<Longrightarrow> io_write_file ops p d x = (r, x') \<Longrightarrow> is_ok r \<and> quiet x'"
    and write_vec_law: "good_jobs (map (\<lambda>(req, segs). (rq_path req, concat segs)) reqs) \<Longrightarrow>
      io_write_batch_vectored ops reqs x = (rs, x') \<Longrightarrow>
      written content (map (\<lambda>(req, segs). (rq_path req, concat segs)) reqs) x rs x'"
    and write_vec_quiet: "quiet x \<Longrightarrow> io_write_batch_vectored ops reqs x = (rs, x') \<Longrightarrow>
      list_all is_ok rs \<and> quiet x'"
    and write_aligned_law: "good_jobs (map (\<lambda>(req, ptr, len). (rq_path req, load_bytes ptr len m)) areqs) \<Longrightarrow>
      io_write_aligned_batch ops m areqs x = (rs, x') \<Longrightarrow>
      written content (map (\<lambda>(req, ptr, len). (rq_path req, load_bytes ptr len m)) areqs) x rs x'"
    and delete_law: "managed p \<Longrightarrow> io_delete_file ops p x = (r, x') \<Longrightarrow>
      (\<forall>q. managed q \<longrightarrow> content x' q = (if q = p \<and> is_ok r then None else content x q))"
    and delete_quiet: "quiet x \<Longrightarrow> io_delete_file ops p x = (r, x') \<Longrightarrow> is_ok r \<and> quiet x'"
    and read_file_law: "managed p \<Longrightarrow> io_read_file ops p x = (b, x') \<Longrightarrow>
      same_files content x x' \<and> (\<forall>d. b = Inr d \<longrightarrow> content x p = Some d)"
    and read_file_quiet: "quiet x \<Longrightarrow> managed p \<Longrightarrow> content x p = Some c \<Longrightarrow> fits_isize c \<Longrightarrow>
      \<exists>x'. io_read_file ops p x = (Inr c, x') \<and> quiet x'"
    and read_batch_law: "(\<And>req. req \<in> set preqs \<Longrightarrow> managed (rq_path req) \<and> rq_offset req = 0 \<and> rq_length req = 0) \<Longrightarrow>
      io_read_batch ops preqs x = (ps, x') \<Longrightarrow>
      same_files content x x' \<and> length ps = length preqs
      \<and> (\<forall>i < length preqs. \<forall>d. ps ! i = Inr d \<longrightarrow> content x (rq_path (preqs ! i)) = Some d)"
    and read_aligned_law: "(\<And>req. req \<in> set rreqs \<Longrightarrow> managed (rq_path req) \<and> pred_option fits_isize (content x (rq_path req))) \<Longrightarrow>
      io_read_aligned_batch ops rreqs x = (bs, x') \<Longrightarrow>
      same_files content x x' \<and> length bs = length rreqs
      \<and> (\<forall>i < length rreqs. \<forall>d. bs ! i = Inr d \<longrightarrow> content x (rq_path (rreqs ! i)) = Some d)"
    and read_aligned_quiet: "quiet x \<Longrightarrow>
      (\<And>req. req \<in> set rreqs \<Longrightarrow> managed (rq_path req) \<and> fits_isize (the (content x (rq_path req))) \<and> content x (rq_path req) \<noteq> None) \<Longrightarrow>
      \<exists>x'. io_read_aligned_batch ops rreqs x = (map (\<lambda>req. Inr (the (content x (rq_path req)))) rreqs, x') \<and> quiet x'"


section \<open>The thread-pool executor implements it\<close>

definition tier_a_ops :: "world io_ops" where
  "tier_a_ops =
     \<lparr> io_read_file = tier_a_read_file, io_write_file = tier_a_write_file,
       io_delete_file = delete_file, io_file_exists = file_exists,
       io_file_size = (\<lambda>p w. case w_files w p of None \<Rightarrow> 0 | Some c \<Rightarrow> length c),
       io_read_batch = tier_a_read_batch,
       io_write_batch_vectored = tier_a_write_batch_vectored,
       io_read_aligned_batch = tier_a_read_aligned_batch,
       io_write_aligned_batch = tier_a_write_aligned_batch,
       io_read_into_ptr_batch = default_read_into_ptr_batch,
       io_read_into_ptr_stream = default_read_into_ptr_stream default_read_into_ptr_batch \<rparr>"

lemma commit_written:
  assumes "managed p" "commit_ok (tmp_path p) p d w (r, w')"
  shows "written w_files [(p, d)] w [r] w'"
proof -
  have "q \<noteq> tmp_path p" if "managed q" for q using that tmp_path_unmanaged [OF assms(1)] by blast
  then show ?thesis using assms by (cases r) (simp_all add: commit_ok_def written_def only_def is_ok_def)
qed

lemma written_Cons:
  assumes "written content [j] x [r] x1" "written content js x1 rs x'"
    "distinct (map fst (j # js))" "\<And>p. p \<in> fst ` set (j # js) \<Longrightarrow> managed p"
  shows "written content (j # js) x (r # rs) x'"
proof -
  have fresh: "fst j \<notin> fst ` set js" "managed (fst j)" using assms(3,4) by auto
  have same: "content x1 (fst (js ! i)) = content x (fst (js ! i))" if "i < length js" for i
  proof -
    have m: "fst (js ! i) \<in> fst ` set js" using that by simp
    have "fst (js ! i) \<noteq> fst j" using m fresh(1) by metis
    moreover have "managed (fst (js ! i))" by (rule assms(4)) (use m in simp)
    ultimately show ?thesis using assms(1) by (simp add: written_def)
  qed
  have j: "content x' (fst j) = (if is_ok r then Some (snd j) else content x (fst j))"
    using assms(1,2) fresh by (simp add: written_def)
  have "content x' (fst ((j # js) ! i)) =
      (if is_ok ((r # rs) ! i) then Some (snd ((j # js) ! i)) else content x (fst ((j # js) ! i)))"
    if "i < length (j # js)" for i
    using that j same assms(2) by (cases i) (simp_all add: written_def)
  then show ?thesis using assms(1,2) by (simp add: written_def)
qed

lemma run_batch_written:
  assumes "\<And>r w. r \<in> set reqs \<Longrightarrow> commit_ok (tmp_path (fst (job r))) (fst (job r)) (snd (job r)) w (f r w)"
    "distinct (map (fst \<circ> job) reqs)" "\<And>r. r \<in> set reqs \<Longrightarrow> managed (fst (job r))"
    "run_batch f reqs w = (rs, w')"
  shows "written w_files (map job reqs) w rs w'"
  using assms
proof (induction reqs arbitrary: w rs w')
  case Nil
  then show ?case by (simp add: written_def)
next
  case (Cons q reqs)
  obtain r w1 where r: "f q w = (r, w1)" by fastforce
  obtain rs0 w2 where rs0: "run_batch f reqs w1 = (rs0, w2)" by fastforce
  have e: "rs = r # rs0" "w' = w2" using Cons.prems(4) r rs0 by simp_all
  have "written w_files [job q] w [r] w1"
    using commit_written [OF Cons.prems(3) [of q]] Cons.prems(1) [of q w] r by (metis list.set_intros(1) prod.collapse)
  moreover have "written w_files (map job reqs) w1 rs0 w2"
    by (rule Cons.IH [OF _ _ _ rs0]) (use Cons.prems in auto)
  ultimately show ?case
    unfolding e list.map by (rule written_Cons) (use Cons.prems in \<open>auto simp: comp_def\<close>)
qed

lemma run_batch_calm:
  assumes "\<And>r w. calm w \<Longrightarrow> r \<in> set reqs \<Longrightarrow> \<exists>w'. f r w = (Inr (), w') \<and> calm w'" "calm w"
    "run_batch f reqs w = (rs, w')"
  shows "list_all is_ok rs \<and> calm w'"
  using assms
proof (induction reqs arbitrary: w rs w')
  case (Cons q reqs)
  obtain w1 where w1: "f q w = (Inr (), w1)" "calm w1" using Cons.prems(1) [OF Cons.prems(2), of q] by auto
  obtain rs0 w2 where rs0: "run_batch f reqs w1 = (rs0, w2)" by fastforce
  have "list_all is_ok rs0 \<and> calm w2"
    by (rule Cons.IH [OF _ w1(2) rs0]) (use Cons.prems(1) in auto)
  then show ?case using Cons.prems(3) w1 rs0 by auto
qed simp

lemma run_batch_reads:
  assumes "\<And>r w r' w'. r \<in> set reqs \<Longrightarrow> only {} w0 w \<Longrightarrow> f r w = (r', w') \<Longrightarrow>
      only {} w w' \<and> (\<forall>d. r' = Inr d \<longrightarrow> w_files w (rq_path r) = Some d)"
    "only {} w0 w" "run_batch f reqs w = (rs, w')"
  shows "only {} w0 w' \<and> length rs = length reqs
    \<and> (\<forall>i < length reqs. \<forall>d. rs ! i = Inr d \<longrightarrow> w_files w0 (rq_path (reqs ! i)) = Some d)"
  using assms
proof (induction reqs arbitrary: w rs w')
  case (Cons q reqs)
  obtain r w1 where r: "f q w = (r, w1)" by fastforce
  obtain rs0 w2 where rs0: "run_batch f reqs w1 = (rs0, w2)" by fastforce
  have e: "rs = r # rs0" "w' = w2" using Cons.prems(3) r rs0 by simp_all
  have q: "only {} w w1" "\<forall>d. r = Inr d \<longrightarrow> w_files w0 (rq_path q) = Some d"
    using Cons.prems(1) [of q, OF _ Cons.prems(2) r] Cons.prems(2) by (simp_all add: only_def)
  have IH: "only {} w0 w2 \<and> length rs0 = length reqs
      \<and> (\<forall>i < length reqs. \<forall>d. rs0 ! i = Inr d \<longrightarrow> w_files w0 (rq_path (reqs ! i)) = Some d)"
    by (rule Cons.IH [OF _ only_trans [OF Cons.prems(2) q(1)] rs0]) (rule Cons.prems(1); simp)
  show ?case
    unfolding e using IH q(2) by (auto simp: less_Suc_eq_0_disj)
qed simp

lemma run_batch_pure:
  assumes "\<And>r. r \<in> set reqs \<Longrightarrow> f r w = (g r, w)"
  shows "run_batch f reqs w = (map g reqs, w)"
  using assms by (induction reqs) auto

lemma delete_file_spec:
  assumes "delete_file p w = (r, w')"
  shows "w_files w' q = (if q = p \<and> is_ok r then None else w_files w q)"
proof (cases "w_files w p")
  case None
  then show ?thesis using assms by (auto simp: delete_file_def)
next
  case (Some c)
  obtain ev w1 where ev: "next_event w = (ev, w1)" by fastforce
  have "w_files w1 = w_files w" by (rule next_event_files(1) [OF ev])
  then show ?thesis
    using assms Some ev by (cases ev) (auto simp: delete_file_def sys_remove_def syscall_def)
qed

lemma delete_file_calm: "calm w \<Longrightarrow> delete_file p w = (r, w') \<Longrightarrow> is_ok r \<and> calm w'"
  by (auto simp: delete_file_def sys_remove_def not_found_def split: option.splits if_splits)

lemma only_same_files: "only {} w w' \<Longrightarrow> same_files w_files w w'"
  by (simp add: only_def same_files_def)

lemma tier_a_write_vec:
  assumes "good_jobs (map (\<lambda>(req, segs). (rq_path req, concat segs)) reqs)"
    "tier_a_write_batch_vectored reqs w = (rs, w')"
  shows "written w_files (map (\<lambda>(req, segs). (rq_path req, concat segs)) reqs) w rs w'"
proof (rule run_batch_written [OF _ _ _ assms(2) [unfolded tier_a_write_batch_vectored_def]], goal_cases)
  case (1 r w)
  obtain req segs where r: "r = (req, segs)" by (cases r)
  then have "managed (rq_path req)" "length (concat segs) + 4096 \<le> 2 ^ 64"
    using assms(1) 1 by (fastforce simp: good_jobs_def fits_isize_def)+
  then show ?case using write_vec_impl_commit [of req segs w] managed_tmp_neq by (simp add: r)
qed (use assms(1) in \<open>auto simp: good_jobs_def comp_def\<close>)

lemma tier_a_write_aligned:
  assumes "good_jobs (map (\<lambda>(req, ptr, len). (rq_path req, load_bytes ptr len m)) reqs)"
    "tier_a_write_aligned_batch m reqs w = (rs, w')"
  shows "written w_files (map (\<lambda>(req, ptr, len). (rq_path req, load_bytes ptr len m)) reqs) w rs w'"
proof (rule run_batch_written [OF _ _ _ assms(2) [unfolded tier_a_write_aligned_batch_def]], goal_cases)
  case (1 r w)
  obtain req ptr len where r: "r = (req, ptr, len)" by (cases r)
  then have "managed (rq_path req)" using assms(1) 1 by (fastforce simp: good_jobs_def)
  then show ?case using write_aligned_impl_commit [of req ptr len m w] managed_tmp_neq by (simp add: r)
qed (use assms(1) in \<open>auto simp: good_jobs_def comp_def\<close>)

lemma tier_a_read_aligned:
  assumes "\<And>req. req \<in> set reqs \<Longrightarrow> managed (rq_path req) \<and> pred_option fits_isize (w_files w (rq_path req))"
    "tier_a_read_aligned_batch reqs w = (rs, w')"
  shows "same_files w_files w w' \<and> length rs = length reqs
    \<and> (\<forall>i < length reqs. \<forall>d. rs ! i = Inr d \<longrightarrow> w_files w (rq_path (reqs ! i)) = Some d)"
proof -
  have "only {} w w' \<and> length rs = length reqs
      \<and> (\<forall>i < length reqs. \<forall>d. rs ! i = Inr d \<longrightarrow> w_files w (rq_path (reqs ! i)) = Some d)"
  proof (rule run_batch_reads [OF _ only_refl assms(2) [unfolded tier_a_read_aligned_batch_def]])
    fix r w1 r' w2
    assume r: "r \<in> set reqs" "only {} w w1" "read_aligned_impl (w_pool w1 (rq_path r)) (rq_path r) w1 = (r', w2)"
    have small: "length c + 4096 \<le> 2 ^ 64" if "w_files w1 (rq_path r) = Some c" for c
      using assms(1) [OF r(1)] r(2) that by (simp add: only_def fits_isize_def)
    show "only {} w1 w2 \<and> (\<forall>d. r' = Inr d \<longrightarrow> w_files w1 (rq_path r) = Some d)"
      using read_aligned_impl_spec [OF r(3) small] by blast
  qed
  then show ?thesis using only_same_files by blast
qed

lemma tier_a_read_plain:
  assumes "\<And>req. req \<in> set reqs \<Longrightarrow> managed (rq_path req) \<and> rq_offset req = 0 \<and> rq_length req = 0"
    "tier_a_read_batch reqs w = (rs, w')"
  shows "same_files w_files w w' \<and> length rs = length reqs
    \<and> (\<forall>i < length reqs. \<forall>d. rs ! i = Inr d \<longrightarrow> w_files w (rq_path (reqs ! i)) = Some d)"
proof -
  have "only {} w w' \<and> length rs = length reqs
      \<and> (\<forall>i < length reqs. \<forall>d. rs ! i = Inr d \<longrightarrow> w_files w (rq_path (reqs ! i)) = Some d)"
  proof (rule run_batch_reads [OF _ only_refl assms(2) [unfolded tier_a_read_batch_def]])
    fix r w1 r' w2
    assume r: "r \<in> set reqs" "only {} w w1" "read_file_impl r w1 = (r', w2)"
    have "r = \<lparr> rq_path = rq_path r, rq_offset = 0, rq_length = 0 \<rparr>" using assms(1) [OF r(1)] by simp
    then have "tier_a_read_file (rq_path r) w1 = (r', w2)" using r(3) by (metis tier_a_read_file_def)
    then show "only {} w1 w2 \<and> (\<forall>d. r' = Inr d \<longrightarrow> w_files w1 (rq_path r) = Some d)"
      using read_file_impl_spec by blast
  qed
  then show ?thesis using only_same_files by blast
qed

lemma tier_a_write_file_written:
  assumes "good_jobs [(p, d)]" "tier_a_write_file p d w = (r, w')"
  shows "written w_files [(p, d)] w [r] w'"
  using write_file_impl_commit [of "\<lparr> rq_path = p, rq_offset = 0, rq_length = length d \<rparr>" d w] assms
  by (intro commit_written) (auto simp: good_jobs_def tier_a_write_file_def dest: managed_tmp_neq)

interpretation tier_a: io_executor tier_a_ops w_files calm
proof (unfold_locales, unfold tier_a_ops_def io_ops.select_convs, goal_cases)
  case (1 p x)
  show ?case by (simp add: file_exists_def)
next
  case (2 p x)
  show ?case by simp
next
  case (3 p d x r x')
  then show ?case by (rule tier_a_write_file_written)
next
  case (4 x p d r x')
  then show ?case
    using calm_write_file_impl [of x "\<lparr> rq_path = p, rq_offset = 0, rq_length = length d \<rparr>" d]
    by (auto simp: tier_a_write_file_def)
next
  case (5 reqs x rs x')
  then show ?case by (rule tier_a_write_vec)
next
  case (6 x reqs rs x')
  then show ?case
    unfolding tier_a_write_batch_vectored_def
    by (intro run_batch_calm [of reqs "\<lambda>(req, segments). write_vec_impl req segments" x])
      (auto simp: calm_write_vec_impl)
next
  case (7 m reqs x rs x')
  then show ?case by (rule tier_a_write_aligned)
next
  case (8 p x r x')
  then show ?case by (simp add: delete_file_spec)
next
  case (9 x p r x')
  then show ?case by (rule delete_file_calm)
next
  case (10 p x b x')
  then show ?case using read_file_impl_spec [OF 10(2)] only_same_files by blast
next
  case (11 x p c)
  then show ?case by (simp add: calm_read_file)
next
  case (12 reqs x bs x')
  then show ?case by (rule tier_a_read_plain)
next
  case (13 reqs x bs x')
  then show ?case by (rule tier_a_read_aligned)
next
  case (14 x reqs)
  have "run_batch (\<lambda>req w. read_aligned_impl (w_pool w (rq_path req)) (rq_path req) w) reqs x
      = (map (\<lambda>req. Inr (the (w_files x (rq_path req)))) reqs, x)"
    by (rule run_batch_pure) (use 14 in \<open>auto simp: fits_isize_def intro!: calm_read_aligned_impl\<close>)
  then show ?case using 14(1) by (simp add: tier_a_read_aligned_batch_def)
qed

end
