(* ===== verification/IO_Props.thy ===== *)
theory IO_Props
  imports IO_Contract
begin

text \<open>
  What the thread-pool executor (\<open>io_executor/tier_a.rs\<close>) promises: batched writes are all or nothing
  per file, batched reads return the stored bytes or an error, and the retry loops finish whenever
  every system call makes progress, however few bytes each call transfers.
\<close>

section \<open>System calls that make progress\<close>

definition progress_event :: "os_event \<Rightarrow> bool" where
  "progress_event e = (case e of OsOk \<Rightarrow> True | OsFail _ \<Rightarrow> False | OsCount k \<Rightarrow> 0 < k)"

definition productive :: "world \<Rightarrow> bool" where
  "productive w = list_all progress_event (w_script w)"

lemma productive_set_file [simp]: "productive (set_file p c w) = productive w"
  by (simp add: productive_def set_file_def)

lemma productive_next:
  assumes "productive w"
  obtains e w1 where "next_event w = (e, w1)" "progress_event e" "productive w1"
    "w_files w1 = w_files w" "w_sync w1 = w_sync w"
  using assms
  by (cases "w_script w") (auto simp: productive_def next_event_def progress_event_def)

lemma productive_syscall:
  assumes "productive w"
  obtains w1 where "syscall act w = act w1" "productive w1" "w_files w1 = w_files w" "w_sync w1 = w_sync w"
proof -
  obtain e w1 where e: "next_event w = (e, w1)" "progress_event e" "productive w1"
    "w_files w1 = w_files w" "w_sync w1 = w_sync w" by (rule productive_next [OF assms])
  have "syscall act w = act w1" using e(1,2) by (cases e) (simp_all add: syscall_def progress_event_def)
  then show ?thesis using that e by blast
qed

text \<open>\<open>runs f w path c\<close>: from \<open>w\<close> the call \<open>f\<close> succeeds, leaving content at \<open>path\<close> and progress.\<close>

definition runs :: "'a res \<times> world \<Rightarrow> string \<Rightarrow> bool" where
  "runs r path \<longleftrightarrow> is_ok (fst r) \<and> productive (snd r) \<and> w_files (snd r) path \<noteq> None"

lemma runs_step:
  assumes "runs r path" "\<And>x w. productive w \<Longrightarrow> w_files w path \<noteq> None \<Longrightarrow> runs (f x w) path'"
  shows "runs (io_step r f) path'"
  using assms by (cases r; cases "fst r") (auto simp: runs_def io_step_def)

lemma runs_create: "productive w \<Longrightarrow> runs (sys_create path w) path"
  by (erule productive_syscall [where act = "\<lambda>w. (Inr (), set_file path (Some []) w)"])
    (simp add: sys_create_def runs_def)

lemma runs_sync:
  assumes "productive w" "w_files w path \<noteq> None"
  shows "runs (sys_sync_data w) path"
  using assms(1) by (rule productive_syscall [where act = "\<lambda>w. (Inr (), w)"])
    (use assms in \<open>simp add: sys_sync_data_def runs_def\<close>)

lemma runs_open:
  assumes "productive w" "w_files w path \<noteq> None"
  shows "runs (sys_open path w) path"
  using assms(1)
  by (rule productive_syscall [where act = "\<lambda>w. if w_files w path = None then (not_found, w) else (Inr (), w)"])
    (use assms in \<open>simp add: sys_open_def runs_def\<close>)

lemma runs_set_len:
  assumes "productive w" "w_files w path \<noteq> None"
  shows "runs (sys_set_len path n w) path"
  using assms(1)
  by (rule productive_syscall [where act = "\<lambda>w. case w_files w path of
     None \<Rightarrow> (not_found, w)
   | Some c \<Rightarrow> (Inr (), set_file path (Some (take n c @ replicate (n - length c) 0)) w)"])
    (use assms in \<open>auto simp: sys_set_len_def runs_def\<close>)

lemma runs_rename:
  assumes "productive w" "w_files w src \<noteq> None"
  shows "runs (sys_rename src dst w) dst"
  using assms(1)
  by (rule productive_syscall [where act = "\<lambda>w. case w_files w src of
     None \<Rightarrow> (not_found, w)
   | Some c \<Rightarrow> (Inr (), set_file dst (Some c) (set_file src None w))"])
    (use assms in \<open>auto simp: sys_rename_def runs_def\<close>)

lemma runs_truncate:
  assumes "productive w" "w_files w path \<noteq> None"
  shows "runs (truncate_to path n w) path"
  unfolding truncate_to_def by (rule runs_step [OF runs_open [OF assms]]) (rule runs_set_len)

lemma productive_write_at:
  assumes "productive w" "w_files w path \<noteq> None" "buf \<noteq> []"
  obtains n w1 where "sys_write_at path buf off w = (Inr n, w1)" "0 < n" "productive w1" "w_files w1 path \<noteq> None"
proof -
  obtain e w1 where e: "next_event w = (e, w1)" "progress_event e" "productive w1" "w_files w1 = w_files w"
    by (rule productive_next [OF assms(1)])
  let ?n = "case e of OsCount k \<Rightarrow> min k (length buf) | _ \<Rightarrow> length buf"
  have n: "0 < ?n" using e(2) assms(3) by (cases e) (auto simp: progress_event_def)
  obtain c where c: "w_files w1 path = Some c" using assms(2) e(4) by auto
  have "sys_write_at path buf off w
      = (Inr ?n, set_file path (Some (if ?n = 0 then c else splice c off (take ?n buf))) w1)"
    using e(1,2) c n by (cases e) (auto simp: sys_write_at_def progress_event_def Let_def min_def)
  then show ?thesis using that n e(3) by simp
qed

section \<open>The retry loops finish\<close>

lemma runs_pwrite_loop:
  assumes "productive w" "w_files w path \<noteq> None"
  shows "runs (pwrite_loop path zero buf base pos w) path"
  using assms
proof (induction path zero buf base pos w rule: pwrite_loop.induct)
  case (1 path zero buf base pos w)
  show ?case
  proof (cases "pos < length buf")
    case True
    then have "drop pos buf \<noteq> []" by simp
    from productive_write_at [OF 1(2,3) this] obtain n w1 where
      s: "sys_write_at path (drop pos buf) (base + pos) w = (Inr n, w1)" "0 < n" "productive w1"
        "w_files w1 path \<noteq> None" by blast
    have "runs (pwrite_loop path zero buf base (pos + n) w1) path"
      by (rule 1(1) [OF True s(1) [symmetric] refl _ s(3,4)]) (use s(2) in simp)
    then show ?thesis using True s by (subst pwrite_loop.simps) simp
  next
    case False
    then show ?thesis using 1(2,3) by (subst pwrite_loop.simps) (simp add: runs_def)
  qed
qed

lemma next_iov_progress:
  assumes "start < length segments" "offset \<le> length (segments ! start)" "n \<le> length (iov segments start offset)"
    "next_iov segments start offset n = (start', offset')" "start' < length segments"
  shows "iov segments start' offset' \<noteq> []"
proof -
  let ?rest = "drop (Suc start) segments" and ?first = "length (segments ! start) - offset"
  have "offset' < length (segments ! start')"
  proof (cases "n < ?first")
    case True
    then show ?thesis using assms(4) by (auto simp: next_iov_def)
  next
    case False
    obtain k r where a: "advance ?rest (n - ?first) = (k, r)" by fastforce
    have "n - ?first \<le> length (concat ?rest)" using assms(3) False by (simp add: iov_def)
    note sp = advance_spec [OF a this]
    have "start' = Suc start + k" "offset' = (if 0 < r \<and> Suc start + k < length segments then r else 0)"
      using assms(4) False a by (auto simp: next_iov_def)
    then show ?thesis using sp assms(5) by auto
  qed
  then show ?thesis by (simp add: iov_def)
qed

lemma runs_writev_loop:
  assumes "productive w" "w_files w path \<noteq> None"
    "start < length segments \<Longrightarrow> offset \<le> length (segments ! start)"
    "start < length segments \<Longrightarrow> iov segments start offset \<noteq> []"
  shows "runs (writev_loop path segments start offset pos w) path"
  using assms
proof (induction path segments start offset pos w rule: writev_loop.induct)
  case (1 path segments start offset pos w)
  show ?case
  proof (cases "start < length segments")
    case True
    then have cond: "start < length segments \<and> offset \<le> length (segments ! start)" using 1(4) by simp
    from productive_write_at [OF 1(2,3) 1(5) [OF True]] obtain n w1 where
      s: "sys_write_at path (iov segments start offset) pos w = (Inr n, w1)" "0 < n" "productive w1"
        "w_files w1 path \<noteq> None" by blast
    obtain st os where nx: "next_iov segments start offset n = (st, os)" by fastforce
    note sp = cond [THEN conjunct1] cond [THEN conjunct2] sys_write_at_bound [OF s(1)] nx
    have "runs (writev_loop path segments st os (pos + n) w1) path"
      by (rule 1(1) [OF cond s(1) [symmetric] refl _ nx [symmetric] s(3,4)])
        (use s(2) next_iov_spec(2) [OF sp] next_iov_progress [OF sp] in auto)
    then show ?thesis using cond s nx by (subst writev_loop.simps) simp
  next
    case False
    then show ?thesis using 1(2,3) by (subst writev_loop.simps) (simp add: runs_def)
  qed
qed

lemma runs_write_vec_buffered:
  assumes "productive w" "concat segs \<noteq> []"
  shows "runs (write_vec_impl_buffered req segs tmp w) (rq_path req)"
  unfolding write_vec_impl_buffered_def
proof (rule runs_step [OF runs_create [OF assms(1)]])
  fix x w1
  assume w1: "productive w1" "w_files w1 tmp \<noteq> None"
  have ne: "iov segs 0 0 \<noteq> []" if "0 < length segs" using assms(2) that by (cases segs) (simp_all add: iov_def)
  show "runs (io_step (writev_loop tmp segs 0 0 0 w1)
      (\<lambda>_ w2. io_step (sys_sync_data w2) (\<lambda>_ w3. sys_rename tmp (rq_path req) w3))) (rq_path req)"
    by (rule runs_step [OF runs_writev_loop [OF w1]], simp, simp add: ne, rule runs_step [OF runs_sync])
      (assumption | rule runs_rename)+
qed

lemma runs_write_vec:
  assumes "productive w"
  shows "runs (write_vec_impl req segs w) (rq_path req)"
proof -
  let ?tmp = "tmp_path (rq_path req)" and ?n = "length (concat segs)"
  obtain w1 where w1: "sys_create_dir_all (rq_path req) w = (Inr (), w1)" "productive w1"
    by (rule productive_syscall [OF assms, where act = "\<lambda>w. (Inr (), w)"]) (simp add: sys_create_dir_all_def)
  obtain x w2 where w2: "sys_create ?tmp w1 = (Inr x, w2)" "productive w2" "w_files w2 ?tmp \<noteq> None"
    using runs_create [OF w1(2), of ?tmp] by (cases "sys_create ?tmp w1") (auto simp: runs_def is_ok_def split: sum.splits)
  have trunc: "runs (if b then truncate_to ?tmp ?n w else (Inr (), w)) ?tmp"
    if "productive w" "w_files w ?tmp \<noteq> None" for b w
    using that runs_truncate by (simp add: runs_def)
  show ?thesis
    unfolding write_vec_impl_def Let_def w1(1) io_step_ok w2(1) prod.case sum.case
    by (rule runs_step [OF runs_pwrite_loop [OF w2(2,3)]], rule runs_step [OF runs_sync], assumption, assumption,
        rule runs_step [OF trunc]) (assumption | rule runs_rename)+
qed


section \<open>The promises\<close>

text \<open>
  C13. A batch of vectored writes to distinct object files answers every request, and each file is
  written all or nothing: an \<open>Ok\<close> means that the file holds exactly the concatenated segments, an
  error that it still holds what it held before, whatever system call failed or transferred only part
  of its bytes.  No other object file changes.
\<close>
theorem write_batch_all_or_nothing:
  assumes "tier_a_write_batch_vectored reqs w = (rs, w')"
    and "distinct (map (rq_path \<circ> fst) reqs)"
    and "\<And>req segs. (req, segs) \<in> set reqs \<Longrightarrow> managed (rq_path req) \<and> length (concat segs) < 2 ^ 63"
  shows "length rs = length reqs
    \<and> (\<forall>i < length reqs. w_files w' (rq_path (fst (reqs ! i))) =
         (if is_ok (rs ! i) then Some (concat (snd (reqs ! i))) else w_files w (rq_path (fst (reqs ! i)))))
    \<and> (\<forall>q. managed q \<and> q \<notin> (rq_path \<circ> fst) ` set reqs \<longrightarrow> w_files w' q = w_files w q)"
proof -
  let ?job = "\<lambda>(req, segs). (rq_path req, concat segs)"
  have f: "fst \<circ> ?job = rq_path \<circ> fst" by (auto simp: fun_eq_iff)
  have im: "fst ` set (map ?job reqs) = (rq_path \<circ> fst) ` set reqs" by (simp add: image_comp f)
  have "good_jobs (map ?job reqs)"
    using assms(2,3) unfolding good_jobs_def map_map f by (fastforce simp: fits_isize_def)
  from tier_a_write_vec [OF this assms(1)] show ?thesis
    unfolding written_def im by (simp add: case_prod_unfold)
qed

text \<open>Two requests: the temporary file of the first cannot be created, the second is written in full.\<close>

definition sample_reqs :: "(IORequest \<times> bytes list) list" where
  "sample_reqs =
     [(\<lparr> rq_path = ''/d/a.bin'', rq_offset = 0, rq_length = 3 \<rparr>, [[1, 2], [3]]),
      (\<lparr> rq_path = ''/d/b.bin'', rq_offset = 0, rq_length = 2 \<rparr>, [[4], [], [5]])]"

definition sample_world :: world where
  "sample_world =
     \<lparr> w_files = [''/d/a.bin'' \<mapsto> [9]],
       w_script = [OsOk, OsFail (IoError IoOther ''no space'')], w_sync = True, w_pool = (\<lambda>_. []) \<rparr>"

theorem write_batch_all_or_nothing_witness:
  "length (fst (tier_a_write_batch_vectored sample_reqs sample_world)) = 2
   \<and> w_files (snd (tier_a_write_batch_vectored sample_reqs sample_world)) ''/d/a.bin'' = Some [9]"
proof -
  obtain rs w' where run: "tier_a_write_batch_vectored sample_reqs sample_world = (rs, w')" by fastforce
  have "\<not> is_ok (rs ! 0)"
    using run by (auto simp: tier_a_write_batch_vectored_def sample_reqs_def sample_world_def write_vec_impl_def
        sys_create_dir_all_def sys_create_def syscall_def next_event_def io_step_def is_einval_def Let_def is_ok_def
        split: prod.splits)
  moreover have "managed (rq_path req) \<and> length (concat segs) < 2 ^ 63" if "(req, segs) \<in> set sample_reqs" for req segs
    using that by (auto simp: sample_reqs_def managed_def)
  moreover have "distinct (map (rq_path \<circ> fst) sample_reqs)" by (simp add: sample_reqs_def)
  ultimately show ?thesis
    using write_batch_all_or_nothing [OF run] run by (force simp: sample_reqs_def sample_world_def)
qed

text \<open>
  C28. The retry loops of the vectored writers finish: as long as no system call fails and every write
  transfers at least one byte, the write succeeds and the file holds exactly the segments, no matter
  how the kernel splits the transfers.  The \<open>writev\<close> fallback needs a non-empty object.
\<close>
theorem short_writes_complete:
  assumes "productive w" "managed (rq_path req)" "length (concat segs) < 2 ^ 63"
  shows "(\<exists>w'. write_vec_impl req segs w = (Inr (), w') \<and> w_files w' (rq_path req) = Some (concat segs))
    \<and> (concat segs \<noteq> [] \<longrightarrow>
        (\<exists>w'. write_vec_impl_buffered req segs (tmp_path (rq_path req)) w = (Inr (), w')
          \<and> w_files w' (rq_path req) = Some (concat segs)))"
proof (intro conjI impI)
  have tmp: "tmp_path (rq_path req) \<noteq> rq_path req" using managed_tmp_neq assms(2) by blast
  have done_ok: "\<exists>w'. r = (Inr (), w') \<and> w_files w' (rq_path req) = Some (concat segs)"
    if "runs r (rq_path req)" "commit_ok (tmp_path (rq_path req)) (rq_path req) (concat segs) w r" for r :: "unit res \<times> world"
    using that by (cases r; cases "fst r") (auto simp: runs_def commit_ok_def)
  show "\<exists>w'. write_vec_impl req segs w = (Inr (), w') \<and> w_files w' (rq_path req) = Some (concat segs)"
    by (rule done_ok [OF runs_write_vec [OF assms(1)] write_vec_impl_commit [OF tmp]]) (use assms(3) in simp)
  show "\<exists>w'. write_vec_impl_buffered req segs (tmp_path (rq_path req)) w = (Inr (), w')
        \<and> w_files w' (rq_path req) = Some (concat segs)" if "concat segs \<noteq> []"
    by (rule done_ok [OF runs_write_vec_buffered [OF assms(1) that] write_vec_buffered_commit [OF tmp]])
qed

text \<open>A two-segment object written two bytes at a time.\<close>

definition sample_slow :: world where
  "sample_slow = \<lparr> w_files = (\<lambda>_. None), w_script = replicate 4 (OsCount 2), w_sync = False, w_pool = (\<lambda>_. []) \<rparr>"

theorem short_writes_complete_witness:
  "(\<exists>w'. write_vec_impl (fst (hd sample_reqs)) (snd (hd sample_reqs)) sample_slow = (Inr (), w')
     \<and> w_files w' ''/d/a.bin'' = Some [1, 2, 3])
   \<and> (\<exists>w'. write_vec_impl_buffered (fst (hd sample_reqs)) (snd (hd sample_reqs)) (tmp_path ''/d/a.bin'') sample_slow = (Inr (), w')
     \<and> w_files w' ''/d/a.bin'' = Some [1, 2, 3])"
proof -
  have "productive sample_slow"
    by (simp add: productive_def sample_slow_def progress_event_def list_all_iff)
  then show ?thesis
    using short_writes_complete [of sample_slow "fst (hd sample_reqs)" "snd (hd sample_reqs)"]
    by (simp add: sample_reqs_def managed_def)
qed

lemma calm_read_batch:
  assumes "calm w" "\<And>req. req \<in> set reqs \<Longrightarrow> pred_option fits_isize (w_files w (rq_path req))"
  shows "tier_a_read_aligned_batch reqs w =
    (map (\<lambda>req. case w_files w (rq_path req) of None \<Rightarrow> not_found | Some c \<Rightarrow> Inr c) reqs, w)"
  unfolding tier_a_read_aligned_batch_def
  by (rule run_batch_pure)
    (use assms in \<open>fastforce simp: fits_isize_def split: option.split intro: calm_read_aligned_impl read_aligned_missing\<close>)

text \<open>
  C29. A batch of aligned reads answers every request in order, never changes a file, and an \<open>Ok\<close> is
  exactly the content of the file, although system calls may fail, reads may be short or may hit an
  unaligned tail and fall back to a buffered read, and the pooled buffer holds arbitrary bytes of
  earlier reads.  When no system call fails or is cut short, every file that exists is returned and
  every other request answers that it was not found.
\<close>
theorem read_batch_returns_content:
  assumes "tier_a_read_aligned_batch reqs w = (rs, w')"
    and "\<And>req. req \<in> set reqs \<Longrightarrow> managed (rq_path req) \<and> pred_option fits_isize (w_files w (rq_path req))"
  shows "length rs = length reqs
    \<and> (\<forall>i < length reqs. \<forall>d. rs ! i = Inr d \<longrightarrow> w_files w (rq_path (reqs ! i)) = Some d)
    \<and> (\<forall>q. managed q \<longrightarrow> w_files w' q = w_files w q)
    \<and> (calm w \<longrightarrow> rs = map (\<lambda>req. case w_files w (rq_path req) of None \<Rightarrow> not_found | Some c \<Rightarrow> Inr c) reqs)"
  using tier_a_read_aligned [OF assms(2,1)] calm_read_batch [of w reqs] assms by (simp add: same_files_def)

definition sample_reads :: "IORequest list" where
  "sample_reads = [\<lparr> rq_path = ''/d/a.bin'', rq_offset = 0, rq_length = 0 \<rparr>, \<lparr> rq_path = ''/d/b.bin'', rq_offset = 0, rq_length = 0 \<rparr>]"

definition sample_disk :: world where
  "sample_disk = \<lparr> w_files = (\<lambda>q. if q = ''/d/a.bin'' then Some [9, 8, 7] else None), w_script = [], w_sync = False,
     w_pool = (\<lambda>_. replicate 10 255) \<rparr>"

theorem read_batch_returns_content_witness:
  "fst (tier_a_read_aligned_batch sample_reads sample_disk) = [Inr [9, 8, 7], not_found]
   \<and> fst (tier_a_read_aligned_batch sample_reads (sample_disk\<lparr> w_script := [OsOk, OsOk, OsCount 2] \<rparr>)) ! 0 = Inr [9, 8, 7]"
proof -
  let ?w = "sample_disk\<lparr> w_script := [OsOk, OsOk, OsCount 2] \<rparr>"
  have ok: "managed (rq_path req) \<and> pred_option fits_isize (w_files w (rq_path req))"
    if "req \<in> set sample_reads" "w_files w = w_files sample_disk" for req w
    using that by (auto simp: sample_reads_def sample_disk_def managed_def fits_isize_def)
  have calm: "calm sample_disk" by (simp add: sample_disk_def calm_def)
  obtain rs w1 where r1: "tier_a_read_aligned_batch sample_reads sample_disk = (rs, w1)" by fastforce
  obtain rs2 w2 where r2: "tier_a_read_aligned_batch sample_reads ?w = (rs2, w2)" by fastforce
  have "rs = [Inr [9, 8, 7], not_found]"
    using read_batch_returns_content [OF r1 ok] calm by (simp add: sample_reads_def sample_disk_def)
  moreover have "rs2 ! 0 = Inr d \<Longrightarrow> d = [9, 8, 7]" for d
    using read_batch_returns_content [OF r2 ok] by (auto simp: sample_reads_def sample_disk_def)
  moreover have "is_ok (fst (tier_a_read_aligned_batch sample_reads ?w) ! 0)" by code_simp
  ultimately show ?thesis using r1 r2 by (cases "rs2 ! 0") auto
qed

text \<open>
  The \<open>writev\<close> fallback rejects an object whose segments are all empty, which the O_DIRECT path stores
  as an empty file.
\<close>

lemma buffered_empty_object_fails:
  "calm w \<Longrightarrow> fst (write_vec_impl_buffered req [[]] tmp w) = Inl (Internal ''writev returned 0 bytes'')"
  "calm w \<Longrightarrow> is_ok (fst (write_vec_impl req [[]] w))"
proof -
  assume w: "calm w"
  then show "is_ok (fst (write_vec_impl req [[]] w))" using calm_write_vec_impl [of w req "[[]]"] by auto
  have "sys_write_at tmp (iov [[]] 0 0) 0 (set_file tmp (Some []) w) = (Inr 0, set_file tmp (Some []) (set_file tmp (Some []) w))"
    using w by (simp add: sys_write_at_def iov_def)
  then have "fst (writev_loop tmp [[]] 0 0 0 (set_file tmp (Some []) w)) = Inl (Internal ''writev returned 0 bytes'')"
    by (subst writev_loop.simps) simp
  then show "fst (write_vec_impl_buffered req [[]] tmp w) = Inl (Internal ''writev returned 0 bytes'')"
    using w by (cases "writev_loop tmp [[]] 0 0 0 (set_file tmp (Some []) w)")
      (simp add: write_vec_impl_buffered_def calm_sys io_step_ok io_step_def)
qed

end
