(* ===== verification/LRU.thy ===== *)
theory LRU
  imports Prelude "HOL-Library.Multiset"
begin

text \<open>
  The interface of the \<open>lru\<close> package that the memory tier builds on.  The package is not part of the
  sources: its operations are the fields of \<open>lru_ops\<close>, its documented behaviour the laws of the locale
  \<open>lru_cache\<close>, stated over \<open>ents\<close>, the entries in the order of \<open>iter\<close>, most recently used first.
  \<open>lru_put\<close> also returns the values the package drops by itself: inserting a new key into a cache that
  is at its entry limit silently discards the least recently used entry.
\<close>

section \<open>The interface\<close>

record ('c, 'e) lru_ops =
  lru_new :: "nat \<Rightarrow> 'c"
  lru_get :: "string \<Rightarrow> 'c \<Rightarrow> 'e option \<times> 'c"
  lru_put :: "string \<Rightarrow> 'e \<Rightarrow> 'c \<Rightarrow> ('e option \<times> 'e list) \<times> 'c"
  lru_pop :: "string \<Rightarrow> 'c \<Rightarrow> 'e option \<times> 'c"
  lru_pop_lru :: "'c \<Rightarrow> (string \<times> 'e) option \<times> 'c"
  lru_len :: "'c \<Rightarrow> nat"

definition without :: "string \<Rightarrow> (string \<times> 'e) list \<Rightarrow> (string \<times> 'e) list" where
  "without k xs = filter (\<lambda>(k', _). k' \<noteq> k) xs"

definition touch :: "string \<Rightarrow> (string \<times> 'e) list \<Rightarrow> (string \<times> 'e) list" where
  "touch k xs = (case map_of xs k of None \<Rightarrow> xs | Some v \<Rightarrow> (k, v) # without k xs)"

locale lru_cache =
  fixes ops :: "('c, 'e) lru_ops"
    and ents :: "'c \<Rightarrow> (string \<times> 'e) list"
    and limit :: "'c \<Rightarrow> nat"
  assumes new_law: "ents (lru_new ops n) = []" "limit (lru_new ops n) = n"
    and distinct_law: "distinct (map fst (ents c))"
    and len_law: "lru_len ops c = length (ents c)"
    and get_law: "lru_get ops k c = (r, c') \<Longrightarrow>
      r = map_of (ents c) k \<and> ents c' = touch k (ents c) \<and> limit c' = limit c"
    and pop_law: "lru_pop ops k c = (r, c') \<Longrightarrow>
      r = map_of (ents c) k \<and> ents c' = without k (ents c) \<and> limit c' = limit c"
    and pop_lru_law: "lru_pop_lru ops c = (p, c') \<Longrightarrow>
      p = (if ents c = [] then None else Some (last (ents c))) \<and> ents c' = butlast (ents c) \<and> limit c' = limit c"
    and put_law: "lru_put ops k v c = ((old, dropped), c') \<Longrightarrow>
      old = map_of (ents c) k \<and> limit c' = limit c
      \<and> (if old \<noteq> None \<or> length (ents c) < limit c
         then ents c' = (k, v) # without k (ents c) \<and> dropped = []
         else ents c' = (k, v) # butlast (ents c) \<and> dropped = map snd (drop (length (ents c) - 1) (ents c)))"


section \<open>Entry lists\<close>

lemma without_absent: "k \<notin> fst ` set xs \<Longrightarrow> without k xs = xs"
  by (force simp: without_def filter_id_conv)

lemma set_without: "set (without k xs) = {(k', v). (k', v) \<in> set xs \<and> k' \<noteq> k}"
  by (auto simp: without_def)

lemma map_of_without: "map_of (without k xs) k' = (if k' = k then None else map_of xs k')"
  by (induction xs) (auto simp: without_def)

lemma distinct_without: "distinct (map fst xs) \<Longrightarrow> distinct (map fst (without k xs))"
  by (induction xs) (auto simp: without_def)

lemma without_split:
  assumes "distinct (map fst xs)" "map_of xs k = Some v"
  shows "mset xs = add_mset (k, v) (mset (without k xs))"
  using assms
proof (induction xs)
  case (Cons x xs)
  show ?case
  proof (cases "fst x = k")
    case True
    then have "without k xs = xs" using Cons.prems(1) by (auto intro!: without_absent)
    then show ?thesis using True Cons.prems by (cases x) (auto simp: without_def)
  next
    case False
    then show ?thesis using Cons by (cases x) (auto simp: without_def)
  qed
qed simp

lemma mset_touch:
  assumes "distinct (map fst xs)"
  shows "mset (touch k xs) = mset xs"
  using without_split [OF assms] by (cases "map_of xs k") (simp_all add: touch_def)

lemma mset_butlast: "xs \<noteq> [] \<Longrightarrow> mset xs = add_mset (last xs) (mset (butlast xs))"
  by (metis append_butlast_last_id mset.simps mset_append union_mset_add_mset_right add.right_neutral mset.simps(1))


section \<open>A list-backed cache\<close>

text \<open>An executable instance of the interface; it shows that the laws can be met.\<close>

typedef 'e lru_list = "{(n :: nat, xs :: (string \<times> 'e) list). distinct (map fst xs)}"
  by (rule exI [of _ "(0, [])"]) simp

setup_lifting type_definition_lru_list

lift_definition ll_new :: "nat \<Rightarrow> 'e lru_list" is "\<lambda>n. (n, [])" by simp

lift_definition ll_ents :: "'e lru_list \<Rightarrow> (string \<times> 'e) list" is snd .

lift_definition ll_limit :: "'e lru_list \<Rightarrow> nat" is fst .

lift_definition ll_touch :: "string \<Rightarrow> 'e lru_list \<Rightarrow> 'e lru_list" is "\<lambda>k (n, xs). (n, touch k xs)"
  by (auto simp: touch_def set_without distinct_without split: option.splits)

lift_definition ll_without :: "string \<Rightarrow> 'e lru_list \<Rightarrow> 'e lru_list" is "\<lambda>k (n, xs). (n, without k xs)"
  by (auto simp: distinct_without)

lift_definition ll_butlast :: "'e lru_list \<Rightarrow> 'e lru_list" is "\<lambda>(n, xs). (n, butlast xs)"
  by (auto simp: map_butlast distinct_butlast)

lift_definition ll_cons :: "string \<Rightarrow> 'e \<Rightarrow> 'e lru_list \<Rightarrow> 'e lru_list" is
  "\<lambda>k v (n, xs). (n, (k, v) # without k xs)"
  by (auto simp: set_without distinct_without)

definition lru_list_ops :: "('e lru_list, 'e) lru_ops" where
  "lru_list_ops =
     \<lparr> lru_new = ll_new,
       lru_get = (\<lambda>k c. (map_of (ll_ents c) k, ll_touch k c)),
       lru_put = (\<lambda>k v c. if map_of (ll_ents c) k \<noteq> None \<or> length (ll_ents c) < ll_limit c
         then ((map_of (ll_ents c) k, []), ll_cons k v c)
         else ((None, map snd (drop (length (ll_ents c) - 1) (ll_ents c))), ll_cons k v (ll_butlast c))),
       lru_pop = (\<lambda>k c. (map_of (ll_ents c) k, ll_without k c)),
       lru_pop_lru = (\<lambda>c. (if ll_ents c = [] then None else Some (last (ll_ents c)), ll_butlast c)),
       lru_len = (\<lambda>c. length (ll_ents c)) \<rparr>"

lemma ll_simps [simp]:
  "ll_ents (ll_new n) = []" "ll_limit (ll_new n) = n"
  "ll_ents (ll_touch k c) = touch k (ll_ents c)" "ll_limit (ll_touch k c) = ll_limit c"
  "ll_ents (ll_without k c) = without k (ll_ents c)" "ll_limit (ll_without k c) = ll_limit c"
  "ll_ents (ll_butlast c) = butlast (ll_ents c)" "ll_limit (ll_butlast c) = ll_limit c"
  "ll_ents (ll_cons k v c) = (k, v) # without k (ll_ents c)" "ll_limit (ll_cons k v c) = ll_limit c"
  by (transfer; force)+

lemma distinct_ll_ents: "distinct (map fst (ll_ents c))"
  by transfer auto

interpretation list_lru: lru_cache lru_list_ops ll_ents ll_limit
proof (unfold_locales, goal_cases)
  case (8 k v c old dropped c')
  have "without k (butlast (ll_ents c)) = butlast (ll_ents c)" if "map_of (ll_ents c) k = None"
    using that by (intro without_absent) (auto simp: map_of_eq_None_iff dest: in_set_butlastD)
  then show ?case using 8 by (auto simp: lru_list_ops_def split: if_splits)
qed (auto simp: lru_list_ops_def distinct_ll_ents split: if_splits)

end
