(* ===== verification/Slab.thy ===== *)
theory Slab
  imports KVError
begin

text \<open>
  \<open>rdma/slab.rs\<close>: the address-ordered best-fit free list behind the pre-registered RDMA region,
  and the slab with its extents.  Offsets, lengths and counters are the \<open>u64\<close> values of the code,
  with the wrap-around of \<open>+\<close> and \<open>-\<close> written out; the invariant shows that it never occurs.
  The anonymous mapping and the NIC registration (\<open>mmap\<close>, \<open>ibv_reg_mr\<close>) are calls outside the
  sources: their results, the base address and the keys, are arguments.
\<close>

section \<open>The free list\<close>

definition SLAB_ALIGN :: nat where "SLAB_ALIGN = 4096"
definition HUGE_ALIGN :: nat where "HUGE_ALIGN = 2 * 1024 * 1024"

definition round_up :: "nat \<Rightarrow> nat \<Rightarrow> nat" where
  "round_up n align = align_up64 n align"

record SlabView =
  sv_addr :: nat
  sv_lkey :: nat
  sv_len :: nat

record SlabStats =
  ss_total :: nat
  ss_used :: nat
  ss_free :: nat
  ss_high_watermark :: nat

record FreeList =
  by_offset :: "(nat \<times> nat) list"
  by_size :: "(nat \<times> nat) list"
  bytes_free :: nat
  bytes_used :: nat
  high_watermark :: nat
  fl_total :: nat

definition freelist_new :: "nat \<Rightarrow> FreeList" where
  "freelist_new t =
     \<lparr> by_offset = btm_insert 0 t [], by_size = bts_insert (t, 0) [], bytes_free = t,
       bytes_used = 0, high_watermark = 0, fl_total = t \<rparr>"

definition insert_block :: "nat \<Rightarrow> nat \<Rightarrow> FreeList \<Rightarrow> FreeList" where
  "insert_block offset len f =
     f\<lparr> by_offset := btm_insert offset len (by_offset f), by_size := bts_insert (len, offset) (by_size f) \<rparr>"

definition remove_block :: "nat \<Rightarrow> nat \<Rightarrow> FreeList \<Rightarrow> FreeList" where
  "remove_block offset len f =
     f\<lparr> by_offset := btm_remove offset (by_offset f), by_size := bts_remove (len, offset) (by_size f) \<rparr>"

definition freelist_alloc :: "FreeList \<Rightarrow> nat \<Rightarrow> nat option \<times> FreeList" where
  "freelist_alloc f sz =
     (case bts_first_from (sz, 0) (by_size f) of
        None \<Rightarrow> (None, f)
      | Some (blk_len, blk_off) \<Rightarrow>
          let f1 = remove_block blk_off blk_len f;
              f2 = (if blk_len > sz then insert_block (wadd64 blk_off sz) (wsub64 blk_len sz) f1 else f1);
              used = wadd64 (bytes_used f2) sz
          in (Some blk_off,
              f2\<lparr> bytes_free := wsub64 (bytes_free f2) sz, bytes_used := used,
                  high_watermark := (if used > high_watermark f2 then used else high_watermark f2) \<rparr>))"

definition freelist_free :: "FreeList \<Rightarrow> nat \<Rightarrow> nat \<Rightarrow> FreeList" where
  "freelist_free f offset cap =
     (let f0 = f\<lparr> bytes_free := wadd64 (bytes_free f) cap, bytes_used := wsub64 (bytes_used f) cap \<rparr>;
          start = offset;
          end0 = wadd64 offset cap;
          right = map_of (by_offset f0) end0;
          left = btm_last_below start (by_offset f0);
          (f1, end1) = (case right of
              Some rlen \<Rightarrow> (remove_block end0 rlen f0, wadd64 end0 rlen)
            | None \<Rightarrow> (f0, end0));
          (f2, start1) = (case left of
              Some (loff, llen) \<Rightarrow>
                (if wadd64 loff llen = start then (remove_block loff llen f1, loff) else (f1, start))
            | None \<Rightarrow> (f1, start))
      in insert_block start1 (wsub64 end1 start1) f2)"

definition freelist_stats :: "FreeList \<Rightarrow> SlabStats" where
  "freelist_stats f =
     \<lparr> ss_total = fl_total f, ss_used = bytes_used f, ss_free = bytes_free f,
       ss_high_watermark = high_watermark f \<rparr>"


section \<open>The slab and its extents\<close>

text \<open>
  \<open>slab_mem\<close> is the mapped region, one byte per offset.  An extent is what \<open>SlabExtent\<close> holds
  besides its pointer to the slab; dropping the last reference runs \<open>extent_drop\<close>.
\<close>

record RdmaSlab =
  slab_base :: nat
  slab_len :: nat
  slab_lkeys :: "nat list"
  slab_rkeys :: "nat list"
  slab_alloc_state :: FreeList
  slab_mem :: "nat \<Rightarrow> u8"

record SlabExtent =
  ext_offset :: nat
  ext_len :: nat
  ext_capacity :: nat

definition slab_new :: "nat \<Rightarrow> (nat \<times> nat) list \<Rightarrow> nat \<Rightarrow> string + RdmaSlab" where
  "slab_new base nic_keys size_bytes =
     (if nic_keys = [] then Inl ''RdmaSlab::new: empty ctx list''
      else let len = round_up (max size_bytes HUGE_ALIGN) HUGE_ALIGN in
        Inr \<lparr> slab_base = base, slab_len = len, slab_lkeys = map fst nic_keys,
              slab_rkeys = map snd nic_keys, slab_alloc_state = freelist_new len,
              slab_mem = (\<lambda>_. 0) \<rparr>)"

definition slab_alloc :: "RdmaSlab \<Rightarrow> nat \<Rightarrow> SlabExtent option \<times> RdmaSlab" where
  "slab_alloc s sz =
     (if sz = 0 then (None, s)
      else let cap = round_up sz SLAB_ALIGN in
        (case freelist_alloc (slab_alloc_state s) cap of
           (None, f) \<Rightarrow> (None, s\<lparr> slab_alloc_state := f \<rparr>)
         | (Some offset, f) \<Rightarrow>
             (Some \<lparr> ext_offset = offset, ext_len = sz, ext_capacity = cap \<rparr>,
              s\<lparr> slab_alloc_state := f \<rparr>)))"

definition extent_drop :: "RdmaSlab \<Rightarrow> SlabExtent \<Rightarrow> RdmaSlab" where
  "extent_drop s e = s\<lparr> slab_alloc_state := freelist_free (slab_alloc_state s) (ext_offset e) (ext_capacity e) \<rparr>"

fun copy_segments :: "nat \<Rightarrow> bytes list \<Rightarrow> (nat \<Rightarrow> u8) \<Rightarrow> nat \<Rightarrow> u8" where
  "copy_segments off [] mem = mem"
| "copy_segments off (seg # segs) mem =
     (if seg = [] then copy_segments off segs mem
      else copy_segments (off + length seg) segs (store_bytes off seg mem))"

definition copy_in :: "RdmaSlab \<Rightarrow> SlabExtent \<Rightarrow> bytes list \<Rightarrow> RdmaSlab" where
  "copy_in s e segments = s\<lparr> slab_mem := copy_segments (ext_offset e) segments (slab_mem s) \<rparr>"

definition extent_bytes :: "RdmaSlab \<Rightarrow> SlabExtent \<Rightarrow> bytes" where
  "extent_bytes s e = load_bytes (ext_offset e) (ext_len e) (slab_mem s)"

definition extent_addr :: "RdmaSlab \<Rightarrow> SlabExtent \<Rightarrow> nat" where
  "extent_addr s e = wadd64 (slab_base s) (ext_offset e)"

definition extent_view :: "RdmaSlab \<Rightarrow> SlabExtent \<Rightarrow> nat \<Rightarrow> SlabView" where
  "extent_view s e nic_idx =
     \<lparr> sv_addr = extent_addr s e, sv_lkey = slab_lkeys s ! nic_idx, sv_len = ext_len e \<rparr>"


section \<open>The allocator invariant\<close>

abbreviation blocks :: "FreeList \<Rightarrow> (nat \<times> nat) set" where
  "blocks f \<equiv> set (by_offset f)"

definition free_bytes :: "FreeList \<Rightarrow> nat set" where
  "free_bytes f = (\<Union>(off, len) \<in> blocks f. {off ..< off + len})"

text \<open>The blocks lie in the slab, are not empty, and never touch: free space is fully coalesced.\<close>

definition blocks_ok :: "nat \<Rightarrow> (nat \<times> nat) set \<Rightarrow> bool" where
  "blocks_ok t B \<longleftrightarrow>
     (\<forall>p \<in> B. 0 < snd p \<and> fst p + snd p \<le> t)
     \<and> (\<forall>p \<in> B. \<forall>q \<in> B. fst p \<le> fst q \<and> p \<noteq> q \<longrightarrow> fst p + snd p < fst q)"

definition freelist_wf :: "FreeList \<Rightarrow> bool" where
  "freelist_wf f \<longleftrightarrow>
     btm_sorted (by_offset f) \<and> bts_sorted (by_size f)
     \<and> set (by_size f) = (\<lambda>(off, len). (len, off)) ` blocks f
     \<and> blocks_ok (fl_total f) (blocks f)
     \<and> bytes_free f = card (free_bytes f)
     \<and> bytes_free f + bytes_used f = fl_total f
     \<and> bytes_used f \<le> high_watermark f \<and> high_watermark f \<le> fl_total f
     \<and> fl_total f < 2 ^ 64"


section \<open>Allocation\<close>

lemma blocks_insert_block:
  "btm_sorted (by_offset f) \<Longrightarrow> \<forall>p \<in> blocks f. fst p \<noteq> off \<Longrightarrow>
     blocks (insert_block off len f) = insert (off, len) (blocks f)"
  by (auto simp: insert_block_def set_btm_insert)

lemma blocks_remove_block:
  assumes "btm_sorted (by_offset f)" "(off, len) \<in> blocks f"
  shows "blocks (remove_block off len f) = blocks f - {(off, len)}"
  using assms by (auto simp: remove_block_def btm_mem_iff)

lemma block_fields [simp]:
  "bytes_free (insert_block a b f) = bytes_free f" "bytes_used (insert_block a b f) = bytes_used f"
  "high_watermark (insert_block a b f) = high_watermark f" "fl_total (insert_block a b f) = fl_total f"
  "bytes_free (remove_block a b f) = bytes_free f" "bytes_used (remove_block a b f) = bytes_used f"
  "high_watermark (remove_block a b f) = high_watermark f" "fl_total (remove_block a b f) = fl_total f"
  by (simp_all add: insert_block_def remove_block_def)

text \<open>\<open>index_ok\<close>: the two indexes of the free list hold the same blocks, each in its order.\<close>

definition index_ok :: "FreeList \<Rightarrow> bool" where
  "index_ok f \<longleftrightarrow> btm_sorted (by_offset f) \<and> bts_sorted (by_size f)
     \<and> set (by_size f) = (\<lambda>(off, len). (len, off)) ` blocks f"

lemma freelist_wf_alt:
  "freelist_wf f \<longleftrightarrow> index_ok f \<and> blocks_ok (fl_total f) (blocks f)
     \<and> bytes_free f = card (free_bytes f) \<and> bytes_free f + bytes_used f = fl_total f
     \<and> bytes_used f \<le> high_watermark f \<and> high_watermark f \<le> fl_total f \<and> fl_total f < 2 ^ 64"
  by (auto simp: freelist_wf_def index_ok_def)

lemma index_ok_insert:
  assumes "index_ok f" "\<forall>p \<in> blocks f. fst p \<noteq> off"
  shows "index_ok (insert_block off len f)"
  using assms blocks_insert_block [of f off len] by (auto simp: index_ok_def insert_block_def)

lemma index_ok_remove:
  assumes "index_ok f" "(off, len) \<in> blocks f"
  shows "index_ok (remove_block off len f)"
proof -
  have "blocks (remove_block off len f) = blocks f - {(off, len)}"
    using assms by (simp add: index_ok_def blocks_remove_block)
  moreover have "by_size (remove_block off len f) = bts_remove (len, off) (by_size f)"
    "by_offset (remove_block off len f) = btm_remove off (by_offset f)"
    by (simp_all add: remove_block_def)
  ultimately show ?thesis using assms(1) by (auto simp: index_ok_def)
qed

lemma blocks_okD:
  assumes "blocks_ok t B" "(o1, l1) \<in> B"
  shows "0 < l1" "o1 + l1 \<le> t"
    "(o2, l2) \<in> B \<Longrightarrow> (o1, l1) = (o2, l2) \<or> o1 + l1 < o2 \<or> o2 + l2 < o1"
proof -
  show "0 < l1" "o1 + l1 \<le> t" using assms by (auto simp: blocks_ok_def)
  assume q: "(o2, l2) \<in> B"
  have *: "fst p + snd p < fst q" if "p \<in> B" "q \<in> B" "fst p \<le> fst q" "p \<noteq> q" for p q
    using assms(1) that by (simp add: blocks_ok_def)
  show "(o1, l1) = (o2, l2) \<or> o1 + l1 < o2 \<or> o2 + l2 < o1"
    using * [of "(o1, l1)" "(o2, l2)"] * [of "(o2, l2)" "(o1, l1)"] q assms(2)
    by (cases "o1 \<le> o2") auto
qed

lemma freelist_alloc_None:
  assumes "index_ok f"
  shows "fst (freelist_alloc f sz) = None \<longleftrightarrow> (\<forall>(off, len) \<in> blocks f. len < sz)"
proof -
  have "fst (freelist_alloc f sz) = None \<longleftrightarrow> (\<forall>z \<in> set (by_size f). \<not> (sz, 0) \<le> z)"
    by (auto simp: freelist_alloc_def bts_first_from_None [symmetric] Let_def split: option.splits)
  also have "\<dots> \<longleftrightarrow> (\<forall>(off, len) \<in> blocks f. len < sz)"
    using assms by (auto simp: index_ok_def less_eq_prod_def)
  finally show ?thesis .
qed

lemma freelist_alloc_block:
  assumes "index_ok f" "freelist_alloc f sz = (Some off, f')"
  obtains len where "(off, len) \<in> blocks f" "sz \<le> len"
    "\<And>o' l'. (o', l') \<in> blocks f \<Longrightarrow> sz \<le> l' \<Longrightarrow> (len, off) \<le> (l', o')"
    "bts_first_from (sz, 0) (by_size f) = Some (len, off)"
proof -
  obtain len where len: "bts_first_from (sz, 0) (by_size f) = Some (len, off)"
    using assms(2) by (auto simp: freelist_alloc_def Let_def split: option.splits)
  have "bts_sorted (by_size f)" using assms(1) by (simp add: index_ok_def)
  from bts_first_from_Some [OF this, THEN iffD1, OF len]
  have *: "(len, off) \<in> set (by_size f)" "(sz, 0) \<le> (len, off)"
    "\<And>z. z \<in> set (by_size f) \<Longrightarrow> (sz, 0) \<le> z \<Longrightarrow> (len, off) \<le> z" by auto
  have mem: "(l', o') \<in> set (by_size f) \<longleftrightarrow> (o', l') \<in> blocks f" for o' l'
    using assms(1) by (auto simp: index_ok_def)
  have lex: "(sz, 0) \<le> (l', o') \<longleftrightarrow> sz \<le> l'" for l' o' :: nat
    by (auto simp: less_eq_prod_def)
  have "(len, off) \<le> (l', o')" if "(o', l') \<in> blocks f" "sz \<le> l'" for o' l'
    using *(3) [of "(l', o')"] that mem lex by blast
  moreover have "(off, len) \<in> blocks f" "sz \<le> len" using *(1,2) mem lex by blast+
  ultimately show ?thesis using that len by blast
qed

abbreviation span :: "(nat \<times> nat) set \<Rightarrow> nat set" where
  "span B \<equiv> (\<Union>(off, len) \<in> B. {off ..< off + len})"

lemma blocks_ok_subset: "blocks_ok t B \<Longrightarrow> B' \<subseteq> B \<Longrightarrow> blocks_ok t B'"
  unfolding blocks_ok_def by fast

lemma blocks_ok_insert:
  assumes "blocks_ok t B" "s < e" "e \<le> t" "\<forall>(off, len) \<in> B. off + len < s \<or> e < off"
  shows "blocks_ok t (insert (s, e - s) B)"
proof -
  have sep: "fst p + snd p < s \<or> e < fst p" if "p \<in> B" for p
    using assms(4) that by auto
  show ?thesis
    using assms(1,2,3) sep unfolding blocks_ok_def by (auto dest!: sep)
qed

lemma span_remove:
  assumes "blocks_ok t B" "(off, len) \<in> B"
  shows "span (B - {(off, len)}) = span B - {off ..< off + len}"
proof -
  have "{o' ..< o' + l'} \<inter> {off ..< off + len} = {}" if "(o', l') \<in> B" "(o', l') \<noteq> (off, len)" for o' l'
    using blocks_okD(3) [OF assms that(1)] that(2) by auto
  then show ?thesis by fastforce
qed

lemma finite_span: "blocks_ok t B \<Longrightarrow> finite (span B)"
  by (rule finite_subset [of _ "{..< t}"]) (auto simp: blocks_ok_def)

lemma span_bound: "blocks_ok t B \<Longrightarrow> span B \<subseteq> {..< t}"
  by (auto simp: blocks_ok_def)

lemma freelist_alloc_Some:
  assumes wf: "freelist_wf f" and "0 < sz" and alloc: "freelist_alloc f sz = (Some off, f')"
  shows "freelist_wf f'" "{off ..< off + sz} \<subseteq> free_bytes f"
    "free_bytes f' = free_bytes f - {off ..< off + sz}" "fl_total f' = fl_total f"
proof -
  have ok: "index_ok f" "blocks_ok (fl_total f) (blocks f)" "fl_total f < 2 ^ 64"
    using wf by (simp_all add: freelist_wf_alt)
  obtain len where len: "(off, len) \<in> blocks f" "sz \<le> len"
    "bts_first_from (sz, 0) (by_size f) = Some (len, off)"
    using freelist_alloc_block [OF ok(1) alloc] by metis
  have bound: "off + len \<le> fl_total f" using blocks_okD(2) [OF ok(2) len(1)] .
  have blk: "{off ..< off + len} \<subseteq> free_bytes f" using len(1) by (auto simp: free_bytes_def)
  with len(2) have sub: "{off ..< off + sz} \<subseteq> free_bytes f" by auto
  define f1 where "f1 = remove_block off len f"
  have b1: "blocks f1 = blocks f - {(off, len)}"
    using ok len by (simp add: f1_def blocks_remove_block index_ok_def)
  have i1: "index_ok f1" using ok len by (simp add: f1_def index_ok_remove)
  have sep: "\<forall>(o', l') \<in> blocks f1. o' + l' < off \<or> off + len < o'"
    using blocks_okD(3) [OF ok(2) len(1)] unfolding b1 by blast
  define f2 where "f2 = (if len > sz then insert_block (wadd64 off sz) (wsub64 len sz) f1 else f1)"
  have f2: "f2 = (if len > sz then insert_block (off + sz) (len - sz) f1 else f1)"
    using bound ok(3) len(2) by (simp add: f2_def wadd64_exact wsub64_exact)
  have fresh: "\<forall>p \<in> blocks f1. fst p \<noteq> off + sz" using sep len(2) by auto
  have i2: "index_ok f2" using i1 fresh by (simp add: f2 index_ok_insert)
  have b2: "blocks f2 = (if len > sz then insert (off + sz, len - sz) (blocks f1) else blocks f1)"
    using i1 fresh by (simp add: f2 blocks_insert_block index_ok_def)
  have ok2: "blocks_ok (fl_total f) (blocks f2)"
  proof (cases "len > sz")
    case True
    have "\<forall>(o', l') \<in> blocks f1. o' + l' < off + sz \<or> off + len < o'" using sep by auto
    moreover have "blocks_ok (fl_total f) (blocks f1)" using ok(2) b1 by (simp add: blocks_ok_subset)
    ultimately have "blocks_ok (fl_total f) (insert (off + sz, off + len - (off + sz)) (blocks f1))"
      using True bound by (intro blocks_ok_insert) auto
    then show ?thesis using True by (simp add: b2)
  qed (use b1 ok in \<open>simp add: b2 blocks_ok_subset\<close>)
  have "free_bytes f2 = span (blocks f1) \<union> {off + sz ..< off + len}"
    using len(2) by (auto simp: b2 free_bytes_def)
  also have "\<dots> = free_bytes f - {off ..< off + len} \<union> {off + sz ..< off + len}"
    using span_remove [OF ok(2) len(1)] by (simp add: b1 free_bytes_def)
  also have "\<dots> = free_bytes f - {off ..< off + sz}"
    using blk len(2) by auto
  finally have sp: "free_bytes f2 = free_bytes f - {off ..< off + sz}" .
  have tot: "fl_total f2 = fl_total f" "bytes_free f2 = bytes_free f" "bytes_used f2 = bytes_used f"
    "high_watermark f2 = high_watermark f" by (simp_all add: f2 f1_def)
  have "freelist_alloc f sz =
      (Some off, f2\<lparr> bytes_free := wsub64 (bytes_free f2) sz, bytes_used := wadd64 (bytes_used f2) sz,
        high_watermark := (if wadd64 (bytes_used f2) sz > high_watermark f2
          then wadd64 (bytes_used f2) sz else high_watermark f2) \<rparr>)"
    by (simp only: freelist_alloc_def len(3) option.case prod.case Let_def f1_def [symmetric]
        f2_def [symmetric])
  then have f': "f' = f2\<lparr> bytes_free := wsub64 (bytes_free f) sz, bytes_used := wadd64 (bytes_used f) sz,
      high_watermark := max (wadd64 (bytes_used f) sz) (high_watermark f) \<rparr>"
    using alloc by (simp add: tot max_def not_less)
  have card: "card (free_bytes f - {off ..< off + sz}) = bytes_free f - sz"
    using sub wf by (simp add: card_Diff_subset freelist_wf_alt)
  have "sz \<le> bytes_free f"
    using card_mono [OF finite_span [OF ok(2), folded free_bytes_def], of "{off ..< off + sz}"] sub wf
    by (simp add: freelist_wf_alt)
  moreover from this have "bytes_used f + sz \<le> fl_total f" using wf by (simp add: freelist_wf_alt)
  ultimately show "freelist_wf f'"
    using wf i2 ok2 sp card tot ok(3)
    by (simp add: freelist_wf_alt f' index_ok_def wadd64_exact wsub64_exact free_bytes_def)
  show "{off ..< off + sz} \<subseteq> free_bytes f" by (rule sub)
  show "free_bytes f' = free_bytes f - {off ..< off + sz}" "fl_total f' = fl_total f"
    using sp tot by (simp_all add: f' free_bytes_def)
qed


section \<open>Release and coalescing\<close>

text \<open>\<open>gap_ok\<close>: the bytes \<open>[off, off + cap)\<close> lie in the slab and are not free.\<close>

definition gap_ok :: "FreeList \<Rightarrow> nat \<Rightarrow> nat \<Rightarrow> bool" where
  "gap_ok f off cap \<longleftrightarrow>
     0 < cap \<and> off + cap \<le> fl_total f \<and> {off ..< off + cap} \<inter> free_bytes f = {}"

lemma gap_side:
  assumes "blocks_ok t (blocks f)" "gap_ok f off cap" "(o', l') \<in> blocks f"
  shows "o' + l' \<le> off \<or> off + cap \<le> o'"
proof (rule ccontr)
  assume no: "\<not> (o' + l' \<le> off \<or> off + cap \<le> o')"
  have "max off o' \<in> {off ..< off + cap} \<inter> {o' ..< o' + l'}"
    using no assms(2) blocks_okD(1) [OF assms(1,3)] by (auto simp: gap_ok_def)
  moreover have "{o' ..< o' + l'} \<subseteq> free_bytes f" using assms(3) by (auto simp: free_bytes_def)
  ultimately show False using assms(2) unfolding gap_ok_def by blast
qed

lemma remove_block_spec:
  assumes "index_ok g" "(a, n) \<in> blocks g" "g' = remove_block a n g"
  shows "index_ok g'" "blocks g' = blocks g - {(a, n)}" "free_bytes g = free_bytes g' \<union> {a ..< a + n}"
proof -
  show "index_ok g'" using assms by (simp add: index_ok_remove)
  show bl: "blocks g' = blocks g - {(a, n)}"
    using assms by (simp add: blocks_remove_block index_ok_def)
  show "free_bytes g = free_bytes g' \<union> {a ..< a + n}"
    unfolding free_bytes_def bl using assms(2) by blast
qed

lemma merge_right:
  assumes i: "index_ok f" and b: "blocks_ok (fl_total f) (blocks f)" and t: "fl_total f < 2 ^ 64"
    and gap: "gap_ok f off cap"
    and step: "(f1, e1) = (case map_of (by_offset f) (off + cap) of
        Some rlen \<Rightarrow> (remove_block (off + cap) rlen f, wadd64 (off + cap) rlen)
      | None \<Rightarrow> (f, off + cap))"
  shows "index_ok f1 \<and> blocks f1 = {p \<in> blocks f. fst p \<noteq> off + cap} \<and> off + cap \<le> e1
    \<and> e1 \<le> fl_total f \<and> free_bytes f = free_bytes f1 \<union> {off + cap ..< e1}
    \<and> (\<forall>p \<in> blocks f1. fst p + snd p \<le> off \<or> e1 < fst p)"
proof (cases "map_of (by_offset f) (off + cap)")
  case None
  then have no: "\<forall>p \<in> blocks f. fst p \<noteq> off + cap" by (metis imageI map_of_eq_None_iff)
  have f1: "f1 = f" "e1 = off + cap" using step None by simp_all
  have "fst p + snd p \<le> off \<or> off + cap < fst p" if "p \<in> blocks f" for p
    using gap_side [OF b gap, of "fst p" "snd p"] no that by fastforce
  with f1 i no gap show ?thesis by (auto simp: gap_ok_def)
next
  case (Some rlen)
  then have r: "(off + cap, rlen) \<in> blocks f" using i by (simp add: btm_mem_iff index_ok_def)
  have le: "off + cap + rlen \<le> fl_total f" by (rule blocks_okD(2) [OF b r])
  have e1: "f1 = remove_block (off + cap) rlen f" and [simp]: "e1 = off + cap + rlen"
    using step Some t le by (simp_all add: wadd64_exact)
  note spec = remove_block_spec [OF i r e1]
  have bl: "blocks f1 = {p \<in> blocks f. fst p \<noteq> off + cap}" by (simp add: e1 remove_block_def)
  have "fst p + snd p \<le> off \<or> e1 < fst p" if "p \<in> blocks f1" for p
    using blocks_okD(3) [OF b r, of "fst p" "snd p"] gap_side [OF b gap, of "fst p" "snd p"] that
    by (auto simp: bl)
  with spec(1,3) bl le show ?thesis by simp
qed

lemma left_neighbour:
  assumes s: "btm_sorted (by_offset f)" and b: "blocks_ok t (blocks f)"
    and q: "(o', l') \<in> blocks f" "o' + l' = off"
  shows "btm_last_below off (by_offset f) = Some (o', l')"
proof -
  have "0 < l'" by (rule blocks_okD(1) [OF b q(1)])
  then have lt: "o' < off" using q(2) by simp
  then obtain p where p: "btm_last_below off (by_offset f) = Some p"
    using btm_last_below_None [of off "by_offset f"] q(1) by (cases "btm_last_below off (by_offset f)") force+
  note below = btm_last_below_Some [OF s p]
  have "o' \<le> fst p" using below(3) [OF q(1)] lt by simp
  then have "p = (o', l')"
    using blocks_okD(3) [OF b q(1), of "fst p" "snd p"] below(1,2) q(2) by auto
  with p show ?thesis by simp
qed

lemma merge_left:
  assumes i: "index_ok f" and b: "blocks_ok (fl_total f) (blocks f)" and t: "fl_total f < 2 ^ 64"
    and gap: "gap_ok f off cap"
    and i1: "index_ok f1" and b1: "blocks f1 = {p \<in> blocks f. fst p \<noteq> off + cap}"
    and side: "\<forall>p \<in> blocks f1. fst p + snd p \<le> off \<or> e1 < fst p" and e1: "off + cap \<le> e1"
    and step: "(f2, s1) = (case btm_last_below off (by_offset f) of
        Some (loff, llen) \<Rightarrow>
          (if wadd64 loff llen = off then (remove_block loff llen f1, loff) else (f1, off))
      | None \<Rightarrow> (f1, off))"
  shows "index_ok f2 \<and> blocks f2 \<subseteq> blocks f \<and> s1 \<le> off
    \<and> free_bytes f1 = free_bytes f2 \<union> {s1 ..< off}
    \<and> (\<forall>p \<in> blocks f2. fst p + snd p < s1 \<or> e1 < fst p)"
proof -
  have s: "btm_sorted (by_offset f)" using i by (simp add: index_ok_def)
  have cap: "0 < cap" "off + cap \<le> fl_total f" using gap by (simp_all add: gap_ok_def)
  show ?thesis
  proof (cases "\<exists>loff llen. (loff, llen) \<in> blocks f \<and> loff + llen = off")
    case True
    then obtain loff llen where l: "(loff, llen) \<in> blocks f" "loff + llen = off" by blast
    have lb1: "(loff, llen) \<in> blocks f1" using l cap by (auto simp: b1)
    have f2: "f2 = remove_block loff llen f1" and [simp]: "s1 = loff"
      using step left_neighbour [OF s b l] l(2) cap t by (simp_all add: wadd64_exact)
    note spec = remove_block_spec [OF i1 lb1 f2]
    have "fst p + snd p < loff \<or> e1 < fst p" if "p \<in> blocks f2" for p
    proof -
      have p: "p \<in> blocks f1" "p \<noteq> (loff, llen)" using that by (auto simp: spec(2))
      then have "fst p + snd p \<le> off \<or> e1 < fst p" "p \<in> blocks f" using side b1 by auto
      then show ?thesis using blocks_okD(3) [OF b l(1), of "fst p" "snd p"] p(2) l(2) by auto
    qed
    with spec l b1 show ?thesis by auto
  next
    case False
    have f2: "f2 = f1" "s1 = off"
    proof -
      have "wadd64 loff llen \<noteq> off" if "btm_last_below off (by_offset f) = Some (loff, llen)" for loff llen
        using btm_last_below_Some(1) [OF s that] blocks_okD(2) [OF b, of loff llen] False t
        by (auto simp: wadd64_exact)
      then show "f2 = f1" "s1 = off" using step by (auto split: option.splits prod.splits if_splits)
    qed
    have "fst p + snd p \<noteq> off" if "p \<in> blocks f" for p using False that by (metis prod.collapse)
    then have "\<forall>p \<in> blocks f1. fst p + snd p < off \<or> e1 < fst p"
      using side b1 by (fastforce simp: le_less)
    with f2 i1 b1 show ?thesis by simp
  qed
qed

lemma freelist_free_spec:
  assumes wf: "freelist_wf f" and gap: "gap_ok f off cap" and used: "cap \<le> bytes_used f"
  shows "freelist_wf (freelist_free f off cap)"
    "free_bytes (freelist_free f off cap) = free_bytes f \<union> {off ..< off + cap}"
    "fl_total (freelist_free f off cap) = fl_total f"
proof -
  have w: "index_ok f" "blocks_ok (fl_total f) (blocks f)" "fl_total f < 2 ^ 64"
    using wf by (simp_all add: freelist_wf_alt)
  have g: "0 < cap" "off + cap \<le> fl_total f" "{off ..< off + cap} \<inter> free_bytes f = {}"
    using gap by (simp_all add: gap_ok_def)
  have fin: "finite (free_bytes f)" using finite_span [OF w(2)] by (simp add: free_bytes_def)
  let ?f0 = "f\<lparr> bytes_free := bytes_free f + cap, bytes_used := bytes_used f - cap \<rparr>"
  have b0: "blocks ?f0 = blocks f" "by_offset ?f0 = by_offset f" "fl_total ?f0 = fl_total f"
    "free_bytes ?f0 = free_bytes f" by (simp_all add: free_bytes_def)
  have w0: "index_ok ?f0" "gap_ok ?f0 off cap"
    using w(1) gap by (simp_all add: index_ok_def gap_ok_def free_bytes_def)
  obtain f1 e1 where r: "(f1, e1) = (case map_of (by_offset ?f0) (off + cap) of
        Some rlen \<Rightarrow> (remove_block (off + cap) rlen ?f0, wadd64 (off + cap) rlen)
      | None \<Rightarrow> (?f0, off + cap))"
    by (rule that [OF prod.collapse])
  obtain f2 s1 where l: "(f2, s1) = (case btm_last_below off (by_offset ?f0) of
        Some (loff, llen) \<Rightarrow>
          (if wadd64 loff llen = off then (remove_block loff llen f1, loff) else (f1, off))
      | None \<Rightarrow> (f1, off))"
    by (rule that [OF prod.collapse])
  note R = merge_right [of ?f0 off cap, unfolded b0, OF w0(1) w(2,3) w0(2) r [unfolded b0]]
  note L = merge_left [of ?f0 off cap f1 e1 f2 s1, unfolded b0, OF w0(1) w(2,3) w0(2) _ _ _ _ l [unfolded b0]]
  have R': "index_ok f1" "blocks f1 = {p \<in> blocks f. fst p \<noteq> off + cap}" "off + cap \<le> e1"
    "e1 \<le> fl_total f" "free_bytes f = free_bytes f1 \<union> {off + cap ..< e1}"
    "\<forall>p \<in> blocks f1. fst p + snd p \<le> off \<or> e1 < fst p" using R by blast+
  have L': "index_ok f2" "blocks f2 \<subseteq> blocks f" "s1 \<le> off"
    "free_bytes f1 = free_bytes f2 \<union> {s1 ..< off}"
    "\<forall>p \<in> blocks f2. fst p + snd p < s1 \<or> e1 < fst p" using L R' by blast+
  have keep: "bytes_free f2 = bytes_free f + cap" "bytes_used f2 = bytes_used f - cap"
    "high_watermark f2 = high_watermark f" "fl_total f2 = fl_total f"
  proof -
    have "bytes_free f1 = bytes_free f + cap \<and> bytes_used f1 = bytes_used f - cap
        \<and> high_watermark f1 = high_watermark f \<and> fl_total f1 = fl_total f"
      using r by (cases "map_of (by_offset ?f0) (off + cap)") simp_all
    then show "bytes_free f2 = bytes_free f + cap" "bytes_used f2 = bytes_used f - cap"
      "high_watermark f2 = high_watermark f" "fl_total f2 = fl_total f"
      using l by (cases "btm_last_below off (by_offset ?f0)"; auto split: prod.splits if_splits)+
  qed
  have nowrap: "wadd64 (bytes_free f) cap = bytes_free f + cap" "wsub64 (bytes_used f) cap = bytes_used f - cap"
    "wadd64 off cap = off + cap" "wsub64 e1 s1 = e1 - s1"
    using wf used g R'(3,4) L'(3) w(3) by (simp_all add: freelist_wf_alt wadd64_exact wsub64_exact)
  have f': "freelist_free f off cap = insert_block s1 (e1 - s1) f2"
    using r [symmetric] l [symmetric] by (simp add: freelist_free_def Let_def nowrap)
  have fresh: "\<forall>p \<in> blocks f2. fst p \<noteq> s1" using L'(3,5) R'(3) g(1) by auto
  have bl: "blocks (freelist_free f off cap) = insert (s1, e1 - s1) (blocks f2)"
    using L'(1) fresh by (simp add: f' blocks_insert_block index_ok_def)
  show fb: "free_bytes (freelist_free f off cap) = free_bytes f \<union> {off ..< off + cap}"
  proof -
    have "free_bytes (freelist_free f off cap) = {s1 ..< e1} \<union> free_bytes f2"
      using L'(3) R'(3) by (simp add: free_bytes_def bl)
    moreover have "free_bytes f = free_bytes f2 \<union> {s1 ..< off} \<union> {off + cap ..< e1}"
      using R'(5) L'(4) by simp
    moreover have "{s1 ..< e1} = {s1 ..< off} \<union> {off ..< off + cap} \<union> {off + cap ..< e1}"
      using L'(3) R'(3) by auto
    ultimately show ?thesis by blast
  qed
  show tot: "fl_total (freelist_free f off cap) = fl_total f" by (simp add: f' keep)
  have "blocks_ok (fl_total f) (insert (s1, e1 - s1) (blocks f2))"
    using L' R'(3,4) g(1) by (intro blocks_ok_insert blocks_ok_subset [OF w(2)]) auto
  moreover have "card (free_bytes f \<union> {off ..< off + cap}) = bytes_free f + cap"
    using wf g(3) fin by (subst card_Un_disjoint) (auto simp: freelist_wf_alt)
  ultimately show "freelist_wf (freelist_free f off cap)"
    using wf L'(1) fresh used unfolding freelist_wf_alt fb tot bl
    by (auto simp: f' index_ok_insert keep)
qed


section \<open>The allocator contract\<close>

text \<open>
  \<open>partition A t L\<close>: the free bytes \<open>A\<close> and the live extents \<open>L\<close> tile the region \<open>[0, t)\<close> without
  overlap.  The locale states what a region allocator promises, in terms of the set of available
  bytes only; that its clients always hold disjoint extents follows from the promise.
\<close>

abbreviation cells :: "nat \<times> nat \<Rightarrow> nat set" where
  "cells p \<equiv> {fst p ..< fst p + snd p}"

definition partition :: "nat set \<Rightarrow> nat \<Rightarrow> (nat \<times> nat) set \<Rightarrow> bool" where
  "partition A t L \<longleftrightarrow>
     A \<union> (\<Union>p \<in> L. cells p) = {..< t} \<and> A \<inter> (\<Union>p \<in> L. cells p) = {}
     \<and> (\<forall>p \<in> L. 0 < snd p) \<and> (\<forall>p \<in> L. \<forall>q \<in> L. p \<noteq> q \<longrightarrow> cells p \<inter> cells q = {})"

lemma partitionI:
  assumes "A \<union> (\<Union>p \<in> L. cells p) = {..< t}" "A \<inter> (\<Union>p \<in> L. cells p) = {}" "\<And>p. p \<in> L \<Longrightarrow> 0 < snd p"
    "\<And>p q. p \<in> L \<Longrightarrow> q \<in> L \<Longrightarrow> p \<noteq> q \<Longrightarrow> cells p \<inter> cells q = {}"
  shows "partition A t L"
  unfolding partition_def using assms(1,2) by (intro conjI ballI impI assms(3,4))

lemma partitionD:
  assumes "partition A t L"
  shows "A \<union> (\<Union>p \<in> L. cells p) = {..< t}" "A \<inter> (\<Union>p \<in> L. cells p) = {}" "p \<in> L \<Longrightarrow> 0 < snd p"
    "p \<in> L \<Longrightarrow> q \<in> L \<Longrightarrow> p \<noteq> q \<Longrightarrow> cells p \<inter> cells q = {}"
proof -
  note d = assms [unfolded partition_def]
  show "A \<union> (\<Union>p \<in> L. cells p) = {..< t}" by (rule d [THEN conjunct1])
  show "A \<inter> (\<Union>p \<in> L. cells p) = {}" by (rule d [THEN conjunct2, THEN conjunct1])
  show "0 < snd p" if "p \<in> L" using d that by blast
  show "cells p \<inter> cells q = {}" if "p \<in> L" "q \<in> L" "p \<noteq> q"
    using d [THEN conjunct2, THEN conjunct2, THEN conjunct2] that by blast
qed

lemma tile_take:
  "A \<union> U = T \<Longrightarrow> A \<inter> U = {} \<Longrightarrow> C \<subseteq> A \<Longrightarrow> (A - C) \<union> (C \<union> U) = T \<and> (A - C) \<inter> (C \<union> U) = {}"
  by blast

lemma tile_give:
  "A \<union> (C \<union> U) = T \<Longrightarrow> A \<inter> (C \<union> U) = {} \<Longrightarrow> C \<inter> U = {} \<Longrightarrow> (A \<union> C) \<union> U = T \<and> (A \<union> C) \<inter> U = {}"
  by blast

lemma sub_diff_UN: "C \<subseteq> T - (\<Union>p \<in> h ` L. g p) \<longleftrightarrow> C \<subseteq> T \<and> (\<forall>e \<in> L. C \<inter> g (h e) = {})" by blast
lemma sub_disjoint: "C \<subseteq> U \<Longrightarrow> A \<inter> U = {} \<Longrightarrow> C \<inter> A = {}" by blast
lemma sub_cover: "C \<subseteq> U \<Longrightarrow> A \<union> U = T \<Longrightarrow> C \<subseteq> T" by blast

locale region_allocator =
  fixes inv :: "'s \<Rightarrow> bool"
    and avail :: "'s \<Rightarrow> nat set"
    and extent :: "'s \<Rightarrow> nat"
    and acquire :: "'s \<Rightarrow> nat \<Rightarrow> nat option \<times> 's"
    and release :: "'s \<Rightarrow> nat \<Rightarrow> nat \<Rightarrow> 's"
  assumes acquire_law:
      "inv s \<Longrightarrow> 0 < n \<Longrightarrow> acquire s n = (Some a, s') \<Longrightarrow>
        inv s' \<and> cells (a, n) \<subseteq> avail s \<and> avail s' = avail s - cells (a, n) \<and> extent s' = extent s"
    and acquire_none: "acquire s n = (None, s') \<Longrightarrow> s' = s"
    and acquire_complete:
      "inv s \<Longrightarrow> 0 < n \<Longrightarrow> cells (a, n) \<subseteq> avail s \<Longrightarrow> fst (acquire s n) \<noteq> None"
    and release_law:
      "inv s \<Longrightarrow> 0 < n \<Longrightarrow> a + n \<le> extent s \<Longrightarrow> cells (a, n) \<inter> avail s = {} \<Longrightarrow>
        inv (release s a n) \<and> avail (release s a n) = avail s \<union> cells (a, n)
        \<and> extent (release s a n) = extent s"
begin

lemma acquire_partition:
  assumes "inv s" "partition (avail s) (extent s) L" "0 < n" "acquire s n = (Some a, s')"
  shows "inv s'" "(a, n) \<notin> L" "partition (avail s') (extent s') (insert (a, n) L)"
proof -
  note law = acquire_law [OF assms(1,3,4)] and part = partitionD [OF assms(2)]
  have sub: "cells (a, n) \<subseteq> avail s" using law by blast
  with part(2) have off: "cells (a, n) \<inter> (\<Union>p \<in> L. cells p) = {}" by blast
  have "a \<in> cells (a, n)" using assms(3) by simp
  with off show "(a, n) \<notin> L" by blast
  show "inv s'" using law by blast
  have "(avail s - cells (a, n)) \<union> (cells (a, n) \<union> (\<Union>p \<in> L. cells p)) = {..< extent s}"
    "(avail s - cells (a, n)) \<inter> (cells (a, n) \<union> (\<Union>p \<in> L. cells p)) = {}"
    using tile_take [OF part(1,2) sub] by (rule conjunct1, rule conjunct2)
  then have t: "avail s' \<union> (\<Union>p \<in> insert (a, n) L. cells p) = {..< extent s'}"
    "avail s' \<inter> (\<Union>p \<in> insert (a, n) L. cells p) = {}"
    using law by (simp_all only: UN_insert)
  show "partition (avail s') (extent s') (insert (a, n) L)"
  proof (rule partitionI [OF t])
    show "0 < snd p" if "p \<in> insert (a, n) L" for p using that part(3) [of p] assms(3) by auto
    show "cells p \<inter> cells q = {}" if "p \<in> insert (a, n) L" "q \<in> insert (a, n) L" "p \<noteq> q" for p q
      using that part(4) off by blast
  qed
qed

lemma release_partition:
  assumes "inv s" "partition (avail s) (extent s) L" "(a, n) \<in> L"
  shows "inv (release s a n)" "partition (avail (release s a n)) (extent (release s a n)) (L - {(a, n)})"
proof -
  note part = partitionD [OF assms(2)]
  have n: "0 < n" using part(3) [OF assms(3)] by simp
  have un: "(\<Union>p \<in> L. cells p) = cells (a, n) \<union> (\<Union>p \<in> L - {(a, n)}. cells p)" using assms(3) by blast
  have dis: "cells (a, n) \<inter> avail s = {}" using part(2) un by blast
  have "a + n - 1 \<in> cells (a, n)" using n by simp
  then have "a + n - 1 \<in> {..< extent s}" using part(1) un by blast
  with n have "a + n \<le> extent s" by simp
  note law = release_law [OF assms(1) n this dis]
  show "inv (release s a n)" using law by blast
  have other: "cells (a, n) \<inter> (\<Union>p \<in> L - {(a, n)}. cells p) = {}"
    using part(4) [OF assms(3)] by blast
  have "(avail s \<union> cells (a, n)) \<union> (\<Union>p \<in> L - {(a, n)}. cells p) = {..< extent s}"
    "(avail s \<union> cells (a, n)) \<inter> (\<Union>p \<in> L - {(a, n)}. cells p) = {}"
    using tile_give [OF part(1,2) [unfolded un] other] by (rule conjunct1, rule conjunct2)
  then have t: "avail (release s a n) \<union> (\<Union>p \<in> L - {(a, n)}. cells p) = {..< extent (release s a n)}"
    "avail (release s a n) \<inter> (\<Union>p \<in> L - {(a, n)}. cells p) = {}"
    using law by (simp_all only:)
  show "partition (avail (release s a n)) (extent (release s a n)) (L - {(a, n)})"
    by (rule partitionI [OF t]) (use part(3,4) in \<open>blast+\<close>)
qed

end

lemma gap_used:
  assumes "freelist_wf f" "gap_ok f off cap"
  shows "cap \<le> bytes_used f"
proof -
  have b: "free_bytes f \<subseteq> {..< fl_total f}" "finite (free_bytes f)"
    using assms(1) span_bound finite_span by (auto simp: freelist_wf_alt free_bytes_def)
  have "{off ..< off + cap} \<subseteq> {..< fl_total f} - free_bytes f"
    using assms(2) by (auto simp: gap_ok_def)
  then have "cap \<le> card ({..< fl_total f} - free_bytes f)"
    using card_mono [of "{..< fl_total f} - free_bytes f" "{off ..< off + cap}"] by simp
  also have "\<dots> = fl_total f - bytes_free f"
    using assms(1) b by (simp add: card_Diff_subset freelist_wf_alt)
  finally show ?thesis using assms(1) by (auto simp: freelist_wf_alt)
qed

text \<open>Coalescing pays off: a run of free bytes always lies within one block.\<close>

lemma free_run_in_block:
  assumes "blocks_ok t (blocks f)" "0 < n" "{a ..< a + n} \<subseteq> free_bytes f"
  shows "\<exists>(off, len) \<in> blocks f. off \<le> a \<and> a + n \<le> off + len"
proof -
  have "a \<in> free_bytes f" using assms(2,3) by auto
  then obtain off len where b: "(off, len) \<in> blocks f" "off \<le> a" "a < off + len"
    by (auto simp: free_bytes_def)
  have "a + n \<le> off + len"
  proof (rule ccontr)
    assume "\<not> a + n \<le> off + len"
    then have "off + len \<in> free_bytes f" using assms(3) b by auto
    then obtain off' len' where b': "(off', len') \<in> blocks f" "off' \<le> off + len" "off + len < off' + len'"
      by (auto simp: free_bytes_def)
    then show False using blocks_okD(3) [OF assms(1) b(1) b'(1)] by auto
  qed
  with b show ?thesis by blast
qed

interpretation fl: region_allocator freelist_wf free_bytes fl_total freelist_alloc freelist_free
proof
  fix s :: FreeList and n a s'
  assume "freelist_wf s" "0 < n" "freelist_alloc s n = (Some a, s')"
  then show "freelist_wf s' \<and> cells (a, n) \<subseteq> free_bytes s
      \<and> free_bytes s' = free_bytes s - cells (a, n) \<and> fl_total s' = fl_total s"
    using freelist_alloc_Some [of s n a s'] by simp
next
  fix s :: FreeList and n s'
  assume "freelist_alloc s n = (None, s')"
  then show "s' = s" by (auto simp: freelist_alloc_def Let_def split: option.splits)
next
  fix s :: FreeList and n a
  assume s: "freelist_wf s" "0 < n" "cells (a, n) \<subseteq> free_bytes s"
  then obtain off len where "(off, len) \<in> blocks s" "n \<le> len"
    using free_run_in_block [of "fl_total s" s n a] by (auto simp: freelist_wf_alt)
  then show "fst (freelist_alloc s n) \<noteq> None"
    using s(1) freelist_alloc_None [of s n] by (fastforce simp: freelist_wf_alt)
next
  fix s :: FreeList and n a
  assume "freelist_wf s" "0 < n" "a + n \<le> fl_total s" "cells (a, n) \<inter> free_bytes s = {}"
  then have "freelist_wf s" "gap_ok s a n" by (simp_all add: gap_ok_def)
  then show "freelist_wf (freelist_free s a n) \<and> free_bytes (freelist_free s a n) = free_bytes s \<union> cells (a, n)
      \<and> fl_total (freelist_free s a n) = fl_total s"
    using freelist_free_spec [of s a n] gap_used [of s a n] by simp
qed


section \<open>Rounding and page alignment\<close>

lemma round_up_exact:
  assumes "n + 2 ^ k \<le> 2 ^ 64" "k < 64"
  shows "n \<le> round_up n (2 ^ k)" "round_up n (2 ^ k) < n + 2 ^ k" "2 ^ k dvd round_up n (2 ^ k)"
proof -
  have r: "round_up n (2 ^ k) = (n + 2 ^ k - 1) div 2 ^ k * 2 ^ k"
    using assms by (simp add: round_up_def align_up64_pow2)
  show "n \<le> round_up n (2 ^ k)" "round_up n (2 ^ k) < n + 2 ^ k" "2 ^ k dvd round_up n (2 ^ k)"
    using round_div_bounds [of "2 ^ k" n] by (simp_all add: r)
qed

lemma SLAB_ALIGN_pow2: "SLAB_ALIGN = 2 ^ 12" by (simp add: SLAB_ALIGN_def)
lemma HUGE_ALIGN_pow2: "HUGE_ALIGN = 2 ^ 21" by (simp add: HUGE_ALIGN_def)

lemma round_up_slab:
  assumes "n + SLAB_ALIGN \<le> 2 ^ 64"
  shows "n \<le> round_up n SLAB_ALIGN" "round_up n SLAB_ALIGN < n + SLAB_ALIGN"
    "SLAB_ALIGN dvd round_up n SLAB_ALIGN" "0 < n \<Longrightarrow> 0 < round_up n SLAB_ALIGN"
  using round_up_exact [of n 12] assms by (simp_all add: SLAB_ALIGN_pow2)

definition page_closed :: "nat set \<Rightarrow> bool" where
  "page_closed A \<longleftrightarrow> (\<forall>x y. x div SLAB_ALIGN = y div SLAB_ALIGN \<longrightarrow> x \<in> A \<longrightarrow> y \<in> A)"

lemma page_closed_interval:
  assumes "SLAB_ALIGN dvd a" "SLAB_ALIGN dvd n"
  shows "page_closed {a ..< a + n}"
proof -
  obtain p q where pq: "a = SLAB_ALIGN * p" "n = SLAB_ALIGN * q" using assms by (auto elim!: dvdE)
  have s: "0 < SLAB_ALIGN" by (simp add: SLAB_ALIGN_def)
  have "x \<in> {a ..< a + n} \<longleftrightarrow> p \<le> x div SLAB_ALIGN \<and> x div SLAB_ALIGN < p + q" for x
    using s unfolding pq
    by (simp add: less_eq_div_iff_mult_less_eq div_less_iff_less_mult algebra_simps flip: distrib_left)
  then show ?thesis by (simp add: page_closed_def)
qed

lemma page_closed_Un: "page_closed A \<Longrightarrow> page_closed B \<Longrightarrow> page_closed (A \<union> B)"
  unfolding page_closed_def by blast

lemma page_closed_Diff: "page_closed A \<Longrightarrow> page_closed B \<Longrightarrow> page_closed (A - B)"
  unfolding page_closed_def by (metis DiffD1 DiffD2 DiffI)

lemma block_start_aligned:
  assumes "blocks_ok t (blocks f)" "page_closed (free_bytes f)" "(off, len) \<in> blocks f"
  shows "SLAB_ALIGN dvd off"
proof (rule ccontr)
  assume no: "\<not> SLAB_ALIGN dvd off"
  then have "0 < off" by (cases off) auto
  have "(off - 1) div SLAB_ALIGN = off div SLAB_ALIGN"
    using no \<open>0 < off\<close> by (cases off) (simp_all add: div_Suc dvd_eq_mod_eq_0)
  moreover have "off \<in> free_bytes f"
    using assms(3) blocks_okD(1) [OF assms(1,3)]
    by (auto simp: free_bytes_def intro!: bexI [of _ "(off, len)"])
  ultimately have "off - 1 \<in> free_bytes f" using assms(2) unfolding page_closed_def by metis
  then obtain o' l' where "(o', l') \<in> blocks f" "o' \<le> off - 1" "off - 1 < o' + l'"
    by (auto simp: free_bytes_def)
  then show False using blocks_okD(3) [OF assms(1,3), of o' l'] \<open>0 < off\<close> by auto
qed


section \<open>The slab as a state machine\<close>

text \<open>
  The reachable states of a slab together with the extents its clients hold: allocation (which
  succeeds or reports a full slab), filling an extent, and dropping one.  Sizes stay below the
  point where \<open>round_up\<close> would wrap; the RDMA handlers bound them by 4 GiB.
\<close>

inductive slab_reach :: "RdmaSlab \<Rightarrow> SlabExtent set \<Rightarrow> bool" where
  slab_init: "slab_new base keys size_bytes = Inr s \<Longrightarrow> size_bytes + HUGE_ALIGN \<le> 2 ^ 64 - HUGE_ALIGN
    \<Longrightarrow> slab_reach s {}"
| slab_take: "slab_reach s L \<Longrightarrow> n + SLAB_ALIGN \<le> 2 ^ 64 \<Longrightarrow> slab_alloc s n = (Some e, s')
    \<Longrightarrow> slab_reach s' (insert e L)"
| slab_full: "slab_reach s L \<Longrightarrow> n + SLAB_ALIGN \<le> 2 ^ 64 \<Longrightarrow> slab_alloc s n = (None, s') \<Longrightarrow> slab_reach s' L"
| slab_fill: "slab_reach s L \<Longrightarrow> e \<in> L \<Longrightarrow> length (concat segs) = ext_len e \<Longrightarrow> slab_reach (copy_in s e segs) L"
| slab_drop: "slab_reach s L \<Longrightarrow> e \<in> L \<Longrightarrow> slab_reach (extent_drop s e) (L - {e})"

inductive_cases slab_reach_cases: "slab_reach s L"

abbreviation ext_cells :: "SlabExtent \<Rightarrow> nat \<times> nat" where
  "ext_cells e \<equiv> (ext_offset e, ext_capacity e)"

definition slab_inv :: "RdmaSlab \<Rightarrow> SlabExtent set \<Rightarrow> bool" where
  "slab_inv s L \<longleftrightarrow>
     freelist_wf (slab_alloc_state s) \<and> fl_total (slab_alloc_state s) = slab_len s
     \<and> page_closed (free_bytes (slab_alloc_state s))
     \<and> partition (free_bytes (slab_alloc_state s)) (slab_len s) (ext_cells ` L) \<and> inj_on ext_cells L
     \<and> (\<forall>e \<in> L. SLAB_ALIGN dvd ext_offset e \<and> SLAB_ALIGN dvd ext_capacity e
          \<and> 0 < ext_len e \<and> ext_len e \<le> ext_capacity e)"

lemma freelist_new_wf:
  assumes "0 < t" "t < 2 ^ 64"
  shows "freelist_wf (freelist_new t)" "free_bytes (freelist_new t) = {..< t}" "fl_total (freelist_new t) = t"
proof -
  have f: "free_bytes (freelist_new t) = {..< t}" by (auto simp: free_bytes_def freelist_new_def)
  show "free_bytes (freelist_new t) = {..< t}" by (rule f)
  show "freelist_wf (freelist_new t)"
    using assms unfolding freelist_wf_def f by (simp add: freelist_new_def blocks_ok_def)
  show "fl_total (freelist_new t) = t" by (simp add: freelist_new_def)
qed

lemma slab_inv_init:
  assumes "slab_new base keys size_bytes = Inr s" "size_bytes + HUGE_ALIGN \<le> 2 ^ 64 - HUGE_ALIGN"
  shows "slab_inv s {}"
proof -
  define t where "t = round_up (max size_bytes HUGE_ALIGN) HUGE_ALIGN"
  have s: "slab_alloc_state s = freelist_new t" "slab_len s = t"
    using assms(1) by (auto simp: slab_new_def Let_def t_def split: if_splits)
  have b: "max size_bytes HUGE_ALIGN + 2 ^ 21 \<le> 2 ^ 64 - 2 ^ 21"
    using assms(2) by (auto simp: HUGE_ALIGN_pow2)
  have r: "HUGE_ALIGN \<le> t" "t < 2 ^ 64" "2 ^ 21 dvd t"
    using round_up_exact [of "max size_bytes HUGE_ALIGN" 21] b
    by (auto simp: t_def HUGE_ALIGN_pow2)
  have "(2 :: nat) ^ 12 dvd 2 ^ 21" by (rule le_imp_power_dvd) simp
  then have "SLAB_ALIGN dvd t" using r(3) unfolding SLAB_ALIGN_pow2 by (rule dvd_trans)
  then have "page_closed {..< t}"
    using page_closed_interval [of 0 t] by (simp add: lessThan_atLeast0)
  moreover have "0 < t" using r(1) by (simp add: HUGE_ALIGN_def)
  ultimately show ?thesis
    using freelist_new_wf [of t] r(2) by (simp add: slab_inv_def s partition_def)
qed

lemma slab_alloc_Some:
  assumes "slab_alloc s n = (Some e, s')"
  shows "\<exists>off f'. freelist_alloc (slab_alloc_state s) (round_up n SLAB_ALIGN) = (Some off, f')
    \<and> e = \<lparr> ext_offset = off, ext_len = n, ext_capacity = round_up n SLAB_ALIGN \<rparr>
    \<and> s' = s\<lparr> slab_alloc_state := f' \<rparr>"
proof -
  obtain r f' where r: "freelist_alloc (slab_alloc_state s) (round_up n SLAB_ALIGN) = (r, f')"
    by (rule prod.exhaust)
  show ?thesis
    using assms by (cases r; cases "n = 0") (simp_all add: slab_alloc_def Let_def r)
qed

lemma slab_alloc_None:
  assumes "slab_alloc s n = (None, s')"
  shows "s' = s" "n = 0 \<or> fst (freelist_alloc (slab_alloc_state s) (round_up n SLAB_ALIGN)) = None"
proof -
  obtain r f' where r: "freelist_alloc (slab_alloc_state s) (round_up n SLAB_ALIGN) = (r, f')"
    by (rule prod.exhaust)
  show "s' = s"
    using assms fl.acquire_none [of "slab_alloc_state s" "round_up n SLAB_ALIGN" f'] r
    by (cases r; cases "n = 0") (simp_all add: slab_alloc_def Let_def)
  show "n = 0 \<or> fst (freelist_alloc (slab_alloc_state s) (round_up n SLAB_ALIGN)) = None"
    using assms by (cases r; cases "n = 0") (simp_all add: slab_alloc_def Let_def r)
qed

lemma slab_inv_take:
  assumes inv: "slab_inv s L" and n: "n + SLAB_ALIGN \<le> 2 ^ 64" and a: "slab_alloc s n = (Some e, s')"
  shows "slab_inv s' (insert e L)"
proof -
  let ?f = "slab_alloc_state s" and ?cap = "round_up n SLAB_ALIGN"
  have n0: "0 < n" using a by (cases "n = 0") (simp_all add: slab_alloc_def)
  obtain off f' where f: "freelist_alloc ?f ?cap = (Some off, f')"
    and e: "e = \<lparr> ext_offset = off, ext_len = n, ext_capacity = ?cap \<rparr>"
    and s': "s' = s\<lparr> slab_alloc_state := f' \<rparr>"
    using slab_alloc_Some [OF a] by blast
  note r = round_up_slab [OF n]
  have w: "freelist_wf ?f" "fl_total ?f = slab_len s" "page_closed (free_bytes ?f)"
    "partition (free_bytes ?f) (fl_total ?f) (ext_cells ` L)" "inj_on ext_cells L"
    using inv by (simp_all add: slab_inv_def)
  note p = fl.acquire_partition [OF w(1,4) r(4) [OF n0] f]
  note q = freelist_alloc_Some [OF w(1) r(4) [OF n0] f]
  obtain len where "(off, len) \<in> blocks ?f"
    using freelist_alloc_block [OF _ f] w(1) unfolding freelist_wf_alt by metis
  then have al: "SLAB_ALIGN dvd off"
    using block_start_aligned w(1,3) unfolding freelist_wf_alt by blast
  have "page_closed (free_bytes f')"
    unfolding q(3) by (rule page_closed_Diff [OF w(3) page_closed_interval [OF al r(3)]])
  moreover have "inj_on ext_cells (insert e L)"
    using w(5) p(2) by (auto simp: e)
  ultimately show ?thesis
    using inv p q(4) w(2) r n0 al by (simp add: slab_inv_def s' e)
qed

lemma slab_alloc_fresh:
  assumes inv: "slab_inv s L" and n: "n + SLAB_ALIGN \<le> 2 ^ 64" and a: "slab_alloc s n = (Some e, s')"
  shows "e \<notin> L" "ext_len e = n" "slab_mem s' = slab_mem s"
proof -
  have n0: "0 < n" using a by (cases "n = 0") (simp_all add: slab_alloc_def)
  obtain off f' where f: "freelist_alloc (slab_alloc_state s) (round_up n SLAB_ALIGN) = (Some off, f')"
    and e: "e = \<lparr> ext_offset = off, ext_len = n, ext_capacity = round_up n SLAB_ALIGN \<rparr>"
    and s': "s' = s\<lparr> slab_alloc_state := f' \<rparr>"
    using slab_alloc_Some [OF a] by blast
  have "freelist_wf (slab_alloc_state s)" "partition (free_bytes (slab_alloc_state s)) (fl_total (slab_alloc_state s)) (ext_cells ` L)"
    using inv by (simp_all add: slab_inv_def)
  from fl.acquire_partition(2) [OF this round_up_slab(4) [OF n n0] f] show "e \<notin> L" by (force simp: e)
  show "ext_len e = n" "slab_mem s' = slab_mem s" by (simp_all add: e s')
qed

lemma slab_inv_drop:
  assumes inv: "slab_inv s L" and e: "e \<in> L"
  shows "slab_inv (extent_drop s e) (L - {e})"
proof -
  let ?f = "slab_alloc_state s"
  have w: "freelist_wf ?f" "fl_total ?f = slab_len s" "page_closed (free_bytes ?f)"
    "partition (free_bytes ?f) (fl_total ?f) (ext_cells ` L)" "inj_on ext_cells L"
    using inv by (simp_all add: slab_inv_def)
  have al: "SLAB_ALIGN dvd ext_offset e" "SLAB_ALIGN dvd ext_capacity e"
    using inv e by (simp_all add: slab_inv_def)
  have mem: "ext_cells e \<in> ext_cells ` L" using e by blast
  note p = fl.release_partition [OF w(1,4) mem]
  have im: "ext_cells ` (L - {e}) = ext_cells ` L - {ext_cells e}"
    using inj_on_image_set_diff [OF w(5), of L "{e}"] e by simp
  have "gap_ok ?f (ext_offset e) (ext_capacity e)"
  proof -
    note d = partitionD [OF w(4)]
    have un: "cells (ext_cells e) \<subseteq> (\<Union>p \<in> ext_cells ` L. cells p)" by (rule UN_upper [OF mem])
    have pos: "0 < ext_capacity e" using d(3) [OF mem] by simp
    then have "ext_offset e + ext_capacity e - 1 \<in> cells (ext_cells e)" by simp
    then have "ext_offset e + ext_capacity e - 1 \<in> {..< fl_total ?f}"
      by (rule subsetD [OF sub_cover [OF un d(1)]])
    then have "ext_offset e + ext_capacity e \<le> fl_total ?f" using pos by simp
    with pos sub_disjoint [OF un d(2)] show ?thesis by (simp only: gap_ok_def fst_conv snd_conv simp_thms)
  qed
  note q = freelist_free_spec [OF w(1) this gap_used [OF w(1) this]]
  have "page_closed (free_bytes (freelist_free ?f (ext_offset e) (ext_capacity e)))"
    unfolding q(2) by (rule page_closed_Un [OF w(3) page_closed_interval [OF al]])
  then show ?thesis
    using inv p q(3) w(2) im inj_on_subset [OF w(5), of "L - {e}"]
    by (simp add: slab_inv_def extent_drop_def)
qed

lemma slab_reach_inv: "slab_reach s L \<Longrightarrow> slab_inv s L"
proof (induction rule: slab_reach.induct)
  case (slab_full s L n s')
  then show ?case using slab_alloc_None [of s n s'] by simp
next
  case (slab_fill s L e segs)
  then show ?case by (simp add: slab_inv_def copy_in_def)
qed (simp_all add: slab_inv_init slab_inv_take slab_inv_drop)


lemma slab_reach_finite: "slab_reach s L \<Longrightarrow> finite L"
  by (induction rule: slab_reach.induct) auto

lemma slab_reach_pos: "slab_reach s L \<Longrightarrow> 0 < slab_len s"
proof (induction rule: slab_reach.induct)
  case (slab_init base keys size_bytes s)
  have "2 ^ 21 \<le> slab_len s"
    using slab_init round_up_exact(1) [of "max size_bytes HUGE_ALIGN" 21]
    by (auto simp: slab_new_def Let_def HUGE_ALIGN_def split: if_splits)
  then show ?case by simp
next
  case (slab_take s L n e s')
  then show ?case using slab_alloc_Some [of s n e s'] by auto
next
  case (slab_full s L n s')
  then show ?case using slab_alloc_None [of s n s'] by simp
qed (simp_all add: copy_in_def extent_drop_def)


section \<open>What the slab guarantees\<close>

lemma slab_inv_D:
  assumes "slab_inv s L"
  shows "freelist_wf (slab_alloc_state s)" "fl_total (slab_alloc_state s) = slab_len s"
    "free_bytes (slab_alloc_state s) = {..< slab_len s} - (\<Union>p \<in> ext_cells ` L. cells p)"
    "(\<Union>p \<in> ext_cells ` L. cells p) \<subseteq> {..< slab_len s}"
proof -
  show "freelist_wf (slab_alloc_state s)" "fl_total (slab_alloc_state s) = slab_len s"
    using assms by (simp_all add: slab_inv_def)
  have "partition (free_bytes (slab_alloc_state s)) (slab_len s) (ext_cells ` L)"
    using assms by (simp add: slab_inv_def)
  note d = partitionD(1,2) [OF this]
  have "A = T - U" "U \<subseteq> T" if "A \<union> U = T" "A \<inter> U = {}" for A U T :: "nat set" using that by blast+
  from this [OF d] show "free_bytes (slab_alloc_state s) = {..< slab_len s} - (\<Union>p \<in> ext_cells ` L. cells p)"
    "(\<Union>p \<in> ext_cells ` L. cells p) \<subseteq> {..< slab_len s}" by simp_all
qed

lemma ext_in_slab:
  assumes "slab_inv s L" "e \<in> L"
  shows "0 < ext_capacity e" "ext_offset e + ext_capacity e \<le> slab_len s"
proof -
  show pos: "0 < ext_capacity e"
    using assms by (auto simp: slab_inv_def)
  have "ext_offset e + ext_capacity e - 1 \<in> cells (ext_cells e)" using pos by simp
  then have "ext_offset e + ext_capacity e - 1 \<in> (\<Union>p \<in> ext_cells ` L. cells p)" using assms(2) by blast
  then have "ext_offset e + ext_capacity e - 1 \<in> {..< slab_len s}" by (rule subsetD [OF slab_inv_D(4) [OF assms(1)]])
  with pos show "ext_offset e + ext_capacity e \<le> slab_len s" by simp
qed

lemma ext_apart:
  assumes "slab_inv s L" "e \<in> L" "e' \<in> L" "e \<noteq> e'"
  shows "ext_offset e + ext_capacity e \<le> ext_offset e' \<or> ext_offset e' + ext_capacity e' \<le> ext_offset e"
proof -
  have "partition (free_bytes (slab_alloc_state s)) (slab_len s) (ext_cells ` L)" "inj_on ext_cells L"
    using assms(1) by (simp_all add: slab_inv_def)
  note p = partitionD(4) [OF this(1) imageI [OF assms(2)] imageI [OF assms(3)]] and inj = inj_onD [OF this(2)]
  have "cells (ext_cells e) \<inter> cells (ext_cells e') = {}"
    by (rule p) (use inj assms(2,3,4) in blast)
  then show ?thesis
    using ext_in_slab(1) [OF assms(1,2)] ext_in_slab(1) [OF assms(1,3)] by auto
qed

text \<open>
  C10. In every reachable state of the slab, each extent a client holds lies inside the registered
  region, starts and ends on a 4 KiB boundary and has room for its logical length, and two
  different extents never share a byte: no RDMA transfer into one can touch another.
\<close>

theorem slab_extents_disjoint:
  assumes "slab_reach s L" "e \<in> L" "e' \<in> L"
  shows "ext_offset e + ext_capacity e \<le> slab_len s \<and> ext_len e \<le> ext_capacity e
    \<and> 4096 dvd ext_offset e \<and> 4096 dvd ext_capacity e
    \<and> (e \<noteq> e' \<longrightarrow> ext_offset e + ext_capacity e \<le> ext_offset e'
         \<or> ext_offset e' + ext_capacity e' \<le> ext_offset e)"
proof -
  have inv: "slab_inv s L" by (rule slab_reach_inv [OF assms(1)])
  then have "ext_len e \<le> ext_capacity e" "4096 dvd ext_offset e" "4096 dvd ext_capacity e"
    using assms(2) by (auto simp: slab_inv_def SLAB_ALIGN_def)
  then show ?thesis using ext_in_slab [OF inv assms(2)] ext_apart [OF inv assms(2,3)] by blast
qed

text \<open>
  C20. The slab refuses an allocation only when it must: a request fails exactly when no run of
  (rounded-up) bytes of the region is outside all live extents.  Fragmentation by uncoalesced free
  blocks cannot make it fail.
\<close>

theorem slab_alloc_fails_iff_no_room:
  assumes "slab_reach s L" "0 < n" "n + 4096 \<le> 2 ^ 64"
  shows "fst (slab_alloc s n) = None \<longleftrightarrow>
    \<not> (\<exists>a. a + round_up n 4096 \<le> slab_len s
         \<and> (\<forall>e \<in> L. a + round_up n 4096 \<le> ext_offset e \<or> ext_offset e + ext_capacity e \<le> a))"
proof -
  let ?f = "slab_alloc_state s" and ?c = "round_up n 4096"
  have inv: "slab_inv s L" by (rule slab_reach_inv [OF assms(1)])
  note d = slab_inv_D [OF inv]
  have c: "0 < ?c" using round_up_slab(4) [of n] assms(2,3) by (simp add: SLAB_ALIGN_def)
  have "fst (slab_alloc s n) = None \<longleftrightarrow> fst (freelist_alloc ?f ?c) = None"
    using assms(2) by (auto simp: slab_alloc_def Let_def SLAB_ALIGN_def split: prod.splits option.splits)
  also have "\<dots> \<longleftrightarrow> \<not> (\<exists>a. {a ..< a + ?c} \<subseteq> free_bytes ?f)"
  proof
    assume none: "fst (freelist_alloc ?f ?c) = None"
    show "\<not> (\<exists>a. {a ..< a + ?c} \<subseteq> free_bytes ?f)"
      using fl.acquire_complete [OF d(1) c] none by auto
  next
    assume no: "\<not> (\<exists>a. {a ..< a + ?c} \<subseteq> free_bytes ?f)"
    show "fst (freelist_alloc ?f ?c) = None"
    proof (rule ccontr)
      assume "fst (freelist_alloc ?f ?c) \<noteq> None"
      then obtain a f' where "freelist_alloc ?f ?c = (Some a, f')"
        by (cases "freelist_alloc ?f ?c") auto
      from freelist_alloc_Some(2) [OF d(1) c this] no show False by blast
    qed
  qed
  also have "(\<lambda>a. {a ..< a + ?c} \<subseteq> free_bytes ?f) = (\<lambda>a. a + ?c \<le> slab_len s
      \<and> (\<forall>e \<in> L. a + ?c \<le> ext_offset e \<or> ext_offset e + ext_capacity e \<le> a))"
  proof
    fix a
    have i: "{a ..< a + ?c} \<inter> cells (ext_cells e) = {} \<longleftrightarrow>
        a + ?c \<le> ext_offset e \<or> ext_offset e + ext_capacity e \<le> a" if "e \<in> L" for e
      using c ext_in_slab(1) [OF inv that] by auto
    have "{a ..< a + ?c} \<subseteq> free_bytes ?f \<longleftrightarrow> {a ..< a + ?c} \<subseteq> {..< slab_len s}
        \<and> (\<forall>e \<in> L. {a ..< a + ?c} \<inter> cells (ext_cells e) = {})"
      unfolding d(3) by (rule sub_diff_UN)
    also have "{a ..< a + ?c} \<subseteq> {..< slab_len s} \<longleftrightarrow> a + ?c \<le> slab_len s"
      using c by (simp add: lessThan_atLeast0 ivl_subset)
    finally show "({a ..< a + ?c} \<subseteq> free_bytes ?f) = (a + ?c \<le> slab_len s
      \<and> (\<forall>e \<in> L. a + ?c \<le> ext_offset e \<or> ext_offset e + ext_capacity e \<le> a))"
      using i by simp
  qed
  finally show ?thesis .
qed

text \<open>
  C21. Nothing leaks and nothing stays fragmented: once every extent has been dropped, whatever the
  order of allocations and releases, the free list is again the single block it started with and
  the accounting is back to zero.
\<close>

theorem slab_recovers_fully:
  assumes "slab_reach s {}"
  shows "by_offset (slab_alloc_state s) = [(0, slab_len s)]
    \<and> by_size (slab_alloc_state s) = [(slab_len s, 0)]
    \<and> freelist_stats (slab_alloc_state s) =
        \<lparr> ss_total = slab_len s, ss_used = 0, ss_free = slab_len s,
          ss_high_watermark = high_watermark (slab_alloc_state s) \<rparr>"
proof -
  let ?f = "slab_alloc_state s" and ?t = "slab_len s"
  have inv: "slab_inv s {}" by (rule slab_reach_inv [OF assms])
  note d = slab_inv_D [OF inv]
  have fb: "free_bytes ?f = {..< ?t}" using d(3) by simp
  have ok: "index_ok ?f" "blocks_ok ?t (blocks ?f)" using d(1,2) by (simp_all add: freelist_wf_alt)
  have t: "0 < ?t"
    using slab_reach_pos [OF assms] .
  obtain off len where b: "(off, len) \<in> blocks ?f" "off \<le> 0" "?t \<le> off + len"
    using free_run_in_block [OF ok(2) t, of 0] fb by (auto simp: lessThan_atLeast0)
  then have b0: "(0, ?t) \<in> blocks ?f" using blocks_okD(2) [OF ok(2) b(1)] by (simp add: le_antisym)
  have only: "p = (0, ?t)" if "p \<in> blocks ?f" for p
    using blocks_okD(3) [OF ok(2) b0, of "fst p" "snd p"] blocks_okD(2) [OF ok(2), of "fst p" "snd p"] that
    by auto
  then have bl: "blocks ?f = {(0, ?t)}" using b0 by blast
  have "distinct (by_offset ?f)"
    using btm_sorted_distinct [of "by_offset ?f"] ok(1) by (simp add: index_ok_def distinct_map)
  then have o: "by_offset ?f = [(0, ?t)]" using bl by (rule distinct_set_singleton)
  have "set (by_size ?f) = {(?t, 0)}" "bts_sorted (by_size ?f)" using ok(1) by (simp_all add: index_ok_def bl)
  then have "by_size ?f = [(?t, 0)]" by (intro distinct_set_singleton) (simp_all add: strict_sorted_iff)
  with o show ?thesis
    using d(1,2) fb by (auto simp: freelist_stats_def freelist_wf_alt)
qed

text \<open>
  The usage counters are exact: in every reachable state the reported used bytes are the sum of
  the capacities of the live extents, used and free add up to the region, and the high watermark
  bounds the usage.
\<close>

theorem slab_stats_exact:
  assumes "slab_reach s L"
  shows "finite L
    \<and> ss_used (freelist_stats (slab_alloc_state s)) = (\<Sum>e \<in> L. ext_capacity e)
    \<and> ss_used (freelist_stats (slab_alloc_state s)) + ss_free (freelist_stats (slab_alloc_state s)) = slab_len s
    \<and> ss_used (freelist_stats (slab_alloc_state s)) \<le> ss_high_watermark (freelist_stats (slab_alloc_state s))"
proof -
  let ?f = "slab_alloc_state s" and ?U = "\<Union>p \<in> ext_cells ` L. cells p"
  have inv: "slab_inv s L" by (rule slab_reach_inv [OF assms])
  note d = slab_inv_D [OF inv]
  have fin: "finite L" by (rule slab_reach_finite [OF assms])
  have "card ?U = (\<Sum>p \<in> ext_cells ` L. card (cells p))"
  proof (rule card_UN_disjoint)
    have "partition (free_bytes ?f) (slab_len s) (ext_cells ` L)" using inv by (simp add: slab_inv_def)
    note p = partitionD(4) [OF this]
    show "\<forall>i \<in> ext_cells ` L. \<forall>j \<in> ext_cells ` L. i \<noteq> j \<longrightarrow> cells i \<inter> cells j = {}" using p by blast
  qed (use fin in auto)
  also have "\<dots> = (\<Sum>e \<in> L. ext_capacity e)"
    using inv by (simp add: slab_inv_def sum.reindex)
  finally have U: "card ?U = (\<Sum>e \<in> L. ext_capacity e)" .
  have "finite ?U" using fin by auto
  then have "card (free_bytes ?f) = slab_len s - card ?U" "card ?U \<le> slab_len s"
    using d(3,4) card_Diff_subset [of ?U "{..< slab_len s}"] card_mono [of "{..< slab_len s}" ?U] by simp_all
  then have "bytes_used ?f = card ?U" "bytes_used ?f + bytes_free ?f = slab_len s"
    using d(1,2) by (auto simp: freelist_wf_alt)
  then show ?thesis using U fin d(1) by (auto simp: freelist_stats_def freelist_wf_alt)
qed

lemma copy_segments_eq: "copy_segments off segs mem = store_bytes off (concat segs) mem"
  by (induction segs arbitrary: off mem) (simp_all add: store_bytes_append)

lemma copy_in_exact:
  assumes inv: "slab_inv s L" and "e \<in> L" "length (concat segs) = ext_len e"
  shows "extent_bytes (copy_in s e segs) e = concat segs"
    "e' \<in> L \<Longrightarrow> e' \<noteq> e \<Longrightarrow> extent_bytes (copy_in s e segs) e' = extent_bytes s e'"
proof -
  have mem: "slab_mem (copy_in s e segs) = store_bytes (ext_offset e) (concat segs) (slab_mem s)"
    by (simp add: copy_in_def copy_segments_eq)
  show "extent_bytes (copy_in s e segs) e' = extent_bytes s e'" if "e' \<in> L" "e' \<noteq> e" for e'
  proof -
    have "ext_len e \<le> ext_capacity e" "ext_len e' \<le> ext_capacity e'"
      using inv assms(2) that by (auto simp: slab_inv_def)
    then show ?thesis
      using ext_apart [OF inv assms(2) that(1)] that(2) assms(3)
      unfolding extent_bytes_def mem by (intro load_store_apart) auto
  qed
  show "extent_bytes (copy_in s e segs) e = concat segs"
    using load_store_same [of "ext_offset e" "concat segs"] assms(3) by (simp add: extent_bytes_def mem)
qed

text \<open>
  C22. Filling an extent is exact and isolated: reading the filled extent back gives the segments in
  order, and the contents of every other live extent are unchanged.
\<close>

theorem copy_in_isolated:
  assumes "slab_reach s L" "e \<in> L" "length (concat segs) = ext_len e"
  shows "extent_bytes (copy_in s e segs) e = concat segs
    \<and> (\<forall>e' \<in> L. e' \<noteq> e \<longrightarrow> extent_bytes (copy_in s e segs) e' = extent_bytes s e')"
  using copy_in_exact [OF slab_reach_inv [OF assms(1)] assms(2,3)] by blast

text \<open>
  Allocation is best fit: the block that serves a request is the smallest one that is large
  enough, the one at the lowest offset among equals, and its head is what the client gets.
\<close>

theorem freelist_alloc_best_fit:
  assumes "freelist_wf f" "freelist_alloc f sz = (Some off, f')"
  shows "\<exists>len. (off, len) \<in> set (by_offset f) \<and> sz \<le> len
    \<and> (\<forall>(off', len') \<in> set (by_offset f). sz \<le> len' \<longrightarrow> len < len' \<or> len = len' \<and> off \<le> off')"
proof -
  have "index_ok f" using assms(1) by (simp add: freelist_wf_alt)
  then obtain len where len: "(off, len) \<in> blocks f" "sz \<le> len"
    "\<And>o' l'. (o', l') \<in> blocks f \<Longrightarrow> sz \<le> l' \<Longrightarrow> (len, off) \<le> (l', o')"
    using freelist_alloc_block [OF _ assms(2)] by metis
  have "len < l' \<or> len = l' \<and> off \<le> o'" if "(o', l') \<in> blocks f" "sz \<le> l'" for o' l'
    using len(3) [OF that] by auto
  with len(1,2) show ?thesis by blast
qed


section \<open>Witnesses\<close>

definition sample_slab :: RdmaSlab where
  "sample_slab = \<lparr> slab_base = 4096, slab_len = 2097152, slab_lkeys = [1], slab_rkeys = [2],
     slab_alloc_state = freelist_new 2097152, slab_mem = (\<lambda>_. 0) \<rparr>"

lemma round_up_2MB: "round_up 2097152 2097152 = 2097152"
  using align_up64_pow2 [of 21 2097152] by (simp add: round_up_def)

lemma round_up_5000: "round_up 5000 4096 = 8192" "round_up 100 4096 = 4096"
  using align_up64_pow2 [of 12 5000] align_up64_pow2 [of 12 100] by (simp_all add: round_up_def)

lemma sample_slab_reach: "slab_reach sample_slab {}"
  by (rule slab_init [of 4096 "[(1, 2)]" 0])
    (simp_all add: slab_new_def sample_slab_def HUGE_ALIGN_def round_up_2MB)

abbreviation sample_ext1 :: SlabExtent where
  "sample_ext1 \<equiv> \<lparr> ext_offset = 0, ext_len = 5000, ext_capacity = 8192 \<rparr>"
abbreviation sample_ext2 :: SlabExtent where
  "sample_ext2 \<equiv> \<lparr> ext_offset = 8192, ext_len = 100, ext_capacity = 4096 \<rparr>"

definition sample_slab2 :: RdmaSlab where
  "sample_slab2 = snd (slab_alloc (snd (slab_alloc sample_slab 5000)) 100)"

lemma sample_allocs:
  "slab_alloc sample_slab 5000 = (Some sample_ext1, snd (slab_alloc sample_slab 5000))"
  "slab_alloc (snd (slab_alloc sample_slab 5000)) 100 = (Some sample_ext2, sample_slab2)"
  by (simp_all add: sample_slab2_def sample_slab_def slab_alloc_def freelist_alloc_def freelist_new_def
      SLAB_ALIGN_def round_up_5000 bts_first_from_def remove_block_def insert_block_def Let_def
      btm_remove_def bts_remove_def wadd64_def wsub64_def)

lemma sample_slab2_reach: "slab_reach sample_slab2 {sample_ext1, sample_ext2}"
proof -
  have "slab_reach (snd (slab_alloc sample_slab 5000)) {sample_ext1}"
    by (rule slab_take [OF sample_slab_reach _ sample_allocs(1)]) (simp add: SLAB_ALIGN_def)
  from slab_take [OF this _ sample_allocs(2)] show ?thesis
    by (simp add: SLAB_ALIGN_def insert_commute)
qed

theorem slab_extents_disjoint_witness:
  "ext_offset sample_ext1 + ext_capacity sample_ext1 \<le> slab_len sample_slab2
   \<and> ext_len sample_ext1 \<le> ext_capacity sample_ext1
   \<and> 4096 dvd ext_offset sample_ext1 \<and> 4096 dvd ext_capacity sample_ext1
   \<and> (ext_offset sample_ext1 + ext_capacity sample_ext1 \<le> ext_offset sample_ext2
      \<or> ext_offset sample_ext2 + ext_capacity sample_ext2 \<le> ext_offset sample_ext1)"
  using slab_extents_disjoint [OF sample_slab2_reach, of sample_ext1 sample_ext2] by simp

theorem slab_alloc_fails_iff_no_room_witness: "fst (slab_alloc sample_slab 5000) \<noteq> None"
proof -
  have "\<exists>a. a + round_up 5000 4096 \<le> slab_len sample_slab"
    by (intro exI [of _ 0]) (simp add: round_up_5000 sample_slab_def)
  then show ?thesis
    using slab_alloc_fails_iff_no_room [OF sample_slab_reach, of 5000] by auto
qed

theorem slab_recovers_fully_witness: "by_offset (slab_alloc_state sample_slab) = [(0, slab_len sample_slab)]"
  using slab_recovers_fully [OF sample_slab_reach] by blast

theorem slab_stats_exact_witness:
  "ss_used (freelist_stats (slab_alloc_state sample_slab2)) = 12288"
  using slab_stats_exact [OF sample_slab2_reach] by simp

theorem copy_in_isolated_witness:
  "extent_bytes (copy_in sample_slab2 sample_ext2 [replicate 60 7, replicate 40 9]) sample_ext2
     = replicate 60 7 @ replicate 40 9"
  using copy_in_isolated [OF sample_slab2_reach, of sample_ext2 "[replicate 60 7, replicate 40 9]"] by simp

theorem freelist_alloc_best_fit_witness:
  "\<exists>len. (0, len) \<in> set (by_offset (freelist_new 8192)) \<and> 4096 \<le> len"
proof -
  have "freelist_alloc (freelist_new 8192) 4096 = (Some 0, snd (freelist_alloc (freelist_new 8192) 4096))"
    by (simp add: freelist_alloc_def freelist_new_def bts_first_from_def Let_def)
  from freelist_alloc_best_fit [OF freelist_new_wf(1) this] show ?thesis by auto
qed

end
