(* ===== verification/Config.thy ===== *)
theory Config
  imports KVError
begin

text \<open>
  \<open>config.rs\<close>: the configuration records with their defaults, and \<open>Config::validate\<close>.  The TOML
  parser (serde, toml) is a third-party library and \<open>from_file\<close> takes its result as an argument.
\<close>

record cluster_node_config =
  cn_node_id :: string
  cn_grpc_endpoint :: string
  cn_rdma_endpoint :: string

record cluster_config =
  cl_node_id :: string
  cl_grpc_advertise :: string
  cl_rdma_advertise :: string
  cl_data_nodes :: "cluster_node_config list"

record api_config =
  api_listen :: string
  api_max_connections :: nat

record storage_config =
  devices :: "string list"
  data_subdir :: string
  striping_threshold :: nat
  striping_chunk_size :: nat
  rdma_stream_chunk_size :: nat
  verify_stripe_checksums :: bool

record memory_tier_config =
  capacity_mb :: nat
  slab_size_mb :: nat
  use_pinned_memory :: bool

record io_executor_config =
  io_kind_name :: string
  thread_pool_size :: nat
  io_uring_depth :: nat

record router_config =
  rc_strategy :: string

record metadata_config =
  redis_url :: string
  redis_key_prefix :: string
  redis_connect_timeout_ms :: nat
  redis_command_timeout_ms :: nat

record gc_config =
  gc_enabled :: bool
  gc_interval_seconds :: nat
  gc_grace_seconds :: nat
  gc_max_tasks_per_run :: nat
  gc_task_lease_seconds :: nat

record config =
  cfg_api :: api_config
  cfg_storage :: storage_config
  cfg_memory_tier :: memory_tier_config
  cfg_io_executor :: io_executor_config
  cfg_router :: router_config
  cfg_cluster :: cluster_config
  cfg_metadata :: metadata_config
  cfg_gc :: gc_config

definition default_striping_threshold :: nat where
  "default_striping_threshold = 256 * 1024 * 1024"

definition default_striping_chunk_size :: nat where
  "default_striping_chunk_size = 64 * 1024 * 1024"

definition default_rdma_stream_chunk_size :: nat where
  "default_rdma_stream_chunk_size = 4 * 1024 * 1024"

definition default_api_config :: api_config where
  "default_api_config = \<lparr> api_listen = ''0.0.0.0:50051'', api_max_connections = 1000 \<rparr>"

definition default_storage_config :: storage_config where
  "default_storage_config =
     \<lparr> devices = [''./data/nvme0''], data_subdir = ''contextstore'',
       striping_threshold = default_striping_threshold,
       striping_chunk_size = default_striping_chunk_size,
       rdma_stream_chunk_size = default_rdma_stream_chunk_size,
       verify_stripe_checksums = False \<rparr>"

definition default_memory_tier_config :: memory_tier_config where
  "default_memory_tier_config =
     \<lparr> capacity_mb = 4096, slab_size_mb = 64, use_pinned_memory = False \<rparr>"

definition default_io_executor_config :: io_executor_config where
  "default_io_executor_config =
     \<lparr> io_kind_name = ''tier_a'', thread_pool_size = 32, io_uring_depth = 256 \<rparr>"

definition default_router_config :: router_config where
  "default_router_config = \<lparr> rc_strategy = ''object_hash'' \<rparr>"

definition default_cluster_config :: cluster_config where
  "default_cluster_config =
     \<lparr> cl_node_id = [], cl_grpc_advertise = [], cl_rdma_advertise = [], cl_data_nodes = [] \<rparr>"

definition default_metadata_config :: metadata_config where
  "default_metadata_config =
     \<lparr> redis_url = ''redis://127.0.0.1:6379/'', redis_key_prefix = ''contextstore:metadata:'',
       redis_connect_timeout_ms = 1000, redis_command_timeout_ms = 1000 \<rparr>"

definition default_gc_config :: gc_config where
  "default_gc_config =
     \<lparr> gc_enabled = True, gc_interval_seconds = 300, gc_grace_seconds = 600,
       gc_max_tasks_per_run = 1000, gc_task_lease_seconds = 300 \<rparr>"

definition default_config :: config where
  "default_config =
     \<lparr> cfg_api = default_api_config, cfg_storage = default_storage_config,
       cfg_memory_tier = default_memory_tier_config,
       cfg_io_executor = default_io_executor_config, cfg_router = default_router_config,
       cfg_cluster = default_cluster_config, cfg_metadata = default_metadata_config,
       cfg_gc = default_gc_config \<rparr>"

text \<open>
  \<open>s.trim().is_empty()\<close>: every character of the UTF-8 string is in Unicode's \<open>White_Space\<close>
  (ASCII 9--13 and 32, U+0085, U+00A0, U+1680, U+2000--U+200A, U+2028, U+2029, U+202F, U+205F,
  U+3000).
\<close>

fun blank_codes :: "nat list \<Rightarrow> bool" where
  "blank_codes [] = True"
| "blank_codes (a # r) =
     (if (9 \<le> a \<and> a \<le> 13) \<or> a = 32 then blank_codes r
      else (case r of [] \<Rightarrow> False | b # r2 \<Rightarrow>
        if a = 194 then (b = 133 \<or> b = 160) \<and> blank_codes r2
        else (case r2 of [] \<Rightarrow> False | c # r3 \<Rightarrow>
          ((a = 225 \<and> b = 154 \<and> c = 128)
           \<or> (a = 226 \<and> b = 128 \<and> ((128 \<le> c \<and> c \<le> 138) \<or> c = 168 \<or> c = 169 \<or> c = 175))
           \<or> (a = 226 \<and> b = 129 \<and> c = 159)
           \<or> (a = 227 \<and> b = 128 \<and> c = 128)) \<and> blank_codes r3)))"

definition is_blank :: "string \<Rightarrow> bool" where
  "is_blank s = blank_codes (map of_char s)"

definition validate :: "config \<Rightarrow> unit res" where
  "validate c =
     (if devices (cfg_storage c) = [] then
        Inl (Config ''at least one storage device must be configured'')
      else if list_ex (\<lambda>n. is_blank (cn_grpc_endpoint n)) (cl_data_nodes (cfg_cluster c)) then
        Inl (Config ''cluster.data_nodes.grpc_endpoint must not be empty'')
      else if rc_strategy (cfg_router c) \<noteq> ''object_hash'' then
        Inl (Config (''unknown router strategy: '' @ rc_strategy (cfg_router c)))
      else if io_kind_name (cfg_io_executor c) \<notin> {''tier_a'', ''tier_b'', ''tier_c''} then
        Inl (Config (''unknown io_executor.kind: '' @ io_kind_name (cfg_io_executor c)))
      else if is_blank (redis_url (cfg_metadata c)) then
        Inl (Config ''metadata.redis_url must not be empty'')
      else if take 9 (redis_url (cfg_metadata c)) = ''memory://'' then
        Inl (Config ''metadata.redis_url memory:// is only available in unit tests'')
      else if is_blank (redis_key_prefix (cfg_metadata c)) then
        Inl (Config ''metadata.redis_key_prefix must not be empty'')
      else if redis_connect_timeout_ms (cfg_metadata c) = 0 then
        Inl (Config ''metadata.redis_connect_timeout_ms must be greater than 0'')
      else if redis_command_timeout_ms (cfg_metadata c) = 0 then
        Inl (Config ''metadata.redis_command_timeout_ms must be greater than 0'')
      else if gc_enabled (cfg_gc c) \<and> gc_interval_seconds (cfg_gc c) = 0 then
        Inl (Config ''gc.interval_seconds must be greater than 0 when GC is enabled'')
      else if gc_enabled (cfg_gc c) \<and> gc_max_tasks_per_run (cfg_gc c) = 0 then
        Inl (Config ''gc.max_tasks_per_run must be greater than 0 when GC is enabled'')
      else if gc_enabled (cfg_gc c) \<and> gc_task_lease_seconds (cfg_gc c) = 0 then
        Inl (Config ''gc.task_lease_seconds must be greater than 0 when GC is enabled'')
      else Inr ())"

lemmas default_config_defs =
  default_config_def default_api_config_def default_storage_config_def
  default_memory_tier_config_def default_io_executor_config_def default_router_config_def
  default_cluster_config_def default_metadata_config_def default_gc_config_def

lemma default_not_blank:
  "\<not> is_blank ''redis://127.0.0.1:6379/''" "\<not> is_blank ''contextstore:metadata:''"
  by (simp_all add: is_blank_def)

lemma validate_default: "validate default_config = Inr ()"
  by (simp add: validate_def default_config_defs default_not_blank)

lemma validate_ok_iff:
  "validate c = Inr () \<longleftrightarrow>
     devices (cfg_storage c) \<noteq> []
     \<and> (\<forall>n \<in> set (cl_data_nodes (cfg_cluster c)). \<not> is_blank (cn_grpc_endpoint n))
     \<and> rc_strategy (cfg_router c) = ''object_hash''
     \<and> io_kind_name (cfg_io_executor c) \<in> {''tier_a'', ''tier_b'', ''tier_c''}
     \<and> \<not> is_blank (redis_url (cfg_metadata c)) \<and> take 9 (redis_url (cfg_metadata c)) \<noteq> ''memory://''
     \<and> \<not> is_blank (redis_key_prefix (cfg_metadata c))
     \<and> redis_connect_timeout_ms (cfg_metadata c) \<noteq> 0
     \<and> redis_command_timeout_ms (cfg_metadata c) \<noteq> 0
     \<and> (gc_enabled (cfg_gc c) \<longrightarrow> gc_interval_seconds (cfg_gc c) \<noteq> 0
          \<and> gc_max_tasks_per_run (cfg_gc c) \<noteq> 0 \<and> gc_task_lease_seconds (cfg_gc c) \<noteq> 0)"
  by (simp add: validate_def list_ex_iff split: if_split)

end
