(* ===== verification/Router.thy ===== *)
theory Router
  imports Config
begin

text \<open>
  \<open>router.rs\<close>: object identities with their canonical string encoding, the routing of a key to a
  device, and the file paths of objects and stripes.  The hash functions come from third-party
  packages (\<open>twox_hash::xxh3::hash64\<close>, the \<open>md5\<close> crate) and are the fields of \<open>hashers\<close>;
  \<open>md5_hex\<close> is the lower-case hexadecimal rendering \<open>format!("{:x}", ..)\<close> of the digest.

  A router without devices makes \<open>object_hash\<close> divide by zero and a device index past the end
  makes the path functions panic; \<open>Config::validate\<close> refuses the first, and every index the server
  passes is produced by \<open>route\<close> or \<open>chunk_device\<close>, or checked against the device count first.
\<close>

section \<open>Object keys\<close>

record ObjectKey =
  namespace :: string
  object_key :: string

record hashers =
  hash64 :: "bytes \<Rightarrow> u64"
  md5_hex :: "bytes \<Rightarrow> string"

definition to_string_key :: "ObjectKey \<Rightarrow> string" where
  "to_string_key k = dec (length (namespace k)) @ '':'' @ namespace k @ object_key k"

definition object_digest :: "hashers \<Rightarrow> ObjectKey \<Rightarrow> string" where
  "object_digest H k = md5_hex H (as_bytes (to_string_key k))"

definition split_once :: "char \<Rightarrow> string \<Rightarrow> (string \<times> string) option" where
  "split_once d s =
     (case dropWhile (\<lambda>c. c \<noteq> d) s of [] \<Rightarrow> None | _ # rest \<Rightarrow> Some (takeWhile (\<lambda>c. c \<noteq> d) s, rest))"

definition from_string_key :: "string \<Rightarrow> ObjectKey res" where
  "from_string_key value =
     (case split_once CHR '':'' value of
        None \<Rightarrow> Inl (InvalidArgument (''invalid object key encoding: '' @ value))
      | Some (len_part, rest) \<Rightarrow>
          (case parse_usize len_part of
             None \<Rightarrow> Inl (InvalidArgument (''invalid namespace length in object key: '' @ value))
           | Some ns_len \<Rightarrow>
               if length rest < ns_len \<or> \<not> is_char_boundary rest ns_len
               then Inl (InvalidArgument (''invalid namespace boundary in object key: '' @ value))
               else Inr \<lparr> namespace = take ns_len rest, object_key = drop ns_len rest \<rparr>))"


section \<open>Routing\<close>

datatype Strategy = ObjectHash

definition strategy_from_config :: "string \<Rightarrow> Strategy" where
  "strategy_from_config s = (if s = ''object_hash'' then ObjectHash else ObjectHash)"

record ShardRouter =
  sr_devices :: "string list"
  sr_data_subdir :: string
  sr_strategy :: Strategy

definition router_new :: "config \<Rightarrow> ShardRouter res" where
  "router_new c =
     Inr \<lparr> sr_devices = devices (cfg_storage c), sr_data_subdir = data_subdir (cfg_storage c),
           sr_strategy = strategy_from_config (rc_strategy (cfg_router c)) \<rparr>"

definition num_devices :: "ShardRouter \<Rightarrow> nat" where
  "num_devices r = length (sr_devices r)"

definition object_hash :: "hashers \<Rightarrow> ShardRouter \<Rightarrow> ObjectKey \<Rightarrow> nat" where
  "object_hash H r k = unat (hash64 H (as_bytes (to_string_key k))) mod length (sr_devices r)"

definition route :: "hashers \<Rightarrow> ShardRouter \<Rightarrow> ObjectKey \<Rightarrow> nat" where
  "route H r k = (case sr_strategy r of ObjectHash \<Rightarrow> object_hash H r k)"

definition chunk_device :: "hashers \<Rightarrow> ShardRouter \<Rightarrow> ObjectKey \<Rightarrow> nat \<Rightarrow> nat" where
  "chunk_device H r k chunk_idx = wadd64 (object_hash H r k) chunk_idx mod length (sr_devices r)"

definition push_group :: "hashers \<Rightarrow> ShardRouter \<Rightarrow> ObjectKey \<Rightarrow> ObjectKey list list \<Rightarrow> ObjectKey list list"
  where "push_group H r k groups = groups[route H r k := groups ! route H r k @ [k]]"

definition group_by_device ::
  "hashers \<Rightarrow> ShardRouter \<Rightarrow> ObjectKey list \<Rightarrow> (nat \<times> ObjectKey list) list" where
  "group_by_device H r keys =
     filter (\<lambda>(_, v). v \<noteq> [])
       (enumerate 0 (fold (push_group H r) keys (replicate (length (sr_devices r)) [])))"


section \<open>File paths\<close>

definition ascii_alphanumeric :: "char \<Rightarrow> bool" where
  "ascii_alphanumeric c \<longleftrightarrow>
     (let x = (of_char c :: nat) in (48 \<le> x \<and> x \<le> 57) \<or> (65 \<le> x \<and> x \<le> 90) \<or> (97 \<le> x \<and> x \<le> 122))"

text \<open>
  \<open>value.chars()\<close> yields one \<open>char\<close> per UTF-8 lead byte, so a multi-byte character becomes a
  single underscore: its continuation bytes are skipped.
\<close>

definition path_char :: "char \<Rightarrow> char" where
  "path_char c = (if ascii_alphanumeric c \<or> c \<in> {CHR ''.'', CHR ''-'', CHR ''_''} then c else CHR ''_'')"

definition path_component :: "string \<Rightarrow> string" where
  "path_component value =
     (let out = map path_char (filter (\<lambda>c. \<not> is_cont_char c) value) in
      if out = [] \<or> out = ''.'' \<or> out = ''..'' then ''_'' else out)"

definition object_dir :: "hashers \<Rightarrow> ShardRouter \<Rightarrow> ObjectKey \<Rightarrow> nat \<Rightarrow> string" where
  "object_dir H r k device_id =
     (let digest = object_digest H k; hi = take 2 digest; lo = take 2 (drop 2 digest) in
      path_join (path_join (path_join (path_join (path_join
        (sr_devices r ! device_id) (sr_data_subdir r)) ''data'') (path_component (namespace k))) hi) lo)"

abbreviation digest_file :: "hashers \<Rightarrow> ObjectKey \<Rightarrow> string" where
  "digest_file H k \<equiv> drop 2 (drop 2 (object_digest H k))"

definition key_to_versioned_path ::
  "hashers \<Rightarrow> ShardRouter \<Rightarrow> ObjectKey \<Rightarrow> nat \<Rightarrow> nat \<Rightarrow> nat \<Rightarrow> string" where
  "key_to_versioned_path H r k device_id generation layout_version =
     path_join (object_dir H r k device_id)
       (digest_file H k @ ''.g'' @ dec generation @ ''.l'' @ dec layout_version @ ''.bin'')"

definition key_to_path_on_device :: "hashers \<Rightarrow> ShardRouter \<Rightarrow> ObjectKey \<Rightarrow> nat \<Rightarrow> string" where
  "key_to_path_on_device H r k device_id =
     path_join (object_dir H r k device_id) (digest_file H k @ ''.bin'')"

definition key_to_path :: "hashers \<Rightarrow> ShardRouter \<Rightarrow> ObjectKey \<Rightarrow> string" where
  "key_to_path H r k = key_to_path_on_device H r k (route H r k)"

definition chunk_path :: "hashers \<Rightarrow> ShardRouter \<Rightarrow> ObjectKey \<Rightarrow> nat \<Rightarrow> nat \<Rightarrow> string" where
  "chunk_path H r k chunk_idx device_id =
     path_join (object_dir H r k device_id) (digest_file H k @ ''.chunk'' @ dec chunk_idx @ ''.bin'')"

definition chunk_versioned_path ::
  "hashers \<Rightarrow> ShardRouter \<Rightarrow> ObjectKey \<Rightarrow> nat \<Rightarrow> nat \<Rightarrow> nat \<Rightarrow> nat \<Rightarrow> string" where
  "chunk_versioned_path H r k chunk_idx device_id generation layout_version =
     path_join (object_dir H r k device_id)
       (digest_file H k @ ''.g'' @ dec generation @ ''.l'' @ dec layout_version
          @ ''.chunk'' @ dec chunk_idx @ ''.bin'')"


section \<open>The key encoding\<close>

lemma takeWhile_dec_colon [simp]:
  "takeWhile (\<lambda>c. c \<noteq> CHR '':'') (dec n @ CHR '':'' # s) = dec n"
  "dropWhile (\<lambda>c. c \<noteq> CHR '':'') (dec n @ CHR '':'' # s) = CHR '':'' # s"
proof -
  have "CHR '':'' \<notin> set (dec n)"
    by (rule not_digit_notin_dec) (simp add: is_digit_def)
  then have "\<forall>c \<in> set (dec n). c \<noteq> CHR '':''" by metis
  then show "takeWhile (\<lambda>c. c \<noteq> CHR '':'') (dec n @ CHR '':'' # s) = dec n"
    "dropWhile (\<lambda>c. c \<noteq> CHR '':'') (dec n @ CHR '':'' # s) = CHR '':'' # s"
    by simp_all
qed

lemma split_once_to_string_key:
  "split_once CHR '':'' (to_string_key k) = Some (dec (length (namespace k)), namespace k @ object_key k)"
  by (simp add: split_once_def to_string_key_def)

lemma is_char_boundary_append:
  assumes "utf8_string t"
  shows "is_char_boundary (s @ t) (length s)"
  using assms utf8_string_start_boundary
  by (cases t) (auto simp: is_char_boundary_def nth_append)

lemma from_string_key_canonical:
  assumes "utf8_string (object_key k)" "length (namespace k) < 2 ^ 64"
  shows "from_string_key (to_string_key k) = Inr k"
  using assms
  by (simp add: from_string_key_def split_once_to_string_key parse_usize_dec
      is_char_boundary_append)

text \<open>
  C23. The canonical string key is lossless: decoding the encoding of any key (whose object key is
  a Rust string, that is, valid UTF-8, and whose namespace length fits a \<open>usize\<close>) returns exactly
  that key, whatever \<open>:\<close>, \<open>/\<close> or digits occur in its two parts.
\<close>

theorem key_round_trip:
  assumes "utf8_string (object_key k)" "length (namespace k) < 2 ^ 64"
  shows "from_string_key (to_string_key k) = Inr k"
  using assms by (rule from_string_key_canonical)

theorem key_round_trip_witness:
  "from_string_key (to_string_key \<lparr> namespace = ''tenant:a'', object_key = ''3:x/y'' \<rparr>)
     = Inr \<lparr> namespace = ''tenant:a'', object_key = ''3:x/y'' \<rparr>"
  by (rule key_round_trip)
    (simp_all add: utf8_string_def as_bytes_def in_range_def unat_of_nat)

text \<open>
  C24. Two different object identities never share a canonical key: a metadata entry, a hash or a
  digest computed from the encoding speaks of one object only.
\<close>

theorem to_string_key_inj: "inj to_string_key"
proof (rule injI)
  fix k k' :: ObjectKey
  assume "to_string_key k = to_string_key k'"
  then have "split_once CHR '':'' (to_string_key k) = split_once CHR '':'' (to_string_key k')"
    by simp
  then have "length (namespace k) = length (namespace k')"
    and "namespace k @ object_key k = namespace k' @ object_key k'"
    by (simp_all add: split_once_to_string_key)
  then show "k = k'" by simp
qed


section \<open>Routing stays within the configured devices\<close>

abbreviation router_ok :: "ShardRouter \<Rightarrow> bool" where
  "router_ok r \<equiv> sr_devices r \<noteq> []"

lemma object_hash_less [simp]: "router_ok r \<Longrightarrow> object_hash H r k < length (sr_devices r)"
  by (simp add: object_hash_def)

lemma route_less [simp]: "router_ok r \<Longrightarrow> route H r k < length (sr_devices r)"
  by (simp add: route_def split: Strategy.split)

lemma chunk_device_less [simp]: "router_ok r \<Longrightarrow> chunk_device H r k i < length (sr_devices r)"
  by (simp add: chunk_device_def)

lemma route_eq_chunk_device_0: "router_ok r \<Longrightarrow> object_hash H r k < 2 ^ 64 \<Longrightarrow> chunk_device H r k 0 = route H r k"
  by (simp add: chunk_device_def route_def wadd64_exact split: Strategy.split)

text \<open>
  C27. A server started from a validated configuration routes every key, and every stripe of it, to
  an existing device: no index computed by the router is out of range.
\<close>

theorem validated_config_routes:
  assumes "validate c = Inr ()"
  shows "\<exists>r. router_new c = Inr r \<and> num_devices r = length (devices (cfg_storage c))
    \<and> (\<forall>H k i. route H r k < num_devices r \<and> chunk_device H r k i < num_devices r)"
proof -
  obtain r where r: "router_new c = Inr r" "sr_devices r = devices (cfg_storage c)"
    by (simp add: router_new_def)
  then have "router_ok r" using assms by (simp add: validate_ok_iff)
  with r show ?thesis by (auto simp: num_devices_def simp flip: r(2))
qed

theorem validated_config_routes_witness:
  "\<exists>r. router_new default_config = Inr r \<and> num_devices r = length (devices (cfg_storage default_config))
    \<and> (\<forall>H k i. route H r k < num_devices r \<and> chunk_device H r k i < num_devices r)"
  by (rule validated_config_routes) (rule validate_default)

lemma mod_add_inj_window:
  fixes b x y n :: nat
  assumes "(b + x) mod n = (b + y) mod n" "x < y + n" "y < x + n"
  shows "x = y"
proof (rule ccontr)
  assume "x \<noteq> y"
  have dvd: "n dvd (b + v) - (b + u)" if "(b + u) mod n = (b + v) mod n" "u < v" for u v
    using that by (intro mod_eq_dvd_iff_nat [THEN iffD1]) auto
  show False
  proof (cases "x < y")
    case True
    then have "n dvd y - x" using dvd [of x y] assms by simp
    then show False using True assms by (auto dest: dvd_imp_le)
  next
    case False
    then have "n dvd x - y" using dvd [of y x] assms \<open>x \<noteq> y\<close> by simp
    then show False using False assms \<open>x \<noteq> y\<close> by (auto dest: dvd_imp_le)
  qed
qed

text \<open>
  Striping is balanced: any window of as many consecutive stripes as there are devices puts
  exactly one stripe on each device (as long as the stripe indices do not reach the end of the
  64-bit range).
\<close>

theorem chunk_device_round_robin:
  assumes "router_ok r" "i + 2 * num_devices r < 2 ^ 64"
  shows "bij_betw (chunk_device H r k) {i ..< i + num_devices r} {..< num_devices r}"
proof -
  let ?n = "num_devices r" and ?d = "chunk_device H r k"
  have n: "0 < ?n" using assms by (simp add: num_devices_def)
  have d: "?d j = (object_hash H r k + j) mod ?n" if "j < i + ?n" for j
  proof -
    have "object_hash H r k + j < 2 ^ 64"
      using that assms(2) object_hash_less [OF assms(1), of H k] unfolding num_devices_def by linarith
    then show ?thesis by (simp add: chunk_device_def num_devices_def wadd64_exact)
  qed
  have "inj_on ?d {i ..< i + ?n}"
  proof (rule inj_onI)
    fix x y assume "x \<in> {i ..< i + ?n}" "y \<in> {i ..< i + ?n}" "?d x = ?d y"
    then show "x = y" using mod_add_inj_window [of "object_hash H r k" x ?n y] by (simp add: d)
  qed
  moreover have "?d ` {i ..< i + ?n} \<subseteq> {..< ?n}"
    using assms by (auto simp: num_devices_def)
  ultimately show ?thesis
    by (simp add: bij_betw_def card_image card_subset_eq)
qed

theorem chunk_device_round_robin_witness:
  "bij_betw (chunk_device \<lparr> hash64 = (\<lambda>_. 7), md5_hex = (\<lambda>_. ''d41d8cd9'') \<rparr>
     \<lparr> sr_devices = [''/a'', ''/b'', ''/c''], sr_data_subdir = ''cs'', sr_strategy = ObjectHash \<rparr>
     \<lparr> namespace = ''n'', object_key = ''k'' \<rparr>) {2 ..< 2 + 3} {..< 3}"
  using chunk_device_round_robin
    [of "\<lparr> sr_devices = [''/a'', ''/b'', ''/c''], sr_data_subdir = ''cs'', sr_strategy = ObjectHash \<rparr>" 2]
  by (simp add: num_devices_def flip: numeral_3_eq_3)


section \<open>Grouping a batch by device\<close>

lemma fold_push_group:
  assumes "router_ok r" "length groups = length (sr_devices r)" "d < length (sr_devices r)"
  shows "fold (push_group H r) keys groups ! d = groups ! d @ filter (\<lambda>k. route H r k = d) keys"
  using assms
proof (induction keys arbitrary: groups)
  case (Cons k keys)
  then show ?case by (simp add: push_group_def nth_list_update)
qed simp

lemma length_fold_push_group [simp]: "length (fold (push_group H r) keys groups) = length groups"
  by (induction keys arbitrary: groups) (simp_all add: push_group_def)

text \<open>
  Grouping a batch loses, duplicates and reorders nothing: the groups are exactly, in device
  order, the non-empty sublists of the keys routed to each device, each in batch order.
\<close>

theorem group_by_device_eq:
  assumes "router_ok r"
  shows "group_by_device H r keys =
    map (\<lambda>d. (d, filter (\<lambda>k. route H r k = d) keys))
      (filter (\<lambda>d. \<exists>k \<in> set keys. route H r k = d) [0 ..< num_devices r])"
proof -
  let ?n = "length (sr_devices r)"
  have "enumerate 0 (fold (push_group H r) keys (replicate ?n []))
      = map (\<lambda>d. (d, filter (\<lambda>k. route H r k = d) keys)) [0 ..< ?n]"
    using assms by (intro nth_equalityI) (simp_all add: nth_enumerate_eq fold_push_group)
  then show ?thesis
    by (simp add: group_by_device_def num_devices_def filter_map comp_def filter_empty_conv)
qed

theorem group_by_device_eq_witness:
  "group_by_device \<lparr> hash64 = (\<lambda>bs. of_nat (length bs)), md5_hex = (\<lambda>_. []) \<rparr>
     \<lparr> sr_devices = [''/a'', ''/b''], sr_data_subdir = ''cs'', sr_strategy = ObjectHash \<rparr>
     [\<lparr> namespace = ''n'', object_key = ''k'' \<rparr>] =
   [(0, [\<lparr> namespace = ''n'', object_key = ''k'' \<rparr>])]"
proof -
  have "dec 1 = ''1''" by code_simp
  then show ?thesis
    by (subst group_by_device_eq)
      (simp_all add: num_devices_def route_def object_hash_def to_string_key_def upt_rec unat_of_nat
        flip: numeral_2_eq_2)
qed


section \<open>Paths of different versions are different files\<close>

lemma path_components_join:
  assumes "slash \<notin> set n" "n \<noteq> []" "n \<noteq> ''.''"
  shows "path_components (path_join b n) = path_components b @ [n]"
proof -
  have hd: "hd n \<noteq> slash" using assms by (cases n) auto
  consider "b = []" | c where "b = c @ [slash]" | "b \<noteq> []" "last b \<noteq> slash"
    by (cases b rule: rev_cases) auto
  then show ?thesis
  proof cases
    case 1
    then show ?thesis using assms hd by (simp add: path_join_def path_components_def Let_def)
  next
    case 2
    then have b: "b = c @ slash # []" by simp
    have "hd (c @ slash # n) = hd (c @ slash # [])" by (cases c) auto
    then show ?thesis using assms hd
      by (simp add: b path_join_def path_components_def Let_def split_on_append_sep
          del: split_on.simps)
  next
    case 3
    then show ?thesis using assms hd
      by (simp add: path_join_def path_components_def Let_def split_on_append_sep
          del: split_on.simps)
  qed
qed

definition hex_digest :: "hashers \<Rightarrow> bool" where
  "hex_digest H \<longleftrightarrow> (\<forall>bs. length (md5_hex H bs) = 32 \<and> set (md5_hex H bs) \<subseteq> set ''0123456789abcdef'')"

lemma slash_notin_dec [simp]: "slash \<notin> set (dec n)"
  by (rule not_digit_notin_dec) (simp add: is_digit_def)

lemma dot_notin_dec [simp]: "CHR ''.'' \<notin> set (dec n)"
  by (rule not_digit_notin_dec) (simp add: is_digit_def)

lemma slash_notin_digest: "hex_digest H \<Longrightarrow> slash \<notin> set (digest_file H k)"
  unfolding hex_digest_def object_digest_def
  by (auto dest!: in_set_dropD spec [of _ "as_bytes (to_string_key k)"])

text \<open>\<open>version_suffix\<close> is the text of a file name after the digest, for an object or one of its stripes.\<close>

definition version_suffix :: "nat \<Rightarrow> nat \<Rightarrow> nat option \<Rightarrow> string" where
  "version_suffix g l c = ''.g'' @ dec g @ ''.l'' @ dec l
     @ (case c of None \<Rightarrow> [] | Some i \<Rightarrow> ''.chunk'' @ dec i) @ ''.bin''"

lemma append_sep_inject:
  assumes "d \<notin> set a" "d \<notin> set a'"
  shows "a @ d # b = a' @ d # b' \<longleftrightarrow> a = a' \<and> b = b'"
proof -
  have "takeWhile (\<lambda>c. c \<noteq> d) (x @ d # y) = x" if "d \<notin> set x" for x y
    using that by (induction x) auto
  then show ?thesis using assms by (metis append_same_eq same_append_eq list.inject)
qed

lemma dec_neq_dotted [simp]: "dec l \<noteq> dec l' @ CHR ''.'' # s" "dec l' @ CHR ''.'' # s \<noteq> dec l"
  using dot_notin_dec [of l] by (metis in_set_conv_decomp)+

lemma version_suffix_inject:
  "version_suffix g l c = version_suffix g' l' c' \<longleftrightarrow> g = g' \<and> l = l' \<and> c = c'"
  by (auto simp: version_suffix_def append_sep_inject split: option.splits)

lemma path_component_safe:
  "slash \<notin> set (path_component v)" "path_component v \<noteq> []" "path_component v \<noteq> ''.''"
  "path_component v \<noteq> ''..''"
proof -
  have "path_char c \<noteq> slash" for c
    by (auto simp: path_char_def ascii_alphanumeric_def Let_def)
  then have "slash \<notin> set (map path_char cs)" for cs by (auto simp: image_iff) metis
  then show "slash \<notin> set (path_component v)" by (auto simp: path_component_def Let_def)
qed (auto simp: path_component_def Let_def)

definition physical_path ::
  "hashers \<Rightarrow> ShardRouter \<Rightarrow> ObjectKey \<Rightarrow> nat \<Rightarrow> nat \<Rightarrow> nat \<Rightarrow> nat option \<Rightarrow> string" where
  "physical_path H r k d g l c =
     (case c of None \<Rightarrow> key_to_versioned_path H r k d g l
      | Some i \<Rightarrow> chunk_versioned_path H r k i d g l)"

lemma physical_path_eq:
  "physical_path H r k d g l c = path_join (object_dir H r k d) (digest_file H k @ version_suffix g l c)"
  by (cases c) (simp_all add: physical_path_def key_to_versioned_path_def chunk_versioned_path_def
      version_suffix_def)

lemma hex_pair_component:
  assumes "set s \<subseteq> set ''0123456789abcdef''" "length s = 2"
  shows "slash \<notin> set s" "s \<noteq> []" "s \<noteq> ''.''" "s \<noteq> ''..''"
  using assms by auto

lemma digest_pairs:
  assumes "hex_digest H"
  shows "length (object_digest H k) = 32"
    "set (take 2 (object_digest H k)) \<subseteq> set ''0123456789abcdef''"
    "set (take 2 (drop 2 (object_digest H k))) \<subseteq> set ''0123456789abcdef''"
    "set (digest_file H k) \<subseteq> set ''0123456789abcdef''"
proof -
  have d: "length (object_digest H k) = 32" "set (object_digest H k) \<subseteq> set ''0123456789abcdef''"
    using assms unfolding hex_digest_def object_digest_def by blast+
  show "length (object_digest H k) = 32" by (rule d)
  show "set (take 2 (object_digest H k)) \<subseteq> set ''0123456789abcdef''"
    "set (take 2 (drop 2 (object_digest H k))) \<subseteq> set ''0123456789abcdef''"
    "set (digest_file H k) \<subseteq> set ''0123456789abcdef''"
    using d(2) set_take_subset set_drop_subset by (meson subset_trans)+
qed

lemma version_suffix_ends:
  "slash \<notin> set (version_suffix g l c)" "version_suffix g l c \<noteq> []"
  "hd (version_suffix g l c) = CHR ''.''" "length (version_suffix g l c) > 4"
  by (auto simp: version_suffix_def split: option.splits)

lemma physical_components:
  assumes "hex_digest H"
  shows "path_components (physical_path H r k d g l c) =
    path_components (path_join (sr_devices r ! d) (sr_data_subdir r))
      @ [''data'', path_component (namespace k), take 2 (object_digest H k),
         take 2 (drop 2 (object_digest H k)), digest_file H k @ version_suffix g l c]"
proof -
  have f: "slash \<notin> set (digest_file H k @ version_suffix g l c)"
    "digest_file H k @ version_suffix g l c \<noteq> []" "digest_file H k @ version_suffix g l c \<noteq> ''.''"
    using slash_notin_digest [OF assms, of k] version_suffix_ends [of g l c]
    by (auto dest: arg_cong [of _ _ length])
  note hi = hex_pair_component [OF digest_pairs(2) [OF assms, of k]]
  note lo = hex_pair_component [OF digest_pairs(3) [OF assms, of k]]
  have len: "length (take 2 (object_digest H k)) = 2" "length (take 2 (drop 2 (object_digest H k))) = 2"
    using digest_pairs(1) [OF assms, of k] by simp_all
  show ?thesis
    unfolding physical_path_eq object_dir_def Let_def
    by (simp only: path_components_join [OF f] path_components_join [OF lo(1,2,3) [OF len(2)]]
        path_components_join [OF hi(1,2,3) [OF len(1)]] path_components_join [OF path_component_safe(1,2,3)]
        path_components_join [of "''data''"] append_assoc) (simp add: path_components_join)
qed

lemma physical_path_inject:
  assumes "hex_digest H"
    and "path_components (physical_path H r k d g l c) = path_components (physical_path H r' k' d' g' l' c')"
  shows "object_digest H k = object_digest H k' \<and> g = g' \<and> l = l' \<and> c = c'"
proof -
  have eqs: "take 2 (object_digest H k) = take 2 (object_digest H k')"
    "take 2 (drop 2 (object_digest H k)) = take 2 (drop 2 (object_digest H k'))"
    "digest_file H k @ version_suffix g l c = digest_file H k' @ version_suffix g' l' c'"
    using assms(2) unfolding physical_components [OF assms(1)] by simp_all
  have "length (digest_file H k) = length (digest_file H k')"
    using digest_pairs(1) [OF assms(1)] by simp
  with eqs(3) have f: "digest_file H k = digest_file H k'" "version_suffix g l c = version_suffix g' l' c'"
    by simp_all
  have "object_digest H k = object_digest H k'"
    using eqs(1,2) f(1) by (metis append_take_drop_id)
  with f(2) show ?thesis by (simp add: version_suffix_inject)
qed

text \<open>A concrete pair of hash functions with the documented shape, for the witnesses.\<close>

definition sample_hashers :: hashers where
  "sample_hashers = \<lparr> hash64 = (\<lambda>bs. of_nat (length bs)), md5_hex = (\<lambda>_. replicate 32 CHR ''a'') \<rparr>"

definition sample_router :: ShardRouter where
  "sample_router = \<lparr> sr_devices = [''/mnt/nvme0'', ''/mnt/nvme1''], sr_data_subdir = ''contextstore'',
     sr_strategy = ObjectHash \<rparr>"

definition sample_key :: ObjectKey where
  "sample_key = \<lparr> namespace = ''tenant'', object_key = ''obj'' \<rparr>"

lemma hex_digest_sample: "hex_digest sample_hashers"
  by (simp add: hex_digest_def sample_hashers_def)

text \<open>
  C25. Physical files are immutable per version: the files of two object versions (or of stripes of
  them) are different paths unless object digest, generation, layout version and stripe index all
  agree.  An overwrite, which takes a new generation, therefore never writes a file that older
  metadata still references, and no two stripes of one version share a file.
\<close>

theorem versioned_paths_distinct:
  assumes "hex_digest H"
    and "(object_digest H k, g, l, c) \<noteq> (object_digest H k', g', l', c')"
  shows "path_components (physical_path H r k d g l c) \<noteq> path_components (physical_path H r' k' d' g' l' c')"
  using physical_path_inject [OF assms(1)] assms(2) by blast

theorem versioned_paths_distinct_witness:
  "path_components (physical_path sample_hashers sample_router sample_key 0 1 1 None)
     \<noteq> path_components (physical_path sample_hashers sample_router sample_key 0 2 1 None)"
  by (rule versioned_paths_distinct [OF hex_digest_sample]) simp

text \<open>
  C26. A namespace cannot place files outside the data directory of its device: below
  \<open>device/data_subdir\<close> every file has exactly five further components, none of them \<open>..\<close>.
\<close>

theorem physical_path_contained:
  assumes "hex_digest H"
  shows "\<exists>tail. path_components (physical_path H r k d g l c) =
      path_components (path_join (sr_devices r ! d) (sr_data_subdir r)) @ tail
    \<and> length tail = 5 \<and> ''..'' \<notin> set tail"
proof -
  have "digest_file H k @ version_suffix g l c \<noteq> ''..''"
    using version_suffix_ends(4) [of g l c] by (auto dest: arg_cong [of _ _ length])
  moreover have "take 2 (object_digest H k) \<noteq> ''..''" "take 2 (drop 2 (object_digest H k)) \<noteq> ''..''"
    using digest_pairs [OF assms, of k] by (auto intro: hex_pair_component(4))
  ultimately show ?thesis
    unfolding physical_components [OF assms] using path_component_safe(4) [of "namespace k"] by auto
qed

theorem physical_path_contained_witness:
  "\<exists>tail. path_components (physical_path sample_hashers sample_router
        \<lparr> namespace = ''../../etc'', object_key = ''x'' \<rparr> 0 1 1 None) =
      path_components (path_join ''/mnt/nvme0'' ''contextstore'') @ tail
    \<and> length tail = 5 \<and> ''..'' \<notin> set tail"
  using physical_path_contained [OF hex_digest_sample, of sample_router
      "\<lparr> namespace = ''../../etc'', object_key = ''x'' \<rparr>" 0 1 1 None]
  by (simp add: sample_router_def)

end
