(* ===== verification/Metadata.thy ===== *)
theory Metadata
  imports KVError
begin

text \<open>
  \<open>metadata.rs\<close>: block metadata, the expiry rule, garbage-collection tasks, the operations of the
  metadata service and its in-process backend (\<open>MemoryMetadataBackend\<close>), which is compiled for tests;
  in production the service runs on Redis.  The JSON encoding of a
  \<open>BlockMeta\<close> is done by \<open>serde_json\<close>: the codec is a parameter \<open>serde\<close>, with the encoded form of
  any type \<open>'b\<close>.  Each operation reads the clock at most once; the time is an argument.

  \<open>block_store\<close> is the contract the storage tier and the caches rely on, \<open>metadata_store\<close> adds what the
  garbage collector relies on.
\<close>

section \<open>Data\<close>

record ChunkLocation =
  cl_stripe_index :: nat
  cl_node :: string
  cl_grpc_endpoint :: string
  cl_rdma_endpoint :: string
  cl_device_id :: nat
  cl_storage_handle :: string
  cl_offset :: nat
  cl_length :: nat
  cl_checksum :: string

record StripingInfo =
  chunk_size :: nat
  chunk_devices :: "nat list"
  chunk_paths :: "string list"
  total_size :: nat
  chunk_locations :: "ChunkLocation list"
  chunk_checksums :: "string list"

record BlockMeta =
  device_id :: nat
  file_path :: string
  bm_size :: nat
  object_handle :: string
  object_generation :: nat
  content_etag :: string
  layout_version :: nat
  created_at :: int
  last_accessed_at :: int
  ttl_seconds :: int
  num_tokens :: int
  num_layers :: int
  dtype :: string
  compressed :: bool
  striping :: "StripingInfo option"

definition is_expired_at :: "BlockMeta \<Rightarrow> int \<Rightarrow> bool" where
  "is_expired_at m now \<longleftrightarrow>
     ttl_seconds m > 0
     \<and> (case checked_add_i64 (created_at m) (ttl_seconds m) of
          Some expires_at \<Rightarrow> expires_at \<le> now
        | None \<Rightarrow> True)"

record GcTask =
  gt_id :: string
  gt_key :: string
  gt_retired :: BlockMeta
  gt_not_before :: int
  gt_attempts :: nat

definition same_version :: "BlockMeta \<Rightarrow> BlockMeta \<Rightarrow> bool" where
  "same_version actual expected \<longleftrightarrow>
     object_handle actual = object_handle expected
     \<and> object_generation actual = object_generation expected
     \<and> layout_version actual = layout_version expected
     \<and> content_etag actual = content_etag expected
     \<and> bm_size actual = bm_size expected"


section \<open>The in-process backend\<close>

text \<open>
  The hash maps are finite maps; \<open>gc_tasks\<close> is kept as a list because \<open>take_due_gc_tasks\<close> iterates
  over it and stops at its limit (the list order stands for the hash map's iteration order).
\<close>

record 'b serde =
  sd_ser :: "BlockMeta \<Rightarrow> 'b res"
  sd_de :: "'b \<Rightarrow> BlockMeta res"

record 'b MemoryMetadataInner =
  mm_blocks :: "string \<Rightarrow> 'b option"
  mm_generations :: "string \<Rightarrow> nat option"
  mm_gc_tasks :: "(string \<times> GcTask) list"
  mm_gc_leases :: "string \<Rightarrow> int option"
  mm_fail_next_puts :: nat

fun alist_put :: "'k \<Rightarrow> 'v \<Rightarrow> ('k \<times> 'v) list \<Rightarrow> ('k \<times> 'v) list" where
  "alist_put k v [] = [(k, v)]"
| "alist_put k v (p # ps) = (if fst p = k then (k, v) # ps else p # alist_put k v ps)"

definition alist_del :: "'k \<Rightarrow> ('k \<times> 'v) list \<Rightarrow> ('k \<times> 'v) list" where
  "alist_del k ps = filter (\<lambda>p. fst p \<noteq> k) ps"

definition injected :: "'a res" where
  "injected = Inl (Metadata ''injected put failure'')"

definition memory_put_block ::
  "'b serde \<Rightarrow> string \<Rightarrow> BlockMeta \<Rightarrow> 'b MemoryMetadataInner \<Rightarrow> unit res \<times> 'b MemoryMetadataInner" where
  "memory_put_block sd key meta s =
     (if mm_fail_next_puts s > 0 then (injected, s\<lparr> mm_fail_next_puts := mm_fail_next_puts s - 1 \<rparr>)
      else (case sd_ser sd meta of
          Inl e \<Rightarrow> (Inl e, s)
        | Inr bytes \<Rightarrow> (Inr (), s\<lparr> mm_blocks := (mm_blocks s)(key \<mapsto> bytes) \<rparr>)))"

definition memory_put_block_if_absent ::
  "'b serde \<Rightarrow> string \<Rightarrow> BlockMeta \<Rightarrow> 'b MemoryMetadataInner \<Rightarrow> bool res \<times> 'b MemoryMetadataInner" where
  "memory_put_block_if_absent sd key meta s =
     (if mm_fail_next_puts s > 0 then (injected, s\<lparr> mm_fail_next_puts := mm_fail_next_puts s - 1 \<rparr>)
      else if mm_blocks s key \<noteq> None then (Inr False, s)
      else (case sd_ser sd meta of
          Inl e \<Rightarrow> (Inl e, s)
        | Inr bytes \<Rightarrow> (Inr True, s\<lparr> mm_blocks := (mm_blocks s)(key \<mapsto> bytes) \<rparr>)))"

definition task_id :: "string \<Rightarrow> BlockMeta \<Rightarrow> string" where
  "task_id key m = key @ '':g'' @ dec (object_generation m) @ '':l'' @ dec (layout_version m) @ '':'' @ content_etag m"

definition enqueue_gc :: "string \<Rightarrow> BlockMeta \<Rightarrow> int \<Rightarrow> 'b MemoryMetadataInner \<Rightarrow> 'b MemoryMetadataInner" where
  "enqueue_gc key retired not_before s =
     (let i = task_id key retired in
      s\<lparr> mm_gc_tasks := alist_put i
           \<lparr> gt_id = i, gt_key = key, gt_retired = retired, gt_not_before = not_before, gt_attempts = 0 \<rparr>
           (mm_gc_tasks s) \<rparr>)"

definition de_opt :: "'b serde \<Rightarrow> 'b option \<Rightarrow> BlockMeta option res" where
  "de_opt sd b = (case b of None \<Rightarrow> Inr None
     | Some x \<Rightarrow> (case sd_de sd x of Inl e \<Rightarrow> Inl e | Inr m \<Rightarrow> Inr (Some m)))"

definition memory_replace_block ::
  "'b serde \<Rightarrow> string \<Rightarrow> BlockMeta \<Rightarrow> int \<Rightarrow> 'b MemoryMetadataInner
     \<Rightarrow> BlockMeta option res \<times> 'b MemoryMetadataInner" where
  "memory_replace_block sd key meta not_before s =
     (if mm_fail_next_puts s > 0 then (injected, s\<lparr> mm_fail_next_puts := mm_fail_next_puts s - 1 \<rparr>)
      else (case sd_ser sd meta of
          Inl e \<Rightarrow> (Inl e, s)
        | Inr bytes \<Rightarrow>
            let s1 = s\<lparr> mm_blocks := (mm_blocks s)(key \<mapsto> bytes) \<rparr> in
            (case de_opt sd (mm_blocks s key) of
               Inl e \<Rightarrow> (Inl e, s1)
             | Inr None \<Rightarrow> (Inr None, s1)
             | Inr (Some retired) \<Rightarrow> (Inr (Some retired), enqueue_gc key retired not_before s1))))"

definition memory_retire_block ::
  "'b serde \<Rightarrow> string \<Rightarrow> int \<Rightarrow> 'b MemoryMetadataInner \<Rightarrow> BlockMeta option res \<times> 'b MemoryMetadataInner" where
  "memory_retire_block sd key not_before s =
     (let s1 = s\<lparr> mm_blocks := (mm_blocks s)(key := None) \<rparr> in
      (case de_opt sd (mm_blocks s key) of
         Inl e \<Rightarrow> (Inl e, s1)
       | Inr None \<Rightarrow> (Inr None, s1)
       | Inr (Some retired) \<Rightarrow> (Inr (Some retired), enqueue_gc key retired not_before s1)))"

definition memory_retire_block_if_matches ::
  "'b serde \<Rightarrow> string \<Rightarrow> BlockMeta \<Rightarrow> int \<Rightarrow> 'b MemoryMetadataInner \<Rightarrow> bool res \<times> 'b MemoryMetadataInner" where
  "memory_retire_block_if_matches sd key expected not_before s =
     (case de_opt sd (mm_blocks s key) of
        Inl e \<Rightarrow> (Inl e, s)
      | Inr None \<Rightarrow> (Inr False, s)
      | Inr (Some current) \<Rightarrow>
          if \<not> same_version current expected then (Inr False, s)
          else (Inr True, enqueue_gc key current not_before (s\<lparr> mm_blocks := (mm_blocks s)(key := None) \<rparr>)))"

definition lease_end :: "int \<Rightarrow> nat \<Rightarrow> int" where
  "lease_end now lease_seconds = saturating_add_i64 now (sint (word_of_nat lease_seconds :: u64))"

definition memory_take_due_gc_tasks ::
  "int \<Rightarrow> nat \<Rightarrow> nat \<Rightarrow> 'b MemoryMetadataInner \<Rightarrow> GcTask list res \<times> 'b MemoryMetadataInner" where
  "memory_take_due_gc_tasks now limit lease_seconds s =
     (let leases = (\<lambda>i. case mm_gc_leases s i of Some u \<Rightarrow> if u > now then Some u else None | None \<Rightarrow> None);
          ids = take limit (map fst (filter (\<lambda>(i, t). gt_not_before t \<le> now \<and> leases i = None) (mm_gc_tasks s)));
          tasks = List.map_filter (map_of (mm_gc_tasks s)) ids;
          lease_until = lease_end now lease_seconds
      in (Inr tasks, s\<lparr> mm_gc_leases := fold (\<lambda>i l. l(i \<mapsto> lease_until)) ids leases \<rparr>))"

definition memory_complete_gc_task :: "string \<Rightarrow> 'b MemoryMetadataInner \<Rightarrow> unit res \<times> 'b MemoryMetadataInner" where
  "memory_complete_gc_task i s =
     (Inr (), s\<lparr> mm_gc_tasks := alist_del i (mm_gc_tasks s), mm_gc_leases := (mm_gc_leases s)(i := None) \<rparr>)"

definition memory_reschedule_gc_task :: "GcTask \<Rightarrow> 'b MemoryMetadataInner \<Rightarrow> unit res \<times> 'b MemoryMetadataInner" where
  "memory_reschedule_gc_task t s =
     (Inr (), s\<lparr> mm_gc_leases := (mm_gc_leases s)(gt_id t := None),
                 mm_gc_tasks := alist_put (gt_id t) t (mm_gc_tasks s) \<rparr>)"

definition memory_get_block ::
  "'b serde \<Rightarrow> string \<Rightarrow> 'b MemoryMetadataInner \<Rightarrow> BlockMeta option res \<times> 'b MemoryMetadataInner" where
  "memory_get_block sd key s = (de_opt sd (mm_blocks s key), s)"

definition memory_delete_block :: "string \<Rightarrow> 'b MemoryMetadataInner \<Rightarrow> unit res \<times> 'b MemoryMetadataInner" where
  "memory_delete_block key s = (Inr (), s\<lparr> mm_blocks := (mm_blocks s)(key := None) \<rparr>)"

definition memory_delete_block_if_matches ::
  "'b serde \<Rightarrow> string \<Rightarrow> BlockMeta \<Rightarrow> 'b MemoryMetadataInner \<Rightarrow> bool res \<times> 'b MemoryMetadataInner" where
  "memory_delete_block_if_matches sd key expected s =
     (case mm_blocks s key of
        None \<Rightarrow> (Inr False, s)
      | Some bytes \<Rightarrow> (case sd_de sd bytes of
            Inl e \<Rightarrow> (Inl e, s)
          | Inr stored \<Rightarrow>
              if object_generation stored = object_generation expected
              then (Inr True, s\<lparr> mm_blocks := (mm_blocks s)(key := None) \<rparr>)
              else (Inr False, s)))"

definition memory_exists_block :: "string \<Rightarrow> 'b MemoryMetadataInner \<Rightarrow> bool res \<times> 'b MemoryMetadataInner" where
  "memory_exists_block key s = (Inr (mm_blocks s key \<noteq> None), s)"

definition memory_next_generation ::
  "'b serde \<Rightarrow> string \<Rightarrow> 'b MemoryMetadataInner \<Rightarrow> nat res \<times> 'b MemoryMetadataInner" where
  "memory_next_generation sd key s =
     (let current = (case mm_generations s key of Some g \<Rightarrow> g | None \<Rightarrow> 0) in
      (case de_opt sd (mm_blocks s key) of
         Inl e \<Rightarrow> (Inl e, s)
       | Inr old \<Rightarrow>
           let old_generation = (case old of Some m \<Rightarrow> object_generation m | None \<Rightarrow> 0);
               next_gen = wadd64 (max current old_generation) 1
           in (Inr next_gen, s\<lparr> mm_generations := (mm_generations s)(key \<mapsto> next_gen) \<rparr>)))"

definition memory_fail_next_put :: "'b MemoryMetadataInner \<Rightarrow> 'b MemoryMetadataInner" where
  "memory_fail_next_put s = s\<lparr> mm_fail_next_puts := mm_fail_next_puts s + 1 \<rparr>"


section \<open>Expiry\<close>

text \<open>
  An object without a TTL never expires; with one it is live strictly before
  \<open>created_at + ttl_seconds\<close> and expired from that second on, for good.  A TTL so large that the sum
  leaves the \<open>i64\<close> range makes the object expired at once.
\<close>

lemma is_expired_at_iff:
  "is_expired_at m now \<longleftrightarrow>
     ttl_seconds m > 0 \<and>
       (created_at m + ttl_seconds m \<le> now \<or> created_at m + ttl_seconds m > i64_max
        \<or> created_at m + ttl_seconds m < i64_min)"
  by (auto simp: is_expired_at_def checked_add_i64_def)

lemma is_expired_at_mono: "is_expired_at m now \<Longrightarrow> now \<le> later \<Longrightarrow> is_expired_at m later"
  by (auto simp: is_expired_at_iff)


section \<open>The metadata contract\<close>

text \<open>
  The abstract metadata service: the visible version of every key, the generation counters, the
  pending reclamation tasks and their leases.  Each operation of the contract is a function (for
  claiming tasks, a relation) on this view; \<open>tid\<close> is the task identifier a backend derives from the
  retired version.
\<close>

record meta_view =
  mv_blocks :: "string \<Rightarrow> BlockMeta option"
  mv_gen :: "string \<Rightarrow> nat"
  mv_tasks :: "string \<Rightarrow> GcTask option"
  mv_leases :: "string \<Rightarrow> int option"

type_synonym task_ids = "string \<Rightarrow> BlockMeta \<Rightarrow> string"

definition spec_enqueue :: "task_ids \<Rightarrow> string \<Rightarrow> BlockMeta \<Rightarrow> int \<Rightarrow> meta_view \<Rightarrow> meta_view" where
  "spec_enqueue tid key old not_before v =
     v\<lparr> mv_tasks := (mv_tasks v)(tid key old \<mapsto>
          \<lparr> gt_id = tid key old, gt_key = key, gt_retired = old, gt_not_before = not_before, gt_attempts = 0 \<rparr>) \<rparr>"

definition spec_set :: "string \<Rightarrow> BlockMeta option \<Rightarrow> meta_view \<Rightarrow> meta_view" where
  "spec_set key b v = v\<lparr> mv_blocks := (mv_blocks v)(key := b) \<rparr>"

definition spec_publish :: "task_ids \<Rightarrow> string \<Rightarrow> BlockMeta option \<Rightarrow> int \<Rightarrow> meta_view \<Rightarrow> meta_view" where
  "spec_publish tid key b not_before v =
     (case mv_blocks v key of
        None \<Rightarrow> spec_set key b v
      | Some old \<Rightarrow> spec_enqueue tid key old not_before (spec_set key b v))"

text \<open>
  \<open>gen_base\<close> is the largest generation a key has had; \<open>gen_room\<close> says that its successor is still
  an integer that both a \<open>u64\<close> and a Lua number represent exactly.
\<close>

definition gen_base :: "string \<Rightarrow> meta_view \<Rightarrow> nat" where
  "gen_base key v = max (mv_gen v key) (case mv_blocks v key of Some m \<Rightarrow> object_generation m | None \<Rightarrow> 0)"

definition gen_room :: "string \<Rightarrow> meta_view \<Rightarrow> bool" where
  "gen_room key v \<longleftrightarrow> gen_base key v < 2 ^ 53 - 1"

definition spec_next_generation :: "string \<Rightarrow> meta_view \<Rightarrow> nat \<times> meta_view" where
  "spec_next_generation key v =
     (let g = Suc (gen_base key v)
      in (g, v\<lparr> mv_gen := (mv_gen v)(key := g) \<rparr>))"

definition spec_claimable :: "int \<Rightarrow> meta_view \<Rightarrow> string \<Rightarrow> bool" where
  "spec_claimable now v i \<longleftrightarrow>
     (\<exists>t. mv_tasks v i = Some t \<and> gt_not_before t \<le> now)
     \<and> (case mv_leases v i of None \<Rightarrow> True | Some u \<Rightarrow> u \<le> now)"

text \<open>
  A claim takes at most \<open>limit\<close> due tasks that nobody holds, all of them if there are fewer, and leases each
  until \<open>lease_end\<close>; the leases that others hold stay.
\<close>

definition spec_claims :: "int \<Rightarrow> nat \<Rightarrow> nat \<Rightarrow> GcTask list \<Rightarrow> meta_view \<Rightarrow> meta_view \<Rightarrow> bool" where
  "spec_claims now limit lease ts v v' \<longleftrightarrow>
     (\<forall>t \<in> set ts. mv_tasks v (gt_id t) = Some t \<and> spec_claimable now v (gt_id t))
     \<and> distinct (map gt_id ts) \<and> length ts \<le> limit
     \<and> (length ts < limit \<longrightarrow> (\<forall>i. spec_claimable now v i \<longrightarrow> i \<in> gt_id ` set ts))
     \<and> mv_blocks v' = mv_blocks v \<and> mv_gen v' = mv_gen v \<and> mv_tasks v' = mv_tasks v
     \<and> (\<forall>t \<in> set ts. mv_leases v' (gt_id t) = Some (lease_end now lease))
     \<and> (\<forall>i. i \<notin> gt_id ` set ts \<longrightarrow> (\<forall>u > now. mv_leases v i = Some u \<longleftrightarrow> mv_leases v' i = Some u))"

record 'm meta_ops =
  mo_put_block_if_absent :: "string \<Rightarrow> BlockMeta \<Rightarrow> 'm \<Rightarrow> bool res \<times> 'm"
  mo_replace_block :: "string \<Rightarrow> BlockMeta \<Rightarrow> int \<Rightarrow> 'm \<Rightarrow> BlockMeta option res \<times> 'm"
  mo_retire_block :: "string \<Rightarrow> int \<Rightarrow> 'm \<Rightarrow> BlockMeta option res \<times> 'm"
  mo_retire_block_if_matches :: "string \<Rightarrow> BlockMeta \<Rightarrow> int \<Rightarrow> 'm \<Rightarrow> bool res \<times> 'm"
  mo_take_due_gc_tasks :: "int \<Rightarrow> nat \<Rightarrow> nat \<Rightarrow> 'm \<Rightarrow> GcTask list res \<times> 'm"
  mo_complete_gc_task :: "string \<Rightarrow> 'm \<Rightarrow> unit res \<times> 'm"
  mo_reschedule_gc_task :: "GcTask \<Rightarrow> 'm \<Rightarrow> unit res \<times> 'm"
  mo_get_block :: "string \<Rightarrow> 'm \<Rightarrow> BlockMeta option res \<times> 'm"
  mo_delete_block_if_matches :: "string \<Rightarrow> BlockMeta \<Rightarrow> 'm \<Rightarrow> bool res \<times> 'm"
  mo_exists_block :: "string \<Rightarrow> 'm \<Rightarrow> bool res \<times> 'm"
  mo_next_generation :: "string \<Rightarrow> 'm \<Rightarrow> nat res \<times> 'm"

text \<open>
  \<open>step_ok P r\<close>: an operation either fails and leaves the view alone, or succeeds with a result and
  a successor view that satisfy \<open>P\<close>.
\<close>

definition step_ok :: "('m \<Rightarrow> meta_view) \<Rightarrow> ('m \<Rightarrow> bool) \<Rightarrow> 'm \<Rightarrow> ('a \<Rightarrow> meta_view \<Rightarrow> bool) \<Rightarrow> 'a res \<times> 'm \<Rightarrow> bool" where
  "step_ok view good m P r \<longleftrightarrow>
     good (snd r) \<and> (case fst r of Inl _ \<Rightarrow> view (snd r) = view m | Inr x \<Rightarrow> P x (view (snd r)))"

locale block_store =
  fixes ops :: "'m meta_ops"
    and view :: "'m \<Rightarrow> meta_view"
    and inv :: "'m \<Rightarrow> bool"
    and tid :: task_ids
  assumes get_law: "inv m \<Longrightarrow> step_ok view inv m (\<lambda>x v. x = mv_blocks (view m) key \<and> v = view m)
      (mo_get_block ops key m)"
    and exists_law: "inv m \<Longrightarrow> step_ok view inv m (\<lambda>x v. x = (mv_blocks (view m) key \<noteq> None) \<and> v = view m)
      (mo_exists_block ops key m)"
    and if_absent_law: "inv m \<Longrightarrow> step_ok view inv m
      (\<lambda>x v. if mv_blocks (view m) key = None then x \<and> v = spec_set key (Some b) (view m) else \<not> x \<and> v = view m)
      (mo_put_block_if_absent ops key b m)"
    and replace_law: "inv m \<Longrightarrow> step_ok view inv m
      (\<lambda>x v. x = mv_blocks (view m) key \<and> v = spec_publish tid key (Some b) nb (view m))
      (mo_replace_block ops key b nb m)"
    and retire_law: "inv m \<Longrightarrow> step_ok view inv m
      (\<lambda>x v. x = mv_blocks (view m) key \<and> v = spec_publish tid key None nb (view m))
      (mo_retire_block ops key nb m)"
    and retire_if_law: "inv m \<Longrightarrow> step_ok view inv m
      (\<lambda>x v. case mv_blocks (view m) key of
         Some cur \<Rightarrow> x = same_version cur b \<and> v = (if x then spec_publish tid key None nb (view m) else view m)
       | None \<Rightarrow> \<not> x \<and> v = view m)
      (mo_retire_block_if_matches ops key b nb m)"
    and delete_if_law: "inv m \<Longrightarrow> step_ok view inv m
      (\<lambda>x v. case mv_blocks (view m) key of
         Some cur \<Rightarrow> x = (object_generation cur = object_generation b)
           \<and> v = (if x then spec_set key None (view m) else view m)
       | None \<Rightarrow> \<not> x \<and> v = view m)
      (mo_delete_block_if_matches ops key b m)"
    and next_gen_law: "inv m \<Longrightarrow> gen_room key (view m) \<Longrightarrow> step_ok view inv m
      (\<lambda>x v. (x, v) = spec_next_generation key (view m)) (mo_next_generation ops key m)"
begin

lemma next_generation_fresh:
  assumes "inv m" "gen_room key (view m)" "mo_next_generation ops key m = (Inr g, m')"
  shows "g = Suc (gen_base key (view m))" "gen_base key (view m') = g" "inv m'"
    "mv_blocks (view m') = mv_blocks (view m)" "mv_tasks (view m') = mv_tasks (view m)"
  using next_gen_law [OF assms(1,2)] assms(3)
  by (auto simp: step_ok_def spec_next_generation_def Let_def gen_base_def split: option.splits)

lemma replace_success:
  assumes "inv m" "mo_replace_block ops key b nb m = (Inr old, m')"
  shows "old = mv_blocks (view m) key" "mv_blocks (view m') = (mv_blocks (view m))(key \<mapsto> b)" "inv m'"
    "old = Some o' \<Longrightarrow> mv_tasks (view m') (tid key o') = Some
       \<lparr> gt_id = tid key o', gt_key = key, gt_retired = o', gt_not_before = nb, gt_attempts = 0 \<rparr>"
    "i \<noteq> tid key (the old) \<Longrightarrow> mv_tasks (view m') i = mv_tasks (view m) i"
  using replace_law [OF assms(1), of key b nb] assms(2)
  by (auto simp: step_ok_def spec_publish_def spec_set_def spec_enqueue_def split: option.splits)

lemma failure_keeps_view:
  assumes "inv m"
  shows "mo_replace_block ops key b nb m = (Inl e, m') \<Longrightarrow> view m' = view m \<and> inv m'"
    "mo_put_block_if_absent ops key b m = (Inl e, m') \<Longrightarrow> view m' = view m \<and> inv m'"
    "mo_next_generation ops key m = (Inl e, m') \<Longrightarrow> gen_room key (view m) \<Longrightarrow> view m' = view m \<and> inv m'"
    "mo_retire_block ops key nb m = (Inl e, m') \<Longrightarrow> view m' = view m \<and> inv m'"
  using replace_law [OF assms, of key b nb] if_absent_law [OF assms, of key b]
    next_gen_law [OF assms, of key] retire_law [OF assms, of key nb]
  by (simp_all add: step_ok_def)

end

text \<open>The garbage collector relies on the task queue as well.\<close>

locale metadata_store = block_store +
  assumes take_law: "inv m \<Longrightarrow> step_ok view inv m (\<lambda>ts v. spec_claims now limit lease ts (view m) v)
      (mo_take_due_gc_tasks ops now limit lease m)"
    and complete_law: "inv m \<Longrightarrow> step_ok view inv m
      (\<lambda>_ v. v = (view m)\<lparr> mv_tasks := (mv_tasks (view m))(i := None), mv_leases := (mv_leases (view m))(i := None) \<rparr>)
      (mo_complete_gc_task ops i m)"
    and reschedule_law: "inv m \<Longrightarrow> step_ok view inv m
      (\<lambda>_ v. v = (view m)\<lparr> mv_tasks := (mv_tasks (view m))(gt_id t \<mapsto> t),
         mv_leases := (mv_leases (view m))(gt_id t := None) \<rparr>)
      (mo_reschedule_gc_task ops t m)"


text \<open>A store that is \<open>up\<close> answers: the operations the write and read paths use do not fail.\<close>

locale live_store = block_store ops view inv tid
  for ops :: "'m meta_ops" and view inv tid +
  fixes up :: "'m \<Rightarrow> bool"
  assumes get_up: "up m \<Longrightarrow> inv m \<Longrightarrow> is_ok (fst (mo_get_block ops key m)) \<and> up (snd (mo_get_block ops key m))"
    and next_gen_up: "up m \<Longrightarrow> inv m \<Longrightarrow>
      is_ok (fst (mo_next_generation ops key m)) \<and> up (snd (mo_next_generation ops key m))"
    and replace_up: "up m \<Longrightarrow> inv m \<Longrightarrow>
      is_ok (fst (mo_replace_block ops key b nb m)) \<and> up (snd (mo_replace_block ops key b nb m))"


section \<open>The in-process backend meets the contract\<close>

definition memory_ops :: "'b serde \<Rightarrow> 'b MemoryMetadataInner meta_ops" where
  "memory_ops sd =
     \<lparr> mo_put_block_if_absent = memory_put_block_if_absent sd,
       mo_replace_block = memory_replace_block sd,
       mo_retire_block = memory_retire_block sd,
       mo_retire_block_if_matches = memory_retire_block_if_matches sd,
       mo_take_due_gc_tasks = memory_take_due_gc_tasks,
       mo_complete_gc_task = memory_complete_gc_task,
       mo_reschedule_gc_task = memory_reschedule_gc_task,
       mo_get_block = memory_get_block sd,
       mo_delete_block_if_matches = memory_delete_block_if_matches sd,
       mo_exists_block = memory_exists_block,
       mo_next_generation = memory_next_generation sd \<rparr>"

text \<open>\<open>serde_ok\<close>: what \<open>serde_json\<close> documents for a derived codec: encoding succeeds and decodes back.\<close>

definition serde_ok :: "'b serde \<Rightarrow> bool" where
  "serde_ok sd \<longleftrightarrow> (\<forall>m. \<exists>b. sd_ser sd m = Inr b \<and> sd_de sd b = Inr m)"

definition decoded :: "'b serde \<Rightarrow> 'b option \<Rightarrow> BlockMeta option" where
  "decoded sd b = (case b of None \<Rightarrow> None | Some x \<Rightarrow> (case sd_de sd x of Inl _ \<Rightarrow> None | Inr m \<Rightarrow> Some m))"

definition memory_view :: "'b serde \<Rightarrow> 'b MemoryMetadataInner \<Rightarrow> meta_view" where
  "memory_view sd s =
     \<lparr> mv_blocks = (\<lambda>k. decoded sd (mm_blocks s k)),
       mv_gen = (\<lambda>k. case mm_generations s k of Some g \<Rightarrow> g | None \<Rightarrow> 0),
       mv_tasks = map_of (mm_gc_tasks s), mv_leases = mm_gc_leases s \<rparr>"

definition memory_inv :: "'b serde \<Rightarrow> 'b MemoryMetadataInner \<Rightarrow> bool" where
  "memory_inv sd s \<longleftrightarrow>
     (\<forall>k x. mm_blocks s k = Some x \<longrightarrow> (\<exists>m. sd_de sd x = Inr m))
     \<and> distinct (map fst (mm_gc_tasks s)) \<and> (\<forall>(i, t) \<in> set (mm_gc_tasks s). gt_id t = i)"

lemma map_of_alist_put [simp]: "map_of (alist_put k v ps) = (map_of ps)(k \<mapsto> v)"
  by (induction ps) auto

lemma keys_alist_put [simp]: "fst ` set (alist_put k v ps) = insert k (fst ` set ps)"
  by (induction ps) auto

lemma distinct_alist_put: "distinct (map fst ps) \<Longrightarrow> distinct (map fst (alist_put k v ps))"
  by (induction ps) (auto simp: image_iff dest: arg_cong [of _ _ "\<lambda>A. fst ` A"])

lemma set_alist_put: "set (alist_put k v ps) \<subseteq> insert (k, v) (set ps)"
  by (induction ps) auto

lemma map_of_alist_del [simp]: "map_of (alist_del k ps) = (map_of ps)(k := None)"
  by (induction ps) (auto simp: alist_del_def)

lemma de_opt_decoded: "memory_inv sd s \<Longrightarrow> de_opt sd (mm_blocks s key) = Inr (decoded sd (mm_blocks s key))"
  by (fastforce simp: memory_inv_def de_opt_def decoded_def split: option.splits sum.splits)

lemma ser_Inr: "serde_ok sd \<Longrightarrow> \<exists>b. sd_ser sd m = Inr b \<and> sd_de sd b = Inr m"
  by (simp add: serde_ok_def)

lemma memory_inv_set:
  "memory_inv sd s \<Longrightarrow> sd_de sd b = Inr m \<Longrightarrow> memory_inv sd (s\<lparr> mm_blocks := (mm_blocks s)(key \<mapsto> b) \<rparr>)"
  "memory_inv sd s \<Longrightarrow> memory_inv sd (s\<lparr> mm_blocks := (mm_blocks s)(key := None) \<rparr>)"
  by (auto simp: memory_inv_def split: if_splits)

lemma memory_inv_enqueue: "memory_inv sd s \<Longrightarrow> memory_inv sd (enqueue_gc key old nb s)"
  using set_alist_put
  by (fastforce simp: memory_inv_def enqueue_gc_def Let_def distinct_alist_put)

lemma memory_inv_fields [simp]:
  "memory_inv sd (s\<lparr> mm_fail_next_puts := n \<rparr>) = memory_inv sd s"
  "memory_inv sd (s\<lparr> mm_gc_leases := l \<rparr>) = memory_inv sd s"
  "memory_inv sd (s\<lparr> mm_generations := g \<rparr>) = memory_inv sd s"
  by (simp_all add: memory_inv_def)

lemma memory_view_fields [simp]:
  "memory_view sd (s\<lparr> mm_fail_next_puts := n \<rparr>) = memory_view sd s"
  by (simp add: memory_view_def)

lemma memory_view_set:
  "sd_de sd b = Inr m \<Longrightarrow>
     memory_view sd (s\<lparr> mm_blocks := (mm_blocks s)(key \<mapsto> b) \<rparr>) = spec_set key (Some m) (memory_view sd s)"
  "memory_view sd (s\<lparr> mm_blocks := (mm_blocks s)(key := None) \<rparr>) = spec_set key None (memory_view sd s)"
  by (auto simp: memory_view_def spec_set_def decoded_def fun_eq_iff)

lemma memory_view_enqueue:
  "memory_view sd (enqueue_gc key old nb s) = spec_enqueue task_id key old nb (memory_view sd s)"
  by (simp add: memory_view_def enqueue_gc_def spec_enqueue_def Let_def)

lemmas memory_view_steps = memory_view_set memory_view_enqueue memory_inv_set memory_inv_enqueue

lemma mv_blocks_memory [simp]: "mv_blocks (memory_view sd s) key = decoded sd (mm_blocks s key)"
  by (simp add: memory_view_def)

lemma decoded_None_iff: "memory_inv sd s \<Longrightarrow> decoded sd (mm_blocks s key) = None \<longleftrightarrow> mm_blocks s key = None"
  by (fastforce simp: memory_inv_def decoded_def split: option.splits sum.splits)

lemma memory_replace_ok:
  assumes "serde_ok sd" "memory_inv sd s"
  shows "step_ok (memory_view sd) (memory_inv sd) s
    (\<lambda>x v. x = mv_blocks (memory_view sd s) key \<and> v = spec_publish task_id key (Some b) nb (memory_view sd s))
    (memory_replace_block sd key b nb s)"
proof -
  obtain x where x: "sd_ser sd b = Inr x" "sd_de sd x = Inr b" using ser_Inr [OF assms(1)] by blast
  show ?thesis
    using assms(2) x
    by (auto simp: step_ok_def memory_replace_block_def injected_def de_opt_decoded Let_def
        spec_publish_def memory_view_steps split: option.splits)
qed

lemma memory_retire_ok:
  assumes "memory_inv sd s"
  shows "step_ok (memory_view sd) (memory_inv sd) s
    (\<lambda>x v. x = mv_blocks (memory_view sd s) key \<and> v = spec_publish task_id key None nb (memory_view sd s))
    (memory_retire_block sd key nb s)"
  using assms
  by (auto simp: step_ok_def memory_retire_block_def de_opt_decoded Let_def spec_publish_def
      memory_view_steps split: option.splits)

lemma memory_claim_ok:
  assumes inv: "memory_inv sd s"
  shows "step_ok (memory_view sd) (memory_inv sd) s (\<lambda>ts v. spec_claims now limit lease ts (memory_view sd s) v)
    (memory_take_due_gc_tasks now limit lease s)"
proof -
  define leases where "leases = (\<lambda>i. case mm_gc_leases s i of Some u \<Rightarrow> if u > now then Some u else None | None \<Rightarrow> None)"
  define due where "due = filter (\<lambda>(i, t). gt_not_before t \<le> now \<and> leases i = None) (mm_gc_tasks s)"
  define ids where "ids = take limit (map fst due)"
  define ts where "ts = List.map_filter (map_of (mm_gc_tasks s)) ids"
  define u where "u = lease_end now lease"
  have r: "memory_take_due_gc_tasks now limit lease s
      = (Inr ts, s\<lparr> mm_gc_leases := fold (\<lambda>i l. l(i \<mapsto> u)) ids leases \<rparr>)"
    by (simp add: memory_take_due_gc_tasks_def Let_def ts_def ids_def due_def leases_def u_def)
  have dist: "distinct (map fst (mm_gc_tasks s))" and gid: "\<And>i t. (i, t) \<in> set (mm_gc_tasks s) \<Longrightarrow> gt_id t = i"
    using inv by (auto simp: memory_inv_def)
  have due_dist: "distinct (map fst due)"
    using dist unfolding due_def by (simp add: distinct_map_filter)
  have ts: "ts = map snd (take limit due)"
  proof -
    have "List.map_filter (map_of (mm_gc_tasks s)) (map fst xs) = map snd xs" if "set xs \<subseteq> set (mm_gc_tasks s)" for xs
      using that dist by (induction xs) (auto simp: map_filter_simps)
    moreover have "set (take limit due) \<subseteq> set (mm_gc_tasks s)"
      using set_take_subset [of limit due] by (auto simp: due_def)
    ultimately show ?thesis by (simp add: ts_def ids_def take_map)
  qed
  have gids: "map gt_id ts = ids"
    using set_take_subset [of limit due] gid
    by (auto simp: ts ids_def take_map due_def intro!: nth_equalityI)
  have mem: "(i, t) \<in> set due \<longleftrightarrow> map_of (mm_gc_tasks s) i = Some t \<and> gt_not_before t \<le> now \<and> leases i = None" for i t
    using dist by (auto simp: due_def)
  have lease_iff: "leases i = None \<longleftrightarrow> (case mm_gc_leases s i of None \<Rightarrow> True | Some u \<Rightarrow> u \<le> now)" for i
    by (auto simp: leases_def split: option.splits)
  have claim: "spec_claimable now (memory_view sd s) i \<longleftrightarrow> i \<in> fst ` set due" for i
  proof -
    have "spec_claimable now (memory_view sd s) i \<longleftrightarrow> (\<exists>t. (i, t) \<in> set due)"
      by (auto simp: spec_claimable_def memory_view_def mem lease_iff)
    then show ?thesis by (force simp: image_iff)
  qed
  have fold_other: "fold (\<lambda>i l. l(i \<mapsto> u)) xs l i = l i" if "i \<notin> set xs" for xs l and i :: string
    using that by (induction xs arbitrary: l) auto
  have fold_in: "fold (\<lambda>i l. l(i \<mapsto> u)) xs l i = Some u" if "i \<in> set xs" for xs l and i :: string
    using that by (induction xs arbitrary: l) (auto, metis fold_other fun_upd_same)
  have set_ids: "gt_id ` set ts = set ids" by (metis gids list.set_map)
  have "spec_claims now limit lease ts (memory_view sd s) (memory_view sd (s\<lparr> mm_gc_leases := fold (\<lambda>i l. l(i \<mapsto> u)) ids leases \<rparr>))"
    unfolding spec_claims_def set_ids
  proof (intro conjI ballI allI impI)
    fix t assume "t \<in> set ts"
    then obtain i where it: "(i, t) \<in> set due" by (auto simp: ts dest: in_set_takeD)
    then have "gt_id t = i" using gid by (auto simp: due_def)
    with it show "mv_tasks (memory_view sd s) (gt_id t) = Some t" by (simp add: mem memory_view_def)
    show "spec_claimable now (memory_view sd s) (gt_id t)"
      unfolding claim using it \<open>gt_id t = i\<close> by (metis fst_conv image_eqI)
  next
    show "distinct (map gt_id ts)" using due_dist by (simp add: gids ids_def)
    show "length ts \<le> limit" by (simp add: ts)
  next
    fix i assume "length ts < limit" "spec_claimable now (memory_view sd s) i"
    then show "i \<in> set ids" by (auto simp: ids_def ts claim)
  next
    fix t assume "t \<in> set ts"
    then have "gt_id t \<in> set ids" using set_ids by blast
    then show "mv_leases (memory_view sd (s\<lparr> mm_gc_leases := fold (\<lambda>i l. l(i \<mapsto> u)) ids leases \<rparr>)) (gt_id t) = Some (lease_end now lease)"
      using fold_in [of "gt_id t" ids leases] by (simp add: memory_view_def u_def)
  next
    fix i v assume "i \<notin> set ids" "now < v"
    then show "(mv_leases (memory_view sd s) i = Some v) =
      (mv_leases (memory_view sd (s\<lparr> mm_gc_leases := fold (\<lambda>i l. l(i \<mapsto> u)) ids leases \<rparr>)) i = Some v)"
      by (auto simp: memory_view_def fold_other leases_def split: option.splits)
  qed (simp_all add: memory_view_def)
  then show ?thesis using inv by (simp add: step_ok_def r)
qed

lemma memory_if_absent_ok:
  assumes "serde_ok sd" "memory_inv sd s"
  shows "step_ok (memory_view sd) (memory_inv sd) s
    (\<lambda>x v. if mv_blocks (memory_view sd s) key = None then x \<and> v = spec_set key (Some b) (memory_view sd s)
      else \<not> x \<and> v = memory_view sd s)
    (memory_put_block_if_absent sd key b s)"
proof -
  obtain x where "sd_ser sd b = Inr x" "sd_de sd x = Inr b" using ser_Inr [OF assms(1)] by blast
  then show ?thesis
    using assms(2)
    by (auto simp: step_ok_def memory_put_block_if_absent_def injected_def decoded_None_iff memory_view_steps)
qed

lemma memory_query_ok:
  assumes "memory_inv sd s"
  shows "step_ok (memory_view sd) (memory_inv sd) s
      (\<lambda>x v. x = mv_blocks (memory_view sd s) key \<and> v = memory_view sd s) (memory_get_block sd key s)"
    "step_ok (memory_view sd) (memory_inv sd) s
      (\<lambda>x v. x = (mv_blocks (memory_view sd s) key \<noteq> None) \<and> v = memory_view sd s) (memory_exists_block key s)"
  using assms
  by (simp_all add: step_ok_def memory_get_block_def memory_exists_block_def de_opt_decoded decoded_None_iff)

lemma memory_retire_if_ok:
  assumes "memory_inv sd s"
  shows "step_ok (memory_view sd) (memory_inv sd) s
    (\<lambda>x v. case mv_blocks (memory_view sd s) key of
       Some cur \<Rightarrow> x = same_version cur b
         \<and> v = (if x then spec_publish task_id key None nb (memory_view sd s) else memory_view sd s)
     | None \<Rightarrow> \<not> x \<and> v = memory_view sd s)
    (memory_retire_block_if_matches sd key b nb s)"
  using assms
  by (auto simp: step_ok_def memory_retire_block_if_matches_def de_opt_decoded spec_publish_def
      memory_view_steps split: option.splits)

lemma memory_delete_if_ok:
  assumes "memory_inv sd s"
  shows "step_ok (memory_view sd) (memory_inv sd) s
    (\<lambda>x v. case mv_blocks (memory_view sd s) key of
       Some cur \<Rightarrow> x = (object_generation cur = object_generation b)
         \<and> v = (if x then spec_set key None (memory_view sd s) else memory_view sd s)
     | None \<Rightarrow> \<not> x \<and> v = memory_view sd s)
    (memory_delete_block_if_matches sd key b s)"
proof (cases "mm_blocks s key")
  case None
  then show ?thesis using assms by (simp add: step_ok_def memory_delete_block_if_matches_def decoded_def)
next
  case (Some x)
  then obtain m where "sd_de sd x = Inr m" using assms unfolding memory_inv_def by blast
  with Some assms show ?thesis
    by (simp add: step_ok_def memory_delete_block_if_matches_def decoded_def memory_view_steps)
qed

lemma memory_view_gen:
  "memory_view sd (s\<lparr> mm_generations := (mm_generations s)(key \<mapsto> g) \<rparr>) =
     (memory_view sd s)\<lparr> mv_gen := (mv_gen (memory_view sd s))(key := g) \<rparr>"
  by (simp add: memory_view_def fun_eq_iff)

lemma memory_next_generation_ok:
  assumes "memory_inv sd s" "gen_room key (memory_view sd s)"
  shows "step_ok (memory_view sd) (memory_inv sd) s
    (\<lambda>x v. (x, v) = spec_next_generation key (memory_view sd s)) (memory_next_generation sd key s)"
proof -
  define base where "base = gen_base key (memory_view sd s)"
  have b: "base = max (case mm_generations s key of Some g \<Rightarrow> g | None \<Rightarrow> 0)
      (case decoded sd (mm_blocks s key) of Some m \<Rightarrow> object_generation m | None \<Rightarrow> 0)"
    by (simp add: base_def gen_base_def memory_view_def)
  have "base < 2 ^ 53 - 1" using assms(2) by (simp add: gen_room_def base_def)
  then have "wadd64 base 1 = Suc base" by (subst wadd64_exact) auto
  then show ?thesis
    using assms(1)
    by (simp add: step_ok_def memory_next_generation_def spec_next_generation_def Let_def de_opt_decoded
        b [symmetric] base_def [symmetric] memory_view_gen)
qed

lemma memory_inv_tasks:
  assumes "memory_inv sd s"
  shows "memory_inv sd (s\<lparr> mm_gc_tasks := alist_del i (mm_gc_tasks s), mm_gc_leases := l \<rparr>)"
    "memory_inv sd (s\<lparr> mm_gc_leases := l, mm_gc_tasks := alist_put (gt_id t) t (mm_gc_tasks s) \<rparr>)"
  using assms set_alist_put [of "gt_id t" t "mm_gc_tasks s"]
  by (auto simp: memory_inv_def alist_del_def distinct_map_filter distinct_alist_put)

lemma memory_task_ok:
  assumes "memory_inv sd s"
  shows "step_ok (memory_view sd) (memory_inv sd) s
      (\<lambda>_ v. v = (memory_view sd s)\<lparr> mv_tasks := (mv_tasks (memory_view sd s))(i := None),
         mv_leases := (mv_leases (memory_view sd s))(i := None) \<rparr>)
      (memory_complete_gc_task i s)"
    "step_ok (memory_view sd) (memory_inv sd) s
      (\<lambda>_ v. v = (memory_view sd s)\<lparr> mv_tasks := (mv_tasks (memory_view sd s))(gt_id t \<mapsto> t),
         mv_leases := (mv_leases (memory_view sd s))(gt_id t := None) \<rparr>)
      (memory_reschedule_gc_task t s)"
  using memory_inv_tasks [OF assms]
  by (simp_all add: step_ok_def memory_complete_gc_task_def memory_reschedule_gc_task_def memory_view_def)

text \<open>
  The in-process backend implements the contract: each operation, on every branch, is the abstract
  operation on the view, or fails without a visible effect.
\<close>

lemma memory_metadata_store:
  assumes "serde_ok sd"
  shows "metadata_store (memory_ops sd) (memory_view sd) (memory_inv sd) task_id"
  by unfold_locales
    (simp_all only: memory_ops_def meta_ops.select_convs memory_replace_ok [OF assms] memory_retire_ok
      memory_claim_ok memory_if_absent_ok [OF assms] memory_query_ok memory_retire_if_ok
      memory_delete_if_ok memory_next_generation_ok memory_task_ok)

lemma memory_live_store:
  assumes "serde_ok sd"
  shows "live_store (memory_ops sd) (memory_view sd) (memory_inv sd) task_id (\<lambda>s. mm_fail_next_puts s = 0)"
proof (intro live_store.intro live_store_axioms.intro metadata_store.axioms(1) [OF memory_metadata_store [OF assms]], goal_cases)
  case (1 s key)
  then show ?case by (simp add: memory_ops_def memory_get_block_def de_opt_decoded)
next
  case (2 s key)
  then show ?case by (simp add: memory_ops_def memory_next_generation_def de_opt_decoded Let_def)
next
  case (3 s key b nb)
  then show ?case
    using ser_Inr [OF assms, of b]
    by (auto simp: memory_ops_def memory_replace_block_def de_opt_decoded Let_def enqueue_gc_def split: option.splits)
qed

locale json_codec =
  fixes sd :: "'b serde"
  assumes codec: "serde_ok sd"

sublocale json_codec \<subseteq> mem: metadata_store "memory_ops sd" "memory_view sd" "memory_inv sd" task_id
  by (rule memory_metadata_store [OF codec])

sublocale json_codec \<subseteq> mem_up: live_store "memory_ops sd" "memory_view sd" "memory_inv sd" task_id "\<lambda>s. mm_fail_next_puts s = 0"
  by (rule memory_live_store [OF codec])

text \<open>A codec that keeps the record as it is, for the concrete instances.\<close>

definition plain_serde :: "BlockMeta serde" where
  "plain_serde = \<lparr> sd_ser = Inr, sd_de = Inr \<rparr>"

definition memory_empty :: "'b MemoryMetadataInner" where
  "memory_empty = \<lparr> mm_blocks = (\<lambda>_. None), mm_generations = (\<lambda>_. None), mm_gc_tasks = [],
     mm_gc_leases = (\<lambda>_. None), mm_fail_next_puts = 0 \<rparr>"

lemma serde_ok_plain: "serde_ok plain_serde"
  by (simp add: serde_ok_def plain_serde_def)

interpretation plain: json_codec plain_serde
  by unfold_locales (rule serde_ok_plain)

lemma memory_inv_empty: "memory_inv sd memory_empty"
  by (simp add: memory_inv_def memory_empty_def)

text \<open>
  C11. The in-process metadata backend, which stands in for Redis in tests, implements the abstract
  metadata service: for any faithful JSON codec, get, exists, put-if-absent, replace, retire,
  conditional retire and delete, generation allocation, and claiming, completing and rescheduling
  reclamation tasks each either fail without a visible effect or return the abstract result and make
  the abstract state change.
\<close>

theorem memory_refines_spec:
  assumes "serde_ok sd"
  shows "metadata_store (memory_ops sd) (memory_view sd) (memory_inv sd) task_id"
  using assms by (rule memory_metadata_store)

theorem memory_refines_spec_witness:
  "metadata_store (memory_ops plain_serde) (memory_view plain_serde) (memory_inv plain_serde) task_id"
  using serde_ok_plain by (rule memory_refines_spec)

end
