(* ===== verification/Storage_Tier.thy ===== *)
theory Storage_Tier
  imports Router Metadata IO_Contract "HOL-Library.Char_ord" "HOL-Library.List_Lexorder"
begin

text \<open>
  \<open>storage_tier.rs\<close>: the L2 tier, which places objects on devices, striped over several of them when
  they are large, and publishes their layout in the metadata store.  The tier is split into its
  immutable part \<open>StorageEnv\<close> (router, executor, metadata operations, settings) and its state
  \<open>StorageTier\<close> (the executor's files, the metadata store, the counters).

  An operation runs at one clock reading \<open>now\<close>, and, as the per-key write locks demand, not
  interleaved with another operation on the same key.  Metric recording (\<open>observe_io\<close>,
  \<open>observe_io_batch\<close>) and logging do not change results and are left out; the per-device counters
  are kept.
\<close>

section \<open>State\<close>

record ('x, 'm) StorageEnv =
  se_router :: ShardRouter
  se_io :: "'x io_ops"
  se_mo :: "'m meta_ops"
  se_hash :: hashers
  se_hash64_stream :: "bytes list \<Rightarrow> u64"
  se_striping_threshold :: nat
  se_striping_chunk_size :: nat
  se_rdma_stream_chunk_size :: nat
  se_verify_stripe_checksums :: bool
  se_gc_grace_seconds :: nat

record ('x, 'm) StorageTier =
  st_exec :: 'x
  st_meta :: 'm
  reads_total :: nat
  writes_total :: nat
  bytes_read :: nat
  bytes_written :: nat
  striped_writes :: nat
  device_read_bytes_total :: "nat list"
  device_used_bytes_total :: "nat list"

definition DIRECT_IO_ALIGNMENT :: nat where "DIRECT_IO_ALIGNMENT = 4096"

text \<open>\<open>new_with_metrics\<close> with the executor and the metadata service given; no metrics registry.\<close>

definition storage_new_env ::
  "config \<Rightarrow> ShardRouter \<Rightarrow> 'x io_ops \<Rightarrow> 'm meta_ops \<Rightarrow> hashers \<Rightarrow> (bytes list \<Rightarrow> u64) \<Rightarrow> ('x, 'm) StorageEnv" where
  "storage_new_env c r io mo H stream =
     \<lparr> se_router = r, se_io = io, se_mo = mo, se_hash = H, se_hash64_stream = stream,
       se_striping_threshold = striping_threshold (cfg_storage c),
       se_striping_chunk_size = max (striping_chunk_size (cfg_storage c)) 1,
       se_rdma_stream_chunk_size =
         max (rdma_stream_chunk_size (cfg_storage c)) DIRECT_IO_ALIGNMENT
           div DIRECT_IO_ALIGNMENT * DIRECT_IO_ALIGNMENT,
       se_verify_stripe_checksums = verify_stripe_checksums (cfg_storage c),
       se_gc_grace_seconds = gc_grace_seconds (cfg_gc c) \<rparr>"

definition storage_new_state :: "ShardRouter \<Rightarrow> 'x \<Rightarrow> 'm \<Rightarrow> ('x, 'm) StorageTier" where
  "storage_new_state r x m =
     \<lparr> st_exec = x, st_meta = m, reads_total = 0, writes_total = 0, bytes_read = 0, bytes_written = 0,
       striped_writes = 0, device_read_bytes_total = replicate (num_devices r) 0,
       device_used_bytes_total = replicate (num_devices r) 0 \<rparr>"

definition on_exec :: "('x \<Rightarrow> 'a \<times> 'x) \<Rightarrow> ('x, 'm) StorageTier \<Rightarrow> 'a \<times> ('x, 'm) StorageTier" where
  "on_exec f s = (case f (st_exec s) of (r, x) \<Rightarrow> (r, s\<lparr> st_exec := x \<rparr>))"

definition on_meta :: "('m \<Rightarrow> 'a \<times> 'm) \<Rightarrow> ('x, 'm) StorageTier \<Rightarrow> 'a \<times> ('x, 'm) StorageTier" where
  "on_meta f s = (case f (st_meta s) of (r, m) \<Rightarrow> (r, s\<lparr> st_meta := m \<rparr>))"

text \<open>\<open>as i64\<close> keeps the low 64 bits; adding wraps.\<close>

definition as_i64 :: "int \<Rightarrow> int" where
  "as_i64 x = (x + 2 ^ 63) mod 2 ^ 64 - 2 ^ 63"

definition gc_not_before :: "('x, 'm) StorageEnv \<Rightarrow> int \<Rightarrow> int" where
  "gc_not_before E now = as_i64 (now + as_i64 (int (se_gc_grace_seconds E)))"

text \<open>The relaxed atomic counters; \<open>get\<close> out of range is \<open>None\<close> and nothing is counted.\<close>

definition bump :: "nat \<Rightarrow> nat \<Rightarrow> nat list \<Rightarrow> nat list" where
  "bump dev n xs = (if dev < length xs then xs[dev := wadd64 (xs ! dev) n] else xs)"

definition device_read_bytes :: "nat \<Rightarrow> ('x, 'm) StorageTier \<Rightarrow> nat" where
  "device_read_bytes dev s =
     (if dev < length (device_read_bytes_total s) then device_read_bytes_total s ! dev else 0)"

definition device_used_bytes :: "nat \<Rightarrow> ('x, 'm) StorageTier \<Rightarrow> nat" where
  "device_used_bytes dev s =
     (if dev < length (device_used_bytes_total s) then device_used_bytes_total s ! dev else 0)"

definition record_device_read :: "nat \<Rightarrow> nat \<Rightarrow> ('x, 'm) StorageTier \<Rightarrow> ('x, 'm) StorageTier" where
  "record_device_read dev n s = s\<lparr> device_read_bytes_total := bump dev n (device_read_bytes_total s) \<rparr>"

definition record_device_write :: "nat \<Rightarrow> nat \<Rightarrow> ('x, 'm) StorageTier \<Rightarrow> ('x, 'm) StorageTier" where
  "record_device_write dev n s = s\<lparr> device_used_bytes_total := bump dev n (device_used_bytes_total s) \<rparr>"

definition record_device_delete :: "nat \<Rightarrow> nat \<Rightarrow> ('x, 'm) StorageTier \<Rightarrow> ('x, 'm) StorageTier" where
  "record_device_delete dev n s =
     (let xs = device_used_bytes_total s in
      if dev < length xs then s\<lparr> device_used_bytes_total := xs[dev := xs ! dev - n] \<rparr> else s)"

definition count_read :: "nat \<Rightarrow> ('x, 'm) StorageTier \<Rightarrow> ('x, 'm) StorageTier" where
  "count_read n s = s\<lparr> reads_total := wadd64 (reads_total s) 1, bytes_read := wadd64 (bytes_read s) n \<rparr>"

definition count_write :: "nat \<Rightarrow> ('x, 'm) StorageTier \<Rightarrow> ('x, 'm) StorageTier" where
  "count_write n s = s\<lparr> writes_total := wadd64 (writes_total s) 1, bytes_written := wadd64 (bytes_written s) n \<rparr>"

definition count_striped_write :: "nat \<Rightarrow> ('x, 'm) StorageTier \<Rightarrow> ('x, 'm) StorageTier" where
  "count_striped_write n s = (count_write n s)\<lparr> striped_writes := wadd64 (striped_writes s) 1 \<rparr>"


section \<open>Checksums\<close>

definition hex_char :: "nat \<Rightarrow> char" where
  "hex_char d = (if d < 10 then char_of (48 + d) else char_of (87 + d))"

definition hex16 :: "u64 \<Rightarrow> string" where
  "hex16 w = map (\<lambda>i. hex_char (unat w div 16 ^ (15 - i) mod 16)) [0 ..< 16]"

definition checksum_bytes :: "hashers \<Rightarrow> bytes \<Rightarrow> string" where
  "checksum_bytes H data = hex16 (hash64 H data)"

text \<open>The streaming hasher fed with the segments one after the other.\<close>

definition checksum_segments :: "('x, 'm) StorageEnv \<Rightarrow> bytes list \<Rightarrow> string" where
  "checksum_segments E segments = hex16 (se_hash64_stream E segments)"

definition checksum_ptr :: "hashers \<Rightarrow> mem \<Rightarrow> nat \<Rightarrow> nat \<Rightarrow> string" where
  "checksum_ptr H mem ptr len = checksum_bytes H (load_bytes ptr len mem)"

definition expected_stripe_checksum :: "('x, 'm) StorageEnv \<Rightarrow> StripingInfo \<Rightarrow> nat \<Rightarrow> string option res" where
  "expected_stripe_checksum E stripe i =
     (if \<not> se_verify_stripe_checksums E then Inr None
      else if i < length (chunk_checksums stripe) \<and> chunk_checksums stripe ! i \<noteq> []
      then Inr (Some (chunk_checksums stripe ! i))
      else Inl (NotFound (''striped object has no checksum for stripe '' @ dec i @ ''; rewrite required'')))"

definition verify_stripe_bytes :: "('x, 'm) StorageEnv \<Rightarrow> StripingInfo \<Rightarrow> nat \<Rightarrow> bytes \<Rightarrow> unit res" where
  "verify_stripe_bytes E stripe i data =
     res_bind (expected_stripe_checksum E stripe i) (\<lambda>expected.
       case expected of
         None \<Rightarrow> Inr ()
       | Some c \<Rightarrow> if checksum_bytes (se_hash E) data = c then Inr ()
           else Inl (NotFound (''striped object checksum mismatch for stripe '' @ dec i)))"


section \<open>Files on devices\<close>

definition write_file_on_device ::
  "('x, 'm) StorageEnv \<Rightarrow> nat \<Rightarrow> string \<Rightarrow> bytes \<Rightarrow> ('x, 'm) StorageTier \<Rightarrow> unit res \<times> ('x, 'm) StorageTier" where
  "write_file_on_device E dev path data s =
     (case on_exec (io_write_file (se_io E) path data) s of
        (Inl e, s1) \<Rightarrow> (Inl e, s1)
      | (Inr _, s1) \<Rightarrow> (Inr (), record_device_write dev (io_file_size (se_io E) path (st_exec s1)) s1))"

definition read_file_on_device ::
  "('x, 'm) StorageEnv \<Rightarrow> string \<Rightarrow> ('x, 'm) StorageTier \<Rightarrow> bytes res \<times> ('x, 'm) StorageTier" where
  "read_file_on_device E path s = on_exec (io_read_file (se_io E) path) s"

definition delete_file_on_device ::
  "('x, 'm) StorageEnv \<Rightarrow> nat \<Rightarrow> string \<Rightarrow> ('x, 'm) StorageTier \<Rightarrow> unit res \<times> ('x, 'm) StorageTier" where
  "delete_file_on_device E dev path s =
     (let n = io_file_size (se_io E) path (st_exec s) in
      case on_exec (io_delete_file (se_io E) path) s of
        (Inl e, s1) \<Rightarrow> (Inl e, s1)
      | (Inr _, s1) \<Rightarrow> (Inr (), record_device_delete dev n s1))"

text \<open>\<open>max_by_key\<close> keeps the last of several maxima.\<close>

fun last_max :: "('a \<times> nat) list \<Rightarrow> ('a \<times> nat) option \<Rightarrow> 'a option" where
  "last_max [] best = map_option fst best"
| "last_max ((a, k) # xs) best =
     (case best of
        None \<Rightarrow> last_max xs (Some (a, k))
      | Some (b, m) \<Rightarrow> last_max xs (if m \<le> k then Some (a, k) else Some (b, m)))"

definition device_id_for_path :: "ShardRouter \<Rightarrow> string \<Rightarrow> nat option" where
  "device_id_for_path r path =
     last_max (map (\<lambda>(i, d). (i, length (path_components d)))
       (filter (\<lambda>(i, d). path_starts_with path d) (enumerate 0 (sr_devices r)))) None"

definition meta_path_or_route :: "('x, 'm) StorageEnv \<Rightarrow> ObjectKey \<Rightarrow> BlockMeta \<Rightarrow> string" where
  "meta_path_or_route E key meta =
     (if file_path meta = [] then key_to_path (se_hash E) (se_router E) key else file_path meta)"

definition meta_device_or_route :: "('x, 'm) StorageEnv \<Rightarrow> ObjectKey \<Rightarrow> BlockMeta \<Rightarrow> nat" where
  "meta_device_or_route E key meta =
     (if device_id meta < num_devices (se_router E) then device_id meta else route (se_hash E) (se_router E) key)"

fun delete_paths_best_effort ::
  "('x, 'm) StorageEnv \<Rightarrow> string list \<Rightarrow> ('x, 'm) StorageTier \<Rightarrow> ('x, 'm) StorageTier" where
  "delete_paths_best_effort E [] s = s"
| "delete_paths_best_effort E (p # ps) s =
     delete_paths_best_effort E ps
       (snd (case device_id_for_path (se_router E) p of
          Some d \<Rightarrow> delete_file_on_device E d p s
        | None \<Rightarrow> on_exec (io_delete_file (se_io E) p) s))"

definition stripe_files_exist :: "('x, 'm) StorageEnv \<Rightarrow> StripingInfo \<Rightarrow> ('x, 'm) StorageTier \<Rightarrow> bool" where
  "stripe_files_exist E stripe s = list_all (\<lambda>p. io_file_exists (se_io E) p (st_exec s)) (chunk_paths stripe)"

definition is_not_found_error :: "kverror \<Rightarrow> bool" where
  "is_not_found_error e = (case e of NotFound _ \<Rightarrow> True | Io err \<Rightarrow> io_kind err = IoNotFound | _ \<Rightarrow> False)"


section \<open>Identity and publication\<close>

definition meta_identity_matches :: "BlockMeta \<Rightarrow> BlockMeta \<Rightarrow> bool" where
  "meta_identity_matches actual expected \<longleftrightarrow>
     object_handle actual = object_handle expected
     \<and> object_generation actual = object_generation expected
     \<and> layout_version actual = layout_version expected
     \<and> content_etag actual = content_etag expected
     \<and> bm_size actual = bm_size expected"

definition delete_metadata_if_current ::
  "('x, 'm) StorageEnv \<Rightarrow> ObjectKey \<Rightarrow> BlockMeta \<Rightarrow> ('x, 'm) StorageTier \<Rightarrow> bool res \<times> ('x, 'm) StorageTier" where
  "delete_metadata_if_current E key meta = on_meta (mo_delete_block_if_matches (se_mo E) (to_string_key key) meta)"

definition commit_metadata_with_rollback ::
  "('x, 'm) StorageEnv \<Rightarrow> int \<Rightarrow> ObjectKey \<Rightarrow> BlockMeta \<Rightarrow> string list \<Rightarrow> bool \<Rightarrow> ('x, 'm) StorageTier
     \<Rightarrow> bool res \<times> ('x, 'm) StorageTier" where
  "commit_metadata_with_rollback E now key meta new_paths if_absent s =
     (case (if if_absent then on_meta (mo_put_block_if_absent (se_mo E) (to_string_key key) meta) s
            else io_step (on_meta (mo_replace_block (se_mo E) (to_string_key key) meta (gc_not_before E now)) s)
              (\<lambda>_ s1. (Inr True, s1))) of
        (Inr True, s1) \<Rightarrow> (Inr True, s1)
      | (Inr False, s1) \<Rightarrow> (Inr False, delete_paths_best_effort E new_paths s1)
      | (Inl e, s1) \<Rightarrow> (Inl e, delete_paths_best_effort E new_paths s1))"

definition delete_expired_current_locked ::
  "('x, 'm) StorageEnv \<Rightarrow> int \<Rightarrow> ObjectKey \<Rightarrow> BlockMeta \<Rightarrow> ('x, 'm) StorageTier \<Rightarrow> bool res \<times> ('x, 'm) StorageTier" where
  "delete_expired_current_locked E now key expected s =
     io_step (on_meta (mo_get_block (se_mo E) (to_string_key key)) s) (\<lambda>cur s1.
       case cur of
         None \<Rightarrow> (Inr False, s1)
       | Some current \<Rightarrow>
           if \<not> is_expired_at current now \<or> \<not> meta_identity_matches current expected then (Inr False, s1)
           else on_meta (mo_retire_block_if_matches (se_mo E) (to_string_key key) current (gc_not_before E now)) s1)"

definition purge_if_expired ::
  "('x, 'm) StorageEnv \<Rightarrow> int \<Rightarrow> ObjectKey \<Rightarrow> BlockMeta \<Rightarrow> ('x, 'm) StorageTier \<Rightarrow> bool res \<times> ('x, 'm) StorageTier" where
  "purge_if_expired E now key meta s =
     (if \<not> is_expired_at meta now then (Inr False, s) else delete_expired_current_locked E now key meta s)"

definition delete_if_expired ::
  "('x, 'm) StorageEnv \<Rightarrow> int \<Rightarrow> ObjectKey \<Rightarrow> BlockMeta \<Rightarrow> ('x, 'm) StorageTier \<Rightarrow> bool res \<times> ('x, 'm) StorageTier" where
  "delete_if_expired = purge_if_expired"

text \<open>\<open>retire\<close>, which is also \<open>delete\<close>.\<close>

definition storage_retire ::
  "('x, 'm) StorageEnv \<Rightarrow> int \<Rightarrow> ObjectKey \<Rightarrow> ('x, 'm) StorageTier \<Rightarrow> bool res \<times> ('x, 'm) StorageTier" where
  "storage_retire E now key s =
     io_step (on_meta (mo_retire_block (se_mo E) (to_string_key key) (gc_not_before E now)) s)
       (\<lambda>old s1. (Inr (old \<noteq> None), s1))"

text \<open>A signed decimal, as \<open>Display\<close> prints an \<open>i64\<close>.\<close>

definition dec_int :: "int \<Rightarrow> string" where
  "dec_int i = (if i < 0 then CHR ''-'' # dec (nat (- i)) else dec (nat i))"

definition storage_content_etag :: "hashers \<Rightarrow> ObjectKey \<Rightarrow> nat \<Rightarrow> nat \<Rightarrow> int \<Rightarrow> string" where
  "storage_content_etag H key generation sz created =
     hex16 (hash64 H (as_bytes (to_string_key key @ ''|generation='' @ dec generation @ ''|size='' @ dec sz
       @ ''|created_at='' @ dec_int created)))"

definition storage_object_handle :: "hashers \<Rightarrow> ObjectKey \<Rightarrow> nat \<Rightarrow> nat \<Rightarrow> nat \<Rightarrow> int \<Rightarrow> string" where
  "storage_object_handle H key generation layout sz created =
     ''ctxobj-v1-'' @ object_digest H key @ ''-g'' @ dec generation @ ''-l'' @ dec layout @ ''-''
       @ hex16 (hash64 H (as_bytes (to_string_key key @ ''|generation='' @ dec generation @ ''|layout='' @ dec layout
           @ ''|size='' @ dec sz @ ''|created_at='' @ dec_int created)))"

definition prepare_write_meta ::
  "('x, 'm) StorageEnv \<Rightarrow> ObjectKey \<Rightarrow> BlockMeta \<Rightarrow> nat \<Rightarrow> ('x, 'm) StorageTier \<Rightarrow> BlockMeta res \<times> ('x, 'm) StorageTier" where
  "prepare_write_meta E key meta sz s =
     io_step (on_meta (mo_next_generation (se_mo E) (to_string_key key)) s) (\<lambda>generation s1.
       (Inr (meta\<lparr> bm_size := sz, object_generation := generation, layout_version := 1,
          object_handle := storage_object_handle (se_hash E) key generation 1 sz (created_at meta),
          content_etag := storage_content_etag (se_hash E) key generation sz (created_at meta) \<rparr>), s1))"

definition should_stripe :: "('x, 'm) StorageEnv \<Rightarrow> nat \<Rightarrow> bool" where
  "should_stripe E len \<longleftrightarrow>
     se_striping_threshold E > 0 \<and> len > se_striping_threshold E \<and> num_devices (se_router E) > 1"


section \<open>Rebucketing segments into stripes\<close>

text \<open>
  The inner loop of \<open>put_striped_chunks_impl\<close>: \<open>cs\<close> and \<open>co\<close> are \<open>cur_segment\<close> and \<open>cur_offset\<close>,
  \<open>acc\<close> is \<open>stripes[stripe_idx]\<close>.  The bound \<open>co \<le> length (segments ! cs)\<close> holds throughout
  (\<open>fill_stripe_spec\<close>), so it never ends the loop early.
\<close>

function fill_stripe ::
  "bytes list \<Rightarrow> nat \<Rightarrow> nat \<Rightarrow> nat \<Rightarrow> nat \<Rightarrow> bytes list \<Rightarrow> bytes list \<times> nat \<times> nat" where
  "fill_stripe segments stripe_end filled cs co acc =
     (if filled < stripe_end \<and> cs < length segments \<and> co \<le> length (segments ! cs) then
        let seg = segments ! cs;
            n = min (length seg - co) (stripe_end - filled);
            piece = (if n = length seg \<and> co = 0 then seg else take n (drop co seg))
        in if co + n = length seg
           then fill_stripe segments stripe_end (filled + n) (Suc cs) 0 (acc @ [piece])
           else fill_stripe segments stripe_end (filled + n) cs (co + n) (acc @ [piece])
      else (acc, cs, co))"
  by pat_completeness auto
termination
  by (relation "measures [\<lambda>(segments, stripe_end, filled, cs, co, acc). length segments - cs,
      \<lambda>(segments, stripe_end, filled, cs, co, acc). stripe_end - filled]") (auto simp: min_def split: if_splits)

declare fill_stripe.simps [simp del]

text \<open>\<open>(total + chunk_size - 1) / chunk_size\<close> and \<open>(stripe_start + chunk_size).min(total)\<close> in 64 bits.\<close>

definition stripe_count :: "nat \<Rightarrow> nat \<Rightarrow> nat" where
  "stripe_count tot chunk = wsub64 (wadd64 tot chunk) 1 div chunk"

definition stripe_end_of :: "nat \<Rightarrow> nat \<Rightarrow> nat \<Rightarrow> nat" where
  "stripe_end_of i chunk tot = min (wadd64 (i * chunk) chunk) tot"

fun fill_stripes :: "bytes list \<Rightarrow> nat \<Rightarrow> nat \<Rightarrow> nat list \<Rightarrow> nat \<Rightarrow> nat \<Rightarrow> bytes list list" where
  "fill_stripes segments chunk tot [] cs co = []"
| "fill_stripes segments chunk tot (i # is) cs co =
     (case fill_stripe segments (stripe_end_of i chunk tot) (i * chunk) cs co [] of
        (stripe, cs', co') \<Rightarrow> stripe # fill_stripes segments chunk tot is cs' co')"

definition rebucket :: "bytes list \<Rightarrow> nat \<Rightarrow> nat \<Rightarrow> bytes list list" where
  "rebucket segments chunk tot = fill_stripes segments chunk tot [0 ..< stripe_count tot chunk] 0 0"


section \<open>Writing objects\<close>

text \<open>Single-file objects: write under a fresh generation, then publish.\<close>

definition single_layout :: "('x, 'm) StorageEnv \<Rightarrow> ObjectKey \<Rightarrow> BlockMeta \<Rightarrow> nat \<times> string" where
  "single_layout E key meta =
     (let dev = route (se_hash E) (se_router E) key in
      (dev, key_to_versioned_path (se_hash E) (se_router E) key dev (object_generation meta) (layout_version meta)))"

definition single_meta :: "BlockMeta \<Rightarrow> nat \<Rightarrow> string \<Rightarrow> nat \<Rightarrow> BlockMeta" where
  "single_meta meta dev path n = meta\<lparr> file_path := path, bm_size := n, device_id := as_u32 dev, striping := None \<rparr>"

definition put_single ::
  "('x, 'm) StorageEnv \<Rightarrow> int \<Rightarrow> ObjectKey \<Rightarrow> bytes \<Rightarrow> BlockMeta \<Rightarrow> bool \<Rightarrow> ('x, 'm) StorageTier
     \<Rightarrow> bool res \<times> ('x, 'm) StorageTier" where
  "put_single E now key data meta0 if_absent s =
     io_step (prepare_write_meta E key meta0 (length data) s) (\<lambda>meta s1.
       (case single_layout E key meta of (dev, path) \<Rightarrow>
          io_step (write_file_on_device E dev path data s1) (\<lambda>_ s2.
          io_step (commit_metadata_with_rollback E now key (single_meta meta dev path (length data)) [path] if_absent s2)
            (\<lambda>committed s3. if committed then (Inr True, count_write (length data) s3) else (Inr False, s3)))))"

text \<open>The results of a batched stripe write: the first error removes the stripe files before it.\<close>

fun delete_stripes :: "('x, 'm) StorageEnv \<Rightarrow> string list \<Rightarrow> ('x, 'm) StorageTier \<Rightarrow> ('x, 'm) StorageTier" where
  "delete_stripes E [] s = s"
| "delete_stripes E (p # ps) s = delete_stripes E ps (snd (on_exec (io_delete_file (se_io E) p) s))"

fun settle_writes ::
  "('x, 'm) StorageEnv \<Rightarrow> nat list \<Rightarrow> string list \<Rightarrow> nat \<Rightarrow> unit res list \<Rightarrow> ('x, 'm) StorageTier
     \<Rightarrow> unit res \<times> ('x, 'm) StorageTier" where
  "settle_writes E devs paths i [] s = (Inr (), s)"
| "settle_writes E devs paths i (Inl e # rs) s = (Inl e, delete_stripes E (take i paths) s)"
| "settle_writes E devs paths i (Inr _ # rs) s =
     settle_writes E devs paths (Suc i) rs
       (record_device_write (devs ! i) (io_file_size (se_io E) (paths ! i) (st_exec s)) s)"

text \<open>\<open>chunk_devices[0]\<close> is in range: only objects larger than the striping threshold come here.\<close>

definition striped_meta :: "('x, 'm) StorageEnv \<Rightarrow> BlockMeta \<Rightarrow> nat \<Rightarrow> nat list \<Rightarrow> string list \<Rightarrow> string list \<Rightarrow> BlockMeta" where
  "striped_meta E meta tot devs paths sums =
     meta\<lparr> bm_size := tot, device_id := hd (map as_u32 devs), file_path := [],
       striping := Some \<lparr> chunk_size = se_striping_chunk_size E, chunk_devices = map as_u32 devs,
         chunk_paths = paths, total_size = tot, chunk_locations = [], chunk_checksums = sums \<rparr> \<rparr>"

definition publish_striped ::
  "('x, 'm) StorageEnv \<Rightarrow> int \<Rightarrow> ObjectKey \<Rightarrow> BlockMeta \<Rightarrow> nat \<Rightarrow> nat list \<Rightarrow> string list \<Rightarrow> string list \<Rightarrow> bool
     \<Rightarrow> unit res list \<Rightarrow> ('x, 'm) StorageTier \<Rightarrow> bool res \<times> ('x, 'm) StorageTier" where
  "publish_striped E now key meta tot devs paths sums if_absent results s =
     io_step (settle_writes E (map as_u32 devs) paths 0 results s) (\<lambda>_ s1.
     io_step (commit_metadata_with_rollback E now key (striped_meta E meta tot devs paths sums) paths if_absent s1)
       (\<lambda>committed s2. if committed then (Inr True, count_striped_write tot s2) else (Inr False, s2)))"

definition stripe_paths :: "('x, 'm) StorageEnv \<Rightarrow> ObjectKey \<Rightarrow> BlockMeta \<Rightarrow> nat \<Rightarrow> string list" where
  "stripe_paths E key meta n = map (\<lambda>i. chunk_versioned_path (se_hash E) (se_router E) key i
     (chunk_device (se_hash E) (se_router E) key i) (object_generation meta) (layout_version meta)) [0 ..< n]"

definition stripe_devices :: "('x, 'm) StorageEnv \<Rightarrow> ObjectKey \<Rightarrow> nat \<Rightarrow> nat list" where
  "stripe_devices E key n = map (chunk_device (se_hash E) (se_router E) key) [0 ..< n]"

definition put_striped_chunks_impl ::
  "('x, 'm) StorageEnv \<Rightarrow> int \<Rightarrow> ObjectKey \<Rightarrow> bytes list \<Rightarrow> nat \<Rightarrow> BlockMeta \<Rightarrow> bool \<Rightarrow> ('x, 'm) StorageTier
     \<Rightarrow> bool res \<times> ('x, 'm) StorageTier" where
  "put_striped_chunks_impl E now key segments tot meta0 if_absent s =
     io_step (prepare_write_meta E key meta0 tot s) (\<lambda>meta s1.
       let stripes = rebucket segments (se_striping_chunk_size E) tot;
           n = length stripes;
           paths = stripe_paths E key meta n;
           sums = (if se_verify_stripe_checksums E then map (checksum_segments E) stripes else []);
           io_items = map (\<lambda>(path, segs). (\<lparr> rq_path = path, rq_offset = 0, rq_length = length (concat segs) \<rparr>, segs))
             (zip paths stripes)
       in case on_exec (io_write_batch_vectored (se_io E) io_items) s1 of
            (results, s2) \<Rightarrow>
              publish_striped E now key meta tot (stripe_devices E key n) paths sums if_absent results s2)"

definition put_striped ::
  "('x, 'm) StorageEnv \<Rightarrow> int \<Rightarrow> ObjectKey \<Rightarrow> bytes \<Rightarrow> BlockMeta \<Rightarrow> ('x, 'm) StorageTier \<Rightarrow> unit res \<times> ('x, 'm) StorageTier" where
  "put_striped E now key data meta s =
     (let tot = length data; chunk = se_striping_chunk_size E;
          segments = map (\<lambda>i. take (stripe_end_of i chunk tot - i * chunk) (drop (i * chunk) data))
            [0 ..< stripe_count tot chunk]
      in io_step (put_striped_chunks_impl E now key segments tot meta False s) (\<lambda>_ s1. (Inr (), s1)))"

definition storage_put ::
  "('x, 'm) StorageEnv \<Rightarrow> int \<Rightarrow> ObjectKey \<Rightarrow> bytes \<Rightarrow> BlockMeta \<Rightarrow> ('x, 'm) StorageTier \<Rightarrow> unit res \<times> ('x, 'm) StorageTier" where
  "storage_put E now key data meta s =
     (if should_stripe E (length data) then put_striped E now key data meta s
      else io_step (put_single E now key data meta False s) (\<lambda>_ s1. (Inr (), s1)))"

text \<open>
  The existence test at the head of every conditional write: \<open>Inr True\<close> means that the write may go
  ahead.
\<close>

definition absent_or_expired ::
  "('x, 'm) StorageEnv \<Rightarrow> int \<Rightarrow> ObjectKey \<Rightarrow> ('x, 'm) StorageTier \<Rightarrow> bool res \<times> ('x, 'm) StorageTier" where
  "absent_or_expired E now key s =
     io_step (on_meta (mo_get_block (se_mo E) (to_string_key key)) s) (\<lambda>existing s1.
       case existing of
         None \<Rightarrow> (Inr True, s1)
       | Some m \<Rightarrow>
           if \<not> is_expired_at m now then (Inr False, s1)
           else io_step (delete_expired_current_locked E now key m s1) (\<lambda>_ s2. (Inr True, s2)))"

definition storage_put_if_absent ::
  "('x, 'm) StorageEnv \<Rightarrow> int \<Rightarrow> ObjectKey \<Rightarrow> bytes \<Rightarrow> BlockMeta \<Rightarrow> ('x, 'm) StorageTier \<Rightarrow> bool res \<times> ('x, 'm) StorageTier" where
  "storage_put_if_absent E now key data meta s =
     io_step (absent_or_expired E now key s) (\<lambda>go s1.
       if \<not> go then (Inr False, s1)
       else if should_stripe E (length data) then put_striped_chunks_impl E now key [data] (length data) meta True s1
       else put_single E now key data meta True s1)"

definition storage_put_chunks ::
  "('x, 'm) StorageEnv \<Rightarrow> int \<Rightarrow> ObjectKey \<Rightarrow> bytes list \<Rightarrow> BlockMeta \<Rightarrow> ('x, 'm) StorageTier \<Rightarrow> unit res \<times> ('x, 'm) StorageTier" where
  "storage_put_chunks E now key segments meta s =
     (let tot = length (concat segments) in
      if \<not> should_stripe E tot then storage_put E now key (concat segments) meta s
      else io_step (put_striped_chunks_impl E now key segments tot meta False s) (\<lambda>_ s1. (Inr (), s1)))"

definition storage_put_chunks_if_absent ::
  "('x, 'm) StorageEnv \<Rightarrow> int \<Rightarrow> ObjectKey \<Rightarrow> bytes list \<Rightarrow> BlockMeta \<Rightarrow> ('x, 'm) StorageTier \<Rightarrow> bool res \<times> ('x, 'm) StorageTier" where
  "storage_put_chunks_if_absent E now key segments meta s =
     (let tot = length (concat segments) in
      if \<not> should_stripe E tot then storage_put_if_absent E now key (concat segments) meta s
      else io_step (absent_or_expired E now key s) (\<lambda>go s1.
        if \<not> go then (Inr False, s1) else put_striped_chunks_impl E now key segments tot meta True s1))"


subsection \<open>Writing from registered memory\<close>

definition first_result :: "string \<Rightarrow> 'a res list \<Rightarrow> 'a res" where
  "first_result msg rs = (case rs of [] \<Rightarrow> Inl (Internal msg) | r # _ \<Rightarrow> r)"

definition put_from_ptr_single ::
  "('x, 'm) StorageEnv \<Rightarrow> int \<Rightarrow> mem \<Rightarrow> ObjectKey \<Rightarrow> nat \<Rightarrow> nat \<Rightarrow> BlockMeta \<Rightarrow> bool \<Rightarrow> ('x, 'm) StorageTier
     \<Rightarrow> bool res \<times> ('x, 'm) StorageTier" where
  "put_from_ptr_single E now mem key ptr tot meta0 if_not_exists s =
     io_step (prepare_write_meta E key meta0 tot s) (\<lambda>meta s1.
       (case single_layout E key meta of (dev, path) \<Rightarrow>
          (case on_exec (io_write_aligned_batch (se_io E) mem
              [(\<lparr> rq_path = path, rq_offset = 0, rq_length = tot \<rparr>, ptr, tot)]) s1 of
            (results, s2) \<Rightarrow>
              io_step (first_result ''write_aligned_batch empty result'' results, s2) (\<lambda>_ s3.
                let s4 = record_device_write dev (io_file_size (se_io E) path (st_exec s3)) s3 in
                io_step (commit_metadata_with_rollback E now key (single_meta meta dev path tot) [path] if_not_exists s4)
                  (\<lambda>committed s5. if committed then (Inr True, count_write tot s5) else (Inr False, s5))))))"

definition put_from_ptr_striped ::
  "('x, 'm) StorageEnv \<Rightarrow> int \<Rightarrow> mem \<Rightarrow> ObjectKey \<Rightarrow> nat \<Rightarrow> nat \<Rightarrow> BlockMeta \<Rightarrow> bool \<Rightarrow> ('x, 'm) StorageTier
     \<Rightarrow> bool res \<times> ('x, 'm) StorageTier" where
  "put_from_ptr_striped E now mem key ptr tot meta0 if_not_exists s =
     io_step (prepare_write_meta E key meta0 tot s) (\<lambda>meta s1.
       let chunk = se_striping_chunk_size E;
           n = div_ceil tot chunk;
           paths = stripe_paths E key meta n;
           spans = map (\<lambda>i. (wadd64 ptr (i * chunk), wsub64 (stripe_end_of i chunk tot) (i * chunk))) [0 ..< n];
           sums = (if se_verify_stripe_checksums E
             then map (\<lambda>(p, len). checksum_ptr (se_hash E) mem p len) spans else []);
           io_items = map (\<lambda>(path, p, len). (\<lparr> rq_path = path, rq_offset = 0, rq_length = len \<rparr>, p, len))
             (zip paths spans)
       in case on_exec (io_write_aligned_batch (se_io E) mem io_items) s1 of
            (results, s2) \<Rightarrow>
              publish_striped E now key meta tot (stripe_devices E key n) paths sums if_not_exists results s2)"

definition put_from_ptr_with_options ::
  "('x, 'm) StorageEnv \<Rightarrow> int \<Rightarrow> mem \<Rightarrow> ObjectKey \<Rightarrow> nat \<Rightarrow> nat \<Rightarrow> BlockMeta \<Rightarrow> bool \<Rightarrow> ('x, 'm) StorageTier
     \<Rightarrow> bool res \<times> ('x, 'm) StorageTier" where
  "put_from_ptr_with_options E now mem key ptr tot meta if_not_exists s =
     (if tot = 0 then (Inl (Internal ''put_from_ptr: empty data''), s)
      else io_step (if if_not_exists then absent_or_expired E now key s else (Inr True, s)) (\<lambda>go s1.
        if \<not> go then (Inr False, s1)
        else if \<not> should_stripe E tot then put_from_ptr_single E now mem key ptr tot meta if_not_exists s1
        else put_from_ptr_striped E now mem key ptr tot meta if_not_exists s1))"


subsection \<open>Stripes placed by another node\<close>

definition ensure_managed_path :: "('x, 'm) StorageEnv \<Rightarrow> string \<Rightarrow> unit res" where
  "ensure_managed_path E path =
     (if \<exists>d \<in> set (sr_devices (se_router E)). path_starts_with path d then Inr ()
      else Inl (InvalidArgument (''storage_handle outside managed devices: '' @ path)))"

definition placement_path :: "('x, 'm) StorageEnv \<Rightarrow> ObjectKey \<Rightarrow> nat \<Rightarrow> nat \<Rightarrow> nat \<Rightarrow> nat \<Rightarrow> nat \<times> string" where
  "placement_path E key stripe_index device_stripe_index generation layout =
     (let dev = chunk_device (se_hash E) (se_router E) key device_stripe_index in
      (dev, chunk_versioned_path (se_hash E) (se_router E) key stripe_index dev generation layout))"

definition put_placement_chunk ::
  "('x, 'm) StorageEnv \<Rightarrow> ObjectKey \<Rightarrow> nat \<Rightarrow> nat \<Rightarrow> nat \<Rightarrow> nat \<Rightarrow> bytes \<Rightarrow> ('x, 'm) StorageTier
     \<Rightarrow> (nat \<times> string \<times> string) res \<times> ('x, 'm) StorageTier" where
  "put_placement_chunk E key stripe_index device_stripe_index generation layout data s =
     (case placement_path E key stripe_index device_stripe_index generation layout of (dev, path) \<Rightarrow>
        let checksum = (if se_verify_stripe_checksums E then checksum_bytes (se_hash E) data else []) in
        io_step (write_file_on_device E dev path data s) (\<lambda>_ s1.
          (Inr (as_u32 dev, path, checksum), count_write (length data) s1)))"

definition put_placement_chunk_segments ::
  "('x, 'm) StorageEnv \<Rightarrow> ObjectKey \<Rightarrow> nat \<Rightarrow> nat \<Rightarrow> nat \<Rightarrow> nat \<Rightarrow> bytes list \<Rightarrow> ('x, 'm) StorageTier
     \<Rightarrow> (nat \<times> string \<times> string) res \<times> ('x, 'm) StorageTier" where
  "put_placement_chunk_segments E key stripe_index device_stripe_index generation layout segments s =
     (case placement_path E key stripe_index device_stripe_index generation layout of (dev, path) \<Rightarrow>
        let checksum = (if se_verify_stripe_checksums E then checksum_segments E segments else []);
            tot = length (concat segments)
        in case on_exec (io_write_batch_vectored (se_io E)
              [(\<lparr> rq_path = path, rq_offset = 0, rq_length = tot \<rparr>, segments)]) s of
            (results, s1) \<Rightarrow>
              io_step (first_result ''write_batch_vectored empty result'' results, s1) (\<lambda>_ s2.
                (Inr (as_u32 dev, path, checksum), count_write tot s2)))"

text \<open>Paths are compared by their components.\<close>

definition validate_placement_chunk_handle ::
  "('x, 'm) StorageEnv \<Rightarrow> ObjectKey \<Rightarrow> nat \<Rightarrow> nat \<Rightarrow> nat \<Rightarrow> nat \<Rightarrow> string \<Rightarrow> unit res" where
  "validate_placement_chunk_handle E key stripe_index generation layout dev storage_handle =
     res_bind (ensure_managed_path E storage_handle) (\<lambda>_.
       if dev \<ge> num_devices (se_router E)
       then Inl (InvalidArgument (''placement chunk device out of range: '' @ dec dev))
       else if path_components storage_handle
           \<noteq> path_components (chunk_versioned_path (se_hash E) (se_router E) key stripe_index dev generation layout)
       then Inl (InvalidArgument (''placement chunk handle does not match descriptor: '' @ storage_handle))
       else Inr ())"

definition no_device :: "string \<Rightarrow> kverror" where
  "no_device path = InvalidArgument (''unable to identify storage device for '' @ path)"

definition check_placement_bytes :: "('x, 'm) StorageEnv \<Rightarrow> string \<Rightarrow> nat \<Rightarrow> string option \<Rightarrow> bytes \<Rightarrow> unit res" where
  "check_placement_bytes E path expected_len expected_checksum data =
     (if expected_len > 0 \<and> length data \<noteq> expected_len
      then Inl (Internal (''placement chunk length mismatch: expected '' @ dec expected_len @ '' got ''
        @ dec (length data) @ '' ('' @ path @ '')''))
      else if se_verify_stripe_checksums E then
        (case expected_checksum of
           None \<Rightarrow> Inr ()
         | Some c \<Rightarrow>
             if c = [] then Inl (NotFound ''placement chunk has no checksum; rewrite required'')
             else if checksum_bytes (se_hash E) data \<noteq> c then Inl (NotFound ''placement chunk checksum mismatch'')
             else Inr ())
      else Inr ())"

definition read_placement_chunk ::
  "('x, 'm) StorageEnv \<Rightarrow> string \<Rightarrow> nat \<Rightarrow> string option \<Rightarrow> ('x, 'm) StorageTier
     \<Rightarrow> bytes option res \<times> ('x, 'm) StorageTier" where
  "read_placement_chunk E path expected_len expected_checksum s =
     io_step (ensure_managed_path E path, s) (\<lambda>_ s.
       if \<not> io_file_exists (se_io E) path (st_exec s) then (Inr None, s)
       else (case device_id_for_path (se_router E) path of
          None \<Rightarrow> (Inl (no_device path), s)
        | Some _ \<Rightarrow>
            io_step (read_file_on_device E path s) (\<lambda>data s1.
            io_step (check_placement_bytes E path expected_len expected_checksum data, s1) (\<lambda>_ s2.
              (Inr (Some data), count_read (length data) s2)))))"

definition delete_placement_chunk ::
  "('x, 'm) StorageEnv \<Rightarrow> string \<Rightarrow> ('x, 'm) StorageTier \<Rightarrow> bool res \<times> ('x, 'm) StorageTier" where
  "delete_placement_chunk E path s =
     io_step (ensure_managed_path E path, s) (\<lambda>_ s.
       let existed = io_file_exists (se_io E) path (st_exec s) in
       case device_id_for_path (se_router E) path of
         None \<Rightarrow> (Inl (no_device path), s)
       | Some d \<Rightarrow> io_step (delete_file_on_device E d path s) (\<lambda>_ s1. (Inr existed, s1)))"


section \<open>Reading objects\<close>

definition whole_file :: "string \<Rightarrow> IORequest" where
  "whole_file path = \<lparr> rq_path = path, rq_offset = 0, rq_length = 0 \<rparr>"

definition stripe_read_error :: "nat \<Rightarrow> kverror \<Rightarrow> kverror" where
  "stripe_read_error i e =
     (if is_not_found_error e then NotFound (''striped object missing chunk '' @ dec i)
      else Internal (''read striped chunk '' @ dec i @ '': '' @ kverror_to_string e))"

fun collect_stripes ::
  "('x, 'm) StorageEnv \<Rightarrow> StripingInfo \<Rightarrow> nat \<Rightarrow> bytes res list \<Rightarrow> ('x, 'm) StorageTier
     \<Rightarrow> bytes list res \<times> ('x, 'm) StorageTier" where
  "collect_stripes E stripe i [] s = (Inr [], s)"
| "collect_stripes E stripe i (r # rs) s =
     (case r of
        Inl e \<Rightarrow> (Inl (stripe_read_error i e), s)
      | Inr chunk \<Rightarrow>
          let s1 = (if i < length (chunk_devices stripe)
            then record_device_read (chunk_devices stripe ! i) (length chunk) s else s) in
          (case verify_stripe_bytes E stripe i chunk of
             Inl e \<Rightarrow> (Inl e, s1)
           | Inr _ \<Rightarrow> io_step (collect_stripes E stripe (Suc i) rs s1) (\<lambda>cs s2. (Inr (chunk # cs), s2))))"

definition read_striped_chunks ::
  "('x, 'm) StorageEnv \<Rightarrow> StripingInfo \<Rightarrow> ('x, 'm) StorageTier \<Rightarrow> bytes list res \<times> ('x, 'm) StorageTier" where
  "read_striped_chunks E stripe s =
     (case on_exec (io_read_aligned_batch (se_io E) (map whole_file (chunk_paths stripe))) s of
        (results, s1) \<Rightarrow> collect_stripes E stripe 0 results s1)"

definition read_striped ::
  "('x, 'm) StorageEnv \<Rightarrow> StripingInfo \<Rightarrow> ('x, 'm) StorageTier \<Rightarrow> bytes res \<times> ('x, 'm) StorageTier" where
  "read_striped E stripe s = io_step (read_striped_chunks E stripe s) (\<lambda>segments s1. (Inr (concat segments), s1))"

fun collect_subset ::
  "('x, 'm) StorageEnv \<Rightarrow> StripingInfo \<Rightarrow> (nat \<times> bytes res) list \<Rightarrow> ('x, 'm) StorageTier
     \<Rightarrow> (nat \<times> bytes) list res \<times> ('x, 'm) StorageTier" where
  "collect_subset E stripe [] s = (Inr [], s)"
| "collect_subset E stripe ((i, r) # rs) s =
     (case r of
        Inl e \<Rightarrow> (Inl (stripe_read_error i e), s)
      | Inr chunk \<Rightarrow>
          let s1 = record_device_read (chunk_devices stripe ! i) (length chunk) s in
          (case verify_stripe_bytes E stripe i chunk of
             Inl e \<Rightarrow> (Inl e, s1)
           | Inr _ \<Rightarrow>
               io_step (collect_subset E stripe rs (s1\<lparr> bytes_read := wadd64 (bytes_read s1) (length chunk) \<rparr>))
                 (\<lambda>cs s2. (Inr ((i, chunk) # cs), s2))))"

definition subset_request :: "StripingInfo \<Rightarrow> nat \<Rightarrow> IORequest res" where
  "subset_request stripe i =
     (if length (chunk_paths stripe) \<le> i then Inl (Internal (''stripe index '' @ dec i @ '' out of range''))
      else if length (chunk_devices stripe) \<le> i then Inl (Internal (''stripe device index '' @ dec i @ '' out of range''))
      else Inr (whole_file (chunk_paths stripe ! i)))"

definition read_striped_chunks_at ::
  "('x, 'm) StorageEnv \<Rightarrow> StripingInfo \<Rightarrow> nat list \<Rightarrow> ('x, 'm) StorageTier
     \<Rightarrow> (nat \<times> bytes) list res \<times> ('x, 'm) StorageTier" where
  "read_striped_chunks_at E stripe indices s =
     io_step (map_res (subset_request stripe) indices, s) (\<lambda>reqs s1.
       (case on_exec (io_read_aligned_batch (se_io E) reqs) s1 of
          (results, s2) \<Rightarrow>
            if length results \<noteq> length indices
            then (Inl (Internal (''read stripe subset returned '' @ dec (length results) @ '' results for ''
              @ dec (length indices) @ '' requests'')), s2)
            else collect_subset E stripe (zip indices results) s2))"

definition read_striped_chunk_at ::
  "('x, 'm) StorageEnv \<Rightarrow> StripingInfo \<Rightarrow> nat \<Rightarrow> ('x, 'm) StorageTier \<Rightarrow> bytes res \<times> ('x, 'm) StorageTier" where
  "read_striped_chunk_at E stripe i s =
     io_step (read_striped_chunks_at E stripe [i] s) (\<lambda>cs s1.
       case cs of [] \<Rightarrow> (Inl (Internal ''read stripe subset returned no result''), s1) | (_, c) # _ \<Rightarrow> (Inr c, s1))"

text \<open>
  A stripe that is missing or corrupt makes the object unreadable: its metadata entry is dropped
  and the read reports absence.
\<close>

definition drop_unreadable ::
  "('x, 'm) StorageEnv \<Rightarrow> ObjectKey \<Rightarrow> BlockMeta \<Rightarrow> 'a res \<times> ('x, 'm) StorageTier
     \<Rightarrow> ('a \<Rightarrow> ('x, 'm) StorageTier \<Rightarrow> 'b option res \<times> ('x, 'm) StorageTier) \<Rightarrow> 'b option res \<times> ('x, 'm) StorageTier" where
  "drop_unreadable E key meta r k =
     (case r of
        (Inr x, s) \<Rightarrow> k x s
      | (Inl (NotFound _), s) \<Rightarrow> io_step (delete_metadata_if_current E key meta s) (\<lambda>_ s1. (Inr None, s1))
      | (Inl e, s) \<Rightarrow> (Inl e, s))"

definition read_single ::
  "('x, 'm) StorageEnv \<Rightarrow> ObjectKey \<Rightarrow> BlockMeta \<Rightarrow> ('x, 'm) StorageTier \<Rightarrow> bytes option res \<times> ('x, 'm) StorageTier" where
  "read_single E key meta s =
     (let path = meta_path_or_route E key meta in
      if \<not> io_file_exists (se_io E) path (st_exec s)
      then io_step (delete_metadata_if_current E key meta s) (\<lambda>_ s1. (Inr None, s1))
      else io_step (read_file_on_device E path s) (\<lambda>data s1.
        (Inr (Some data), record_device_read (meta_device_or_route E key meta) (length data) (count_read (length data) s1))))"

definition get_chunks_with_meta ::
  "('x, 'm) StorageEnv \<Rightarrow> int \<Rightarrow> ObjectKey \<Rightarrow> BlockMeta \<Rightarrow> ('x, 'm) StorageTier
     \<Rightarrow> (bytes list \<times> BlockMeta) option res \<times> ('x, 'm) StorageTier" where
  "get_chunks_with_meta E now key meta s =
     io_step (purge_if_expired E now key meta s) (\<lambda>purged s1.
       if purged then (Inr None, s1)
       else (case striping meta of
          Some stripe \<Rightarrow>
            drop_unreadable E key meta (read_striped_chunks E stripe s1) (\<lambda>segments s2.
              (Inr (Some (segments, meta)), count_read (length (concat segments)) s2))
        | None \<Rightarrow>
            io_step (read_single E key meta s1) (\<lambda>d s2. (Inr (map_option (\<lambda>data. ([data], meta)) d), s2))))"

definition get_with_meta ::
  "('x, 'm) StorageEnv \<Rightarrow> int \<Rightarrow> ObjectKey \<Rightarrow> BlockMeta \<Rightarrow> ('x, 'm) StorageTier
     \<Rightarrow> (bytes \<times> BlockMeta) option res \<times> ('x, 'm) StorageTier" where
  "get_with_meta E now key meta s =
     io_step (purge_if_expired E now key meta s) (\<lambda>purged s1.
       if purged then (Inr None, s1)
       else (case striping meta of
          Some stripe \<Rightarrow>
            drop_unreadable E key meta (read_striped E stripe s1) (\<lambda>data s2.
              (Inr (Some (data, meta)), count_read (length data) s2))
        | None \<Rightarrow>
            io_step (read_single E key meta s1) (\<lambda>d s2. (Inr (map_option (\<lambda>data. (data, meta)) d), s2))))"

definition with_block ::
  "('x, 'm) StorageEnv \<Rightarrow> ObjectKey \<Rightarrow> (BlockMeta \<Rightarrow> ('x, 'm) StorageTier \<Rightarrow> 'a option res \<times> ('x, 'm) StorageTier)
     \<Rightarrow> ('x, 'm) StorageTier \<Rightarrow> 'a option res \<times> ('x, 'm) StorageTier" where
  "with_block E key k s =
     io_step (on_meta (mo_get_block (se_mo E) (to_string_key key)) s) (\<lambda>meta s1.
       case meta of None \<Rightarrow> (Inr None, s1) | Some m \<Rightarrow> k m s1)"

definition storage_get ::
  "('x, 'm) StorageEnv \<Rightarrow> int \<Rightarrow> ObjectKey \<Rightarrow> ('x, 'm) StorageTier \<Rightarrow> (bytes \<times> BlockMeta) option res \<times> ('x, 'm) StorageTier" where
  "storage_get E now key = with_block E key (get_with_meta E now key)"

definition storage_get_chunks ::
  "('x, 'm) StorageEnv \<Rightarrow> int \<Rightarrow> ObjectKey \<Rightarrow> ('x, 'm) StorageTier \<Rightarrow> (bytes list \<times> BlockMeta) option res \<times> ('x, 'm) StorageTier" where
  "storage_get_chunks E now key = with_block E key (get_chunks_with_meta E now key)"

text \<open>\<open>exists\<close> reports absence for an expired object even when purging it fails.\<close>

definition storage_exists ::
  "('x, 'm) StorageEnv \<Rightarrow> int \<Rightarrow> ObjectKey \<Rightarrow> ('x, 'm) StorageTier \<Rightarrow> bool res \<times> ('x, 'm) StorageTier" where
  "storage_exists E now key s =
     io_step (on_meta (mo_get_block (se_mo E) (to_string_key key)) s) (\<lambda>m s1.
       case m of
         None \<Rightarrow> (Inr False, s1)
       | Some meta \<Rightarrow>
           if is_expired_at meta now then (Inr False, snd (purge_if_expired E now key meta s1))
           else if (case striping meta of
               Some stripe \<Rightarrow> stripe_files_exist E stripe s1
             | None \<Rightarrow> io_file_exists (se_io E) (meta_path_or_route E key meta) (st_exec s1))
           then (Inr True, s1)
           else io_step (delete_metadata_if_current E key meta s1) (\<lambda>_ s2. (Inr False, s2)))"

fun storage_put_batch ::
  "('x, 'm) StorageEnv \<Rightarrow> int \<Rightarrow> (ObjectKey \<times> bytes \<times> BlockMeta) list \<Rightarrow> ('x, 'm) StorageTier
     \<Rightarrow> unit res list \<times> ('x, 'm) StorageTier" where
  "storage_put_batch E now [] s = ([], s)"
| "storage_put_batch E now ((key, data, meta) # items) s =
     (case storage_put E now key data meta s of
        (r, s1) \<Rightarrow> (case storage_put_batch E now items s1 of (rs, s2) \<Rightarrow> (r # rs, s2)))"


subsection \<open>Batched reads\<close>

text \<open>
  Phase one settles a key at once (\<open>Inl\<close>) or leaves a file to read (\<open>Inr\<close> path, metadata, device);
  phase two reads the files in path order (components compared in turn) and fills the open slots.
\<close>

type_synonym get_result = "(bytes \<times> BlockMeta) option res"

definition batch_slot ::
  "('x, 'm) StorageEnv \<Rightarrow> int \<Rightarrow> ObjectKey \<Rightarrow> ('x, 'm) StorageTier
     \<Rightarrow> (get_result + string \<times> BlockMeta \<times> nat) \<times> ('x, 'm) StorageTier" where
  "batch_slot E now key s =
     (case on_meta (mo_get_block (se_mo E) (to_string_key key)) s of
        (Inl e, s1) \<Rightarrow> (Inl (Inl e), s1)
      | (Inr None, s1) \<Rightarrow> (Inl (Inr None), s1)
      | (Inr (Some meta), s1) \<Rightarrow>
          (case purge_if_expired E now key meta s1 of
             (Inl e, s2) \<Rightarrow> (Inl (Inl e), s2)
           | (Inr True, s2) \<Rightarrow> (Inl (Inr None), s2)
           | (Inr False, s2) \<Rightarrow>
               (case striping meta of
                  Some stripe \<Rightarrow>
                    (case drop_unreadable E key meta (read_striped E stripe s2) (\<lambda>data s3.
                        (Inr (Some (data, meta)), count_read (length data) s3)) of
                       (r, s3) \<Rightarrow> (Inl r, s3))
                | None \<Rightarrow>
                    let path = meta_path_or_route E key meta in
                    if \<not> io_file_exists (se_io E) path (st_exec s2)
                    then (case delete_metadata_if_current E key meta s2 of
                        (Inl e, s3) \<Rightarrow> (Inl (Inl e), s3) | (Inr _, s3) \<Rightarrow> (Inl (Inr None), s3))
                    else (Inr (path, meta, meta_device_or_route E key meta), s2))))"

fun batch_slots ::
  "('x, 'm) StorageEnv \<Rightarrow> int \<Rightarrow> ObjectKey list \<Rightarrow> ('x, 'm) StorageTier
     \<Rightarrow> (get_result + string \<times> BlockMeta \<times> nat) list \<times> ('x, 'm) StorageTier" where
  "batch_slots E now [] s = ([], s)"
| "batch_slots E now (k # ks) s =
     (case batch_slot E now k s of (r, s1) \<Rightarrow> (case batch_slots E now ks s1 of (rs, s2) \<Rightarrow> (r # rs, s2)))"

definition pending_reads :: "(get_result + string \<times> BlockMeta \<times> nat) list \<Rightarrow> (nat \<times> string \<times> BlockMeta \<times> nat) list" where
  "pending_reads slots =
     concat (map (\<lambda>(i, slot). case slot of Inl _ \<Rightarrow> [] | Inr (path, meta, dev) \<Rightarrow> [(i, path, meta, dev)]) (enumerate 0 slots))"

fun fill_slots ::
  "((nat \<times> string \<times> BlockMeta \<times> nat) \<times> bytes res) list \<Rightarrow> get_result option list \<Rightarrow> ('x, 'm) StorageTier
     \<Rightarrow> get_result option list \<times> ('x, 'm) StorageTier" where
  "fill_slots [] results s = (results, s)"
| "fill_slots (((i, path, meta, dev), r) # rest) results s =
     (case r of
        Inr data \<Rightarrow> fill_slots rest (results[i := Some (Inr (Some (data, meta)))])
          (record_device_read dev (length data) (count_read (length data) s))
      | Inl e \<Rightarrow> fill_slots rest (results[i := Some (Inl e)]) s)"

definition storage_get_batch ::
  "('x, 'm) StorageEnv \<Rightarrow> int \<Rightarrow> ObjectKey list \<Rightarrow> ('x, 'm) StorageTier \<Rightarrow> get_result list \<times> ('x, 'm) StorageTier" where
  "storage_get_batch E now keys s =
     (case batch_slots E now keys s of (slots, s1) \<Rightarrow>
        let io_reqs = sort_key (\<lambda>(_, path, _). path_components path) (pending_reads slots);
            settled = map (\<lambda>slot. case slot of Inl r \<Rightarrow> Some r | Inr _ \<Rightarrow> None) slots
        in (case on_exec (io_read_batch (se_io E) (map (\<lambda>(_, path, _). whole_file path) io_reqs)) s1 of
              (read_results, s2) \<Rightarrow>
                (case fill_slots (zip io_reqs read_results) settled s2 of
                   (results, s3) \<Rightarrow>
                     (map (\<lambda>r. case r of Some x \<Rightarrow> x | None \<Rightarrow> Inl (Internal ''missing slot'')) results, s3))))"


subsection \<open>Reading into registered memory\<close>

definition wmul64 :: "nat \<Rightarrow> nat \<Rightarrow> nat" where
  "wmul64 a b = (a * b) mod 2 ^ 64"

definition ptr_stripe_len :: "nat \<Rightarrow> nat \<Rightarrow> nat \<Rightarrow> nat" where
  "ptr_stripe_len i chunk tot = wsub64 (min (wmul64 (Suc i) chunk) tot) (wmul64 i chunk)"

definition ptr_stripe_request ::
  "nat \<Rightarrow> nat \<Rightarrow> nat \<Rightarrow> nat \<Rightarrow> nat \<times> string \<Rightarrow> (IORequest \<times> nat \<times> nat) res" where
  "ptr_stripe_request chunk tot ptr capacity ip =
     (case ip of (i, p) \<Rightarrow>
        let off = wmul64 i chunk;
            aligned = align_up64 (ptr_stripe_len i chunk tot) 4096;
            cap = min (wsub64 capacity off) (align_up64 chunk 4096)
        in if cap < aligned
           then Inl (Internal (''stripe '' @ dec i @ '' cap '' @ dec cap @ '' < aligned '' @ dec aligned))
           else Inr (whole_file p, wadd64 ptr off, cap))"

text \<open>
  The stripes are checked in order; \<open>Inr None\<close> is the answer after a missing, short or corrupt
  stripe, once the metadata entry has been dropped.
\<close>

fun check_ptr_stripes ::
  "('x, 'm) StorageEnv \<Rightarrow> ObjectKey \<Rightarrow> BlockMeta \<Rightarrow> StripingInfo \<Rightarrow> mem \<Rightarrow> nat \<Rightarrow> nat \<Rightarrow> nat res list \<Rightarrow> ('x, 'm) StorageTier
     \<Rightarrow> unit option res \<times> ('x, 'm) StorageTier" where
  "check_ptr_stripes E key meta stripe mem ptr i [] s = (Inr (Some ()), s)"
| "check_ptr_stripes E key meta stripe mem ptr i (r # rs) s =
     (let gone = (\<lambda>s. io_step (delete_metadata_if_current E key meta s) (\<lambda>_ s1. (Inr None, s1)));
          len = ptr_stripe_len i (chunk_size stripe) (total_size stripe)
      in case r of
           Inl e \<Rightarrow> if is_not_found_error e then gone s
             else (Inl (Internal (''read stripe '' @ dec i @ '' into ptr: '' @ kverror_to_string e)), s)
         | Inr n \<Rightarrow>
             let s1 = (if i < length (chunk_devices stripe) then record_device_read (chunk_devices stripe ! i) n s else s) in
             if n \<noteq> len then gone s1
             else (case verify_stripe_bytes E stripe i (load_bytes (wadd64 ptr (wmul64 i (chunk_size stripe))) len mem) of
                 Inl (NotFound _) \<Rightarrow> gone s1
               | _ \<Rightarrow> check_ptr_stripes E key meta stripe mem ptr (Suc i) rs s1))"

definition get_into_ptr_meta ::
  "('x, 'm) StorageEnv \<Rightarrow> ObjectKey \<Rightarrow> BlockMeta \<Rightarrow> nat \<Rightarrow> nat \<Rightarrow> mem \<Rightarrow> ('x, 'm) StorageTier
     \<Rightarrow> ((nat \<times> BlockMeta) option res \<times> mem) \<times> ('x, 'm) StorageTier" where
  "get_into_ptr_meta E key meta ptr capacity mem s =
     (case striping meta of
        None \<Rightarrow>
          let path = meta_path_or_route E key meta in
          if \<not> io_file_exists (se_io E) path (st_exec s)
          then (case delete_metadata_if_current E key meta s of
              (Inl e, s1) \<Rightarrow> ((Inl e, mem), s1) | (Inr _, s1) \<Rightarrow> ((Inr None, mem), s1))
          else (case on_exec (io_read_into_ptr_batch (se_io E) [(whole_file path, ptr, capacity)] mem) s of
              ((results, mem'), s1) \<Rightarrow>
                (case first_result ''empty result'' results of
                   Inl e \<Rightarrow> ((Inl e, mem'), s1)
                 | Inr n \<Rightarrow> ((Inr (Some (n, meta)), mem'),
                     record_device_read (meta_device_or_route E key meta) n (count_read n s1))))
      | Some stripe \<Rightarrow>
          if capacity < total_size stripe
          then ((Inl (Internal (''get_into_ptr: capacity '' @ dec capacity @ '' < total '' @ dec (total_size stripe))), mem), s)
          else (case map_res (ptr_stripe_request (chunk_size stripe) (total_size stripe) ptr capacity)
                (enumerate 0 (chunk_paths stripe)) of
              Inl e \<Rightarrow> ((Inl e, mem), s)
            | Inr reqs \<Rightarrow>
                (case on_exec (io_read_into_ptr_batch (se_io E) reqs mem) s of
                   ((results, mem'), s1) \<Rightarrow>
                     (case check_ptr_stripes E key meta stripe mem' ptr 0 results s1 of
                        (Inl e, s2) \<Rightarrow> ((Inl e, mem'), s2)
                      | (Inr None, s2) \<Rightarrow> ((Inr None, mem'), s2)
                      | (Inr (Some _), s2) \<Rightarrow>
                          ((Inr (Some (total_size stripe, meta)), mem'), count_read (total_size stripe) s2)))))"

definition get_into_ptr ::
  "('x, 'm) StorageEnv \<Rightarrow> int \<Rightarrow> ObjectKey \<Rightarrow> nat \<Rightarrow> nat \<Rightarrow> mem \<Rightarrow> ('x, 'm) StorageTier
     \<Rightarrow> ((nat \<times> BlockMeta) option res \<times> mem) \<times> ('x, 'm) StorageTier" where
  "get_into_ptr E now key ptr capacity mem s =
     (case on_meta (mo_get_block (se_mo E) (to_string_key key)) s of
        (Inl e, s1) \<Rightarrow> ((Inl e, mem), s1)
      | (Inr None, s1) \<Rightarrow> ((Inr None, mem), s1)
      | (Inr (Some meta), s1) \<Rightarrow>
          (case purge_if_expired E now key meta s1 of
             (Inl e, s2) \<Rightarrow> ((Inl e, mem), s2)
           | (Inr True, s2) \<Rightarrow> ((Inr None, mem), s2)
           | (Inr False, s2) \<Rightarrow> get_into_ptr_meta E key meta ptr capacity mem s2))"

end
