(* ===== verification/Memory_Tier.thy ===== *)
theory Memory_Tier
  imports LRU Slab Storage_Tier
begin

text \<open>
  \<open>memory_tier.rs\<close>: the write-through cache in front of the storage tier.  Two LRU caches, one for
  single buffers and one for segment lists, share one byte counter.  Segment lists may live in the
  RDMA slab: such an entry holds views into an extent, and the extent returns to the slab when the
  last handle on it (an \<open>Arc\<close> or a byte view) is dropped.  \<open>mt_handles\<close> lists the live handles.

  The mutexes are not modelled: an operation runs from start to end.  The GDS passthroughs
  (\<open>get_to_gpu\<close>, \<open>put_from_gpu\<close>) are left out with the GDS support itself.
\<close>

section \<open>State\<close>

record CacheEntry =
  ce_data :: bytes
  ce_meta :: BlockMeta

datatype segment = Heap bytes | View SlabExtent nat nat

record ChunksCacheEntry =
  cc_segments :: "segment list"
  cc_meta :: BlockMeta
  cc_total_size :: nat
  cc_slab :: "SlabExtent option"

record ('x, 'm, 'c, 'd) MemoryEnv =
  me_storage :: "('x, 'm) StorageEnv"
  me_capacity_bytes :: nat
  me_cache :: "('c, CacheEntry) lru_ops"
  me_chunks :: "('d, ChunksCacheEntry) lru_ops"

record ('x, 'm, 'c, 'd) MemoryTier =
  mt_storage :: "('x, 'm) StorageTier"
  mt_cache :: 'c
  mt_chunks :: 'd
  mt_current_size :: nat
  mt_hits :: nat
  mt_misses :: nat
  mt_evictions :: nat
  mt_slab :: "RdmaSlab option"
  mt_handles :: "SlabExtent list"

definition memory_new_env ::
  "config \<Rightarrow> ('x, 'm) StorageEnv \<Rightarrow> ('c, CacheEntry) lru_ops \<Rightarrow> ('d, ChunksCacheEntry) lru_ops \<Rightarrow> ('x, 'm, 'c, 'd) MemoryEnv" where
  "memory_new_env cfg E co do =
     \<lparr> me_storage = E, me_capacity_bytes = wmul64 (wmul64 (capacity_mb (cfg_memory_tier cfg)) 1024) 1024,
       me_cache = co, me_chunks = do \<rparr>"

definition memory_new_state :: "('x, 'm, 'c, 'd) MemoryEnv \<Rightarrow> ('x, 'm) StorageTier \<Rightarrow> ('x, 'm, 'c, 'd) MemoryTier" where
  "memory_new_state M st =
     \<lparr> mt_storage = st, mt_cache = lru_new (me_cache M) 1000000, mt_chunks = lru_new (me_chunks M) 1000000,
       mt_current_size = 0, mt_hits = 0, mt_misses = 0, mt_evictions = 0, mt_slab = None, mt_handles = [] \<rparr>"

definition memory_stats :: "('x, 'm, 'c, 'd) MemoryTier \<Rightarrow> nat \<times> nat \<times> nat \<times> nat" where
  "memory_stats s = (mt_hits s, mt_misses s, mt_evictions s, mt_current_size s)"

definition on_storage :: "(('x, 'm) StorageTier \<Rightarrow> 'a \<times> ('x, 'm) StorageTier) \<Rightarrow> ('x, 'm, 'c, 'd) MemoryTier \<Rightarrow> 'a \<times> ('x, 'm, 'c, 'd) MemoryTier" where
  "on_storage f s = (case f (mt_storage s) of (r, st) \<Rightarrow> (r, s\<lparr> mt_storage := st \<rparr>))"

definition hit :: "('x, 'm, 'c, 'd) MemoryTier \<Rightarrow> ('x, 'm, 'c, 'd) MemoryTier" where
  "hit s = s\<lparr> mt_hits := wadd64 (mt_hits s) 1 \<rparr>"

definition miss :: "('x, 'm, 'c, 'd) MemoryTier \<Rightarrow> ('x, 'm, 'c, 'd) MemoryTier" where
  "miss s = s\<lparr> mt_misses := wadd64 (mt_misses s) 1 \<rparr>"


section \<open>Handles on slab extents\<close>

definition drop_handle :: "SlabExtent \<Rightarrow> ('x, 'm, 'c, 'd) MemoryTier \<Rightarrow> ('x, 'm, 'c, 'd) MemoryTier" where
  "drop_handle e s =
     (let hs = remove1 e (mt_handles s) in
      s\<lparr> mt_handles := hs,
         mt_slab := (if e \<in> set hs then mt_slab s else map_option (\<lambda>sl. extent_drop sl e) (mt_slab s)) \<rparr>)"

fun seg_handles :: "segment list \<Rightarrow> SlabExtent list" where
  "seg_handles [] = []"
| "seg_handles (Heap _ # segs) = seg_handles segs"
| "seg_handles (View e _ _ # segs) = e # seg_handles segs"

definition entry_handles :: "ChunksCacheEntry \<Rightarrow> SlabExtent list" where
  "entry_handles en = seg_handles (cc_segments en) @ (case cc_slab en of None \<Rightarrow> [] | Some e \<Rightarrow> [e])"

definition drop_handles :: "SlabExtent list \<Rightarrow> ('x, 'm, 'c, 'd) MemoryTier \<Rightarrow> ('x, 'm, 'c, 'd) MemoryTier" where
  "drop_handles es s = fold drop_handle es s"

definition drop_entries :: "ChunksCacheEntry list \<Rightarrow> ('x, 'm, 'c, 'd) MemoryTier \<Rightarrow> ('x, 'm, 'c, 'd) MemoryTier" where
  "drop_entries ens s = drop_handles (concat (map entry_handles ens)) s"

definition clone_handles :: "SlabExtent list \<Rightarrow> ('x, 'm, 'c, 'd) MemoryTier \<Rightarrow> ('x, 'm, 'c, 'd) MemoryTier" where
  "clone_handles es s = s\<lparr> mt_handles := es @ mt_handles s \<rparr>"

text \<open>What a segment reads as, through the slab memory of the moment.\<close>

definition seg_bytes :: "RdmaSlab option \<Rightarrow> segment \<Rightarrow> bytes" where
  "seg_bytes slab seg =
     (case seg of
        Heap d \<Rightarrow> d
      | View e off len \<Rightarrow> (case slab of None \<Rightarrow> [] | Some sl \<Rightarrow> take len (drop off (extent_bytes sl e))))"

definition segs_bytes :: "RdmaSlab option \<Rightarrow> segment list \<Rightarrow> bytes" where
  "segs_bytes slab segs = concat (map (seg_bytes slab) segs)"


section \<open>Invalidation, eviction, insertion\<close>

definition invalidate_l1_entry :: "('x, 'm, 'c, 'd) MemoryEnv \<Rightarrow> string \<Rightarrow> ('x, 'm, 'c, 'd) MemoryTier \<Rightarrow> ('x, 'm, 'c, 'd) MemoryTier" where
  "invalidate_l1_entry M k s =
     (let (r, c) = lru_pop (me_cache M) k (mt_cache s);
          s1 = s\<lparr> mt_cache := c, mt_current_size :=
            (case r of None \<Rightarrow> mt_current_size s | Some en \<Rightarrow> wsub64 (mt_current_size s) (length (ce_data en))) \<rparr>;
          (r2, d) = lru_pop (me_chunks M) k (mt_chunks s1);
          s2 = s1\<lparr> mt_chunks := d, mt_current_size :=
            (case r2 of None \<Rightarrow> mt_current_size s1 | Some en \<Rightarrow> wsub64 (mt_current_size s1) (cc_total_size en)) \<rparr>
      in drop_entries (case r2 of None \<Rightarrow> [] | Some en \<Rightarrow> [en]) s2)"

text \<open>
  The eviction loops.  The last argument bounds the number of rounds by the number of entries, which
  is enough: every round removes one (\<open>evict_cache_done\<close>, \<open>evict_chunks_done\<close>).
\<close>

fun evict_cache :: "('x, 'm, 'c, 'd) MemoryEnv \<Rightarrow> nat \<Rightarrow> nat \<Rightarrow> ('x, 'm, 'c, 'd) MemoryTier \<Rightarrow> ('x, 'm, 'c, 'd) MemoryTier" where
  "evict_cache M sz 0 s = s"
| "evict_cache M sz (Suc n) s =
     (if me_capacity_bytes M < wadd64 (mt_current_size s) sz \<and> lru_len (me_cache M) (mt_cache s) \<noteq> 0 then
        (case lru_pop_lru (me_cache M) (mt_cache s) of
           (None, c) \<Rightarrow> evict_cache M sz n (s\<lparr> mt_cache := c \<rparr>)
         | (Some (_, evicted), c) \<Rightarrow> evict_cache M sz n
             (s\<lparr> mt_cache := c, mt_current_size := wsub64 (mt_current_size s) (length (ce_data evicted)),
                mt_evictions := wadd64 (mt_evictions s) 1 \<rparr>))
      else s)"

definition evict_one_chunks :: "ChunksCacheEntry \<Rightarrow> 'd \<Rightarrow> ('x, 'm, 'c, 'd) MemoryTier \<Rightarrow> ('x, 'm, 'c, 'd) MemoryTier" where
  "evict_one_chunks evicted d s =
     drop_entries [evicted] (s\<lparr> mt_chunks := d, mt_current_size := wsub64 (mt_current_size s) (cc_total_size evicted),
       mt_evictions := wadd64 (mt_evictions s) 1 \<rparr>)"

fun evict_chunks :: "('x, 'm, 'c, 'd) MemoryEnv \<Rightarrow> nat \<Rightarrow> nat \<Rightarrow> nat \<Rightarrow> ('x, 'm, 'c, 'd) MemoryTier \<Rightarrow> ('x, 'm, 'c, 'd) MemoryTier" where
  "evict_chunks M budget sz 0 s = s"
| "evict_chunks M budget sz (Suc n) s =
     (if budget < wadd64 (mt_current_size s) sz \<and> lru_len (me_chunks M) (mt_chunks s) \<noteq> 0 then
        (case lru_pop_lru (me_chunks M) (mt_chunks s) of
           (None, d) \<Rightarrow> evict_chunks M budget sz n (s\<lparr> mt_chunks := d \<rparr>)
         | (Some (_, evicted), d) \<Rightarrow> evict_chunks M budget sz n (evict_one_chunks evicted d s))
      else s)"

definition cache_insert :: "('x, 'm, 'c, 'd) MemoryEnv \<Rightarrow> string \<Rightarrow> bytes \<Rightarrow> BlockMeta \<Rightarrow> ('x, 'm, 'c, 'd) MemoryTier \<Rightarrow> ('x, 'm, 'c, 'd) MemoryTier" where
  "cache_insert M k data meta s =
     (let sz = length data in
      if me_capacity_bytes M < sz then s
      else
        let s1 = invalidate_l1_entry M k s;
            s2 = evict_cache M sz (lru_len (me_cache M) (mt_cache s1)) s1;
            ((old, _), c) = lru_put (me_cache M) k \<lparr> ce_data = data, ce_meta = meta \<rparr> (mt_cache s2);
            current = (case old of None \<Rightarrow> mt_current_size s2 | Some o' \<Rightarrow> wsub64 (mt_current_size s2) (length (ce_data o')))
        in s2\<lparr> mt_cache := c, mt_current_size := wadd64 current sz \<rparr>)"

text \<open>The last step of both multi-segment insertions; values the cache lets go release their handles.\<close>

definition chunks_put :: "('x, 'm, 'c, 'd) MemoryEnv \<Rightarrow> string \<Rightarrow> ChunksCacheEntry \<Rightarrow> ('x, 'm, 'c, 'd) MemoryTier \<Rightarrow> ('x, 'm, 'c, 'd) MemoryTier" where
  "chunks_put M k en s =
     (let ((old, dropped), d) = lru_put (me_chunks M) k en (mt_chunks s);
          current = (case old of None \<Rightarrow> mt_current_size s | Some o' \<Rightarrow> wsub64 (mt_current_size s) (cc_total_size o'))
      in drop_entries ((case old of None \<Rightarrow> [] | Some o' \<Rightarrow> [o']) @ dropped)
           (s\<lparr> mt_chunks := d, mt_current_size := wadd64 current (cc_total_size en) \<rparr>))"

fun slab_views :: "SlabExtent \<Rightarrow> nat \<Rightarrow> bytes list \<Rightarrow> segment list" where
  "slab_views e off [] = []"
| "slab_views e off (seg # segs) = View e off (length seg) # slab_views e (off + length seg) segs"

definition maybe_slab_backed ::
  "bytes list \<Rightarrow> nat \<Rightarrow> ('x, 'm, 'c, 'd) MemoryTier \<Rightarrow> (segment list \<times> SlabExtent option) \<times> ('x, 'm, 'c, 'd) MemoryTier" where
  "maybe_slab_backed segments tot s =
     (case mt_slab s of
        None \<Rightarrow> ((map Heap segments, None), s)
      | Some slab \<Rightarrow>
          (case slab_alloc slab tot of
             (None, slab1) \<Rightarrow> ((map Heap segments, None), s\<lparr> mt_slab := Some slab1 \<rparr>)
           | (Some ext, slab1) \<Rightarrow>
               ((slab_views ext 0 segments, Some ext),
                s\<lparr> mt_slab := Some (copy_in slab1 ext segments),
                   mt_handles := seg_handles (slab_views ext 0 segments) @ ext # mt_handles s \<rparr>)))"

definition chunks_cache_insert ::
  "('x, 'm, 'c, 'd) MemoryEnv \<Rightarrow> string \<Rightarrow> bytes list \<Rightarrow> BlockMeta \<Rightarrow> nat \<Rightarrow> ('x, 'm, 'c, 'd) MemoryTier \<Rightarrow> ('x, 'm, 'c, 'd) MemoryTier" where
  "chunks_cache_insert M k segments meta tot s =
     (if me_capacity_bytes M < tot then s
      else
        let s1 = invalidate_l1_entry M k s;
            ((segs, slab), s2) = maybe_slab_backed segments tot s1;
            s3 = evict_chunks M (me_capacity_bytes M) tot (lru_len (me_chunks M) (mt_chunks s2)) s2
        in chunks_put M k \<lparr> cc_segments = segs, cc_meta = meta, cc_total_size = tot, cc_slab = slab \<rparr> s3)"

text \<open>
  The RDMA write path hands over an extent that already holds the object.  The caller's handle
  becomes the entry's; the single view is one more.
\<close>

definition insert_chunks_from_slab ::
  "('x, 'm, 'c, 'd) MemoryEnv \<Rightarrow> string \<Rightarrow> SlabExtent \<Rightarrow> BlockMeta \<Rightarrow> ('x, 'm, 'c, 'd) MemoryTier \<Rightarrow> ('x, 'm, 'c, 'd) MemoryTier" where
  "insert_chunks_from_slab M k extent meta s =
     (let tot = ext_len extent in
      if tot = 0 then drop_handles [extent] s
      else
        let s1 = clone_handles [extent] (invalidate_l1_entry M k s);
            slab_cap = (case mt_slab s1 of None \<Rightarrow> 0 | Some sl \<Rightarrow> slab_len sl);
            budget = max (me_capacity_bytes M) slab_cap;
            s2 = (if budget > 0 then evict_chunks M budget tot (lru_len (me_chunks M) (mt_chunks s1)) s1 else s1)
        in chunks_put M k \<lparr> cc_segments = [View extent 0 tot], cc_meta = meta, cc_total_size = tot,
             cc_slab = Some extent \<rparr> s2)"

fun evict_to_free :: "('x, 'm, 'c, 'd) MemoryEnv \<Rightarrow> nat \<Rightarrow> nat \<Rightarrow> nat \<Rightarrow> ('x, 'm, 'c, 'd) MemoryTier \<Rightarrow> ('x, 'm, 'c, 'd) MemoryTier" where
  "evict_to_free M need freed 0 s = s"
| "evict_to_free M need freed (Suc n) s =
     (if freed < need \<and> lru_len (me_chunks M) (mt_chunks s) \<noteq> 0 then
        (case lru_pop_lru (me_chunks M) (mt_chunks s) of
           (None, d) \<Rightarrow> s\<lparr> mt_chunks := d \<rparr>
         | (Some (_, evicted), d) \<Rightarrow>
             evict_to_free M need (wadd64 freed (cc_total_size evicted)) n (evict_one_chunks evicted d s))
      else s)"

definition evict_chunks_cache_to_free :: "('x, 'm, 'c, 'd) MemoryEnv \<Rightarrow> nat \<Rightarrow> ('x, 'm, 'c, 'd) MemoryTier \<Rightarrow> ('x, 'm, 'c, 'd) MemoryTier" where
  "evict_chunks_cache_to_free M need s = evict_to_free M need 0 (lru_len (me_chunks M) (mt_chunks s)) s"


section \<open>Reads\<close>

definition purge_expired_l1_entry ::
  "('x, 'm, 'c, 'd) MemoryEnv \<Rightarrow> int \<Rightarrow> ObjectKey \<Rightarrow> string \<Rightarrow> BlockMeta \<Rightarrow> ('x, 'm, 'c, 'd) MemoryTier \<Rightarrow> unit res \<times> ('x, 'm, 'c, 'd) MemoryTier" where
  "purge_expired_l1_entry M now key k meta s =
     io_step (on_storage (delete_if_expired (me_storage M) now key meta) (invalidate_l1_entry M k s)) (\<lambda>_ s1. (Inr (), s1))"

text \<open>Probing a cache moves the entry to the front.\<close>

definition probe_cache :: "('x, 'm, 'c, 'd) MemoryEnv \<Rightarrow> string \<Rightarrow> ('x, 'm, 'c, 'd) MemoryTier \<Rightarrow> CacheEntry option \<times> ('x, 'm, 'c, 'd) MemoryTier" where
  "probe_cache M k s = (case lru_get (me_cache M) k (mt_cache s) of (r, c) \<Rightarrow> (r, s\<lparr> mt_cache := c \<rparr>))"

definition probe_chunks :: "('x, 'm, 'c, 'd) MemoryEnv \<Rightarrow> string \<Rightarrow> ('x, 'm, 'c, 'd) MemoryTier \<Rightarrow> ChunksCacheEntry option \<times> ('x, 'm, 'c, 'd) MemoryTier" where
  "probe_chunks M k s = (case lru_get (me_chunks M) k (mt_chunks s) of (r, d) \<Rightarrow> (r, s\<lparr> mt_chunks := d \<rparr>))"

text \<open>The read through to the storage tier, filling the cache with what it returns.\<close>

definition fill_single ::
  "('x, 'm, 'c, 'd) MemoryEnv \<Rightarrow> string \<Rightarrow> (('x, 'm) StorageTier \<Rightarrow> (bytes \<times> BlockMeta) option res \<times> ('x, 'm) StorageTier)
     \<Rightarrow> ('x, 'm, 'c, 'd) MemoryTier \<Rightarrow> (bytes \<times> BlockMeta) option res \<times> ('x, 'm, 'c, 'd) MemoryTier" where
  "fill_single M k load s =
     io_step (on_storage load (miss s)) (\<lambda>r s1.
       case r of
         None \<Rightarrow> (Inr None, s1)
       | Some (data, meta) \<Rightarrow> (Inr (Some (data, meta)), cache_insert M k data meta s1))"

definition fill_chunks ::
  "('x, 'm, 'c, 'd) MemoryEnv \<Rightarrow> string \<Rightarrow> (('x, 'm) StorageTier \<Rightarrow> (bytes list \<times> BlockMeta) option res \<times> ('x, 'm) StorageTier)
     \<Rightarrow> ('x, 'm, 'c, 'd) MemoryTier \<Rightarrow> (segment list \<times> BlockMeta) option res \<times> ('x, 'm, 'c, 'd) MemoryTier" where
  "fill_chunks M k load s =
     io_step (on_storage load (miss s)) (\<lambda>r s1.
       case r of
         None \<Rightarrow> (Inr None, s1)
       | Some (segments, meta) \<Rightarrow>
           (Inr (Some (map Heap segments, meta)), chunks_cache_insert M k segments meta (length (concat segments)) s1))"

text \<open>A hit on the multi-segment cache: every returned segment is a new handle.\<close>

definition hit_chunks ::
  "ChunksCacheEntry \<Rightarrow> ('x, 'm, 'c, 'd) MemoryTier \<Rightarrow> (segment list \<times> BlockMeta) \<times> ('x, 'm, 'c, 'd) MemoryTier" where
  "hit_chunks en s = ((cc_segments en, cc_meta en), clone_handles (seg_handles (cc_segments en)) (hit s))"

definition memory_get_with_meta ::
  "('x, 'm, 'c, 'd) MemoryEnv \<Rightarrow> int \<Rightarrow> ObjectKey \<Rightarrow> BlockMeta \<Rightarrow> ('x, 'm, 'c, 'd) MemoryTier
     \<Rightarrow> (bytes \<times> BlockMeta) option res \<times> ('x, 'm, 'c, 'd) MemoryTier" where
  "memory_get_with_meta M now key expected s =
     (let k = to_string_key key; load = fill_single M k (get_with_meta (me_storage M) now key expected) in
      case probe_cache M k s of
        (None, s1) \<Rightarrow> load s1
      | (Some en, s1) \<Rightarrow>
          if is_expired_at (ce_meta en) now
          then io_step (purge_expired_l1_entry M now key k (ce_meta en) s1) (\<lambda>_ s2. (Inr None, s2))
          else if meta_identity_matches (ce_meta en) expected then (Inr (Some (ce_data en, ce_meta en)), hit s1)
          else load s1)"

definition memory_get_chunks_with_meta ::
  "('x, 'm, 'c, 'd) MemoryEnv \<Rightarrow> int \<Rightarrow> ObjectKey \<Rightarrow> BlockMeta \<Rightarrow> ('x, 'm, 'c, 'd) MemoryTier
     \<Rightarrow> (segment list \<times> BlockMeta) option res \<times> ('x, 'm, 'c, 'd) MemoryTier" where
  "memory_get_chunks_with_meta M now key expected s =
     (let k = to_string_key key; load = fill_chunks M k (get_chunks_with_meta (me_storage M) now key expected) in
      case probe_chunks M k s of
        (None, s1) \<Rightarrow> load s1
      | (Some en, s1) \<Rightarrow>
          if is_expired_at (cc_meta en) now
          then io_step (purge_expired_l1_entry M now key k (cc_meta en) s1) (\<lambda>_ s2. (Inr None, s2))
          else if meta_identity_matches (cc_meta en) expected
          then (case hit_chunks en s1 of (r, s2) \<Rightarrow> (Inr (Some r), s2))
          else load s1)"

definition memory_get_chunks ::
  "('x, 'm, 'c, 'd) MemoryEnv \<Rightarrow> int \<Rightarrow> ObjectKey \<Rightarrow> ('x, 'm, 'c, 'd) MemoryTier
     \<Rightarrow> (segment list \<times> BlockMeta) option res \<times> ('x, 'm, 'c, 'd) MemoryTier" where
  "memory_get_chunks M now key s =
     (let k = to_string_key key in
      case probe_chunks M k s of
        (None, s1) \<Rightarrow> fill_chunks M k (storage_get_chunks (me_storage M) now key) s1
      | (Some en, s1) \<Rightarrow>
          if is_expired_at (cc_meta en) now
          then io_step (purge_expired_l1_entry M now key k (cc_meta en) s1) (\<lambda>_ s2. (Inr None, s2))
          else (case hit_chunks en s1 of (r, s2) \<Rightarrow> (Inr (Some r), s2)))"

definition memory_peek_chunks ::
  "('x, 'm, 'c, 'd) MemoryEnv \<Rightarrow> ObjectKey \<Rightarrow> ('x, 'm, 'c, 'd) MemoryTier
     \<Rightarrow> (segment list \<times> BlockMeta) option \<times> ('x, 'm, 'c, 'd) MemoryTier" where
  "memory_peek_chunks M key s =
     (case probe_chunks M (to_string_key key) s of
        (None, s1) \<Rightarrow> (None, s1)
      | (Some en, s1) \<Rightarrow> (case hit_chunks en s1 of (r, s2) \<Rightarrow> (Some r, s2)))"

definition memory_get ::
  "('x, 'm, 'c, 'd) MemoryEnv \<Rightarrow> int \<Rightarrow> ObjectKey \<Rightarrow> ('x, 'm, 'c, 'd) MemoryTier
     \<Rightarrow> (bytes \<times> BlockMeta) option res \<times> ('x, 'm, 'c, 'd) MemoryTier" where
  "memory_get M now key s =
     (let k = to_string_key key in
      case probe_cache M k s of
        (None, s1) \<Rightarrow> fill_single M k (storage_get (me_storage M) now key) s1
      | (Some en, s1) \<Rightarrow>
          if is_expired_at (ce_meta en) now
          then io_step (purge_expired_l1_entry M now key k (ce_meta en) s1) (\<lambda>_ s2. (Inr None, s2))
          else (Inr (Some (ce_data en, ce_meta en)), hit s1))"

definition memory_exists ::
  "('x, 'm, 'c, 'd) MemoryEnv \<Rightarrow> int \<Rightarrow> ObjectKey \<Rightarrow> ('x, 'm, 'c, 'd) MemoryTier \<Rightarrow> bool res \<times> ('x, 'm, 'c, 'd) MemoryTier" where
  "memory_exists M now key s =
     (let k = to_string_key key in
      case probe_cache M k s of
        (Some en, s1) \<Rightarrow>
          if is_expired_at (ce_meta en) now
          then io_step (purge_expired_l1_entry M now key k (ce_meta en) s1) (\<lambda>_ s2. (Inr False, s2))
          else (Inr True, s1)
      | (None, s1) \<Rightarrow>
          (case probe_chunks M k s1 of
             (Some en, s2) \<Rightarrow>
               if is_expired_at (cc_meta en) now
               then io_step (purge_expired_l1_entry M now key k (cc_meta en) s2) (\<lambda>_ s3. (Inr False, s3))
               else (Inr True, s2)
           | (None, s2) \<Rightarrow> on_storage (storage_exists (me_storage M) now key) s2))"

record SlabPlacement =
  sp_view :: SlabView
  sp_meta :: BlockMeta
  sp_pin :: SlabExtent

definition get_chunks_slab ::
  "('x, 'm, 'c, 'd) MemoryEnv \<Rightarrow> int \<Rightarrow> ObjectKey \<Rightarrow> nat \<Rightarrow> ('x, 'm, 'c, 'd) MemoryTier
     \<Rightarrow> SlabPlacement option \<times> ('x, 'm, 'c, 'd) MemoryTier" where
  "get_chunks_slab M now key nic_idx s =
     (let k = to_string_key key in
      case probe_chunks M k s of
        (None, s1) \<Rightarrow> (None, s1)
      | (Some en, s1) \<Rightarrow>
          if is_expired_at (cc_meta en) now
          then (None, snd (on_storage (delete_if_expired (me_storage M) now key (cc_meta en)) (invalidate_l1_entry M k s1)))
          else (case (cc_slab en, mt_slab s1) of
             (Some ext, Some slab) \<Rightarrow>
               (Some \<lparr> sp_view = extent_view slab ext nic_idx, sp_meta = cc_meta en, sp_pin = ext \<rparr>,
                clone_handles [ext] (hit s1))
           | _ \<Rightarrow> (None, s1)))"

definition set_rdma_slab :: "RdmaSlab \<Rightarrow> ('x, 'm, 'c, 'd) MemoryTier \<Rightarrow> (RdmaSlab + unit) \<times> ('x, 'm, 'c, 'd) MemoryTier" where
  "set_rdma_slab slab s = (case mt_slab s of None \<Rightarrow> (Inr (), s\<lparr> mt_slab := Some slab \<rparr>) | Some _ \<Rightarrow> (Inl slab, s))"

definition rdma_slab_get :: "('x, 'm, 'c, 'd) MemoryTier \<Rightarrow> RdmaSlab option" where
  "rdma_slab_get s = mt_slab s"


section \<open>Writes\<close>

text \<open>The metadata a write ended up with: what the store has now, or the caller's.\<close>

definition stored_meta ::
  "('x, 'm, 'c, 'd) MemoryEnv \<Rightarrow> string \<Rightarrow> BlockMeta \<Rightarrow> ('x, 'm, 'c, 'd) MemoryTier \<Rightarrow> BlockMeta res \<times> ('x, 'm, 'c, 'd) MemoryTier" where
  "stored_meta M k fallback s =
     io_step (on_storage (on_meta (mo_get_block (se_mo (me_storage M)) k)) s)
       (\<lambda>b s1. (Inr (case b of None \<Rightarrow> fallback | Some m \<Rightarrow> m), s1))"

definition memory_put ::
  "('x, 'm, 'c, 'd) MemoryEnv \<Rightarrow> int \<Rightarrow> ObjectKey \<Rightarrow> bytes \<Rightarrow> BlockMeta \<Rightarrow> ('x, 'm, 'c, 'd) MemoryTier \<Rightarrow> unit res \<times> ('x, 'm, 'c, 'd) MemoryTier" where
  "memory_put M now key data meta s =
     (let k = to_string_key key in
      io_step (on_storage (storage_put (me_storage M) now key data meta) s) (\<lambda>_ s1.
      io_step (stored_meta M k meta s1) (\<lambda>m s2.
        (Inr (), cache_insert M k data m (invalidate_l1_entry M k s2)))))"

definition memory_put_if_absent ::
  "('x, 'm, 'c, 'd) MemoryEnv \<Rightarrow> int \<Rightarrow> ObjectKey \<Rightarrow> bytes \<Rightarrow> BlockMeta \<Rightarrow> ('x, 'm, 'c, 'd) MemoryTier \<Rightarrow> bool res \<times> ('x, 'm, 'c, 'd) MemoryTier" where
  "memory_put_if_absent M now key data meta s =
     (let k = to_string_key key in
      io_step (on_storage (storage_put_if_absent (me_storage M) now key data meta) s) (\<lambda>inserted s1.
        if \<not> inserted then (Inr False, s1)
        else io_step (stored_meta M k meta s1) (\<lambda>m s2.
          (Inr True, cache_insert M k data m (invalidate_l1_entry M k s2)))))"

definition memory_put_chunks ::
  "('x, 'm, 'c, 'd) MemoryEnv \<Rightarrow> int \<Rightarrow> ObjectKey \<Rightarrow> bytes list \<Rightarrow> BlockMeta \<Rightarrow> ('x, 'm, 'c, 'd) MemoryTier \<Rightarrow> unit res \<times> ('x, 'm, 'c, 'd) MemoryTier" where
  "memory_put_chunks M now key segments meta s =
     (let k = to_string_key key in
      io_step (on_storage (storage_put_chunks (me_storage M) now key segments meta) s) (\<lambda>_ s1.
      io_step (stored_meta M k meta s1) (\<lambda>m s2.
        (Inr (), chunks_cache_insert M k segments m (length (concat segments)) (invalidate_l1_entry M k s2)))))"

definition memory_put_chunks_if_absent ::
  "('x, 'm, 'c, 'd) MemoryEnv \<Rightarrow> int \<Rightarrow> ObjectKey \<Rightarrow> bytes list \<Rightarrow> BlockMeta \<Rightarrow> ('x, 'm, 'c, 'd) MemoryTier \<Rightarrow> bool res \<times> ('x, 'm, 'c, 'd) MemoryTier" where
  "memory_put_chunks_if_absent M now key segments meta s =
     (let k = to_string_key key in
      io_step (on_storage (storage_put_chunks_if_absent (me_storage M) now key segments meta) s) (\<lambda>inserted s1.
        if \<not> inserted then (Inr False, s1)
        else io_step (stored_meta M k meta s1) (\<lambda>m s2.
          (Inr True, chunks_cache_insert M k segments m (length (concat segments)) (invalidate_l1_entry M k s2)))))"

definition memory_delete ::
  "('x, 'm, 'c, 'd) MemoryEnv \<Rightarrow> int \<Rightarrow> ObjectKey \<Rightarrow> ('x, 'm, 'c, 'd) MemoryTier \<Rightarrow> bool res \<times> ('x, 'm, 'c, 'd) MemoryTier" where
  "memory_delete M now key s =
     on_storage (storage_retire (me_storage M) now key) (invalidate_l1_entry M (to_string_key key) s)"

definition memory_invalidate :: "('x, 'm, 'c, 'd) MemoryEnv \<Rightarrow> ObjectKey \<Rightarrow> ('x, 'm, 'c, 'd) MemoryTier \<Rightarrow> ('x, 'm, 'c, 'd) MemoryTier" where
  "memory_invalidate M key s = invalidate_l1_entry M (to_string_key key) s"


section \<open>Batches\<close>

text \<open>
  \<open>get_batch\<close> probes every key first, then drops the expired entries, then fetches the missing keys
  in one storage batch.
\<close>

datatype l1_slot = L1Hit bytes BlockMeta | L1Expired BlockMeta | L1Miss

fun l1_probe ::
  "('x, 'm, 'c, 'd) MemoryEnv \<Rightarrow> int \<Rightarrow> ObjectKey list \<Rightarrow> ('x, 'm, 'c, 'd) MemoryTier \<Rightarrow> l1_slot list \<times> ('x, 'm, 'c, 'd) MemoryTier" where
  "l1_probe M now [] s = ([], s)"
| "l1_probe M now (key # keys) s =
     (case probe_cache M (to_string_key key) s of
        (slot, s1) \<Rightarrow>
          let (r, s2) = (case slot of
              None \<Rightarrow> (L1Miss, miss s1)
            | Some en \<Rightarrow> if is_expired_at (ce_meta en) now then (L1Expired (ce_meta en), s1)
                else (L1Hit (ce_data en) (ce_meta en), hit s1))
          in (case l1_probe M now keys s2 of (rs, s3) \<Rightarrow> (r # rs, s3)))"

fun first_index :: "'a \<Rightarrow> 'a list \<Rightarrow> nat" where
  "first_index x [] = 0"
| "first_index x (y # ys) = (if x = y then 0 else Suc (first_index x ys))"

fun l1_purge ::
  "('x, 'm, 'c, 'd) MemoryEnv \<Rightarrow> int \<Rightarrow> ObjectKey list \<Rightarrow> (ObjectKey \<times> l1_slot) list \<Rightarrow> get_result option list
     \<Rightarrow> ('x, 'm, 'c, 'd) MemoryTier \<Rightarrow> get_result option list \<times> ('x, 'm, 'c, 'd) MemoryTier" where
  "l1_purge M now keys [] results s = (results, s)"
| "l1_purge M now keys ((key, slot) # rest) results s =
     (case slot of
        L1Expired meta \<Rightarrow>
          (case on_storage (delete_if_expired (me_storage M) now key meta) (invalidate_l1_entry M (to_string_key key) s) of
             (Inl e, s1) \<Rightarrow> l1_purge M now keys rest (results[first_index key keys := Some (Inl e)]) s1
           | (Inr _, s1) \<Rightarrow> l1_purge M now keys rest results s1)
      | _ \<Rightarrow> l1_purge M now keys rest results s)"

fun l1_fill ::
  "('x, 'm, 'c, 'd) MemoryEnv \<Rightarrow> ((nat \<times> ObjectKey) \<times> get_result) list \<Rightarrow> get_result option list \<Rightarrow> ('x, 'm, 'c, 'd) MemoryTier
     \<Rightarrow> get_result option list \<times> ('x, 'm, 'c, 'd) MemoryTier" where
  "l1_fill M [] results s = (results, s)"
| "l1_fill M (((i, key), res) # rest) results s =
     l1_fill M rest (results[i := Some res])
       (case res of Inr (Some (data, meta)) \<Rightarrow> cache_insert M (to_string_key key) data meta s | _ \<Rightarrow> s)"

definition slot_result :: "l1_slot \<Rightarrow> get_result option" where
  "slot_result slot = (case slot of L1Hit data meta \<Rightarrow> Some (Inr (Some (data, meta))) | L1Expired _ \<Rightarrow> Some (Inr None) | L1Miss \<Rightarrow> None)"

definition memory_get_batch ::
  "('x, 'm, 'c, 'd) MemoryEnv \<Rightarrow> int \<Rightarrow> ObjectKey list \<Rightarrow> ('x, 'm, 'c, 'd) MemoryTier \<Rightarrow> get_result list \<times> ('x, 'm, 'c, 'd) MemoryTier" where
  "memory_get_batch M now keys s =
     (case l1_probe M now keys s of (slots, s1) \<Rightarrow>
      (case l1_purge M now keys (zip keys slots) (map slot_result slots) s1 of (results, s2) \<Rightarrow>
         let to_fetch = filter (\<lambda>(i, _). slots ! i = L1Miss) (enumerate 0 keys);
             (results', s3) =
               (if to_fetch = [] then (results, s2)
                else (case on_storage (storage_get_batch (me_storage M) now (map snd to_fetch)) s2 of
                   (l2, s3) \<Rightarrow> l1_fill M (zip to_fetch l2) results s3))
         in (map (\<lambda>r. case r of Some x \<Rightarrow> x | None \<Rightarrow> Inr None) results', s3)))"

fun l1_store ::
  "('x, 'm, 'c, 'd) MemoryEnv \<Rightarrow> ((ObjectKey \<times> bytes \<times> BlockMeta) \<times> unit res) list \<Rightarrow> ('x, 'm, 'c, 'd) MemoryTier \<Rightarrow> ('x, 'm, 'c, 'd) MemoryTier" where
  "l1_store M [] s = s"
| "l1_store M (((key, data, meta), r) # rest) s =
     (if \<not> is_ok r then l1_store M rest s
      else let k = to_string_key key;
               (m, s1) = on_storage (on_meta (mo_get_block (se_mo (me_storage M)) k)) s;
               stored = (case m of Inr (Some b) \<Rightarrow> b | _ \<Rightarrow> meta)
           in l1_store M rest (cache_insert M k data stored (invalidate_l1_entry M k s1)))"

definition memory_put_batch ::
  "('x, 'm, 'c, 'd) MemoryEnv \<Rightarrow> int \<Rightarrow> (ObjectKey \<times> bytes \<times> BlockMeta) list \<Rightarrow> ('x, 'm, 'c, 'd) MemoryTier
     \<Rightarrow> unit res list \<times> ('x, 'm, 'c, 'd) MemoryTier" where
  "memory_put_batch M now items s =
     (case on_storage (storage_put_batch (me_storage M) now items) s of
        (rs, s1) \<Rightarrow> (rs, l1_store M (zip items rs) s1))"

end
