(* ===== verification/Storage_Correct.thy ===== *)
theory Storage_Correct
  imports Storage_Tier
begin

text \<open>
  Correctness of the storage tier: stripes are exactly the consecutive chunks of an object; a
  successful write is read back byte for byte; a failed write changes nothing that metadata refers
  to; objects do not disturb each other.
\<close>

section \<open>Stripes are chunks\<close>

definition rest_from :: "bytes list \<Rightarrow> nat \<Rightarrow> nat \<Rightarrow> bytes" where
  "rest_from segments cs co = (if cs < length segments then iov segments cs co else [])"

lemma rest_from_next:
  assumes "cs < length segments"
  shows "rest_from segments cs (length (segments ! cs)) = rest_from segments (Suc cs) 0"
proof (cases "Suc cs < length segments")
  case True
  then have "drop (Suc cs) segments = segments ! Suc cs # drop (Suc (Suc cs)) segments"
    by (simp add: Cons_nth_drop_Suc)
  then show ?thesis using True assms by (simp add: rest_from_def iov_def)
qed (use assms in \<open>simp add: rest_from_def iov_def\<close>)

lemma rest_from_step:
  assumes "cs < length segments" "n \<le> length (segments ! cs) - co" "co \<le> length (segments ! cs)"
  shows "rest_from segments cs co = take n (drop co (segments ! cs)) @ rest_from segments cs (co + n)"
proof -
  have "drop co (segments ! cs) = take n (drop co (segments ! cs)) @ drop (co + n) (segments ! cs)"
    by (metis append_take_drop_id drop_drop add.commute)
  then show ?thesis using assms(1) by (simp add: rest_from_def iov_def flip: append_assoc)
qed

lemma fill_stripe_spec:
  assumes "fill_stripe segments e f cs co acc = (acc', cs', co')"
    "cs < length segments \<Longrightarrow> co \<le> length (segments ! cs)"
  shows "concat acc' = concat acc @ take (e - f) (rest_from segments cs co)
    \<and> rest_from segments cs' co' = drop (e - f) (rest_from segments cs co)
    \<and> (cs' < length segments \<longrightarrow> co' \<le> length (segments ! cs'))"
  using assms
proof (induction segments e f cs co acc arbitrary: acc' cs' co' rule: fill_stripe.induct)
  case (1 segments e f cs co acc)
  note IH = 1(1,2) and run = 1(3) [unfolded fill_stripe.simps [of segments e f cs co acc]] and bound = 1(4)
  show ?case
  proof (cases "f < e \<and> cs < length segments")
    case False
    then show ?thesis using run bound by (auto simp: rest_from_def)
  next
    case True
    then have cond: "f < e \<and> cs < length segments \<and> co \<le> length (segments ! cs)" using bound by simp
    let ?seg = "segments ! cs"
    let ?n = "min (length ?seg - co) (e - f)"
    let ?piece = "if ?n = length ?seg \<and> co = 0 then ?seg else take ?n (drop co ?seg)"
    have piece: "?piece = take ?n (drop co ?seg)" by auto
    have step: "rest_from segments cs co = take ?n (drop co ?seg) @ rest_from segments cs (co + ?n)"
      by (rule rest_from_step) (use cond in auto)
    have len: "length (take ?n (drop co ?seg)) = ?n" using cond by (simp add: min_def)
    have tk: "take (e - f) (rest_from segments cs co) = take ?n (drop co ?seg) @ take (e - (f + ?n)) (rest_from segments cs (co + ?n))"
      "drop (e - f) (rest_from segments cs co) = drop (e - (f + ?n)) (rest_from segments cs (co + ?n))"
      using len by (simp_all add: step)
    show ?thesis
    proof (cases "co + ?n = length ?seg")
      case eq: True
      then have r: "fill_stripe segments e (f + ?n) (Suc cs) 0 (acc @ [?piece]) = (acc', cs', co')"
        using run cond by (simp add: Let_def)
      have "concat acc' = concat (acc @ [?piece]) @ take (e - (f + ?n)) (rest_from segments (Suc cs) 0)
          \<and> rest_from segments cs' co' = drop (e - (f + ?n)) (rest_from segments (Suc cs) 0)
          \<and> (cs' < length segments \<longrightarrow> co' \<le> length (segments ! cs'))"
        by (rule IH(1) [OF cond refl refl refl eq r]) simp
      then show ?thesis
        using tk rest_from_next [of cs segments] cond eq piece by simp
    next
      case ne: False
      then have r: "fill_stripe segments e (f + ?n) cs (co + ?n) (acc @ [?piece]) = (acc', cs', co')"
        using run cond by (simp add: Let_def)
      have "concat acc' = concat (acc @ [?piece]) @ take (e - (f + ?n)) (rest_from segments cs (co + ?n))
          \<and> rest_from segments cs' co' = drop (e - (f + ?n)) (rest_from segments cs (co + ?n))
          \<and> (cs' < length segments \<longrightarrow> co' \<le> length (segments ! cs'))"
        by (rule IH(2) [OF cond refl refl refl ne r]) (use cond in auto)
      then show ?thesis using tk piece by simp
    qed
  qed
qed

lemma stripe_count_eq:
  assumes "tot + chunk < 2 ^ 64" "0 < chunk"
  shows "stripe_count tot chunk = div_ceil tot chunk"
  using assms by (simp add: stripe_count_def div_ceil_def wrap_simps)

lemma div_ceil_less_iff:
  assumes "0 < chunk"
  shows "i < div_ceil tot chunk \<longleftrightarrow> i * chunk < tot"
proof -
  have "i < div_ceil tot chunk \<longleftrightarrow> Suc i * chunk \<le> tot + chunk - 1"
    using assms by (simp add: div_ceil_def less_eq_div_iff_mult_less_eq flip: Suc_le_eq)
  then show ?thesis using assms by auto
qed

lemma stripe_end_eq:
  assumes "tot + chunk < 2 ^ 64" "i * chunk < tot"
  shows "stripe_end_of i chunk tot - i * chunk = min chunk (tot - i * chunk)" "stripe_end_of i chunk tot = min (i * chunk + chunk) tot"
  using assms by (auto simp: stripe_end_of_def wrap_simps)

lemma fill_stripes_spec:
  assumes "tot + chunk < 2 ^ 64" "0 < chunk" "cs < length segments \<Longrightarrow> co \<le> length (segments ! cs)"
    "rest_from segments cs co = drop (i * chunk) (concat segments)" "length (concat segments) = tot"
    "i + n = div_ceil tot chunk"
  shows "map concat (fill_stripes segments chunk tot [i ..< i + n] cs co) = chunks chunk (drop (i * chunk) (concat segments))"
  using assms
proof (induction n arbitrary: i cs co)
  case 0
  then have "tot \<le> i * chunk" using div_ceil_less_iff [of chunk i tot] by simp
  then show ?case using 0 by simp
next
  case (Suc n)
  let ?all = "concat segments"
  have lt: "i * chunk < tot" using Suc.prems div_ceil_less_iff [of chunk i tot] by simp
  obtain st cs' co' where f: "fill_stripe segments (stripe_end_of i chunk tot) (i * chunk) cs co [] = (st, cs', co')"
    by (cases "fill_stripe segments (stripe_end_of i chunk tot) (i * chunk) cs co []") auto
  have d: "take (min chunk (tot - i * chunk)) (drop (i * chunk) ?all) = take chunk (drop (i * chunk) ?all)"
    "drop (min chunk (tot - i * chunk)) (drop (i * chunk) ?all) = drop (Suc i * chunk) ?all"
    using Suc.prems(5) by (auto simp: min_def add.commute)
  note sp = fill_stripe_spec [OF f Suc.prems(3), unfolded stripe_end_eq(1) [OF Suc.prems(1) lt] Suc.prems(4) d]
  have "map concat (fill_stripes segments chunk tot [Suc i ..< Suc i + n] cs' co') = chunks chunk (drop (Suc i * chunk) ?all)"
    by (rule Suc.IH [OF Suc.prems(1,2)]) (use sp Suc.prems in auto)
  moreover have "[i ..< i + Suc n] = i # [Suc i ..< Suc i + n]" by (simp add: upt_conv_Cons)
  moreover have "chunks chunk (drop (i * chunk) ?all) = take chunk (drop (i * chunk) ?all) # chunks chunk (drop (Suc i * chunk) ?all)"
    using lt Suc.prems by (subst chunks_step) (auto simp: add.commute)
  ultimately show ?case using f sp by simp
qed

lemma rebucket_chunks:
  assumes "length (concat segments) + chunk < 2 ^ 64" "0 < chunk"
  shows "map concat (rebucket segments chunk (length (concat segments))) = chunks chunk (concat segments)"
proof -
  have "rest_from segments 0 0 = concat segments"
    by (cases segments) (simp_all add: rest_from_def iov_def)
  then show ?thesis
    using fill_stripes_spec [of "length (concat segments)" chunk 0 segments 0 0 "div_ceil (length (concat segments)) chunk"] assms
    by (simp add: rebucket_def stripe_count_eq)
qed

lemma concat_concat_map: "concat (concat xss) = concat (map concat xss)"
  by (induction xss) simp_all

lemma put_striped_segments:
  assumes "length data + chunk < 2 ^ 64" "0 < chunk"
  shows "map (\<lambda>i. take (stripe_end_of i chunk (length data) - i * chunk) (drop (i * chunk) data))
    [0 ..< stripe_count (length data) chunk] = chunks chunk data"
proof (rule nth_equalityI)
  show "length (map (\<lambda>i. take (stripe_end_of i chunk (length data) - i * chunk) (drop (i * chunk) data))
      [0 ..< stripe_count (length data) chunk]) = length (chunks chunk data)"
    using assms by (simp add: stripe_count_eq length_chunks)
next
  fix i assume "i < length (map (\<lambda>i. take (stripe_end_of i chunk (length data) - i * chunk) (drop (i * chunk) data))
      [0 ..< stripe_count (length data) chunk])"
  then have i: "i < div_ceil (length data) chunk" using assms by (simp add: stripe_count_eq)
  then have "i * chunk < length data" using assms div_ceil_less_iff by blast
  then show "map (\<lambda>i. take (stripe_end_of i chunk (length data) - i * chunk) (drop (i * chunk) data))
      [0 ..< stripe_count (length data) chunk] ! i = chunks chunk data ! i"
    using assms i by (simp add: stripe_count_eq stripe_end_eq(1) nth_chunks length_chunks min_def)
qed

text \<open>
  C15. Rebucketing the segments of a streamed object yields, stripe by stripe, exactly the consecutive
  pieces of the object of the striping chunk size, whatever the segment boundaries (empty segments
  included); nothing is lost, repeated or reordered.
\<close>

theorem rebucket_eq_chunks:
  assumes "length (concat segments) + chunk < 2 ^ 64" "0 < chunk"
  shows "map concat (rebucket segments chunk (length (concat segments))) = chunks chunk (concat segments)
    \<and> concat (concat (rebucket segments chunk (length (concat segments)))) = concat segments"
proof -
  have "concat (concat (rebucket segments chunk (length (concat segments))))
      = concat (map concat (rebucket segments chunk (length (concat segments))))" by (rule concat_concat_map)
  then show ?thesis using rebucket_chunks [OF assms] assms by simp
qed

theorem rebucket_eq_chunks_witness:
  "map concat (rebucket [[1, 2, 3], [], [4], [5, 6, 7]] 3 7) = [[1, 2, 3], [4, 5, 6], [7]]"
proof -
  have len: "length (concat [[1, 2, 3], [], [4], [5, 6, 7 :: u8]]) = 7" by simp
  have "map concat (rebucket [[1, 2, 3], [], [4], [5, 6, 7]] 3 7) = chunks 3 (concat [[1, 2, 3], [], [4], [5, 6, 7]])"
    using rebucket_eq_chunks [of "[[1, 2, 3], [], [4], [5, 6, 7]]" 3] unfolding len by simp
  then show ?thesis by (simp add: chunks.simps)
qed


section \<open>What the metadata refers to\<close>

definition version_paths :: "('x, 'm) StorageEnv \<Rightarrow> ObjectKey \<Rightarrow> nat \<Rightarrow> string set" where
  "version_paths E key g = {physical_path (se_hash E) (se_router E) key d g 1 c | d c. True}"

text \<open>
  \<open>intact c E key m data\<close>: through the file map \<open>c\<close>, the layout \<open>m\<close> of an object yields \<open>data\<close>, and
  every stripe passes its checksum.
\<close>

definition stripes_hold :: "(string \<Rightarrow> bytes option) \<Rightarrow> ('x, 'm) StorageEnv \<Rightarrow> StripingInfo \<Rightarrow> bytes list \<Rightarrow> bool" where
  "stripes_hold c E st cs \<longleftrightarrow> length cs = length (chunk_paths st)
     \<and> (\<forall>i < length cs. managed (chunk_paths st ! i) \<and> c (chunk_paths st ! i) = Some (cs ! i)
          \<and> fits_isize (cs ! i) \<and> verify_stripe_bytes E st i (cs ! i) = Inr ())"

definition intact :: "(string \<Rightarrow> bytes option) \<Rightarrow> ('x, 'm) StorageEnv \<Rightarrow> ObjectKey \<Rightarrow> BlockMeta \<Rightarrow> bytes \<Rightarrow> bool" where
  "intact c E key m data \<longleftrightarrow>
     (case striping m of
        None \<Rightarrow> managed (meta_path_or_route E key m) \<and> c (meta_path_or_route E key m) = Some data \<and> fits_isize data
      | Some st \<Rightarrow> \<exists>cs. stripes_hold c E st cs \<and> data = concat cs)"

definition object_paths :: "('x, 'm) StorageEnv \<Rightarrow> ObjectKey \<Rightarrow> BlockMeta \<Rightarrow> string set" where
  "object_paths E key m =
     (case striping m of None \<Rightarrow> {meta_path_or_route E key m} | Some st \<Rightarrow> set (chunk_paths st))"

lemma intact_cong:
  assumes "intact c E key m data" "\<And>p. p \<in> object_paths E key m \<Longrightarrow> managed p \<Longrightarrow> c' p = c p"
  shows "intact c' E key m data"
proof (cases "striping m")
  case None
  then show ?thesis using assms by (simp add: intact_def object_paths_def)
next
  case (Some st)
  then obtain cs where cs: "stripes_hold c E st cs" "data = concat cs" using assms(1) by (auto simp: intact_def)
  have "stripes_hold c' E st cs"
    using cs(1) assms(2) Some by (auto simp: stripes_hold_def object_paths_def)
  then show ?thesis using cs(2) Some by (auto simp: intact_def)
qed

lemma physical_path_managed: "managed (physical_path H r k d g l c)"
proof -
  have "\<exists>q. physical_path H r k d g l c = q @ ''.bin''"
  proof -
    have "\<exists>q. path_join b (s @ ''.bin'') = q @ ''.bin''" for b s
      by (auto simp: path_join_def simp flip: append_assoc)
    moreover have "\<exists>s. digest_file H k @ version_suffix g l c = s @ ''.bin''"
      by (simp add: version_suffix_def flip: append_assoc)
    ultimately show ?thesis unfolding physical_path_eq by metis
  qed
  then show ?thesis by (auto simp: managed_def)
qed

lemma version_paths_managed: "p \<in> version_paths E key g \<Longrightarrow> managed p"
  by (auto simp: version_paths_def physical_path_managed)

lemma version_paths_disjoint:
  assumes "hex_digest (se_hash E)" "p \<in> version_paths E key g" "p \<in> version_paths E key' g'"
  shows "object_digest (se_hash E) key = object_digest (se_hash E) key' \<and> g = g'"
proof -
  obtain d c d' c' where "p = physical_path (se_hash E) (se_router E) key d g 1 c"
    "p = physical_path (se_hash E) (se_router E) key' d' g' 1 c'"
    using assms(2,3) unfolding version_paths_def mem_Collect_eq by (elim exE conjE)
  then have "path_components (physical_path (se_hash E) (se_router E) key d g 1 c)
      = path_components (physical_path (se_hash E) (se_router E) key' d' g' 1 c')" by simp
  from physical_path_inject [OF assms(1) this] show ?thesis by blast
qed

lemma single_layout_path:
  "single_layout E key m = (dev, path) \<Longrightarrow> layout_version m = 1 \<Longrightarrow> path \<in> version_paths E key (object_generation m)"
  by (auto simp: single_layout_def Let_def version_paths_def physical_path_def intro!: exI [of _ None])

lemma stripe_paths_in:
  assumes "p \<in> set (stripe_paths E key m n)" "layout_version m = 1"
  shows "p \<in> version_paths E key (object_generation m)"
proof -
  obtain i where "p = chunk_versioned_path (se_hash E) (se_router E) key i (chunk_device (se_hash E) (se_router E) key i)
      (object_generation m) 1" using assms by (auto simp: stripe_paths_def)
  then have "p = physical_path (se_hash E) (se_router E) key (chunk_device (se_hash E) (se_router E) key i)
      (object_generation m) 1 (Some i)" by (simp add: physical_path_def)
  then show ?thesis unfolding version_paths_def by blast
qed

lemma stripe_paths_distinct:
  assumes "hex_digest (se_hash E)"
  shows "distinct (stripe_paths E key m n)"
proof -
  have "i = j" if "chunk_versioned_path (se_hash E) (se_router E) key i d (object_generation m) (layout_version m)
      = chunk_versioned_path (se_hash E) (se_router E) key j d' (object_generation m) (layout_version m)" for i j d d'
    using physical_path_inject [OF assms, of "se_router E" key d "object_generation m" "layout_version m" "Some i"
        "se_router E" key d' "object_generation m" "layout_version m" "Some j"] that
    by (simp add: physical_path_def)
  then show ?thesis by (auto simp: stripe_paths_def distinct_map intro!: inj_onI)
qed


section \<open>Frame facts of the state operations\<close>

lemma counters_frame [simp]:
  "st_exec (record_device_read d n s) = st_exec s" "st_meta (record_device_read d n s) = st_meta s"
  "st_exec (record_device_write d n s) = st_exec s" "st_meta (record_device_write d n s) = st_meta s"
  "st_exec (record_device_delete d n s) = st_exec s" "st_meta (record_device_delete d n s) = st_meta s"
  "st_exec (count_read n s) = st_exec s" "st_meta (count_read n s) = st_meta s"
  "st_exec (count_write n s) = st_exec s" "st_meta (count_write n s) = st_meta s"
  "st_exec (count_striped_write n s) = st_exec s" "st_meta (count_striped_write n s) = st_meta s"
  by (simp_all add: record_device_read_def record_device_write_def record_device_delete_def count_read_def
      count_write_def count_striped_write_def Let_def)

lemma blocks_spec [simp]:
  "mv_blocks (spec_set k b v) = (mv_blocks v)(k := b)"
  "mv_blocks (spec_publish t k b nb v) = (mv_blocks v)(k := b)"
  by (simp_all add: spec_set_def spec_publish_def spec_enqueue_def split: option.splits)

lemma snd_io_step_map [simp]: "snd (io_step p (\<lambda>x s. (Inr (f x), s))) = snd p"
  by (cases p; cases "fst p") (simp_all add: io_step_def)

lemma on_exec_eq: "on_exec f s = (r, s') \<longleftrightarrow> (\<exists>x. f (st_exec s) = (r, x) \<and> s' = s\<lparr> st_exec := x \<rparr>)"
  by (auto simp: on_exec_def split: prod.splits)

lemma on_meta_eq: "on_meta f s = (r, s') \<longleftrightarrow> (\<exists>m. f (st_meta s) = (r, m) \<and> s' = s\<lparr> st_meta := m \<rparr>)"
  by (auto simp: on_meta_def split: prod.splits)


section \<open>The tier over any executor and any metadata store\<close>

text \<open>
  \<open>stream_law\<close> is the documented behaviour of the streaming hasher: feeding the segments in turn
  gives the hash of their concatenation.
\<close>

locale storage_system = io: io_executor "se_io E" content quiet + ms: block_store "se_mo E" view minv tid
  for E :: "('x, 'm) StorageEnv" and content :: "'x \<Rightarrow> string \<Rightarrow> bytes option" and quiet :: "'x \<Rightarrow> bool"
    and view :: "'m \<Rightarrow> meta_view" and minv :: "'m \<Rightarrow> bool" and tid :: task_ids +
  assumes devices_law: "router_ok (se_router E)"
    and digest_law: "hex_digest (se_hash E)"
    and chunk_law: "0 < se_striping_chunk_size E"
    and stream_law: "se_hash64_stream E segs = hash64 (se_hash E) (concat segs)"
begin

abbreviation files :: "('x, 'm) StorageTier \<Rightarrow> string \<Rightarrow> bytes option" where
  "files s \<equiv> content (st_exec s)"

abbreviation mview :: "('x, 'm) StorageTier \<Rightarrow> meta_view" where
  "mview s \<equiv> view (st_meta s)"

lemma prepare_spec:
  assumes "minv (st_meta s)" "gen_room (to_string_key key) (mview s)" "prepare_write_meta E key meta n s = (r, s')"
  shows "st_exec s' = st_exec s" "minv (st_meta s')" "mv_blocks (mview s') = mv_blocks (mview s)"
    "r = Inr m \<Longrightarrow> object_generation m = Suc (gen_base (to_string_key key) (mview s)) \<and> layout_version m = 1
       \<and> (\<exists>h e g. m = meta\<lparr> bm_size := n, object_generation := g, layout_version := 1, object_handle := h, content_etag := e \<rparr>)"
proof -
  obtain x m1 where x: "mo_next_generation (se_mo E) (to_string_key key) (st_meta s) = (x, m1)" by fastforce
  have law: "step_ok view minv (st_meta s) (\<lambda>g v. (g, v) = spec_next_generation (to_string_key key) (mview s)) (x, m1)"
    using ms.next_gen_law [OF assms(1,2)] by (simp add: x)
  show "st_exec s' = st_exec s" "minv (st_meta s')" "mv_blocks (mview s') = mv_blocks (mview s)"
    using assms(3) law x
    by (cases x; auto simp: prepare_write_meta_def on_meta_def io_step_def step_ok_def spec_next_generation_def Let_def)+
  assume "r = Inr m"
  then obtain g where g: "x = Inr g" "g = Suc (gen_base (to_string_key key) (mview s))"
    "m = meta\<lparr> bm_size := n, object_generation := g, layout_version := 1,
      object_handle := storage_object_handle (se_hash E) key g 1 n (created_at meta),
      content_etag := storage_content_etag (se_hash E) key g n (created_at meta) \<rparr>"
    using assms(3) law x
    by (cases x) (auto simp: prepare_write_meta_def on_meta_def io_step_def step_ok_def spec_next_generation_def Let_def)
  then show "object_generation m = Suc (gen_base (to_string_key key) (mview s)) \<and> layout_version m = 1
       \<and> (\<exists>h e g. m = meta\<lparr> bm_size := n, object_generation := g, layout_version := 1, object_handle := h, content_etag := e \<rparr>)"
    by auto
qed

lemma delete_on_device_spec:
  assumes "managed p" "delete_file_on_device E d p s = (r, s')"
  shows "st_meta s' = st_meta s" "managed q \<Longrightarrow> q \<noteq> p \<Longrightarrow> files s' q = files s q"
proof -
  obtain x x1 where x: "io_delete_file (se_io E) p (st_exec s) = (x, x1)" by fastforce
  have e: "st_meta s' = st_meta s" "st_exec s' = x1"
    using assms(2) x by (auto simp: delete_file_on_device_def on_exec_def Let_def split: sum.splits)
  then show "st_meta s' = st_meta s" "managed q \<Longrightarrow> q \<noteq> p \<Longrightarrow> files s' q = files s q"
    using io.delete_law [OF assms(1) x] by simp_all
qed

lemma delete_raw_spec:
  assumes "managed p"
  shows "st_meta (snd (on_exec (io_delete_file (se_io E) p) s)) = st_meta s"
    "managed q \<Longrightarrow> q \<noteq> p \<Longrightarrow> files (snd (on_exec (io_delete_file (se_io E) p) s)) q = files s q"
proof -
  obtain x x1 where x: "io_delete_file (se_io E) p (st_exec s) = (x, x1)" by fastforce
  then show "st_meta (snd (on_exec (io_delete_file (se_io E) p) s)) = st_meta s"
    "managed q \<Longrightarrow> q \<noteq> p \<Longrightarrow> files (snd (on_exec (io_delete_file (se_io E) p) s)) q = files s q"
    using io.delete_law [OF assms x] by (simp_all add: on_exec_def)
qed

lemma delete_paths_spec:
  assumes "\<forall>p \<in> set ps. managed p"
  shows "st_meta (delete_paths_best_effort E ps s) = st_meta s"
    "managed q \<Longrightarrow> q \<notin> set ps \<Longrightarrow> files (delete_paths_best_effort E ps s) q = files s q"
proof -
  have "st_meta (delete_paths_best_effort E ps s) = st_meta s
      \<and> (managed q \<and> q \<notin> set ps \<longrightarrow> files (delete_paths_best_effort E ps s) q = files s q)"
    using assms
  proof (induction ps arbitrary: s)
    case (Cons p ps)
    let ?s1 = "snd (case device_id_for_path (se_router E) p of
        Some d \<Rightarrow> delete_file_on_device E d p s | None \<Rightarrow> on_exec (io_delete_file (se_io E) p) s)"
    have p: "managed p" using Cons.prems by simp
    have "st_meta ?s1 = st_meta s \<and> (managed q \<and> q \<noteq> p \<longrightarrow> files ?s1 q = files s q)"
    proof (cases "device_id_for_path (se_router E) p")
      case None
      then show ?thesis using delete_raw_spec [OF p] by simp
    next
      case (Some d)
      then show ?thesis
        using delete_on_device_spec [OF p, of d s "fst (delete_file_on_device E d p s)" "snd (delete_file_on_device E d p s)"]
        by simp
    qed
    then show ?case using Cons.IH [of ?s1] Cons.prems by simp
  qed simp
  then show "st_meta (delete_paths_best_effort E ps s) = st_meta s"
    "managed q \<Longrightarrow> q \<notin> set ps \<Longrightarrow> files (delete_paths_best_effort E ps s) q = files s q" by blast+
qed

lemma delete_stripes_spec:
  assumes "\<forall>p \<in> set ps. managed p"
  shows "st_meta (delete_stripes E ps s) = st_meta s
    \<and> (managed q \<and> q \<notin> set ps \<longrightarrow> files (delete_stripes E ps s) q = files s q)"
  using assms
proof (induction ps arbitrary: s)
  case (Cons p ps)
  then show ?case using delete_raw_spec [of p] by simp
qed simp

lemma commit_spec:
  assumes "minv (st_meta s)" "\<forall>p \<in> set ps. managed p"
    "commit_metadata_with_rollback E now key m ps if_absent s = (r, s')"
  shows "minv (st_meta s')" "managed q \<Longrightarrow> q \<notin> set ps \<Longrightarrow> files s' q = files s q"
    "r \<noteq> Inr True \<Longrightarrow> mview s' = mview s"
    "r = Inr True \<Longrightarrow> st_exec s' = st_exec s \<and> mview s' =
       (if if_absent then spec_set (to_string_key key) (Some m) (mview s)
        else spec_publish tid (to_string_key key) (Some m) (gc_not_before E now) (mview s))"
    "r = Inr True \<Longrightarrow> if_absent \<Longrightarrow> mv_blocks (mview s) (to_string_key key) = None"
    "r = Inr False \<Longrightarrow> if_absent \<and> mv_blocks (mview s) (to_string_key key) \<noteq> None"
proof -
  let ?k = "to_string_key key" and ?nb = "gc_not_before E now"
  let ?att = "if if_absent then on_meta (mo_put_block_if_absent (se_mo E) ?k m) s
    else io_step (on_meta (mo_replace_block (se_mo E) ?k m ?nb) s) (\<lambda>_ s1. (Inr True, s1))"
  obtain x s1 where t: "?att = (x, s1)" by fastforce
  have a: "st_exec s1 = st_exec s \<and> minv (st_meta s1) \<and> (x \<noteq> Inr True \<longrightarrow> mview s1 = mview s)
      \<and> (x = Inr True \<longrightarrow> mview s1 = (if if_absent then spec_set ?k (Some m) (mview s)
          else spec_publish tid ?k (Some m) ?nb (mview s)) \<and> (if_absent \<longrightarrow> mv_blocks (mview s) ?k = None))
      \<and> (x = Inr False \<longrightarrow> if_absent \<and> mv_blocks (mview s) ?k \<noteq> None)"
  proof (cases if_absent)
    case True
    obtain y m1 where y: "mo_put_block_if_absent (se_mo E) ?k m (st_meta s) = (y, m1)" by fastforce
    have "y = x" "s1 = s\<lparr> st_meta := m1 \<rparr>" using t True y by (simp_all add: on_meta_def)
    then show ?thesis
      using ms.if_absent_law [OF assms(1), of ?k m] y True
      by (cases x) (auto simp: step_ok_def split: if_splits)
  next
    case False
    obtain y m1 where y: "mo_replace_block (se_mo E) ?k m ?nb (st_meta s) = (y, m1)" by fastforce
    have "x = (case y of Inl e \<Rightarrow> Inl e | Inr _ \<Rightarrow> Inr True)" "s1 = s\<lparr> st_meta := m1 \<rparr>"
      using t False y by (auto simp: on_meta_def io_step_def split: sum.splits)
    then show ?thesis
      using ms.replace_law [OF assms(1), of ?k m ?nb] y False
      by (cases y) (auto simp: step_ok_def)
  qed
  have e: "r = x" "s' = (if x = Inr True then s1 else delete_paths_best_effort E ps s1)"
    using assms(3) t by (auto simp: commit_metadata_with_rollback_def split: sum.splits bool.splits if_splits)
  note d = delete_paths_spec [OF assms(2)]
  show "minv (st_meta s')" "r \<noteq> Inr True \<Longrightarrow> mview s' = mview s"
    "r = Inr True \<Longrightarrow> st_exec s' = st_exec s \<and> mview s' =
       (if if_absent then spec_set ?k (Some m) (mview s) else spec_publish tid ?k (Some m) ?nb (mview s))"
    "r = Inr True \<Longrightarrow> if_absent \<Longrightarrow> mv_blocks (mview s) ?k = None"
    "r = Inr False \<Longrightarrow> if_absent \<and> mv_blocks (mview s) ?k \<noteq> None"
    unfolding e using a d(1) by auto
  show "managed q \<Longrightarrow> q \<notin> set ps \<Longrightarrow> files s' q = files s q"
    unfolding e using a d(2) by auto
qed

lemma write_on_device_spec:
  assumes "managed p" "fits_isize d" "write_file_on_device E dev p d s = (r, s')"
  shows "st_meta s' = st_meta s" "managed q \<Longrightarrow> q \<noteq> p \<Longrightarrow> files s' q = files s q"
    "files s' p = (if is_ok r then Some d else files s p)"
proof -
  obtain x x1 where x: "io_write_file (se_io E) p d (st_exec s) = (x, x1)" by fastforce
  have e: "st_meta s' = st_meta s" "st_exec s' = x1" "is_ok r = is_ok x"
    using assms(3) x by (auto simp: write_file_on_device_def on_exec_def split: sum.splits)
  have "written content [(p, d)] (st_exec s) [x] x1"
    by (rule io.write_file_law [OF _ x]) (use assms in \<open>simp add: good_jobs_def\<close>)
  then show "st_meta s' = st_meta s" "managed q \<Longrightarrow> q \<noteq> p \<Longrightarrow> files s' q = files s q"
    "files s' p = (if is_ok r then Some d else files s p)"
    using e by (simp_all add: written_def)
qed

text \<open>
  \<open>put_outcome\<close>: what a write of \<open>data\<close> under \<open>key\<close> may do.  Files of other versions stay, the
  metadata changes only on success, and then the published layout yields \<open>data\<close>.
\<close>

definition put_outcome ::
  "ObjectKey \<Rightarrow> bytes \<Rightarrow> BlockMeta \<Rightarrow> int \<Rightarrow> bool \<Rightarrow> ('x, 'm) StorageTier \<Rightarrow> bool res \<Rightarrow> ('x, 'm) StorageTier \<Rightarrow> bool" where
  "put_outcome key data meta now if_absent s r s' \<longleftrightarrow>
     minv (st_meta s')
     \<and> (\<forall>q. managed q \<and> q \<notin> version_paths E key (Suc (gen_base (to_string_key key) (mview s))) \<longrightarrow> files s' q = files s q)
     \<and> (r \<noteq> Inr True \<longrightarrow> mv_blocks (mview s') = mv_blocks (mview s))
     \<and> (r = Inr True \<longrightarrow> (\<exists>m. mv_blocks (mview s') = (mv_blocks (mview s))(to_string_key key \<mapsto> m)
          \<and> intact (files s') E key m data \<and> bm_size m = length data
          \<and> object_paths E key m \<subseteq> version_paths E key (object_generation m)
          \<and> object_generation m = Suc (gen_base (to_string_key key) (mview s))
          \<and> created_at m = created_at meta \<and> ttl_seconds m = ttl_seconds meta
          \<and> (if_absent \<longrightarrow> mv_blocks (mview s) (to_string_key key) = None)))
     \<and> (r = Inr False \<longrightarrow> if_absent \<and> mv_blocks (mview s) (to_string_key key) \<noteq> None)"

lemma put_outcome_fail:
  assumes "minv (st_meta s')" "mv_blocks (mview s') = mv_blocks (mview s)"
    "\<And>q. managed q \<Longrightarrow> q \<notin> version_paths E key (Suc (gen_base (to_string_key key) (mview s))) \<Longrightarrow> files s' q = files s q"
  shows "put_outcome key data meta now if_absent s (Inl e) s'"
  using assms by (simp add: put_outcome_def)

lemma put_outcome_success:
  assumes "minv (st_meta s')" "mv_blocks (mview s') = (mv_blocks (mview s))(to_string_key key \<mapsto> m)"
    "\<And>q. managed q \<Longrightarrow> q \<notin> version_paths E key (Suc (gen_base (to_string_key key) (mview s))) \<Longrightarrow> files s' q = files s q"
    "intact (files s') E key m data" "bm_size m = length data"
    "object_paths E key m \<subseteq> version_paths E key (Suc (gen_base (to_string_key key) (mview s)))"
    "object_generation m = Suc (gen_base (to_string_key key) (mview s))"
    "created_at m = created_at meta" "ttl_seconds m = ttl_seconds meta"
    "if_absent \<longrightarrow> mv_blocks (mview s) (to_string_key key) = None"
  shows "put_outcome key data meta now if_absent s (Inr True) s'"
  unfolding put_outcome_def
  by (intro conjI impI allI exI [of _ m]) (use assms in simp_all)

text \<open>The last step of every write: publish, and count on success.\<close>

lemma publish_outcome:
  assumes s1: "minv (st_meta s1)" "mv_blocks (mview s1) = mv_blocks (mview s)"
    "\<And>q. managed q \<Longrightarrow> q \<notin> version_paths E key g \<Longrightarrow> files s1 q = files s q"
    and g: "g = Suc (gen_base (to_string_key key) (mview s))"
    and ps: "set ps \<subseteq> version_paths E key g"
    and m: "intact (files s1) E key m data" "bm_size m = length data" "object_paths E key m \<subseteq> version_paths E key g"
      "object_generation m = g" "created_at m = created_at meta" "ttl_seconds m = ttl_seconds meta"
    and cnt: "\<And>s. st_exec (cnt s) = st_exec s" "\<And>s. st_meta (cnt s) = st_meta s"
    and run: "io_step (commit_metadata_with_rollback E now key m ps if_absent s1)
      (\<lambda>committed s2. if committed then (Inr True, cnt s2) else (Inr False, s2)) = (r, s')"
  shows "put_outcome key data meta now if_absent s r s'"
proof -
  obtain x s2 where c: "commit_metadata_with_rollback E now key m ps if_absent s1 = (x, s2)" by fastforce
  have managed: "\<forall>p \<in> set ps. managed p" using ps version_paths_managed by blast
  note sp = commit_spec [OF s1(1) managed c]
  have fr: "files s2 q = files s q" if "managed q" "q \<notin> version_paths E key g" for q
    using sp(2) [OF that(1)] s1(3) [OF that] that(2) ps by auto
  show ?thesis
  proof (cases "x = Inr True")
    case True
    then have rs: "r = Inr True" "s' = cnt s2" using run c by (auto simp: io_step_def)
    have "st_exec s2 = st_exec s1" "mv_blocks (mview s2) = (mv_blocks (mview s))(to_string_key key \<mapsto> m)"
      using sp(4) [OF True] s1(2) by auto
    moreover have "if_absent \<longrightarrow> mv_blocks (mview s) (to_string_key key) = None" using sp(5) [OF True] s1(2) by simp
    ultimately show ?thesis
      unfolding rs(1) by (intro put_outcome_success [where m = m]) (use m fr sp(1) g rs(2) in \<open>simp_all add: cnt\<close>)
  next
    case False
    then have "r = x" "s' = s2" using run c by (auto simp: io_step_def split: sum.splits)
    then show ?thesis
      unfolding put_outcome_def using False sp(1,3,6) fr s1(2) g by auto
  qed
qed

lemma put_single_outcome:
  assumes "minv (st_meta s)" "gen_room (to_string_key key) (mview s)" "fits_isize data"
    "put_single E now key data meta if_absent s = (r, s')"
  shows "put_outcome key data meta now if_absent s r s'"
proof -
  let ?g = "Suc (gen_base (to_string_key key) (mview s))"
  obtain x s1 where x: "prepare_write_meta E key meta (length data) s = (x, s1)" by fastforce
  note pr = prepare_spec [OF assms(1,2) x]
  show ?thesis
  proof (cases x)
    case (Inl e)
    then show ?thesis using assms(4) x pr by (auto simp: put_single_def io_step_def intro!: put_outcome_fail)
  next
    case (Inr m)
    note mm = pr(4) [OF Inr]
    obtain dev path where l: "single_layout E key m = (dev, path)" by fastforce
    have path: "path \<in> version_paths E key ?g" using single_layout_path [OF l] mm by simp
    then have mp: "managed path" by (rule version_paths_managed)
    obtain y s2 where y: "write_file_on_device E dev path data s1 = (y, s2)" by fastforce
    note wr = write_on_device_spec [OF mp assms(3) y]
    have fr: "files s2 q = files s q" if "managed q" "q \<notin> version_paths E key ?g" for q
      using wr(2) [OF that(1)] that path pr(1) by auto
    show ?thesis
    proof (cases y)
      case (Inl e)
      then show ?thesis
        using assms(4) x Inr l y fr pr wr by (auto simp: put_single_def io_step_def intro!: put_outcome_fail)
    next
      case (Inr u)
      let ?m = "single_meta m dev path (length data)"
      have np: "path \<noteq> []" using mp by (auto simp: managed_def)
      have f: "files s2 path = Some data" using wr(3) Inr by simp
      have mp': "meta_path_or_route E key ?m = path" using np by (simp add: meta_path_or_route_def single_meta_def)
      have st: "striping ?m = None" by (simp add: single_meta_def)
      have intact: "intact (files s2) E key ?m data"
        using f mp assms(3) by (simp add: intact_def st mp')
      have run: "io_step (commit_metadata_with_rollback E now key ?m [path] if_absent s2)
          (\<lambda>committed s3. if committed then (Inr True, count_write (length data) s3) else (Inr False, s3)) = (r, s')"
        using assms(4) x \<open>x = Inr m\<close> l y Inr by (simp add: put_single_def io_step_def)
      have "created_at m = created_at meta" "ttl_seconds m = ttl_seconds meta" using mm by auto
      then have fields: "bm_size ?m = length data" "object_generation ?m = ?g" "created_at ?m = created_at meta"
        "ttl_seconds ?m = ttl_seconds meta" "object_paths E key ?m = {path}"
        using mm by (simp_all add: object_paths_def st mp') (simp_all add: single_meta_def)
      show ?thesis
        by (rule publish_outcome [OF _ _ fr refl _ intact _ _ _ _ _ _ _ run]) (simp_all add: pr wr fields path)
    qed
  qed
qed

lemma settle_writes_spec:
  assumes "\<forall>p \<in> set paths. managed p" "settle_writes E devs paths i rs s = (r, s')"
  shows "st_meta s' = st_meta s" "managed q \<Longrightarrow> q \<notin> set paths \<Longrightarrow> files s' q = files s q"
    "is_ok r \<Longrightarrow> st_exec s' = st_exec s \<and> list_all is_ok rs"
proof -
  have "st_meta s' = st_meta s \<and> (managed q \<and> q \<notin> set paths \<longrightarrow> files s' q = files s q)
      \<and> (is_ok r \<longrightarrow> st_exec s' = st_exec s \<and> list_all is_ok rs)"
    using assms(2)
  proof (induction rs arbitrary: i s)
    case (Cons x rs)
    show ?case
    proof (cases x)
      case (Inl e)
      have t: "\<forall>p \<in> set (take i paths). managed p" using assms(1) by (auto dest: in_set_takeD)
      have "r = Inl e" "s' = delete_stripes E (take i paths) s" using Cons.prems Inl by simp_all
      then show ?thesis using delete_stripes_spec [OF t] by (auto dest: in_set_takeD)
    next
      case (Inr u)
      then show ?thesis using Cons.IH Cons.prems by fastforce
    qed
  qed simp
  then show "st_meta s' = st_meta s" "managed q \<Longrightarrow> q \<notin> set paths \<Longrightarrow> files s' q = files s q"
    "is_ok r \<Longrightarrow> st_exec s' = st_exec s \<and> list_all is_ok rs" by blast+
qed

text \<open>
  Publishing stripes that a batch has attempted: \<open>cs\<close> are the pieces written to \<open>paths\<close>.
\<close>

lemma publish_striped_outcome:
  assumes s1: "minv (st_meta s1)" "mv_blocks (mview s1) = mv_blocks (mview s)" "st_exec s1 = st_exec s"
    and m: "object_generation m = Suc (gen_base (to_string_key key) (mview s))" "layout_version m = 1"
      "created_at m = created_at meta" "ttl_seconds m = ttl_seconds meta"
    and paths: "paths = stripe_paths E key m (length cs)"
    and wr: "written content (zip paths cs) (st_exec s1) results x" "s2 = s1\<lparr> st_exec := x \<rparr>"
    and small: "\<And>c. c \<in> set cs \<Longrightarrow> fits_isize c"
    and sums: "se_verify_stripe_checksums E \<Longrightarrow> sums = map (checksum_bytes (se_hash E)) cs"
    and run: "publish_striped E now key m (length (concat cs)) devs paths sums if_absent results s2 = (r, s')"
  shows "put_outcome key (concat cs) meta now if_absent s r s'"
proof -
  let ?g = "Suc (gen_base (to_string_key key) (mview s))"
  let ?m = "striped_meta E m (length (concat cs)) devs paths sums"
  have pv: "set paths \<subseteq> version_paths E key ?g" using stripe_paths_in [of _ E key m] m paths by auto
  then have pm: "\<forall>p \<in> set paths. managed p" using version_paths_managed by blast
  have len: "length paths = length cs" by (simp add: paths stripe_paths_def)
  obtain y s3 where y: "settle_writes E (map as_u32 devs) paths 0 results s2 = (y, s3)" by fastforce
  note st = settle_writes_spec [OF pm y]
  have fr2: "files s2 q = files s q" if "managed q" "q \<notin> set paths" for q
  proof -
    have "fst ` set (zip paths cs) = set paths" using len by (metis map_fst_zip list.set_map)
    then show ?thesis using wr that s1(3) by (simp add: written_def)
  qed
  have fr: "files s3 q = files s q" if "managed q" "q \<notin> version_paths E key ?g" for q
    using st(2) [OF that(1)] fr2 [OF that(1)] that(2) pv by auto
  have run': "io_step (y, s3) (\<lambda>_ s1. io_step (commit_metadata_with_rollback E now key ?m paths if_absent s1)
      (\<lambda>committed s2. if committed then (Inr True, count_striped_write (length (concat cs)) s2) else (Inr False, s2))) = (r, s')"
    using run y by (simp add: publish_striped_def)
  show ?thesis
  proof (cases y)
    case (Inl e)
    then show ?thesis
      using run' s1 st(1) fr wr(2) by (auto simp: io_step_def intro!: put_outcome_fail)
  next
    case (Inr u)
    then have ok: "st_exec s3 = x" "list_all is_ok results" using st(3) wr(2) by simp_all
    have c: "content x (paths ! i) = Some (cs ! i)" if "i < length cs" for i
    proof -
      have "results ! i \<in> set results" using that wr(1) len by (simp add: written_def)
      then have "is_ok (results ! i)" using ok(2) by (simp add: list_all_iff)
      then show ?thesis using wr(1) that len by (simp add: written_def)
    qed
    obtain st where stp: "striping ?m = Some st" "chunk_paths st = paths" "chunk_checksums st = sums"
      by (simp add: striped_meta_def)
    have v: "verify_stripe_bytes E st i (cs ! i) = Inr ()" if "i < length cs" for i
      using that sums by (auto simp: verify_stripe_bytes_def expected_stripe_checksum_def stp checksum_bytes_def hex16_def)
    have "stripes_hold (files s3) E st cs"
      using c pm v small len by (simp add: stripes_hold_def ok(1) stp)
    then have intact: "intact (files s3) E key ?m (concat cs)" by (auto simp: intact_def stp(1))
    have fields: "bm_size ?m = length (concat cs)" "object_generation ?m = ?g" "created_at ?m = created_at meta"
      "ttl_seconds ?m = ttl_seconds meta" "object_paths E key ?m = set paths"
      using m by (simp_all add: object_paths_def stp) (simp_all add: striped_meta_def)
    have run3: "io_step (commit_metadata_with_rollback E now key ?m paths if_absent s3)
        (\<lambda>committed s2. if committed then (Inr True, count_striped_write (length (concat cs)) s2) else (Inr False, s2)) = (r, s')"
      using run' Inr by (simp add: io_step_ok)
    show ?thesis
      by (rule publish_outcome [OF _ _ fr refl _ intact _ _ _ _ _ _ _ run3])
        (use s1 st(1) wr(2) fields pv in simp_all)
  qed
qed

lemma stripe_jobs_good:
  assumes "length paths = length cs" "distinct paths" "\<forall>p \<in> set paths. managed p" "\<And>c. c \<in> set cs \<Longrightarrow> fits_isize c"
  shows "good_jobs (zip paths cs)"
  using assms by (auto simp: good_jobs_def dest: set_zip_leftD set_zip_rightD)

lemma chunks_fit: "fits_isize data \<Longrightarrow> c \<in> set (chunks n data) \<Longrightarrow> fits_isize c"
proof -
  assume "fits_isize data" "c \<in> set (chunks n data)"
  moreover from this have "0 < n" by (cases "n = 0") (auto simp: chunks.simps)
  then have "length (concat (chunks n data)) = length data" by simp
  ultimately show ?thesis
    using split_list [of c "chunks n data"] by (auto simp: fits_isize_def)
qed

lemma put_striped_chunks_outcome:
  assumes "minv (st_meta s)" "gen_room (to_string_key key) (mview s)" "fits_isize (concat segs)"
    "length (concat segs) + se_striping_chunk_size E < 2 ^ 64"
    "put_striped_chunks_impl E now key segs (length (concat segs)) meta if_absent s = (r, s')"
  shows "put_outcome key (concat segs) meta now if_absent s r s'"
proof -
  let ?tot = "length (concat segs)" and ?chunk = "se_striping_chunk_size E"
  obtain x s1 where x: "prepare_write_meta E key meta ?tot s = (x, s1)" by fastforce
  note pr = prepare_spec [OF assms(1,2) x]
  show ?thesis
  proof (cases x)
    case (Inl e)
    then show ?thesis using assms(5) x pr by (auto simp: put_striped_chunks_impl_def io_step_def intro!: put_outcome_fail)
  next
    case (Inr m)
    note mm = pr(4) [OF Inr]
    define stripes where "stripes = rebucket segs ?chunk ?tot"
    define cs where "cs = map concat stripes"
    define paths where "paths = stripe_paths E key m (length stripes)"
    define items where "items = map (\<lambda>(path, segs). (\<lparr> rq_path = path, rq_offset = 0, rq_length = length (concat segs) \<rparr>, segs)) (zip paths stripes)"
    define sums where "sums = (if se_verify_stripe_checksums E then map (checksum_segments E) stripes else [])"
    have cs: "cs = chunks ?chunk (concat segs)"
      unfolding cs_def stripes_def by (rule rebucket_chunks [OF assms(4) chunk_law])
    have whole: "concat cs = concat segs" using cs chunk_law by simp
    have pl: "paths = stripe_paths E key m (length cs)" by (simp add: paths_def cs_def)
    have jobs: "map (\<lambda>(req, segs). (rq_path req, concat segs)) items = zip paths cs"
      by (simp add: items_def cs_def zip_map2 split_def)
    have good: "good_jobs (zip paths cs)"
    proof (rule stripe_jobs_good)
      show "length paths = length cs" by (simp add: pl stripe_paths_def)
      show "distinct paths" unfolding pl by (rule stripe_paths_distinct [OF digest_law])
      show "\<forall>p \<in> set paths. managed p" unfolding pl using stripe_paths_in mm version_paths_managed by blast
      show "fits_isize c" if "c \<in> set cs" for c using that chunks_fit [OF assms(3)] cs by simp
    qed
    obtain results x2 where w: "io_write_batch_vectored (se_io E) items (st_exec s1) = (results, x2)" by fastforce
    have wr: "written content (zip paths cs) (st_exec s1) results x2"
      using io.write_vec_law [of items, unfolded jobs, OF good w] .
    have run: "publish_striped E now key m ?tot (stripe_devices E key (length stripes)) paths sums if_absent results
        (s1\<lparr> st_exec := x2 \<rparr>) = (r, s')"
      using assms(5) x Inr w unfolding sums_def paths_def items_def stripes_def
      by (simp add: put_striped_chunks_impl_def io_step_def Let_def on_exec_def split del: if_split)
    have "sums = map (checksum_bytes (se_hash E)) cs" if "se_verify_stripe_checksums E"
      using that by (simp add: sums_def cs_def checksum_segments_def checksum_bytes_def stream_law)
    moreover have "created_at m = created_at meta" "ttl_seconds m = ttl_seconds meta" using mm by auto
    ultimately have "put_outcome key (concat cs) meta now if_absent s r s'"
      using publish_striped_outcome [OF pr(2,3,1) _ _ _ _ pl wr refl _ _ run [folded whole]] mm chunks_fit [OF assms(3)] cs
      by blast
    then show ?thesis by (simp add: whole)
  qed
qed

lemma put_striped_outcome:
  assumes "minv (st_meta s)" "gen_room (to_string_key key) (mview s)" "fits_isize data"
    "length data + se_striping_chunk_size E < 2 ^ 64" "put_striped E now key data meta s = (r, s')"
  shows "\<exists>b. put_outcome key data meta now False s b s' \<and> (r = Inr () \<longleftrightarrow> b = Inr True)"
proof -
  let ?segs = "chunks (se_striping_chunk_size E) data"
  have c: "concat ?segs = data" using chunk_law by simp
  obtain b s1 where b: "put_striped_chunks_impl E now key ?segs (length (concat ?segs)) meta False s = (b, s1)" by fastforce
  have o: "put_outcome key data meta now False s b s1"
    using put_striped_chunks_outcome [OF assms(1,2) _ _ b] assms(3,4) by (simp add: c)
  have "io_step (b, s1) (\<lambda>_ s1. (Inr (), s1)) = (r, s')"
    using assms(5) b by (simp add: put_striped_def Let_def put_striped_segments [OF assms(4) chunk_law] c)
  then have "s' = s1" "r = Inr () \<longleftrightarrow> is_ok b" by (auto simp: io_step_def split: sum.splits)
  moreover have "b \<noteq> Inr False" using o by (auto simp: put_outcome_def)
  ultimately show ?thesis using o by (cases b) auto
qed

definition writes_to :: "ObjectKey \<Rightarrow> bytes \<Rightarrow> ('x, 'm) StorageTier \<Rightarrow> bool" where
  "writes_to key data s \<longleftrightarrow> minv (st_meta s) \<and> gen_room (to_string_key key) (mview s) \<and> fits_isize data
     \<and> length data + se_striping_chunk_size E < 2 ^ 64"

lemma put_done:
  assumes "put_outcome key data meta now False s b s1" "io_step (b, s1) (\<lambda>_ s1. (Inr (), s1)) = (r, s')"
  shows "\<exists>b. put_outcome key data meta now False s b s' \<and> (r = Inr () \<longleftrightarrow> b = Inr True)"
proof -
  have "s' = s1" "r = Inr () \<longleftrightarrow> is_ok b" using assms(2) by (auto simp: io_step_def split: sum.splits)
  moreover have "b \<noteq> Inr False" using assms(1) by (auto simp: put_outcome_def)
  ultimately show ?thesis using assms(1) by (cases b) auto
qed

lemma storage_put_outcome:
  assumes "writes_to key data s" "storage_put E now key data meta s = (r, s')"
  shows "\<exists>b. put_outcome key data meta now False s b s' \<and> (r = Inr () \<longleftrightarrow> b = Inr True)"
proof (cases "should_stripe E (length data)")
  case True
  then show ?thesis using assms put_striped_outcome by (auto simp: storage_put_def writes_to_def)
next
  case False
  obtain b s1 where b: "put_single E now key data meta False s = (b, s1)" by fastforce
  have "put_outcome key data meta now False s b s1"
    using put_single_outcome [OF _ _ _ b] assms(1) by (simp add: writes_to_def)
  then show ?thesis by (rule put_done) (use assms(2) b False in \<open>simp add: storage_put_def\<close>)
qed

lemma storage_put_chunks_outcome:
  assumes "writes_to key (concat segs) s" "storage_put_chunks E now key segs meta s = (r, s')"
  shows "\<exists>b. put_outcome key (concat segs) meta now False s b s' \<and> (r = Inr () \<longleftrightarrow> b = Inr True)"
proof (cases "should_stripe E (length (concat segs))")
  case True
  obtain b s1 where b: "put_striped_chunks_impl E now key segs (length (concat segs)) meta False s = (b, s1)" by fastforce
  have "put_outcome key (concat segs) meta now False s b s1"
    using put_striped_chunks_outcome [OF _ _ _ _ b] assms(1) by (simp add: writes_to_def)
  then show ?thesis by (rule put_done) (use assms(2) b True in \<open>simp add: storage_put_chunks_def\<close>)
next
  case False
  then show ?thesis using assms storage_put_outcome by (simp add: storage_put_chunks_def)
qed

lemma get_block_spec:
  assumes "minv (st_meta s)" "on_meta (mo_get_block (se_mo E) k) s = (x, s1)"
  shows "st_exec s1 = st_exec s" "minv (st_meta s1)" "mview s1 = mview s" "x = Inr b \<Longrightarrow> mv_blocks (mview s) k = b"
proof -
  obtain m1 where "mo_get_block (se_mo E) k (st_meta s) = (x, m1)" "s1 = s\<lparr> st_meta := m1 \<rparr>"
    using assms(2) by (auto simp: on_meta_eq)
  then show "st_exec s1 = st_exec s" "minv (st_meta s1)" "mview s1 = mview s" "x = Inr b \<Longrightarrow> mv_blocks (mview s) k = b"
    using ms.get_law [OF assms(1), of k] by (cases x; simp add: step_ok_def)+
qed

text \<open>
  \<open>purged key now s s'\<close>: no file changed, and of the metadata at most the entry of \<open>key\<close>, which may
  have been retired because it had expired.
\<close>

definition purged :: "ObjectKey \<Rightarrow> int \<Rightarrow> ('x, 'm) StorageTier \<Rightarrow> ('x, 'm) StorageTier \<Rightarrow> bool" where
  "purged key now s s' \<longleftrightarrow> st_exec s' = st_exec s \<and> minv (st_meta s') \<and>
     (mview s' = mview s \<or>
      (mv_gen (mview s') = mv_gen (mview s) \<and> mv_blocks (mview s') = (mv_blocks (mview s))(to_string_key key := None)
       \<and> (\<exists>m. mv_blocks (mview s) (to_string_key key) = Some m \<and> is_expired_at m now)))"

lemma delete_expired_spec:
  assumes "minv (st_meta s)" "delete_expired_current_locked E now key m s = (r, s')"
  shows "purged key now s s'" "r \<noteq> Inr True \<Longrightarrow> mview s' = mview s"
proof -
  let ?k = "to_string_key key" and ?nb = "gc_not_before E now"
  obtain x s1 where x: "on_meta (mo_get_block (se_mo E) ?k) s = (x, s1)" by fastforce
  note g = get_block_spec [OF assms(1) x]
  have "purged key now s s' \<and> (r \<noteq> Inr True \<longrightarrow> mview s' = mview s)"
  proof (cases x)
    case (Inl e)
    then show ?thesis using assms(2) x g by (auto simp: delete_expired_current_locked_def io_step_def purged_def)
  next
    case (Inr b)
    consider (skip) "r = Inr False" "s' = s1"
      | (retire) cur where "b = Some cur" "is_expired_at cur now" "on_meta (mo_retire_block_if_matches (se_mo E) ?k cur ?nb) s1 = (r, s')"
      using assms(2) x Inr by (auto simp: delete_expired_current_locked_def io_step_def split: option.splits if_splits)
    then show ?thesis
    proof cases
      case skip
      then show ?thesis using g by (simp add: purged_def)
    next
      case retire
      obtain m2 where m2: "mo_retire_block_if_matches (se_mo E) ?k cur ?nb (st_meta s1) = (r, m2)" "s' = s1\<lparr> st_meta := m2 \<rparr>"
        using retire(3) by (auto simp: on_meta_eq)
      have cur: "mv_blocks (mview s) ?k = Some cur" using g(4) [OF Inr] retire(1) by simp
      have law: "step_ok view minv (st_meta s1) (\<lambda>y v. y = same_version cur cur
          \<and> v = (if y then spec_publish tid ?k None ?nb (mview s1) else mview s1)) (r, m2)"
        using ms.retire_if_law [OF g(2), where key = ?k and b = cur and nb = ?nb] by (simp add: m2(1) g(3) cur)
      have gen: "mv_gen (spec_publish tid ?k None ?nb v) = mv_gen v" for v
        by (simp add: spec_publish_def spec_set_def spec_enqueue_def split: option.splits)
      show ?thesis
        using law g m2(2) cur retire(2) gen by (cases r) (auto simp: step_ok_def purged_def same_version_def)
    qed
  qed
  then show "purged key now s s'" "r \<noteq> Inr True \<Longrightarrow> mview s' = mview s" by blast+
qed

lemma purge_spec:
  assumes "minv (st_meta s)" "purge_if_expired E now key m s = (r, s')"
  shows "purged key now s s'" "\<not> is_expired_at m now \<Longrightarrow> r = Inr False \<and> s' = s" "r \<noteq> Inr True \<Longrightarrow> mview s' = mview s"
  using assms delete_expired_spec [OF assms(1), of now key m r s']
  by (auto simp: purge_if_expired_def purged_def split: if_splits)

lemma purged_trans: "purged key now s s1 \<Longrightarrow> purged key now s1 s2 \<Longrightarrow> purged key now s s2"
  unfolding purged_def by (elim conjE disjE) auto

text \<open>The existence test of a conditional write.\<close>

lemma absent_or_expired_spec:
  assumes "minv (st_meta s)" "absent_or_expired E now key s = (r, s')"
  shows "purged key now s s'"
    "r = Inr False \<Longrightarrow> mview s' = mview s \<and> (\<exists>m. mv_blocks (mview s) (to_string_key key) = Some m \<and> \<not> is_expired_at m now)"
proof -
  let ?k = "to_string_key key"
  obtain x s1 where x: "on_meta (mo_get_block (se_mo E) ?k) s = (x, s1)" by fastforce
  note g = get_block_spec [OF assms(1) x]
  have p1: "purged key now s s1" using g by (simp add: purged_def)
  consider (err) e where "x = Inl e" | (none) "x = Inr None"
    | (live) m where "x = Inr (Some m)" "\<not> is_expired_at m now" | (dead) m where "x = Inr (Some m)" "is_expired_at m now"
    by (cases x) (auto split: option.splits)
  then have "purged key now s s' \<and> (r = Inr False \<longrightarrow> mview s' = mview s \<and> (\<exists>m. mv_blocks (mview s) ?k = Some m \<and> \<not> is_expired_at m now))"
  proof cases
    case live
    then show ?thesis using assms(2) x p1 g(3) g(4) [of "Some m"] by (auto simp: absent_or_expired_def io_step_def)
  next
    case dead
    obtain y s2 where y: "delete_expired_current_locked E now key m s1 = (y, s2)" by fastforce
    have "s' = s2" "r \<noteq> Inr False"
      using assms(2) x dead y by (auto simp: absent_or_expired_def io_step_def split: sum.splits)
    then show ?thesis using purged_trans [OF p1 delete_expired_spec(1) [OF g(2) y]] by simp
  qed (use assms(2) x p1 in \<open>auto simp: absent_or_expired_def io_step_def\<close>)
  then show "purged key now s s'"
    "r = Inr False \<Longrightarrow> mview s' = mview s \<and> (\<exists>m. mv_blocks (mview s) ?k = Some m \<and> \<not> is_expired_at m now)" by blast+
qed

lemma purged_writes_to: "purged key now s s' \<Longrightarrow> writes_to key data s \<Longrightarrow> writes_to key data s'"
  by (auto simp: purged_def writes_to_def gen_room_def gen_base_def split: option.splits)


subsection \<open>Reads\<close>

lemma collect_stripes_frame:
  "st_exec (snd (collect_stripes E st i rs s)) = st_exec s" "st_meta (snd (collect_stripes E st i rs s)) = st_meta s"
proof -
  have "st_exec (snd (collect_stripes E st i rs s)) = st_exec s \<and> st_meta (snd (collect_stripes E st i rs s)) = st_meta s"
  proof (induction rs arbitrary: i s)
    case (Cons r rs)
    show ?case by (simp add: Let_def Cons.IH split: sum.splits)
  qed simp
  then show "st_exec (snd (collect_stripes E st i rs s)) = st_exec s" "st_meta (snd (collect_stripes E st i rs s)) = st_meta s"
    by blast+
qed

lemma collect_stripes_Inr:
  assumes "collect_stripes E st i rs s = (Inr ds, s')"
  shows "rs = map Inr ds"
  using assms
proof (induction rs arbitrary: i s ds)
  case (Cons r rs)
  then show ?case by (fastforce simp: Let_def io_step_Inr split: sum.splits if_splits)
qed simp

lemma collect_stripes_ok:
  assumes "\<And>j. j < length ds \<Longrightarrow> verify_stripe_bytes E st (i + j) (ds ! j) = Inr ()"
  shows "\<exists>s'. collect_stripes E st i (map Inr ds) s = (Inr ds, s')"
  using assms
proof (induction ds arbitrary: i s)
  case (Cons d ds)
  have "verify_stripe_bytes E st i d = Inr ()" using Cons.prems [of 0] by simp
  moreover have "verify_stripe_bytes E st (Suc i + j) (ds ! j) = Inr ()" if "j < length ds" for j
    using Cons.prems [of "Suc j"] that by simp
  ultimately show ?case using Cons.IH [of "Suc i"] by (fastforce simp: Let_def io_step_def)
qed simp

lemma read_striped_chunks_spec:
  assumes "stripes_hold (files s) E st cs" "read_striped_chunks E st s = (r, s')"
  shows "same_files content (st_exec s) (st_exec s')" "st_meta s' = st_meta s" "r = Inr ds \<Longrightarrow> ds = cs"
    "quiet (st_exec s) \<Longrightarrow> r = Inr cs \<and> quiet (st_exec s')"
proof -
  let ?reqs = "map whole_file (chunk_paths st)"
  have len: "length cs = length (chunk_paths st)" using assms(1) by (simp add: stripes_hold_def)
  have held: "managed (rq_path (?reqs ! i)) \<and> files s (rq_path (?reqs ! i)) = Some (cs ! i) \<and> fits_isize (cs ! i)"
    if "i < length ?reqs" for i
    using assms(1) that len by (simp add: stripes_hold_def whole_file_def)
  have ok: "managed (rq_path req) \<and> (\<exists>c. files s (rq_path req) = Some c \<and> fits_isize c)" if "req \<in> set ?reqs" for req
    using held that unfolding in_set_conv_nth by metis
  obtain rs x1 where x1: "io_read_aligned_batch (se_io E) ?reqs (st_exec s) = (rs, x1)" by fastforce
  have law: "same_files content (st_exec s) x1 \<and> length rs = length ?reqs
      \<and> (\<forall>i < length ?reqs. \<forall>d. rs ! i = Inr d \<longrightarrow> files s (rq_path (?reqs ! i)) = Some d)"
  proof (rule io.read_aligned_law [OF _ x1])
    fix req assume "req \<in> set ?reqs"
    then obtain c where "managed (rq_path req)" "files s (rq_path req) = Some c" "fits_isize c" using ok by blast
    then show "managed (rq_path req) \<and> pred_option fits_isize (files s (rq_path req))" by simp
  qed
  have run: "collect_stripes E st 0 rs (s\<lparr> st_exec := x1 \<rparr>) = (r, s')"
    using assms(2) x1 by (simp add: read_striped_chunks_def on_exec_def)
  show "same_files content (st_exec s) (st_exec s')" "st_meta s' = st_meta s"
    using collect_stripes_frame [of st 0 rs "s\<lparr> st_exec := x1 \<rparr>"] law by (simp_all add: run)
  show "ds = cs" if "r = Inr ds"
  proof -
    have rs: "rs = map Inr ds" by (rule collect_stripes_Inr) (use run that in auto)
    show ?thesis
    proof (rule nth_equalityI)
      show "length ds = length cs" using rs law len by simp
      fix i assume "i < length ds"
      then show "ds ! i = cs ! i" using rs law held [of i] by simp
    qed
  qed
  assume q: "quiet (st_exec s)"
  obtain x2 where x2: "io_read_aligned_batch (se_io E) ?reqs (st_exec s) = (map (\<lambda>req. Inr (the (files s (rq_path req)))) ?reqs, x2)"
    "quiet x2" using io.read_aligned_quiet [OF q, of ?reqs] ok by fastforce
  have "map (\<lambda>req. Inr (the (files s (rq_path req)))) ?reqs = map Inr cs"
    by (rule nth_equalityI) (use held len in auto)
  then have "rs = map Inr cs" "x1 = x2" using x1 x2 by auto
  moreover have "\<And>j. j < length cs \<Longrightarrow> verify_stripe_bytes E st (0 + j) (cs ! j) = Inr ()"
    using assms(1) by (simp add: stripes_hold_def)
  ultimately show "r = Inr cs \<and> quiet (st_exec s')"
    using collect_stripes_ok [of cs st 0 "s\<lparr> st_exec := x1 \<rparr>"] run x2(2)
      collect_stripes_frame(1) [of st 0 rs "s\<lparr> st_exec := x1 \<rparr>"] by auto
qed

lemma delete_current_frame:
  assumes "minv (st_meta s)" "delete_metadata_if_current E key m s = (r, s')"
  shows "st_exec s' = st_exec s" "minv (st_meta s')"
    "mv_blocks (mview s') k \<noteq> mv_blocks (mview s) k \<Longrightarrow> k = to_string_key key \<and> mv_blocks (mview s') k = None"
proof -
  obtain m1 where m1: "mo_delete_block_if_matches (se_mo E) (to_string_key key) m (st_meta s) = (r, m1)" "s' = s\<lparr> st_meta := m1 \<rparr>"
    using assms(2) by (auto simp: delete_metadata_if_current_def on_meta_eq)
  have law: "step_ok view minv (st_meta s) (\<lambda>x v. v = mview s \<or> v = spec_set (to_string_key key) None (mview s)) (r, m1)"
    using ms.delete_if_law [OF assms(1), where key = "to_string_key key" and b = m] m1(1)
    by (auto simp: step_ok_def split: sum.splits option.splits)
  then show "st_exec s' = st_exec s" "minv (st_meta s')"
    "mv_blocks (mview s') k \<noteq> mv_blocks (mview s) k \<Longrightarrow> k = to_string_key key \<and> mv_blocks (mview s') k = None"
    using m1(2) by (auto simp: step_ok_def split: sum.splits if_splits)
qed

text \<open>
  \<open>read_outcome\<close>: a read of \<open>key\<close> changes no object file and no metadata beyond dropping the entry
  of \<open>key\<close>; it returns the stored bytes or nothing, and, undisturbed, it returns them.
\<close>

definition read_outcome :: "ObjectKey \<Rightarrow> 'b \<Rightarrow> ('x, 'm) StorageTier \<Rightarrow> 'b option res \<Rightarrow> ('x, 'm) StorageTier \<Rightarrow> bool" where
  "read_outcome key y s r s' \<longleftrightarrow>
     same_files content (st_exec s) (st_exec s') \<and> minv (st_meta s')
     \<and> (\<forall>k. mv_blocks (mview s') k \<noteq> mv_blocks (mview s) k \<longrightarrow> k = to_string_key key \<and> mv_blocks (mview s') k = None)
     \<and> (\<forall>x. r = Inr (Some x) \<longrightarrow> x = y \<and> mview s' = mview s)
     \<and> (quiet (st_exec s) \<longrightarrow> r = Inr (Some y) \<and> quiet (st_exec s'))"

lemma drop_unreadable_outcome:
  assumes "minv (st_meta s)" "same_files content (st_exec s) (st_exec s1)" "st_meta s1 = st_meta s"
    "\<And>ds. x = Inr ds \<Longrightarrow> ds = cs" "quiet (st_exec s) \<Longrightarrow> x = Inr cs \<and> quiet (st_exec s1)"
    "k cs s1 = (Inr (Some y), s2)" "st_exec s2 = st_exec s1" "st_meta s2 = st_meta s1"
    "drop_unreadable E key m (x, s1) k = (r, s')"
  shows "read_outcome key y s r s'"
proof -
  consider (ok) "x = Inr cs" | (gone) msg where "x = Inl (NotFound msg)" "\<not> quiet (st_exec s)"
    | (err) e where "x = Inl e" "\<forall>msg. e \<noteq> NotFound msg" "\<not> quiet (st_exec s)"
    using assms(4,5) by (cases x) auto
  then show ?thesis
  proof cases
    case ok
    then show ?thesis using assms by (auto simp: drop_unreadable_def read_outcome_def)
  next
    case gone
    obtain z s3 where z: "delete_metadata_if_current E key m s1 = (z, s3)" by fastforce
    have "s' = s3" "\<And>v. r \<noteq> Inr (Some v)"
      using assms(9) gone z by (auto simp: drop_unreadable_def io_step_def split: sum.splits)
    moreover have "minv (st_meta s1)" using assms(1,3) by simp
    ultimately show ?thesis
      using delete_current_frame [OF _ z] assms(2,3) gone(2) by (auto simp: read_outcome_def)
  next
    case err
    then have "r = Inl e" "s' = s1" using assms(9) by (auto simp: drop_unreadable_def split: kverror.splits)
    then show ?thesis using assms(1,2,3) err(3) by (simp add: read_outcome_def)
  qed
qed

lemma read_single_spec:
  assumes "minv (st_meta s)" "managed (meta_path_or_route E key m)" "files s (meta_path_or_route E key m) = Some data"
    "fits_isize data" "read_single E key m s = (r, s')"
  shows "read_outcome key data s r s'"
proof -
  let ?p = "meta_path_or_route E key m"
  obtain x x1 where x: "io_read_file (se_io E) ?p (st_exec s) = (x, x1)" by fastforce
  have law: "same_files content (st_exec s) x1 \<and> (\<forall>d. x = Inr d \<longrightarrow> d = data)"
    using io.read_file_law [OF assms(2) x] assms(3) by auto
  have q: "x = Inr data \<and> quiet x1" if "quiet (st_exec s)"
    using io.read_file_quiet [OF that assms(2,3,4)] x by auto
  have ex: "io_file_exists (se_io E) ?p (st_exec s)" using io.exists_law [OF assms(2)] assms(3) by simp
  have run: "r = (case x of Inl e \<Rightarrow> Inl e | Inr d \<Rightarrow> Inr (Some d))" "st_exec s' = x1" "st_meta s' = st_meta s"
    using assms(5) ex x
    by (auto simp: read_single_def Let_def read_file_on_device_def on_exec_def io_step_def split: sum.splits)
  show ?thesis
    using law q run assms(1) by (cases x) (auto simp: read_outcome_def)
qed

lemma read_outcome_map:
  assumes "read_outcome key y s r s1" "io_step (r, s1) (\<lambda>d s2. (Inr (map_option f d), s2)) = (r', s')"
  shows "read_outcome key (f y) s r' s'"
proof -
  have e: "r' = map_sum id (map_option f) r" "s' = s1"
    using assms(2) by (cases r; simp add: io_step_def)+
  consider (err) err where "r = Inl err" | (none) "r = Inr None" | (some) "r = Inr (Some y)"
  proof (cases r)
    case (Inr z)
    then show ?thesis using assms(1) that(2,3) by (cases z) (simp_all add: read_outcome_def)
  qed (use that(1) in blast)
  then show ?thesis
    using assms(1) unfolding e by cases (simp_all add: read_outcome_def)
qed

lemma get_with_meta_outcome:
  assumes "minv (st_meta s)" "intact (files s) E key m data" "\<not> is_expired_at m now" "get_with_meta E now key m s = (r, s')"
  shows "read_outcome key (data, m) s r s'"
proof -
  have pu: "purge_if_expired E now key m s = (Inr False, s)" using assms(3) by (simp add: purge_if_expired_def)
  show ?thesis
  proof (cases "striping m")
    case None
    obtain x s1 where x: "read_single E key m s = (x, s1)" by fastforce
    have "read_outcome key data s x s1"
      using read_single_spec [OF assms(1) _ _ _ x] assms(2) None by (simp add: intact_def)
    then show ?thesis
      by (rule read_outcome_map) (use assms(4) pu None x in \<open>simp add: get_with_meta_def io_step_ok\<close>)
  next
    case (Some st)
    obtain cs where cs: "stripes_hold (files s) E st cs" "data = concat cs" using assms(2) Some by (auto simp: intact_def)
    obtain x s1 where x: "read_striped_chunks E st s = (x, s1)" by fastforce
    note sp = read_striped_chunks_spec [OF cs(1) x]
    have rs: "read_striped E st s = (map_sum id concat x, s1)"
      using x by (cases x) (auto simp: read_striped_def io_step_def)
    have run: "drop_unreadable E key m (map_sum id concat x, s1)
        (\<lambda>data s2. (Inr (Some (data, m)), count_read (length data) s2)) = (r, s')"
      using assms(4) pu Some rs by (simp add: get_with_meta_def io_step_ok)
    have "ds = concat cs" if "map_sum id concat x = Inr ds" for ds
      using that sp(3) by (cases x) simp_all
    moreover have "map_sum id concat x = Inr (concat cs) \<and> quiet (st_exec s1)" if "quiet (st_exec s)"
      using sp(4) [OF that] by simp
    ultimately show ?thesis
      unfolding cs(2)
      by (intro drop_unreadable_outcome [OF assms(1) sp(1,2) _ _ refl _ _ run]) simp_all
  qed
qed

end


section \<open>Writes succeed when nothing fails\<close>

locale live_storage = storage_system E content quiet view minv tid + up: live_store "se_mo E" view minv tid up
  for E :: "('x, 'm) StorageEnv" and content :: "'x \<Rightarrow> string \<Rightarrow> bytes option" and quiet :: "'x \<Rightarrow> bool"
    and view :: "'m \<Rightarrow> meta_view" and minv :: "'m \<Rightarrow> bool" and tid :: task_ids and up :: "'m \<Rightarrow> bool"
begin

definition healthy :: "('x, 'm) StorageTier \<Rightarrow> bool" where
  "healthy s \<longleftrightarrow> quiet (st_exec s) \<and> up (st_meta s) \<and> minv (st_meta s)"

lemma prepare_live:
  assumes "healthy s" "gen_room (to_string_key key) (mview s)"
  shows "\<exists>m s'. prepare_write_meta E key meta n s = (Inr m, s') \<and> healthy s'"
proof -
  obtain x m1 where x: "mo_next_generation (se_mo E) (to_string_key key) (st_meta s) = (x, m1)" by fastforce
  have "is_ok x" "up m1" using up.next_gen_up [of "st_meta s" "to_string_key key"] assms(1) x by (simp_all add: healthy_def)
  moreover have "minv m1"
    using ms.next_gen_law [OF _ assms(2)] assms(1) x by (auto simp: step_ok_def healthy_def)
  ultimately show ?thesis
    using assms(1) x by (cases x) (simp_all add: prepare_write_meta_def on_meta_def io_step_def healthy_def)
qed

lemma commit_live:
  assumes "healthy s"
  shows "\<exists>s'. commit_metadata_with_rollback E now key m ps False s = (Inr True, s') \<and> healthy s'"
proof -
  obtain x m1 where x: "mo_replace_block (se_mo E) (to_string_key key) m (gc_not_before E now) (st_meta s) = (x, m1)" by fastforce
  have "is_ok x" "up m1"
    using up.replace_up [of "st_meta s" "to_string_key key" m "gc_not_before E now"] assms x by (simp_all add: healthy_def)
  moreover have "minv m1"
    using ms.replace_law [of "st_meta s" "to_string_key key" m "gc_not_before E now"] assms x
    by (auto simp: step_ok_def healthy_def)
  ultimately show ?thesis
    using assms x by (cases x) (simp_all add: commit_metadata_with_rollback_def on_meta_def io_step_def healthy_def)
qed

lemma healthy_counters [simp]:
  "healthy (record_device_write d n s) = healthy s" "healthy (count_write n s) = healthy s"
  "healthy (count_striped_write n s) = healthy s"
  by (simp_all add: healthy_def)

lemma put_single_live:
  assumes "healthy s" "gen_room (to_string_key key) (mview s)"
  shows "\<exists>s'. put_single E now key data meta False s = (Inr True, s') \<and> healthy s'"
proof -
  obtain m s1 where s1: "prepare_write_meta E key meta (length data) s = (Inr m, s1)" "healthy s1"
    using prepare_live [OF assms] by blast
  obtain dev path where l: "single_layout E key m = (dev, path)" by fastforce
  obtain x x1 where x: "io_write_file (se_io E) path data (st_exec s1) = (x, x1)" by fastforce
  have ok: "is_ok x" "quiet x1" using io.write_file_quiet [OF _ x] s1(2) by (simp_all add: healthy_def)
  obtain s2 where s2: "write_file_on_device E dev path data s1 = (Inr (), s2)" "healthy s2"
    using x ok s1(2) by (cases x) (simp_all add: write_file_on_device_def on_exec_def healthy_def)
  obtain s3 where s3: "commit_metadata_with_rollback E now key (single_meta m dev path (length data)) [path] False s2 = (Inr True, s3)"
    "healthy s3" using commit_live [OF s2(2)] by blast
  show ?thesis using s1(1) l s2(1) s3 by (simp add: put_single_def io_step_def)
qed

lemma settle_live:
  assumes "list_all is_ok rs" "healthy s"
  shows "\<exists>s'. settle_writes E devs paths i rs s = (Inr (), s') \<and> healthy s'"
  using assms
proof (induction rs arbitrary: i s)
  case (Cons r rs)
  then show ?case by (cases r) simp_all
qed simp

lemma publish_live:
  assumes "list_all is_ok rs" "healthy s"
  shows "\<exists>s'. publish_striped E now key m tot devs paths sums False rs s = (Inr True, s') \<and> healthy s'"
proof -
  obtain s3 where s3: "settle_writes E (map as_u32 devs) paths 0 rs s = (Inr (), s3)" "healthy s3"
    using settle_live [OF assms] by blast
  obtain s4 where "commit_metadata_with_rollback E now key (striped_meta E m tot devs paths sums) paths False s3 = (Inr True, s4)"
    "healthy s4" using commit_live [OF s3(2)] by blast
  then show ?thesis using s3 by (simp add: publish_striped_def io_step_def)
qed

lemma put_striped_chunks_live:
  assumes "healthy s" "gen_room (to_string_key key) (mview s)"
  shows "\<exists>s'. put_striped_chunks_impl E now key segs tot meta False s = (Inr True, s') \<and> healthy s'"
proof -
  obtain m s1 where s1: "prepare_write_meta E key meta tot s = (Inr m, s1)" "healthy s1"
    using prepare_live [OF assms] by blast
  have wr: "list_all is_ok (fst (io_write_batch_vectored (se_io E) items (st_exec s1)))
      \<and> healthy (s1\<lparr> st_exec := snd (io_write_batch_vectored (se_io E) items (st_exec s1)) \<rparr>)" for items
    using io.write_vec_quiet [of "st_exec s1" items, OF _ prod.collapse [symmetric]] s1(2) by (simp add: healthy_def)
  show ?thesis
    unfolding put_striped_chunks_impl_def s1(1) io_step_ok Let_def on_exec_def case_prod_unfold
    using publish_live wr by simp
qed

lemma storage_put_live:
  assumes "healthy s" "gen_room (to_string_key key) (mview s)"
  shows "\<exists>s'. storage_put E now key data meta s = (Inr (), s') \<and> healthy s'"
proof (cases "should_stripe E (length data)")
  case True
  let ?segs = "map (\<lambda>i. take (stripe_end_of i (se_striping_chunk_size E) (length data) - i * se_striping_chunk_size E)
    (drop (i * se_striping_chunk_size E) data)) [0 ..< stripe_count (length data) (se_striping_chunk_size E)]"
  obtain s' where "put_striped_chunks_impl E now key ?segs (length data) meta False s = (Inr True, s')" "healthy s'"
    using put_striped_chunks_live [OF assms] by blast
  then show ?thesis using True by (simp add: storage_put_def put_striped_def io_step_ok)
next
  case False
  obtain s' where "put_single E now key data meta False s = (Inr True, s')" "healthy s'"
    using put_single_live [OF assms] by blast
  then show ?thesis using False by (simp add: storage_put_def io_step_ok)
qed

end

end
