(* ===== verification/Storage_Props.thy ===== *)
theory Storage_Props
  imports Storage_Correct
begin

text \<open>
  The properties of the storage tier over the thread-pool executor and the in-process metadata
  backend, each obtained from the locale \<open>live_storage\<close> by interpretation.
\<close>

section \<open>The abstract store\<close>

text \<open>
  \<open>holds\<close>: the object \<open>key\<close> is published and its layout yields \<open>data\<close>; \<open>owned\<close>: every published
  layout refers to files of its own key and generation only.
\<close>

definition holds ::
  "('x, 'm) StorageEnv \<Rightarrow> (string \<Rightarrow> BlockMeta option) \<Rightarrow> (string \<Rightarrow> bytes option) \<Rightarrow> ObjectKey \<Rightarrow> bytes \<Rightarrow> bool" where
  "holds E blocks c key data \<longleftrightarrow> (\<exists>m. blocks (to_string_key key) = Some m \<and> intact c E key m data)"

definition owned :: "('x, 'm) StorageEnv \<Rightarrow> (string \<Rightarrow> BlockMeta option) \<Rightarrow> bool" where
  "owned E blocks \<longleftrightarrow> (\<forall>key m. blocks (to_string_key key) = Some m \<longrightarrow>
     object_paths E key m \<subseteq> version_paths E key (object_generation m))"

lemma to_string_key_eq: "to_string_key k = to_string_key k' \<longleftrightarrow> k = k'"
proof
  assume "to_string_key k = to_string_key k'"
  then have "split_once CHR '':'' (to_string_key k) = split_once CHR '':'' (to_string_key k')" by simp
  then have "length (namespace k) = length (namespace k')" "namespace k @ object_key k = namespace k' @ object_key k'"
    by (simp_all add: split_once_to_string_key)
  then show "k = k'" by simp
qed simp

lemma intact_deterministic:
  assumes "intact c E key m d" "intact c E key m d'"
  shows "d = d'"
proof (cases "striping m")
  case (Some st)
  then obtain cs cs' where "stripes_hold c E st cs" "d = concat cs" "stripes_hold c E st cs'" "d' = concat cs'"
    using assms by (auto simp: intact_def)
  moreover from this have "cs = cs'" by (auto simp: stripes_hold_def intro!: nth_equalityI)
  ultimately show ?thesis by simp
qed (use assms in \<open>simp add: intact_def\<close>)

text \<open>Writing the files of a fresh generation of \<open>key\<close> leaves every published layout alone.\<close>

lemma intact_fresh:
  assumes "hex_digest (se_hash E)" "object_paths E key' m \<subseteq> version_paths E key' (object_generation m)"
    "(object_digest (se_hash E) key', object_generation m) \<noteq> (object_digest (se_hash E) key, g)"
    "\<And>q. managed q \<Longrightarrow> q \<notin> version_paths E key g \<Longrightarrow> c' q = c q"
  shows "intact c' E key' m d \<longleftrightarrow> intact c E key' m d"
proof -
  have "c' p = c p" if "p \<in> object_paths E key' m" "managed p" for p
    using assms(4) [OF that(2)] that(1) assms(2,3) version_paths_disjoint [OF assms(1)] by blast
  then show ?thesis by (metis intact_cong)
qed

context storage_system
begin

lemma put_refines:
  assumes "put_outcome key data meta now if_absent s b s'" "owned E (mv_blocks (mview s))"
    "key' = key \<or> object_digest (se_hash E) key' \<noteq> object_digest (se_hash E) key"
  shows "b = Inr True \<Longrightarrow> holds E (mv_blocks (mview s')) (files s') key' d \<longleftrightarrow>
      (if key' = key then d = data else holds E (mv_blocks (mview s)) (files s) key' d)"
    "b \<noteq> Inr True \<Longrightarrow> holds E (mv_blocks (mview s')) (files s') key' d \<longleftrightarrow> holds E (mv_blocks (mview s)) (files s) key' d"
    "owned E (mv_blocks (mview s'))"
proof -
  let ?g = "Suc (gen_base (to_string_key key) (mview s))"
  have fr: "files s' q = files s q" if "managed q" "q \<notin> version_paths E key ?g" for q
    using assms(1) that by (simp add: put_outcome_def)
  have old: "intact (files s') E key' m d \<longleftrightarrow> intact (files s) E key' m d"
    if "mv_blocks (mview s) (to_string_key key') = Some m" for m d
  proof (rule intact_fresh [OF digest_law _ _ fr])
    show "object_paths E key' m \<subseteq> version_paths E key' (object_generation m)"
      using assms(2) that by (auto simp: owned_def)
    have "object_generation m < ?g" if "key' = key"
      using that \<open>mv_blocks (mview s) (to_string_key key') = Some m\<close> by (simp add: gen_base_def less_Suc_eq_le)
    then show "(object_digest (se_hash E) key', object_generation m) \<noteq> (object_digest (se_hash E) key, ?g)"
      using assms(3) by auto
  qed
  show "holds E (mv_blocks (mview s')) (files s') key' d \<longleftrightarrow>
      (if key' = key then d = data else holds E (mv_blocks (mview s)) (files s) key' d)" if "b = Inr True"
  proof -
    obtain m where m: "mv_blocks (mview s') = (mv_blocks (mview s))(to_string_key key \<mapsto> m)" "intact (files s') E key m data"
      using assms(1) \<open>b = Inr True\<close> by (auto simp: put_outcome_def)
    show ?thesis
    proof (cases "key' = key")
      case True
      have "intact (files s') E key m d \<longleftrightarrow> d = data" using m(2) intact_deterministic by metis
      then show ?thesis using True m(1) by (simp add: holds_def)
    next
      case False
      then have "mv_blocks (mview s') (to_string_key key') = mv_blocks (mview s) (to_string_key key')"
        using m(1) by (simp add: to_string_key_eq)
      then show ?thesis using False old by (simp add: holds_def) metis
    qed
  qed
  show "holds E (mv_blocks (mview s')) (files s') key' d \<longleftrightarrow> holds E (mv_blocks (mview s)) (files s) key' d" if "b \<noteq> Inr True"
  proof -
    have "mv_blocks (mview s') = mv_blocks (mview s)" using assms(1) \<open>b \<noteq> Inr True\<close> by (simp add: put_outcome_def)
    then show ?thesis using old by (auto simp: holds_def)
  qed
  show "owned E (mv_blocks (mview s'))"
  proof (cases "b = Inr True")
    case True
    then obtain m where "mv_blocks (mview s') = (mv_blocks (mview s))(to_string_key key \<mapsto> m)"
      "object_paths E key m \<subseteq> version_paths E key (object_generation m)"
      using assms(1) by (auto simp: put_outcome_def)
    then show ?thesis using assms(2) by (auto simp: owned_def to_string_key_eq)
  qed (use assms(1,2) in \<open>simp add: put_outcome_def\<close>)
qed

lemma get_refines:
  assumes "minv (st_meta s)" "holds E (mv_blocks (mview s)) (files s) key data"
    "mv_blocks (mview s) (to_string_key key) = Some m0" "\<not> is_expired_at m0 now"
    "storage_get E now key s = (r, s')"
  shows "r = Inr (Some (d, m)) \<Longrightarrow> d = data \<and> mv_blocks (mview s) (to_string_key key) = Some m"
    "same_files content (st_exec s) (st_exec s')" "minv (st_meta s')"
    "quiet (st_exec s) \<Longrightarrow> \<not> is_ok r \<or> (\<exists>m. r = Inr (Some (data, m)))"
proof -
  have m0: "mv_blocks (mview s) (to_string_key key) = Some m0" "intact (files s) E key m0 data"
    using assms(2,3) by (simp_all add: holds_def)
  obtain x s1 where x: "on_meta (mo_get_block (se_mo E) (to_string_key key)) s = (x, s1)" by fastforce
  note g = get_block_spec [OF assms(1) x]
  have "(\<forall>d m. r = Inr (Some (d, m)) \<longrightarrow> d = data \<and> mv_blocks (mview s) (to_string_key key) = Some m)
    \<and> same_files content (st_exec s) (st_exec s') \<and> minv (st_meta s')
    \<and> (quiet (st_exec s) \<longrightarrow> \<not> is_ok r \<or> (\<exists>m. r = Inr (Some (data, m))))"
  proof (cases x)
    case (Inl e)
    then show ?thesis
      using assms(5) x g by (auto simp: storage_get_def with_block_def io_step_def same_files_def)
  next
    case (Inr b)
    then have "b = Some m0" using g(4) m0(1) by simp
    then have "get_with_meta E now key m0 s1 = (r, s')"
      using assms(5) x Inr by (simp add: storage_get_def with_block_def io_step_def)
    from get_with_meta_outcome [OF g(2) _ assms(4) this] show ?thesis
      using m0 g by (auto simp: read_outcome_def)
  qed
  then show "r = Inr (Some (d, m)) \<Longrightarrow> d = data \<and> mv_blocks (mview s) (to_string_key key) = Some m"
    "same_files content (st_exec s) (st_exec s')" "minv (st_meta s')"
    "quiet (st_exec s) \<Longrightarrow> \<not> is_ok r \<or> (\<exists>m. r = Inr (Some (data, m)))" by blast+
qed

end


section \<open>The concrete stack\<close>

definition stack_ok :: "(world, 'b MemoryMetadataInner) StorageEnv \<Rightarrow> 'b serde \<Rightarrow> bool" where
  "stack_ok E sd \<longleftrightarrow> se_io E = tier_a_ops \<and> se_mo E = memory_ops sd \<and> serde_ok sd
     \<and> router_ok (se_router E) \<and> hex_digest (se_hash E) \<and> 0 < se_striping_chunk_size E
     \<and> (\<forall>segs. se_hash64_stream E segs = hash64 (se_hash E) (concat segs))"

lemma stack_live:
  assumes "stack_ok E sd"
  shows "live_storage E w_files calm (memory_view sd) (memory_inv sd) task_id (\<lambda>m. mm_fail_next_puts m = 0)"
proof -
  have "storage_system E w_files calm (memory_view sd) (memory_inv sd) task_id"
    using assms tier_a.io_executor_axioms metadata_store.axioms(1) [OF memory_metadata_store [of sd]]
    by (auto simp: stack_ok_def storage_system_def storage_system_axioms_def)
  moreover have "live_store (se_mo E) (memory_view sd) (memory_inv sd) task_id (\<lambda>m. mm_fail_next_puts m = 0)"
    using assms memory_live_store [of sd] by (simp add: stack_ok_def)
  ultimately show ?thesis by (rule live_storage.intro)
qed

locale storage_stack =
  fixes E :: "(world, 'b MemoryMetadataInner) StorageEnv" and sd :: "'b serde"
  assumes stack: "stack_ok E sd"

sublocale storage_stack \<subseteq> live_storage E w_files calm "memory_view sd" "memory_inv sd" task_id "\<lambda>m. mm_fail_next_puts m = 0"
  by (rule stack_live [OF stack])

abbreviation blocks_of :: "'b serde \<Rightarrow> (world, 'b MemoryMetadataInner) StorageTier \<Rightarrow> string \<Rightarrow> BlockMeta option" where
  "blocks_of sd s \<equiv> mv_blocks (memory_view sd (st_meta s))"

abbreviation files_of :: "(world, 'b MemoryMetadataInner) StorageTier \<Rightarrow> string \<Rightarrow> bytes option" where
  "files_of s \<equiv> w_files (st_exec s)"

text \<open>
  \<open>store_ok\<close> is the invariant of the tier; \<open>can_write\<close> bounds the object (a Rust allocation), the
  chunk size and the generation counter.
\<close>

definition store_ok :: "(world, 'b MemoryMetadataInner) StorageEnv \<Rightarrow> 'b serde \<Rightarrow> (world, 'b MemoryMetadataInner) StorageTier \<Rightarrow> bool" where
  "store_ok E sd s \<longleftrightarrow> stack_ok E sd \<and> memory_inv sd (st_meta s) \<and> owned E (blocks_of sd s)"

definition can_write ::
  "(world, 'b MemoryMetadataInner) StorageEnv \<Rightarrow> 'b serde \<Rightarrow> ObjectKey \<Rightarrow> bytes \<Rightarrow> (world, 'b MemoryMetadataInner) StorageTier \<Rightarrow> bool" where
  "can_write E sd key data s \<longleftrightarrow> gen_room (to_string_key key) (memory_view sd (st_meta s))
     \<and> fits_isize data \<and> length data + se_striping_chunk_size E < 2 ^ 64"

lemma can_write_system:
  assumes "store_ok E sd s" "can_write E sd key data s"
  shows "storage_system E w_files calm (memory_view sd) (memory_inv sd) task_id"
    "storage_system.writes_to E (memory_view sd) (memory_inv sd) key data s"
proof -
  have st: "storage_stack E sd" using assms(1) by unfold_locales (simp add: store_ok_def)
  then show "storage_system E w_files calm (memory_view sd) (memory_inv sd) task_id"
    using stack_live [of E sd] assms(1) by (simp add: store_ok_def live_storage_def)
  then show "storage_system.writes_to E (memory_view sd) (memory_inv sd) key data s"
    using assms by (simp add: storage_system.writes_to_def store_ok_def can_write_def)
qed

definition sample_env :: "(world, BlockMeta MemoryMetadataInner) StorageEnv" where
  "sample_env =
     \<lparr> se_router = sample_router, se_io = tier_a_ops, se_mo = memory_ops plain_serde, se_hash = sample_hashers,
       se_hash64_stream = (\<lambda>segs. hash64 sample_hashers (concat segs)), se_striping_threshold = 2,
       se_striping_chunk_size = 2, se_rdma_stream_chunk_size = 4096, se_verify_stripe_checksums = True,
       se_gc_grace_seconds = 60 \<rparr>"

lemma stack_ok_sample: "stack_ok sample_env plain_serde"
  by (simp add: stack_ok_def sample_env_def serde_ok_plain hex_digest_sample sample_router_def)

interpretation sample: storage_stack sample_env plain_serde
  by unfold_locales (rule stack_ok_sample)

definition sample_state :: "(world, BlockMeta MemoryMetadataInner) StorageTier" where
  "sample_state = storage_new_state sample_router \<lparr> w_files = (\<lambda>_. None), w_script = [], w_sync = False, w_pool = (\<lambda>_. []) \<rparr> memory_empty"

definition sample_meta :: BlockMeta where
  "sample_meta = \<lparr> device_id = 0, file_path = [], bm_size = 0, object_handle = [], object_generation = 0, content_etag = [],
     layout_version = 0, created_at = 100, last_accessed_at = 100, ttl_seconds = 0, num_tokens = 0, num_layers = 0,
     dtype = ''fp16'', compressed = False, striping = None \<rparr>"

lemma sample_store_ok: "store_ok sample_env plain_serde sample_state"
  by (simp add: store_ok_def stack_ok_sample sample_state_def storage_new_state_def memory_inv_empty owned_def
      memory_view_def) (simp add: memory_empty_def decoded_def)

lemma sample_can_write: "can_write sample_env plain_serde key [1, 2, 3, 4, 5] sample_state"
  by (simp add: can_write_def gen_room_def gen_base_def sample_state_def storage_new_state_def memory_view_def memory_empty_def
      decoded_def fits_isize_def sample_env_def)

lemma sample_healthy: "sample.healthy sample_state"
  by (simp add: sample.healthy_def sample_state_def storage_new_state_def calm_def memory_inv_empty) (simp add: memory_empty_def)



section \<open>Properties\<close>

text \<open>
  C5. Writing an object is a map update on the abstract store.  Whatever system calls fail or are cut
  short along the way: if the write reports success, the object now holds exactly the new bytes; if
  it reports an error, the object holds what it held before (the old version survives).  Every other
  object whose digest differs holds exactly what it held, and the invariant is kept.  The metadata
  service is the in-process one, where a write that fails has no effect and reads do not fail.
\<close>

theorem storage_put_refines:
  assumes "store_ok E sd s" "can_write E sd key data s" "storage_put E now key data meta s = (r, s')"
    "key' = key \<or> object_digest (se_hash E) key' \<noteq> object_digest (se_hash E) key"
  shows "(holds E (blocks_of sd s') (files_of s') key' d \<longleftrightarrow>
      (if r = Inr () \<and> key' = key then d = data else holds E (blocks_of sd s) (files_of s) key' d))
    \<and> store_ok E sd s'"
proof -
  note sys = can_write_system [OF assms(1,2)]
  obtain b where b: "storage_system.put_outcome E w_files (memory_view sd) (memory_inv sd) key data meta now False s b s'"
    "r = Inr () \<longleftrightarrow> b = Inr True"
    using storage_system.storage_put_outcome [OF sys assms(3)] by blast
  have own: "owned E (blocks_of sd s)" using assms(1) by (simp add: store_ok_def)
  note ref = storage_system.put_refines [OF sys(1) b(1) own assms(4)]
  have "memory_inv sd (st_meta s')" using b(1) by (simp add: storage_system.put_outcome_def [OF sys(1)])
  then have "store_ok E sd s'" using ref(3) assms(1) by (simp add: store_ok_def)
  moreover have "holds E (blocks_of sd s') (files_of s') key' d \<longleftrightarrow>
      (if r = Inr () \<and> key' = key then d = data else holds E (blocks_of sd s) (files_of s) key' d)"
  proof (cases "b = Inr True")
    case True
    then show ?thesis using ref(1) [OF True, of d] b(2) by (cases "key' = key") simp_all
  next
    case False
    then show ?thesis using ref(2) [OF False, of d] b(2) by simp
  qed
  ultimately show ?thesis by blast
qed

theorem storage_put_refines_witness:
  "\<exists>s'. storage_put sample_env 100 sample_key [1, 2, 3, 4, 5] sample_meta sample_state = (Inr (), s')
     \<and> holds sample_env (blocks_of plain_serde s') (files_of s') sample_key [1, 2, 3, 4, 5]
     \<and> store_ok sample_env plain_serde s'"
proof -
  obtain s' where s': "storage_put sample_env 100 sample_key [1, 2, 3, 4, 5] sample_meta sample_state = (Inr (), s')"
    using sample.storage_put_live [OF sample_healthy] sample_can_write by (fastforce simp: can_write_def)
  show ?thesis
    using storage_put_refines [OF sample_store_ok sample_can_write s', of sample_key "[1, 2, 3, 4, 5]"] s' by simp
qed



text \<open>
  C14. A write goes through when nothing fails: with no failing system call and a metadata store that
  answers, storing an object of any size returns success, striped or not.
\<close>

theorem storage_put_succeeds:
  assumes "store_ok E sd s" "can_write E sd key data s" "calm (st_exec s)" "mm_fail_next_puts (st_meta s) = 0"
  shows "\<exists>s'. storage_put E now key data meta s = (Inr (), s') \<and> calm (st_exec s')"
proof -
  have st: "live_storage E w_files calm (memory_view sd) (memory_inv sd) task_id (\<lambda>m. mm_fail_next_puts m = 0)"
    using stack_live assms(1) unfolding store_ok_def by blast
  have "live_storage.healthy calm (memory_inv sd) (\<lambda>m. mm_fail_next_puts m = 0) s"
    using assms by (simp add: live_storage.healthy_def [OF st] store_ok_def)
  then show ?thesis
    using live_storage.storage_put_live [OF st, of s key now data meta] assms(2)
    by (auto simp: can_write_def live_storage.healthy_def [OF st])
qed

theorem storage_put_succeeds_witness:
  "\<exists>s'. storage_put sample_env 100 sample_key [1, 2, 3, 4, 5] sample_meta sample_state = (Inr (), s') \<and> calm (st_exec s')"
  by (rule storage_put_succeeds [OF sample_store_ok sample_can_write])
    (simp_all add: sample_state_def storage_new_state_def calm_def memory_empty_def)

end
