(* ===== verification/Object_Store.thy ===== *)
theory Object_Store
  imports Storage_Props
begin

text \<open>
  The storage tier as an object store: a map from keys to bytes that every operation updates or leaves
  alone.  \<open>tracks K A s\<close> says that everything the tier has published for the keys of \<open>K\<close> is among what
  \<open>A\<close> records for it.  A published object may be lost again (a read finds its file unreadable and
  drops the entry), but what is published is never anything else.
\<close>

context storage_system
begin

abbreviation blocks :: "('x, 'm) StorageTier \<Rightarrow> string \<Rightarrow> BlockMeta option" where
  "blocks s \<equiv> mv_blocks (mview s)"

definition tracks :: "ObjectKey set \<Rightarrow> (ObjectKey \<Rightarrow> bytes set) \<Rightarrow> ('x, 'm) StorageTier \<Rightarrow> bool" where
  "tracks K A s \<longleftrightarrow> minv (st_meta s) \<and> owned E (blocks s)
     \<and> (\<forall>key \<in> K. \<forall>m. blocks s (to_string_key key) = Some m \<longrightarrow>
          (\<exists>d. d \<in> A key \<and> intact (files s) E key m d))"

lemma tracks_minv: "tracks K A s \<Longrightarrow> minv (st_meta s)"
  by (simp add: tracks_def)

lemma tracks_mono: "tracks K A s \<Longrightarrow> (\<And>key. key \<in> K \<Longrightarrow> A key \<subseteq> A' key) \<Longrightarrow> tracks K A' s"
  unfolding tracks_def by blast

lemma tracksD:
  assumes "tracks K A s" "key \<in> K" "blocks s (to_string_key key) = Some m"
  obtains d where "d \<in> A key" "intact (files s) E key m d"
  using assms by (auto simp: tracks_def)

text \<open>Same files, and metadata that at most lost entries.\<close>

definition shrinks :: "('x, 'm) StorageTier \<Rightarrow> ('x, 'm) StorageTier \<Rightarrow> bool" where
  "shrinks s s' \<longleftrightarrow> same_files content (st_exec s) (st_exec s') \<and> minv (st_meta s')
     \<and> (\<forall>k. blocks s' k = blocks s k \<or> blocks s' k = None)"

lemma tracks_shrinks:
  assumes "tracks K A s" "shrinks s s'"
  shows "tracks K A s'"
  unfolding tracks_def
proof (intro conjI ballI allI impI)
  show "minv (st_meta s')" using assms(2) by (simp add: shrinks_def)
  have sub: "blocks s k = Some m" if "blocks s' k = Some m" for k m
    using assms(2) that by (auto simp: shrinks_def dest: spec [of _ k])
  show "owned E (blocks s')" using assms(1) sub unfolding tracks_def owned_def by blast
  fix key m
  assume k: "key \<in> K" "blocks s' (to_string_key key) = Some m"
  obtain d where d: "d \<in> A key" "intact (files s) E key m d"
    by (rule tracksD [OF assms(1) k(1) sub [OF k(2)]])
  have "intact (files s') E key m d"
    by (rule intact_cong [OF d(2)]) (use assms(2) in \<open>simp add: shrinks_def same_files_def\<close>)
  then show "\<exists>d. d \<in> A key \<and> intact (files s') E key m d" using d(1) by blast
qed

lemma shrinks_trans: "shrinks s s1 \<Longrightarrow> shrinks s1 s2 \<Longrightarrow> shrinks s s2"
  unfolding shrinks_def same_files_def by metis

lemma shrinks_same: "minv (st_meta s') \<Longrightarrow> st_exec s' = st_exec s \<Longrightarrow> mview s' = mview s \<Longrightarrow> shrinks s s'"
  by (simp add: shrinks_def same_files_def)

lemma shrinks_purged: "purged key now s s' \<Longrightarrow> shrinks s s'"
  by (auto simp: purged_def shrinks_def same_files_def split: if_splits)

lemma shrinks_read: "read_outcome key y s r s' \<Longrightarrow> shrinks s s'"
  by (auto simp: read_outcome_def shrinks_def)

lemma shrinks_delete_current:
  assumes "minv (st_meta s)" "delete_metadata_if_current E key m s = (r, s')"
  shows "shrinks s s'"
  unfolding shrinks_def same_files_def using delete_current_frame [OF assms] by metis


section \<open>Writes\<close>

lemma tracks_put:
  assumes "put_outcome key data meta now if_absent s b s'" "tracks K A s" "key \<in> K"
    "inj_on (object_digest (se_hash E)) K"
  shows "tracks K (if b = Inr True then A(key := {data}) else A) s'"
  unfolding tracks_def
proof (intro conjI ballI allI impI)
  have own: "owned E (blocks s)" using assms(2) by (simp add: tracks_def)
  show "minv (st_meta s')" using assms(1) by (simp add: put_outcome_def)
  show "owned E (blocks s')" by (rule put_refines(3) [OF assms(1) own, of key]) simp
  fix key' m
  assume k: "key' \<in> K" "blocks s' (to_string_key key') = Some m"
  have dig: "key' = key \<or> object_digest (se_hash E) key' \<noteq> object_digest (se_hash E) key"
    using assms(3,4) k(1) by (auto dest: inj_onD)
  note ref = put_refines [OF assms(1) own dig]
  have keep: "\<exists>d. d \<in> A key' \<and> intact (files s') E key' m d"
    if eq: "\<And>d. holds E (blocks s') (files s') key' d \<longleftrightarrow> holds E (blocks s) (files s) key' d"
      and b: "blocks s' (to_string_key key') = blocks s (to_string_key key')"
  proof -
    obtain d where d: "d \<in> A key'" "intact (files s) E key' m d"
      by (rule tracksD [OF assms(2) k(1)]) (use k(2) b in simp_all)
    then have "holds E (blocks s') (files s') key' d" using eq k(2) b by (simp add: holds_def)
    then show ?thesis using d(1) k(2) by (auto simp: holds_def)
  qed
  show "\<exists>d. d \<in> (if b = Inr True then A(key := {data}) else A) key' \<and> intact (files s') E key' m d"
  proof (cases "b = Inr True \<and> key' = key")
    case True
    then have "holds E (blocks s') (files s') key data" using ref(1) by simp
    then show ?thesis using True k(2) by (simp add: holds_def)
  next
    case False
    have bl: "blocks s' (to_string_key key') = blocks s (to_string_key key')"
      using assms(1) False by (cases "b = Inr True") (auto simp: put_outcome_def to_string_key_eq)
    have "\<And>d. holds E (blocks s') (files s') key' d \<longleftrightarrow> holds E (blocks s) (files s) key' d"
      using ref(1,2) False by (cases "b = Inr True") auto
    from keep [OF this bl] show ?thesis using False by auto
  qed
qed

lemma put_tracks:
  assumes "\<exists>b. put_outcome key data meta now False s b s' \<and> (r = Inr () \<longleftrightarrow> b = Inr True)"
    "tracks K A s" "key \<in> K" "inj_on (object_digest (se_hash E)) K"
  shows "tracks K (if r = Inr () then A(key := {data}) else A) s'"
    "r = Inr () \<Longrightarrow> \<exists>m. blocks s' (to_string_key key) = Some m"
proof -
  obtain b where b: "put_outcome key data meta now False s b s'" "r = Inr () \<longleftrightarrow> b = Inr True" using assms(1) by blast
  show "tracks K (if r = Inr () then A(key := {data}) else A) s'"
    using tracks_put [OF b(1) assms(2-4)] unfolding b(2) .
  show "\<exists>m. blocks s' (to_string_key key) = Some m" if "r = Inr ()"
    using b that by (auto simp: put_outcome_def)
qed

lemma put_if_absent_outcome:
  assumes "writes_to key data s" "absent_or_expired E now key s = (g, s1)"
    "io_step (g, s1) (\<lambda>go s1. if \<not> go then (Inr False, s1) else f s1) = (r, s')"
    "\<And>s1 r s'. writes_to key data s1 \<Longrightarrow> f s1 = (r, s') \<Longrightarrow> put_outcome key data meta now True s1 r s'"
  shows "(r \<noteq> Inr True \<and> shrinks s s') \<or> (shrinks s s1 \<and> put_outcome key data meta now True s1 r s')"
proof -
  have mi: "minv (st_meta s)" using assms(1) by (simp add: writes_to_def)
  note p = absent_or_expired_spec [OF mi assms(2)]
  consider e where "g = Inl e" | "g = Inr False" | "g = Inr True" by (cases g) auto
  then show ?thesis
  proof cases
    case 3
    then have "f s1 = (r, s')" using assms(3) by (simp add: io_step_def)
    then show ?thesis using assms(4) purged_writes_to [OF p(1) assms(1)] shrinks_purged [OF p(1)] by blast
  qed (use assms(3) shrinks_purged [OF p(1)] in \<open>auto simp: io_step_def\<close>)
qed

lemma storage_put_if_absent_outcome:
  assumes "writes_to key data s" "storage_put_if_absent E now key data meta s = (r, s')"
  obtains (kept) "r \<noteq> Inr True" "shrinks s s'"
  | (stored) s1 where "shrinks s s1" "put_outcome key data meta now True s1 r s'"
proof -
  obtain g s1 where g: "absent_or_expired E now key s = (g, s1)" by fastforce
  let ?f = "\<lambda>s1. if should_stripe E (length data) then put_striped_chunks_impl E now key [data] (length data) meta True s1
       else put_single E now key data meta True s1"
  have f: "put_outcome key data meta now True s1 r s'" if "writes_to key data s1" "?f s1 = (r, s')" for s1 r s'
  proof (cases "should_stripe E (length data)")
    case True
    then show ?thesis
      using put_striped_chunks_outcome [of s1 key "[data]" now meta True r s'] that by (simp add: writes_to_def)
  next
    case False
    then show ?thesis using put_single_outcome [of s1 key data now meta True r s'] that by (simp add: writes_to_def)
  qed
  have "io_step (g, s1) (\<lambda>go s1. if \<not> go then (Inr False, s1) else ?f s1) = (r, s')"
    using assms(2) g by (simp add: storage_put_if_absent_def cong: if_cong)
  from put_if_absent_outcome [OF assms(1) g this f] show ?thesis using that by blast
qed

lemma storage_put_chunks_if_absent_outcome:
  assumes "writes_to key (concat segs) s" "storage_put_chunks_if_absent E now key segs meta s = (r, s')"
  obtains (kept) "r \<noteq> Inr True" "shrinks s s'"
  | (stored) s1 where "shrinks s s1" "put_outcome key (concat segs) meta now True s1 r s'"
proof (cases "should_stripe E (length (concat segs))")
  case False
  then have "storage_put_if_absent E now key (concat segs) meta s = (r, s')"
    using assms(2) by (simp add: storage_put_chunks_if_absent_def Let_def)
  then show ?thesis using storage_put_if_absent_outcome [OF assms(1)] that by blast
next
  case True
  obtain g s1 where g: "absent_or_expired E now key s = (g, s1)" by fastforce
  have f: "put_outcome key (concat segs) meta now True s1 r s'"
    if "writes_to key (concat segs) s1" "put_striped_chunks_impl E now key segs (length (concat segs)) meta True s1 = (r, s')" for s1 r s'
    using put_striped_chunks_outcome [OF _ _ _ _ that(2)] that(1) by (simp add: writes_to_def)
  have "io_step (g, s1) (\<lambda>go s1. if \<not> go then (Inr False, s1)
      else put_striped_chunks_impl E now key segs (length (concat segs)) meta True s1) = (r, s')"
    using assms(2) g True by (simp add: storage_put_chunks_if_absent_def Let_def)
  from put_if_absent_outcome [OF assms(1) g this f] show ?thesis using that by blast
qed

lemma if_absent_tracks:
  assumes "(r \<noteq> Inr True \<and> shrinks s s') \<or> (shrinks s s1 \<and> put_outcome key data meta now True s1 r s')"
    "tracks K A s" "key \<in> K" "inj_on (object_digest (se_hash E)) K"
  shows "tracks K (if r = Inr True then A(key := {data}) else A) s'"
    "r = Inr True \<Longrightarrow> \<exists>m. blocks s' (to_string_key key) = Some m"
proof -
  show "tracks K (if r = Inr True then A(key := {data}) else A) s'"
    using assms(1)
  proof (elim disjE conjE)
    assume "shrinks s s1" "put_outcome key data meta now True s1 r s'"
    then show ?thesis using tracks_put [OF _ tracks_shrinks [OF assms(2)] assms(3,4)] by blast
  qed (use tracks_shrinks [OF assms(2)] in simp)
  show "\<exists>m. blocks s' (to_string_key key) = Some m" if "r = Inr True"
    using assms(1) that by (auto simp: put_outcome_def)
qed


section \<open>Reads\<close>

lemma purge_current:
  assumes "minv (st_meta s)" "blocks s (to_string_key key) = Some m" "is_expired_at m now"
    "purge_if_expired E now key m s = (r, s')"
  shows "r \<noteq> Inr False"
proof
  assume r: "r = Inr False"
  let ?k = "to_string_key key" and ?nb = "gc_not_before E now"
  obtain x s1 where x: "on_meta (mo_get_block (se_mo E) ?k) s = (x, s1)" by fastforce
  note g = get_block_spec [OF assms(1) x]
  have "x = Inr (Some m)"
    using g(4) assms(2-4) x r
    by (cases x) (auto simp: purge_if_expired_def delete_expired_current_locked_def io_step_def)
  then have "on_meta (mo_retire_block_if_matches (se_mo E) ?k m ?nb) s1 = (Inr False, s')"
    using assms(3,4) x r
    by (simp add: purge_if_expired_def delete_expired_current_locked_def io_step_def meta_identity_matches_def)
  then obtain m1 where "mo_retire_block_if_matches (se_mo E) ?k m ?nb (st_meta s1) = (Inr False, m1)"
    by (auto simp: on_meta_eq)
  then show False
    using ms.retire_if_law [OF g(2), where key = ?k and b = m and nb = ?nb] g(3) assms(2) by (simp add: step_ok_def same_version_def)
qed

text \<open>
  \<open>reads_ok key m y s r s'\<close>: a read through the current entry \<open>m\<close> of \<open>key\<close>; it answers with \<open>y\<close> or not
  at all, and never with an expired object.
\<close>

definition reads_ok :: "int \<Rightarrow> BlockMeta \<Rightarrow> ('b \<Rightarrow> bool) \<Rightarrow> ('x, 'm) StorageTier \<Rightarrow> 'b option res \<Rightarrow> ('x, 'm) StorageTier \<Rightarrow> bool" where
  "reads_ok now m ok s r s' \<longleftrightarrow> shrinks s s'
     \<and> (\<forall>x. r = Inr (Some x) \<longrightarrow> ok x \<and> \<not> is_expired_at m now \<and> mview s' = mview s)"

lemma reads_ok_shrinks: "reads_ok now m ok s r s' \<Longrightarrow> shrinks s s'"
  by (simp add: reads_ok_def)

lemma reads_ok_cases:
  assumes "minv (st_meta s)" "blocks s (to_string_key key) = Some m"
    "io_step (purge_if_expired E now key m s) (\<lambda>gone s1. if gone then (Inr None, s1) else f s1) = (r, s')"
    "\<And>r s'. \<not> is_expired_at m now \<Longrightarrow> f s = (r, s') \<Longrightarrow> read_outcome key y s r s'" "ok y"
  shows "reads_ok now m ok s r s'"
proof (cases "is_expired_at m now")
  case True
  obtain p s1 where p: "purge_if_expired E now key m s = (p, s1)" by fastforce
  have np: "p \<noteq> Inr False" by (rule purge_current [OF assms(1,2) True p])
  have "s' = s1" "\<And>x. r \<noteq> Inr (Some x)"
    using assms(3) p np by (cases p; auto simp: io_step_def)+
  then show ?thesis
    using shrinks_purged [OF purge_spec(1) [OF assms(1) p]] by (simp add: reads_ok_def)
next
  case False
  then have "f s = (r, s')" using assms(3) by (simp add: purge_if_expired_def io_step_ok)
  note o = assms(4) [OF False this]
  show ?thesis using False assms(5) shrinks_read [OF o] o by (auto simp: reads_ok_def read_outcome_def)
qed

lemma get_with_meta_reads:
  assumes "tracks K A s" "key \<in> K" "blocks s (to_string_key key) = Some m" "get_with_meta E now key m s = (r, s')"
  shows "reads_ok now m (\<lambda>x. \<exists>d. x = (d, m) \<and> d \<in> A key) s r s'"
proof -
  obtain d where d: "d \<in> A key" "intact (files s) E key m d" by (rule tracksD [OF assms(1-3)])
  note mi = tracks_minv [OF assms(1)]
  show ?thesis
  proof (rule reads_ok_cases [OF mi assms(3) assms(4) [unfolded get_with_meta_def], where y = "(d, m)"], goal_cases)
    case (1 r1 s1)
    have "get_with_meta E now key m s = (r1, s1)"
      using 1 by (simp add: get_with_meta_def purge_if_expired_def io_step_ok)
    then show ?case by (rule get_with_meta_outcome [OF mi d(2) 1(1)])
  qed (use d in simp)
qed

lemma get_chunks_with_meta_outcome:
  assumes "minv (st_meta s)" "intact (files s) E key m data" "\<not> is_expired_at m now" "get_chunks_with_meta E now key m s = (r, s')"
  shows "\<exists>cs. concat cs = data \<and> read_outcome key (cs, m) s r s'"
proof (cases "striping m")
  case None
  obtain x s1 where x: "read_single E key m s = (x, s1)" by fastforce
  have "read_outcome key data s x s1"
    using read_single_spec [OF assms(1) _ _ _ x] assms(2) None by (simp add: intact_def)
  then have "read_outcome key ([data], m) s r s'"
    by (rule read_outcome_map)
      (use assms(3,4) None x in \<open>simp add: get_chunks_with_meta_def purge_if_expired_def io_step_ok\<close>)
  then show ?thesis by (intro exI [of _ "[data]"]) simp
next
  case (Some st)
  obtain cs where cs: "stripes_hold (files s) E st cs" "data = concat cs" using assms(2) Some by (auto simp: intact_def)
  obtain x s1 where x: "read_striped_chunks E st s = (x, s1)" by fastforce
  note sp = read_striped_chunks_spec [OF cs(1) x]
  have "read_outcome key (cs, m) s r s'"
    by (rule drop_unreadable_outcome [OF assms(1) sp(1,2), where x = x and cs = cs and m = m
          and ?s2.0 = "count_read (length (concat cs)) s1" and k = "\<lambda>segments s2. (Inr (Some (segments, m)), count_read (length (concat segments)) s2)"])
      (use sp assms(3,4) Some x in \<open>simp_all add: get_chunks_with_meta_def purge_if_expired_def io_step_ok\<close>)
  then show ?thesis using cs(2) by blast
qed

lemma get_chunks_with_meta_reads:
  assumes "tracks K A s" "key \<in> K" "blocks s (to_string_key key) = Some m" "get_chunks_with_meta E now key m s = (r, s')"
  shows "reads_ok now m (\<lambda>x. \<exists>cs. x = (cs, m) \<and> concat cs \<in> A key) s r s'"
proof -
  obtain d where d: "d \<in> A key" "intact (files s) E key m d" by (rule tracksD [OF assms(1-3)])
  note mi = tracks_minv [OF assms(1)]
  show ?thesis
  proof (cases "is_expired_at m now")
    case True
    then show ?thesis
      by (intro reads_ok_cases [OF mi assms(3) assms(4) [unfolded get_chunks_with_meta_def], where y = "([d], m)"])
        (use d in simp_all)
  next
    case False
    obtain cs where cs: "concat cs = d" "read_outcome key (cs, m) s r s'"
      using get_chunks_with_meta_outcome [OF mi d(2) False assms(4)] by blast
    then show ?thesis using d(1) False shrinks_read [OF cs(2)] by (auto simp: reads_ok_def read_outcome_def)
  qed
qed

text \<open>\<open>answers K A now key bytes s r s'\<close>: the answer to a read of \<open>key\<close>, with its current metadata.\<close>

definition answers ::
  "(ObjectKey \<Rightarrow> bytes set) \<Rightarrow> int \<Rightarrow> ObjectKey \<Rightarrow> ('b \<Rightarrow> bytes) \<Rightarrow> ('x, 'm) StorageTier \<Rightarrow> ('b \<times> BlockMeta) option res
     \<Rightarrow> ('x, 'm) StorageTier \<Rightarrow> bool" where
  "answers A now key body s r s' \<longleftrightarrow> shrinks s s'
     \<and> (\<forall>y m. r = Inr (Some (y, m)) \<longrightarrow> body y \<in> A key \<and> blocks s' (to_string_key key) = Some m \<and> \<not> is_expired_at m now)"

lemma with_block_answers:
  assumes "tracks K A s" "key \<in> K" "with_block E key f s = (r, s')"
    "\<And>m s1 r s'. tracks K A s1 \<Longrightarrow> blocks s1 (to_string_key key) = Some m \<Longrightarrow> f m s1 = (r, s') \<Longrightarrow>
       reads_ok now m (\<lambda>x. \<exists>y. x = (y, m) \<and> body y \<in> A key) s1 r s'"
  shows "answers A now key body s r s'"
proof -
  obtain x s1 where x: "on_meta (mo_get_block (se_mo E) (to_string_key key)) s = (x, s1)" by fastforce
  note g = get_block_spec [OF tracks_minv [OF assms(1)] x]
  have sh: "shrinks s s1" using g by (intro shrinks_same) simp_all
  consider (err) e where "x = Inl e" | (none) "x = Inr None" | (some) m where "x = Inr (Some m)"
    by (cases x) auto
  then show ?thesis
  proof cases
    case some
    then have m: "blocks s1 (to_string_key key) = Some m" using g(3,4) by simp
    have "f m s1 = (r, s')" using assms(3) x some by (simp add: with_block_def io_step_ok)
    from assms(4) [OF tracks_shrinks [OF assms(1) sh] m this] show ?thesis
      using shrinks_trans [OF sh] m by (auto simp: reads_ok_def answers_def)
  qed (use assms(3) x sh in \<open>auto simp: with_block_def io_step_def answers_def\<close>)
qed

lemma storage_get_answers:
  assumes "tracks K A s" "key \<in> K" "storage_get E now key s = (r, s')"
  shows "answers A now key id s r s'"
  by (rule with_block_answers [OF assms(1,2) assms(3) [unfolded storage_get_def]])
    (use get_with_meta_reads assms(2) in fastforce)

lemma storage_get_chunks_answers:
  assumes "tracks K A s" "key \<in> K" "storage_get_chunks E now key s = (r, s')"
  shows "answers A now key concat s r s'"
  by (rule with_block_answers [OF assms(1,2) assms(3) [unfolded storage_get_chunks_def]])
    (use get_chunks_with_meta_reads assms(2) in fastforce)

lemma storage_exists_answers:
  assumes "tracks K A s" "key \<in> K" "storage_exists E now key s = (r, s')"
  shows "shrinks s s'" "r = Inr True \<Longrightarrow> A key \<noteq> {} \<and> (\<exists>m. blocks s (to_string_key key) = Some m \<and> \<not> is_expired_at m now)"
proof -
  obtain x s1 where x: "on_meta (mo_get_block (se_mo E) (to_string_key key)) s = (x, s1)" by fastforce
  note g = get_block_spec [OF tracks_minv [OF assms(1)] x]
  have sh: "shrinks s s1" using g by (intro shrinks_same) simp_all
  have "shrinks s s' \<and> (r = Inr True \<longrightarrow> A key \<noteq> {} \<and> (\<exists>m. blocks s (to_string_key key) = Some m \<and> \<not> is_expired_at m now))"
  proof (cases x)
    case (Inl e)
    then show ?thesis using assms(3) x sh by (auto simp: storage_exists_def io_step_def)
  next
    case (Inr b)
    show ?thesis
    proof (cases b)
      case None
      then show ?thesis using assms(3) x sh Inr by (auto simp: storage_exists_def io_step_def)
    next
      case (Some m)
      have m: "blocks s (to_string_key key) = Some m" using g(4) Inr Some by simp
      have A: "A key \<noteq> {}" by (rule tracksD [OF assms(1,2) m]) blast
      show ?thesis
      proof (cases "is_expired_at m now")
        case True
        obtain p s2 where p: "purge_if_expired E now key m s1 = (p, s2)" by fastforce
        have "r = Inr False" "s' = s2" using assms(3) x Inr Some True p by (auto simp: storage_exists_def io_step_def)
        then show ?thesis using shrinks_trans [OF sh shrinks_purged [OF purge_spec(1) [OF g(2) p]]] by simp
      next
        case False
        obtain p s2 where p: "delete_metadata_if_current E key m s1 = (p, s2)" by fastforce
        have "s' = s1 \<or> s' = s2"
          using assms(3) x Inr Some False p by (auto simp: storage_exists_def io_step_def split: if_splits sum.splits)
        then show ?thesis
          using sh shrinks_trans [OF sh shrinks_delete_current [OF g(2) p]] A m False by auto
      qed
    qed
  qed
  then show "shrinks s s'" "r = Inr True \<Longrightarrow> A key \<noteq> {} \<and> (\<exists>m. blocks s (to_string_key key) = Some m \<and> \<not> is_expired_at m now)"
    by blast+
qed

lemma storage_retire_tracks:
  assumes "tracks K A s" "storage_retire E now key s = (r, s')"
  shows "shrinks s s'" "is_ok r \<Longrightarrow> blocks s' (to_string_key key) = None"
proof -
  obtain x m1 where x: "mo_retire_block (se_mo E) (to_string_key key) (gc_not_before E now) (st_meta s) = (x, m1)" by fastforce
  have s': "s' = s\<lparr> st_meta := m1 \<rparr>" "is_ok r = is_ok x"
    using assms(2) x by (auto simp: storage_retire_def on_meta_def io_step_def split: sum.splits)
  have law: "step_ok view minv (st_meta s) (\<lambda>y v. y = blocks s (to_string_key key)
      \<and> v = spec_publish tid (to_string_key key) None (gc_not_before E now) (mview s)) (x, m1)"
    using ms.retire_law [OF tracks_minv [OF assms(1)], of "to_string_key key" "gc_not_before E now"] x by simp
  have "mv_blocks (spec_publish tid k None nb v) = (mv_blocks v)(k := None)" for k nb v
    by (simp add: spec_publish_def spec_set_def spec_enqueue_def split: option.splits)
  then show "shrinks s s'" "is_ok r \<Longrightarrow> blocks s' (to_string_key key) = None"
    using law s' by (cases x; auto simp: step_ok_def shrinks_def same_files_def)+
qed


section \<open>Batched reads\<close>

text \<open>\<open>slot_ok\<close>: what phase one of \<open>get_batch\<close> leaves for a key, judged against the files of \<open>s\<close>.\<close>

definition slot_ok ::
  "(ObjectKey \<Rightarrow> bytes set) \<Rightarrow> int \<Rightarrow> ('x, 'm) StorageTier \<Rightarrow> ObjectKey \<Rightarrow> get_result + string \<times> BlockMeta \<times> nat \<Rightarrow> bool" where
  "slot_ok A now s key slot \<longleftrightarrow>
     (case slot of
        Inl r \<Rightarrow> \<forall>d m. r = Inr (Some (d, m)) \<longrightarrow> d \<in> A key \<and> \<not> is_expired_at m now
      | Inr (path, m, dev) \<Rightarrow> managed path \<and> (\<exists>d \<in> A key. files s path = Some d) \<and> \<not> is_expired_at m now)"

lemma slot_ok_shrinks: "slot_ok A now s key slot \<Longrightarrow> shrinks s s' \<Longrightarrow> slot_ok A now s' key slot"
  by (auto simp: slot_ok_def shrinks_def same_files_def split: sum.splits)

lemma batch_slot_ok:
  assumes "tracks K A s" "key \<in> K" "batch_slot E now key s = (slot, s')"
  shows "shrinks s s' \<and> slot_ok A now s' key slot"
proof -
  obtain x s1 where x: "on_meta (mo_get_block (se_mo E) (to_string_key key)) s = (x, s1)" by fastforce
  note g = get_block_spec [OF tracks_minv [OF assms(1)] x]
  have sh: "shrinks s s1" using g by (intro shrinks_same) simp_all
  note tr1 = tracks_shrinks [OF assms(1) sh]
  consider (err) e where "x = Inl e" | (none) "x = Inr None" | (some) m where "x = Inr (Some m)"
    by (cases x) auto
  then show ?thesis
  proof cases
    case some
    then have m: "blocks s1 (to_string_key key) = Some m" using g(3,4) by simp
    obtain d where d: "d \<in> A key" "intact (files s1) E key m d" by (rule tracksD [OF tr1 assms(2) m])
    obtain p s2 where p: "purge_if_expired E now key m s1 = (p, s2)" by fastforce
    have shp: "shrinks s s2" using shrinks_trans [OF sh shrinks_purged [OF purge_spec(1) [OF g(2) p]]] .
    show ?thesis
    proof (cases "is_expired_at m now")
      case True
      have "p \<noteq> Inr False" by (rule purge_current [OF g(2) m True p])
      then show ?thesis
        using assms(3) x some p shp by (cases p) (auto simp: batch_slot_def slot_ok_def)
    next
      case False
      then have p': "p = Inr False" "s2 = s1" using purge_spec(2) [OF g(2) p] by simp_all
      show ?thesis
      proof (cases "striping m")
        case (Some st)
        obtain r s3 where r: "drop_unreadable E key m (read_striped E st s1)
            (\<lambda>data s3. (Inr (Some (data, m)), count_read (length data) s3)) = (r, s3)" by fastforce
        have "get_with_meta E now key m s1 = (r, s3)" using r p p' Some by (simp add: get_with_meta_def io_step_ok)
        from get_with_meta_reads [OF tr1 assms(2) m this]
        have "shrinks s1 s3" "\<forall>x. r = Inr (Some x) \<longrightarrow> (\<exists>d. x = (d, m) \<and> d \<in> A key)" by (auto simp: reads_ok_def)
        then show ?thesis
          using assms(3) x some p p' Some r shrinks_trans [OF sh] False by (auto simp: batch_slot_def slot_ok_def)
      next
        case None
        have i: "managed (meta_path_or_route E key m)" "files s1 (meta_path_or_route E key m) = Some d"
          using d(2) None by (simp_all add: intact_def)
        then have "io_file_exists (se_io E) (meta_path_or_route E key m) (st_exec s1)" using io.exists_law by simp
        then have "slot = Inr (meta_path_or_route E key m, m, meta_device_or_route E key m)" "s' = s1"
          using assms(3) x some p p' None by (simp_all add: batch_slot_def Let_def)
        then show ?thesis using sh i d(1) False by (simp add: slot_ok_def)
      qed
    qed
  qed (use assms(3) x sh in \<open>auto simp: batch_slot_def slot_ok_def\<close>)
qed

lemma batch_slots_ok:
  assumes "tracks K A s" "set keys \<subseteq> K" "batch_slots E now keys s = (slots, s')"
  shows "shrinks s s' \<and> list_all2 (slot_ok A now s') keys slots"
  using assms
proof (induction keys arbitrary: s slots s')
  case Nil
  then show ?case by (simp add: shrinks_same tracks_minv)
next
  case (Cons k ks)
  obtain slot s1 where b: "batch_slot E now k s = (slot, s1)" by fastforce
  obtain rest s2 where r: "batch_slots E now ks s1 = (rest, s2)" by fastforce
  have e: "slots = slot # rest" "s' = s2" using Cons.prems(3) b r by simp_all
  have h: "shrinks s s1" "slot_ok A now s1 k slot"
    using batch_slot_ok [OF Cons.prems(1) _ b] Cons.prems(2) by simp_all
  have t: "shrinks s1 s2" "list_all2 (slot_ok A now s2) ks rest"
    using Cons.IH [OF tracks_shrinks [OF Cons.prems(1) h(1)] _ r] Cons.prems(2) by simp_all
  show ?case unfolding e using h t shrinks_trans slot_ok_shrinks by auto
qed

lemma fill_slots_ok:
  assumes "\<And>i path m dev r. ((i, path, m, dev), r) \<in> set jobs \<Longrightarrow> i < length results \<Longrightarrow> P i (map_sum id (\<lambda>d. Some (d, m)) r)"
    "\<And>i r. i < length results \<Longrightarrow> results ! i = Some r \<Longrightarrow> P i r" "fill_slots jobs results s = (out, s')"
  shows "length out = length results \<and> st_exec s' = st_exec s \<and> st_meta s' = st_meta s
    \<and> (\<forall>i < length out. \<forall>r. out ! i = Some r \<longrightarrow> P i r)"
  using assms
proof (induction jobs arbitrary: results s)
  case (Cons j jobs)
  obtain i path m dev r where j: "j = ((i, path, m, dev), r)" by (cases j) auto
  let ?res = "results[i := Some (map_sum id (\<lambda>d. Some (d, m)) r)]"
  obtain s1 where s1: "fill_slots jobs ?res s1 = (out, s')" "st_exec s1 = st_exec s" "st_meta s1 = st_meta s"
    using Cons.prems(3) by (cases r) (auto simp: j intro: that)
  have "length out = length ?res \<and> st_exec s' = st_exec s1 \<and> st_meta s' = st_meta s1
    \<and> (\<forall>i < length out. \<forall>r. out ! i = Some r \<longrightarrow> P i r)"
  proof (rule Cons.IH [OF _ _ s1(1)], goal_cases)
    case (1 i' path' m' dev' r')
    then show ?case using Cons.prems(1) [of i' path' m' dev' r'] by simp
  next
    case (2 i' r')
    then show ?case using Cons.prems(1) [of i path m dev r] Cons.prems(2) [of i' r'] j by (cases "i' = i") (auto simp: id_def)
  qed
  then show ?case using s1 by simp
qed auto

lemma storage_get_batch_ok:
  assumes "tracks K A s" "set keys \<subseteq> K" "storage_get_batch E now keys s = (rs, s')"
  shows "shrinks s s' \<and> length rs = length keys
    \<and> (\<forall>i < length keys. \<forall>d m. rs ! i = Inr (Some (d, m)) \<longrightarrow> d \<in> A (keys ! i) \<and> \<not> is_expired_at m now)"
proof -
  obtain slots s1 where sl: "batch_slots E now keys s = (slots, s1)" by fastforce
  have b: "shrinks s s1" "list_all2 (slot_ok A now s1) keys slots" using batch_slots_ok [OF assms(1,2) sl] by simp_all
  have len: "length slots = length keys" using b(2) by (simp add: list_all2_lengthD)
  have so: "slot_ok A now s1 (keys ! i) (slots ! i)" if "i < length keys" for i using b(2) that by (simp add: list_all2_conv_all_nth)
  let ?reqs = "sort_key (\<lambda>(_, path, _). path_components path) (pending_reads slots)"
  have pend: "i < length slots \<and> slots ! i = Inr (path, m, dev)" if "(i, path, m, dev) \<in> set ?reqs" for i path m dev
    using that by (auto simp: pending_reads_def in_set_enumerate_eq split: sum.splits)
  obtain ps s2 where ps: "on_exec (io_read_batch (se_io E) (map (\<lambda>(_, path, _). whole_file path) ?reqs)) s1 = (ps, s2)" by fastforce
  obtain x where x: "io_read_batch (se_io E) (map (\<lambda>(_, path, _). whole_file path) ?reqs) (st_exec s1) = (ps, x)"
    "s2 = s1\<lparr> st_exec := x \<rparr>" using ps by (auto simp: on_exec_eq)
  have law: "same_files content (st_exec s1) x \<and> length ps = length (map (\<lambda>(_, path, _). whole_file path) ?reqs)
      \<and> (\<forall>i < length (map (\<lambda>(_, path, _). whole_file path) ?reqs). \<forall>d. ps ! i = Inr d \<longrightarrow>
           files s1 (rq_path (map (\<lambda>(_, path, _). whole_file path) ?reqs ! i)) = Some d)"
  proof (rule io.read_batch_law [OF _ x(1)], goal_cases)
    case (1 req)
    then obtain i path m dev where q: "(i, path, m, dev) \<in> set ?reqs" "req = whole_file path" by auto
    then have "managed path" using pend [OF q(1)] so [of i] len by (auto simp: slot_ok_def)
    then show ?case using q(2) by (simp add: whole_file_def)
  qed
  let ?settled = "map (\<lambda>slot. case slot of Inl r \<Rightarrow> Some r | Inr _ \<Rightarrow> None) slots"
  let ?P = "\<lambda>i (r :: get_result). \<forall>d m. r = Inr (Some (d, m)) \<longrightarrow> d \<in> A (keys ! i) \<and> \<not> is_expired_at m now"
  obtain out s3 where f: "fill_slots (zip ?reqs ps) ?settled s2 = (out, s3)" by fastforce
  have fin: "length out = length ?settled \<and> st_exec s3 = st_exec s2 \<and> st_meta s3 = st_meta s2
      \<and> (\<forall>i < length out. \<forall>r. out ! i = Some r \<longrightarrow> ?P i r)"
  proof (rule fill_slots_ok [OF _ _ f], goal_cases)
    case (1 i path m dev r)
    obtain j where j: "j < length ?reqs" "?reqs ! j = (i, path, m, dev)" "ps ! j = r" "j < length ps"
      using 1(1) by (auto simp: in_set_zip)
    have "(i, path, m, dev) \<in> set ?reqs" using j(1,2) nth_mem by metis
    then have "slot_ok A now s1 (keys ! i) (Inr (path, m, dev))" using pend so len by metis
    moreover have "files s1 path = Some d" if "r = Inr d" for d
      using law j that by (auto simp: whole_file_def)
    ultimately show ?case by (cases r) (auto simp: slot_ok_def)
  next
    case (2 i r)
    then show ?case using so [of i] len by (auto simp: slot_ok_def split: sum.splits)
  qed
  have e: "rs = map (\<lambda>r. case r of Some x \<Rightarrow> x | None \<Rightarrow> Inl (Internal ''missing slot'')) out" "s' = s3"
    using assms(3) sl ps f by (simp_all add: storage_get_batch_def Let_def)
  have "shrinks s1 s3" using fin x(2) law b(1) by (simp add: shrinks_def)
  moreover have "?P i (rs ! i)" if "i < length keys" for i
    using fin that len unfolding e by (auto split: option.splits)
  ultimately show ?thesis using shrinks_trans [OF b(1)] fin len e by simp
qed

end

end
