(* ===== verification/Memory_Correct.thy ===== *)
theory Memory_Correct
  imports Memory_Tier Object_Store
begin

text \<open>
  Correctness of the memory tier.  Cached bytes, and the segment views handed out to readers, always
  read as the bytes last stored under their key, although slab memory is reused: an extent returns to
  the slab only when its last handle is gone.
\<close>

section \<open>Handles keep extents alive\<close>

text \<open>
  \<open>pins_ok slab hs L\<close>: the slab invariant holds for the extents with a live handle, and every view of
  the segment lists \<open>L\<close> is covered by a handle of its own.
\<close>

definition seg_fits :: "segment \<Rightarrow> bool" where
  "seg_fits seg = (case seg of Heap _ \<Rightarrow> True | View e off len \<Rightarrow> off + len \<le> ext_len e)"

definition slab_ok :: "RdmaSlab option \<Rightarrow> SlabExtent list \<Rightarrow> bool" where
  "slab_ok slab hs = (case slab of None \<Rightarrow> hs = [] | Some sl \<Rightarrow> slab_inv sl (set hs))"

definition pins_ok :: "RdmaSlab option \<Rightarrow> SlabExtent list \<Rightarrow> segment list list \<Rightarrow> bool" where
  "pins_ok slab hs L \<longleftrightarrow> slab_ok slab hs \<and> mset (concat (map seg_handles L)) \<subseteq># mset hs
     \<and> (\<forall>segs \<in> set L. list_all seg_fits segs)"

lemma seg_handles_append [simp]: "seg_handles (xs @ ys) = seg_handles xs @ seg_handles ys"
  by (induction xs rule: seg_handles.induct) simp_all

lemma seg_handles_Heap [simp]: "seg_handles (map Heap ds) = []"
  by (induction ds) simp_all

lemma segs_bytes_Heap [simp]: "segs_bytes slab (map Heap ds) = concat ds"
  by (simp add: segs_bytes_def seg_bytes_def comp_def)

lemma segs_bytes_append [simp]: "segs_bytes slab (xs @ ys) = segs_bytes slab xs @ segs_bytes slab ys"
  by (simp add: segs_bytes_def)

lemma segs_bytes_cong:
  assumes "\<And>e. e \<in> set (seg_handles segs) \<Longrightarrow> map_option (\<lambda>sl. extent_bytes sl e) slab = map_option (\<lambda>sl. extent_bytes sl e) slab'"
  shows "segs_bytes slab segs = segs_bytes slab' segs"
  using assms
proof (induction segs rule: seg_handles.induct)
  case (3 e off len segs)
  have "segs_bytes slab segs = segs_bytes slab' segs" by (rule 3(1)) (use 3(2) in simp)
  moreover have "seg_bytes slab (View e off len) = seg_bytes slab' (View e off len)"
    using 3(2) [of e] by (cases slab; cases slab') (simp_all add: seg_bytes_def)
  ultimately show ?case by (simp add: segs_bytes_def)
qed (simp_all add: segs_bytes_def seg_bytes_def)

lemma extent_bytes_drop [simp]: "extent_bytes (extent_drop sl e) e' = extent_bytes sl e'"
  by (simp add: extent_bytes_def extent_drop_def)

text \<open>\<open>same_but_pins s s'\<close>: only handles and the allocator of the slab differ.\<close>

definition same_but_pins :: "('x, 'm, 'c, 'd) MemoryTier \<Rightarrow> ('x, 'm, 'c, 'd) MemoryTier \<Rightarrow> bool" where
  "same_but_pins s s' \<longleftrightarrow> mt_storage s' = mt_storage s \<and> mt_cache s' = mt_cache s \<and> mt_chunks s' = mt_chunks s
     \<and> mt_current_size s' = mt_current_size s \<and> mt_hits s' = mt_hits s \<and> mt_misses s' = mt_misses s
     \<and> mt_evictions s' = mt_evictions s
     \<and> (\<forall>segs. segs_bytes (mt_slab s') segs = segs_bytes (mt_slab s) segs)
     \<and> map_option slab_len (mt_slab s') = map_option slab_len (mt_slab s)"

lemma same_but_pinsD:
  assumes "same_but_pins s s'"
  shows "mt_storage s' = mt_storage s" "mt_cache s' = mt_cache s" "mt_chunks s' = mt_chunks s"
    "mt_current_size s' = mt_current_size s" "segs_bytes (mt_slab s') segs = segs_bytes (mt_slab s) segs"
    "map_option slab_len (mt_slab s') = map_option slab_len (mt_slab s)"
  using assms by (auto simp: same_but_pins_def)

lemma same_but_pins_trans: "same_but_pins s s1 \<Longrightarrow> same_but_pins s1 s2 \<Longrightarrow> same_but_pins s s2"
  by (auto simp: same_but_pins_def)

lemma drop_handle_ok:
  assumes "slab_ok (mt_slab s) (mt_handles s)" "e \<in> set (mt_handles s)"
  shows "slab_ok (mt_slab (drop_handle e s)) (mt_handles (drop_handle e s))"
    "mset (mt_handles (drop_handle e s)) = mset (mt_handles s) - {#e#}" "same_but_pins s (drop_handle e s)"
proof -
  let ?hs = "remove1 e (mt_handles s)"
  obtain sl where sl: "mt_slab s = Some sl" using assms by (auto simp: slab_ok_def split: option.splits)
  have inv: "slab_inv sl (set (mt_handles s))" using assms(1) sl by (simp add: slab_ok_def)
  show "slab_ok (mt_slab (drop_handle e s)) (mt_handles (drop_handle e s))"
  proof (cases "e \<in> set ?hs")
    case True
    have "set ?hs = set (mt_handles s)"
      using True assms(2) set_remove1_subset [of e "mt_handles s"] by (auto simp: in_set_remove1)
        (metis in_set_remove1)
    then show ?thesis using True inv sl by (simp add: drop_handle_def Let_def slab_ok_def)
  next
    case False
    have "set ?hs = set (mt_handles s) - {e}"
      using False set_remove1_subset [of e "mt_handles s"] in_set_remove1 [of _ e "mt_handles s"] by blast
    then show ?thesis
      using False slab_inv_drop [OF inv assms(2)] sl by (simp add: drop_handle_def Let_def slab_ok_def)
  qed
  show "mset (mt_handles (drop_handle e s)) = mset (mt_handles s) - {#e#}" by (simp add: drop_handle_def Let_def)
  have "segs_bytes (mt_slab (drop_handle e s)) segs = segs_bytes (mt_slab s) segs" for segs
    by (rule segs_bytes_cong) (simp add: drop_handle_def Let_def sl)
  moreover have "map_option slab_len (mt_slab (drop_handle e s)) = map_option slab_len (mt_slab s)"
    by (simp add: drop_handle_def Let_def sl extent_drop_def)
  ultimately show "same_but_pins s (drop_handle e s)" by (simp add: same_but_pins_def) (simp add: drop_handle_def Let_def)
qed

lemma drop_handles_ok:
  assumes "slab_ok (mt_slab s) (mt_handles s)" "mset es \<subseteq># mset (mt_handles s)"
  shows "slab_ok (mt_slab (drop_handles es s)) (mt_handles (drop_handles es s))
    \<and> mset (mt_handles (drop_handles es s)) = mset (mt_handles s) - mset es \<and> same_but_pins s (drop_handles es s)"
  using assms
proof (induction es arbitrary: s)
  case Nil
  then show ?case by (simp add: drop_handles_def same_but_pins_def)
next
  case (Cons e es)
  have e: "e \<in> set (mt_handles s)" using Cons.prems(2) by (simp add: insert_subset_eq_iff)
  note d = drop_handle_ok [OF Cons.prems(1) e]
  have "mset es \<subseteq># mset (mt_handles (drop_handle e s))"
    using Cons.prems(2) unfolding d(2) by (simp add: insert_subset_eq_iff)
  from Cons.IH [OF d(1) this] show ?case
    using same_but_pins_trans [OF d(3)] unfolding d(2) by (simp add: drop_handles_def)
qed

lemma pins_ok_perm:
  assumes "pins_ok slab hs L" "mset L' \<subseteq># mset L"
  shows "pins_ok slab hs L'"
proof -
  have "mset (concat (map seg_handles L')) = \<Sum>\<^sub># (image_mset (\<lambda>x. mset (seg_handles x)) (mset L'))"
    "mset (concat (map seg_handles L)) = \<Sum>\<^sub># (image_mset (\<lambda>x. mset (seg_handles x)) (mset L))"
    by (simp_all add: mset_concat comp_def sum_mset_sum_list flip: mset_map)
  moreover obtain R where "mset L = mset L' + R" using assms(2) by (metis subset_mset.add_diff_inverse)
  ultimately have "mset (concat (map seg_handles L')) \<subseteq># mset (concat (map seg_handles L))" by simp
  moreover have "set L' \<subseteq> set L" using assms(2) by (metis mset_subset_eqD set_mset_mset subsetI)
  ultimately show ?thesis using assms(1) by (auto simp: pins_ok_def intro: subset_mset.order_trans)
qed

lemma pins_drop:
  assumes "pins_ok (mt_slab s) (mt_handles s) (segs # L)"
  shows "pins_ok (mt_slab (drop_handles (seg_handles segs) s)) (mt_handles (drop_handles (seg_handles segs) s)) L
    \<and> same_but_pins s (drop_handles (seg_handles segs) s)"
proof -
  have a: "slab_ok (mt_slab s) (mt_handles s)" "mset (seg_handles segs) + mset (concat (map seg_handles L)) \<subseteq># mset (mt_handles s)"
    using assms by (simp_all add: pins_ok_def)
  have "mset (seg_handles segs) \<subseteq># mset (mt_handles s)" using a(2) by (metis mset_subset_eq_add_left subset_mset.order_trans)
  note d = drop_handles_ok [OF a(1) this]
  have "mset (concat (map seg_handles L)) \<subseteq># mset (mt_handles s) - mset (seg_handles segs)"
    using a(2) by (metis add_diff_cancel_left' subset_eq_diff_conv add.commute mset_subset_eq_add_left
        subset_mset.add_diff_assoc2 subset_mset.add_diff_inverse subset_mset.add_le_cancel_left)
  then show ?thesis using d assms by (simp add: pins_ok_def)
qed

lemma pins_clone:
  assumes "pins_ok slab hs L" "segs \<in> set L"
  shows "pins_ok slab (seg_handles segs @ hs) (segs # L)"
proof -
  have "set (concat (map seg_handles L)) \<subseteq> set hs"
    using assms(1) unfolding pins_ok_def by (metis set_mset_mono set_mset_mset)
  then have "set (seg_handles segs @ hs) = set hs" using assms(2) by auto
  then have "slab_ok slab (seg_handles segs @ hs)"
    using assms(1) by (auto simp: pins_ok_def slab_ok_def split: option.splits)
  then show ?thesis using assms by (simp add: pins_ok_def)
qed

lemma slab_views_props:
  "list_all seg_fits (slab_views e off segs) \<longleftrightarrow> segs = [] \<or> off + length (concat segs) \<le> ext_len e"
  "set (seg_handles (slab_views e off segs)) \<subseteq> {e}"
  by (induction segs arbitrary: off) (auto simp: seg_fits_def)

lemma slab_views_bytes:
  assumes "extent_bytes sl e = pre @ concat segs @ post" "off = length pre"
  shows "segs_bytes (Some sl) (slab_views e off segs) = concat segs"
  using assms
proof (induction segs arbitrary: pre off)
  case (Cons d segs)
  have "segs_bytes (Some sl) (slab_views e (off + length d) segs) = concat segs"
    by (rule Cons.IH [of "pre @ d"]) (use Cons.prems in simp_all)
  then show ?case using Cons.prems by (simp add: segs_bytes_def seg_bytes_def)
qed (simp add: segs_bytes_def)

lemma pins_alloc:
  assumes "pins_ok (Some sl) hs L" "slab_alloc sl (length (concat segs)) = (Some e, sl1)"
    "length (concat segs) + SLAB_ALIGN \<le> 2 ^ 64"
  shows "pins_ok (Some (copy_in sl1 e segs)) (seg_handles (slab_views e 0 segs) @ e # hs) ((slab_views e 0 segs @ [View e 0 0]) # L)"
    "segs_bytes (Some (copy_in sl1 e segs)) (slab_views e 0 segs) = concat segs"
    "segs' \<in> set L \<Longrightarrow> segs_bytes (Some (copy_in sl1 e segs)) segs' = segs_bytes (Some sl) segs'"
proof -
  have inv: "slab_inv sl (set hs)" using assms(1) by (simp add: pins_ok_def slab_ok_def)
  note t = slab_inv_take [OF inv assms(3,2)] and f = slab_alloc_fresh [OF inv assms(3,2)]
  have len: "length (concat segs) = ext_len e" using f(2) by simp
  note c = copy_in_exact [OF t _ len]
  have inv2: "slab_inv (copy_in sl1 e segs) (insert e (set hs))" using t by (simp add: slab_inv_def copy_in_def)
  have "set (seg_handles (slab_views e 0 segs) @ e # hs) = insert e (set hs)" using slab_views_props(2) [of e 0 segs] by auto
  then show "pins_ok (Some (copy_in sl1 e segs)) (seg_handles (slab_views e 0 segs) @ e # hs) ((slab_views e 0 segs @ [View e 0 0]) # L)"
    using inv2 assms(1) len by (simp add: pins_ok_def slab_ok_def slab_views_props(1) seg_fits_def)
  show "segs_bytes (Some (copy_in sl1 e segs)) (slab_views e 0 segs) = concat segs"
    by (rule slab_views_bytes [where pre = "[]" and post = "[]"]) (simp_all add: c(1))
  show "segs_bytes (Some (copy_in sl1 e segs)) segs' = segs_bytes (Some sl) segs'" if "segs' \<in> set L"
  proof (rule segs_bytes_cong)
    fix e'
    assume "e' \<in> set (seg_handles segs')"
    then have "e' \<in> set (concat (map seg_handles L))" using that by auto
    then have "e' \<in> set hs" using assms(1) unfolding pins_ok_def by (metis mset_subset_eqD set_mset_mset)
    then have "extent_bytes (copy_in sl1 e segs) e' = extent_bytes sl1 e'" using c(2) f(1) by auto
    then show "map_option (\<lambda>sl. extent_bytes sl e') (Some (copy_in sl1 e segs)) = map_option (\<lambda>sl. extent_bytes sl e') (Some sl)"
      using f(3) by (simp add: extent_bytes_def)
  qed
qed


section \<open>The cache invariant\<close>

definition entry_segs :: "ChunksCacheEntry \<Rightarrow> segment list" where
  "entry_segs en = cc_segments en @ (case cc_slab en of None \<Rightarrow> [] | Some e \<Rightarrow> [View e 0 0])"

lemma entry_handles_segs: "entry_handles en = seg_handles (entry_segs en)"
  by (simp add: entry_handles_def entry_segs_def split: option.splits)

lemma entry_segs_bytes: "segs_bytes slab (entry_segs en) = segs_bytes slab (cc_segments en)"
  by (cases "cc_slab en"; cases slab) (simp_all add: entry_segs_def segs_bytes_def seg_bytes_def)

lemma drop_entries_ok:
  assumes "pins_ok (mt_slab s) (mt_handles s) (map entry_segs ens @ L)"
  shows "pins_ok (mt_slab (drop_entries ens s)) (mt_handles (drop_entries ens s)) L \<and> same_but_pins s (drop_entries ens s)"
  using assms
proof (induction ens arbitrary: s)
  case Nil
  then show ?case by (simp add: drop_entries_def drop_handles_def same_but_pins_def)
next
  case (Cons en ens)
  let ?s2 = "drop_handles (seg_handles (entry_segs en)) s"
  have c: "pins_ok (mt_slab s) (mt_handles s) (entry_segs en # map entry_segs ens @ L)"
    using Cons.prems by (simp only: list.map append_Cons)
  note d = pins_drop [OF c]
  have e: "drop_entries (en # ens) s = drop_entries ens ?s2"
    by (simp add: drop_entries_def drop_handles_def entry_handles_segs)
  from Cons.IH [OF d [THEN conjunct1]] d show ?case unfolding e using same_but_pins_trans by blast
qed

text \<open>The views of a slab-backed entry tile its extent, so the extent as a whole holds the object.\<close>

fun tiles :: "SlabExtent \<Rightarrow> nat \<Rightarrow> segment list \<Rightarrow> bool" where
  "tiles e off [] = (off = ext_len e)"
| "tiles e off (Heap _ # segs) = False"
| "tiles e off (View e' off' len # segs) = (e' = e \<and> off' = off \<and> tiles e (off + len) segs)"

definition entry_ok :: "ChunksCacheEntry \<Rightarrow> bool" where
  "entry_ok en = (case cc_slab en of None \<Rightarrow> True | Some e \<Rightarrow> tiles e 0 (cc_segments en))"

lemma tiles_views: "tiles e off (slab_views e off segs) \<longleftrightarrow> off + length (concat segs) = ext_len e"
  by (induction segs arbitrary: off) (auto simp: add.assoc)

lemma tiles_le: "tiles e off segs \<Longrightarrow> off \<le> ext_len e"
  by (induction e off segs rule: tiles.induct) auto

lemma tiles_bytes:
  assumes "tiles e off segs" "off \<le> ext_len e"
  shows "segs_bytes (Some sl) segs = drop off (extent_bytes sl e)"
  using assms
proof (induction segs arbitrary: off)
  case Nil
  then show ?case by (simp add: segs_bytes_def extent_bytes_def)
next
  case (Cons seg segs)
  then obtain len where seg: "seg = View e off len" "tiles e (off + len) segs" by (cases seg) auto
  have le: "off + len \<le> ext_len e" by (rule tiles_le [OF seg(2)])
  show ?case using Cons.IH [OF seg(2) le] by (simp add: seg(1) segs_bytes_def seg_bytes_def) (metis append_take_drop_id drop_drop add.commute)
qed

text \<open>
  The memory tier over a storage tier.  \<open>A\<close> gives for each key the bytes a read may answer; \<open>G\<close> lists the
  segment lists that readers hold, with the bytes they were handed.
\<close>

locale memory_system =
  storage_system "me_storage M" content quiet view minv tid +
  cl: lru_cache "me_cache M" cents climit + dl: lru_cache "me_chunks M" dents dlimit
  for M :: "('x, 'm, 'c, 'd) MemoryEnv" and content :: "'x \<Rightarrow> string \<Rightarrow> bytes option" and quiet :: "'x \<Rightarrow> bool"
    and view :: "'m \<Rightarrow> meta_view" and minv :: "'m \<Rightarrow> bool" and tid :: task_ids
    and cents :: "'c \<Rightarrow> (string \<times> CacheEntry) list" and climit :: "'c \<Rightarrow> nat"
    and dents :: "'d \<Rightarrow> (string \<times> ChunksCacheEntry) list" and dlimit :: "'d \<Rightarrow> nat" +
  assumes capacity_law: "me_capacity_bytes M + SLAB_ALIGN \<le> 2 ^ 64"
begin

definition seg_lists :: "(segment list \<times> bytes) list \<Rightarrow> ('x, 'm, 'c, 'd) MemoryTier \<Rightarrow> segment list list" where
  "seg_lists G s = map (entry_segs \<circ> snd) (dents (mt_chunks s)) @ map fst G"

definition l1_ok ::
  "ObjectKey set \<Rightarrow> (ObjectKey \<Rightarrow> bytes set) \<Rightarrow> (segment list \<times> bytes) list \<Rightarrow> ('x, 'm, 'c, 'd) MemoryTier \<Rightarrow> bool" where
  "l1_ok K A G s \<longleftrightarrow> pins_ok (mt_slab s) (mt_handles s) (seg_lists G s)
     \<and> (\<forall>(segs, d) \<in> set G. segs_bytes (mt_slab s) segs = d)
     \<and> (\<forall>(k, en) \<in> set (cents (mt_cache s)). \<forall>key \<in> K. k = to_string_key key \<longrightarrow> ce_data en \<in> A key)
     \<and> (\<forall>(k, en) \<in> set (dents (mt_chunks s)). \<forall>key \<in> K. k = to_string_key key \<longrightarrow>
          segs_bytes (mt_slab s) (cc_segments en) \<in> A key)
     \<and> (\<forall>(k, en) \<in> set (dents (mt_chunks s)). entry_ok en)"

lemma l1_okI:
  assumes "pins_ok (mt_slab s) (mt_handles s) (seg_lists G s)"
    "\<And>segs d. (segs, d) \<in> set G \<Longrightarrow> segs_bytes (mt_slab s) segs = d"
    "\<And>key en. key \<in> K \<Longrightarrow> (to_string_key key, en) \<in> set (cents (mt_cache s)) \<Longrightarrow> ce_data en \<in> A key"
    "\<And>key en. key \<in> K \<Longrightarrow> (to_string_key key, en) \<in> set (dents (mt_chunks s)) \<Longrightarrow>
       segs_bytes (mt_slab s) (cc_segments en) \<in> A key"
    "\<And>k en. (k, en) \<in> set (dents (mt_chunks s)) \<Longrightarrow> entry_ok en"
  shows "l1_ok K A G s"
  using assms(1) unfolding l1_ok_def by (intro conjI ballI prod.case_eq_if [THEN iffD2] impI; clarsimp simp: assms(2-5))

lemma l1_okD:
  assumes "l1_ok K A G s"
  shows "pins_ok (mt_slab s) (mt_handles s) (seg_lists G s)"
    "(segs, d) \<in> set G \<Longrightarrow> segs_bytes (mt_slab s) segs = d"
    "key \<in> K \<Longrightarrow> (to_string_key key, ce) \<in> set (cents (mt_cache s)) \<Longrightarrow> ce_data ce \<in> A key"
    "key \<in> K \<Longrightarrow> (to_string_key key, cc) \<in> set (dents (mt_chunks s)) \<Longrightarrow>
       segs_bytes (mt_slab s) (cc_segments cc) \<in> A key"
    "(k, cc) \<in> set (dents (mt_chunks s)) \<Longrightarrow> entry_ok cc"
  using assms unfolding l1_ok_def by (simp, fastforce, blast, blast, blast)

lemma l1_ok_mono: "l1_ok K A G s \<Longrightarrow> K' \<subseteq> K \<Longrightarrow> (\<And>key. key \<in> K' \<Longrightarrow> A' key = A key) \<Longrightarrow> l1_ok K' A' G s"
  by (rule l1_okI) (use l1_okD in \<open>fastforce simp: subset_iff\<close>)+

lemma l1_ok_absent:
  assumes "l1_ok (K - {key}) A G s" "to_string_key key \<notin> fst ` set (cents (mt_cache s))"
    "to_string_key key \<notin> fst ` set (dents (mt_chunks s))"
  shows "l1_ok K A G s"
proof -
  have "key' \<in> K - {key}" if "(to_string_key key', en) \<in> set (cents (mt_cache s))" "key' \<in> K" for key' en
    using that assms(2) by force
  moreover have "key' \<in> K - {key}" if "(to_string_key key', en) \<in> set (dents (mt_chunks s))" "key' \<in> K" for key' en
    using that assms(3) by force
  ultimately show ?thesis by (intro l1_okI) (use l1_okD [OF assms(1)] in blast)+
qed

text \<open>Changes that only shrink the single-buffer cache, or that touch no cache.\<close>

lemma l1_ok_cache:
  assumes "l1_ok K A G s" "set (cents (mt_cache s')) \<subseteq> set (cents (mt_cache s))"
    "mt_chunks s' = mt_chunks s" "mt_slab s' = mt_slab s" "mt_handles s' = mt_handles s"
  shows "l1_ok K A G s'"
  by (rule l1_okI) (use l1_okD [OF assms(1)] assms(2-5) in \<open>auto simp: seg_lists_def\<close>)

text \<open>Entries leave the multi-segment cache and release their handles.\<close>

lemma l1_ok_release:
  assumes "l1_ok K A G s" "mset (dents (mt_chunks s)) = mset (dents d) + R" "image_mset snd R = mset ens"
    "mt_chunks s1 = d" "mt_slab s1 = mt_slab s" "mt_handles s1 = mt_handles s" "mt_cache s1 = mt_cache s"
  shows "l1_ok K A G (drop_entries ens s1)" "same_but_pins s1 (drop_entries ens s1)"
proof -
  let ?L = "map entry_segs ens @ map (entry_segs \<circ> snd) (dents d) @ map fst G"
  have "mset ?L = mset (seg_lists G s)"
  proof -
    have "mset (map (entry_segs \<circ> snd) (dents (mt_chunks s))) = image_mset (entry_segs \<circ> snd) (mset (dents d)) + image_mset (entry_segs \<circ> snd) R"
      using assms(2) by simp
    moreover have "image_mset (entry_segs \<circ> snd) R = mset (map entry_segs ens)"
      using assms(3) by (metis image_mset.compositionality mset_map)
    ultimately show ?thesis by (simp add: seg_lists_def ac_simps)
  qed
  then have "pins_ok (mt_slab s1) (mt_handles s1) ?L"
    using assms(1,5,6) pins_ok_perm by (metis l1_ok_def subset_mset.order_refl)
  note p = drop_entries_ok [OF this]
  then show "same_but_pins s1 (drop_entries ens s1)" by blast
  note f = same_but_pinsD [OF this]
  have "set (dents d) \<subseteq> set (dents (mt_chunks s))"
    using assms(2) by (metis mset_subset_eq_add_left set_mset_mono set_mset_mset)
  then show "l1_ok K A G (drop_entries ens s1)"
    by (intro l1_okI) (use p l1_okD [OF assms(1)] f assms(4-7) in \<open>auto simp: seg_lists_def\<close>)
qed

lemma invalidate_ok:
  assumes "l1_ok (K - {key}) A G s"
  shows "l1_ok K A G (invalidate_l1_entry M (to_string_key key) s)"
    "mt_storage (invalidate_l1_entry M (to_string_key key) s) = mt_storage s"
proof -
  let ?k = "to_string_key key" and ?s' = "invalidate_l1_entry M (to_string_key key) s"
  obtain r c where c: "lru_pop (me_cache M) ?k (mt_cache s) = (r, c)" by fastforce
  obtain r2 d where d: "lru_pop (me_chunks M) ?k (mt_chunks s) = (r2, d)" by fastforce
  note cp = cl.pop_law [OF c] and dp = dl.pop_law [OF d]
  let ?ens = "case r2 of None \<Rightarrow> [] | Some en \<Rightarrow> [en]"
  obtain s1 x where s1: "s1 = s\<lparr> mt_cache := c \<rparr>" and eq: "?s' = drop_entries ?ens (s1\<lparr> mt_chunks := d, mt_current_size := x \<rparr>)"
    using c d by (simp add: invalidate_l1_entry_def Let_def)
  have l1: "l1_ok (K - {key}) A G s1"
    by (rule l1_ok_cache [OF assms]) (use cp in \<open>auto simp: s1 set_without\<close>)
  have ms: "mset (dents (mt_chunks s1)) = mset (dents d) + (case r2 of None \<Rightarrow> {#} | Some en \<Rightarrow> {#(?k, en)#})"
  proof (cases r2)
    case None
    then have "without ?k (dents (mt_chunks s)) = dents (mt_chunks s)"
      using dp by (intro without_absent) (auto simp: map_of_eq_None_iff)
    then show ?thesis using None dp by (simp add: s1)
  next
    case (Some en)
    then show ?thesis using without_split [OF dl.distinct_law, of "mt_chunks s" ?k en] dp by (simp add: s1)
  qed
  have rel: "l1_ok (K - {key}) A G ?s'" "same_but_pins (s1\<lparr> mt_chunks := d, mt_current_size := x \<rparr>) ?s'"
    unfolding eq by (rule l1_ok_release [OF l1 ms]; simp split: option.splits)+
  note f = same_but_pinsD [OF rel(2)]
  have gone: "?k \<notin> fst ` set (cents (mt_cache ?s'))" "?k \<notin> fst ` set (dents (mt_chunks ?s'))"
    using cp dp f(2,3) by (auto simp: s1 set_without)
  show "l1_ok K A G ?s'" by (rule l1_ok_absent [OF rel(1) gone])
  show "mt_storage ?s' = mt_storage s" using f(1) by (simp add: s1)
qed

lemma invalidate_keep:
  assumes "l1_ok K A G s"
  shows "l1_ok K A G (invalidate_l1_entry M (to_string_key key) s)"
  by (rule invalidate_ok [OF l1_ok_mono [OF assms]]) auto

lemma invalidate_storage [simp]: "l1_ok K A G s \<Longrightarrow> mt_storage (invalidate_l1_entry M (to_string_key key) s) = mt_storage s"
  by (rule invalidate_ok(2) [of K, OF l1_ok_mono]) auto

lemma evict_cache_ok:
  assumes "l1_ok K A G s"
  shows "l1_ok K A G (evict_cache M sz n s) \<and> mt_storage (evict_cache M sz n s) = mt_storage s"
  using assms
proof (induction n arbitrary: s)
  case (Suc n)
  obtain p c where p: "lru_pop_lru (me_cache M) (mt_cache s) = (p, c)" by fastforce
  note law = cl.pop_lru_law [OF p]
  have keep: "l1_ok K A G (s\<lparr> mt_cache := c, mt_current_size := x, mt_evictions := y \<rparr>)" "l1_ok K A G (s\<lparr> mt_cache := c \<rparr>)" for x y
    by (rule l1_ok_cache [OF Suc.prems]; use law in \<open>auto dest: in_set_butlastD\<close>)+
  show ?case
    using p Suc.prems Suc.IH [OF keep(1)] Suc.IH [OF keep(2)] by (auto split: option.splits)
qed simp

lemma evict_one_ok:
  assumes "l1_ok K A G s" "lru_pop_lru (me_chunks M) (mt_chunks s) = (Some (k, en), d)"
  shows "l1_ok K A G (evict_one_chunks en d s)" "mt_storage (evict_one_chunks en d s) = mt_storage s"
    "mt_chunks (evict_one_chunks en d s) = d" "map_option slab_len (mt_slab (evict_one_chunks en d s)) = map_option slab_len (mt_slab s)"
proof -
  note law = dl.pop_lru_law [OF assms(2)]
  let ?s1 = "s\<lparr> mt_chunks := d, mt_current_size := wsub64 (mt_current_size s) (cc_total_size en), mt_evictions := wadd64 (mt_evictions s) 1 \<rparr>"
  have ms: "mset (dents (mt_chunks s)) = mset (dents d) + {#(k, en)#}"
    using law mset_butlast [of "dents (mt_chunks s)"] by (auto split: if_splits)
  have rel: "l1_ok K A G (drop_entries [en] ?s1)" "same_but_pins ?s1 (drop_entries [en] ?s1)"
    by (rule l1_ok_release [OF assms(1) ms]; simp)+
  note f = same_but_pinsD [OF rel(2)]
  show "l1_ok K A G (evict_one_chunks en d s)" "mt_storage (evict_one_chunks en d s) = mt_storage s"
    "mt_chunks (evict_one_chunks en d s) = d" "map_option slab_len (mt_slab (evict_one_chunks en d s)) = map_option slab_len (mt_slab s)"
    using rel(1) f by (simp_all add: evict_one_chunks_def)
qed

lemma pop_lru_None:
  assumes "lru_pop_lru (me_chunks M) c = (None, d)"
  shows "dents d = dents c"
  using dl.pop_lru_law [OF assms] by (auto split: if_splits)

lemma l1_ok_chunks_same:
  assumes "l1_ok K A G s" "set (dents d) = set (dents (mt_chunks s))" "mset (dents d) = mset (dents (mt_chunks s))"
  shows "l1_ok K A G (s\<lparr> mt_chunks := d \<rparr>)"
proof -
  have "mset (seg_lists G (s\<lparr> mt_chunks := d \<rparr>)) = mset (seg_lists G s)" using assms(3) by (simp add: seg_lists_def)
  then have "pins_ok (mt_slab s) (mt_handles s) (seg_lists G (s\<lparr> mt_chunks := d \<rparr>))"
    using assms(1) pins_ok_perm by (metis l1_ok_def subset_mset.order_refl)
  then show ?thesis by (intro l1_okI) (use l1_okD [OF assms(1)] assms(2) in auto)
qed

lemma evict_chunks_ok:
  assumes "l1_ok K A G s"
  shows "l1_ok K A G (evict_chunks M budget sz n s) \<and> mt_storage (evict_chunks M budget sz n s) = mt_storage s"
  using assms
proof (induction n arbitrary: s)
  case (Suc n)
  obtain p d where p: "lru_pop_lru (me_chunks M) (mt_chunks s) = (p, d)" by fastforce
  show ?case
  proof (cases p)
    case None
    then have "l1_ok K A G (s\<lparr> mt_chunks := d \<rparr>)" using pop_lru_None p by (intro l1_ok_chunks_same [OF Suc.prems]) simp_all
    then show ?thesis using p None Suc.prems Suc.IH by auto
  next
    case (Some ke)
    obtain k en where ke: "ke = (k, en)" by (cases ke)
    note e = evict_one_ok [OF Suc.prems p [unfolded Some ke]]
    show ?thesis using p Some ke Suc.prems Suc.IH [OF e(1)] e(2) by auto
  qed
qed simp

lemma evict_to_free_ok:
  assumes "l1_ok K A G s"
  shows "l1_ok K A G (evict_to_free M need freed n s) \<and> mt_storage (evict_to_free M need freed n s) = mt_storage s"
  using assms
proof (induction n arbitrary: s freed)
  case (Suc n)
  obtain p d where p: "lru_pop_lru (me_chunks M) (mt_chunks s) = (p, d)" by fastforce
  show ?case
  proof (cases p)
    case None
    then have "l1_ok K A G (s\<lparr> mt_chunks := d \<rparr>)" using pop_lru_None p by (intro l1_ok_chunks_same [OF Suc.prems]) simp_all
    then show ?thesis using p None Suc.prems by auto
  next
    case (Some ke)
    obtain k en where ke: "ke = (k, en)" by (cases ke)
    note e = evict_one_ok [OF Suc.prems p [unfolded Some ke]]
    show ?thesis using p Some ke Suc.prems Suc.IH [OF e(1)] e(2) by auto
  qed
qed simp


subsection \<open>Insertion\<close>

lemma cache_insert_ok:
  assumes "l1_ok K A G s" "data \<in> A key"
  shows "l1_ok K A G (cache_insert M (to_string_key key) data meta s)"
    "mt_storage (cache_insert M (to_string_key key) data meta s) = mt_storage s"
proof -
  let ?k = "to_string_key key" and ?s1 = "invalidate_l1_entry M (to_string_key key) s"
  let ?s2 = "evict_cache M (length data) (lru_len (me_cache M) (mt_cache ?s1)) ?s1"
  obtain old dr c where c: "lru_put (me_cache M) ?k \<lparr> ce_data = data, ce_meta = meta \<rparr> (mt_cache ?s2) = ((old, dr), c)"
    using surj_pair [of "lru_put (me_cache M) ?k \<lparr> ce_data = data, ce_meta = meta \<rparr> (mt_cache ?s2)"] by fastforce
  note law = cl.put_law [OF c]
  have s2: "l1_ok K A G ?s2" "mt_storage ?s2 = mt_storage s"
    using evict_cache_ok [OF invalidate_keep [OF assms(1)]] invalidate_storage [OF assms(1)] by auto
  have sub: "(k, en) \<in> set (cents (mt_cache ?s2)) \<or> (k, en) = (?k, \<lparr> ce_data = data, ce_meta = meta \<rparr>)"
    if "(k, en) \<in> set (cents c)" for k en
    using law that by (auto simp: set_without split: if_splits dest: in_set_butlastD)
  have ins: "l1_ok K A G (?s2\<lparr> mt_cache := c, mt_current_size := x \<rparr>)" for x
  proof (rule l1_okI, goal_cases)
    case (3 key' en)
    then show ?case
      using sub [of "to_string_key key'" en] l1_okD(3) [OF s2(1)] assms(2) by (auto simp: to_string_key_eq)
  qed (use l1_okD [OF s2(1)] in \<open>auto simp: seg_lists_def\<close>)
  show "l1_ok K A G (cache_insert M ?k data meta s)"
    using ins assms(1) c by (simp add: cache_insert_def Let_def)
  show "mt_storage (cache_insert M ?k data meta s) = mt_storage s"
    using s2(2) c by (simp add: cache_insert_def Let_def)
qed

lemma chunks_put_ok:
  assumes "l1_ok K A ((entry_segs en, d) # G) s" "d \<in> A key" "entry_ok en"
  shows "l1_ok K A G (chunks_put M (to_string_key key) en s)"
    "mt_storage (chunks_put M (to_string_key key) en s) = mt_storage s"
proof -
  let ?k = "to_string_key key"
  obtain old dr c where c: "lru_put (me_chunks M) ?k en (mt_chunks s) = ((old, dr), c)"
    using surj_pair [of "lru_put (me_chunks M) ?k en (mt_chunks s)"] by fastforce
  note law = dl.put_law [OF c]
  let ?ens = "(case old of None \<Rightarrow> [] | Some o' \<Rightarrow> [o']) @ dr"
  obtain x where eq: "chunks_put M ?k en s = drop_entries ?ens (s\<lparr> mt_chunks := c, mt_current_size := x \<rparr>)"
    using c by (simp add: chunks_put_def Let_def)
  let ?s1 = "s\<lparr> mt_chunks := c, mt_current_size := x \<rparr>"
  have ms: "add_mset en (image_mset snd (mset (dents (mt_chunks s)))) = image_mset snd (mset (dents c)) + mset ?ens"
  proof (cases old)
    case (Some o')
    then show ?thesis using law without_split [OF dl.distinct_law, of "mt_chunks s" ?k o'] by simp
  next
    case None
    then have abs: "without ?k (dents (mt_chunks s)) = dents (mt_chunks s)"
      using law by (intro without_absent) (auto simp: map_of_eq_None_iff)
    show ?thesis
    proof (cases "length (dents (mt_chunks s)) < dlimit (mt_chunks s) \<or> dents (mt_chunks s) = []")
      case True
      then show ?thesis using law None abs by (auto split: if_splits)
    next
      case False
      let ?xs = "dents (mt_chunks s)"
      have "drop (length ?xs - 1) ?xs = [last ?xs]" using False by (cases ?xs rule: rev_cases) simp_all
      then show ?thesis using law None False mset_butlast [of ?xs] by simp
    qed
  qed
  have "mset (map entry_segs ?ens @ seg_lists G ?s1) = mset (seg_lists ((entry_segs en, d) # G) s)"
  proof -
    have "image_mset entry_segs (add_mset en (image_mset snd (mset (dents (mt_chunks s)))))
        = image_mset entry_segs (image_mset snd (mset (dents c)) + mset ?ens)" by (simp only: ms)
    then show ?thesis by (simp add: seg_lists_def ac_simps image_mset.compositionality)
  qed
  then have "pins_ok (mt_slab ?s1) (mt_handles ?s1) (map entry_segs ?ens @ seg_lists G ?s1)"
    using pins_ok_perm [OF l1_okD(1) [OF assms(1)]] by simp
  note p = drop_entries_ok [OF this]
  note f = same_but_pinsD [OF p [THEN conjunct2]]
  have d: "segs_bytes (mt_slab s) (cc_segments en) = d" using l1_okD(2) [OF assms(1), of "entry_segs en" d] by (simp add: entry_segs_bytes)
  have sub: "(k, e) \<in> set (dents (mt_chunks s)) \<or> (k, e) = (?k, en)" if "(k, e) \<in> set (dents c)" for k e
    using law that by (auto simp: set_without split: if_splits dest: in_set_butlastD)
  show "l1_ok K A G (chunks_put M ?k en s)"
    unfolding eq
  proof (rule l1_okI, goal_cases)
    case 1
    then show ?case using p f(3) by (simp add: seg_lists_def)
  next
    case (2 segs d)
    then show ?case using l1_okD(2) [OF assms(1)] f(5) by auto
  next
    case (3 key' e)
    then show ?case using l1_okD(3) [OF assms(1)] f(2) by auto
  next
    case (4 key' e)
    then have "(to_string_key key', e) \<in> set (dents (mt_chunks s)) \<or> (to_string_key key', e) = (?k, en)"
      using sub f(3) by simp
    then show ?case using l1_okD(4) [OF assms(1) 4(1)] d assms(2) f(5) by (auto simp: to_string_key_eq)
  next
    case (5 k e)
    then show ?case using sub [of k e] l1_okD(5) [OF assms(1)] assms(3) f(3) by auto
  qed
  show "mt_storage (chunks_put M ?k en s) = mt_storage s" unfolding eq using f(1) by simp
qed

lemma l1_ok_Cons_G:
  assumes "l1_ok K A G s" "segs = map Heap ds" "d = concat ds"
  shows "l1_ok K A ((segs, d) # G) s"
  by (rule l1_okI) (use l1_okD [OF assms(1)] assms(2,3) in
    \<open>auto simp: seg_lists_def pins_ok_def seg_fits_def list_all_iff\<close>)

lemma maybe_slab_backed_ok:
  assumes "l1_ok K A G s" "maybe_slab_backed segments (length (concat segments)) s = ((segs, slab), s')"
    "length (concat segments) + SLAB_ALIGN \<le> 2 ^ 64"
  shows "l1_ok K A ((segs @ (case slab of None \<Rightarrow> [] | Some e \<Rightarrow> [View e 0 0]), concat segments) # G) s'"
    "mt_storage s' = mt_storage s" "mt_chunks s' = mt_chunks s" "mt_cache s' = mt_cache s" "mt_current_size s' = mt_current_size s"
    "map_option slab_len (mt_slab s') = map_option slab_len (mt_slab s)"
    "slab = Some e \<Longrightarrow> tiles e 0 segs"
proof -
  have heap: "l1_ok K A ((segs @ (case slab of None \<Rightarrow> [] | Some e \<Rightarrow> [View e 0 0]), concat segments) # G) s'"
    if "segs = map Heap segments" "slab = None" "s' = s"
    using that l1_ok_Cons_G [OF assms(1), of "map Heap segments" segments] by auto
  have "l1_ok K A ((segs @ (case slab of None \<Rightarrow> [] | Some e \<Rightarrow> [View e 0 0]), concat segments) # G) s'
    \<and> mt_storage s' = mt_storage s \<and> mt_chunks s' = mt_chunks s \<and> mt_cache s' = mt_cache s \<and> mt_current_size s' = mt_current_size s
    \<and> map_option slab_len (mt_slab s') = map_option slab_len (mt_slab s) \<and> (\<forall>e. slab = Some e \<longrightarrow> tiles e 0 segs)"
  proof (cases "mt_slab s")
    case None
    then show ?thesis using heap assms(2) by (auto simp: maybe_slab_backed_def)
  next
    case (Some sl)
    obtain r sl1 where al: "slab_alloc sl (length (concat segments)) = (r, sl1)" by fastforce
    show ?thesis
    proof (cases r)
      case None
      then have "sl1 = sl" using slab_alloc_None(1) al by blast
      then have st: "segs = map Heap segments" "slab = None" "s' = s\<lparr> mt_slab := Some sl \<rparr>"
        using assms(2) Some al None by (auto simp: maybe_slab_backed_def)
      have "s\<lparr> mt_slab := Some sl \<rparr> = s" using Some by (cases s) simp
      then have "s' = s" using st(3) by (simp only:)
      then show ?thesis using heap st(1,2) by simp
    next
      case e: (Some e)
      have pins: "pins_ok (Some sl) (mt_handles s) (seg_lists G s)" using l1_okD(1) [OF assms(1)] Some by simp
      note p = pins_alloc [OF pins al [unfolded e] assms(3)]
      let ?sl = "copy_in sl1 e segments" and ?vs = "slab_views e 0 segments"
      have st: "segs = ?vs" "slab = Some e"
        "s' = s\<lparr> mt_slab := Some ?sl, mt_handles := seg_handles ?vs @ e # mt_handles s \<rparr>"
        using assms(2) Some al e by (auto simp: maybe_slab_backed_def)
      have old: "segs_bytes (Some ?sl) segs' = segs_bytes (mt_slab s) segs'" if "segs' \<in> set (seg_lists G s)" for segs'
        using p(3) [OF that] Some by simp
      have len: "slab_len ?sl = slab_len sl" using slab_alloc_Some [OF al [unfolded e]] by (auto simp: copy_in_def)
      have "l1_ok K A ((?vs @ [View e 0 0], concat segments) # G) s'"
      proof (rule l1_okI, goal_cases)
        case 1
        have "mset (seg_lists ((?vs @ [View e 0 0], concat segments) # G) s') = mset ((?vs @ [View e 0 0]) # seg_lists G s)"
          by (simp add: st(3) seg_lists_def)
        then show ?case using pins_ok_perm [OF p(1)] by (simp add: st(3))
      next
        case (2 segs' d)
        have "segs_bytes (Some ?sl) [View e 0 0] = []" by (simp add: segs_bytes_def seg_bytes_def)
        moreover have "segs_bytes (Some ?sl) segs' = segs_bytes (mt_slab s) segs'" if "(segs', d) \<in> set G"
          by (rule old) (use that in \<open>force simp: seg_lists_def\<close>)
        ultimately show ?case using 2 p(2) l1_okD(2) [OF assms(1)] by (auto simp: st(3))
      next
        case (3 key en)
        then show ?case using l1_okD(3) [OF assms(1)] by (simp add: st(3))
      next
        case (4 key en)
        then have m: "entry_segs en \<in> set (seg_lists G s)" by (force simp: st(3) seg_lists_def)
        show ?case
          using l1_okD(4) [OF assms(1) 4(1)] 4(2) old [OF m] by (simp add: st(3) entry_segs_bytes)
      next
        case (5 k en)
        then show ?case using l1_okD(5) [OF assms(1)] by (simp add: st(3))
      qed
      moreover have "tiles e 0 ?vs"
        using slab_alloc_Some [OF al [unfolded e]] by (auto simp: tiles_views)
      ultimately show ?thesis using st len Some by simp
    qed
  qed
  then show "l1_ok K A ((segs @ (case slab of None \<Rightarrow> [] | Some e \<Rightarrow> [View e 0 0]), concat segments) # G) s'"
    "mt_storage s' = mt_storage s" "mt_chunks s' = mt_chunks s" "mt_cache s' = mt_cache s" "mt_current_size s' = mt_current_size s"
    "map_option slab_len (mt_slab s') = map_option slab_len (mt_slab s)" "slab = Some e \<Longrightarrow> tiles e 0 segs" by blast+
qed

lemma chunks_cache_insert_ok:
  assumes "l1_ok K A G s" "concat segments \<in> A key"
  shows "l1_ok K A G (chunks_cache_insert M (to_string_key key) segments meta (length (concat segments)) s)"
    "mt_storage (chunks_cache_insert M (to_string_key key) segments meta (length (concat segments)) s) = mt_storage s"
proof -
  let ?k = "to_string_key key" and ?n = "length (concat segments)" and ?s1 = "invalidate_l1_entry M (to_string_key key) s"
  obtain segs slab s2 where s2: "maybe_slab_backed segments ?n ?s1 = ((segs, slab), s2)"
    using surj_pair [of "maybe_slab_backed segments ?n ?s1"] by fastforce
  let ?en = "\<lparr> cc_segments = segs, cc_meta = meta, cc_total_size = ?n, cc_slab = slab \<rparr>"
  let ?s3 = "evict_chunks M (me_capacity_bytes M) ?n (lru_len (me_chunks M) (mt_chunks s2)) s2"
  have st1: "mt_storage ?s1 = mt_storage s" by (rule invalidate_storage [OF assms(1)])
  have "l1_ok K A G (chunks_put M ?k ?en ?s3) \<and> mt_storage (chunks_put M ?k ?en ?s3) = mt_storage s" if "\<not> me_capacity_bytes M < ?n"
  proof -
    have "?n + SLAB_ALIGN \<le> 2 ^ 64" using that capacity_law by simp
    note m = maybe_slab_backed_ok [OF invalidate_keep [OF assms(1)] s2 this]
    have "l1_ok K A ((entry_segs ?en, concat segments) # G) s2" using m(1) by (simp add: entry_segs_def)
    note e = evict_chunks_ok [OF this, of "me_capacity_bytes M" ?n "lru_len (me_chunks M) (mt_chunks s2)"]
    have "entry_ok ?en" using m(7) by (simp add: entry_ok_def split: option.splits)
    from chunks_put_ok [OF e [THEN conjunct1] assms(2) this] show ?thesis using e m(2) st1 by simp
  qed
  then show "l1_ok K A G (chunks_cache_insert M ?k segments meta ?n s)"
    "mt_storage (chunks_cache_insert M ?k segments meta ?n s) = mt_storage s"
    using assms(1) s2 by (simp_all add: chunks_cache_insert_def Let_def)
qed

end

end
