(* ===== verification/Memory_Ops.thy ===== *)
theory Memory_Ops
  imports Memory_Correct
begin

text \<open>
  The operations of the memory tier against the abstract store: each keeps \<open>mem_ok\<close>, and a read
  answers with the bytes last stored and an unexpired version, or not at all.
\<close>

lemma read_result_cases:
  obtains (err) e where "x = Inl e" | (none) "x = Inr None" | (some) y m where "x = Inr (Some (y, m))"
  by (metis not_None_eq obj_sumE prod.exhaust)

text \<open>
  The effect of a write on what reads may answer.  \<open>kept\<close>: the storage tier took it; \<open>fresh\<close>: the caches
  were brought up to date as well.  A write that is kept and not fresh leaves the old bytes readable.
\<close>

definition settle :: "ObjectKey \<Rightarrow> bytes \<Rightarrow> bool \<Rightarrow> bool \<Rightarrow> (ObjectKey \<Rightarrow> bytes set) \<Rightarrow> ObjectKey \<Rightarrow> bytes set" where
  "settle key d kept fresh A = (if \<not> kept then A else if fresh then A(key := {d}) else A(key := insert d (A key)))"

text \<open>A batch write stores item after item; \<open>batch_after\<close> is the abstract store it leaves.\<close>

fun batch_after :: "((ObjectKey \<times> bytes \<times> BlockMeta) \<times> unit res) list \<Rightarrow> (ObjectKey \<Rightarrow> bytes set) \<Rightarrow> ObjectKey \<Rightarrow> bytes set" where
  "batch_after [] A = A"
| "batch_after (((key, data, _), r) # rest) A = batch_after rest (if r = Inr () then A(key := {data}) else A)"

context memory_system
begin

definition mem_ok ::
  "ObjectKey set \<Rightarrow> (ObjectKey \<Rightarrow> bytes set) \<Rightarrow> (segment list \<times> bytes) list \<Rightarrow> ('x, 'm, 'c, 'd) MemoryTier \<Rightarrow> bool" where
  "mem_ok K A G s \<longleftrightarrow> tracks K A (mt_storage s) \<and> l1_ok K A G s"

lemma l1_ok_frame [simp]:
  "l1_ok K A G (s\<lparr> mt_storage := st \<rparr>) = l1_ok K A G s" "l1_ok K A G (hit s) = l1_ok K A G s" "l1_ok K A G (miss s) = l1_ok K A G s"
  by (simp_all add: l1_ok_def seg_lists_def hit_def miss_def)

lemma storage_frame [simp]: "mt_storage (hit s) = mt_storage s" "mt_storage (miss s) = mt_storage s"
  "mt_storage (clone_handles es s) = mt_storage s"
  by (simp_all add: hit_def miss_def clone_handles_def)

lemma on_storage_eq: "on_storage f s = (r, s') \<longleftrightarrow> (\<exists>st. f (mt_storage s) = (r, st) \<and> s' = s\<lparr> mt_storage := st \<rparr>)"
  by (auto simp: on_storage_def split: prod.splits)

lemma mem_ok_storage:
  assumes "mem_ok K A G s" "shrinks (mt_storage s) st"
  shows "mem_ok K A G (s\<lparr> mt_storage := st \<rparr>)"
  using tracks_shrinks [OF _ assms(2)] assms(1) by (simp add: mem_ok_def)

lemma mem_ok_invalidate:
  assumes "mem_ok K A G s"
  shows "mem_ok K A G (invalidate_l1_entry M (to_string_key key) s)"
  using assms invalidate_keep invalidate_storage unfolding mem_ok_def by metis

lemma mem_ok_cache_insert:
  assumes "mem_ok K A G s" "data \<in> A key"
  shows "mem_ok K A G (cache_insert M (to_string_key key) data meta s)"
  using cache_insert_ok [of K A G s data key meta] assms by (simp add: mem_ok_def)

lemma mem_ok_chunks_insert:
  assumes "mem_ok K A G s" "concat segments \<in> A key"
  shows "mem_ok K A G (chunks_cache_insert M (to_string_key key) segments meta (length (concat segments)) s)"
  using chunks_cache_insert_ok [of K A G s segments key meta] assms by (simp add: mem_ok_def)

lemma delete_if_expired_shrinks:
  assumes "minv (st_meta st)" "delete_if_expired (me_storage M) now key m st = (r, st')"
  shows "shrinks st st'"
  by (rule shrinks_purged [OF purge_spec(1) [OF assms(1)]]) (use assms(2) in \<open>simp add: delete_if_expired_def\<close>)


section \<open>Probing\<close>

lemma set_touch: "distinct (map fst xs) \<Longrightarrow> set (touch k xs) = set xs"
  using mset_touch by (metis set_mset_mset)

lemma probe_cache_ok:
  assumes "mem_ok K A G s" "probe_cache M k s = (r, s')"
  shows "mem_ok K A G s'" "r = map_of (cents (mt_cache s)) k" "mt_storage s' = mt_storage s"
proof -
  obtain c where c: "lru_get (me_cache M) k (mt_cache s) = (r, c)" "s' = s\<lparr> mt_cache := c \<rparr>"
    using assms(2) by (auto simp: probe_cache_def split: prod.splits)
  note law = cl.get_law [OF c(1)]
  show "r = map_of (cents (mt_cache s)) k" "mt_storage s' = mt_storage s" using law c(2) by simp_all
  have "l1_ok K A G s'"
    by (rule l1_ok_cache [of K A G s]) (use assms(1) law c(2) set_touch [OF cl.distinct_law] in \<open>simp_all add: mem_ok_def\<close>)
  then show "mem_ok K A G s'" using assms(1) c(2) by (simp add: mem_ok_def)
qed

lemma probe_chunks_ok:
  assumes "mem_ok K A G s" "probe_chunks M k s = (r, s')"
  shows "mem_ok K A G s'" "r = map_of (dents (mt_chunks s)) k" "mt_storage s' = mt_storage s"
    "set (dents (mt_chunks s')) = set (dents (mt_chunks s))" "mt_slab s' = mt_slab s"
proof -
  obtain c where c: "lru_get (me_chunks M) k (mt_chunks s) = (r, c)" "s' = s\<lparr> mt_chunks := c \<rparr>"
    using assms(2) by (auto simp: probe_chunks_def split: prod.splits)
  note law = dl.get_law [OF c(1)]
  show "r = map_of (dents (mt_chunks s)) k" "mt_storage s' = mt_storage s" "mt_slab s' = mt_slab s" using law c(2) by simp_all
  show st: "set (dents (mt_chunks s')) = set (dents (mt_chunks s))" using law c(2) set_touch [OF dl.distinct_law] by simp
  have "l1_ok K A G (s\<lparr> mt_chunks := c \<rparr>)"
    by (rule l1_ok_chunks_same) (use assms(1) law c(2) set_touch [OF dl.distinct_law] mset_touch [OF dl.distinct_law] in \<open>simp_all add: mem_ok_def\<close>)
  then show "mem_ok K A G s'" using assms(1) c(2) by (simp add: mem_ok_def)
qed

lemma cached_data:
  assumes "mem_ok K A G s" "key \<in> K" "map_of (cents (mt_cache s)) (to_string_key key) = Some en"
  shows "ce_data en \<in> A key"
  using l1_okD(3) [of K A G s key en] assms by (simp add: mem_ok_def map_of_SomeD)

lemma chunked_data:
  assumes "mem_ok K A G s" "key \<in> K" "map_of (dents (mt_chunks s)) (to_string_key key) = Some en"
  shows "segs_bytes (mt_slab s) (cc_segments en) \<in> A key"
  using l1_okD(4) [of K A G s key en] assms by (simp add: mem_ok_def map_of_SomeD)

lemma purge_l1_ok:
  assumes "mem_ok K A G s" "purge_expired_l1_entry M now key (to_string_key key) m s = (r, s')"
  shows "mem_ok K A G s'"
proof -
  let ?s1 = "invalidate_l1_entry M (to_string_key key) s"
  note ok = mem_ok_invalidate [OF assms(1), of key]
  obtain x s2 where x: "on_storage (delete_if_expired (me_storage M) now key m) ?s1 = (x, s2)" by fastforce
  then obtain st where st: "delete_if_expired (me_storage M) now key m (mt_storage ?s1) = (x, st)" "s2 = ?s1\<lparr> mt_storage := st \<rparr>"
    by (auto simp: on_storage_eq)
  have "mem_ok K A G s2"
    unfolding st(2) by (rule mem_ok_storage [OF ok delete_if_expired_shrinks [OF _ st(1)]]) (use ok tracks_minv in \<open>auto simp: mem_ok_def\<close>)
  moreover have "s' = s2" using assms(2) x by (cases x) (simp_all add: purge_expired_l1_entry_def io_step_def)
  ultimately show ?thesis by simp
qed


section \<open>Reads\<close>

text \<open>\<open>loads_ok key body load\<close>: a storage read that answers for \<open>key\<close> as the object store promises.\<close>

definition loads_ok ::
  "ObjectKey set \<Rightarrow> (ObjectKey \<Rightarrow> bytes set) \<Rightarrow> int \<Rightarrow> ObjectKey \<Rightarrow> ('b \<Rightarrow> bytes)
     \<Rightarrow> (('x, 'm) StorageTier \<Rightarrow> ('b \<times> BlockMeta) option res \<times> ('x, 'm) StorageTier) \<Rightarrow> ('x, 'm) StorageTier \<Rightarrow> bool" where
  "loads_ok K A now key body load st \<longleftrightarrow> (\<forall>r st'. load st = (r, st') \<longrightarrow> shrinks st st'
     \<and> (\<forall>y m. r = Inr (Some (y, m)) \<longrightarrow> body y \<in> A key \<and> \<not> is_expired_at m now))"

lemma storage_get_loads:
  assumes "tracks K A st" "key \<in> K"
  shows "loads_ok K A now key id (storage_get (me_storage M) now key) st"
    "loads_ok K A now key concat (storage_get_chunks (me_storage M) now key) st"
  using storage_get_answers [OF assms] storage_get_chunks_answers [OF assms]
  unfolding loads_ok_def answers_def by blast+

lemma get_with_meta_loads:
  assumes "tracks K A st" "key \<in> K" "blocks st (to_string_key key) = Some m"
  shows "loads_ok K A now key id (get_with_meta (me_storage M) now key m) st"
    "loads_ok K A now key concat (get_chunks_with_meta (me_storage M) now key m) st"
proof -
  show "loads_ok K A now key id (get_with_meta (me_storage M) now key m) st"
    unfolding loads_ok_def
  proof (intro allI impI conjI)
    fix r st' y m'
    assume g: "get_with_meta (me_storage M) now key m st = (r, st')"
    note ok = get_with_meta_reads [OF assms g]
    show "shrinks st st'" using ok by (simp add: reads_ok_def)
    show "id y \<in> A key" "\<not> is_expired_at m' now" if "r = Inr (Some (y, m'))" using ok that by (simp_all add: reads_ok_def)
  qed
  show "loads_ok K A now key concat (get_chunks_with_meta (me_storage M) now key m) st"
    unfolding loads_ok_def
  proof (intro allI impI conjI)
    fix r st' y m'
    assume g: "get_chunks_with_meta (me_storage M) now key m st = (r, st')"
    note ok = get_chunks_with_meta_reads [OF assms g]
    show "shrinks st st'" using ok by (simp add: reads_ok_def)
    show "concat y \<in> A key" "\<not> is_expired_at m' now" if "r = Inr (Some (y, m'))" using ok that by (simp_all add: reads_ok_def)
  qed
qed

lemma fill_single_ok:
  assumes "mem_ok K A G s" "loads_ok K A now key id load (mt_storage s)" "fill_single M (to_string_key key) load s = (r, s')"
  shows "mem_ok K A G s' \<and> (\<forall>d m. r = Inr (Some (d, m)) \<longrightarrow> d \<in> A key \<and> \<not> is_expired_at m now)"
proof -
  obtain x st where x: "load (mt_storage s) = (x, st)" by fastforce
  have l: "shrinks (mt_storage s) st" "\<And>y m. x = Inr (Some (y, m)) \<Longrightarrow> y \<in> A key \<and> \<not> is_expired_at m now"
    using assms(2) x by (auto simp: loads_ok_def)
  let ?s1 = "miss s\<lparr> mt_storage := st \<rparr>"
  have ok: "mem_ok K A G ?s1" using mem_ok_storage [of K A G "miss s" st] assms(1) l(1) by (simp add: mem_ok_def)
  have run: "on_storage load (miss s) = (x, ?s1)" using x by (simp add: on_storage_def)
  show ?thesis
  proof (cases x rule: read_result_cases)
    case (some d m)
    then have "r = Inr (Some (d, m))" "s' = cache_insert M (to_string_key key) d m ?s1"
      using assms(3) run by (simp_all add: fill_single_def io_step_def)
    then show ?thesis using mem_ok_cache_insert [OF ok] l(2) [OF some] by simp
  qed (use assms(3) run ok in \<open>auto simp: fill_single_def io_step_def\<close>)
qed

lemma fill_chunks_ok:
  assumes "mem_ok K A G s" "loads_ok K A now key concat load (mt_storage s)" "fill_chunks M (to_string_key key) load s = (r, s')"
  shows "mem_ok K A G s' \<and> (\<forall>segs m. r = Inr (Some (segs, m)) \<longrightarrow>
    (\<exists>ds. segs = map Heap ds \<and> concat ds \<in> A key) \<and> \<not> is_expired_at m now)"
proof -
  obtain x st where x: "load (mt_storage s) = (x, st)" by fastforce
  have l: "shrinks (mt_storage s) st" "\<And>y m. x = Inr (Some (y, m)) \<Longrightarrow> concat y \<in> A key \<and> \<not> is_expired_at m now"
    using assms(2) x by (auto simp: loads_ok_def)
  let ?s1 = "miss s\<lparr> mt_storage := st \<rparr>"
  have ok: "mem_ok K A G ?s1" using mem_ok_storage [of K A G "miss s" st] assms(1) l(1) by (simp add: mem_ok_def)
  have run: "on_storage load (miss s) = (x, ?s1)" using x by (simp add: on_storage_def)
  show ?thesis
  proof (cases x rule: read_result_cases)
    case (some d m)
    then have "r = Inr (Some (map Heap d, m))" "s' = chunks_cache_insert M (to_string_key key) d m (length (concat d)) ?s1"
      using assms(3) run by (simp_all add: fill_chunks_def io_step_def)
    then show ?thesis using mem_ok_chunks_insert [OF ok] l(2) [OF some] by auto
  qed (use assms(3) run ok in \<open>auto simp: fill_chunks_def io_step_def\<close>)
qed

text \<open>A hit hands out views: the reader's handles join \<open>G\<close>.\<close>

lemma mem_ok_clone:
  assumes "mem_ok K A G s" "segs' \<in> set (seg_lists G s)" "set (seg_handles segs) \<subseteq> set (seg_handles segs')" "list_all seg_fits segs"
  shows "mem_ok K A ((segs, segs_bytes (mt_slab s) segs) # G) (clone_handles (seg_handles segs) s)"
proof -
  have l1: "l1_ok K A G s" using assms(1) by (simp add: mem_ok_def)
  have "set (concat (map seg_handles (seg_lists G s))) \<subseteq> set (mt_handles s)"
    using l1_okD(1) [OF l1] unfolding pins_ok_def by (metis set_mset_mono set_mset_mset)
  then have sub: "set (seg_handles segs @ mt_handles s) = set (mt_handles s)" using assms(2,3) by auto
  have p: "pins_ok (mt_slab s) (seg_handles segs @ mt_handles s) (segs # seg_lists G s)"
    using l1_okD(1) [OF l1] sub assms(4) unfolding pins_ok_def slab_ok_def by (auto split: option.splits)
  have "l1_ok K A ((segs, segs_bytes (mt_slab s) segs) # G) (clone_handles (seg_handles segs) s)"
  proof (rule l1_okI, goal_cases)
    case 1
    have "mset (seg_lists ((segs, segs_bytes (mt_slab s) segs) # G) (clone_handles (seg_handles segs) s)) \<subseteq># mset (segs # seg_lists G s)"
      by (simp add: seg_lists_def clone_handles_def)
    from pins_ok_perm [OF p this] show ?case by (simp add: clone_handles_def)
  qed (use l1_okD [OF l1] in \<open>auto simp: clone_handles_def\<close>)
  then show ?thesis using assms(1) by (simp add: mem_ok_def)
qed

text \<open>Dropping a reader's segments; an extent may go back to the slab, no bytes change.\<close>

lemma mem_ok_release:
  assumes "mem_ok K A ((segs, d) # G) s"
  shows "mem_ok K A G (drop_handles (seg_handles segs) s)"
proof -
  have l1: "l1_ok K A ((segs, d) # G) s" using assms by (simp add: mem_ok_def)
  have "mset (segs # seg_lists G s) \<subseteq># mset (seg_lists ((segs, d) # G) s)" by (simp add: seg_lists_def)
  note p = pins_drop [OF pins_ok_perm [OF l1_okD(1) [OF l1] this]]
  note f = same_but_pinsD [OF p [THEN conjunct2]]
  have "l1_ok K A G (drop_handles (seg_handles segs) s)"
    by (rule l1_okI) (use p l1_okD [OF l1] f in \<open>auto simp: seg_lists_def\<close>)
  then show ?thesis using assms f(1) by (simp add: mem_ok_def)
qed

lemma hit_chunks_ok:
  assumes "mem_ok K A G s" "key \<in> K" "map_of (dents (mt_chunks s)) (to_string_key key) = Some en" "hit_chunks en s = ((segs, m), s')"
  shows "\<exists>d. d \<in> A key \<and> mem_ok K A ((segs, d) # G) s'" "m = cc_meta en"
proof -
  have e: "segs = cc_segments en" "m = cc_meta en" "s' = clone_handles (seg_handles segs) (hit s)"
    using assms(4) by (auto simp: hit_chunks_def)
  have en: "(to_string_key key, en) \<in> set (dents (mt_chunks s))" using assms(3) by (rule map_of_SomeD)
  then have mem: "entry_segs en \<in> set (seg_lists G (hit s))" by (force simp: seg_lists_def hit_def)
  have ok: "mem_ok K A G (hit s)" using assms(1) by (simp add: mem_ok_def)
  then have "list_all seg_fits (entry_segs en)" using mem l1_okD(1) unfolding pins_ok_def mem_ok_def by blast
  then have "list_all seg_fits segs" by (simp add: e entry_segs_def)
  moreover have "set (seg_handles segs) \<subseteq> set (seg_handles (entry_segs en))" by (simp add: e entry_segs_def)
  ultimately have "mem_ok K A ((segs, segs_bytes (mt_slab (hit s)) segs) # G) s'"
    unfolding e(3) using mem_ok_clone [OF ok mem] by simp
  moreover have "segs_bytes (mt_slab (hit s)) segs \<in> A key" using chunked_data [OF assms(1-3)] by (simp add: e hit_def)
  ultimately show "\<exists>d. d \<in> A key \<and> mem_ok K A ((segs, d) # G) s'" by blast
  show "m = cc_meta en" by (rule e(2))
qed

lemma purge_then:
  assumes "mem_ok K A G s" "io_step (purge_expired_l1_entry M now key (to_string_key key) m s) (\<lambda>_ s2. (Inr v, s2)) = (r, s')"
  shows "mem_ok K A G s'" "r = Inr x \<Longrightarrow> x = v"
proof -
  obtain p s1 where p: "purge_expired_l1_entry M now key (to_string_key key) m s = (p, s1)" by fastforce
  have "s' = s1" "r = Inr x \<Longrightarrow> x = v" using assms(2) p by (cases p; simp add: io_step_def)+
  then show "mem_ok K A G s'" "r = Inr x \<Longrightarrow> x = v" using purge_l1_ok [OF assms(1) p] by simp_all
qed

definition data_ok :: "(ObjectKey \<Rightarrow> bytes set) \<Rightarrow> int \<Rightarrow> ObjectKey \<Rightarrow> (bytes \<times> BlockMeta) option res \<Rightarrow> bool" where
  "data_ok A now key r \<longleftrightarrow> (\<forall>d m. r = Inr (Some (d, m)) \<longrightarrow> d \<in> A key \<and> \<not> is_expired_at m now)"

lemma memory_get_ok:
  assumes "mem_ok K A G s" "key \<in> K" "memory_get M now key s = (r, s')"
  shows "mem_ok K A G s' \<and> data_ok A now key r"
proof -
  obtain p s1 where p: "probe_cache M (to_string_key key) s = (p, s1)" by fastforce
  note pr = probe_cache_ok [OF assms(1) p]
  show ?thesis
  proof (cases p)
    case None
    then have "fill_single M (to_string_key key) (storage_get (me_storage M) now key) s1 = (r, s')"
      using assms(3) p by (simp add: memory_get_def Let_def)
    moreover have "tracks K A (mt_storage s1)" using pr(1) by (simp add: mem_ok_def)
    ultimately show ?thesis
      using fill_single_ok [OF pr(1) storage_get_loads(1) [OF _ assms(2)]] unfolding data_ok_def by blast
  next
    case (Some en)
    have d: "ce_data en \<in> A key" using cached_data [OF assms(1,2)] pr(2) Some by simp
    show ?thesis
    proof (cases "is_expired_at (ce_meta en) now")
      case True
      then have run: "io_step (purge_expired_l1_entry M now key (to_string_key key) (ce_meta en) s1) (\<lambda>_ s2. (Inr None, s2)) = (r, s')"
        using assms(3) p Some by (simp add: memory_get_def Let_def)
      show ?thesis using purge_then [OF pr(1) run] by (auto simp: data_ok_def)
    next
      case False
      then have "r = Inr (Some (ce_data en, ce_meta en))" "s' = hit s1"
        using assms(3) p Some by (simp_all add: memory_get_def Let_def)
      then show ?thesis using pr(1) d False by (simp add: mem_ok_def data_ok_def)
    qed
  qed
qed

lemma memory_get_with_meta_ok:
  assumes "mem_ok K A G s" "key \<in> K" "blocks (mt_storage s) (to_string_key key) = Some expected"
    "memory_get_with_meta M now key expected s = (r, s')"
  shows "mem_ok K A G s' \<and> data_ok A now key r"
proof -
  obtain p s1 where p: "probe_cache M (to_string_key key) s = (p, s1)" by fastforce
  note pr = probe_cache_ok [OF assms(1) p]
  have load: "mem_ok K A G s' \<and> data_ok A now key r"
    if "fill_single M (to_string_key key) (get_with_meta (me_storage M) now key expected) s1 = (r, s')"
  proof -
    have "tracks K A (mt_storage s1)" using pr(1) by (simp add: mem_ok_def)
    then show ?thesis
      using fill_single_ok [OF pr(1) get_with_meta_loads(1) [OF _ assms(2)] that] assms(3) pr(3) unfolding data_ok_def by simp
  qed
  show ?thesis
  proof (cases p)
    case None
    then show ?thesis using load assms(4) p by (simp add: memory_get_with_meta_def Let_def)
  next
    case (Some en)
    have d: "ce_data en \<in> A key" using cached_data [OF assms(1,2)] pr(2) Some by simp
    show ?thesis
    proof (cases "is_expired_at (ce_meta en) now")
      case True
      then have run: "io_step (purge_expired_l1_entry M now key (to_string_key key) (ce_meta en) s1) (\<lambda>_ s2. (Inr None, s2)) = (r, s')"
        using assms(4) p Some by (simp add: memory_get_with_meta_def Let_def)
      show ?thesis using purge_then [OF pr(1) run] by (auto simp: data_ok_def)
    next
      case False
      then show ?thesis
        using load assms(4) p Some pr(1) d
        by (cases "meta_identity_matches (ce_meta en) expected")
          (auto simp: memory_get_with_meta_def Let_def mem_ok_def data_ok_def)
    qed
  qed
qed

text \<open>
  Multi-segment reads.  The answer joins \<open>G\<close>: from now on the reader holds these segments, which read
  as the stored bytes.
\<close>

definition segs_ok ::
  "ObjectKey set \<Rightarrow> (ObjectKey \<Rightarrow> bytes set) \<Rightarrow> (segment list \<times> bytes) list \<Rightarrow> int \<Rightarrow> ObjectKey
     \<Rightarrow> (segment list \<times> BlockMeta) option res \<Rightarrow> ('x, 'm, 'c, 'd) MemoryTier \<Rightarrow> bool" where
  "segs_ok K A G now key r s' \<longleftrightarrow>
     (case r of
        Inr (Some (segs, m)) \<Rightarrow> \<not> is_expired_at m now \<and> (\<exists>d. d \<in> A key \<and> mem_ok K A ((segs, d) # G) s')
      | _ \<Rightarrow> mem_ok K A G s')"

lemma mem_ok_heap: "mem_ok K A G s \<Longrightarrow> mem_ok K A ((map Heap ds, concat ds) # G) s"
  using l1_ok_Cons_G by (simp add: mem_ok_def)

lemma fill_chunks_segs:
  assumes "mem_ok K A G s" "loads_ok K A now key concat load (mt_storage s)" "fill_chunks M (to_string_key key) load s = (r, s')"
  shows "segs_ok K A G now key r s'"
  using fill_chunks_ok [OF assms] by (cases r rule: read_result_cases) (auto simp: segs_ok_def intro: mem_ok_heap)

lemma hit_segs:
  assumes "mem_ok K A G s" "key \<in> K" "map_of (dents (mt_chunks s)) (to_string_key key) = Some en" "\<not> is_expired_at (cc_meta en) now"
    "hit_chunks en s = (p, s')"
  shows "segs_ok K A G now key (Inr (Some p)) s'"
proof -
  obtain segs m where "p = (segs, m)" by (cases p)
  then show ?thesis using hit_chunks_ok [OF assms(1-3)] assms(4,5) by (simp add: segs_ok_def)
qed

lemma probe_chunks_Some:
  assumes "mem_ok K A G s" "probe_chunks M k s = (Some en, s1)"
  shows "map_of (dents (mt_chunks s1)) k = Some en"
proof -
  note pr = probe_chunks_ok [OF assms]
  have "(k, en) \<in> set (dents (mt_chunks s1))" using pr(2,4) map_of_SomeD by metis
  then show ?thesis by (rule map_of_is_SomeI [OF dl.distinct_law])
qed

lemma memory_get_chunks_ok:
  assumes "mem_ok K A G s" "key \<in> K" "memory_get_chunks M now key s = (r, s')"
  shows "segs_ok K A G now key r s'"
proof -
  obtain p s1 where p: "probe_chunks M (to_string_key key) s = (p, s1)" by fastforce
  note pr = probe_chunks_ok [OF assms(1) p]
  show ?thesis
  proof (cases p)
    case None
    then have "fill_chunks M (to_string_key key) (storage_get_chunks (me_storage M) now key) s1 = (r, s')"
      using assms(3) p by (simp add: memory_get_chunks_def Let_def)
    moreover have "tracks K A (mt_storage s1)" using pr(1) by (simp add: mem_ok_def)
    ultimately show ?thesis using fill_chunks_segs [OF pr(1) storage_get_loads(2) [OF _ assms(2)]] by blast
  next
    case (Some en)
    note en = probe_chunks_Some [OF assms(1) p [unfolded Some]]
    show ?thesis
    proof (cases "is_expired_at (cc_meta en) now")
      case True
      then have run: "io_step (purge_expired_l1_entry M now key (to_string_key key) (cc_meta en) s1) (\<lambda>_ s2. (Inr None, s2)) = (r, s')"
        using assms(3) p Some by (simp add: memory_get_chunks_def Let_def)
      show ?thesis using purge_then [OF pr(1) run] by (cases r rule: read_result_cases) (auto simp: segs_ok_def)
    next
      case False
      obtain q s2 where q: "hit_chunks en s1 = (q, s2)" by fastforce
      then have "r = Inr (Some q)" "s' = s2" using assms(3) p Some False by (simp_all add: memory_get_chunks_def Let_def)
      then show ?thesis using hit_segs [OF pr(1) assms(2) en False q] by simp
    qed
  qed
qed

lemma memory_get_chunks_with_meta_ok:
  assumes "mem_ok K A G s" "key \<in> K" "blocks (mt_storage s) (to_string_key key) = Some expected"
    "memory_get_chunks_with_meta M now key expected s = (r, s')"
  shows "segs_ok K A G now key r s'"
proof -
  obtain p s1 where p: "probe_chunks M (to_string_key key) s = (p, s1)" by fastforce
  note pr = probe_chunks_ok [OF assms(1) p]
  have load: "segs_ok K A G now key r s'"
    if "fill_chunks M (to_string_key key) (get_chunks_with_meta (me_storage M) now key expected) s1 = (r, s')"
  proof -
    have "tracks K A (mt_storage s1)" using pr(1) by (simp add: mem_ok_def)
    then show ?thesis
      using fill_chunks_segs [OF pr(1) get_with_meta_loads(2) [OF _ assms(2)] that] assms(3) pr(3) by simp
  qed
  show ?thesis
  proof (cases p)
    case None
    then show ?thesis using load assms(4) p by (simp add: memory_get_chunks_with_meta_def Let_def)
  next
    case (Some en)
    note en = probe_chunks_Some [OF assms(1) p [unfolded Some]]
    consider (dead) "is_expired_at (cc_meta en) now" | (other) "\<not> is_expired_at (cc_meta en) now" "\<not> meta_identity_matches (cc_meta en) expected"
      | (same) "\<not> is_expired_at (cc_meta en) now" "meta_identity_matches (cc_meta en) expected" by blast
    then show ?thesis
    proof cases
      case dead
      then have run: "io_step (purge_expired_l1_entry M now key (to_string_key key) (cc_meta en) s1) (\<lambda>_ s2. (Inr None, s2)) = (r, s')"
        using assms(4) p Some by (simp add: memory_get_chunks_with_meta_def Let_def)
      show ?thesis using purge_then [OF pr(1) run] by (cases r rule: read_result_cases) (auto simp: segs_ok_def)
    next
      case other
      then show ?thesis using load assms(4) p Some by (simp add: memory_get_chunks_with_meta_def Let_def)
    next
      case same
      obtain q s2 where q: "hit_chunks en s1 = (q, s2)" by fastforce
      then have "r = Inr (Some q)" "s' = s2" using assms(4) p Some same by (simp_all add: memory_get_chunks_with_meta_def Let_def)
      then show ?thesis using hit_segs [OF pr(1) assms(2) en same(1) q] by simp
    qed
  qed
qed

lemma memory_exists_ok:
  assumes "mem_ok K A G s" "key \<in> K" "memory_exists M now key s = (r, s')"
  shows "mem_ok K A G s' \<and> (r = Inr True \<longrightarrow> A key \<noteq> {})"
proof -
  obtain p s1 where p: "probe_cache M (to_string_key key) s = (p, s1)" by fastforce
  note pr = probe_cache_ok [OF assms(1) p]
  obtain q s2 where q: "probe_chunks M (to_string_key key) s1 = (q, s2)" by fastforce
  note qr = probe_chunks_ok [OF pr(1) q]
  have purge: "mem_ok K A G s' \<and> (r = Inr True \<longrightarrow> A key \<noteq> {})"
    if "mem_ok K A G t" "io_step (purge_expired_l1_entry M now key (to_string_key key) m t) (\<lambda>_ s3. (Inr False, s3)) = (r, s')" for m t
    using purge_then [OF that] by auto
  consider (c) en where "p = Some en" | (d) en where "p = None" "q = Some en" | (l2) "p = None" "q = None" by (cases p; cases q) auto
  then show ?thesis
  proof cases
    case c
    have "A key \<noteq> {}" using cached_data [OF assms(1,2), of en] pr(2) c by auto
    then show ?thesis
      using assms(3) p c purge [OF pr(1)] pr(1) by (cases "is_expired_at (ce_meta en) now") (auto simp: memory_exists_def Let_def)
  next
    case d
    have "A key \<noteq> {}" using chunked_data [OF pr(1) assms(2), of en] qr(2) d by auto
    then show ?thesis
      using assms(3) p q d purge [OF qr(1)] qr(1) by (cases "is_expired_at (cc_meta en) now") (auto simp: memory_exists_def Let_def)
  next
    case l2
    then have "on_storage (storage_exists (me_storage M) now key) s2 = (r, s')" using assms(3) p q by (simp add: memory_exists_def Let_def)
    then obtain st where st: "storage_exists (me_storage M) now key (mt_storage s2) = (r, st)" "s' = s2\<lparr> mt_storage := st \<rparr>"
      by (auto simp: on_storage_eq)
    have tr: "tracks K A (mt_storage s2)" using qr(1) by (simp add: mem_ok_def)
    note ex = storage_exists_answers [OF tr assms(2) st(1)]
    show ?thesis using mem_ok_storage [OF qr(1) ex(1)] ex(2) st(2) by blast
  qed
qed


section \<open>Writes\<close>

lemma mem_ok_after_write:
  assumes "l1_ok K A G s" "tracks K A' (mt_storage s)" "\<And>k. k \<noteq> key \<Longrightarrow> A' k = A k"
  shows "mem_ok K A' G (invalidate_l1_entry M (to_string_key key) s)"
proof -
  have "l1_ok (K - {key}) A' G s" by (rule l1_ok_mono [OF assms(1)]) (use assms(3) in auto)
  from invalidate_ok [OF this] assms(2) show ?thesis by (simp add: mem_ok_def)
qed

lemma stored_meta_ok:
  assumes "minv (st_meta (mt_storage s))" "stored_meta M k fb s = (r, s')"
  shows "\<exists>st. s' = s\<lparr> mt_storage := st \<rparr> \<and> shrinks (mt_storage s) st"
proof -
  obtain x st where x: "on_meta (mo_get_block (se_mo (me_storage M)) k) (mt_storage s) = (x, st)" by fastforce
  note g = get_block_spec [OF assms(1) x]
  show ?thesis using assms(2) x g shrinks_same [OF g(2,1,3)] by (cases x) (auto simp: stored_meta_def on_storage_def io_step_def)
qed

lemma l1_ok_more: "l1_ok K A G s \<Longrightarrow> (\<And>key. A key \<subseteq> A' key) \<Longrightarrow> l1_ok K A' G s"
  using l1_okD [of K A G s] by (intro l1_okI) blast+

lemma mem_ok_more: "mem_ok K A G s \<Longrightarrow> (\<And>key. A key \<subseteq> A' key) \<Longrightarrow> mem_ok K A' G s"
  using tracks_mono l1_ok_more unfolding mem_ok_def by metis

text \<open>
  The common tail of the four writes: once the storage tier reports success, the new version is
  installed in L1 after every older representation is gone, unless the metadata cannot be read back.
\<close>

lemma write_through:
  assumes "mem_ok K A G s" "tracks K (A(key := {data})) st"
    "io_step (stored_meta M (to_string_key key) meta (s\<lparr> mt_storage := st \<rparr>))
       (\<lambda>m s2. (Inr v, ins m (invalidate_l1_entry M (to_string_key key) s2))) = (r, s')"
    "\<And>m t. mem_ok K (A(key := {data})) G t \<Longrightarrow> mem_ok K (A(key := {data})) G (ins m t)"
  shows "mem_ok K (settle key data True (r = Inr v) A) G s'"
proof -
  let ?s1 = "s\<lparr> mt_storage := st \<rparr>" and ?A = "A(key := {data})"
  obtain x s2 where x: "stored_meta M (to_string_key key) meta ?s1 = (x, s2)" by fastforce
  have mi: "minv (st_meta (mt_storage ?s1))" using tracks_minv [OF assms(2)] by simp
  obtain st2 where m: "s2 = ?s1\<lparr> mt_storage := st2 \<rparr>" "shrinks st st2" using stored_meta_ok [OF mi x] by auto
  have l1: "l1_ok K A G s2" using assms(1) m(1) by (simp add: mem_ok_def)
  have tr: "tracks K ?A (mt_storage s2)" using tracks_shrinks [OF assms(2) m(2)] m(1) by simp
  show ?thesis
  proof (cases x)
    case (Inl e)
    then have "s' = s2" "r \<noteq> Inr v" using assms(3) x by (auto simp: io_step_def)
    moreover have "l1_ok K (A(key := insert data (A key))) G s2" by (rule l1_ok_more [OF l1]) auto
    moreover have "tracks K (A(key := insert data (A key))) (mt_storage s2)" by (rule tracks_mono [OF tr]) auto
    ultimately show ?thesis by (simp add: mem_ok_def settle_def)
  next
    case (Inr m')
    then have "r = Inr v" "s' = ins m' (invalidate_l1_entry M (to_string_key key) s2)" using assms(3) x by (auto simp: io_step_def)
    moreover have "mem_ok K ?A G (invalidate_l1_entry M (to_string_key key) s2)" by (rule mem_ok_after_write [OF l1 tr]) simp
    ultimately show ?thesis using assms(4) by (simp add: settle_def)
  qed
qed

lemma mem_ok_failed:
  assumes "mem_ok K A G s" "tracks K A st"
  shows "mem_ok K A G (s\<lparr> mt_storage := st \<rparr>)"
  using assms by (simp add: mem_ok_def)

lemma memory_put_ok:
  assumes "mem_ok K A G s" "key \<in> K" "inj_on (object_digest (se_hash (me_storage M))) K" "writes_to key data (mt_storage s)"
    "memory_put M now key data meta s = (r, s')"
  shows "mem_ok K (settle key data (fst (storage_put (me_storage M) now key data meta (mt_storage s)) = Inr ()) (r = Inr ()) A) G s'"
proof -
  obtain x st where x: "storage_put (me_storage M) now key data meta (mt_storage s) = (x, st)" by fastforce
  have tr: "tracks K A (mt_storage s)" using assms(1) by (simp add: mem_ok_def)
  note pt = put_tracks [OF storage_put_outcome [OF assms(4) x] tr assms(2,3)]
  have on: "on_storage (storage_put (me_storage M) now key data meta) s = (x, s\<lparr> mt_storage := st \<rparr>)" using x by (simp add: on_storage_def)
  show ?thesis
  proof (cases "x = Inr ()")
    case True
    let ?A = "A(key := {data})"
    have run: "io_step (stored_meta M (to_string_key key) meta (s\<lparr> mt_storage := st \<rparr>))
        (\<lambda>m s2. (Inr (), cache_insert M (to_string_key key) data m (invalidate_l1_entry M (to_string_key key) s2))) = (r, s')"
      using assms(5) on True by (simp add: memory_put_def Let_def io_step_ok)
    have "mem_ok K (settle key data True (r = Inr ()) A) G s'"
      by (rule write_through [OF assms(1) _ run]) (use pt(1) True in \<open>auto simp: mem_ok_cache_insert\<close>)
    then show ?thesis using x True by simp
  next
    case False
    then have "s' = s\<lparr> mt_storage := st \<rparr>" "r \<noteq> Inr ()"
      using assms(5) on by (cases x; simp add: memory_put_def Let_def io_step_def)+
    then show ?thesis using mem_ok_failed [OF assms(1)] pt(1) False x by (simp add: settle_def)
  qed
qed

lemma memory_put_chunks_ok:
  assumes "mem_ok K A G s" "key \<in> K" "inj_on (object_digest (se_hash (me_storage M))) K" "writes_to key (concat segs) (mt_storage s)"
    "memory_put_chunks M now key segs meta s = (r, s')"
  shows "mem_ok K (settle key (concat segs) (fst (storage_put_chunks (me_storage M) now key segs meta (mt_storage s)) = Inr ()) (r = Inr ()) A) G s'"
proof -
  obtain x st where x: "storage_put_chunks (me_storage M) now key segs meta (mt_storage s) = (x, st)" by fastforce
  have tr: "tracks K A (mt_storage s)" using assms(1) by (simp add: mem_ok_def)
  note pt = put_tracks [OF storage_put_chunks_outcome [OF assms(4) x] tr assms(2,3)]
  have on: "on_storage (storage_put_chunks (me_storage M) now key segs meta) s = (x, s\<lparr> mt_storage := st \<rparr>)" using x by (simp add: on_storage_def)
  show ?thesis
  proof (cases "x = Inr ()")
    case True
    let ?A = "A(key := {concat segs})"
    have run: "io_step (stored_meta M (to_string_key key) meta (s\<lparr> mt_storage := st \<rparr>))
        (\<lambda>m s2. (Inr (), chunks_cache_insert M (to_string_key key) segs m (length (concat segs)) (invalidate_l1_entry M (to_string_key key) s2))) = (r, s')"
      using assms(5) on True by (simp add: memory_put_chunks_def Let_def io_step_ok)
    have "mem_ok K (settle key (concat segs) True (r = Inr ()) A) G s'"
      by (rule write_through [OF assms(1) _ run]) (use pt(1) True in \<open>auto simp: mem_ok_chunks_insert\<close>)
    then show ?thesis using x True by simp
  next
    case False
    then have "s' = s\<lparr> mt_storage := st \<rparr>" "r \<noteq> Inr ()"
      using assms(5) on by (cases x; simp add: memory_put_chunks_def Let_def io_step_def)+
    then show ?thesis using mem_ok_failed [OF assms(1)] pt(1) False x by (simp add: settle_def)
  qed
qed

lemma bool_res_cases:
  obtains (err) e where "x = Inl e" | (no) "x = Inr False" | (yes) "x = Inr True"
  by (cases x) auto

lemma memory_put_if_absent_ok:
  assumes "mem_ok K A G s" "key \<in> K" "inj_on (object_digest (se_hash (me_storage M))) K" "writes_to key data (mt_storage s)"
    "memory_put_if_absent M now key data meta s = (r, s')"
  shows "mem_ok K (settle key data (fst (storage_put_if_absent (me_storage M) now key data meta (mt_storage s)) = Inr True) (r = Inr True) A) G s'"
proof -
  obtain x st where x: "storage_put_if_absent (me_storage M) now key data meta (mt_storage s) = (x, st)" by fastforce
  have tr: "tracks K A (mt_storage s)" using assms(1) by (simp add: mem_ok_def)
  obtain t where "(x \<noteq> Inr True \<and> shrinks (mt_storage s) st) \<or> (shrinks (mt_storage s) t \<and> put_outcome key data meta now True t x st)"
    by (rule storage_put_if_absent_outcome [OF assms(4) x]) blast+
  note pt = if_absent_tracks [OF this tr assms(2,3)]
  have on: "on_storage (storage_put_if_absent (me_storage M) now key data meta) s = (x, s\<lparr> mt_storage := st \<rparr>)" using x by (simp add: on_storage_def)
  show ?thesis
  proof (cases x rule: bool_res_cases)
    case yes
    let ?A = "A(key := {data})"
    have run: "io_step (stored_meta M (to_string_key key) meta (s\<lparr> mt_storage := st \<rparr>))
        (\<lambda>m s2. (Inr True, cache_insert M (to_string_key key) data m (invalidate_l1_entry M (to_string_key key) s2))) = (r, s')"
      using assms(5) on yes by (simp add: memory_put_if_absent_def Let_def io_step_ok)
    have "mem_ok K (settle key data True (r = Inr True) A) G s'"
      by (rule write_through [OF assms(1) _ run]) (use pt(1) yes in \<open>auto simp: mem_ok_cache_insert\<close>)
    then show ?thesis using x yes by simp
  qed (use mem_ok_failed [OF assms(1)] pt(1) assms(5) on x in \<open>auto simp: memory_put_if_absent_def Let_def io_step_def settle_def\<close>)
qed

lemma memory_put_chunks_if_absent_ok:
  assumes "mem_ok K A G s" "key \<in> K" "inj_on (object_digest (se_hash (me_storage M))) K" "writes_to key (concat segs) (mt_storage s)"
    "memory_put_chunks_if_absent M now key segs meta s = (r, s')"
  shows "mem_ok K (settle key (concat segs) (fst (storage_put_chunks_if_absent (me_storage M) now key segs meta (mt_storage s)) = Inr True) (r = Inr True) A) G s'"
proof -
  obtain x st where x: "storage_put_chunks_if_absent (me_storage M) now key segs meta (mt_storage s) = (x, st)" by fastforce
  have tr: "tracks K A (mt_storage s)" using assms(1) by (simp add: mem_ok_def)
  obtain t where "(x \<noteq> Inr True \<and> shrinks (mt_storage s) st) \<or> (shrinks (mt_storage s) t \<and> put_outcome key (concat segs) meta now True t x st)"
    by (rule storage_put_chunks_if_absent_outcome [OF assms(4) x]) blast+
  note pt = if_absent_tracks [OF this tr assms(2,3)]
  have on: "on_storage (storage_put_chunks_if_absent (me_storage M) now key segs meta) s = (x, s\<lparr> mt_storage := st \<rparr>)" using x by (simp add: on_storage_def)
  show ?thesis
  proof (cases x rule: bool_res_cases)
    case yes
    let ?A = "A(key := {concat segs})"
    have run: "io_step (stored_meta M (to_string_key key) meta (s\<lparr> mt_storage := st \<rparr>))
        (\<lambda>m s2. (Inr True, chunks_cache_insert M (to_string_key key) segs m (length (concat segs)) (invalidate_l1_entry M (to_string_key key) s2))) = (r, s')"
      using assms(5) on yes by (simp add: memory_put_chunks_if_absent_def Let_def io_step_ok)
    have "mem_ok K (settle key (concat segs) True (r = Inr True) A) G s'"
      by (rule write_through [OF assms(1) _ run]) (use pt(1) yes in \<open>auto simp: mem_ok_chunks_insert\<close>)
    then show ?thesis using x yes by simp
  qed (use mem_ok_failed [OF assms(1)] pt(1) assms(5) on x in \<open>auto simp: memory_put_chunks_if_absent_def Let_def io_step_def settle_def\<close>)
qed

lemma tracks_removed:
  assumes "tracks K A s" "blocks s (to_string_key key) = None"
  shows "tracks K (A(key := {})) s"
  using assms unfolding tracks_def by (auto simp: to_string_key_eq)

lemma memory_delete_ok:
  assumes "mem_ok K A G s" "memory_delete M now key s = (r, s')"
  shows "mem_ok K (if is_ok r then A(key := {}) else A) G s'"
proof -
  let ?s1 = "invalidate_l1_entry M (to_string_key key) s"
  have l1: "l1_ok K A G s" and tr: "tracks K A (mt_storage s)" using assms(1) by (simp_all add: mem_ok_def)
  have st1: "mt_storage ?s1 = mt_storage s" by (rule invalidate_storage [OF l1])
  obtain st where st: "storage_retire (me_storage M) now key (mt_storage s) = (r, st)" "s' = ?s1\<lparr> mt_storage := st \<rparr>"
    using assms(2) st1 by (auto simp: memory_delete_def on_storage_def split: prod.splits)
  note rt = storage_retire_tracks [OF tr st(1)]
  have A: "l1_ok K (A(key := {})) G ?s1" by (rule invalidate_ok(1)) (rule l1_ok_mono [OF l1], auto)
  show ?thesis
  proof (cases "is_ok r")
    case True
    then have "tracks K (A(key := {})) st" by (intro tracks_removed tracks_shrinks [OF tr rt(1)] rt(2))
    then show ?thesis using True A st(2) by (simp add: mem_ok_def)
  next
    case False
    then show ?thesis using tracks_shrinks [OF tr rt(1)] invalidate_keep [OF l1] st(2) by (simp add: mem_ok_def)
  qed
qed


section \<open>Batches\<close>

definition l1_slot_ok :: "(ObjectKey \<Rightarrow> bytes set) \<Rightarrow> int \<Rightarrow> ObjectKey \<Rightarrow> l1_slot \<Rightarrow> bool" where
  "l1_slot_ok A now key slot = (case slot of L1Hit d m \<Rightarrow> d \<in> A key \<and> \<not> is_expired_at m now | _ \<Rightarrow> True)"

lemma l1_probe_ok:
  assumes "mem_ok K A G s" "set keys \<subseteq> K" "l1_probe M now keys s = (slots, s')"
  shows "mem_ok K A G s' \<and> list_all2 (l1_slot_ok A now) keys slots"
  using assms
proof (induction keys arbitrary: s slots s')
  case (Cons key keys)
  obtain p s1 where p: "probe_cache M (to_string_key key) s = (p, s1)" by fastforce
  note pr = probe_cache_ok [OF Cons.prems(1) p]
  obtain slot s2 where h: "(case p of None \<Rightarrow> (L1Miss, miss s1)
      | Some en \<Rightarrow> if is_expired_at (ce_meta en) now then (L1Expired (ce_meta en), s1) else (L1Hit (ce_data en) (ce_meta en), hit s1)) = (slot, s2)"
    by fastforce
  obtain rest s3 where r: "l1_probe M now keys s2 = (rest, s3)" by fastforce
  have e: "slots = slot # rest" "s' = s3" using Cons.prems(3) p h r by simp_all
  have "mem_ok K A G s2" using h pr(1) by (auto simp: mem_ok_def split: option.splits if_splits)
  moreover have "ce_data en \<in> A key" if "p = Some en" for en
    using cached_data [OF Cons.prems(1), of key en] pr(2) that Cons.prems(2) by simp
  then have "l1_slot_ok A now key slot" using h by (auto simp: l1_slot_ok_def split: option.splits if_splits)
  ultimately show ?case unfolding e using Cons.IH [OF _ _ r] Cons.prems(2) by simp
qed simp

definition results_ok :: "(ObjectKey \<Rightarrow> bytes set) \<Rightarrow> int \<Rightarrow> ObjectKey list \<Rightarrow> get_result option list \<Rightarrow> bool" where
  "results_ok A now keys rs \<longleftrightarrow> length rs = length keys
     \<and> (\<forall>i < length keys. \<forall>r. rs ! i = Some r \<longrightarrow> data_ok A now (keys ! i) r)"

lemma results_ok_update:
  assumes "results_ok A now keys rs" "i < length keys \<Longrightarrow> data_ok A now (keys ! i) r"
  shows "results_ok A now keys (rs[i := Some r])"
  unfolding results_ok_def
proof (intro conjI allI impI)
  show "length (rs[i := Some r]) = length keys" using assms(1) by (simp add: results_ok_def)
  fix j r'
  assume "j < length keys" "rs[i := Some r] ! j = Some r'"
  then show "data_ok A now (keys ! j) r'" using assms by (cases "j = i") (auto simp: results_ok_def)
qed

lemma l1_purge_ok:
  assumes "mem_ok K A G s" "results_ok A now keys rs" "l1_purge M now keys jobs rs s = (out, s')"
  shows "mem_ok K A G s' \<and> results_ok A now keys out"
  using assms
proof (induction jobs arbitrary: rs s)
  case (Cons j jobs)
  obtain key slot where j: "j = (key, slot)" by (cases j)
  show ?case
  proof (cases slot)
    case (L1Expired m)
    let ?s1 = "invalidate_l1_entry M (to_string_key key) s"
    note ok = mem_ok_invalidate [OF Cons.prems(1), of key]
    obtain x st where x: "delete_if_expired (me_storage M) now key m (mt_storage ?s1) = (x, st)" by fastforce
    have ok2: "mem_ok K A G (?s1\<lparr> mt_storage := st \<rparr>)"
      by (rule mem_ok_storage [OF ok delete_if_expired_shrinks [OF _ x]]) (use ok tracks_minv in \<open>auto simp: mem_ok_def\<close>)
    have upd: "results_ok A now keys (rs[i := Some (Inl e)])" for i e
      by (rule results_ok_update [OF Cons.prems(2)]) (simp add: data_ok_def)
    show ?thesis
      using Cons.prems(3) Cons.IH [OF ok2] upd Cons.prems(2) x by (cases x) (auto simp: j L1Expired on_storage_def)
  qed (use Cons in \<open>simp_all add: j\<close>)
qed simp

lemma l1_fill_ok:
  assumes "mem_ok K A G s" "results_ok A now keys rs" "l1_fill M jobs rs s = (out, s')"
    "\<And>i key r. ((i, key), r) \<in> set jobs \<Longrightarrow> i < length keys \<and> keys ! i = key \<and> data_ok A now key r"
  shows "mem_ok K A G s' \<and> results_ok A now keys out"
  using assms
proof (induction jobs arbitrary: rs s)
  case (Cons j jobs)
  obtain i key r where j: "j = ((i, key), r)" by (cases j) auto
  have d: "keys ! i = key" "data_ok A now key r" using Cons.prems(4) j by auto
  let ?s1 = "case r of Inr (Some (data, meta)) \<Rightarrow> cache_insert M (to_string_key key) data meta s | _ \<Rightarrow> s"
  have ok: "mem_ok K A G ?s1"
    using d(2) Cons.prems(1) mem_ok_cache_insert [OF Cons.prems(1)] by (cases r rule: read_result_cases) (auto simp: data_ok_def)
  have res: "results_ok A now keys (rs[i := Some r])" by (rule results_ok_update [OF Cons.prems(2)]) (use d in simp)
  have run: "l1_fill M jobs (rs[i := Some r]) ?s1 = (out, s')" using Cons.prems(3) by (simp add: j)
  show ?case by (rule Cons.IH [OF ok res run]) (rule Cons.prems(4), simp)
qed simp

lemma l1_fetch_ok:
  assumes "mem_ok K A G s" "results_ok A now keys out" "set keys \<subseteq> K"
    "\<And>i key. (i, key) \<in> set to_fetch \<Longrightarrow> i < length keys \<and> keys ! i = key"
    "(if to_fetch = [] then (out, s)
      else (case on_storage (storage_get_batch (me_storage M) now (map snd to_fetch)) s of
         (l2, s3) \<Rightarrow> l1_fill M (zip to_fetch l2) out s3)) = (out2, s')"
  shows "mem_ok K A G s' \<and> results_ok A now keys out2"
proof (cases "to_fetch = []")
  case True
  then show ?thesis using assms(1,2,5) by simp
next
  case False
  obtain l2 st where l2: "storage_get_batch (me_storage M) now (map snd to_fetch) (mt_storage s) = (l2, st)" by fastforce
  have tr: "tracks K A (mt_storage s)" using assms(1) by (simp add: mem_ok_def)
  have sub: "set (map snd to_fetch) \<subseteq> K" using assms(3,4) by fastforce
  note gb = storage_get_batch_ok [OF tr sub l2]
  have ok3: "mem_ok K A G (s\<lparr> mt_storage := st \<rparr>)" using mem_ok_storage [OF assms(1)] gb by blast
  have run: "l1_fill M (zip to_fetch l2) out (s\<lparr> mt_storage := st \<rparr>) = (out2, s')"
    using assms(5) False l2 by (simp add: on_storage_def)
  show ?thesis
  proof (rule l1_fill_ok [OF ok3 assms(2) run], goal_cases)
    case (1 i key r)
    obtain j where j: "j < length to_fetch" "to_fetch ! j = (i, key)" "l2 ! j = r" using 1 by (auto simp: in_set_zip)
    have "(i, key) \<in> set to_fetch" using j(1,2) nth_mem by metis
    moreover have "data_ok A now key r" using gb j by (auto simp: data_ok_def)
    ultimately show ?case using assms(4) by blast
  qed
qed

lemma memory_get_batch_ok:
  assumes "mem_ok K A G s" "set keys \<subseteq> K" "memory_get_batch M now keys s = (rs, s')"
  shows "mem_ok K A G s' \<and> length rs = length keys \<and> (\<forall>i < length keys. data_ok A now (keys ! i) (rs ! i))"
proof -
  obtain slots s1 where p: "l1_probe M now keys s = (slots, s1)" by (rule prod.exhaust)
  note pr = l1_probe_ok [OF assms(1,2) p]
  have rk: "results_ok A now keys (map slot_result slots)"
    using pr by (auto simp: results_ok_def list_all2_conv_all_nth slot_result_def l1_slot_ok_def data_ok_def split: l1_slot.splits)
  obtain out s2 where q: "l1_purge M now keys (zip keys slots) (map slot_result slots) s1 = (out, s2)" by (rule prod.exhaust)
  note pu = l1_purge_ok [OF conjunct1 [OF pr] rk q]
  let ?tf = "filter (\<lambda>(i, _). slots ! i = L1Miss) (enumerate 0 keys)"
  have tf: "i < length keys \<and> keys ! i = key" if "(i, key) \<in> set ?tf" for i key
    using that by (auto simp: in_set_enumerate_eq)
  obtain out2 s3 where o: "(if ?tf = [] then (out, s2)
      else (case on_storage (storage_get_batch (me_storage M) now (map snd ?tf)) s2 of
         (l2, s3) \<Rightarrow> l1_fill M (zip ?tf l2) out s3)) = (out2, s3)" by (rule prod.exhaust)
  have fin: "mem_ok K A G s3 \<and> results_ok A now keys out2"
    by (rule l1_fetch_ok [OF conjunct1 [OF pu] conjunct2 [OF pu] assms(2) tf o])
  have "(map (\<lambda>r. case r of Some x \<Rightarrow> x | None \<Rightarrow> Inr None) out2, s3) = (rs, s')"
    using assms(3) unfolding memory_get_batch_def p prod.case q Let_def o .
  then have "rs = map (\<lambda>r. case r of Some x \<Rightarrow> x | None \<Rightarrow> Inr None) out2" "s' = s3" by simp_all
  then show ?thesis using fin by (auto simp: results_ok_def data_ok_def split: option.splits)
qed

fun batch_writes :: "int \<Rightarrow> (ObjectKey \<times> bytes \<times> BlockMeta) list \<Rightarrow> ('x, 'm) StorageTier \<Rightarrow> bool" where
  "batch_writes now [] st = True"
| "batch_writes now ((key, data, meta) # items) st =
     (writes_to key data st \<and> batch_writes now items (snd (storage_put (me_storage M) now key data meta st)))"

lemma storage_put_batch_tracks:
  assumes "tracks K A st" "fst ` set items \<subseteq> K" "inj_on (object_digest (se_hash (me_storage M))) K" "batch_writes now items st"
    "storage_put_batch (me_storage M) now items st = (rs, st')"
  shows "tracks K (batch_after (zip items rs) A) st' \<and> length rs = length items"
  using assms
proof (induction items arbitrary: A st rs st')
  case (Cons it items)
  obtain key data meta where it: "it = (key, data, meta)" by (cases it)
  obtain r st1 where r: "storage_put (me_storage M) now key data meta st = (r, st1)" by fastforce
  obtain rs0 st2 where r2: "storage_put_batch (me_storage M) now items st1 = (rs0, st2)" by fastforce
  have e: "rs = r # rs0" "st' = st2" using Cons.prems(5) it r r2 by simp_all
  have w: "writes_to key data st" "batch_writes now items st1" using Cons.prems(4) it r by simp_all
  have "tracks K (if r = Inr () then A(key := {data}) else A) st1"
    by (rule put_tracks(1) [OF storage_put_outcome [OF w(1) r] Cons.prems(1) _ Cons.prems(3)]) (use Cons.prems(2) it in simp)
  from Cons.IH [OF this _ Cons.prems(3) w(2) r2] show ?case unfolding e using Cons.prems(2) it by simp
qed simp

lemma batch_after_other: "key \<notin> fst ` fst ` set jobs \<Longrightarrow> batch_after jobs A key = A key"
  by (induction jobs A rule: batch_after.induct) auto

lemma l1_store_ok:
  assumes "l1_ok {key \<in> K. key \<notin> done_keys} B G s" "tracks K B (mt_storage s)"
    "distinct (map (fst \<circ> fst) jobs)" "done_keys = {key. \<exists>d m. ((key, d, m), Inr ()) \<in> set jobs}"
    "\<And>key d m. ((key, d, m), Inr ()) \<in> set jobs \<Longrightarrow> d \<in> B key"
  shows "mem_ok K B G (l1_store M jobs s)"
  using assms
proof (induction jobs arbitrary: s done_keys)
  case Nil
  then show ?case by (simp add: mem_ok_def)
next
  case (Cons j jobs)
  obtain key data meta r where j: "j = ((key, data, meta), r)" by (cases j) auto
  let ?dk = "{key. \<exists>d m. ((key, d, m), Inr ()) \<in> set jobs}"
  show ?case
  proof (cases "is_ok r")
    case False
    then have "done_keys = ?dk" using Cons.prems(4) j by (auto simp: is_ok_def)
    then show ?thesis using Cons.IH [of ?dk s] Cons.prems j False by (auto simp: is_ok_def)
  next
    case True
    then have r: "r = Inr ()" by (cases r) auto
    obtain x st where x: "on_meta (mo_get_block (se_mo (me_storage M)) (to_string_key key)) (mt_storage s) = (x, st)" by fastforce
    note g = get_block_spec [OF tracks_minv [OF Cons.prems(2)] x]
    let ?m = "case x of Inr (Some b) \<Rightarrow> b | _ \<Rightarrow> meta"
    let ?s2 = "invalidate_l1_entry M (to_string_key key) (s\<lparr> mt_storage := st \<rparr>)"
    have notin: "key \<notin> ?dk" using Cons.prems(3) j by force
    have dk: "done_keys = insert key ?dk" using Cons.prems(4) j r by auto
    have "{k \<in> K. k \<notin> ?dk} - {key} = {k \<in> K. k \<notin> done_keys}" using dk by auto
    then have "l1_ok ({k \<in> K. k \<notin> ?dk} - {key}) B G (s\<lparr> mt_storage := st \<rparr>)" using Cons.prems(1) by simp
    note inv = invalidate_ok [OF this]
    have bk: "data \<in> B key" using Cons.prems(5) j r by auto
    note ins = cache_insert_ok [OF inv(1) bk, of ?m]
    have "shrinks (mt_storage s) st" by (rule shrinks_same [OF g(2,1,3)])
    then have tr: "tracks K B (mt_storage (cache_insert M (to_string_key key) data ?m ?s2))"
      using tracks_shrinks [OF Cons.prems(2)] ins(2) inv(2) by simp
    have "mem_ok K B G (l1_store M jobs (cache_insert M (to_string_key key) data ?m ?s2))"
      by (rule Cons.IH [OF ins(1) tr _ refl]) (use Cons.prems(3,5) in auto)
    then show ?thesis using j True x by (simp add: on_storage_def Let_def)
  qed
qed

lemma batch_after_done:
  assumes "distinct (map (fst \<circ> fst) jobs)" "((key, d, m), Inr ()) \<in> set jobs"
  shows "batch_after jobs A key = {d}"
  using assms
proof (induction jobs A rule: batch_after.induct)
  case (2 k d' m' r rest A)
  show ?case
  proof (cases "((key, d, m), Inr ()) \<in> set rest")
    case True
    then show ?thesis using 2 by simp
  next
    case False
    then have "k = key" "d' = d" "r = Inr ()" using 2(3) by auto
    moreover have "key \<notin> fst ` fst ` set rest" using 2(2) calculation(1) by force
    ultimately show ?thesis using batch_after_other by simp
  qed
qed simp

lemma batch_after_kept:
  "\<not> (\<exists>d m. ((key, d, m), Inr ()) \<in> set jobs) \<Longrightarrow> batch_after jobs A key = A key"
  by (induction jobs A rule: batch_after.induct) auto

lemma memory_put_batch_ok:
  assumes "mem_ok K A G s" "fst ` set items \<subseteq> K" "distinct (map fst items)"
    "inj_on (object_digest (se_hash (me_storage M))) K" "batch_writes now items (mt_storage s)"
    "memory_put_batch M now items s = (rs, s')"
  shows "mem_ok K (batch_after (zip items rs) A) G s' \<and> length rs = length items"
proof -
  let ?B = "batch_after (zip items rs) A" and ?dk = "{key. \<exists>d m. ((key, d, m), Inr ()) \<in> set (zip items rs)}"
  obtain st where st: "storage_put_batch (me_storage M) now items (mt_storage s) = (rs, st)" "s' = l1_store M (zip items rs) (s\<lparr> mt_storage := st \<rparr>)"
    using assms(6) by (auto simp: memory_put_batch_def on_storage_def split: prod.splits)
  have tr: "tracks K A (mt_storage s)" using assms(1) by (simp add: mem_ok_def)
  note t = storage_put_batch_tracks [OF tr assms(2,4,5) st(1)]
  have "map (fst \<circ> fst) (zip items rs) = map fst (map fst (zip items rs))" by simp
  also have "\<dots> = map fst items" using t by (simp del: map_map)
  finally have di: "distinct (map (fst \<circ> fst) (zip items rs))" using assms(3) by simp
  have "l1_ok {key \<in> K. key \<notin> ?dk} ?B G (s\<lparr> mt_storage := st \<rparr>)"
  proof -
    have "l1_ok K A G (s\<lparr> mt_storage := st \<rparr>)" using assms(1) by (simp add: mem_ok_def)
    then show ?thesis by (rule l1_ok_mono) (use batch_after_kept in auto)
  qed
  then have "mem_ok K ?B G (l1_store M (zip items rs) (s\<lparr> mt_storage := st \<rparr>))"
    by (rule l1_store_ok [OF _ _ di refl]) (use t batch_after_done [OF di] in auto)
  then show ?thesis using st(2) t by simp
qed


section \<open>The slab side\<close>

lemma l1_ok_merge:
  assumes "l1_ok K A ((a, x) # (b, y) # G) s"
  shows "l1_ok K A ((b @ a, y @ x) # G) s"
proof (rule l1_okI, goal_cases)
  case 1
  have "pins_ok (mt_slab s) (mt_handles s) (a # b # seg_lists G s)"
    by (rule pins_ok_perm [OF l1_okD(1) [OF assms]]) (simp add: seg_lists_def)
  then have "pins_ok (mt_slab s) (mt_handles s) ((b @ a) # seg_lists G s)" by (simp add: pins_ok_def ac_simps)
  then show ?case by (rule pins_ok_perm) (simp add: seg_lists_def)
next
  case (2 segs d)
  have "segs_bytes (mt_slab s) a = x" "segs_bytes (mt_slab s) b = y"
    by (rule l1_okD(2) [OF assms]; simp)+
  then show ?case using 2 l1_okD(2) [OF assms, of segs d] by auto
qed (use l1_okD [OF assms] in auto)

lemma evict_chunks_cache_to_free_ok:
  assumes "mem_ok K A G s"
  shows "mem_ok K A G (evict_chunks_cache_to_free M need s)"
  using evict_to_free_ok [of K A G s] assms by (simp add: mem_ok_def evict_chunks_cache_to_free_def)

lemma insert_chunks_from_slab_ok:
  assumes "l1_ok (K - {key}) A (([View ext 0 (ext_len ext)], d) # G) s" "tracks K A (mt_storage s)" "d \<in> A key" "0 < ext_len ext"
  shows "mem_ok K A G (insert_chunks_from_slab M (to_string_key key) ext meta s)"
proof -
  let ?k = "to_string_key key" and ?v = "[View ext 0 (ext_len ext)]"
  let ?en = "\<lparr> cc_segments = ?v, cc_meta = meta, cc_total_size = ext_len ext, cc_slab = Some ext \<rparr>"
  let ?s0 = "invalidate_l1_entry M ?k s"
  let ?s1 = "clone_handles [ext] ?s0"
  note inv = invalidate_ok [OF assms(1)]
  have ok0: "mem_ok K A ((?v, d) # G) ?s0" using inv assms(2) by (simp add: mem_ok_def)
  have "mem_ok K A (([View ext 0 0], segs_bytes (mt_slab ?s0) [View ext 0 0]) # (?v, d) # G) (clone_handles (seg_handles [View ext 0 0]) ?s0)"
    by (rule mem_ok_clone [OF ok0, of ?v]) (simp_all add: seg_lists_def seg_fits_def)
  moreover have "segs_bytes (mt_slab ?s0) [View ext 0 0] = []" by (simp add: segs_bytes_def seg_bytes_def split: option.splits)
  ultimately have "l1_ok K A (([View ext 0 0], []) # (?v, d) # G) ?s1" and st1: "tracks K A (mt_storage ?s1)"
    by (simp_all add: mem_ok_def)
  from l1_ok_merge [OF this(1)] have l1: "l1_ok K A ((entry_segs ?en, d) # G) ?s1" by (simp add: entry_segs_def)
  have en: "entry_ok ?en" by (simp add: entry_ok_def)
  have "mem_ok K A G (chunks_put M ?k ?en s2)"
    if "l1_ok K A ((entry_segs ?en, d) # G) s2" "mt_storage s2 = mt_storage ?s1" for s2
    using chunks_put_ok [OF that(1) assms(3) en] that(2) st1 by (simp add: mem_ok_def)
  then show ?thesis
    using evict_chunks_ok [OF l1] l1 assms(4) by (simp add: insert_chunks_from_slab_def Let_def)
qed

text \<open>The RDMA fast path pins the extent it serves; the extent holds exactly the object.\<close>

lemma get_chunks_slab_ok:
  assumes "mem_ok K A G s" "key \<in> K" "get_chunks_slab M now key nic s = (r, s')"
  shows "case r of
      None \<Rightarrow> mem_ok K A G s'
    | Some p \<Rightarrow> \<not> is_expired_at (sp_meta p) now \<and> (\<exists>sl. mt_slab s' = Some sl \<and> sp_view p = extent_view sl (sp_pin p) nic
        \<and> extent_bytes sl (sp_pin p) \<in> A key
        \<and> mem_ok K A (([View (sp_pin p) 0 (ext_len (sp_pin p))], extent_bytes sl (sp_pin p)) # G) s')"
proof -
  obtain p s1 where p: "probe_chunks M (to_string_key key) s = (p, s1)" by fastforce
  note pr = probe_chunks_ok [OF assms(1) p]
  show ?thesis
  proof (cases p)
    case None
    then show ?thesis using assms(3) p pr(1) by (auto simp: get_chunks_slab_def Let_def)
  next
    case (Some en)
    note en = probe_chunks_Some [OF assms(1) p [unfolded Some]]
    have mem: "(to_string_key key, en) \<in> set (dents (mt_chunks s1))" using en by (rule map_of_SomeD)
    consider (dead) "is_expired_at (cc_meta en) now" | (heap) "\<not> is_expired_at (cc_meta en) now" "cc_slab en = None \<or> mt_slab s1 = None"
      | (slab) e sl where "\<not> is_expired_at (cc_meta en) now" "cc_slab en = Some e" "mt_slab s1 = Some sl" by fastforce
    then show ?thesis
    proof cases
      case dead
      let ?s2 = "invalidate_l1_entry M (to_string_key key) s1"
      note ok = mem_ok_invalidate [OF pr(1), of key]
      obtain x st where x: "delete_if_expired (me_storage M) now key (cc_meta en) (mt_storage ?s2) = (x, st)" by fastforce
      have "mem_ok K A G (?s2\<lparr> mt_storage := st \<rparr>)"
        by (rule mem_ok_storage [OF ok delete_if_expired_shrinks [OF _ x]]) (use ok tracks_minv in \<open>auto simp: mem_ok_def\<close>)
      then show ?thesis using assms(3) p Some dead x by (auto simp: get_chunks_slab_def Let_def on_storage_def)
    next
      case heap
      then show ?thesis using assms(3) p Some pr(1) by (auto simp: get_chunks_slab_def Let_def split: option.splits)
    next
      case slab
      have r: "r = Some \<lparr> sp_view = extent_view sl e nic, sp_meta = cc_meta en, sp_pin = e \<rparr>" "s' = clone_handles [e] (hit s1)"
        using assms(3) p Some slab by (simp_all add: get_chunks_slab_def Let_def)
      have l1: "l1_ok K A G s1" using pr(1) by (simp add: mem_ok_def)
      have "tiles e 0 (cc_segments en)" using l1_okD(5) [OF l1 mem] slab(2) by (simp add: entry_ok_def)
      from tiles_bytes [OF this] have by': "segs_bytes (Some sl) (cc_segments en) = extent_bytes sl e" by simp
      have A: "extent_bytes sl e \<in> A key" using chunked_data [OF pr(1) assms(2) en] slab(3) by' by simp
      let ?v = "[View e 0 (ext_len e)]"
      have v: "segs_bytes (mt_slab (hit s1)) ?v = extent_bytes sl e"
        using slab(3) by (simp add: segs_bytes_def seg_bytes_def hit_def extent_bytes_def)
      have "mem_ok K A ((?v, segs_bytes (mt_slab (hit s1)) ?v) # G) (clone_handles (seg_handles ?v) (hit s1))"
      proof (rule mem_ok_clone)
        show "mem_ok K A G (hit s1)" using pr(1) by (simp add: mem_ok_def)
        show "entry_segs en \<in> set (seg_lists G (hit s1))" using mem by (force simp: seg_lists_def hit_def)
        show "set (seg_handles ?v) \<subseteq> set (seg_handles (entry_segs en))" using slab(2) by (simp add: entry_segs_def)
      qed (simp add: seg_fits_def)
      then have "mem_ok K A ((?v, extent_bytes sl e) # G) s'" unfolding r(2) v by simp
      moreover have "mt_slab s' = Some sl" using r(2) slab(3) by (simp add: clone_handles_def hit_def)
      ultimately show ?thesis using A slab(1) by (simp add: r(1))
    qed
  qed
qed

lemma set_rdma_slab_ok:
  assumes "mem_ok K A G s" "mt_slab s = None" "slab_inv sl {}" "set_rdma_slab sl s = (r, s')"
  shows "r = Inr ()" "mem_ok K A G s'"
proof -
  have s': "r = Inr ()" "s' = s\<lparr> mt_slab := Some sl \<rparr>" using assms(2,4) by (simp_all add: set_rdma_slab_def)
  show "r = Inr ()" by (rule s'(1))
  have l1: "l1_ok K A G s" using assms(1) by (simp add: mem_ok_def)
  note p = l1_okD(1) [OF l1]
  have h: "mt_handles s = []" using p assms(2) by (simp add: pins_ok_def slab_ok_def)
  have no: "seg_handles segs = []" if "segs \<in> set (seg_lists G s)" for segs
    using p h that by (simp add: pins_ok_def)
  have same: "segs_bytes (Some sl) segs = segs_bytes (mt_slab s) segs" if "segs \<in> set (seg_lists G s)" for segs
    by (rule segs_bytes_cong) (simp add: no [OF that])
  have "l1_ok K A G s'"
  proof (rule l1_okI, goal_cases)
    case 1
    then show ?case using p h assms(3) s'(2) by (simp add: pins_ok_def slab_ok_def seg_lists_def)
  next
    case (2 segs d)
    have "segs \<in> set (seg_lists G s)" using 2 by (force simp: seg_lists_def)
    from same [OF this] show ?case using l1_okD(2) [OF l1 2] s'(2) by simp
  next
    case (3 key en)
    then show ?case using l1_okD(3) [OF l1] s'(2) by simp
  next
    case (4 key en)
    then have "entry_segs en \<in> set (seg_lists G s)" using s'(2) by (force simp: seg_lists_def)
    from same [OF this] show ?case using l1_okD(4) [OF l1 4(1), of en] 4(2) s'(2) by (simp add: entry_segs_bytes)
  next
    case (5 k en)
    then show ?case using l1_okD(5) [OF l1, of k en] s'(2) by simp
  qed
  then show "mem_ok K A G s'" using assms(1) s'(2) by (simp add: mem_ok_def)
qed

lemma peek_chunks_ok:
  assumes "mem_ok K A G s" "key \<in> K" "memory_peek_chunks M key s = (r, s')"
  shows "case r of None \<Rightarrow> mem_ok K A G s' | Some (segs, m) \<Rightarrow> \<exists>d. d \<in> A key \<and> mem_ok K A ((segs, d) # G) s'"
proof -
  obtain p s1 where p: "probe_chunks M (to_string_key key) s = (p, s1)" by fastforce
  note pr = probe_chunks_ok [OF assms(1) p]
  show ?thesis
  proof (cases p)
    case None
    then show ?thesis using assms(3) p pr(1) by (auto simp: memory_peek_chunks_def)
  next
    case (Some en)
    note en = probe_chunks_Some [OF assms(1) p [unfolded Some]]
    obtain segs m s2 where h: "hit_chunks en s1 = ((segs, m), s2)" using surj_pair [of "hit_chunks en s1"] by fastforce
    then have "r = Some (segs, m)" "s' = s2" using assms(3) p Some by (simp_all add: memory_peek_chunks_def)
    then show ?thesis using hit_chunks_ok(1) [OF pr(1) assms(2) en h] by simp
  qed
qed

end

end
