(* ===== verification/Storage_Ptr.thy ===== *)
theory Storage_Ptr
  imports Object_Store
begin

text \<open>
  Writes from registered memory (\<open>put_from_ptr\<close>, \<open>put_from_ptr_if_absent\<close>): they have the outcome of a
  write of the bytes that the memory holds at the pointer.
\<close>

text \<open>Addresses are 64-bit: a memory gives the same byte at an address and at its residue.\<close>

definition wraps64 :: "mem \<Rightarrow> bool" where
  "wraps64 mem \<longleftrightarrow> (\<forall>a. mem (a mod 2 ^ 64) = mem a)"

lemma load_bytes_wadd64:
  assumes "wraps64 mem"
  shows "load_bytes (wadd64 ptr off) n mem = load_bytes (ptr + off) n mem"
proof (rule nth_equalityI)
  fix i
  assume "i < length (load_bytes (wadd64 ptr off) n mem)"
  then have i: "i < n" by simp
  have "mem (wadd64 ptr off + i) = mem ((wadd64 ptr off + i) mod 2 ^ 64)" using assms by (simp only: wraps64_def)
  also have "(wadd64 ptr off + i) mod 2 ^ 64 = (ptr + off + i) mod 2 ^ 64" by (simp add: wadd64_def mod_simps)
  also have "mem \<dots> = mem (ptr + off + i)" using assms by (simp only: wraps64_def)
  finally show "load_bytes (wadd64 ptr off) n mem ! i = load_bytes (ptr + off) n mem ! i" using i by (simp add: load_bytes_def)
qed simp

lemma load_bytes_part:
  "off + n \<le> tot \<Longrightarrow> load_bytes (ptr + off) n mem = take n (drop off (load_bytes ptr tot mem))"
  by (auto simp: load_bytes_def add.assoc intro!: nth_equalityI)

text \<open>The spans that a striped write hands to the executor are the consecutive pieces of the object.\<close>

lemma spans_chunks:
  assumes "wraps64 mem" "tot + chunk < 2 ^ 64" "0 < chunk"
  shows "map (\<lambda>i. load_bytes (wadd64 ptr (i * chunk)) (wsub64 (stripe_end_of i chunk tot) (i * chunk)) mem) [0 ..< div_ceil tot chunk]
    = chunks chunk (load_bytes ptr tot mem)"
proof (rule nth_equalityI)
  fix i
  assume "i < length (map (\<lambda>i. load_bytes (wadd64 ptr (i * chunk)) (wsub64 (stripe_end_of i chunk tot) (i * chunk)) mem) [0 ..< div_ceil tot chunk])"
  then have i: "i < div_ceil tot chunk" by simp
  then have lt: "i * chunk < tot" using div_ceil_less_iff [OF assms(3)] by blast
  have len: "wsub64 (stripe_end_of i chunk tot) (i * chunk) = min chunk (tot - i * chunk)"
    using stripe_end_eq [OF assms(2) lt] lt assms(2) by (subst wsub64_exact) (auto simp: min_def)
  have "load_bytes (wadd64 ptr (i * chunk)) (min chunk (tot - i * chunk)) mem
      = take (min chunk (tot - i * chunk)) (drop (i * chunk) (load_bytes ptr tot mem))"
    unfolding load_bytes_wadd64 [OF assms(1)] by (rule load_bytes_part) (use lt in auto)
  also have "\<dots> = take chunk (drop (i * chunk) (load_bytes ptr tot mem))" by (auto simp: min_def)
  finally show "map (\<lambda>i. load_bytes (wadd64 ptr (i * chunk)) (wsub64 (stripe_end_of i chunk tot) (i * chunk)) mem) [0 ..< div_ceil tot chunk] ! i
      = chunks chunk (load_bytes ptr tot mem) ! i"
    using i len assms(3) by (simp add: nth_chunks length_chunks)
qed (use assms(3) in \<open>simp add: length_chunks\<close>)

context storage_system
begin

lemma put_from_ptr_single_outcome:
  assumes "writes_to key (load_bytes ptr tot mem) s" "put_from_ptr_single E now mem key ptr tot meta ia s = (r, s')"
  shows "put_outcome key (load_bytes ptr tot mem) meta now ia s r s'"
proof -
  let ?g = "Suc (gen_base (to_string_key key) (mview s))" and ?data = "load_bytes ptr tot mem"
  have w: "minv (st_meta s)" "gen_room (to_string_key key) (mview s)" "fits_isize ?data" using assms(1) by (simp_all add: writes_to_def)
  obtain x s1 where x: "prepare_write_meta E key meta tot s = (x, s1)" by fastforce
  note pr = prepare_spec [OF w(1,2) x]
  show ?thesis
  proof (cases x)
    case (Inl e)
    then show ?thesis using assms(2) x pr by (auto simp: put_from_ptr_single_def io_step_def intro!: put_outcome_fail)
  next
    case (Inr m)
    note mm = pr(4) [OF Inr]
    obtain dev path where l: "single_layout E key m = (dev, path)" by fastforce
    have path: "path \<in> version_paths E key ?g" using single_layout_path [OF l] mm by simp
    then have mp: "managed path" by (rule version_paths_managed)
    let ?items = "[(\<lparr> rq_path = path, rq_offset = 0, rq_length = tot \<rparr>, ptr, tot)]"
    obtain rs x2 where rs: "io_write_aligned_batch (se_io E) mem ?items (st_exec s1) = (rs, x2)" by fastforce
    have good: "good_jobs (map (\<lambda>(req, ptr, len). (rq_path req, load_bytes ptr len mem)) ?items)"
      using mp w(3) by (simp add: good_jobs_def)
    have wr: "written content [(path, ?data)] (st_exec s1) rs x2" using io.write_aligned_law [OF good rs] by simp
    then obtain y where y: "rs = [y]" "content x2 path = (if is_ok y then Some ?data else content (st_exec s1) path)"
        "\<And>q. managed q \<Longrightarrow> q \<noteq> path \<Longrightarrow> content x2 q = content (st_exec s1) q"
      by (auto simp: written_def length_Suc_conv)
    let ?s2 = "record_device_write dev (io_file_size (se_io E) path x2) (s1\<lparr> st_exec := x2 \<rparr>)"
    have fr: "content x2 q = files s q" if "managed q" "q \<notin> version_paths E key ?g" for q
      using y(3) [OF that(1)] that path pr(1) by auto
    show ?thesis
    proof (cases y)
      case (Inl e)
      have "r = Inl e" "s' = s1\<lparr> st_exec := x2 \<rparr>"
        using assms(2) x Inr l rs y(1) Inl by (simp_all add: put_from_ptr_single_def io_step_def on_exec_def first_result_def)
      then show ?thesis using fr pr by (auto intro!: put_outcome_fail)
    next
      case ok: (Inr u)
      let ?m = "single_meta m dev path tot"
      have np: "path \<noteq> []" using mp by (auto simp: managed_def)
      have mp': "meta_path_or_route E key ?m = path" using np by (simp add: meta_path_or_route_def single_meta_def)
      have st: "striping ?m = None" by (simp add: single_meta_def)
      have intact: "intact (files ?s2) E key ?m ?data" using y(2) ok mp w(3) by (simp add: intact_def st mp')
      have run: "io_step (commit_metadata_with_rollback E now key ?m [path] ia ?s2)
          (\<lambda>committed s3. if committed then (Inr True, count_write tot s3) else (Inr False, s3)) = (r, s')"
        using assms(2) x Inr l rs y(1) ok
        by (simp add: put_from_ptr_single_def io_step_def on_exec_def first_result_def Let_def)
      have "created_at m = created_at meta" "ttl_seconds m = ttl_seconds meta" using mm by auto
      then have fields: "bm_size ?m = length ?data" "object_generation ?m = ?g" "created_at ?m = created_at meta"
        "ttl_seconds ?m = ttl_seconds meta" "object_paths E key ?m = {path}"
        using mm by (simp_all add: object_paths_def st mp') (simp_all add: single_meta_def)
      have fr2: "files ?s2 q = files s q" if "managed q" "q \<notin> version_paths E key ?g" for q using fr [OF that] by simp
      show ?thesis
        by (rule publish_outcome [OF _ _ fr2 refl _ intact _ _ _ _ _ _ _ run]) (simp_all add: pr fields path)
    qed
  qed
qed

lemma put_from_ptr_striped_outcome:
  assumes "writes_to key (load_bytes ptr tot mem) s" "wraps64 mem" "put_from_ptr_striped E now mem key ptr tot meta ia s = (r, s')"
  shows "put_outcome key (load_bytes ptr tot mem) meta now ia s r s'"
proof -
  let ?data = "load_bytes ptr tot mem" and ?chunk = "se_striping_chunk_size E"
  have w: "minv (st_meta s)" "gen_room (to_string_key key) (mview s)" "fits_isize ?data" "tot + ?chunk < 2 ^ 64"
    using assms(1) by (simp_all add: writes_to_def)
  obtain x s1 where x: "prepare_write_meta E key meta tot s = (x, s1)" by fastforce
  note pr = prepare_spec [OF w(1,2) x]
  show ?thesis
  proof (cases x)
    case (Inl e)
    then show ?thesis using assms(3) x pr by (auto simp: put_from_ptr_striped_def io_step_def intro!: put_outcome_fail)
  next
    case (Inr m)
    note mm = pr(4) [OF Inr]
    define n where "n = div_ceil tot ?chunk"
    define spans where "spans = map (\<lambda>i. (wadd64 ptr (i * ?chunk), wsub64 (stripe_end_of i ?chunk tot) (i * ?chunk))) [0 ..< n]"
    define cs where "cs = map (\<lambda>(p, len). load_bytes p len mem) spans"
    define paths where "paths = stripe_paths E key m n"
    define items where "items = map (\<lambda>(path, p, len). (\<lparr> rq_path = path, rq_offset = 0, rq_length = len \<rparr>, p, len)) (zip paths spans)"
    define sums where "sums = (if se_verify_stripe_checksums E then map (\<lambda>(p, len). checksum_ptr (se_hash E) mem p len) spans else [])"
    have cs: "cs = chunks ?chunk ?data"
      using spans_chunks [OF assms(2) w(4) chunk_law, of ptr] by (simp add: cs_def spans_def n_def comp_def)
    have whole: "concat cs = ?data" using cs chunk_law by simp
    have tot: "length (concat cs) = tot" by (simp add: whole)
    have pl: "paths = stripe_paths E key m (length cs)" by (simp add: paths_def cs_def spans_def)
    have jobs: "map (\<lambda>(req, ptr, len). (rq_path req, load_bytes ptr len mem)) items = zip paths cs"
      by (simp add: items_def cs_def zip_map2 split_def)
    have fit: "fits_isize c" if "c \<in> set cs" for c using that chunks_fit [OF w(3)] cs by simp
    have good: "good_jobs (zip paths cs)"
    proof (rule stripe_jobs_good)
      show "length paths = length cs" by (simp add: pl stripe_paths_def)
      show "distinct paths" unfolding pl by (rule stripe_paths_distinct [OF digest_law])
      show "\<forall>p \<in> set paths. managed p" unfolding pl using stripe_paths_in mm version_paths_managed by blast
    qed (rule fit)
    obtain results x2 where wb: "io_write_aligned_batch (se_io E) mem items (st_exec s1) = (results, x2)" by fastforce
    have wr: "written content (zip paths cs) (st_exec s1) results x2"
      using io.write_aligned_law [of mem items, unfolded jobs, OF good wb] .
    have run: "publish_striped E now key m tot (stripe_devices E key n) paths sums ia results (s1\<lparr> st_exec := x2 \<rparr>) = (r, s')"
      using assms(3) x Inr wb unfolding sums_def paths_def items_def spans_def n_def
      by (simp add: put_from_ptr_striped_def io_step_def Let_def on_exec_def split del: if_split)
    have sums: "sums = map (checksum_bytes (se_hash E)) cs" if "se_verify_stripe_checksums E"
      using that by (simp add: sums_def cs_def checksum_ptr_def split_def comp_def)
    have "created_at m = created_at meta" "ttl_seconds m = ttl_seconds meta" using mm by auto
    then have "put_outcome key (concat cs) meta now ia s r s'"
      using publish_striped_outcome [OF pr(2,3,1) _ _ _ _ pl wr refl fit sums run [folded tot]] mm by blast
    then show ?thesis by (simp add: whole)
  qed
qed

text \<open>The unconditional write overwrites; the conditional one first makes sure that no live version exists.\<close>

lemma put_from_ptr_outcome:
  assumes "writes_to key (load_bytes ptr tot mem) s" "wraps64 mem" "put_from_ptr_with_options E now mem key ptr tot meta ia s = (r, s')"
  shows "(r \<noteq> Inr True \<and> (r = Inr False \<longrightarrow> ia) \<and> shrinks s s') \<or> (\<exists>s1. shrinks s s1 \<and> put_outcome key (load_bytes ptr tot mem) meta now ia s1 r s')"
proof -
  let ?d = "load_bytes ptr tot mem"
  let ?f = "\<lambda>s1. if \<not> should_stripe E tot then put_from_ptr_single E now mem key ptr tot meta ia s1
        else put_from_ptr_striped E now mem key ptr tot meta ia s1"
  have mi: "minv (st_meta s)" using assms(1) by (simp add: writes_to_def)
  have f: "put_outcome key ?d meta now ia s1 r s'" if "writes_to key ?d s1" "?f s1 = (r, s')" for s1 r s'
    using that put_from_ptr_single_outcome put_from_ptr_striped_outcome [OF _ assms(2)] by (cases "should_stripe E tot") auto
  show ?thesis
  proof (cases "tot = 0")
    case True
    then show ?thesis using assms(3) mi shrinks_same [of s s] by (auto simp: put_from_ptr_with_options_def)
  next
    case False
    show ?thesis
    proof (cases ia)
      case True
      obtain g s1 where g: "absent_or_expired E now key s = (g, s1)" by fastforce
      have run: "io_step (g, s1) (\<lambda>go s1. if \<not> go then (Inr False, s1) else ?f s1) = (r, s')"
        using assms(3) g False True by (simp add: put_from_ptr_with_options_def cong: if_cong)
      have ft: "put_outcome key ?d meta now True s1 r s'" if "writes_to key ?d s1" "?f s1 = (r, s')" for s1 r s'
        using f [OF that] True by simp
      show ?thesis using put_if_absent_outcome [OF assms(1) g run ft] True by auto
    next
      case nf: False
      then have "?f s = (r, s')" using assms(3) False by (simp add: put_from_ptr_with_options_def io_step_ok cong: if_cong)
      then show ?thesis using f [OF assms(1)] mi shrinks_same [of s s] by auto
    qed
  qed
qed

end

end
