(* ===== verification/Wire.thy ===== *)
theory Wire
  imports KVError
begin

text \<open>
  \<open>rdma/wire.rs\<close>: the TCP control-plane messages of the RDMA data path, and the dispatch of
  \<open>rdma/server.rs::handle_client\<close> on the message tag.  A sender is a function from a message to
  the frame it writes; a receiver consumes a prefix of the incoming bytes (\<open>read_exact\<close> fails when
  the stream ends first).  Failures of the socket itself are I/O and not modelled.
\<close>

section \<open>Readers and writers\<close>

datatype wire_error =
  ReadFailed nat
| UnexpectedTag string u8
| BadUtf8 string
| TooLong string nat
| TooMany string nat
| EmptySegments
| NoStripes

type_synonym 'a reader = "bytes \<Rightarrow> wire_error + ('a \<times> bytes)"

definition rd_return :: "'a \<Rightarrow> 'a reader" where
  "rd_return x bs = Inr (x, bs)"

definition rd_fail :: "wire_error \<Rightarrow> 'a reader" where
  "rd_fail e bs = Inl e"

definition rd_bind :: "'a reader \<Rightarrow> ('a \<Rightarrow> 'b reader) \<Rightarrow> 'b reader" where
  "rd_bind r f bs = (case r bs of Inl e \<Rightarrow> Inl e | Inr (x, bs') \<Rightarrow> f x bs')"

definition read_exact :: "nat \<Rightarrow> bytes reader" where
  "read_exact n bs = (if length bs < n then Inl (ReadFailed n) else Inr (take n bs, drop n bs))"

definition read_u8 :: "u8 reader" where
  "read_u8 = rd_bind (read_exact 1) (\<lambda>b. rd_return (hd b))"
definition read_u16 :: "u16 reader" where
  "read_u16 = rd_bind (read_exact 2) (\<lambda>b. rd_return (u16_of_le b))"
definition read_u32 :: "u32 reader" where
  "read_u32 = rd_bind (read_exact 4) (\<lambda>b. rd_return (u32_of_le b))"
definition read_u64 :: "u64 reader" where
  "read_u64 = rd_bind (read_exact 8) (\<lambda>b. rd_return (u64_of_le b))"

fun read_n :: "nat \<Rightarrow> 'a reader \<Rightarrow> 'a list reader" where
  "read_n 0 r = rd_return []"
| "read_n (Suc n) r = rd_bind r (\<lambda>x. rd_bind (read_n n r) (\<lambda>xs. rd_return (x # xs)))"

definition expect_tag :: "string \<Rightarrow> u8 \<Rightarrow> unit reader" where
  "expect_tag name t = rd_bind read_u8 (\<lambda>b. if b \<noteq> t then rd_fail (UnexpectedTag name b) else rd_return ())"

definition read_string_u16 :: "string \<Rightarrow> string reader" where
  "read_string_u16 field =
     rd_bind read_u16 (\<lambda>len. rd_bind (read_exact (unat len)) (\<lambda>b.
       case from_utf8 b of None \<Rightarrow> rd_fail (BadUtf8 field) | Some s \<Rightarrow> rd_return s))"

definition write_string_u16 :: "string \<Rightarrow> string \<Rightarrow> wire_error + bytes" where
  "write_string_u16 value field =
     (if length (as_bytes value) > 65535 then Inl (TooLong field (length (as_bytes value)))
      else Inr (u16_le (word_of_nat (length (as_bytes value))) @ as_bytes value))"

definition count_u16 :: "string \<Rightarrow> 'a list \<Rightarrow> wire_error + u16" where
  "count_u16 what xs = (if length xs > 65535 then Inl (TooMany what (length xs)) else Inr (word_of_nat (length xs)))"


section \<open>Messages\<close>

abbreviation "MSG_HELLO \<equiv> (1 :: u8)"
abbreviation "MSG_GET_REQ \<equiv> (2 :: u8)"
abbreviation "MSG_GET_RESP \<equiv> (3 :: u8)"
abbreviation "MSG_PUT_REQ \<equiv> (4 :: u8)"
abbreviation "MSG_PUT_READY \<equiv> (5 :: u8)"
abbreviation "MSG_PUT_COMMIT \<equiv> (6 :: u8)"
abbreviation "MSG_PUT_RESP \<equiv> (7 :: u8)"
abbreviation "MSG_GET_DESCRIPTOR_REQ \<equiv> (8 :: u8)"
abbreviation "MSG_PUT_IF_ABSENT_REQ \<equiv> (9 :: u8)"
abbreviation "MSG_PUT_WITH_OPTIONS_REQ \<equiv> (10 :: u8)"
abbreviation "MSG_PUT_IF_ABSENT_WITH_OPTIONS_REQ \<equiv> (11 :: u8)"
abbreviation "MSG_GET_DESCRIPTOR_STRIPES_REQ \<equiv> (12 :: u8)"
abbreviation "MSG_PUT_STRIPES_REQ \<equiv> (13 :: u8)"
abbreviation "MSG_PUT_STRIPES_RESP \<equiv> (14 :: u8)"
abbreviation "MSG_GET_DESCRIPTOR_STRIPES_SGE_REQ \<equiv> (15 :: u8)"
abbreviation "MSG_BYE \<equiv> (99 :: u8)"

record QpInfo =
  qpn :: u32
  psn :: u32
  gid :: bytes

definition qp_to_bytes :: "QpInfo \<Rightarrow> bytes" where
  "qp_to_bytes q = u32_le (qpn q) @ u32_le (psn q) @ gid q"

definition qp_from_bytes :: "bytes \<Rightarrow> QpInfo" where
  "qp_from_bytes b = \<lparr> qpn = u32_of_le (take 4 b), psn = u32_of_le (take 4 (drop 4 b)), gid = take 16 (drop 8 b) \<rparr>"

definition send_hello :: "QpInfo \<Rightarrow> wire_error + bytes" where
  "send_hello q = Inr (MSG_HELLO # qp_to_bytes q)"

definition recv_hello :: "QpInfo reader" where
  "recv_hello = rd_bind (expect_tag ''MSG_HELLO'' MSG_HELLO) (\<lambda>_.
     rd_bind (read_exact 24) (\<lambda>b. rd_return (qp_from_bytes b)))"

record GetReqMsg =
  gr_key :: string
  gr_dst_addr :: u64
  gr_dst_rkey :: u32
  gr_max_size :: u64

definition send_get_req :: "GetReqMsg \<Rightarrow> wire_error + bytes" where
  "send_get_req m =
     (if length (as_bytes (gr_key m)) > 65535 then Inl (TooLong ''key'' (length (as_bytes (gr_key m))))
      else Inr (MSG_GET_REQ # u16_le (word_of_nat (length (as_bytes (gr_key m)))) @ as_bytes (gr_key m)
        @ u64_le (gr_dst_addr m) @ u32_le (gr_dst_rkey m) @ u64_le (gr_max_size m)))"

definition recv_get_req_body :: "GetReqMsg reader" where
  "recv_get_req_body =
     rd_bind read_u16 (\<lambda>key_len. rd_bind (read_exact (unat key_len)) (\<lambda>key_bytes.
       case from_utf8 key_bytes of None \<Rightarrow> rd_fail (BadUtf8 ''key'') | Some key \<Rightarrow>
         rd_bind read_u64 (\<lambda>dst_addr. rd_bind read_u32 (\<lambda>dst_rkey. rd_bind read_u64 (\<lambda>max_size.
           rd_return \<lparr> gr_key = key, gr_dst_addr = dst_addr, gr_dst_rkey = dst_rkey,
             gr_max_size = max_size \<rparr>)))))"

definition recv_get_req :: "GetReqMsg reader" where
  "recv_get_req = rd_bind (expect_tag ''MSG_GET_REQ'' MSG_GET_REQ) (\<lambda>_. recv_get_req_body)"

record DescriptorGetReqMsg =
  dg_key :: string
  dg_object_handle :: string
  dg_object_generation :: u64
  dg_content_etag :: string
  dg_layout_version :: u64
  dg_size :: u64
  dg_is_striped :: bool
  dg_stripe_count :: u32
  dg_chunk_size :: u64
  dg_dst_addr :: u64
  dg_dst_rkey :: u32
  dg_max_size :: u64
  dg_stripes :: "u32 list"
  dg_dst_segments :: "(u64 \<times> u32 \<times> u64) list"

definition bool_u8 :: "bool \<Rightarrow> u8" where
  "bool_u8 b = (if b then 1 else 0)"

definition segment_le :: "u64 \<times> u32 \<times> u64 \<Rightarrow> bytes" where
  "segment_le s = (case s of (addr, rkey, len) \<Rightarrow> u64_le addr @ u32_le rkey @ u64_le len)"

definition descriptor_tag :: "DescriptorGetReqMsg \<Rightarrow> u8" where
  "descriptor_tag m =
     (if dg_dst_segments m \<noteq> [] then MSG_GET_DESCRIPTOR_STRIPES_SGE_REQ
      else if dg_stripes m = [] then MSG_GET_DESCRIPTOR_REQ
      else MSG_GET_DESCRIPTOR_STRIPES_REQ)"

definition send_descriptor_get_req :: "DescriptorGetReqMsg \<Rightarrow> wire_error + bytes" where
  "send_descriptor_get_req m =
     res_bind (write_string_u16 (dg_key m) ''key'') (\<lambda>key.
     res_bind (write_string_u16 (dg_object_handle m) ''object_handle'') (\<lambda>handle.
     res_bind (write_string_u16 (dg_content_etag m) ''content_etag'') (\<lambda>etag.
     res_bind (if dg_stripes m \<noteq> [] \<or> dg_dst_segments m \<noteq> []
               then res_bind (count_u16 ''stripes'' (dg_stripes m)) (\<lambda>n.
                 Inr (u16_le n @ concat (map u32_le (dg_stripes m))))
               else Inr []) (\<lambda>stripes.
     res_bind (if dg_dst_segments m \<noteq> []
               then res_bind (count_u16 ''dst segments'' (dg_dst_segments m)) (\<lambda>n.
                 Inr (u16_le n @ concat (map segment_le (dg_dst_segments m))))
               else Inr []) (\<lambda>segs.
       Inr (descriptor_tag m # key @ handle @ u64_le (dg_object_generation m) @ etag
         @ u64_le (dg_layout_version m) @ u64_le (dg_size m) @ [bool_u8 (dg_is_striped m)]
         @ u32_le (dg_stripe_count m) @ u64_le (dg_chunk_size m) @ u64_le (dg_dst_addr m)
         @ u32_le (dg_dst_rkey m) @ u64_le (dg_max_size m) @ stripes @ segs))))))"

definition read_segment :: "(u64 \<times> u32 \<times> u64) reader" where
  "read_segment = rd_bind read_u64 (\<lambda>addr. rd_bind read_u32 (\<lambda>rkey. rd_bind read_u64 (\<lambda>len.
     rd_return (addr, rkey, len))))"

definition recv_descriptor_get_req_body_ext :: "bool \<Rightarrow> bool \<Rightarrow> DescriptorGetReqMsg reader" where
  "recv_descriptor_get_req_body_ext with_stripes with_segments =
     rd_bind (read_string_u16 ''key'') (\<lambda>key.
     rd_bind (read_string_u16 ''object_handle'') (\<lambda>handle.
     rd_bind read_u64 (\<lambda>generation.
     rd_bind (read_string_u16 ''content_etag'') (\<lambda>etag.
     rd_bind read_u64 (\<lambda>layout.
     rd_bind read_u64 (\<lambda>sz.
     rd_bind read_u8 (\<lambda>striped.
     rd_bind read_u32 (\<lambda>stripe_count.
     rd_bind read_u64 (\<lambda>chunk_size.
     rd_bind read_u64 (\<lambda>dst_addr.
     rd_bind read_u32 (\<lambda>dst_rkey.
     rd_bind read_u64 (\<lambda>max_size.
     rd_bind (if with_stripes then rd_bind read_u16 (\<lambda>n. read_n (unat n) read_u32) else rd_return []) (\<lambda>stripes.
     rd_bind (if with_segments then rd_bind read_u16 (\<lambda>n.
                if n = 0 then rd_fail EmptySegments else read_n (unat n) read_segment)
              else rd_return []) (\<lambda>segs.
       rd_return \<lparr> dg_key = key, dg_object_handle = handle, dg_object_generation = generation,
         dg_content_etag = etag, dg_layout_version = layout, dg_size = sz,
         dg_is_striped = (striped \<noteq> 0), dg_stripe_count = stripe_count, dg_chunk_size = chunk_size,
         dg_dst_addr = dst_addr, dg_dst_rkey = dst_rkey, dg_max_size = max_size,
         dg_stripes = stripes, dg_dst_segments = segs \<rparr>))))))))))))))"

definition recv_descriptor_get_req_body :: "bool \<Rightarrow> DescriptorGetReqMsg reader" where
  "recv_descriptor_get_req_body with_stripes = recv_descriptor_get_req_body_ext with_stripes False"

record GetRespMsg =
  gp_found :: bool
  gp_bytes_written :: u64
  gp_num_chunks :: u32

definition send_get_resp :: "GetRespMsg \<Rightarrow> wire_error + bytes" where
  "send_get_resp m = Inr (MSG_GET_RESP # bool_u8 (gp_found m) # u64_le (gp_bytes_written m) @ u32_le (gp_num_chunks m))"

definition recv_get_resp :: "GetRespMsg reader" where
  "recv_get_resp = rd_bind (expect_tag ''MSG_GET_RESP'' MSG_GET_RESP) (\<lambda>_.
     rd_bind (read_exact (1 + 8 + 4)) (\<lambda>body.
       rd_return \<lparr> gp_found = (body ! 0 \<noteq> 0), gp_bytes_written = u64_of_le (take 8 (drop 1 body)),
         gp_num_chunks = u32_of_le (take 4 (drop 9 body)) \<rparr>))"

definition send_bye :: bytes where "send_bye = [MSG_BYE]"

record PutReqMsg =
  pr_key :: string
  pr_size :: u64
  pr_ttl_seconds :: int

definition i64_le :: "int \<Rightarrow> bytes" where "i64_le t = u64_le (word_of_int t)"
definition i64_of_le :: "bytes \<Rightarrow> int" where "i64_of_le b = sint (u64_of_le b)"

definition read_i64 :: "int reader" where
  "read_i64 = rd_bind (read_exact 8) (\<lambda>b. rd_return (i64_of_le b))"

definition send_put_req :: "PutReqMsg \<Rightarrow> wire_error + bytes" where
  "send_put_req m =
     (if length (as_bytes (pr_key m)) > 65535 then Inl (TooLong ''key'' (length (as_bytes (pr_key m))))
      else let with_options = (pr_ttl_seconds m \<noteq> 0) in
        Inr ((if with_options then MSG_PUT_WITH_OPTIONS_REQ else MSG_PUT_REQ)
          # u16_le (word_of_nat (length (as_bytes (pr_key m)))) @ as_bytes (pr_key m) @ u64_le (pr_size m)
          @ (if with_options then i64_le (pr_ttl_seconds m) else [])))"

definition recv_put_req_body :: "bool \<Rightarrow> PutReqMsg reader" where
  "recv_put_req_body with_options =
     rd_bind read_u16 (\<lambda>key_len. rd_bind (read_exact (unat key_len)) (\<lambda>key_bytes.
       case from_utf8 key_bytes of None \<Rightarrow> rd_fail (BadUtf8 ''key'') | Some key \<Rightarrow>
         rd_bind read_u64 (\<lambda>sz. rd_bind (if with_options then read_i64 else rd_return 0) (\<lambda>ttl.
           rd_return \<lparr> pr_key = key, pr_size = sz, pr_ttl_seconds = ttl \<rparr>))))"

record PutReadyMsg =
  py_ok :: bool
  py_dst_addr :: u64
  py_dst_rkey :: u32

definition send_put_ready :: "PutReadyMsg \<Rightarrow> wire_error + bytes" where
  "send_put_ready m = Inr (MSG_PUT_READY # bool_u8 (py_ok m) # u64_le (py_dst_addr m) @ u32_le (py_dst_rkey m))"

definition recv_put_ready :: "PutReadyMsg reader" where
  "recv_put_ready = rd_bind (expect_tag ''MSG_PUT_READY'' MSG_PUT_READY) (\<lambda>_.
     rd_bind (read_exact (1 + 8 + 4)) (\<lambda>body.
       rd_return \<lparr> py_ok = (body ! 0 \<noteq> 0), py_dst_addr = u64_of_le (take 8 (drop 1 body)),
         py_dst_rkey = u32_of_le (take 4 (drop 9 body)) \<rparr>))"

definition send_put_commit :: bytes where "send_put_commit = [MSG_PUT_COMMIT]"

abbreviation "PUT_RESULT_FAILED \<equiv> (0 :: u8)"
abbreviation "PUT_RESULT_STORED \<equiv> (1 :: u8)"
abbreviation "PUT_RESULT_EXISTS \<equiv> (2 :: u8)"

definition send_put_resp :: "bool \<Rightarrow> wire_error + bytes" where
  "send_put_resp ok = Inr [MSG_PUT_RESP, if ok then PUT_RESULT_STORED else PUT_RESULT_FAILED]"

definition send_put_result :: "u8 \<Rightarrow> bytes" where
  "send_put_result result = [MSG_PUT_RESP, result]"

definition recv_put_resp :: "bool reader" where
  "recv_put_resp = rd_bind (expect_tag ''MSG_PUT_RESP'' MSG_PUT_RESP) (\<lambda>_.
     rd_bind (read_exact 1) (\<lambda>body. rd_return (body ! 0 \<noteq> 0)))"

record PutStripesReqMsg =
  ps_key :: string
  ps_object_handle :: string
  ps_object_generation :: u64
  ps_layout_version :: u64
  ps_chunk_size :: u64
  ps_total_size :: u64
  ps_stripes :: "(u32 \<times> u64) list"

definition stripe_len_le :: "u32 \<times> u64 \<Rightarrow> bytes" where
  "stripe_len_le p = u32_le (fst p) @ u64_le (snd p)"

definition send_put_stripes_req :: "PutStripesReqMsg \<Rightarrow> wire_error + bytes" where
  "send_put_stripes_req m =
     res_bind (write_string_u16 (ps_key m) ''key'') (\<lambda>key.
     res_bind (write_string_u16 (ps_object_handle m) ''object_handle'') (\<lambda>handle.
     res_bind (count_u16 ''stripes'' (ps_stripes m)) (\<lambda>n.
       Inr (MSG_PUT_STRIPES_REQ # key @ handle @ u64_le (ps_object_generation m)
         @ u64_le (ps_layout_version m) @ u64_le (ps_chunk_size m) @ u64_le (ps_total_size m)
         @ u16_le n @ concat (map stripe_len_le (ps_stripes m))))))"

definition read_stripe_len :: "(u32 \<times> u64) reader" where
  "read_stripe_len = rd_bind read_u32 (\<lambda>idx. rd_bind read_u64 (\<lambda>len. rd_return (idx, len)))"

definition recv_put_stripes_req_body :: "PutStripesReqMsg reader" where
  "recv_put_stripes_req_body =
     rd_bind (read_string_u16 ''key'') (\<lambda>key.
     rd_bind (read_string_u16 ''object_handle'') (\<lambda>handle.
     rd_bind read_u64 (\<lambda>generation.
     rd_bind read_u64 (\<lambda>layout.
     rd_bind read_u64 (\<lambda>chunk_size.
     rd_bind read_u64 (\<lambda>total_size.
     rd_bind read_u16 (\<lambda>n.
     rd_bind (read_n (unat n) read_stripe_len) (\<lambda>stripes.
       rd_return \<lparr> ps_key = key, ps_object_handle = handle, ps_object_generation = generation,
         ps_layout_version = layout, ps_chunk_size = chunk_size, ps_total_size = total_size,
         ps_stripes = stripes \<rparr>))))))))"

record PutStripeLocation =
  pl_stripe_index :: u32
  pl_device_id :: u32
  pl_storage_handle :: string
  pl_checksum :: string

record PutStripesRespMsg =
  pp_ok :: bool
  pp_stripes :: "PutStripeLocation list"

definition location_bytes :: "PutStripeLocation \<Rightarrow> wire_error + bytes" where
  "location_bytes l =
     res_bind (write_string_u16 (pl_storage_handle l) ''storage_handle'') (\<lambda>handle.
     res_bind (write_string_u16 (pl_checksum l) ''checksum'') (\<lambda>checksum.
       Inr (u32_le (pl_stripe_index l) @ u32_le (pl_device_id l) @ handle @ checksum)))"

definition send_put_stripes_resp :: "PutStripesRespMsg \<Rightarrow> wire_error + bytes" where
  "send_put_stripes_resp m =
     res_bind (count_u16 ''stripe results'' (pp_stripes m)) (\<lambda>n.
     res_bind (map_res location_bytes (pp_stripes m)) (\<lambda>locs.
       Inr (MSG_PUT_STRIPES_RESP # bool_u8 (pp_ok m) # u16_le n @ concat locs)))"

definition read_location :: "PutStripeLocation reader" where
  "read_location =
     rd_bind read_u32 (\<lambda>idx. rd_bind read_u32 (\<lambda>dev.
     rd_bind (read_string_u16 ''storage_handle'') (\<lambda>handle.
     rd_bind (read_string_u16 ''checksum'') (\<lambda>checksum.
       rd_return \<lparr> pl_stripe_index = idx, pl_device_id = dev, pl_storage_handle = handle,
         pl_checksum = checksum \<rparr>))))"

definition recv_put_stripes_resp :: "PutStripesRespMsg reader" where
  "recv_put_stripes_resp = rd_bind (expect_tag ''MSG_PUT_STRIPES_RESP'' MSG_PUT_STRIPES_RESP) (\<lambda>_.
     rd_bind read_u8 (\<lambda>ok. rd_bind read_u16 (\<lambda>n. rd_bind (read_n (unat n) read_location) (\<lambda>stripes.
       rd_return \<lparr> pp_ok = (ok \<noteq> 0), pp_stripes = stripes \<rparr>))))"


section \<open>The frames of the Rust client\<close>

text \<open>
  \<open>client-rs/src/rdma.rs\<close> builds its request frames itself.  It has the two immutable PUT tags that the
  senders of \<open>wire.rs\<close> lack; a PUT without TTL keeps the tags of older servers.
\<close>

definition push_string :: "string \<Rightarrow> string \<Rightarrow> wire_error + bytes" where
  "push_string value field =
     (if length (as_bytes value) > 65535 then Inl (TooLong field (length (as_bytes value)))
      else Inr (u16_le (word_of_nat (length (as_bytes value))) @ as_bytes value))"

definition put_message :: "bool \<Rightarrow> int \<Rightarrow> u8" where
  "put_message if_not_exists ttl_seconds =
     (case (if_not_exists, ttl_seconds \<noteq> 0) of
        (True, True) \<Rightarrow> MSG_PUT_IF_ABSENT_WITH_OPTIONS_REQ
      | (True, False) \<Rightarrow> MSG_PUT_IF_ABSENT_REQ
      | (False, True) \<Rightarrow> MSG_PUT_WITH_OPTIONS_REQ
      | (False, False) \<Rightarrow> MSG_PUT_REQ)"

definition build_put_request :: "u8 \<Rightarrow> PutReqMsg \<Rightarrow> wire_error + bytes" where
  "build_put_request message m =
     (let with_options = (message = MSG_PUT_WITH_OPTIONS_REQ \<or> message = MSG_PUT_IF_ABSENT_WITH_OPTIONS_REQ) in
      res_bind (push_string (pr_key m) ''key'') (\<lambda>key.
        Inr (message # key @ u64_le (pr_size m) @ (if with_options then i64_le (pr_ttl_seconds m) else []))))"

definition build_get_request :: "GetReqMsg \<Rightarrow> wire_error + bytes" where
  "build_get_request m =
     res_bind (push_string (gr_key m) ''key'') (\<lambda>key.
       Inr (MSG_GET_REQ # key @ u64_le (gr_dst_addr m) @ u32_le (gr_dst_rkey m) @ u64_le (gr_max_size m)))"

definition build_descriptor_get_request :: "DescriptorGetReqMsg \<Rightarrow> wire_error + bytes" where
  "build_descriptor_get_request m =
     res_bind (push_string (dg_key m) ''key'') (\<lambda>key.
     res_bind (push_string (dg_object_handle m) ''object_handle'') (\<lambda>handle.
     res_bind (push_string (dg_content_etag m) ''content_etag'') (\<lambda>etag.
       Inr (MSG_GET_DESCRIPTOR_REQ # key @ handle @ u64_le (dg_object_generation m) @ etag
         @ u64_le (dg_layout_version m) @ u64_le (dg_size m) @ [bool_u8 (dg_is_striped m)]
         @ u32_le (dg_stripe_count m) @ u64_le (dg_chunk_size m) @ u64_le (dg_dst_addr m)
         @ u32_le (dg_dst_rkey m) @ u64_le (dg_max_size m)))))"

text \<open>The stripe-subset and the scatter form rewrite the tag and append their lists.\<close>

definition client_descriptor_request :: "DescriptorGetReqMsg \<Rightarrow> wire_error + bytes" where
  "client_descriptor_request m =
     res_bind (build_descriptor_get_request m) (\<lambda>request.
       if dg_dst_segments m \<noteq> [] then
         res_bind (count_u16 ''stripes'' (dg_stripes m)) (\<lambda>count.
         res_bind (count_u16 ''dst segments'' (dg_dst_segments m)) (\<lambda>seg_count.
           Inr (request[0 := MSG_GET_DESCRIPTOR_STRIPES_SGE_REQ] @ u16_le count @ concat (map u32_le (dg_stripes m))
             @ u16_le seg_count @ concat (map segment_le (dg_dst_segments m)))))
       else if dg_stripes m \<noteq> [] then
         res_bind (count_u16 ''stripes'' (dg_stripes m)) (\<lambda>count.
           Inr (request[0 := MSG_GET_DESCRIPTOR_STRIPES_REQ] @ u16_le count @ concat (map u32_le (dg_stripes m))))
       else Inr request)"

definition client_put_stripes_request :: "PutStripesReqMsg \<Rightarrow> wire_error + bytes" where
  "client_put_stripes_request m =
     (if ps_stripes m = [] then Inl NoStripes
      else
        res_bind (push_string (ps_key m) ''key'') (\<lambda>key.
        res_bind (push_string (ps_object_handle m) ''object_handle'') (\<lambda>handle.
        res_bind (count_u16 ''stripes'' (ps_stripes m)) (\<lambda>count.
          Inr (MSG_PUT_STRIPES_REQ # key @ handle @ u64_le (ps_object_generation m)
            @ u64_le (ps_layout_version m) @ u64_le (ps_chunk_size m) @ u64_le (ps_total_size m)
            @ u16_le count @ concat (map stripe_len_le (ps_stripes m)))))))"


section \<open>Request dispatch\<close>

text \<open>
  The request loop of \<open>handle_client\<close>: the tag selects the body to parse.  \<open>PutRequest\<close> carries
  the \<open>if_not_exists\<close> flag that the two immutable tags set.  A stream that ends where a tag is expected
  is the normal end of a connection (\<open>None\<close>); one that ends inside a frame is an error.
\<close>

datatype request =
  ByeRequest
| PutRequest bool PutReqMsg
| PutStripesRequest PutStripesReqMsg
| DescriptorRequest DescriptorGetReqMsg
| GetRequest GetReqMsg

definition dispatch_request :: "u8 \<Rightarrow> request reader" where
  "dispatch_request tag =
     (if tag = MSG_BYE then rd_return ByeRequest
     else if tag = MSG_PUT_REQ \<or> tag = MSG_PUT_IF_ABSENT_REQ \<or> tag = MSG_PUT_WITH_OPTIONS_REQ
             \<or> tag = MSG_PUT_IF_ABSENT_WITH_OPTIONS_REQ then
       rd_bind (recv_put_req_body (tag = MSG_PUT_WITH_OPTIONS_REQ \<or> tag = MSG_PUT_IF_ABSENT_WITH_OPTIONS_REQ))
         (\<lambda>m. rd_return (PutRequest (tag = MSG_PUT_IF_ABSENT_REQ \<or> tag = MSG_PUT_IF_ABSENT_WITH_OPTIONS_REQ) m))
     else if tag = MSG_PUT_STRIPES_REQ then
       rd_bind recv_put_stripes_req_body (\<lambda>m. rd_return (PutStripesRequest m))
     else if tag = MSG_GET_DESCRIPTOR_REQ \<or> tag = MSG_GET_DESCRIPTOR_STRIPES_REQ
             \<or> tag = MSG_GET_DESCRIPTOR_STRIPES_SGE_REQ then
       rd_bind (recv_descriptor_get_req_body_ext (tag \<noteq> MSG_GET_DESCRIPTOR_REQ)
           (tag = MSG_GET_DESCRIPTOR_STRIPES_SGE_REQ))
         (\<lambda>m. rd_return (DescriptorRequest m))
     else if tag \<noteq> MSG_GET_REQ then rd_fail (UnexpectedTag ''main loop'' tag)
     else rd_bind recv_get_req_body (\<lambda>m. rd_return (GetRequest m)))"

definition recv_request :: "request option reader" where
  "recv_request bs =
     (case read_exact 1 bs of
        Inl _ \<Rightarrow> Inr (None, bs)
      | Inr (tag_buf, bs') \<Rightarrow> rd_bind (dispatch_request (tag_buf ! 0)) (\<lambda>q. rd_return (Some q)) bs')"

text \<open>Every frame that a sender of the two crates writes for a request.\<close>

fun client_request :: "request \<Rightarrow> wire_error + bytes" where
  "client_request ByeRequest = Inr [MSG_BYE]"
| "client_request (PutRequest if_absent m) = build_put_request (put_message if_absent (pr_ttl_seconds m)) m"
| "client_request (PutStripesRequest m) = client_put_stripes_request m"
| "client_request (DescriptorRequest m) = client_descriptor_request m"
| "client_request (GetRequest m) = build_get_request m"

fun wire_request :: "request \<Rightarrow> (wire_error + bytes) option" where
  "wire_request ByeRequest = Some (Inr send_bye)"
| "wire_request (PutRequest if_absent m) = (if if_absent then None else Some (send_put_req m))"
| "wire_request (PutStripesRequest m) = Some (send_put_stripes_req m)"
| "wire_request (DescriptorRequest m) = Some (send_descriptor_get_req m)"
| "wire_request (GetRequest m) = Some (send_get_req m)"

definition sent_as :: "request \<Rightarrow> bytes \<Rightarrow> bool" where
  "sent_as q bs \<longleftrightarrow> client_request q = Inr bs \<or> wire_request q = Some (Inr bs)"


section \<open>Readers on a matching prefix\<close>

named_theorems reader_simps

lemma rd_bind_step [reader_simps]: "r bs = Inr (x, bs') \<Longrightarrow> rd_bind r f bs = f x bs'"
  by (simp add: rd_bind_def)

lemma rd_return_apply [simp, reader_simps]: "rd_return x bs = Inr (x, bs)"
  by (simp add: rd_return_def)

lemma rd_fail_apply [simp, reader_simps]: "rd_fail e bs = Inl e"
  by (simp add: rd_fail_def)

lemma read_exact_append: "length a = n \<Longrightarrow> read_exact n (a @ rest) = Inr (a, rest)"
  by (simp add: read_exact_def)

lemma read_u8_Cons [reader_simps]: "read_u8 (b # rest) = Inr (b, rest)"
  by (simp add: read_u8_def read_exact_def rd_bind_def)

lemma read_word_append [reader_simps]:
  "read_u16 (u16_le a @ rest) = Inr (a, rest)"
  "read_u32 (u32_le b @ rest) = Inr (b, rest)"
  "read_u64 (u64_le c @ rest) = Inr (c, rest)"
  by (simp_all add: read_u16_def read_u32_def read_u64_def rd_bind_def read_exact_append)

definition i64_range :: "int \<Rightarrow> bool" where
  "i64_range t \<longleftrightarrow> i64_min \<le> t \<and> t \<le> i64_max"

lemma read_i64_append [reader_simps]:
  assumes "i64_range t"
  shows "read_i64 (i64_le t @ rest) = Inr (t, rest)"
proof -
  have "sint (word_of_int t :: u64) = t"
    using assms by (simp add: i64_range_def sint_sbintrunc' signed_take_bit_int_eq_self_iff)
  then show ?thesis
    by (simp add: read_i64_def i64_le_def i64_of_le_def rd_bind_def read_exact_append)
qed

lemma unat_u16_of_nat: "n \<le> 65535 \<Longrightarrow> unat (word_of_nat n :: u16) = n"
  by (simp add: unat_of_nat)

lemma read_text_append [reader_simps]:
  assumes "utf8_string s" "length s \<le> 65535"
  shows "read_u16 (u16_le (word_of_nat (length s)) @ as_bytes s @ rest) = Inr (word_of_nat (length s), as_bytes s @ rest)"
    "read_exact (unat (word_of_nat (length s) :: u16)) (as_bytes s @ rest) = Inr (as_bytes s, rest)"
  using assms by (simp_all add: read_word_append unat_u16_of_nat read_exact_append)

lemma read_string_append [reader_simps]:
  assumes "utf8_string s" "write_string_u16 s field = Inr bs"
  shows "read_string_u16 field (bs @ rest) = Inr (s, rest)"
proof -
  have "length s \<le> 65535" "bs = u16_le (word_of_nat (length s)) @ as_bytes s"
    using assms(2) by (auto simp: write_string_u16_def split: if_splits)
  then show ?thesis
    using assms(1) by (simp add: read_string_u16_def rd_bind_step read_text_append)
qed

lemma read_n_append:
  assumes "\<And>x bs. x \<in> set xs \<Longrightarrow> enc x = Inr bs \<Longrightarrow> (\<And>rest. r (bs @ rest) = Inr (x, rest))"
    and "map_res enc xs = Inr bss" "n = length xs"
  shows "read_n n r (concat bss @ rest) = Inr (xs, rest)"
  using assms
proof (induction xs arbitrary: bss n rest)
  case (Cons x xs)
  then obtain b bs where b: "enc x = Inr b" "map_res enc xs = Inr bs" "bss = b # bs"
    by (auto split: sum.splits)
  have "read_n (length xs) r (concat bs @ rest) = Inr (xs, rest)" for rest
    using Cons.prems(1) b(2) by (intro Cons.IH) auto
  moreover have "r (b @ t) = Inr (x, t)" for t using Cons.prems(1) b(1) by simp
  ultimately show ?case using Cons.prems(3) by (simp add: b(3) rd_bind_step)
qed simp

lemma map_res_total: "map_res (\<lambda>x. Inr (f x)) xs = Inr (map f xs)"
  by (induction xs) simp_all

lemma read_n_map:
  assumes "\<And>x rest. r (f x @ rest) = Inr (x, rest)" "n = length xs"
  shows "read_n n r (concat (map f xs) @ rest) = Inr (xs, rest)"
  by (rule read_n_append [of xs "\<lambda>x. Inr (f x)"]) (use assms in \<open>auto simp: map_res_total\<close>)

lemma count_u16_Inr: "count_u16 w xs = Inr n \<longleftrightarrow> length xs \<le> 65535 \<and> n = word_of_nat (length xs)"
  by (auto simp: count_u16_def)

lemma bool_u8_neq_0 [simp]: "(bool_u8 b \<noteq> 0) = b"
  by (simp add: bool_u8_def)

lemma read_segment_append: "read_segment (segment_le s @ rest) = Inr (s, rest)"
  by (cases s) (simp add: read_segment_def segment_le_def reader_simps)

lemma read_stripe_len_append: "read_stripe_len (stripe_len_le p @ rest) = Inr (p, rest)"
  by (simp add: read_stripe_len_def stripe_len_le_def reader_simps)

lemma expect_tag_Cons [reader_simps]: "expect_tag name t (t # rest) = Inr ((), rest)"
  by (simp add: expect_tag_def reader_simps)


section \<open>Readers never misread a truncated frame\<close>

text \<open>
  \<open>extensible r\<close>: bytes that arrive after those a reader consumed do not change its result.  Every
  reader built from \<open>read_exact\<close> has this property.
\<close>

definition extensible :: "'a reader \<Rightarrow> bool" where
  "extensible r \<longleftrightarrow> (\<forall>bs x rest more. r bs = Inr (x, rest) \<longrightarrow> r (bs @ more) = Inr (x, rest @ more))"

named_theorems extensible_intros

lemma extensible_return [extensible_intros]: "extensible (rd_return x)"
  by (simp add: extensible_def)

lemma extensible_fail [extensible_intros]: "extensible (rd_fail e)"
  by (simp add: extensible_def)

lemma extensible_read_exact [extensible_intros]: "extensible (read_exact n)"
  by (auto simp: extensible_def read_exact_def split: if_splits)

lemma extensible_bind [extensible_intros]:
  assumes "extensible r" "\<And>x. extensible (f x)"
  shows "extensible (rd_bind r f)"
  using assms unfolding extensible_def rd_bind_def by (fastforce split: sum.splits)

lemma extensible_if [extensible_intros]:
  "extensible r \<Longrightarrow> extensible r' \<Longrightarrow> extensible (if b then r else r')"
  by simp

lemma extensible_case_option [extensible_intros]:
  "extensible r \<Longrightarrow> (\<And>x. extensible (f x)) \<Longrightarrow> extensible (case m of None \<Rightarrow> r | Some x \<Rightarrow> f x)"
  by (cases m) simp_all

lemma extensible_read_n [extensible_intros]: "extensible r \<Longrightarrow> extensible (read_n n r)"
  by (induction n) (auto intro!: extensible_intros)

lemma extensible_words [extensible_intros]:
  "extensible read_u8" "extensible read_u16" "extensible read_u32" "extensible read_u64" "extensible read_i64"
  "extensible (read_string_u16 field)" "extensible (expect_tag name t)"
  "extensible read_segment" "extensible read_stripe_len"
  unfolding read_u8_def read_u16_def read_u32_def read_u64_def read_i64_def read_string_u16_def
    expect_tag_def read_segment_def read_stripe_len_def
  by (intro extensible_intros)+


section \<open>The codec contract\<close>

text \<open>
  What a sender and a receiver of the control plane promise each other.  From the round trip on a
  longer stream and extensibility the locale derives that frames are self-delimiting, that a
  truncated frame is rejected, and that a sequence of frames is read back as the sequence sent.
\<close>

locale wire_codec =
  fixes encode :: "'m \<Rightarrow> wire_error + bytes"
    and decode :: "'m reader"
    and ok :: "'m \<Rightarrow> bool"
  assumes round_trip: "ok m \<Longrightarrow> encode m = Inr bs \<Longrightarrow> decode (bs @ rest) = Inr (m, rest)"
    and extends: "extensible decode"
begin

lemma round_trip_exact: "ok m \<Longrightarrow> encode m = Inr bs \<Longrightarrow> decode bs = Inr (m, [])"
  using round_trip [of m bs "[]"] by simp

lemma self_delimiting:
  assumes "ok m" "ok m'" "encode m = Inr bs" "encode m' = Inr (bs @ ext)"
  shows "m = m'" "ext = []"
  using round_trip [OF assms(1,3), of ext] round_trip_exact [OF assms(2,4)] by simp_all

lemma truncated:
  assumes "ok m" "encode m = Inr bs" "k < length bs"
  shows "\<exists>e. decode (take k bs) = Inl e"
proof (cases "decode (take k bs)")
  case (Inr y)
  obtain m' rest where y: "y = (m', rest)" by fastforce
  have "decode (take k bs @ drop k bs) = Inr (m', rest @ drop k bs)"
    using extends Inr y unfolding extensible_def by blast
  then have "rest @ drop k bs = []" using round_trip_exact [OF assms(1,2)] by simp
  then show ?thesis using assms(3) by simp
qed blast

lemma stream:
  assumes "list_all ok ms" "map_res encode ms = Inr frames"
  shows "read_n (length ms) decode (concat frames @ rest) = Inr (ms, rest)"
  using assms by (intro read_n_append [of ms encode]) (auto simp: list_all_iff round_trip)

end

lemma utf8_text_frame:
  assumes "\<not> 65535 < length s" "utf8_string s"
  shows "read_u16 (u16_le (word_of_nat (length s)) @ as_bytes s @ rest) = Inr (word_of_nat (length s), as_bytes s @ rest)"
    "read_exact (unat (word_of_nat (length s) :: u16)) (as_bytes s @ rest) = Inr (as_bytes s, rest)"
  using assms by (simp_all add: read_text_append)

lemmas body_defs = recv_get_req_body_def recv_put_req_body_def recv_put_stripes_req_body_def
  recv_descriptor_get_req_body_ext_def

interpretation hello: wire_codec send_hello recv_hello "\<lambda>q. length (gid q) = 16"
proof
  fix q :: QpInfo and bs rest
  assume "length (gid q) = 16" "send_hello q = Inr bs"
  then show "recv_hello (bs @ rest) = Inr (q, rest)"
    by (auto simp: send_hello_def recv_hello_def qp_to_bytes_def qp_from_bytes_def reader_simps
        read_exact_append [of "u32_le (qpn q) @ u32_le (psn q) @ gid q" 24, simplified])
qed (auto simp: recv_hello_def intro!: extensible_intros)

interpretation get_req: wire_codec send_get_req recv_get_req "\<lambda>m. utf8_string (gr_key m)"
proof
  fix m :: GetReqMsg and bs rest
  assume "utf8_string (gr_key m)" "send_get_req m = Inr bs"
  then show "recv_get_req (bs @ rest) = Inr (m, rest)"
    by (auto simp: send_get_req_def recv_get_req_def body_defs reader_simps utf8_text_frame split: if_splits)
qed (auto simp: recv_get_req_def body_defs intro!: extensible_intros)

lemma read_13:
  "read_exact 13 (b # u64_le a @ u32_le c @ rest) = Inr (b # u64_le a @ u32_le c, rest)"
  using read_exact_append [of "b # u64_le a @ u32_le c" 13 rest] by simp

interpretation get_resp: wire_codec send_get_resp recv_get_resp "\<lambda>_. True"
proof
  fix m :: GetRespMsg and bs rest
  assume "send_get_resp m = Inr bs"
  then show "recv_get_resp (bs @ rest) = Inr (m, rest)"
    by (auto simp: send_get_resp_def recv_get_resp_def reader_simps read_13)
qed (auto simp: recv_get_resp_def intro!: extensible_intros)

interpretation put_ready: wire_codec send_put_ready recv_put_ready "\<lambda>_. True"
proof
  fix m :: PutReadyMsg and bs rest
  assume "send_put_ready m = Inr bs"
  then show "recv_put_ready (bs @ rest) = Inr (m, rest)"
    by (auto simp: send_put_ready_def recv_put_ready_def reader_simps read_13)
qed (auto simp: recv_put_ready_def intro!: extensible_intros)

interpretation put_resp: wire_codec send_put_resp recv_put_resp "\<lambda>_. True"
proof
  fix m bs rest
  assume "send_put_resp m = Inr bs"
  then show "recv_put_resp (bs @ rest) = Inr (m, rest)"
    by (auto simp: send_put_resp_def recv_put_resp_def reader_simps read_exact_def)
qed (auto simp: recv_put_resp_def intro!: extensible_intros)

definition location_ok :: "PutStripeLocation \<Rightarrow> bool" where
  "location_ok l \<longleftrightarrow> utf8_string (pl_storage_handle l) \<and> utf8_string (pl_checksum l)"

lemma read_location_append:
  assumes "location_ok l" "location_bytes l = Inr bs"
  shows "read_location (bs @ rest) = Inr (l, rest)"
  using assms by (auto simp: location_ok_def location_bytes_def read_location_def reader_simps)

interpretation stripes_resp: wire_codec send_put_stripes_resp recv_put_stripes_resp
  "\<lambda>m. list_all location_ok (pp_stripes m)"
proof
  fix m :: PutStripesRespMsg and bs rest
  assume ok: "list_all location_ok (pp_stripes m)" and "send_put_stripes_resp m = Inr bs"
  then obtain n locs where n: "count_u16 ''stripe results'' (pp_stripes m) = Inr n"
    and locs: "map_res location_bytes (pp_stripes m) = Inr locs"
    and bs: "bs = MSG_PUT_STRIPES_RESP # bool_u8 (pp_ok m) # u16_le n @ concat locs"
    by (auto simp: send_put_stripes_resp_def)
  have "read_n (unat n) read_location (concat locs @ rest) = Inr (pp_stripes m, rest)"
    using ok locs n
    by (intro read_n_append [of _ location_bytes])
      (auto simp: list_all_iff read_location_append count_u16_Inr unat_u16_of_nat)
  then show "recv_put_stripes_resp (bs @ rest) = Inr (m, rest)"
    by (simp add: bs recv_put_stripes_resp_def reader_simps)
qed (auto simp: recv_put_stripes_resp_def read_location_def intro!: extensible_intros)


section \<open>Requests\<close>

text \<open>
  A request as the Rust types allow it: strings are valid UTF-8 and the TTL is an \<open>i64\<close>.  The proofs read
  a frame with \<open>read_request\<close>, which is \<open>recv_request\<close> where there is a tag to read.
\<close>

fun request_ok :: "request \<Rightarrow> bool" where
  "request_ok ByeRequest = True"
| "request_ok (PutRequest if_absent m) \<longleftrightarrow> utf8_string (pr_key m) \<and> i64_range (pr_ttl_seconds m)"
| "request_ok (PutStripesRequest m) \<longleftrightarrow> utf8_string (ps_key m) \<and> utf8_string (ps_object_handle m)"
| "request_ok (DescriptorRequest m) \<longleftrightarrow>
     utf8_string (dg_key m) \<and> utf8_string (dg_object_handle m) \<and> utf8_string (dg_content_etag m)"
| "request_ok (GetRequest m) \<longleftrightarrow> utf8_string (gr_key m)"

definition read_request :: "request reader" where
  "read_request = rd_bind read_u8 dispatch_request"

lemma recv_request_eq:
  "recv_request bs = (if bs = [] then Inr (None, [])
     else case read_request bs of Inl e \<Rightarrow> Inl e | Inr (q, rest) \<Rightarrow> Inr (Some q, rest))"
  by (cases bs) (auto simp: recv_request_def read_request_def read_u8_def read_exact_def rd_bind_def split: sum.splits)

lemma push_string_eq: "push_string v f = write_string_u16 v f"
  by (simp add: push_string_def write_string_u16_def)

lemma put_request_round_trip:
  assumes "utf8_string (pr_key m)" "i64_range (pr_ttl_seconds m)"
    "build_put_request (put_message if_absent (pr_ttl_seconds m)) m = Inr bs"
  shows "read_request (bs @ rest) = Inr (PutRequest if_absent m, rest)"
  using assms
  by (cases if_absent; cases "pr_ttl_seconds m = 0")
    (auto simp: build_put_request_def put_message_def push_string_def read_request_def dispatch_request_def body_defs
      reader_simps utf8_text_frame Let_def split: if_splits)

lemma put_stripes_request_round_trip:
  assumes "utf8_string (ps_key m)" "utf8_string (ps_object_handle m)" "send_put_stripes_req m = Inr bs"
  shows "read_request (bs @ rest) = Inr (PutStripesRequest m, rest)"
proof -
  obtain key handle n where k: "write_string_u16 (ps_key m) ''key'' = Inr key"
    "write_string_u16 (ps_object_handle m) ''object_handle'' = Inr handle"
    "count_u16 ''stripes'' (ps_stripes m) = Inr n"
    and bs: "bs = MSG_PUT_STRIPES_REQ # key @ handle @ u64_le (ps_object_generation m)
         @ u64_le (ps_layout_version m) @ u64_le (ps_chunk_size m) @ u64_le (ps_total_size m)
         @ u16_le n @ concat (map stripe_len_le (ps_stripes m))"
    using assms(3) by (auto simp: send_put_stripes_req_def)
  have "read_n (unat n) read_stripe_len (concat (map stripe_len_le (ps_stripes m)) @ rest) = Inr (ps_stripes m, rest)"
    using k(3) by (intro read_n_map read_stripe_len_append) (auto simp: count_u16_Inr unat_u16_of_nat)
  then show ?thesis
    using assms(1,2) k by (simp add: bs read_request_def dispatch_request_def body_defs reader_simps)
qed

lemma descriptor_lists_round_trip:
  assumes "(if b then res_bind (count_u16 w xs) (\<lambda>n. Inr (u16_le n @ concat (map f xs))) else Inr []) = Inr bs"
    and "\<And>x rest. r (f x @ rest) = Inr (x, rest)" and "\<not> b \<Longrightarrow> xs = []"
  shows "(if b then rd_bind read_u16 (\<lambda>n. read_n (unat n) r) else rd_return []) (bs @ rest) = Inr (xs, rest)"
proof (cases b)
  case True
  then obtain n where n: "length xs \<le> 65535" "n = word_of_nat (length xs)" "bs = u16_le n @ concat (map f xs)"
    using assms(1) by (auto simp: count_u16_Inr)
  then have "read_n (unat n) r (concat (map f xs) @ rest) = Inr (xs, rest)"
    by (intro read_n_map assms(2)) (simp add: unat_u16_of_nat)
  with True n show ?thesis by (simp add: reader_simps)
qed (use assms in auto)

lemma descriptor_segments_round_trip:
  assumes "(if xs \<noteq> [] then res_bind (count_u16 w xs) (\<lambda>n. Inr (u16_le n @ concat (map f xs))) else Inr []) = Inr bs"
    and "\<And>x rest. r (f x @ rest) = Inr (x, rest)"
  shows "(if xs \<noteq> [] then rd_bind read_u16 (\<lambda>n. if n = 0 then rd_fail e else read_n (unat n) r) else rd_return [])
    (bs @ rest) = Inr (xs, rest)"
proof (cases "xs = []")
  case False
  then obtain n where n: "length xs \<le> 65535" "n = word_of_nat (length xs)" "bs = u16_le n @ concat (map f xs)"
    using assms(1) by (auto simp: count_u16_Inr)
  then have u: "unat n = length xs" by (simp add: unat_u16_of_nat)
  then have "n \<noteq> 0" using False by (metis length_0_conv unat_0)
  moreover have "read_n (unat n) r (concat (map f xs) @ rest) = Inr (xs, rest)"
    by (intro read_n_map assms(2) u)
  ultimately show ?thesis using False n(3) by (simp add: reader_simps)
qed (use assms in auto)

lemma descriptor_request_round_trip:
  assumes utf8: "utf8_string (dg_key m)" "utf8_string (dg_object_handle m)" "utf8_string (dg_content_etag m)"
    and send: "send_descriptor_get_req m = Inr bs"
  shows "read_request (bs @ rest) = Inr (DescriptorRequest m, rest)"
proof -
  let ?st = "dg_stripes m \<noteq> [] \<or> dg_dst_segments m \<noteq> []"
  obtain key handle etag stripes segs where
    k: "write_string_u16 (dg_key m) ''key'' = Inr key"
      "write_string_u16 (dg_object_handle m) ''object_handle'' = Inr handle"
      "write_string_u16 (dg_content_etag m) ''content_etag'' = Inr etag"
    and st: "(if ?st then res_bind (count_u16 ''stripes'' (dg_stripes m))
        (\<lambda>n. Inr (u16_le n @ concat (map u32_le (dg_stripes m)))) else Inr []) = Inr stripes"
    and sg: "(if dg_dst_segments m \<noteq> [] then res_bind (count_u16 ''dst segments'' (dg_dst_segments m))
        (\<lambda>n. Inr (u16_le n @ concat (map segment_le (dg_dst_segments m)))) else Inr []) = Inr segs"
    and bs: "bs = descriptor_tag m # key @ handle @ u64_le (dg_object_generation m) @ etag
         @ u64_le (dg_layout_version m) @ u64_le (dg_size m) @ [bool_u8 (dg_is_striped m)]
         @ u32_le (dg_stripe_count m) @ u64_le (dg_chunk_size m) @ u64_le (dg_dst_addr m)
         @ u32_le (dg_dst_rkey m) @ u64_le (dg_max_size m) @ stripes @ segs"
    using send unfolding send_descriptor_get_req_def res_bind_eq_Inr sum.inject by blast
  note body_st = descriptor_lists_round_trip [OF st, of read_u32, OF read_word_append(2)]
  note body_sg = descriptor_segments_round_trip [OF sg read_segment_append]
  have "recv_descriptor_get_req_body_ext ?st (dg_dst_segments m \<noteq> []) (tl bs @ rest) = Inr (m, rest)"
    using utf8 k body_st body_sg
    by (simp add: bs body_defs reader_simps)
  then have body: "recv_descriptor_get_req_body_ext ?st (dg_dst_segments m \<noteq> []) (tl bs @ rest) = Inr (m, rest)" .
  have "bs = descriptor_tag m # tl bs" by (simp add: bs)
  then have "read_request (bs @ rest) = read_request (descriptor_tag m # tl bs @ rest)" by (metis append_Cons)
  also have "\<dots> = Inr (DescriptorRequest m, rest)"
  proof (cases "dg_dst_segments m = []")
    case True
    then show ?thesis using body
      by (cases "dg_stripes m = []") (simp_all add: read_request_def dispatch_request_def descriptor_tag_def reader_simps)
  next
    case False
    then show ?thesis using body by (simp add: read_request_def dispatch_request_def descriptor_tag_def reader_simps)
  qed
  finally show ?thesis .
qed

text \<open>Both crates write the same frame for the same request.\<close>

lemma client_stripes_eq: "client_put_stripes_request m = Inr bs \<Longrightarrow> send_put_stripes_req m = Inr bs"
  by (auto simp: client_put_stripes_request_def send_put_stripes_req_def push_string_eq split: if_splits)

lemma client_descriptor_eq: "client_descriptor_request m = Inr bs \<Longrightarrow> send_descriptor_get_req m = Inr bs"
  by (auto simp: client_descriptor_request_def send_descriptor_get_req_def build_descriptor_get_request_def push_string_eq
      descriptor_tag_def split: if_splits)

lemma put_frames_eq: "send_put_req m = build_put_request (put_message False (pr_ttl_seconds m)) m"
  by (simp add: send_put_req_def build_put_request_def put_message_def push_string_def Let_def)

lemma get_frames_eq: "build_get_request m = send_get_req m"
  by (simp add: build_get_request_def send_get_req_def push_string_def)

lemma sent_round_trip:
  assumes "request_ok q" "sent_as q bs"
  shows "read_request (bs @ rest) = Inr (q, rest)"
proof (cases q)
  case ByeRequest
  with assms(2) show ?thesis by (auto simp: sent_as_def send_bye_def read_request_def dispatch_request_def reader_simps)
next
  case (GetRequest m)
  with assms show ?thesis
    by (auto simp: sent_as_def get_frames_eq send_get_req_def read_request_def dispatch_request_def body_defs reader_simps
        utf8_text_frame split: if_splits)
next
  case (PutRequest if_absent m)
  with assms show ?thesis by (auto simp: sent_as_def put_frames_eq put_request_round_trip split: if_splits)
qed (use assms in \<open>auto simp: sent_as_def dest!: client_stripes_eq client_descriptor_eq
      intro!: put_stripes_request_round_trip descriptor_request_round_trip\<close>)

lemma read_request_extensible: "extensible read_request"
  unfolding read_request_def dispatch_request_def body_defs by (intro extensible_intros)

interpretation req: wire_codec client_request read_request request_ok
  by unfold_locales (simp_all add: sent_round_trip sent_as_def read_request_extensible)

interpretation wire_req: wire_codec "\<lambda>q. case wire_request q of None \<Rightarrow> Inl NoStripes | Some r \<Rightarrow> r" read_request request_ok
  by unfold_locales (auto simp: sent_round_trip sent_as_def read_request_extensible split: option.splits)

lemma sent_truncated:
  assumes "request_ok q" "sent_as q bs" "0 < k" "k < length bs"
  shows "\<exists>e. recv_request (take k bs) = Inl e"
proof -
  have "\<exists>e. read_request (take k bs) = Inl e"
    using req.truncated [OF assms(1) _ assms(4)] wire_req.truncated [OF assms(1) _ assms(4)] assms(2) by (auto simp: sent_as_def)
  then show ?thesis using assms(3,4) by (auto simp: recv_request_eq)
qed

text \<open>
  C12. Every control-plane request survives the wire.  Whatever request the Rust client or the server
  crate frames (PUT and put-if-absent with or without TTL, stripe PUT, plain, stripe-subset or scatter
  descriptor GET, key GET, BYE), the server's dispatch reads back exactly that request, the
  if-absent flag included, and leaves the following bytes untouched.
\<close>

theorem request_round_trip:
  assumes "request_ok q" "sent_as q bs"
  shows "recv_request (bs @ rest) = Inr (Some q, rest)"
proof -
  have "read_request (bs @ rest) = Inr (q, rest)" by (rule sent_round_trip [OF assms])
  moreover have "read_request [] = Inl (ReadFailed 1)" by (simp add: read_request_def read_u8_def read_exact_def rd_bind_def)
  ultimately show ?thesis by (auto simp: recv_request_eq)
qed

lemma utf8_sample: "utf8_string ''1:ab''" "utf8_string ''0:k''"
  by (simp_all add: utf8_string_def as_bytes_def in_range_def unat_of_nat)

theorem request_round_trip_witness:
  "\<exists>bs. client_request (PutRequest True \<lparr> pr_key = ''1:ab'', pr_size = 4096, pr_ttl_seconds = - 5 \<rparr>) = Inr bs
     \<and> recv_request (bs @ [42]) = Inr (Some (PutRequest True \<lparr> pr_key = ''1:ab'', pr_size = 4096, pr_ttl_seconds = - 5 \<rparr>), [42])"
proof -
  let ?m = "\<lparr> pr_key = ''1:ab'', pr_size = 4096, pr_ttl_seconds = - 5 \<rparr>"
  obtain bs where "client_request (PutRequest True ?m) = Inr bs"
    by (simp add: build_put_request_def push_string_def Let_def)
  then show ?thesis using request_round_trip [of "PutRequest True ?m" bs "[42]"] by (auto simp: sent_as_def utf8_sample i64_range_def)
qed

text \<open>
  A connection carries any number of requests: the concatenated frames of a list of requests
  are read back by the server loop as that list, in order, with nothing left over.
\<close>

theorem request_stream_round_trip:
  assumes "list_all request_ok qs" "map_res client_request qs = Inr frames"
  shows "read_n (length qs) read_request (concat frames) = Inr (qs, [])"
  using req.stream [OF assms, of "[]"] by simp

text \<open>
  C30. A request cut short is never mistaken for another one.  When the stream ends inside a frame, the
  server reports an error, wherever the cut is; when it ends before the frame, the connection
  counts as closed and no request is served.
\<close>

theorem request_truncation_rejected:
  assumes "request_ok q" "sent_as q bs" "k < length bs"
  shows "if k = 0 then recv_request (take k bs) = Inr (None, []) else \<exists>e. recv_request (take k bs) = Inl e"
  using sent_truncated [OF assms(1,2) _ assms(3)] by (simp add: recv_request_eq)

theorem request_truncation_rejected_witness:
  "\<exists>bs e. client_request (PutRequest True \<lparr> pr_key = ''0:k'', pr_size = 7, pr_ttl_seconds = 60 \<rparr>) = Inr bs \<and> length bs = 22
     \<and> recv_request (take 14 bs) = Inl e"
proof -
  let ?m = "\<lparr> pr_key = ''0:k'', pr_size = 7, pr_ttl_seconds = 60 \<rparr>"
  obtain bs where bs: "client_request (PutRequest True ?m) = Inr bs" "length bs = 22"
    by (simp add: build_put_request_def push_string_def put_message_def Let_def i64_le_def)
  then show ?thesis
    using request_truncation_rejected [of "PutRequest True ?m" bs 14] by (auto simp: sent_as_def utf8_sample i64_range_def)
qed

text \<open>
  The answer to a stripe PUT survives the wire: the coordinator reads back the per-stripe
  device, storage handle and checksum the data node reported, for any number of stripes.
\<close>

theorem put_stripes_resp_round_trip:
  assumes "list_all location_ok (pp_stripes m)" "send_put_stripes_resp m = Inr bs"
  shows "recv_put_stripes_resp (bs @ rest) = Inr (m, rest)"
  using assms by (rule stripes_resp.round_trip)

theorem put_stripes_resp_round_trip_witness:
  "\<exists>bs. recv_put_stripes_resp (bs @ []) = Inr (\<lparr> pp_ok = True, pp_stripes =
     [\<lparr> pl_stripe_index = 3, pl_device_id = 1, pl_storage_handle = ''/d/a.bin'', pl_checksum = [] \<rparr>] \<rparr>, [])"
proof -
  let ?m = "\<lparr> pp_ok = True, pp_stripes =
     [\<lparr> pl_stripe_index = 3, pl_device_id = 1, pl_storage_handle = ''/d/a.bin'', pl_checksum = [] \<rparr>] \<rparr>"
  obtain bs where "send_put_stripes_resp ?m = Inr bs"
    by (simp add: send_put_stripes_resp_def count_u16_def location_bytes_def write_string_u16_def)
  from put_stripes_resp_round_trip [OF _ this, of "[]"] show ?thesis
    by (auto simp: location_ok_def utf8_string_def as_bytes_def in_range_def unat_of_nat)
qed

end
