(* ===== verification/Rdma_Server.thy ===== *)
theory Rdma_Server
  imports Memory_Ops Storage_Ptr Wire
begin

text \<open>
  The write handler of \<open>rdma/server.rs\<close>: it grants the client an extent of the slab, waits until the
  client has written the object there and committed, stores the object from the extent, and hands the
  extent to the segment cache.  The client's RDMA WRITE and its COMMIT byte are arguments; a lost
  connection is a missing COMMIT.
\<close>

section \<open>The handler\<close>

text \<open>The registered memory as addresses of the process: the slab region at its base address.\<close>

definition slab_memory :: "RdmaSlab \<Rightarrow> mem" where
  "slab_memory sl a = slab_mem sl (nat ((int a - int (slab_base sl)) mod 2 ^ 64))"

definition tier_memory :: "('x, 'm, 'c, 'd) MemoryTier \<Rightarrow> mem" where
  "tier_memory s = (case mt_slab s of None \<Rightarrow> (\<lambda>_. 0) | Some sl \<Rightarrow> slab_memory sl)"

definition tier_addr :: "SlabExtent \<Rightarrow> ('x, 'm, 'c, 'd) MemoryTier \<Rightarrow> nat" where
  "tier_addr e s = (case mt_slab s of None \<Rightarrow> 0 | Some sl \<Rightarrow> extent_addr sl e)"

definition tier_rkey :: "nat \<Rightarrow> ('x, 'm, 'c, 'd) MemoryTier \<Rightarrow> nat" where
  "tier_rkey nic_idx s = (case mt_slab s of None \<Rightarrow> 0 | Some sl \<Rightarrow> slab_rkeys sl ! nic_idx)"

definition try_alloc :: "nat \<Rightarrow> ('x, 'm, 'c, 'd) MemoryTier \<Rightarrow> SlabExtent option \<times> ('x, 'm, 'c, 'd) MemoryTier" where
  "try_alloc sz s =
     (case mt_slab s of
        None \<Rightarrow> (None, s)
      | Some sl \<Rightarrow>
          (case slab_alloc sl sz of
             (None, sl1) \<Rightarrow> (None, s\<lparr> mt_slab := Some sl1 \<rparr>)
           | (Some e, sl1) \<Rightarrow> (Some e, s\<lparr> mt_slab := Some sl1, mt_handles := e # mt_handles s \<rparr>)))"

fun evict_rounds ::
  "('x, 'm, 'c, 'd) MemoryEnv \<Rightarrow> nat \<Rightarrow> nat \<Rightarrow> nat \<Rightarrow> nat \<Rightarrow> ('x, 'm, 'c, 'd) MemoryTier
     \<Rightarrow> SlabExtent option \<times> ('x, 'm, 'c, 'd) MemoryTier" where
  "evict_rounds M sz slab_cap evict_mult 0 s = (None, s)"
| "evict_rounds M sz slab_cap evict_mult (Suc n) s =
     (case try_alloc sz (evict_chunks_cache_to_free M (min (sz * evict_mult) slab_cap) s) of
        (Some e, s2) \<Rightarrow> (Some e, s2)
      | (None, s2) \<Rightarrow> evict_rounds M sz slab_cap (evict_mult * 2) n s2)"

definition alloc_with_eviction ::
  "('x, 'm, 'c, 'd) MemoryEnv \<Rightarrow> nat \<Rightarrow> ('x, 'm, 'c, 'd) MemoryTier \<Rightarrow> SlabExtent option \<times> ('x, 'm, 'c, 'd) MemoryTier" where
  "alloc_with_eviction M sz s =
     (case try_alloc sz s of
        (Some e, s1) \<Rightarrow> (Some e, s1)
      | (None, s1) \<Rightarrow>
          (case mt_slab s1 of None \<Rightarrow> (None, s1) | Some sl \<Rightarrow> evict_rounds M sz (slab_len sl) 2 5 s1))"

text \<open>What the client's RDMA WRITE does to the extent it was granted.\<close>

definition rdma_write :: "SlabExtent \<Rightarrow> bytes \<Rightarrow> ('x, 'm, 'c, 'd) MemoryTier \<Rightarrow> ('x, 'm, 'c, 'd) MemoryTier" where
  "rdma_write e payload s = s\<lparr> mt_slab := map_option (\<lambda>sl. copy_in sl e [take (ext_len e) payload]) (mt_slab s) \<rparr>"

definition rdma_put_meta :: "int \<Rightarrow> PutReqMsg \<Rightarrow> BlockMeta" where
  "rdma_put_meta now req =
     \<lparr> device_id = 0, file_path = [], bm_size = 0, object_handle = [], object_generation = 1, content_etag = [], layout_version = 1,
       created_at = now, last_accessed_at = now, ttl_seconds = max (pr_ttl_seconds req) 0, num_tokens = 0, num_layers = 1,
       dtype = ''uint8'', compressed = False, striping = None \<rparr>"

text \<open>How a session ends: refused, broken off, or answered with a result code and whether the extent was cached.\<close>

datatype put_end = PutRejected | PutAborted string | PutAnswered u8 bool

definition put_from_extent ::
  "('x, 'm, 'c, 'd) MemoryEnv \<Rightarrow> int \<Rightarrow> bool \<Rightarrow> ObjectKey \<Rightarrow> SlabExtent \<Rightarrow> nat \<Rightarrow> BlockMeta \<Rightarrow> ('x, 'm, 'c, 'd) MemoryTier
     \<Rightarrow> bool res \<times> ('x, 'm, 'c, 'd) MemoryTier" where
  "put_from_extent M now if_not_exists key e sz meta s =
     (case on_storage (put_from_ptr_with_options (me_storage M) now (tier_memory s) key (tier_addr e s) sz meta if_not_exists) s of
        (r, s1) \<Rightarrow> (if if_not_exists then r else map_sum id (\<lambda>_. True) r, s1))"

definition finish_put ::
  "('x, 'm, 'c, 'd) MemoryEnv \<Rightarrow> int \<Rightarrow> bool \<Rightarrow> PutReqMsg \<Rightarrow> SlabExtent \<Rightarrow> ('x, 'm, 'c, 'd) MemoryTier
     \<Rightarrow> put_end \<times> ('x, 'm, 'c, 'd) MemoryTier" where
  "finish_put M now if_not_exists req e s =
     (case from_string_key (pr_key req) of
        Inl err \<Rightarrow> (PutAborted (''invalid key format: '' @ pr_key req @ '' ('' @ kverror_to_string err @ '')''), drop_handles [e] s)
      | Inr key \<Rightarrow>
          (case put_from_extent M now if_not_exists key e (unat (pr_size req)) (rdma_put_meta now req) s of
             (Inl _, s1) \<Rightarrow> (PutAnswered PUT_RESULT_FAILED False, drop_handles [e] s1)
           | (Inr False, s1) \<Rightarrow> (PutAnswered PUT_RESULT_EXISTS False, drop_handles [e] s1)
           | (Inr True, s1) \<Rightarrow>
               (case on_storage (on_meta (mo_get_block (se_mo (me_storage M)) (pr_key req))) s1 of
                  (Inr (Some real_meta), s2) \<Rightarrow>
                    (PutAnswered PUT_RESULT_STORED True, insert_chunks_from_slab M (pr_key req) e real_meta s2)
                | (_, s2) \<Rightarrow> (PutAnswered PUT_RESULT_STORED False, drop_handles [e] s2))))"

definition handle_put ::
  "('x, 'm, 'c, 'd) MemoryEnv \<Rightarrow> int \<Rightarrow> nat \<Rightarrow> bool \<Rightarrow> PutReqMsg \<Rightarrow> bytes \<Rightarrow> u8 option \<Rightarrow> ('x, 'm, 'c, 'd) MemoryTier
     \<Rightarrow> (PutReadyMsg \<times> put_end) \<times> ('x, 'm, 'c, 'd) MemoryTier" where
  "handle_put M now nic_idx if_not_exists req payload commit s =
     (let sz = unat (pr_size req); refused = \<lparr> py_ok = False, py_dst_addr = 0, py_dst_rkey = 0 \<rparr> in
      if sz = 0 \<or> sz > 4 * 1024 * 1024 * 1024 then ((refused, PutRejected), s)
      else (case alloc_with_eviction M sz s of
          (None, s1) \<Rightarrow> ((refused, PutRejected), s1)
        | (Some e, s1) \<Rightarrow>
            let ready = \<lparr> py_ok = True, py_dst_addr = word_of_nat (tier_addr e s1), py_dst_rkey = word_of_nat (tier_rkey nic_idx s1) \<rparr>;
                s2 = rdma_write e payload s1
            in (case commit of
                  None \<Rightarrow> ((ready, PutAborted ''connection lost''), drop_handles [e] s2)
                | Some commit_tag \<Rightarrow>
                    if commit_tag \<noteq> MSG_PUT_COMMIT
                    then ((ready, PutAborted (''expected MSG_PUT_COMMIT=6, got '' @ dec (unat commit_tag))), drop_handles [e] s2)
                    else (case finish_put M now if_not_exists req e s2 of (out, s3) \<Rightarrow> ((ready, out), s3)))))"

text \<open>The frames of the session.\<close>

definition put_replies :: "bool \<Rightarrow> PutReadyMsg \<times> put_end \<Rightarrow> (wire_error + bytes) list" where
  "put_replies if_not_exists p =
     send_put_ready (fst p) #
       (case snd p of
          PutRejected \<Rightarrow> [send_put_resp False]
        | PutAborted _ \<Rightarrow> []
        | PutAnswered result_code _ \<Rightarrow>
            [if if_not_exists then Inr (send_put_result result_code) else send_put_resp (result_code = PUT_RESULT_STORED)])"


section \<open>Extents granted to a client\<close>

lemma wraps64_slab_memory: "wraps64 (slab_memory sl)"
proof -
  have "(int (a mod 2 ^ 64) - int b) mod 2 ^ 64 = (int a - int b) mod 2 ^ 64" for a b :: nat
    by (simp add: of_nat_mod mod_simps)
  then show ?thesis by (simp add: wraps64_def slab_memory_def)
qed

lemma slab_memory_extent:
  assumes "slab_inv sl L" "e \<in> L"
  shows "load_bytes (extent_addr sl e) (ext_len e) (slab_memory sl) = extent_bytes sl e"
proof -
  have "ext_offset e + j < slab_len sl" if "j < ext_len e" for j
  proof -
    have "ext_offset e + j \<in> cells (ext_cells e)" using assms that by (fastforce simp: slab_inv_def)
    then have "ext_offset e + j \<in> {..< slab_len sl}" using assms unfolding slab_inv_def partition_def by blast
    then show ?thesis by simp
  qed
  moreover have "slab_len sl < 2 ^ 64" using assms(1) by (simp add: slab_inv_def freelist_wf_def)
  ultimately have lt: "ext_offset e + j < 2 ^ 64" if "j < ext_len e" for j using that by fastforce
  have "slab_memory sl (extent_addr sl e + j) = slab_mem sl (ext_offset e + j)" if "j < ext_len e" for j
  proof -
    have "(int (extent_addr sl e + j) - int (slab_base sl)) mod 2 ^ 64 = int (ext_offset e + j) mod 2 ^ 64"
    proof -
      have "((b + x) mod 2 ^ 64 + y - b) mod 2 ^ 64 = (x + y) mod 2 ^ 64" for b x y :: int
      proof -
        have "((b + x) mod 2 ^ 64 + y - b) mod 2 ^ 64 = ((b + x) + (y - b)) mod 2 ^ 64" unfolding add_diff_eq [symmetric] by (simp only: mod_add_left_eq)
        then show ?thesis by simp
      qed
      from this [of "int (slab_base sl)" "int (ext_offset e)" "int j"]
      show ?thesis by (simp add: extent_addr_def wadd64_def of_nat_mod)
    qed
    also have "\<dots> = int (ext_offset e + j)" using lt [OF that] by (simp flip: of_nat_add)
    finally show ?thesis by (simp only: slab_memory_def nat_int)
  qed
  then show ?thesis by (auto simp: extent_bytes_def load_bytes_def intro!: nth_equalityI)
qed

lemma store_bytes_rest:
  assumes "length xs \<le> n"
  shows "store_bytes off (xs @ drop (length xs) (load_bytes off n mem)) mem = store_bytes off xs mem"
proof
  fix a
  show "store_bytes off (xs @ drop (length xs) (load_bytes off n mem)) mem a = store_bytes off xs mem a"
    using assms by (cases "a < off + length xs") (auto simp: store_bytes_def load_bytes_def nth_append)
qed

context memory_system
begin

abbreviation granted :: "SlabExtent \<Rightarrow> segment list" where
  "granted e \<equiv> [View e 0 (ext_len e)]"

text \<open>A fresh extent: it has one handle, and no cache entry or reader knows it.\<close>

definition grant_ok ::
  "ObjectKey set \<Rightarrow> (ObjectKey \<Rightarrow> bytes set) \<Rightarrow> (segment list \<times> bytes) list \<Rightarrow> nat \<Rightarrow> SlabExtent \<Rightarrow> ('x, 'm, 'c, 'd) MemoryTier \<Rightarrow> bool" where
  "grant_ok K A G sz e s \<longleftrightarrow> ext_len e = sz \<and> 0 < sz \<and> (\<exists>hs. mt_handles s = e # hs \<and> e \<notin> set hs)
     \<and> (\<exists>d. mem_ok K A ((granted e, d) # G) s)"

lemma try_alloc_ok:
  assumes "mem_ok K A G s" "sz + SLAB_ALIGN \<le> 2 ^ 64" "try_alloc sz s = (r, s')"
  shows "mt_storage s' = mt_storage s" "case r of None \<Rightarrow> mem_ok K A G s' | Some e \<Rightarrow> grant_ok K A G sz e s'"
proof -
  have l1: "l1_ok K A G s" and tr: "tracks K A (mt_storage s)" using assms(1) by (simp_all add: mem_ok_def)
  show "mt_storage s' = mt_storage s" using assms(3) by (auto simp: try_alloc_def split: option.splits prod.splits)
  show "case r of None \<Rightarrow> mem_ok K A G s' | Some e \<Rightarrow> grant_ok K A G sz e s'"
  proof (cases "mt_slab s")
    case None
    then show ?thesis using assms(1,3) by (auto simp: try_alloc_def)
  next
    case (Some sl)
    obtain x sl1 where al: "slab_alloc sl sz = (x, sl1)" by fastforce
    show ?thesis
    proof (cases x)
      case None
      then have "sl1 = sl" using slab_alloc_None(1) al by blast
      then have st: "r = None" "s' = s\<lparr> mt_slab := Some sl \<rparr>" using assms(3) Some al None by (auto simp: try_alloc_def)
      have "s\<lparr> mt_slab := Some sl \<rparr> = s" using Some by (cases s) simp
      then show ?thesis using st assms(1) by simp
    next
      case e: (Some e)
      have st: "r = Some e" "s' = s\<lparr> mt_slab := Some sl1, mt_handles := e # mt_handles s \<rparr>"
        using assms(3) Some al e by (auto simp: try_alloc_def)
      have pins: "pins_ok (Some sl) (mt_handles s) (seg_lists G s)" using l1_okD(1) [OF l1] Some by simp
      then have inv: "slab_inv sl (set (mt_handles s))" by (simp add: pins_ok_def slab_ok_def)
      note t = slab_inv_take [OF inv assms(2) al [unfolded e]] and f = slab_alloc_fresh [OF inv assms(2) al [unfolded e]]
      have "0 < sz" using t f(2) by (auto simp: slab_inv_def)
      have eq: "segs_bytes (Some sl1) segs = segs_bytes (mt_slab s) segs" for segs
        unfolding Some by (rule segs_bytes_cong) (simp add: extent_bytes_def f(3))
      have "l1_ok K A ((granted e, segs_bytes (Some sl1) (granted e)) # G) s'"
      proof (rule l1_okI, goal_cases)
        case 1
        have "pins_ok (Some sl1) (e # mt_handles s) (granted e # seg_lists G s)"
          using pins t by (simp add: pins_ok_def slab_ok_def seg_fits_def)
        then show ?case using pins_ok_perm by (simp add: st(2) seg_lists_def)
      qed (use l1_okD [OF l1] eq in \<open>auto simp: st(2)\<close>)
      then have "mem_ok K A ((granted e, segs_bytes (Some sl1) (granted e)) # G) s'" using tr by (simp add: mem_ok_def st(2))
      then show ?thesis using f \<open>0 < sz\<close> by (auto simp: grant_ok_def st)
    qed
  qed
qed

lemma evict_to_free_storage: "mem_ok K A G s \<Longrightarrow> mt_storage (evict_chunks_cache_to_free M need s) = mt_storage s"
  using evict_to_free_ok [of K A G s] by (simp add: mem_ok_def evict_chunks_cache_to_free_def)

lemma evict_rounds_ok:
  assumes "mem_ok K A G s" "sz + SLAB_ALIGN \<le> 2 ^ 64" "evict_rounds M sz cap em n s = (r, s')"
  shows "mt_storage s' = mt_storage s \<and> (case r of None \<Rightarrow> mem_ok K A G s' | Some e \<Rightarrow> grant_ok K A G sz e s')"
  using assms(1,3)
proof (induction n arbitrary: em s)
  case (Suc n)
  let ?s1 = "evict_chunks_cache_to_free M (min (sz * em) cap) s"
  obtain x s2 where x: "try_alloc sz ?s1 = (x, s2)" by fastforce
  note t = try_alloc_ok [OF evict_chunks_cache_to_free_ok [OF Suc.prems(1)] assms(2) x]
  show ?case
  proof (cases x)
    case None
    then have "evict_rounds M sz cap (em * 2) n s2 = (r, s')" "mem_ok K A G s2" using Suc.prems x t(2) by simp_all
    from Suc.IH [OF this(2,1)] show ?thesis using t(1) evict_to_free_storage [OF Suc.prems(1)] by simp
  next
    case (Some e)
    then have "r = Some e" "s' = s2" using Suc.prems(2) x by simp_all
    then show ?thesis using t Some evict_to_free_storage [OF Suc.prems(1)] by simp
  qed
qed simp

lemma alloc_with_eviction_ok:
  assumes "mem_ok K A G s" "sz + SLAB_ALIGN \<le> 2 ^ 64" "alloc_with_eviction M sz s = (r, s')"
  shows "mt_storage s' = mt_storage s \<and> (case r of None \<Rightarrow> mem_ok K A G s' | Some e \<Rightarrow> grant_ok K A G sz e s')"
proof -
  obtain x s1 where x: "try_alloc sz s = (x, s1)" by fastforce
  note t = try_alloc_ok [OF assms(1,2) x]
  show ?thesis
  proof (cases x)
    case None
    then have ok: "mem_ok K A G s1" using t(2) by simp
    show ?thesis
      using evict_rounds_ok [OF ok assms(2)] t ok None assms(3) x by (cases "mt_slab s1") (auto simp: alloc_with_eviction_def)
  next
    case (Some e)
    then have "r = Some e" "s' = s1" using assms(3) x by (simp_all add: alloc_with_eviction_def)
    then show ?thesis using t Some by simp
  qed
qed

text \<open>The client's WRITE changes the bytes of the extent it was granted and of no other.\<close>

lemma rdma_write_ok:
  assumes "grant_ok K A G sz e s"
  obtains d where "mem_ok K A ((granted e, d) # G) (rdma_write e payload s)" "length d = sz"
    "length payload = sz \<Longrightarrow> d = payload"
proof -
  obtain hs d0 where g: "ext_len e = sz" "0 < sz" "mt_handles s = e # hs" "e \<notin> set hs" "mem_ok K A ((granted e, d0) # G) s"
    using assms by (auto simp: grant_ok_def)
  have l1: "l1_ok K A ((granted e, d0) # G) s" and tr: "tracks K A (mt_storage s)" using g(5) by (simp_all add: mem_ok_def)
  note pins = l1_okD(1) [OF l1]
  obtain sl where sl: "mt_slab s = Some sl" using pins g(3) by (auto simp: pins_ok_def slab_ok_def split: option.splits)
  have inv: "slab_inv sl (insert e (set hs))" using pins g(3) sl by (simp add: pins_ok_def slab_ok_def)
  define xs where "xs = take sz payload"
  define p where "p = xs @ drop (length xs) (extent_bytes sl e)"
  have lx: "length xs \<le> ext_len e" by (simp add: xs_def g(1))
  then have lp: "length p = ext_len e" by (simp add: p_def extent_bytes_def)
  let ?sl = "copy_in sl e [p]"
  have "copy_in sl e [take (ext_len e) payload] = ?sl"
    using store_bytes_rest [of xs "ext_len e" "ext_offset e" "slab_mem sl"] lx
    by (simp add: copy_in_def copy_segments_eq p_def g(1) extent_bytes_def xs_def)
  then have s': "rdma_write e payload s = s\<lparr> mt_slab := Some ?sl \<rparr>" by (simp add: rdma_write_def sl)
  note c = copy_in_exact [OF inv, of e "[p]"]
  have inv2: "slab_inv ?sl (insert e (set hs))" using inv by (simp add: slab_inv_def copy_in_def)
  have rest: "mset (concat (map seg_handles (seg_lists G s))) \<subseteq># mset hs"
  proof -
    have "pins_ok (mt_slab s) (mt_handles s) (granted e # seg_lists G s)"
      by (rule pins_ok_perm [OF pins]) (simp add: seg_lists_def)
    then show ?thesis using g(3) by (simp add: pins_ok_def)
  qed
  have old: "segs_bytes (Some ?sl) segs = segs_bytes (mt_slab s) segs" if "segs \<in> set (seg_lists G s)" for segs
  proof (rule segs_bytes_cong)
    fix e'
    assume "e' \<in> set (seg_handles segs)"
    then have "e' \<in> set (concat (map seg_handles (seg_lists G s)))" using that by auto
    then have "e' \<in> set hs" using rest by (metis mset_subset_eqD set_mset_mset)
    then show "map_option (\<lambda>sl. extent_bytes sl e') (Some ?sl) = map_option (\<lambda>sl. extent_bytes sl e') (mt_slab s)"
      using c(2) g(4) lp by (auto simp: sl)
  qed
  have new: "segs_bytes (Some ?sl) (granted e) = p"
    using c(1) lp by (simp add: segs_bytes_def seg_bytes_def)
  have "l1_ok K A ((granted e, p) # G) (rdma_write e payload s)"
  proof (rule l1_okI, goal_cases)
    case 1
    show ?case using pins inv2 g(3) by (simp add: s' pins_ok_def slab_ok_def seg_lists_def)
  next
    case (2 segs d)
    show ?case
    proof (cases "(segs, d) \<in> set G")
      case True
      then have "segs \<in> set (seg_lists G s)" by (force simp: seg_lists_def)
      then show ?thesis using old l1_okD(2) [OF l1, of segs d] True by (simp add: s')
    qed (use 2 new in \<open>simp add: s'\<close>)
  next
    case (4 key en)
    have "entry_segs en \<in> set (seg_lists G s)" using 4 by (force simp: s' seg_lists_def)
    from old [OF this] have "segs_bytes (Some ?sl) (cc_segments en) = segs_bytes (mt_slab s) (cc_segments en)" by (simp add: entry_segs_bytes)
    then show ?case using 4 l1_okD(4) [OF l1] by (simp add: s')
  qed (use l1_okD [OF l1] in \<open>auto simp: s'\<close>)
  then have "mem_ok K A ((granted e, p) # G) (rdma_write e payload s)" using tr by (simp add: mem_ok_def s')
  then show ?thesis using that [of p] lp g(1) by (simp add: p_def xs_def extent_bytes_def)
qed

lemma extent_source:
  assumes "mem_ok K A ((granted e, d) # G) s"
  shows "wraps64 (tier_memory s)" "load_bytes (tier_addr e s) (ext_len e) (tier_memory s) = d"
proof -
  have l1: "l1_ok K A ((granted e, d) # G) s" using assms by (simp add: mem_ok_def)
  have pins: "pins_ok (mt_slab s) (mt_handles s) (granted e # seg_lists G s)"
    by (rule pins_ok_perm [OF l1_okD(1) [OF l1]]) (simp add: seg_lists_def)
  then have e: "e \<in> set (mt_handles s)" by (auto simp: pins_ok_def dest: mset_subset_eqD)
  obtain sl where sl: "mt_slab s = Some sl" using pins e by (auto simp: pins_ok_def slab_ok_def split: option.splits)
  have inv: "slab_inv sl (set (mt_handles s))" using pins sl by (simp add: pins_ok_def slab_ok_def)
  show "wraps64 (tier_memory s)" by (simp add: tier_memory_def sl wraps64_slab_memory)
  have "extent_bytes sl e = d"
    using l1_okD(2) [OF l1, of "granted e" d] by (simp add: sl segs_bytes_def seg_bytes_def extent_bytes_def)
  then show "load_bytes (tier_addr e s) (ext_len e) (tier_memory s) = d"
    using slab_memory_extent [OF inv e] by (simp add: tier_memory_def tier_addr_def sl)
qed

lemma put_from_extent_ok:
  assumes "mem_ok K A ((granted e, d) # G) s" "key \<in> K" "inj_on (object_digest (se_hash (me_storage M))) K"
    "writes_to key d (mt_storage s)" "ext_len e = sz" "put_from_extent M now ia key e sz meta s = (r, s')"
  obtains st where "s' = s\<lparr> mt_storage := st \<rparr>" "tracks K (if r = Inr True then A(key := {d}) else A) st"
proof -
  note src = extent_source [OF assms(1)]
  have ld: "load_bytes (tier_addr e s) sz (tier_memory s) = d" using src(2) assms(5) by simp
  obtain x st where x: "put_from_ptr_with_options (me_storage M) now (tier_memory s) key (tier_addr e s) sz meta ia (mt_storage s) = (x, st)" by fastforce
  have tr: "tracks K A (mt_storage s)" using assms(1) by (simp add: mem_ok_def)
  have o: "(x \<noteq> Inr True \<and> (x = Inr False \<longrightarrow> ia) \<and> shrinks (mt_storage s) st)
      \<or> (\<exists>t. shrinks (mt_storage s) t \<and> put_outcome key d meta now ia t x st)"
    using put_from_ptr_outcome [OF _ src(1) x] assms(4) unfolding ld by blast
  have s': "s' = s\<lparr> mt_storage := st \<rparr>" and r: "r = (if ia then x else map_sum id (\<lambda>_. True) x)"
    using assms(6) x by (auto simp: put_from_extent_def on_storage_def)
  have nf: "x = Inr False \<Longrightarrow> ia" using o by (auto simp: put_outcome_def)
  then have iff: "r = Inr True \<longleftrightarrow> x = Inr True" using r by (cases x) (auto split: if_splits)
  have "tracks K (if x = Inr True then A(key := {d}) else A) st"
    using o
  proof (elim disjE exE conjE)
    fix t
    assume "shrinks (mt_storage s) t" "put_outcome key d meta now ia t x st"
    then show ?thesis using tracks_put [OF _ tracks_shrinks [OF tr] assms(2,3)] by blast
  qed (use tracks_shrinks [OF tr] in simp)
  then show ?thesis using that [OF s'] iff by simp
qed

lemma finish_put_ok:
  assumes "mem_ok K A ((granted e, d) # G) s" "0 < ext_len e" "ext_len e = unat (pr_size req)"
    "inj_on (object_digest (se_hash (me_storage M))) K"
    "\<And>k. from_string_key (pr_key req) = Inr k \<Longrightarrow> k = key \<and> key \<in> K \<and> pr_key req = to_string_key key \<and> writes_to key d (mt_storage s)"
    "finish_put M now ia req e s = (out, s')"
  shows "mem_ok K (case out of PutAnswered c cached \<Rightarrow> settle key d (c = PUT_RESULT_STORED) cached A | _ \<Rightarrow> A) G s'"
proof (cases "from_string_key (pr_key req)")
  case (Inl err)
  then show ?thesis using assms(6) mem_ok_release [OF assms(1)] by (auto simp: finish_put_def)
next
  case (Inr k)
  note k = assms(5) [OF Inr]
  obtain x s1 where x: "put_from_extent M now ia key e (unat (pr_size req)) (rdma_put_meta now req) s = (x, s1)" by fastforce
  obtain st where st: "s1 = s\<lparr> mt_storage := st \<rparr>" "tracks K (if x = Inr True then A(key := {d}) else A) st"
    by (rule put_from_extent_ok [OF assms(1) _ assms(4) _ assms(3) x]) (use k in auto)
  have l1: "l1_ok K A ((granted e, d) # G) s1" using assms(1) st(1) by (simp add: mem_ok_def)
  show ?thesis
  proof (cases x rule: bool_res_cases)
    case (err er)
    then have "mem_ok K A ((granted e, d) # G) s1" using l1 st by (simp add: mem_ok_def)
    from mem_ok_release [OF this] show ?thesis
      using assms(6) Inr x err k by (auto simp: finish_put_def settle_def)
  next
    case no
    then have "mem_ok K A ((granted e, d) # G) s1" using l1 st by (simp add: mem_ok_def)
    from mem_ok_release [OF this] show ?thesis
      using assms(6) Inr x no k by (auto simp: finish_put_def settle_def)
  next
    case yes
    let ?A = "A(key := {d})" and ?B = "A(key := insert d (A key))"
    obtain y s2 where y: "on_storage (on_meta (mo_get_block (se_mo (me_storage M)) (pr_key req))) s1 = (y, s2)" by fastforce
    obtain st2 where st2: "on_meta (mo_get_block (se_mo (me_storage M)) (pr_key req)) st = (y, st2)" "s2 = s1\<lparr> mt_storage := st2 \<rparr>"
      using y st(1) by (auto simp: on_storage_eq)
    have tr: "tracks K ?A st" using st(2) yes by simp
    note gb = get_block_spec [OF tracks_minv [OF tr] st2(1)]
    have tr2: "tracks K ?A (mt_storage s2)" using tracks_shrinks [OF tr shrinks_same [OF gb(2,1,3)]] st2(2) by simp
    have l2: "l1_ok K A ((granted e, d) # G) s2" using l1 st2(2) by simp
    show ?thesis
    proof (cases "\<exists>m. y = Inr (Some m)")
      case True
      then obtain m where m: "y = Inr (Some m)" by blast
      have "l1_ok (K - {key}) ?A ((granted e, d) # G) s2" by (rule l1_ok_mono [OF l2]) auto
      from insert_chunks_from_slab_ok [OF this tr2 _ assms(2), of m] show ?thesis
        using assms(6) Inr x yes k y m by (auto simp: finish_put_def settle_def)
    next
      case False
      have "mem_ok K ?B ((granted e, d) # G) s2"
        unfolding mem_ok_def by (intro conjI l1_ok_more [OF l2] tracks_mono [OF tr2]) auto
      moreover have "out = PutAnswered PUT_RESULT_STORED False" "s' = drop_handles [e] s2"
        using assms(6) Inr x yes k y False by (auto simp: finish_put_def split: sum.splits option.splits)
      ultimately show ?thesis using mem_ok_release [of K ?B "granted e" d G s2] by (simp add: settle_def)
    qed
  qed
qed

lemma handle_put_ok:
  assumes "mem_ok K A G s" "inj_on (object_digest (se_hash (me_storage M))) K"
    "\<And>k. from_string_key (pr_key req) = Inr k \<Longrightarrow> k = key \<and> key \<in> K \<and> pr_key req = to_string_key key \<and> writes_to key payload (mt_storage s)"
    "commit = Some MSG_PUT_COMMIT \<Longrightarrow> length payload = unat (pr_size req)"
    "handle_put M now nic ia req payload commit s = ((ready, out), s')"
  shows "mem_ok K (case out of PutAnswered c cached \<Rightarrow> settle key payload (c = PUT_RESULT_STORED) cached A | _ \<Rightarrow> A) G s'"
proof -
  let ?sz = "unat (pr_size req)"
  show ?thesis
  proof (cases "?sz = 0 \<or> ?sz > 4 * 1024 * 1024 * 1024")
    case True
    then show ?thesis using assms(1,5) by (simp add: handle_put_def Let_def)
  next
    case False
    obtain x s1 where x: "alloc_with_eviction M ?sz s = (x, s1)" by fastforce
    have "?sz + SLAB_ALIGN \<le> 2 ^ 64" using False by (simp add: SLAB_ALIGN_def)
    note a = alloc_with_eviction_ok [OF assms(1) this x]
    show ?thesis
    proof (cases x)
      case None
      then show ?thesis using assms(5) x a False by (auto simp: handle_put_def Let_def)
    next
      case (Some e)
      let ?s2 = "rdma_write e payload s1"
      have gr: "grant_ok K A G ?sz e s1" using a Some by simp
      then have len: "ext_len e = ?sz" "0 < ext_len e" by (auto simp: grant_ok_def)
      obtain d where d: "mem_ok K A ((granted e, d) # G) ?s2" "length payload = ?sz \<Longrightarrow> d = payload" using rdma_write_ok [OF gr, of payload] by metis
      have st: "mt_storage ?s2 = mt_storage s" using a by (simp add: rdma_write_def)
      show ?thesis
      proof (cases "commit = Some MSG_PUT_COMMIT")
        case True
        then have dp: "d = payload" using d(2) assms(4) by simp
        have "finish_put M now ia req e ?s2 = (out, s')"
          using assms(5) x False Some True by (auto simp: handle_put_def Let_def split: prod.splits)
        from finish_put_ok [OF d(1) len(2,1) assms(2) _ this, of key] show ?thesis
          using assms(3) st dp by auto
      next
        case no: False
        have "s' = drop_handles [e] ?s2 \<and> (\<exists>msg. out = PutAborted msg)"
          using assms(5) x False Some no by (cases commit) (auto simp: handle_put_def Let_def)
        then show ?thesis using mem_ok_release [OF d(1)] by auto
      qed
    qed
  qed
qed

end

end
