(* ===== verification/Memory_Props.thy ===== *)
theory Memory_Props
  imports Rdma_Server Storage_Props
begin

text \<open>
  The memory tier over the storage stack, as its callers see it.  A \<open>history\<close> is any sequence of
  operations from a fresh start, each with whatever outcome the system calls below allow; it records
  the successful writes and removals, the answers given, and the segment lists that readers still
  hold.  The properties say that the answers are right and that what a reader holds stays intact.
\<close>

section \<open>The stack\<close>

definition lru_sound :: "('c, 'e) lru_ops \<Rightarrow> bool" where
  "lru_sound ops \<longleftrightarrow> (\<exists>ents limit. lru_cache ops ents limit)"

text \<open>
  The stack below the tier: the thread-pool executor and any metadata service that keeps the contract
  \<open>block_store\<close>, whose operations may fail.  \<open>view\<close> and \<open>minv\<close> are its abstraction and its invariant.
\<close>

definition tier_ok ::
  "(world, 'm, 'c, 'd) MemoryEnv \<Rightarrow> ('m \<Rightarrow> meta_view) \<Rightarrow> ('m \<Rightarrow> bool) \<Rightarrow> task_ids \<Rightarrow> bool" where
  "tier_ok M view minv tid \<longleftrightarrow> se_io (me_storage M) = tier_a_ops \<and> block_store (se_mo (me_storage M)) view minv tid
     \<and> router_ok (se_router (me_storage M)) \<and> hex_digest (se_hash (me_storage M)) \<and> 0 < se_striping_chunk_size (me_storage M)
     \<and> (\<forall>segs. se_hash64_stream (me_storage M) segs = hash64 (se_hash (me_storage M)) (concat segs))
     \<and> lru_sound (me_cache M) \<and> lru_sound (me_chunks M) \<and> me_capacity_bytes M + SLAB_ALIGN \<le> 2 ^ 64"

locale memory_stack = memory_system M w_files calm view minv tid cents climit dents dlimit
  for M :: "(world, 'm, 'c, 'd) MemoryEnv" and view :: "'m \<Rightarrow> meta_view" and minv :: "'m \<Rightarrow> bool" and tid :: task_ids
    and cents :: "'c \<Rightarrow> (string \<times> CacheEntry) list" and climit :: "'c \<Rightarrow> nat"
    and dents :: "'d \<Rightarrow> (string \<times> ChunksCacheEntry) list" and dlimit :: "'d \<Rightarrow> nat"

lemma tier_system:
  assumes "tier_ok M view minv tid"
  shows "storage_system (me_storage M) w_files calm view minv tid"
  using assms tier_a.io_executor_axioms by (simp add: tier_ok_def storage_system_def storage_system_axioms_def)

lemma tier_stack:
  assumes "tier_ok M view minv tid"
  obtains cents climit dents dlimit where "memory_stack M view minv tid cents climit dents dlimit"
  using assms tier_system [OF assms]
  unfolding tier_ok_def lru_sound_def memory_stack_def memory_system_def memory_system_axioms_def by blast

text \<open>A stack whose metadata service answers as long as it is \<open>up\<close>.\<close>

locale live_memory = memory_stack M view minv tid cents climit dents dlimit + up: live_store "se_mo (me_storage M)" view minv tid up
  for M :: "(world, 'm, 'c, 'd) MemoryEnv" and view :: "'m \<Rightarrow> meta_view" and minv :: "'m \<Rightarrow> bool" and tid :: task_ids
    and cents :: "'c \<Rightarrow> (string \<times> CacheEntry) list" and climit :: "'c \<Rightarrow> nat"
    and dents :: "'d \<Rightarrow> (string \<times> ChunksCacheEntry) list" and dlimit :: "'d \<Rightarrow> nat" and up :: "'m \<Rightarrow> bool"

sublocale live_memory \<subseteq> live: live_storage "me_storage M" w_files calm view minv tid up ..


section \<open>Histories\<close>

datatype event =
    Stored ObjectKey bytes
  | Unsettled ObjectKey bytes
  | Removed ObjectKey
  | Answered ObjectKey int bytes BlockMeta
  | Peeked ObjectKey bytes BlockMeta


fun readable :: "event list \<Rightarrow> ObjectKey \<Rightarrow> bytes set" where
  "readable [] = (\<lambda>_. {})"
| "readable (Stored key d # es) = (readable es)(key := {d})"
| "readable (Unsettled key d # es) = (readable es)(key := insert d (readable es key))"
| "readable (Removed key # es) = (readable es)(key := {})"
| "readable (_ # es) = readable es"



definition answer :: "ObjectKey \<Rightarrow> int \<Rightarrow> get_result \<Rightarrow> event list" where
  "answer key now r = (case r of Inr (Some (d, m)) \<Rightarrow> [Answered key now d m] | _ \<Rightarrow> [])"

text \<open>A write: whether the storage tier stored the object, and whether the caller was told so.\<close>

definition write_event :: "ObjectKey \<Rightarrow> bytes \<Rightarrow> bool \<Rightarrow> bool \<Rightarrow> event list" where
  "write_event key d kept ok = (if \<not> kept then [] else if ok then [Stored key d] else [Unsettled key d])"

fun batch_events :: "((ObjectKey \<times> bytes \<times> BlockMeta) \<times> unit res) list \<Rightarrow> event list" where
  "batch_events [] = []"
| "batch_events (((key, data, _), r) # rest) = batch_events rest @ write_event key data (r = Inr ()) (r = Inr ())"

definition put_events :: "ObjectKey \<Rightarrow> bytes \<Rightarrow> put_end \<Rightarrow> event list" where
  "put_events key d out =
     (case out of PutAnswered result_code cached \<Rightarrow> write_event key d (result_code = PUT_RESULT_STORED) cached | _ \<Rightarrow> [])"

type_synonym held = "(segment list \<times> bytes) list"

definition seg_answer :: "ObjectKey \<Rightarrow> int \<Rightarrow> RdmaSlab option \<Rightarrow> (segment list \<times> BlockMeta) option res \<Rightarrow> event list" where
  "seg_answer key now slab r =
     (case r of Inr (Some (segs, m)) \<Rightarrow> [Answered key now (segs_bytes slab segs) m] | _ \<Rightarrow> [])"

definition seg_held :: "RdmaSlab option \<Rightarrow> (segment list \<times> BlockMeta) option res \<Rightarrow> held" where
  "seg_held slab r = (case r of Inr (Some (segs, m)) \<Rightarrow> [(segs, segs_bytes slab segs)] | _ \<Rightarrow> [])"

definition pin_segs :: "SlabPlacement \<Rightarrow> segment list" where
  "pin_segs p = [View (sp_pin p) 0 (ext_len (sp_pin p))]"

definition fresh_storage :: "('m \<Rightarrow> meta_view) \<Rightarrow> ('m \<Rightarrow> bool) \<Rightarrow> (world, 'm) StorageTier \<Rightarrow> bool" where
  "fresh_storage view minv st \<longleftrightarrow> minv (st_meta st) \<and> mv_blocks (view (st_meta st)) = Map.empty"

text \<open>Room for a write: a Rust allocation, whole chunks in a \<open>u64\<close>, a generation left.\<close>

definition write_room :: "(world, 'm) StorageEnv \<Rightarrow> ('m \<Rightarrow> meta_view) \<Rightarrow> ObjectKey \<Rightarrow> bytes \<Rightarrow> (world, 'm) StorageTier \<Rightarrow> bool" where
  "write_room E view key data st \<longleftrightarrow> gen_room (to_string_key key) (view (st_meta st))
     \<and> fits_isize data \<and> length data + se_striping_chunk_size E < 2 ^ 64"

fun batch_room ::
  "(world, 'm) StorageEnv \<Rightarrow> ('m \<Rightarrow> meta_view) \<Rightarrow> int \<Rightarrow> (ObjectKey \<times> bytes \<times> BlockMeta) list \<Rightarrow> (world, 'm) StorageTier \<Rightarrow> bool" where
  "batch_room E view now [] st = True"
| "batch_room E view now ((key, data, meta) # items) st =
     (write_room E view key data st \<and> batch_room E view now items (snd (storage_put E now key data meta st)))"

text \<open>
  \<open>K\<close> is the set of keys in use.  A reader that is done with a segment list drops its handles
  (\<open>release\<close>).
\<close>

inductive history ::
  "(world, 'm, 'c, 'd) MemoryEnv \<Rightarrow> ('m \<Rightarrow> meta_view) \<Rightarrow> ('m \<Rightarrow> bool) \<Rightarrow> ObjectKey set \<Rightarrow> event list \<Rightarrow> held
     \<Rightarrow> (world, 'm, 'c, 'd) MemoryTier \<Rightarrow> bool" for M view minv K where
  start: "fresh_storage view minv st \<Longrightarrow> history M view minv K [] [] (memory_new_state M st)"
| slab: "history M view minv K tr G s \<Longrightarrow> slab_inv sl {} \<Longrightarrow> set_rdma_slab sl s = (r, s') \<Longrightarrow> history M view minv K tr G s'"
| put: "history M view minv K tr G s \<Longrightarrow> key \<in> K \<Longrightarrow> write_room (me_storage M) view key data (mt_storage s) \<Longrightarrow>
    memory_put M now key data meta s = (r, s') \<Longrightarrow> history M view minv K (write_event key data (fst (storage_put (me_storage M) now key data meta (mt_storage s)) = Inr ()) (r = Inr ()) @ tr) G s'"
| put_if_absent: "history M view minv K tr G s \<Longrightarrow> key \<in> K \<Longrightarrow> write_room (me_storage M) view key data (mt_storage s) \<Longrightarrow>
    memory_put_if_absent M now key data meta s = (b, s') \<Longrightarrow> history M view minv K (write_event key data (fst (storage_put_if_absent (me_storage M) now key data meta (mt_storage s)) = Inr True) (b = Inr True) @ tr) G s'"
| put_chunks: "history M view minv K tr G s \<Longrightarrow> key \<in> K \<Longrightarrow> write_room (me_storage M) view key (concat segs) (mt_storage s) \<Longrightarrow>
    memory_put_chunks M now key segs meta s = (r, s') \<Longrightarrow> history M view minv K (write_event key (concat segs) (fst (storage_put_chunks (me_storage M) now key segs meta (mt_storage s)) = Inr ()) (r = Inr ()) @ tr) G s'"
| put_chunks_if_absent: "history M view minv K tr G s \<Longrightarrow> key \<in> K \<Longrightarrow>
    write_room (me_storage M) view key (concat segs) (mt_storage s) \<Longrightarrow>
    memory_put_chunks_if_absent M now key segs meta s = (b, s') \<Longrightarrow>
    history M view minv K (write_event key (concat segs) (fst (storage_put_chunks_if_absent (me_storage M) now key segs meta (mt_storage s)) = Inr True) (b = Inr True) @ tr) G s'"
| put_batch: "history M view minv K tr G s \<Longrightarrow> fst ` set items \<subseteq> K \<Longrightarrow> distinct (map fst items) \<Longrightarrow>
    batch_room (me_storage M) view now items (mt_storage s) \<Longrightarrow>
    memory_put_batch M now items s = (rs, s') \<Longrightarrow> history M view minv K (batch_events (zip items rs) @ tr) G s'"
| rdma_put: "history M view minv K tr G s \<Longrightarrow>
    (\<And>k. from_string_key (pr_key req) = Inr k \<Longrightarrow> k = key \<and> key \<in> K \<and> pr_key req = to_string_key key
       \<and> write_room (me_storage M) view key payload (mt_storage s)) \<Longrightarrow>
    (commit = Some MSG_PUT_COMMIT \<Longrightarrow> length payload = unat (pr_size req)) \<Longrightarrow>
    handle_put M now nic if_not_exists req payload commit s = ((ready, out), s') \<Longrightarrow>
    history M view minv K (put_events key payload out @ tr) G s'"
| delete: "history M view minv K tr G s \<Longrightarrow> memory_delete M now key s = (b, s') \<Longrightarrow>
    history M view minv K ((if is_ok b then [Removed key] else []) @ tr) G s'"
| get: "history M view minv K tr G s \<Longrightarrow> key \<in> K \<Longrightarrow> memory_get M now key s = (a, s') \<Longrightarrow>
    history M view minv K (answer key now a @ tr) G s'"
| get_with_meta: "history M view minv K tr G s \<Longrightarrow> key \<in> K \<Longrightarrow>
    mv_blocks (view (st_meta (mt_storage s))) (to_string_key key) = Some expected \<Longrightarrow>
    memory_get_with_meta M now key expected s = (a, s') \<Longrightarrow> history M view minv K (answer key now a @ tr) G s'"
| get_batch: "history M view minv K tr G s \<Longrightarrow> set keys \<subseteq> K \<Longrightarrow> memory_get_batch M now keys s = (as, s') \<Longrightarrow>
    history M view minv K (concat (map2 (\<lambda>key. answer key now) keys as) @ tr) G s'"
| get_chunks: "history M view minv K tr G s \<Longrightarrow> key \<in> K \<Longrightarrow> memory_get_chunks M now key s = (c, s') \<Longrightarrow>
    history M view minv K (seg_answer key now (mt_slab s') c @ tr) (seg_held (mt_slab s') c @ G) s'"
| get_chunks_with_meta: "history M view minv K tr G s \<Longrightarrow> key \<in> K \<Longrightarrow>
    mv_blocks (view (st_meta (mt_storage s))) (to_string_key key) = Some expected \<Longrightarrow>
    memory_get_chunks_with_meta M now key expected s = (c, s') \<Longrightarrow>
    history M view minv K (seg_answer key now (mt_slab s') c @ tr) (seg_held (mt_slab s') c @ G) s'"
| peek_chunks: "history M view minv K tr G s \<Longrightarrow> key \<in> K \<Longrightarrow> memory_peek_chunks M key s = (Some (segs, m), s') \<Longrightarrow>
    history M view minv K (Peeked key (segs_bytes (mt_slab s') segs) m # tr) ((segs, segs_bytes (mt_slab s') segs) # G) s'"
| peek_none: "history M view minv K tr G s \<Longrightarrow> key \<in> K \<Longrightarrow> memory_peek_chunks M key s = (None, s') \<Longrightarrow> history M view minv K tr G s'"
| pin: "history M view minv K tr G s \<Longrightarrow> key \<in> K \<Longrightarrow> get_chunks_slab M now key nic s = (Some p, s') \<Longrightarrow>
    history M view minv K (Answered key now (segs_bytes (mt_slab s') (pin_segs p)) (sp_meta p) # tr)
      ((pin_segs p, segs_bytes (mt_slab s') (pin_segs p)) # G) s'"
| pin_none: "history M view minv K tr G s \<Longrightarrow> key \<in> K \<Longrightarrow> get_chunks_slab M now key nic s = (None, s') \<Longrightarrow> history M view minv K tr G s'"
| probe: "history M view minv K tr G s \<Longrightarrow> key \<in> K \<Longrightarrow> memory_exists M now key s = (b, s') \<Longrightarrow> history M view minv K tr G s'"
| invalidate: "history M view minv K tr G s \<Longrightarrow> history M view minv K tr G (memory_invalidate M key s)"
| evict: "history M view minv K tr G s \<Longrightarrow> history M view minv K tr G (evict_chunks_cache_to_free M need s)"
| release: "history M view minv K tr (G1 @ (segs, d) # G2) s \<Longrightarrow> history M view minv K tr (G1 @ G2) (drop_handles (seg_handles segs) s)"

text \<open>What a sound history is: every answer has bytes readable at that point.\<close>

fun sound :: "event list \<Rightarrow> bool" where
  "sound [] = True"
| "sound (Answered key now d m # es) = (d \<in> readable es key \<and> \<not> is_expired_at m now \<and> sound es)"
| "sound (Peeked key d m # es) = (d \<in> readable es key \<and> sound es)"
| "sound (_ # es) = sound es"


lemma readable_write_event [simp]:
  "readable (write_event key d kept ok @ es) = settle key d kept ok (readable es)"
  "sound (write_event key d kept ok @ es) = sound es"
  by (simp_all add: write_event_def settle_def)

lemma readable_put_events [simp]:
  "readable (put_events key d out @ es) =
     (case out of PutAnswered c cached \<Rightarrow> settle key d (c = PUT_RESULT_STORED) cached (readable es) | _ \<Rightarrow> readable es)"
  "sound (put_events key d out @ es) = sound es"
  by (cases out; simp add: put_events_def)+

lemma readable_answer [simp]: "readable (answer key now r @ es) = readable es"
  by (simp add: answer_def split: sum.split option.split prod.split)

lemma readable_seg_answer [simp]: "readable (seg_answer key now slab r @ es) = readable es"
  by (simp add: seg_answer_def split: sum.split option.split prod.split)

lemma readable_answers [simp]: "readable (concat (map2 (\<lambda>key. answer key now) keys as) @ es) = readable es"
  by (induction keys as rule: list_induct2') simp_all

lemma readable_batch: "readable (batch_events jobs @ es) = batch_after jobs (readable es)"
proof (induction jobs arbitrary: es rule: batch_events.induct)
  case (2 key data meta r rest)
  then show ?case by (cases "r = Inr ()") (simp_all add: settle_def fun_upd_def)
qed simp

lemma sound_batch: "sound (batch_events jobs @ es) = sound es"
  by (induction jobs arbitrary: es rule: batch_events.induct) simp_all

context memory_stack
begin

lemma mem_ok_perm:
  assumes "mem_ok K A G s" "mset G = mset G'"
  shows "mem_ok K A G' s"
proof -
  have l1: "l1_ok K A G s" using assms(1) by (simp add: mem_ok_def)
  have "mset (seg_lists G' s) \<subseteq># mset (seg_lists G s)"
    using assms(2) by (simp add: seg_lists_def)
  from pins_ok_perm [OF l1_okD(1) [OF l1] this] have "pins_ok (mt_slab s) (mt_handles s) (seg_lists G' s)" .
  moreover have "set G' = set G" using assms(2) by (metis set_mset_mset)
  ultimately have "l1_ok K A G' s" by (intro l1_okI) (use l1_okD [OF l1] in auto)
  then show ?thesis using assms(1) by (simp add: mem_ok_def)
qed

lemma mem_ok_start:
  assumes "fresh_storage view minv st"
  shows "mem_ok K (\<lambda>_. {}) [] (memory_new_state M st)"
proof -
  have "tracks K (\<lambda>_. {}) st" using assms by (simp add: fresh_storage_def tracks_def owned_def)
  moreover have "l1_ok K (\<lambda>_. {}) [] (memory_new_state M st)"
    by (rule l1_okI) (simp_all add: memory_new_state_def seg_lists_def cl.new_law dl.new_law pins_ok_def slab_ok_def)
  ultimately show ?thesis by (simp add: mem_ok_def memory_new_state_def)
qed

lemma writes_toI: "mem_ok K A G s \<Longrightarrow> write_room (me_storage M) view key data (mt_storage s) \<Longrightarrow> writes_to key data (mt_storage s)"
  by (auto simp: mem_ok_def write_room_def writes_to_def dest: tracks_minv)

lemma batch_writesI:
  assumes "minv (st_meta st)" "batch_room (me_storage M) view now items st"
  shows "batch_writes now items st"
  using assms
proof (induction items arbitrary: st)
  case (Cons it items)
  obtain key data meta where it: "it = (key, data, meta)" by (cases it)
  obtain r st1 where r: "storage_put (me_storage M) now key data meta st = (r, st1)" by fastforce
  have w: "writes_to key data st" using Cons.prems it by (simp add: write_room_def writes_to_def)
  have "minv (st_meta st1)" using storage_put_outcome [OF w r] unfolding put_outcome_def by blast
  then show ?case using Cons it r w by simp
qed simp

lemma sound_answer: "sound es \<Longrightarrow> data_ok (readable es) now key a \<Longrightarrow> sound (answer key now a @ es)"
  by (auto simp: answer_def data_ok_def split: sum.split option.split)

lemma sound_answers:
  assumes "sound es" "length as = length keys" "\<forall>i < length keys. data_ok (readable es) now (keys ! i) (as ! i)"
  shows "sound (concat (map2 (\<lambda>key. answer key now) keys as) @ es)"
  using assms(2,1,3)
proof (induction as keys rule: list_induct2)
  case (Cons a as key keys)
  have "data_ok (readable es) now key a" using Cons.prems(2) by fastforce
  moreover have "\<forall>i < length keys. data_ok (readable es) now (keys ! i) (as ! i)" using Cons.prems(2) by fastforce
  ultimately show ?case
    using Cons.IH Cons.prems(1) sound_answer [of "concat (map2 (\<lambda>key. answer key now) keys as) @ es" now key a] by simp
qed simp

lemma mem_ok_views: "mem_ok K A ((segs, d) # G) s \<Longrightarrow> segs_bytes (mt_slab s) segs = d"
  by (rule l1_okD(2)) (auto simp: mem_ok_def)

lemma segs_history:
  assumes "segs_ok K (readable tr) G now key c s'" "sound tr"
  shows "mem_ok K (readable (seg_answer key now (mt_slab s') c @ tr)) (seg_held (mt_slab s') c @ G) s'
    \<and> sound (seg_answer key now (mt_slab s') c @ tr)"
proof (cases c rule: read_result_cases)
  case (some segs m)
  then obtain d where "d \<in> readable tr key" "mem_ok K (readable tr) ((segs, d) # G) s'" "\<not> is_expired_at m now"
    using assms(1) by (auto simp: segs_ok_def)
  then show ?thesis using some assms(2) mem_ok_views by (fastforce simp: seg_answer_def seg_held_def)
qed (use assms in \<open>simp_all add: segs_ok_def seg_answer_def seg_held_def\<close>)

lemma history_ok:
  assumes "history M view minv K tr G s" "inj_on (object_digest (se_hash (me_storage M))) K"
  shows "mem_ok K (readable tr) G s \<and> sound tr"
  using assms(1)
proof induction
  case (start st)
  then show ?case by (simp add: mem_ok_start)
next
  case (slab tr G s sl r s')
  then show ?case
    using set_rdma_slab_ok(2) [of K "readable tr" G s sl r s'] by (cases "mt_slab s") (auto simp: set_rdma_slab_def)
next
  case (put tr G s key data now meta r s')
  note ok = conjunct1 [OF put.IH]
  show ?case
    using memory_put_ok [OF ok put.hyps(2) assms(2) writes_toI [OF ok put.hyps(3)] put.hyps(4)] put.IH by simp
next
  case (put_if_absent tr G s key data now meta b s')
  note ok = conjunct1 [OF put_if_absent.IH]
  show ?case
    using memory_put_if_absent_ok [OF ok put_if_absent.hyps(2) assms(2) writes_toI [OF ok put_if_absent.hyps(3)] put_if_absent.hyps(4)] put_if_absent.IH by simp
next
  case (put_chunks tr G s key segs now meta r s')
  note ok = conjunct1 [OF put_chunks.IH]
  show ?case
    using memory_put_chunks_ok [OF ok put_chunks.hyps(2) assms(2) writes_toI [OF ok put_chunks.hyps(3)] put_chunks.hyps(4)] put_chunks.IH by simp
next
  case (put_chunks_if_absent tr G s key segs now meta b s')
  note ok = conjunct1 [OF put_chunks_if_absent.IH]
  show ?case
    using memory_put_chunks_if_absent_ok [OF ok put_chunks_if_absent.hyps(2) assms(2) writes_toI [OF ok put_chunks_if_absent.hyps(3)] put_chunks_if_absent.hyps(4)] put_chunks_if_absent.IH by simp
next
  case (put_batch tr G s items now rs s')
  have "minv (st_meta (mt_storage s))" using put_batch.IH tracks_minv by (auto simp: mem_ok_def)
  from memory_put_batch_ok [OF _ put_batch.hyps(2,3) assms(2) batch_writesI [OF this put_batch.hyps(4)] put_batch.hyps(5)]
  show ?case using put_batch.IH by (simp add: readable_batch sound_batch)
next
  case (rdma_put tr G s req key payload commit now nic if_not_exists ready out s')
  note ok = conjunct1 [OF rdma_put.IH]
  have w: "k = key \<and> key \<in> K \<and> pr_key req = to_string_key key \<and> writes_to key payload (mt_storage s)"
    if "from_string_key (pr_key req) = Inr k" for k
    using rdma_put.hyps(2) [OF that] writes_toI [OF ok] by blast
  show ?case using handle_put_ok [OF ok assms(2) w rdma_put.hyps(3,4)] rdma_put.IH by simp
next
  case (delete tr G s now key b s')
  then show ?case using memory_delete_ok [of K "readable tr" G s now key b s'] by (auto simp del: fun_upd_apply)
next
  case (get tr G s key now a s')
  then show ?case using memory_get_ok sound_answer by simp blast
next
  case (get_with_meta tr G s key expected now a s')
  then show ?case using memory_get_with_meta_ok sound_answer by simp blast
next
  case (get_batch tr G s keys now as s')
  then show ?case using memory_get_batch_ok [OF conjunct1 [OF get_batch.IH] get_batch.hyps(2,3)] sound_answers by simp
next
  case (get_chunks tr G s key now c s')
  then show ?case using segs_history memory_get_chunks_ok by blast
next
  case (get_chunks_with_meta tr G s key expected now c s')
  then show ?case using segs_history memory_get_chunks_with_meta_ok by blast
next
  case (peek_chunks tr G s key segs m s')
  then obtain d where "d \<in> readable tr key" "mem_ok K (readable tr) ((segs, d) # G) s'"
    using peek_chunks_ok [OF _ peek_chunks.hyps(2,3)] by auto
  then show ?case using peek_chunks.IH mem_ok_views by fastforce
next
  case (peek_none tr G s key s')
  then show ?case using peek_chunks_ok [OF _ peek_none.hyps(2,3)] by simp
next
  case (pin tr G s key now nic p s')
  then obtain sl where sl: "mt_slab s' = Some sl" "\<not> is_expired_at (sp_meta p) now" "extent_bytes sl (sp_pin p) \<in> readable tr key"
    "mem_ok K (readable tr) ((pin_segs p, extent_bytes sl (sp_pin p)) # G) s'"
    using get_chunks_slab_ok [OF _ pin.hyps(2,3)] by (auto simp: pin_segs_def)
  then show ?case using pin.IH mem_ok_views by fastforce
next
  case (pin_none tr G s key now nic s')
  then show ?case using get_chunks_slab_ok [OF _ pin_none.hyps(2,3)] by simp
next
  case (probe tr G s key now b s')
  then show ?case using memory_exists_ok by blast
next
  case (invalidate tr G s key)
  then show ?case using mem_ok_invalidate by (simp add: memory_invalidate_def)
next
  case (evict tr G s need)
  then show ?case using evict_chunks_cache_to_free_ok by blast
next
  case (release tr G1 segs d G2 s)
  then have "mem_ok K (readable tr) ((segs, d) # G1 @ G2) s" using mem_ok_perm by fastforce
  then show ?case using mem_ok_release release.IH by blast
qed

text \<open>What a write leaves in the single-buffer cache: its own entry, or, over the budget, none.\<close>

lemma invalidate_gone:
  "map_of (cents (mt_cache (invalidate_l1_entry M k s))) k = None"
proof -
  obtain r c where c: "lru_pop (me_cache M) k (mt_cache s) = (r, c)" by fastforce
  obtain r2 d where d: "lru_pop (me_chunks M) k (mt_chunks s) = (r2, d)" by fastforce
  have keep: "mt_cache (drop_handles es t) = mt_cache t" for es t
    unfolding drop_handles_def by (induction es arbitrary: t) (simp_all add: drop_handle_def Let_def)
  show ?thesis
    using cl.pop_law [OF c] c d
    by (simp add: invalidate_l1_entry_def Let_def keep drop_entries_def map_of_without)
qed

lemma cache_insert_entry:
  assumes "map_of (cents (mt_cache s)) k = None"
  shows "map_of (cents (mt_cache (cache_insert M k data m s))) k = (if me_capacity_bytes M < length data then None else Some \<lparr> ce_data = data, ce_meta = m \<rparr>)"
proof -
  let ?s1 = "invalidate_l1_entry M k s"
  let ?s2 = "evict_cache M (length data) (lru_len (me_cache M) (mt_cache ?s1)) ?s1"
  obtain old dr c where c: "lru_put (me_cache M) k \<lparr> ce_data = data, ce_meta = m \<rparr> (mt_cache ?s2) = ((old, dr), c)"
    using surj_pair [of "lru_put (me_cache M) k \<lparr> ce_data = data, ce_meta = m \<rparr> (mt_cache ?s2)"] by fastforce
  have "map_of (cents c) k = Some \<lparr> ce_data = data, ce_meta = m \<rparr>" using cl.put_law [OF c] by (auto split: if_splits)
  then show ?thesis using assms c by (simp add: cache_insert_def Let_def)
qed

text \<open>A multi-segment write leaves its segments in the other cache, slab-backed where the slab has room.\<close>

lemma drop_handles_keep:
  "mt_chunks (drop_handles es t) = mt_chunks t" "mt_storage (drop_handles es t) = mt_storage t"
  unfolding drop_handles_def by (induction es arbitrary: t) (simp_all add: drop_handle_def Let_def)

lemma chunks_put_entry: "map_of (dents (mt_chunks (chunks_put M k en s))) k = Some en"
proof -
  obtain old dr d where d: "lru_put (me_chunks M) k en (mt_chunks s) = ((old, dr), d)"
    using surj_pair [of "lru_put (me_chunks M) k en (mt_chunks s)"] by fastforce
  show ?thesis using dl.put_law [OF d] d by (auto simp: chunks_put_def Let_def drop_entries_def drop_handles_keep split: if_splits)
qed

lemma chunks_insert_entry:
  assumes "tot \<le> me_capacity_bytes M" "maybe_slab_backed segs tot (invalidate_l1_entry M k s) = ((views, slab), s2)"
  shows "map_of (dents (mt_chunks (chunks_cache_insert M k segs m tot s))) k =
    Some \<lparr> cc_segments = views, cc_meta = m, cc_total_size = tot, cc_slab = slab \<rparr>"
  using assms by (simp add: chunks_cache_insert_def Let_def chunks_put_entry)

end

context live_memory
begin

lemma get_block_live:
  assumes "live.healthy st"
  obtains st1 where "on_meta (mo_get_block (se_mo (me_storage M)) k) st = (Inr (blocks st k), st1)" "live.healthy st1" "mview st1 = mview st"
proof -
  obtain x st1 where x: "on_meta (mo_get_block (se_mo (me_storage M)) k) st = (x, st1)" by fastforce
  have mi: "minv (st_meta st)" "up (st_meta st)" using assms by (simp_all add: live.healthy_def)
  note g = get_block_spec [OF mi(1) x]
  have "is_ok x" "up (st_meta st1)" using up.get_up [OF mi(2,1), of k] x by (auto simp: on_meta_eq)
  then obtain b where "x = Inr b" by (cases x) auto
  then show ?thesis using that x g assms \<open>up (st_meta st1)\<close> by (auto simp: live.healthy_def)
qed

lemma memory_put_live:
  assumes "mem_ok K A G s" "key \<in> K" "inj_on (object_digest (se_hash (me_storage M))) K"
    "write_room (me_storage M) view key data (mt_storage s)" "calm (st_exec (mt_storage s))"
    "up (st_meta (mt_storage s))"
  obtains s' m where "memory_put M now key data meta s = (Inr (), s')" "live.healthy (mt_storage s')"
    "fst (storage_put (me_storage M) now key data meta (mt_storage s)) = Inr ()"
    "mem_ok K (A(key := {data})) G s'" "blocks (mt_storage s') (to_string_key key) = Some m"
    "created_at m = created_at meta" "ttl_seconds m = ttl_seconds meta"
    "\<And>en. map_of (cents (mt_cache s')) (to_string_key key) = Some en \<Longrightarrow> ce_meta en = m"
proof -
  let ?k = "to_string_key key"
  note w = writes_toI [OF assms(1,4)]
  have mi: "minv (st_meta (mt_storage s))" using w by (simp add: writes_to_def)
  have "live.healthy (mt_storage s)" using assms(5,6) mi by (simp add: live.healthy_def)
  then obtain st where st: "storage_put (me_storage M) now key data meta (mt_storage s) = (Inr (), st)" "live.healthy st"
    using live.storage_put_live [of "mt_storage s" key now data meta] assms(4) by (auto simp: write_room_def)
  obtain b where b: "put_outcome key data meta now False (mt_storage s) b st" "b = Inr True"
    using storage_put_outcome [OF w st(1)] by auto
  then obtain m where m: "blocks st ?k = Some m" "created_at m = created_at meta" "ttl_seconds m = ttl_seconds meta"
    unfolding put_outcome_def by (metis fun_upd_same)
  obtain st1 where blk: "on_meta (mo_get_block (se_mo (me_storage M)) ?k) st = (Inr (Some m), st1)" "live.healthy st1" "mview st1 = mview st"
    using get_block_live [OF st(2), of ?k] m(1) by metis
  let ?s1 = "s\<lparr> mt_storage := st1 \<rparr>"
  let ?s' = "cache_insert M ?k data m (invalidate_l1_entry M ?k ?s1)"
  have put: "memory_put M now key data meta s = (Inr (), ?s')"
    using st(1) blk(1) by (simp add: memory_put_def Let_def on_storage_def stored_meta_def io_step_def)
  have ok: "mem_ok K (A(key := {data})) G ?s'" using memory_put_ok [OF assms(1-3) w put] st(1) by (simp add: settle_def)
  have l1: "l1_ok (K - {key}) (A(key := {data})) G ?s1"
    by (rule l1_ok_mono [of K A]) (use assms(1) in \<open>auto simp: mem_ok_def\<close>)
  have "mt_storage ?s' = st1" using cache_insert_ok(2) [OF invalidate_ok(1) [OF l1]] invalidate_ok(2) [OF l1] by simp
  moreover have "ce_meta en = m" if "map_of (cents (mt_cache ?s')) ?k = Some en" for en
    using that cache_insert_entry [OF invalidate_gone] by (auto split: if_splits)
  ultimately show ?thesis using that [OF put _ _ ok] st(1) blk(2,3) m by simp
qed

lemma memory_put_chunks_live:
  assumes "mem_ok K A G s" "write_room (me_storage M) view key (concat segs) (mt_storage s)" "calm (st_exec (mt_storage s))"
    "up (st_meta (mt_storage s))"
  obtains st m where "memory_put_chunks M now key segs meta s =
    (Inr (), chunks_cache_insert M (to_string_key key) segs m (length (concat segs))
       (invalidate_l1_entry M (to_string_key key) (s\<lparr> mt_storage := st \<rparr>)))"
    "fst (storage_put_chunks (me_storage M) now key segs meta (mt_storage s)) = Inr ()"
proof -
  have "live.healthy (mt_storage s)"
    using assms(3,4) writes_toI [OF assms(1,2)] by (simp add: live.healthy_def writes_to_def)
  then obtain st where st: "storage_put_chunks (me_storage M) now key segs meta (mt_storage s) = (Inr (), st)" "live.healthy st"
    using live.storage_put_live [of "mt_storage s" key now "concat segs" meta]
      live.put_striped_chunks_live [of "mt_storage s" key now segs "length (concat segs)" meta] assms(2)
    by (cases "should_stripe (me_storage M) (length (concat segs))") (auto simp: write_room_def storage_put_chunks_def io_step_ok)
  obtain b st1 where blk: "on_meta (mo_get_block (se_mo (me_storage M)) (to_string_key key)) st = (Inr b, st1)"
    using get_block_live [OF st(2)] by metis
  show ?thesis
    by (rule that [of "case b of None \<Rightarrow> meta | Some m \<Rightarrow> m" st1])
      (use st(1) blk in \<open>simp_all add: memory_put_chunks_def Let_def on_storage_def stored_meta_def io_step_def split: option.split\<close>)
qed

lemma memory_get_live:
  assumes "mem_ok K A G s" "key \<in> K" "A key = {data}" "live.healthy (mt_storage s)"
    "blocks (mt_storage s) (to_string_key key) = Some m" "\<not> is_expired_at m now"
    "\<And>en. map_of (cents (mt_cache s)) (to_string_key key) = Some en \<Longrightarrow> ce_meta en = m"
  shows "\<exists>s'. memory_get M now key s = (Inr (Some (data, m)), s')"
proof -
  let ?k = "to_string_key key"
  obtain p s1 where p: "probe_cache M ?k s = (p, s1)" by fastforce
  note pr = probe_cache_ok [OF assms(1) p]
  have tr: "tracks K A (mt_storage s)" using assms(1) by (simp add: mem_ok_def)
  show ?thesis
  proof (cases p)
    case (Some en)
    then have "ce_data en = data" "ce_meta en = m" using pr(2) cached_data [OF assms(1,2)] assms(3,7) by auto
    then show ?thesis using p Some assms(6) by (simp add: memory_get_def Let_def)
  next
    case None
    obtain r st where r: "storage_get (me_storage M) now key (mt_storage s) = (r, st)" by fastforce
    obtain st1 where blk: "on_meta (mo_get_block (se_mo (me_storage M)) ?k) (mt_storage s) = (Inr (Some m), st1)" "live.healthy st1"
      using get_block_live [OF assms(4), of ?k] assms(5) by metis
    then have g: "get_with_meta (me_storage M) now key m st1 = (r, st)"
      using r by (simp add: storage_get_def with_block_def io_step_def)
    note gb = get_block_spec [OF tracks_minv [OF tr] blk(1)]
    have "intact (files (mt_storage s)) (me_storage M) key m data" using tracksD [OF tr assms(2,5)] assms(3) by auto
    then have "intact (files st1) (me_storage M) key m data" using gb(1) by simp
    from get_with_meta_outcome [OF gb(2) this assms(6) g] have "r = Inr (Some (data, m))"
      using blk(2) unfolding read_outcome_def live.healthy_def by blast
    then show ?thesis using p None r pr(3) by (simp add: memory_get_def fill_single_def on_storage_def io_step_def)
  qed
qed

end


section \<open>A sample stack\<close>

definition sample_memory ::
  "(world, BlockMeta MemoryMetadataInner, CacheEntry lru_list, ChunksCacheEntry lru_list) MemoryEnv" where
  "sample_memory = \<lparr> me_storage = sample_env, me_capacity_bytes = 1048576, me_cache = lru_list_ops, me_chunks = lru_list_ops \<rparr>"

abbreviation sample_view :: "BlockMeta MemoryMetadataInner \<Rightarrow> meta_view" where
  "sample_view \<equiv> memory_view plain_serde"

abbreviation sample_inv :: "BlockMeta MemoryMetadataInner \<Rightarrow> bool" where
  "sample_inv \<equiv> memory_inv plain_serde"

lemma stack_tier:
  assumes "stack_ok (me_storage M) sd" "lru_sound (me_cache M)" "lru_sound (me_chunks M)" "me_capacity_bytes M + SLAB_ALIGN \<le> 2 ^ 64"
  shows "tier_ok M (memory_view sd) (memory_inv sd) task_id"
  using assms metadata_store.axioms(1) [OF memory_metadata_store [of sd]] by (auto simp: tier_ok_def stack_ok_def)

lemma lru_list_sound: "lru_sound lru_list_ops"
  unfolding lru_sound_def using list_lru.lru_cache_axioms by blast

interpretation sample_mem: live_memory sample_memory sample_view sample_inv task_id ll_ents ll_limit ll_ents ll_limit "\<lambda>m. mm_fail_next_puts m = 0"
proof -
  have s: "me_storage sample_memory = sample_env" "me_cache sample_memory = lru_list_ops" "me_chunks sample_memory = lru_list_ops"
    "me_capacity_bytes sample_memory + SLAB_ALIGN \<le> 2 ^ 64" by (simp_all add: sample_memory_def SLAB_ALIGN_def)
  have "storage_system (me_storage sample_memory) w_files calm sample_view sample_inv task_id"
    using stack_live [OF stack_ok_sample] by (simp add: s live_storage_def)
  moreover have "live_store (se_mo (me_storage sample_memory)) sample_view sample_inv task_id (\<lambda>m. mm_fail_next_puts m = 0)"
    using stack_live [OF stack_ok_sample] by (simp add: s live_storage_def)
  ultimately show "live_memory sample_memory sample_view sample_inv task_id ll_ents ll_limit ll_ents ll_limit (\<lambda>m. mm_fail_next_puts m = 0)"
    using s(4) by (simp add: live_memory_def memory_stack_def memory_system_def memory_system_axioms_def s(2,3) list_lru.lru_cache_axioms)
qed

lemma sample_tier_ok: "tier_ok sample_memory sample_view sample_inv task_id"
  by (rule stack_tier) (simp_all add: sample_memory_def stack_ok_sample lru_list_sound SLAB_ALIGN_def)

lemma sample_start: "history sample_memory sample_view sample_inv {sample_key} [] [] (memory_new_state sample_memory sample_state)"
  by (rule history.start)
    (simp add: fresh_storage_def sample_state_def storage_new_state_def memory_inv_empty memory_view_def,
     simp add: memory_empty_def decoded_def)

lemma sample_room:
  "write_room (me_storage sample_memory) sample_view sample_key [1, 2, 3, 4, 5] (mt_storage (memory_new_state sample_memory sample_state))"
  "calm (st_exec (mt_storage (memory_new_state sample_memory sample_state)))"
  "mm_fail_next_puts (st_meta (mt_storage (memory_new_state sample_memory sample_state))) = 0"
  using sample_can_write by (simp_all add: can_write_def write_room_def sample_memory_def memory_new_state_def sample_state_def storage_new_state_def calm_def memory_empty_def)


text \<open>A second one: a multi-segment write into a slab, and a reader that holds views of it.\<close>

lemma sample_views:
  obtains segs d tr s where "history sample_memory sample_view sample_inv {sample_key} tr [(segs, d)] s" "seg_handles segs \<noteq> []"
proof -
  let ?s = "memory_new_state sample_memory sample_state" and ?k = "to_string_key sample_key"
  let ?s1 = "?s\<lparr> mt_slab := Some sample_slab \<rparr>" and ?segs = "[[1, 2], [3, 4, 5]] :: bytes list"
  have h1: "history sample_memory sample_view sample_inv {sample_key} [] [] ?s1"
    by (rule history.slab [OF sample_start slab_reach_inv [OF sample_slab_reach], of "Inr ()"])
      (simp add: set_rdma_slab_def memory_new_state_def)
  have room: "write_room (me_storage sample_memory) sample_view sample_key (concat ?segs) (mt_storage ?s1)"
    "calm (st_exec (mt_storage ?s1))" "mm_fail_next_puts (st_meta (mt_storage ?s1)) = 0"
    using sample_room by simp_all
  have ok: "sample_mem.mem_ok {sample_key} (readable []) [] ?s1" using sample_mem.history_ok [OF h1] by simp
  obtain st m where p: "memory_put_chunks sample_memory 100 sample_key ?segs sample_meta ?s1 =
    (Inr (), chunks_cache_insert sample_memory ?k ?segs m (length (concat ?segs)) (invalidate_l1_entry sample_memory ?k (?s1\<lparr> mt_storage := st \<rparr>)))"
    (is "_ = (_, ?s2)") "fst (storage_put_chunks (me_storage sample_memory) 100 sample_key ?segs sample_meta (mt_storage ?s1)) = Inr ()"
    using sample_mem.memory_put_chunks_live [OF ok room, where now = 100 and meta = sample_meta] by blast
  have h2: "history sample_memory sample_view sample_inv {sample_key} [Stored sample_key (concat ?segs)] [] ?s2"
    using history.put_chunks [OF h1 _ room(1) p(1)] p(2) by (simp add: write_event_def)
  have inv: "mt_slab (invalidate_l1_entry sample_memory ?k (invalidate_l1_entry sample_memory ?k (?s1\<lparr> mt_storage := st \<rparr>))) = Some sample_slab"
    by (simp add: invalidate_l1_entry_def sample_memory_def lru_list_ops_def memory_new_state_def without_def
        drop_entries_def drop_handles_def)
  obtain ext sl where al: "slab_alloc sample_slab 5 = (Some ext, sl)"
    using align_up64_pow2 [of 12 5]
    by (simp add: sample_slab_def slab_alloc_def freelist_alloc_def freelist_new_def SLAB_ALIGN_def round_up_def
      bts_first_from_def remove_block_def insert_block_def Let_def btm_remove_def bts_remove_def wadd64_def wsub64_def)
  obtain s3 where ms: "maybe_slab_backed ?segs (length (concat ?segs))
      (invalidate_l1_entry sample_memory ?k (invalidate_l1_entry sample_memory ?k (?s1\<lparr> mt_storage := st \<rparr>)))
    = ((slab_views ext 0 ?segs, Some ext), s3)"
    using inv al by (simp add: maybe_slab_backed_def numeral_eq_Suc)
  have fits: "length (concat ?segs) \<le> me_capacity_bytes sample_memory" by (simp add: sample_memory_def)
  have "map_of (ll_ents (mt_chunks ?s2)) ?k =
      Some \<lparr> cc_segments = slab_views ext 0 ?segs, cc_meta = m, cc_total_size = length (concat ?segs), cc_slab = Some ext \<rparr>"
    by (rule sample_mem.chunks_insert_entry [OF fits ms])
  then obtain s4 where "memory_peek_chunks sample_memory sample_key ?s2 = (Some (slab_views ext 0 ?segs, m), s4)"
    by (simp add: memory_peek_chunks_def probe_chunks_def sample_memory_def lru_list_ops_def hit_chunks_def)
  from history.peek_chunks [OF h2 _ this] that show ?thesis by simp
qed


section \<open>Properties\<close>




text \<open>
  C4. What a reader holds stays intact.  A segment list handed out by the tier may point into the RDMA
  slab; until the reader lets go of it, it reads as the bytes it had when it was handed out, whatever
  is overwritten, deleted, evicted or stored in the slab in the meantime, by clients that write into
  the slab over RDMA as well.
\<close>

theorem memory_views_stay_intact:
  assumes "tier_ok M view minv tid" "inj_on (object_digest (se_hash (me_storage M))) K" "history M view minv K tr G s" "(segs, d) \<in> set G"
  shows "segs_bytes (mt_slab s) segs = d"
proof -
  obtain cents climit dents dlimit where st: "memory_stack M view minv tid cents climit dents dlimit" using tier_stack [OF assms(1)] .
  note sys = st [unfolded memory_stack_def]
  from memory_stack.history_ok [OF st assms(3,2)] show ?thesis
    using memory_system.l1_okD(2) [OF sys _ assms(4)] unfolding memory_system.mem_ok_def [OF sys] by blast
qed

theorem memory_views_stay_intact_witness:
  "\<exists>segs d tr s. history sample_memory sample_view sample_inv {sample_key} tr [(segs, d)] s \<and> seg_handles segs \<noteq> []
     \<and> segs_bytes (mt_slab s) segs = d"
proof -
  obtain segs d tr s where h: "history sample_memory sample_view sample_inv {sample_key} tr [(segs, d)] s" "seg_handles segs \<noteq> []"
    by (rule sample_views)
  have "segs_bytes (mt_slab s) segs = d"
    by (rule memory_views_stay_intact [OF sample_tier_ok _ h(1)]) simp_all
  then show ?thesis using h by blast
qed

text \<open>
  C31. A client reads its own writes.  In any state a history leads to, if nothing fails (the system
  calls do not, and the metadata service is up), a write reports success and a read after it returns
  exactly the bytes written, unless their lifetime has run out.
\<close>

theorem memory_read_your_writes:
  assumes "tier_ok M view minv tid" "live_store (se_mo (me_storage M)) view minv tid up"
    "inj_on (object_digest (se_hash (me_storage M))) K" "history M view minv K tr G s"
    "key \<in> K" "write_room (me_storage M) view key data (mt_storage s)" "calm (st_exec (mt_storage s))"
    "up (st_meta (mt_storage s))" "\<not> is_expired_at meta now'"
  shows "\<exists>s1 m s2. memory_put M now key data meta s = (Inr (), s1) \<and> memory_get M now' key s1 = (Inr (Some (data, m)), s2)"
proof -
  obtain cents climit dents dlimit where st: "memory_stack M view minv tid cents climit dents dlimit" using tier_stack [OF assms(1)] .
  have live: "live_memory M view minv tid cents climit dents dlimit up" using st assms(2) by (rule live_memory.intro)
  note ok = conjunct1 [OF memory_stack.history_ok [OF st assms(4,3)]]
  show ?thesis
  proof (rule live_memory.memory_put_live [OF live ok assms(5,3,6-8), of now meta], goal_cases)
    case (1 s1 m)
    have "\<not> is_expired_at m now'" using assms(9) 1(6,7) by (simp add: is_expired_at_def)
    from live_memory.memory_get_live [OF live 1(4) assms(5) _ 1(2,5) this 1(8)] show ?case using 1(1) by auto
  qed
qed

theorem memory_read_your_writes_witness:
  "\<exists>s1 m s2. memory_put sample_memory 100 sample_key [1, 2, 3, 4, 5] sample_meta (memory_new_state sample_memory sample_state) = (Inr (), s1)
     \<and> memory_get sample_memory 200 sample_key s1 = (Inr (Some ([1, 2, 3, 4, 5], m)), s2)"
  by (rule memory_read_your_writes [OF sample_tier_ok sample_mem.up.live_store_axioms _ sample_start _ sample_room])
    (simp_all add: is_expired_at_def sample_meta_def)

end
