(* ===== verification/Memory_Size.thy ===== *)
theory Memory_Size
  imports Memory_Tier Storage_Props
begin

text \<open>
  The byte accounting of the memory tier: what the counter \<open>current_size\<close> says about the bytes the two
  caches hold, and the bounds the eviction loops enforce.
\<close>

section \<open>What the caches hold\<close>

definition entry_bytes :: "(string \<times> CacheEntry) list \<Rightarrow> nat" where
  "entry_bytes xs = sum_list (map (\<lambda>(_, en). length (ce_data en)) xs)"

definition chunk_entry_bytes :: "(string \<times> ChunksCacheEntry) list \<Rightarrow> nat" where
  "chunk_entry_bytes xs = sum_list (map (\<lambda>(_, en). cc_total_size en) xs)"

definition chunks_budget :: "('x, 'm, 'c, 'd) MemoryEnv \<Rightarrow> ('x, 'm, 'c, 'd) MemoryTier \<Rightarrow> nat" where
  "chunks_budget M s = max (me_capacity_bytes M) (case mt_slab s of None \<Rightarrow> 0 | Some sl \<Rightarrow> slab_len sl)"

text \<open>\<open>counted\<close>: the counter is exact, each cache is within its budget, and neither is at its entry limit.\<close>

definition counted ::
  "('x, 'm, 'c, 'd) MemoryEnv \<Rightarrow> ('c \<Rightarrow> (string \<times> CacheEntry) list) \<Rightarrow> ('d \<Rightarrow> (string \<times> ChunksCacheEntry) list)
     \<Rightarrow> ('x, 'm, 'c, 'd) MemoryTier \<Rightarrow> bool" where
  "counted M cents dents s \<longleftrightarrow>
     mt_current_size s = entry_bytes (cents (mt_cache s)) + chunk_entry_bytes (dents (mt_chunks s))
     \<and> entry_bytes (cents (mt_cache s)) \<le> me_capacity_bytes M
     \<and> chunk_entry_bytes (dents (mt_chunks s)) \<le> chunks_budget M s"

lemma entry_bytes_mset: "mset xs = mset ys \<Longrightarrow> entry_bytes xs = entry_bytes ys"
  unfolding entry_bytes_def by (simp only: sum_mset_sum_list [symmetric] mset_map)

lemma chunk_entry_bytes_mset: "mset xs = mset ys \<Longrightarrow> chunk_entry_bytes xs = chunk_entry_bytes ys"
  unfolding chunk_entry_bytes_def by (simp only: sum_mset_sum_list [symmetric] mset_map)

lemma entry_bytes_without:
  assumes "distinct (map fst xs)"
  shows "entry_bytes xs = entry_bytes (without k xs) + (case map_of xs k of None \<Rightarrow> 0 | Some en \<Rightarrow> length (ce_data en))"
proof (cases "map_of xs k")
  case None
  moreover from this have "without k xs = xs" by (simp add: without_absent map_of_eq_None_iff)
  ultimately show ?thesis by simp
next
  case (Some en)
  from entry_bytes_mset [of xs "(k, en) # without k xs"] show ?thesis
    using without_split [OF assms Some] Some by (simp add: entry_bytes_def)
qed

lemma chunk_entry_bytes_without:
  assumes "distinct (map fst xs)"
  shows "chunk_entry_bytes xs = chunk_entry_bytes (without k xs) + (case map_of xs k of None \<Rightarrow> 0 | Some en \<Rightarrow> cc_total_size en)"
proof (cases "map_of xs k")
  case None
  moreover from this have "without k xs = xs" by (simp add: without_absent map_of_eq_None_iff)
  ultimately show ?thesis by simp
next
  case (Some en)
  from chunk_entry_bytes_mset [of xs "(k, en) # without k xs"] show ?thesis
    using without_split [OF assms Some] Some by (simp add: chunk_entry_bytes_def)
qed

lemma entry_bytes_last: "xs \<noteq> [] \<Longrightarrow> entry_bytes xs = entry_bytes (butlast xs) + length (ce_data (snd (last xs)))"
  using entry_bytes_mset [of xs "last xs # butlast xs"] mset_butlast [of xs] by (simp add: entry_bytes_def case_prod_beta)

lemma chunk_entry_bytes_last: "xs \<noteq> [] \<Longrightarrow> chunk_entry_bytes xs = chunk_entry_bytes (butlast xs) + cc_total_size (snd (last xs))"
  using chunk_entry_bytes_mset [of xs "last xs # butlast xs"] mset_butlast [of xs]
  by (simp add: chunk_entry_bytes_def case_prod_beta)


section \<open>Releasing handles\<close>

lemma drop_handle_slab_len [simp]: "map_option slab_len (mt_slab (drop_handle e s)) = map_option slab_len (mt_slab s)"
  by (cases "mt_slab s") (simp_all add: drop_handle_def Let_def extent_drop_def)

lemma drop_handles_frame [simp]:
  "mt_cache (drop_handles es s) = mt_cache s" "mt_chunks (drop_handles es s) = mt_chunks s"
  "mt_current_size (drop_handles es s) = mt_current_size s"
  unfolding drop_handles_def by (induction es arbitrary: s) (simp_all add: drop_handle_def Let_def)

lemma drop_handles_slab_len [simp]: "map_option slab_len (mt_slab (drop_handles es s)) = map_option slab_len (mt_slab s)"
  unfolding drop_handles_def by (induction es arbitrary: s) simp_all

lemma drop_entries_frame [simp]:
  "mt_cache (drop_entries ens s) = mt_cache s" "mt_chunks (drop_entries ens s) = mt_chunks s"
  "mt_current_size (drop_entries ens s) = mt_current_size s"
  "map_option slab_len (mt_slab (drop_entries ens s)) = map_option slab_len (mt_slab s)"
  by (simp_all add: drop_entries_def)

lemma chunks_budget_cong:
  assumes "map_option slab_len (mt_slab s) = map_option slab_len (mt_slab s')"
  shows "chunks_budget M s = chunks_budget M s'"
  using assms by (auto simp: chunks_budget_def split: option.splits)


section \<open>The operations on the caches\<close>

locale memory_caches = cl: lru_cache "me_cache M" cents climit + dl: lru_cache "me_chunks M" dents dlimit
  for M :: "('x, 'm, 'c, 'd) MemoryEnv"
    and cents :: "'c \<Rightarrow> (string \<times> CacheEntry) list" and climit :: "'c \<Rightarrow> nat"
    and dents :: "'d \<Rightarrow> (string \<times> ChunksCacheEntry) list" and dlimit :: "'d \<Rightarrow> nat"
begin

abbreviation cbytes :: "('x, 'm, 'c, 'd) MemoryTier \<Rightarrow> nat" where
  "cbytes s \<equiv> entry_bytes (cents (mt_cache s))"

abbreviation dbytes :: "('x, 'm, 'c, 'd) MemoryTier \<Rightarrow> nat" where
  "dbytes s \<equiv> chunk_entry_bytes (dents (mt_chunks s))"

definition smaller :: "('x, 'm, 'c, 'd) MemoryTier \<Rightarrow> ('x, 'm, 'c, 'd) MemoryTier \<Rightarrow> bool" where
  "smaller s s' \<longleftrightarrow> cbytes s' \<le> cbytes s \<and> dbytes s' \<le> dbytes s
     \<and> length (cents (mt_cache s')) \<le> length (cents (mt_cache s)) \<and> length (dents (mt_chunks s')) \<le> length (dents (mt_chunks s))
     \<and> climit (mt_cache s') = climit (mt_cache s) \<and> dlimit (mt_chunks s') = dlimit (mt_chunks s)
     \<and> chunks_budget M s' = chunks_budget M s
     \<and> (mt_current_size s = cbytes s + dbytes s \<and> cbytes s + dbytes s < 2 ^ 64 \<longrightarrow> mt_current_size s' = cbytes s' + dbytes s')"

lemma smaller_refl: "smaller s s"
  by (simp add: smaller_def)

lemma smaller_trans: "smaller s s1 \<Longrightarrow> smaller s1 s2 \<Longrightarrow> smaller s s2"
  unfolding smaller_def by auto

lemma invalidate_smaller:
  "smaller s (invalidate_l1_entry M k s)"
  "k \<notin> fst ` set (cents (mt_cache (invalidate_l1_entry M k s)))" "k \<notin> fst ` set (dents (mt_chunks (invalidate_l1_entry M k s)))"
proof -
  obtain r c where c: "lru_pop (me_cache M) k (mt_cache s) = (r, c)" by fastforce
  obtain r2 d where d: "lru_pop (me_chunks M) k (mt_chunks s) = (r2, d)" by fastforce
  note lc = cl.pop_law [OF c] and ld = dl.pop_law [OF d]
  note b = entry_bytes_without [OF cl.distinct_law, of "mt_cache s" k] chunk_entry_bytes_without [OF dl.distinct_law, of "mt_chunks s" k]
  let ?s' = "invalidate_l1_entry M k s"
  have e: "mt_cache ?s' = c" "mt_chunks ?s' = d" "map_option slab_len (mt_slab ?s') = map_option slab_len (mt_slab s)"
    using c d by (simp_all add: invalidate_l1_entry_def Let_def)
  have sz: "mt_current_size ?s' = entry_bytes (cents c) + chunk_entry_bytes (dents d)"
    if "mt_current_size s = cbytes s + dbytes s" "cbytes s + dbytes s < 2 ^ 64"
  proof -
    let ?x = "case r of None \<Rightarrow> 0 | Some en \<Rightarrow> length (ce_data en)" and ?y = "case r2 of None \<Rightarrow> 0 | Some en \<Rightarrow> cc_total_size en"
    have b': "cbytes s = entry_bytes (cents c) + ?x" "dbytes s = chunk_entry_bytes (dents d) + ?y" using b lc ld by auto
    show ?thesis
      using c d that b' by (cases r; cases r2) (simp_all add: invalidate_l1_entry_def Let_def wsub64_exact)
  qed
  have len: "length (cents c) \<le> length (cents (mt_cache s))" "length (dents d) \<le> length (dents (mt_chunks s))"
    using lc ld by (simp_all add: without_def)
  have le: "entry_bytes (cents c) \<le> cbytes s" "chunk_entry_bytes (dents d) \<le> dbytes s" using b lc ld by auto
  show "smaller s ?s'"
    unfolding smaller_def e(1,2) chunks_budget_cong [OF e(3)] using lc ld len le sz by blast
  show "k \<notin> fst ` set (cents (mt_cache ?s'))" "k \<notin> fst ` set (dents (mt_chunks ?s'))"
    using e lc ld by (auto simp: set_without)
qed

lemma evict_cache_smaller: "smaller s (evict_cache M sz n s)"
proof (induction n arbitrary: s)
  case (Suc n)
  obtain p c where p: "lru_pop_lru (me_cache M) (mt_cache s) = (p, c)" by fastforce
  note law = cl.pop_lru_law [OF p]
  show ?case
  proof (cases "cents (mt_cache s) = []")
    case True
    then show ?thesis by (simp add: cl.len_law smaller_refl)
  next
    case False
    let ?s1 = "s\<lparr> mt_cache := c, mt_current_size := wsub64 (mt_current_size s) (length (ce_data (snd (last (cents (mt_cache s)))))),
      mt_evictions := wadd64 (mt_evictions s) 1 \<rparr>"
    have "smaller s ?s1"
      using law False entry_bytes_last [OF False] by (auto simp: smaller_def chunks_budget_def wsub64_exact)
    moreover have "evict_cache M sz (Suc n) s = evict_cache M sz n ?s1 \<or> evict_cache M sz (Suc n) s = s"
      using p law False by (auto simp: split: prod.splits)
    ultimately show ?thesis using smaller_trans [OF _ Suc.IH [of ?s1]] smaller_refl [of s] by (elim disjE) (simp_all only:)
  qed
qed (simp add: smaller_refl)

lemma evict_cache_done:
  assumes "length (cents (mt_cache s)) \<le> n"
  shows "cents (mt_cache (evict_cache M sz n s)) = [] \<or> wadd64 (mt_current_size (evict_cache M sz n s)) sz \<le> me_capacity_bytes M"
  using assms
proof (induction n arbitrary: s)
  case (Suc n)
  obtain p c where p: "lru_pop_lru (me_cache M) (mt_cache s) = (p, c)" by fastforce
  note law = cl.pop_lru_law [OF p]
  show ?case
  proof (cases "me_capacity_bytes M < wadd64 (mt_current_size s) sz \<and> cents (mt_cache s) \<noteq> []")
    case True
    let ?s1 = "s\<lparr> mt_cache := c, mt_current_size := wsub64 (mt_current_size s) (length (ce_data (snd (last (cents (mt_cache s)))))),
      mt_evictions := wadd64 (mt_evictions s) 1 \<rparr>"
    have "evict_cache M sz (Suc n) s = evict_cache M sz n ?s1" using p law True by (cases "last (cents (mt_cache s))") (simp add: cl.len_law)
    moreover have "length (cents (mt_cache ?s1)) \<le> n" using law Suc.prems True by simp
    ultimately show ?thesis using Suc.IH by metis
  qed (auto simp: cl.len_law)
qed simp

lemma evict_one_smaller:
  assumes "lru_pop_lru (me_chunks M) (mt_chunks s) = (p, d)" "dents (mt_chunks s) \<noteq> []"
  shows "smaller s (evict_one_chunks (snd (last (dents (mt_chunks s)))) d s)"
proof -
  let ?s' = "evict_one_chunks (snd (last (dents (mt_chunks s)))) d s"
  have "chunks_budget M ?s' = chunks_budget M s" by (rule chunks_budget_cong) (simp add: evict_one_chunks_def)
  then show ?thesis
    using dl.pop_lru_law [OF assms(1)] chunk_entry_bytes_last [OF assms(2)]
    by (auto simp: smaller_def evict_one_chunks_def wsub64_exact)
qed

lemma evict_chunks_smaller: "smaller s (evict_chunks M budget sz n s)"
proof (induction n arbitrary: s)
  case (Suc n)
  obtain p d where p: "lru_pop_lru (me_chunks M) (mt_chunks s) = (p, d)" by fastforce
  note law = dl.pop_lru_law [OF p]
  show ?case
  proof (cases "dents (mt_chunks s) = []")
    case True
    then show ?thesis by (simp add: dl.len_law smaller_refl)
  next
    case False
    let ?s1 = "evict_one_chunks (snd (last (dents (mt_chunks s)))) d s"
    have "evict_chunks M budget sz (Suc n) s = evict_chunks M budget sz n ?s1 \<or> evict_chunks M budget sz (Suc n) s = s"
      using p law False by (auto split: prod.splits)
    then show ?thesis
      using smaller_trans [OF evict_one_smaller [OF p False] Suc.IH] smaller_refl [of s] by (elim disjE) (simp_all only:)
  qed
qed (simp add: smaller_refl)

lemma evict_chunks_done:
  assumes "length (dents (mt_chunks s)) \<le> n"
  shows "dents (mt_chunks (evict_chunks M budget sz n s)) = [] \<or> wadd64 (mt_current_size (evict_chunks M budget sz n s)) sz \<le> budget"
  using assms
proof (induction n arbitrary: s)
  case (Suc n)
  obtain p d where p: "lru_pop_lru (me_chunks M) (mt_chunks s) = (p, d)" by fastforce
  note law = dl.pop_lru_law [OF p]
  show ?case
  proof (cases "budget < wadd64 (mt_current_size s) sz \<and> dents (mt_chunks s) \<noteq> []")
    case True
    let ?s1 = "evict_one_chunks (snd (last (dents (mt_chunks s)))) d s"
    have "evict_chunks M budget sz (Suc n) s = evict_chunks M budget sz n ?s1"
      using p law True by (cases "last (dents (mt_chunks s))") (simp add: dl.len_law)
    moreover have "length (dents (mt_chunks ?s1)) \<le> n" using law Suc.prems True by (simp add: evict_one_chunks_def)
    ultimately show ?thesis using Suc.IH by metis
  qed (auto simp: dl.len_law)
qed simp

lemma counted_smaller:
  assumes "counted M cents dents s" "smaller s s'" "me_capacity_bytes M + chunks_budget M s < 2 ^ 64"
  shows "counted M cents dents s'"
  using assms unfolding counted_def smaller_def by auto

lemma cache_insert_counted:
  assumes "counted M cents dents s" "length (cents (mt_cache s)) < climit (mt_cache s)"
    "2 * me_capacity_bytes M + chunks_budget M s < 2 ^ 64"
  shows "counted M cents dents (cache_insert M k data meta s)"
proof (cases "me_capacity_bytes M < length data")
  case True
  then show ?thesis using assms(1) by (simp add: cache_insert_def)
next
  case False
  let ?s1 = "invalidate_l1_entry M k s"
  let ?s2 = "evict_cache M (length data) (lru_len (me_cache M) (mt_cache ?s1)) ?s1"
  obtain old dr c where c: "lru_put (me_cache M) k \<lparr> ce_data = data, ce_meta = meta \<rparr> (mt_cache ?s2) = ((old, dr), c)"
    using surj_pair [of "lru_put (me_cache M) k \<lparr> ce_data = data, ce_meta = meta \<rparr> (mt_cache ?s2)"] by fastforce
  have sm: "smaller s ?s2" using smaller_trans [OF invalidate_smaller(1) evict_cache_smaller] .
  have cn: "counted M cents dents ?s2" using counted_smaller [OF assms(1) sm] assms(3) by simp
  have fin: "cents (mt_cache ?s2) = [] \<or> wadd64 (mt_current_size ?s2) (length data) \<le> me_capacity_bytes M"
    by (rule evict_cache_done) (simp add: cl.len_law)
  have room: "length (cents (mt_cache ?s2)) < climit (mt_cache ?s2)" using sm assms(2) by (simp add: smaller_def)
  note law = cl.put_law [OF c]
  let ?ol = "case old of None \<Rightarrow> 0 | Some o' \<Rightarrow> length (ce_data o')"
  have b: "entry_bytes (cents c) + ?ol = cbytes ?s2 + length data"
    using law room entry_bytes_without [OF cl.distinct_law, of "mt_cache ?s2" k] by (simp add: entry_bytes_def)
  have bud: "chunks_budget M ?s2 = chunks_budget M s" using sm by (simp add: smaller_def)
  have cur: "mt_current_size ?s2 + length data < 2 ^ 64" "mt_current_size ?s2 = cbytes ?s2 + dbytes ?s2"
    using cn False assms(3) bud by (simp_all add: counted_def)
  have ol: "?ol \<le> cbytes ?s2" using law entry_bytes_without [OF cl.distinct_law, of "mt_cache ?s2" k] by simp
  have le: "entry_bytes (cents c) \<le> me_capacity_bytes M"
    using fin b cur False by (auto simp: wadd64_exact entry_bytes_def)
  have "cache_insert M k data meta s = ?s2\<lparr> mt_cache := c, mt_current_size := wadd64
      (case old of None \<Rightarrow> mt_current_size ?s2 | Some o' \<Rightarrow> wsub64 (mt_current_size ?s2) (length (ce_data o'))) (length data) \<rparr>"
    using False c by (simp add: cache_insert_def Let_def)
  moreover have "wadd64 (case old of None \<Rightarrow> mt_current_size ?s2 | Some o' \<Rightarrow> wsub64 (mt_current_size ?s2) (length (ce_data o'))) (length data)
      = entry_bytes (cents c) + dbytes ?s2"
    using b cur ol by (cases old) (simp_all add: wadd64_exact wsub64_exact)
  ultimately show ?thesis using cn le by (simp add: counted_def chunks_budget_def)
qed

lemma chunks_put_counted:
  assumes "mt_current_size s = cbytes s + dbytes s" "cbytes s \<le> me_capacity_bytes M" "length (dents (mt_chunks s)) < dlimit (mt_chunks s)"
    "dents (mt_chunks s) = [] \<or> wadd64 (mt_current_size s) (cc_total_size en) \<le> budget"
    "budget \<le> chunks_budget M s" "cc_total_size en \<le> budget" "dbytes s \<le> chunks_budget M s"
    "me_capacity_bytes M + 2 * chunks_budget M s < 2 ^ 64"
  shows "counted M cents dents (chunks_put M k en s)"
proof -
  obtain old dr d where d: "lru_put (me_chunks M) k en (mt_chunks s) = ((old, dr), d)"
    using surj_pair [of "lru_put (me_chunks M) k en (mt_chunks s)"] by fastforce
  note law = dl.put_law [OF d]
  let ?ol = "case old of None \<Rightarrow> 0 | Some o' \<Rightarrow> cc_total_size o'" and ?s' = "chunks_put M k en s"
  have b: "chunk_entry_bytes (dents d) + ?ol = dbytes s + cc_total_size en" "?ol \<le> dbytes s"
    using law assms(3) chunk_entry_bytes_without [OF dl.distinct_law, of "mt_chunks s" k] by (simp_all add: chunk_entry_bytes_def)
  have cur: "mt_current_size s + cc_total_size en < 2 ^ 64" using assms by linarith
  have le: "chunk_entry_bytes (dents d) \<le> chunks_budget M s"
    using assms(1,4-6) b cur by (auto simp: wadd64_exact chunk_entry_bytes_def)
  have e: "mt_cache ?s' = mt_cache s" "mt_chunks ?s' = d" "map_option slab_len (mt_slab ?s') = map_option slab_len (mt_slab s)"
    "mt_current_size ?s' = wadd64 (case old of None \<Rightarrow> mt_current_size s | Some o' \<Rightarrow> wsub64 (mt_current_size s) (cc_total_size o')) (cc_total_size en)"
    using d by (simp_all add: chunks_put_def Let_def)
  have "mt_current_size ?s' = cbytes s + chunk_entry_bytes (dents d)"
    unfolding e(4) using b cur assms(1) by (cases old) (simp_all add: wadd64_exact wsub64_exact)
  then show ?thesis using assms(2) le e(1,2) chunks_budget_cong [OF e(3)] by (simp add: counted_def)
qed

lemma maybe_slab_backed_frame:
  assumes "maybe_slab_backed segs tot s = (v, s')"
  shows "mt_cache s' = mt_cache s" "mt_chunks s' = mt_chunks s" "mt_current_size s' = mt_current_size s"
    "map_option slab_len (mt_slab s') = map_option slab_len (mt_slab s)"
  using assms by (auto simp: maybe_slab_backed_def slab_alloc_def copy_in_def Let_def split: option.splits prod.splits if_splits)

lemma chunks_cache_insert_counted:
  assumes "counted M cents dents s" "length (dents (mt_chunks s)) < dlimit (mt_chunks s)"
    "me_capacity_bytes M + 2 * chunks_budget M s < 2 ^ 64"
  shows "counted M cents dents (chunks_cache_insert M k segs meta tot s)"
proof (cases "me_capacity_bytes M < tot")
  case True
  then show ?thesis using assms(1) by (simp add: chunks_cache_insert_def)
next
  case False
  let ?s1 = "invalidate_l1_entry M k s"
  obtain v slab s2 where m: "maybe_slab_backed segs tot ?s1 = ((v, slab), s2)" by (metis prod.exhaust)
  let ?s3 = "evict_chunks M (me_capacity_bytes M) tot (lru_len (me_chunks M) (mt_chunks s2)) s2"
  note f = maybe_slab_backed_frame [OF m]
  have "smaller ?s1 s2" using f chunks_budget_cong [OF f(4)] by (simp add: smaller_def)
  then have sm: "smaller s ?s3" using smaller_trans invalidate_smaller(1) evict_chunks_smaller by metis
  have cn: "counted M cents dents ?s3" using counted_smaller [OF assms(1) sm] assms(3) by simp
  have bud: "chunks_budget M ?s3 = chunks_budget M s" using sm by (simp add: smaller_def)
  have "counted M cents dents (chunks_put M k \<lparr> cc_segments = v, cc_meta = meta, cc_total_size = tot, cc_slab = slab \<rparr> ?s3)"
  proof (rule chunks_put_counted [where budget = "me_capacity_bytes M"])
    show "dents (mt_chunks ?s3) = [] \<or> wadd64 (mt_current_size ?s3)
        (cc_total_size \<lparr> cc_segments = v, cc_meta = meta, cc_total_size = tot, cc_slab = slab \<rparr>) \<le> me_capacity_bytes M"
      using evict_chunks_done [of s2 "lru_len (me_chunks M) (mt_chunks s2)"] by (simp add: dl.len_law)
  qed (use cn sm assms(2,3) bud False in \<open>simp_all add: counted_def smaller_def chunks_budget_def\<close>)
  then show ?thesis using False m by (simp add: chunks_cache_insert_def Let_def)
qed

lemma insert_from_slab_counted:
  assumes "counted M cents dents s" "length (dents (mt_chunks s)) < dlimit (mt_chunks s)"
    "me_capacity_bytes M + 2 * chunks_budget M s < 2 ^ 64" "ext_len ext \<le> chunks_budget M s"
  shows "counted M cents dents (insert_chunks_from_slab M k ext meta s)"
proof (cases "ext_len ext = 0")
  case True
  have "chunks_budget M (drop_handles [ext] s) = chunks_budget M s" by (rule chunks_budget_cong) simp
  then show ?thesis using True assms(1) by (simp add: insert_chunks_from_slab_def counted_def)
next
  case False
  let ?tot = "ext_len ext" and ?s1 = "clone_handles [ext] (invalidate_l1_entry M k s)"
  let ?s3 = "evict_chunks M (chunks_budget M s) ?tot (lru_len (me_chunks M) (mt_chunks ?s1)) ?s1"
  let ?en = "\<lparr> cc_segments = [View ext 0 ?tot], cc_meta = meta, cc_total_size = ?tot, cc_slab = Some ext \<rparr>"
  have "smaller (invalidate_l1_entry M k s) ?s1" by (simp add: smaller_def clone_handles_def chunks_budget_def)
  then have sm1: "smaller s ?s1" using smaller_trans invalidate_smaller(1) by metis
  then have sm: "smaller s ?s3" using smaller_trans evict_chunks_smaller by metis
  have cn: "counted M cents dents ?s3" using counted_smaller [OF assms(1) sm] assms(3) by simp
  have bud: "chunks_budget M ?s3 = chunks_budget M s" "chunks_budget M ?s1 = chunks_budget M s"
    using sm sm1 by (simp_all add: smaller_def)
  have "counted M cents dents (chunks_put M k ?en ?s3)"
  proof (rule chunks_put_counted [where budget = "chunks_budget M s"])
    show "dents (mt_chunks ?s3) = [] \<or> wadd64 (mt_current_size ?s3) (cc_total_size ?en) \<le> chunks_budget M s"
      using evict_chunks_done [of ?s1 "lru_len (me_chunks M) (mt_chunks ?s1)"] by (simp add: dl.len_law)
  qed (use cn sm assms(2-4) bud in \<open>simp_all add: counted_def smaller_def\<close>)
  moreover have "insert_chunks_from_slab M k ext meta s = chunks_put M k ?en ?s3"
    using False bud(2) assms(4) by (simp add: insert_chunks_from_slab_def Let_def chunks_budget_def)
  ultimately show ?thesis by simp
qed

end


section \<open>Instance\<close>

definition list_env :: "('x, 'm) StorageEnv \<Rightarrow> nat \<Rightarrow> ('x, 'm, CacheEntry lru_list, ChunksCacheEntry lru_list) MemoryEnv" where
  "list_env E cap = \<lparr> me_storage = E, me_capacity_bytes = cap, me_cache = lru_list_ops, me_chunks = lru_list_ops \<rparr>"

interpretation list_caches: memory_caches "list_env E cap" ll_ents ll_limit ll_ents ll_limit
  by (rule memory_caches.intro) (simp_all add: list_env_def list_lru.lru_cache_axioms)

definition full_state :: "('x, 'm) StorageTier \<Rightarrow> nat \<Rightarrow> ('x, 'm, CacheEntry lru_list, ChunksCacheEntry lru_list) MemoryTier" where
  "full_state st n =
     \<lparr> mt_storage = st, mt_cache = ll_cons ''a'' \<lparr> ce_data = [1, 2, 3], ce_meta = sample_meta \<rparr> (ll_new n), mt_chunks = ll_new n,
       mt_current_size = 3, mt_hits = 0, mt_misses = 0, mt_evictions = 0, mt_slab = None, mt_handles = [] \<rparr>"

lemma full_state_counted: "counted (list_env E 16) ll_ents ll_ents (full_state st n)"
  by (simp add: counted_def full_state_def list_env_def entry_bytes_def chunk_entry_bytes_def without_def)


section \<open>Properties\<close>

text \<open>
  C32. The memory budget is kept.  As long as no cache is at its entry limit, the byte counter is exact
  (it never wraps and every removal is subtracted), the single-buffer cache never holds more than the
  configured capacity, and the multi-segment cache never more than the larger of the capacity and the
  slab.  Insertion, insertion from the slab and invalidation all keep this.
\<close>

theorem memory_budget_kept:
  assumes "lru_cache (me_cache M) cents climit" "lru_cache (me_chunks M) dents dlimit" "counted M cents dents s"
    "length (cents (mt_cache s)) < climit (mt_cache s)" "length (dents (mt_chunks s)) < dlimit (mt_chunks s)"
    "2 * me_capacity_bytes M + 2 * chunks_budget M s < 2 ^ 64" "ext_len ext \<le> chunks_budget M s"
  shows "counted M cents dents (cache_insert M k data meta s)
    \<and> counted M cents dents (chunks_cache_insert M k segs meta tot s)
    \<and> counted M cents dents (insert_chunks_from_slab M k ext meta s)
    \<and> counted M cents dents (invalidate_l1_entry M k s)"
proof -
  have mc: "memory_caches M cents climit dents dlimit" using assms(1,2) by (rule memory_caches.intro)
  have b: "2 * me_capacity_bytes M + chunks_budget M s < 2 ^ 64" "me_capacity_bytes M + 2 * chunks_budget M s < 2 ^ 64"
    "me_capacity_bytes M + chunks_budget M s < 2 ^ 64" using assms(6) by auto
  show ?thesis
    using memory_caches.cache_insert_counted [OF mc assms(3,4) b(1)]
      memory_caches.chunks_cache_insert_counted [OF mc assms(3,5) b(2)]
      memory_caches.insert_from_slab_counted [OF mc assms(3,5) b(2) assms(7)]
      memory_caches.counted_smaller [OF mc assms(3) memory_caches.invalidate_smaller(1) [OF mc] b(3)] by blast
qed

theorem memory_budget_kept_witness:
  "counted (list_env sample_env 16) ll_ents ll_ents (cache_insert (list_env sample_env 16) ''b'' [4, 5] sample_meta (full_state sample_state 2))"
  using memory_budget_kept [of "list_env sample_env 16" ll_ents ll_limit ll_ents ll_limit "full_state sample_state 2"
      "\<lparr> ext_offset = 0, ext_len = 1, ext_capacity = 4096 \<rparr>" "''b''" "[4, 5]" sample_meta]
    full_state_counted [of sample_env sample_state 2] list_caches.cl.lru_cache_axioms [of sample_env 16] list_caches.dl.lru_cache_axioms [of sample_env 16]
  by (simp add: full_state_def chunks_budget_def without_def) (simp add: list_env_def)

text \<open>
  C33. At the entry limit the counter drifts.  When the single-buffer cache is full by number of entries,
  inserting a new key makes the LRU package drop the least recently used entry by itself; its bytes
  are never subtracted, so from then on the counter exceeds what the caches hold by the size of that
  entry.
\<close>

theorem entry_limit_drift:
  assumes "lru_cache (me_cache M) cents climit" "lru_cache (me_chunks M) dents dlimit" "counted M cents dents s"
    "length (cents (mt_cache s)) = climit (mt_cache s)" "0 < climit (mt_cache s)"
    "k \<notin> fst ` set (cents (mt_cache s))" "k \<notin> fst ` set (dents (mt_chunks s))"
    "mt_current_size s + length data \<le> me_capacity_bytes M" "me_capacity_bytes M < 2 ^ 64"
  shows "mt_current_size (cache_insert M k data meta s) =
    entry_bytes (cents (mt_cache (cache_insert M k data meta s)))
    + chunk_entry_bytes (dents (mt_chunks (cache_insert M k data meta s)))
    + length (ce_data (snd (last (cents (mt_cache s)))))"
proof -
  have mc: "memory_caches M cents climit dents dlimit" using assms(1,2) by (rule memory_caches.intro)
  let ?xs = "cents (mt_cache s)" and ?s1 = "invalidate_l1_entry M k s"
  obtain r c where c: "lru_pop (me_cache M) k (mt_cache s) = (r, c)" by fastforce
  obtain r2 d where d: "lru_pop (me_chunks M) k (mt_chunks s) = (r2, d)" by fastforce
  have lc: "r = None" "cents c = ?xs" "climit c = climit (mt_cache s)"
    using lru_cache.pop_law [OF assms(1) c] assms(6) by (simp_all add: without_absent map_of_eq_None_iff)
  have ld: "r2 = None" "dents d = dents (mt_chunks s)"
    using lru_cache.pop_law [OF assms(2) d] assms(7) by (simp_all add: without_absent map_of_eq_None_iff)
  have s1: "mt_cache ?s1 = c" "mt_chunks ?s1 = d" "mt_current_size ?s1 = mt_current_size s"
    using c d lc ld by (simp_all add: invalidate_l1_entry_def Let_def)
  have ev: "evict_cache M (length data) n ?s1 = ?s1" for n
    using assms(8,9) s1(3) by (cases n) (simp_all add: wadd64_exact)
  obtain old dr c' where c': "lru_put (me_cache M) k \<lparr> ce_data = data, ce_meta = meta \<rparr> c = ((old, dr), c')"
    using surj_pair [of "lru_put (me_cache M) k \<lparr> ce_data = data, ce_meta = meta \<rparr> c"] by fastforce
  have put: "old = None" "cents c' = (k, \<lparr> ce_data = data, ce_meta = meta \<rparr>) # butlast ?xs"
    using lru_cache.put_law [OF assms(1) c'] lc assms(4,6) map_of_eq_None_iff [of ?xs k] by (auto split: if_splits)
  have ins: "cache_insert M k data meta s = ?s1\<lparr> mt_cache := c', mt_current_size := mt_current_size s + length data \<rparr>"
    using ev s1 c' put(1) assms(8,9) by (simp add: cache_insert_def Let_def wadd64_exact)
  have "?xs \<noteq> []" using assms(4,5) by auto
  from entry_bytes_last [OF this] show ?thesis
    using assms(3) put(2) s1 ld(2) by (simp add: ins counted_def entry_bytes_def)
qed

theorem entry_limit_drift_witness:
  "mt_current_size (cache_insert (list_env sample_env 16) ''b'' [4, 5] sample_meta (full_state sample_state 1)) = 5
   \<and> entry_bytes (ll_ents (mt_cache (cache_insert (list_env sample_env 16) ''b'' [4, 5] sample_meta (full_state sample_state 1)))) = 2"
proof -
  have "mt_current_size (cache_insert (list_env sample_env 16) ''b'' [4, 5] sample_meta (full_state sample_state 1)) =
      entry_bytes (ll_ents (mt_cache (cache_insert (list_env sample_env 16) ''b'' [4, 5] sample_meta (full_state sample_state 1))))
      + chunk_entry_bytes (ll_ents (mt_chunks (cache_insert (list_env sample_env 16) ''b'' [4, 5] sample_meta (full_state sample_state 1)))) + 3"
    using entry_limit_drift [of "list_env sample_env 16" ll_ents ll_limit ll_ents ll_limit "full_state sample_state 1" "''b''" "[4, 5]" sample_meta]
      full_state_counted [of sample_env sample_state 1] list_caches.cl.lru_cache_axioms [of sample_env 16] list_caches.dl.lru_cache_axioms [of sample_env 16]
    by (simp add: full_state_def without_def) (simp add: list_env_def)
  moreover have "entry_bytes (ll_ents (mt_cache (cache_insert (list_env sample_env 16) ''b'' [4, 5] sample_meta (full_state sample_state 1)))) = 2"
    "chunk_entry_bytes (ll_ents (mt_chunks (cache_insert (list_env sample_env 16) ''b'' [4, 5] sample_meta (full_state sample_state 1)))) = 0"
    by (simp_all add: cache_insert_def list_env_def full_state_def lru_list_ops_def invalidate_l1_entry_def without_def
        wadd64_def entry_bytes_def chunk_entry_bytes_def drop_entries_def drop_handles_def)
  ultimately show ?thesis by simp
qed

end
