(* ===== verification/Placement.thy ===== *)
theory Placement
  imports Config Memory_Tier Storage_Props
begin

text \<open>
  The pure part of \<open>api/service.rs\<close>: the messages of the service (\<open>pb\<close>), the conversion of metadata,
  the cluster topology and the placement of stripes on data nodes, descriptors and their validation,
  and the splitting of segments into stream messages.  Environment variables are a function.
\<close>

section \<open>Messages\<close>

record PbKey =
  pk_namespace :: string
  pk_object_key :: string

record PutOptions =
  po_ttl_seconds :: int
  po_if_not_exists :: bool

record KvMetadata =
  km_num_tokens :: int
  km_num_layers :: int
  km_dtype :: string
  km_compressed :: bool
  km_created_at :: int
  km_last_accessed_at :: int

record ObjectDescriptor =
  od_key :: "PbKey option"
  od_object_handle :: string
  od_object_generation :: nat
  od_content_etag :: string
  od_layout_version :: nat
  od_size :: nat
  od_is_striped :: bool
  od_stripe_count :: nat
  od_chunk_size :: nat

record PlacementChunk =
  pc_stripe_index :: nat
  pc_node_id :: string
  pc_grpc_endpoint :: string
  pc_rdma_endpoint :: string
  pc_device_id :: nat
  pc_storage_handle :: string
  pc_offset :: nat
  pc_length :: nat
  pc_checksum :: string

record PlacementDescriptor =
  pd_key :: "PbKey option"
  pd_placement_epoch :: nat
  pd_placement_policy_id :: string
  pd_layout_hash :: string
  pd_primary_node_id :: string
  pd_primary_grpc_endpoint :: string
  pd_primary_rdma_endpoint :: string
  pd_chunks :: "PlacementChunk list"

record DataChunk =
  dc_data :: bytes
  dc_offset :: int
  dc_total_size :: int
  dc_is_last :: bool

definition pb_key_to_internal :: "PbKey \<Rightarrow> ObjectKey" where
  "pb_key_to_internal k = \<lparr> namespace = pk_namespace k, object_key = pk_object_key k \<rparr>"

definition internal_key_to_pb :: "ObjectKey \<Rightarrow> PbKey" where
  "internal_key_to_pb k = \<lparr> pk_namespace = namespace k, pk_object_key = object_key k \<rparr>"

definition meta_from_pb :: "int \<Rightarrow> KvMetadata option \<Rightarrow> PutOptions option \<Rightarrow> BlockMeta" where
  "meta_from_pb now m options =
     (let ttl = (case options of None \<Rightarrow> 0 | Some opts \<Rightarrow> max (po_ttl_seconds opts) 0) in
      case m of
        Some m \<Rightarrow>
          \<lparr> device_id = 0, file_path = [], bm_size = 0, object_handle = [], object_generation = 1, content_etag = [],
            layout_version = 1, created_at = (if km_created_at m > 0 then km_created_at m else now), last_accessed_at = now,
            ttl_seconds = ttl, num_tokens = km_num_tokens m, num_layers = km_num_layers m, dtype = km_dtype m,
            compressed = km_compressed m, striping = None \<rparr>
      | None \<Rightarrow>
          \<lparr> device_id = 0, file_path = [], bm_size = 0, object_handle = [], object_generation = 1, content_etag = [],
            layout_version = 1, created_at = now, last_accessed_at = now, ttl_seconds = ttl, num_tokens = 0,
            num_layers = 0, dtype = ''bfloat16'', compressed = False, striping = None \<rparr>)"

definition meta_to_pb :: "BlockMeta \<Rightarrow> KvMetadata" where
  "meta_to_pb m =
     \<lparr> km_num_tokens = num_tokens m, km_num_layers = num_layers m, km_dtype = dtype m, km_compressed = compressed m,
       km_created_at = created_at m, km_last_accessed_at = last_accessed_at m \<rparr>"

definition put_options_if_not_exists :: "PutOptions option \<Rightarrow> bool" where
  "put_options_if_not_exists options = (case options of None \<Rightarrow> False | Some opts \<Rightarrow> po_if_not_exists opts)"

definition starts_with :: "string \<Rightarrow> string \<Rightarrow> bool" where
  "starts_with p s \<longleftrightarrow> take (length p) s = p"

definition grpc_uri :: "string \<Rightarrow> string" where
  "grpc_uri endpoint =
     (if starts_with ''http://'' endpoint \<or> starts_with ''https://'' endpoint then endpoint else ''http://'' @ endpoint)"


section \<open>Topology\<close>

record DataNode =
  dn_node_id :: string
  dn_grpc_endpoint :: string
  dn_rdma_endpoint :: string

record ('x, 'm, 'c, 'd) KVServiceContext =
  cx_config :: config
  cx_env :: "string \<Rightarrow> string option"
  cx_memory :: "('x, 'm, 'c, 'd) MemoryEnv"

abbreviation cx_storage :: "('x, 'm, 'c, 'd) KVServiceContext \<Rightarrow> ('x, 'm) StorageEnv" where
  "cx_storage cx \<equiv> me_storage (cx_memory cx)"

definition env_or :: "string option \<Rightarrow> string \<Rightarrow> string \<Rightarrow> string" where
  "env_or v configured fallback =
     (case v of
        Some x \<Rightarrow> if x \<noteq> [] then x else if configured \<noteq> [] then configured else fallback
      | None \<Rightarrow> if configured \<noteq> [] then configured else fallback)"

definition local_node :: "('x, 'm, 'c, 'd) KVServiceContext \<Rightarrow> DataNode" where
  "local_node cx =
     (let cl = cfg_cluster (cx_config cx) in
      \<lparr> dn_node_id = env_or (cx_env cx ''CS_NODE_ID'') (cl_node_id cl) ''local'',
        dn_grpc_endpoint = env_or (cx_env cx ''CS_GRPC_ADVERTISE'') (cl_grpc_advertise cl) (api_listen (cfg_api (cx_config cx))),
        dn_rdma_endpoint = env_or (cx_env cx ''CS_RDMA_ADVERTISE'') (cl_rdma_advertise cl) [] \<rparr>)"

definition configured_data_nodes :: "('x, 'm, 'c, 'd) KVServiceContext \<Rightarrow> DataNode list" where
  "configured_data_nodes cx =
     (let ns = cl_data_nodes (cfg_cluster (cx_config cx)) in
      if ns = [] then [local_node cx]
      else map (\<lambda>n. \<lparr> dn_node_id = (if cn_node_id n = [] then cn_grpc_endpoint n else cn_node_id n),
                      dn_grpc_endpoint = cn_grpc_endpoint n, dn_rdma_endpoint = cn_rdma_endpoint n \<rparr>) ns)"

definition is_local_node :: "('x, 'm, 'c, 'd) KVServiceContext \<Rightarrow> DataNode \<Rightarrow> bool" where
  "is_local_node cx node \<longleftrightarrow>
     dn_node_id node = dn_node_id (local_node cx) \<or> dn_grpc_endpoint node = dn_grpc_endpoint (local_node cx)"

definition distributed_placement_enabled :: "('x, 'm, 'c, 'd) KVServiceContext \<Rightarrow> nat \<Rightarrow> bool" where
  "distributed_placement_enabled cx len \<longleftrightarrow>
     se_striping_threshold (cx_storage cx) > 0 \<and> len > se_striping_threshold (cx_storage cx)
     \<and> length (configured_data_nodes cx) > 1"

definition placement_base :: "('x, 'm, 'c, 'd) KVServiceContext \<Rightarrow> ObjectKey \<Rightarrow> nat" where
  "placement_base cx key =
     unat (hash64 (se_hash (cx_storage cx)) (as_bytes (to_string_key key))) mod length (configured_data_nodes cx)"

definition placement_slot :: "('x, 'm, 'c, 'd) KVServiceContext \<Rightarrow> ObjectKey \<Rightarrow> nat \<Rightarrow> nat" where
  "placement_slot cx key stripe_index = wadd64 (placement_base cx key) stripe_index mod length (configured_data_nodes cx)"

definition select_data_node :: "('x, 'm, 'c, 'd) KVServiceContext \<Rightarrow> ObjectKey \<Rightarrow> nat \<Rightarrow> DataNode" where
  "select_data_node cx key stripe_index = configured_data_nodes cx ! placement_slot cx key stripe_index"

definition local_device_stripe_index :: "('x, 'm, 'c, 'd) KVServiceContext \<Rightarrow> ObjectKey \<Rightarrow> nat \<Rightarrow> nat option" where
  "local_device_stripe_index cx key stripe_index =
     (let nodes = configured_data_nodes cx;
          local_count = length (filter (is_local_node cx) nodes)
      in if local_count = 0 then None
         else if \<not> is_local_node cx (select_data_node cx key stripe_index) then None
         else
           let full_cycles = stripe_index div length nodes;
               remainder = stripe_index mod length nodes;
               local_in_partial_cycle =
                 length (filter (\<lambda>offset. is_local_node cx (select_data_node cx key offset)) [0 ..< Suc remainder])
           in Some (wadd64 (wmul64 full_cycles local_count) local_in_partial_cycle - 1))"

definition placement_policy_id :: "('x, 'm, 'c, 'd) KVServiceContext \<Rightarrow> string" where
  "placement_policy_id cx = rc_strategy (cfg_router (cx_config cx)) @ ''_v1''"

definition placement_epoch :: "('x, 'm, 'c, 'd) KVServiceContext \<Rightarrow> nat" where
  "placement_epoch cx =
     (let E = cx_storage cx;
          seed = ''policy='' @ placement_policy_id cx @ ''|striping_threshold='' @ dec (se_striping_threshold E)
            @ ''|striping_chunk_size='' @ dec (se_striping_chunk_size E) @ ''|devices='' @ dec (num_devices (se_router E))
            @ concat (map (\<lambda>(idx, node). ''|node'' @ dec idx @ ''='' @ dn_node_id node @ '':'' @ dn_grpc_endpoint node
                @ '':'' @ dn_rdma_endpoint node) (enumerate 0 (configured_data_nodes cx)))
      in max (unat (hash64 (se_hash E) (as_bytes seed))) 1)"


section \<open>Descriptors\<close>

definition chunk_location_to_pb :: "ObjectKey \<Rightarrow> ChunkLocation \<Rightarrow> PlacementChunk" where
  "chunk_location_to_pb key loc =
     \<lparr> pc_stripe_index = cl_stripe_index loc, pc_node_id = cl_node loc, pc_grpc_endpoint = cl_grpc_endpoint loc,
       pc_rdma_endpoint = cl_rdma_endpoint loc, pc_device_id = cl_device_id loc, pc_storage_handle = cl_storage_handle loc,
       pc_offset = cl_offset loc, pc_length = cl_length loc, pc_checksum = cl_checksum loc \<rparr>"

definition pb_chunk_to_location :: "PlacementChunk \<Rightarrow> ChunkLocation" where
  "pb_chunk_to_location c =
     \<lparr> cl_stripe_index = pc_stripe_index c, cl_node = pc_node_id c, cl_grpc_endpoint = pc_grpc_endpoint c,
       cl_rdma_endpoint = pc_rdma_endpoint c, cl_device_id = pc_device_id c, cl_storage_handle = pc_storage_handle c,
       cl_offset = pc_offset c, cl_length = pc_length c, cl_checksum = pc_checksum c \<rparr>"

definition service_object_handle :: "ObjectKey \<Rightarrow> BlockMeta \<Rightarrow> string" where
  "service_object_handle key meta =
     (if object_handle meta \<noteq> [] then object_handle meta
      else ''v1:'' @ to_string_key key @ '':g'' @ dec (object_generation meta) @ '':l'' @ dec (layout_version meta))"

definition descriptor_from_meta :: "ObjectKey \<Rightarrow> BlockMeta \<Rightarrow> ObjectDescriptor" where
  "descriptor_from_meta key meta =
     (let (is_striped, stripes, chunk_sz) = (case striping meta of
          Some stripe \<Rightarrow> (True, as_u32 (length (chunk_paths stripe)), chunk_size stripe)
        | None \<Rightarrow> (False, 0, 0))
      in \<lparr> od_key = Some (internal_key_to_pb key), od_object_handle = service_object_handle key meta,
           od_object_generation = object_generation meta, od_content_etag = content_etag meta,
           od_layout_version = layout_version meta, od_size = bm_size meta, od_is_striped = is_striped,
           od_stripe_count = stripes, od_chunk_size = chunk_sz \<rparr>)"

definition make_distributed_descriptor :: "ObjectKey \<Rightarrow> BlockMeta \<Rightarrow> nat \<Rightarrow> nat \<Rightarrow> ObjectDescriptor" where
  "make_distributed_descriptor key meta stripes chunk_sz =
     (descriptor_from_meta key meta)\<lparr> od_is_striped := True, od_stripe_count := as_u32 stripes, od_chunk_size := chunk_sz \<rparr>"

definition local_chunk :: "DataNode \<Rightarrow> StripingInfo \<Rightarrow> nat \<times> string \<Rightarrow> PlacementChunk" where
  "local_chunk loc stripe p =
     (case p of (idx, path) \<Rightarrow>
        let offset = wmul64 idx (chunk_size stripe); length = min (total_size stripe - offset) (chunk_size stripe) in
        \<lparr> pc_stripe_index = as_u32 idx, pc_node_id = dn_node_id loc, pc_grpc_endpoint = dn_grpc_endpoint loc,
          pc_rdma_endpoint = dn_rdma_endpoint loc,
          pc_device_id = (if idx < List.length (chunk_devices stripe) then chunk_devices stripe ! idx else 0),
          pc_storage_handle = path, pc_offset = offset, pc_length = length,
          pc_checksum = (if idx < List.length (chunk_checksums stripe) then chunk_checksums stripe ! idx else []) \<rparr>)"

definition placement_chunks :: "('x, 'm, 'c, 'd) KVServiceContext \<Rightarrow> ObjectKey \<Rightarrow> BlockMeta \<Rightarrow> PlacementChunk list" where
  "placement_chunks cx key meta =
     (case striping meta of
        Some stripe \<Rightarrow>
          if length (chunk_locations stripe) = length (chunk_paths stripe)
          then map (chunk_location_to_pb key) (chunk_locations stripe)
          else map (local_chunk (local_node cx) stripe) (enumerate 0 (chunk_paths stripe))
      | None \<Rightarrow>
          [\<lparr> pc_stripe_index = 0, pc_node_id = dn_node_id (local_node cx), pc_grpc_endpoint = dn_grpc_endpoint (local_node cx),
             pc_rdma_endpoint = dn_rdma_endpoint (local_node cx), pc_device_id = device_id meta,
             pc_storage_handle = file_path meta, pc_offset = 0, pc_length = bm_size meta, pc_checksum = [] \<rparr>])"

definition placement_from_meta :: "('x, 'm, 'c, 'd) KVServiceContext \<Rightarrow> ObjectKey \<Rightarrow> BlockMeta \<Rightarrow> PlacementDescriptor" where
  "placement_from_meta cx key meta =
     (let chunks = placement_chunks cx key meta;
          seed = to_string_key key @ ''|g'' @ dec (object_generation meta) @ ''|l'' @ dec (layout_version meta)
            @ ''|epoch'' @ dec (placement_epoch cx) @ ''|'' @ placement_policy_id cx @ ''|'' @ dec (length chunks)
            @ concat (map (\<lambda>c. ''|'' @ dec (pc_stripe_index c) @ '':'' @ pc_node_id c @ '':'' @ dec (pc_device_id c) @ '':''
                @ dec (pc_offset c) @ '':'' @ pc_storage_handle c) chunks)
      in \<lparr> pd_key = Some (internal_key_to_pb key), pd_placement_epoch = placement_epoch cx,
           pd_placement_policy_id = placement_policy_id cx,
           pd_layout_hash = hex16 (hash64 (se_hash (cx_storage cx)) (as_bytes seed)),
           pd_primary_node_id = dn_node_id (local_node cx), pd_primary_grpc_endpoint = dn_grpc_endpoint (local_node cx),
           pd_primary_rdma_endpoint = dn_rdma_endpoint (local_node cx), pd_chunks = chunks \<rparr>)"

definition chunk_node :: "PlacementChunk \<Rightarrow> DataNode" where
  "chunk_node c = \<lparr> dn_node_id = pc_node_id c, dn_grpc_endpoint = pc_grpc_endpoint c, dn_rdma_endpoint = pc_rdma_endpoint c \<rparr>"

definition placement_has_remote_chunks :: "('x, 'm, 'c, 'd) KVServiceContext \<Rightarrow> PlacementDescriptor \<Rightarrow> bool" where
  "placement_has_remote_chunks cx placement = list_ex (\<lambda>c. \<not> is_local_node cx (chunk_node c)) (pd_chunks placement)"

type_synonym 'a sres = "grpc_status + 'a"

definition key_from_descriptor :: "ObjectDescriptor \<Rightarrow> ObjectKey sres" where
  "key_from_descriptor desc =
     (case od_key desc of
        None \<Rightarrow> Inl (Status Code_InvalidArgument ''descriptor missing key'')
      | Some k \<Rightarrow> Inr (pb_key_to_internal k))"

definition validate_descriptor :: "ObjectDescriptor \<Rightarrow> BlockMeta \<Rightarrow> unit sres" where
  "validate_descriptor desc meta =
     (if od_object_generation desc \<noteq> object_generation meta \<or> od_content_etag desc \<noteq> content_etag meta
         \<or> od_layout_version desc \<noteq> layout_version meta \<or> od_size desc \<noteq> bm_size meta
         \<or> od_object_handle desc \<noteq> object_handle meta
      then Inl (Status Code_FailedPrecondition ''stale descriptor'')
      else Inr ())"

definition validate_placement_descriptor ::
  "('x, 'm, 'c, 'd) KVServiceContext \<Rightarrow> ObjectKey \<Rightarrow> BlockMeta \<Rightarrow> PlacementDescriptor option \<Rightarrow> unit sres" where
  "validate_placement_descriptor cx key meta placement =
     (case placement of
        None \<Rightarrow> Inr ()
      | Some p \<Rightarrow>
          (case pd_key p of
             None \<Rightarrow> Inl (Status Code_InvalidArgument ''placement descriptor missing key'')
           | Some k \<Rightarrow>
               if pb_key_to_internal k \<noteq> key then Inl (Status Code_FailedPrecondition ''stale placement descriptor'')
               else
                 let expected = placement_from_meta cx key meta in
                 if pd_placement_epoch p \<noteq> pd_placement_epoch expected
                    \<or> pd_placement_policy_id p \<noteq> pd_placement_policy_id expected
                    \<or> pd_layout_hash p \<noteq> pd_layout_hash expected
                 then Inl (Status Code_FailedPrecondition ''stale placement descriptor'')
                 else Inr ()))"


section \<open>Stream messages\<close>

definition SUB_CHUNK :: nat where
  "SUB_CHUNK = 4 * 1024 * 1024"

definition sub_chunks :: "bytes \<Rightarrow> (nat \<times> bytes) list" where
  "sub_chunks seg =
     map (\<lambda>i. let start = i * SUB_CHUNK; stop = min (start + SUB_CHUNK) (length seg) in (start, take (stop - start) (drop start seg)))
       [0 ..< div_ceil (length seg) SUB_CHUNK]"

fun stream_chunks :: "int \<Rightarrow> int \<Rightarrow> bytes list \<Rightarrow> DataChunk list" where
  "stream_chunks tot running [] = []"
| "stream_chunks tot running (seg # segs) =
     map (\<lambda>(start, d). \<lparr> dc_data = d, dc_offset = running + int start, dc_total_size = tot, dc_is_last = False \<rparr>) (sub_chunks seg)
     @ stream_chunks tot (running + int (length seg)) segs"

fun mark_last :: "DataChunk list \<Rightarrow> DataChunk list" where
  "mark_last [] = []"
| "mark_last [c] = [c\<lparr> dc_is_last := True \<rparr>]"
| "mark_last (c # cs) = c # mark_last cs"

definition stream_segments :: "bytes list \<Rightarrow> DataChunk list" where
  "stream_segments segments = mark_last (stream_chunks (int (length (concat segments))) 0 segments)"

text \<open>The chunk stream of \<open>read_placement_chunk\<close>: offsets are those of the stripe in the object.\<close>

definition placement_stream :: "PlacementChunk \<Rightarrow> bytes \<Rightarrow> DataChunk list" where
  "placement_stream chunk data = mark_last
     (map (\<lambda>(start, d). \<lparr> dc_data = d, dc_offset = int (pc_offset chunk) + int start, dc_total_size = int (pc_length chunk),
         dc_is_last = False \<rparr>) (sub_chunks data))"

definition flatten_segments :: "bytes list \<Rightarrow> bytes" where
  "flatten_segments segments = concat segments"


section \<open>Stream lemmas\<close>

lemma div_ceil_mult: "0 < b \<Longrightarrow> a \<le> div_ceil a b * b"
  using div_ceil_less_iff [of b "div_ceil a b" a] by simp

lemma div_ceil_less: "i < div_ceil a b \<Longrightarrow> 0 < b \<Longrightarrow> i * b < a"
  by (simp add: div_ceil_less_iff)

lemma concat_pieces:
  assumes "0 < c"
  shows "concat (map (\<lambda>i. take (min (i * c + c) (length xs) - i * c) (drop (i * c) xs)) [0 ..< n]) = take (n * c) xs"
proof (induction n)
  case (Suc n)
  have "take (min (n * c + c) (length xs) - n * c) (drop (n * c) xs) = take c (drop (n * c) xs)"
    by (cases "length xs \<le> n * c + c") (simp_all add: min_def)
  then show ?case using Suc by (simp add: take_add [symmetric] add.commute)
qed simp

lemma sub_chunks_data: "concat (map snd (sub_chunks seg)) = seg"
proof -
  have "concat (map snd (sub_chunks seg)) = take (div_ceil (length seg) SUB_CHUNK * SUB_CHUNK) seg"
    using concat_pieces [of SUB_CHUNK seg "div_ceil (length seg) SUB_CHUNK"]
    by (simp add: sub_chunks_def comp_def Let_def SUB_CHUNK_def)
  then show ?thesis using div_ceil_mult [of SUB_CHUNK "length seg"] by (simp add: SUB_CHUNK_def)
qed

lemma sub_chunks_size: "(start, d) \<in> set (sub_chunks seg) \<Longrightarrow> 0 < length d \<and> length d \<le> SUB_CHUNK"
proof -
  assume "(start, d) \<in> set (sub_chunks seg)"
  then obtain i where i: "i < div_ceil (length seg) SUB_CHUNK"
    "d = take (min (i * SUB_CHUNK + SUB_CHUNK) (length seg) - i * SUB_CHUNK) (drop (i * SUB_CHUNK) seg)"
    by (auto simp: sub_chunks_def Let_def)
  have "i * SUB_CHUNK < length seg" "0 < SUB_CHUNK" using div_ceil_less [OF i(1)] by (simp_all add: SUB_CHUNK_def)
  then show "0 < length d \<and> length d \<le> SUB_CHUNK" unfolding i(2) by (simp add: min_def) linarith
qed

lemma sub_chunks_start:
  assumes "k < length (sub_chunks seg)"
  shows "fst (sub_chunks seg ! k) = length (concat (map snd (take k (sub_chunks seg))))"
proof -
  let ?n = "div_ceil (length seg) SUB_CHUNK"
  have k: "k < ?n" using assms by (simp add: sub_chunks_def)
  have "take k (sub_chunks seg) = map (\<lambda>i. let start = i * SUB_CHUNK; stop = min (start + SUB_CHUNK) (length seg)
      in (start, take (stop - start) (drop start seg))) [0 ..< k]"
    using k by (simp add: sub_chunks_def take_map)
  then have "concat (map snd (take k (sub_chunks seg))) = take (k * SUB_CHUNK) seg"
    using concat_pieces [of SUB_CHUNK seg k] by (simp add: comp_def Let_def SUB_CHUNK_def)
  moreover have "k * SUB_CHUNK < length seg" by (rule div_ceil_less [OF k]) (simp add: SUB_CHUNK_def)
  ultimately show ?thesis using k by (simp add: sub_chunks_def Let_def)
qed

text \<open>A message list is well laid out from a running offset on: each offset continues where the last one ended.\<close>

fun laid_out :: "int \<Rightarrow> int \<Rightarrow> DataChunk list \<Rightarrow> bool" where
  "laid_out tot off [] = True"
| "laid_out tot off (c # cs) = (dc_offset c = off \<and> dc_total_size c = tot \<and> 0 < length (dc_data c) \<and> length (dc_data c) \<le> SUB_CHUNK
     \<and> laid_out tot (off + int (length (dc_data c))) cs)"

lemma laid_out_append: "laid_out tot off (xs @ ys) \<longleftrightarrow> laid_out tot off xs \<and> laid_out tot (off + int (length (concat (map dc_data xs)))) ys"
  by (induction xs arbitrary: off) (auto simp: algebra_simps)

lemma laid_out_map:
  assumes "\<And>k. k < length ps \<Longrightarrow> fst (ps ! k) = base + length (concat (map snd (take k ps)))"
    "\<And>start d. (start, d) \<in> set ps \<Longrightarrow> 0 < length d \<and> length d \<le> SUB_CHUNK"
  shows "laid_out tot (running + int base)
    (map (\<lambda>(start, d). \<lparr> dc_data = d, dc_offset = running + int start, dc_total_size = tot, dc_is_last = False \<rparr>) ps)"
  using assms
proof (induction ps arbitrary: base)
  case (Cons p ps)
  obtain start d where p: "p = (start, d)" by fastforce
  have "start = base" using Cons.prems(1) [of 0] p by simp
  moreover have "fst (ps ! k) = (base + length d) + length (concat (map snd (take k ps)))" if "k < length ps" for k
    using Cons.prems(1) [of "Suc k"] that p by simp
  moreover have "0 < length d \<and> length d \<le> SUB_CHUNK" using Cons.prems(2) [of start d] p by simp
  moreover have "\<And>start d. (start, d) \<in> set ps \<Longrightarrow> 0 < length d \<and> length d \<le> SUB_CHUNK"
    using Cons.prems(2) by (meson list.set_intros(2))
  ultimately show ?case using Cons.IH [of "base + length d"] p by (simp add: algebra_simps)
qed simp

lemma stream_chunks_ok:
  "concat (map dc_data (stream_chunks tot running segs)) = concat segs \<and> laid_out tot running (stream_chunks tot running segs)
   \<and> (\<forall>c \<in> set (stream_chunks tot running segs). \<not> dc_is_last c)"
proof (induction segs arbitrary: running)
  case (Cons seg segs)
  let ?ps = "map (\<lambda>(start, d). \<lparr> dc_data = d, dc_offset = running + int start, dc_total_size = tot, dc_is_last = False \<rparr>) (sub_chunks seg)"
  have d: "concat (map dc_data ?ps) = seg" using sub_chunks_data [of seg] by (simp add: comp_def case_prod_beta)
  have "laid_out tot (running + int 0) ?ps" by (rule laid_out_map) (simp add: sub_chunks_start, rule sub_chunks_size)
  then show ?case using Cons [of "running + int (length seg)"] d by (auto simp: laid_out_append)
qed simp

lemma mark_last_ok:
  "map dc_data (mark_last cs) = map dc_data cs" "laid_out tot off (mark_last cs) = laid_out tot off cs"
  "cs \<noteq> [] \<Longrightarrow> \<forall>c \<in> set cs. \<not> dc_is_last c \<Longrightarrow>
     dc_is_last (last (mark_last cs)) \<and> (\<forall>c \<in> set (butlast (mark_last cs)). \<not> dc_is_last c)"
proof -
  show "map dc_data (mark_last cs) = map dc_data cs" by (induction cs rule: mark_last.induct) simp_all
  show "laid_out tot off (mark_last cs) = laid_out tot off cs" by (induction cs arbitrary: off rule: mark_last.induct) simp_all
  show "cs \<noteq> [] \<Longrightarrow> \<forall>c \<in> set cs. \<not> dc_is_last c \<Longrightarrow>
     dc_is_last (last (mark_last cs)) \<and> (\<forall>c \<in> set (butlast (mark_last cs)). \<not> dc_is_last c)"
  proof (induction cs rule: mark_last.induct)
    case (3 c c' cs)
    moreover have "mark_last (c' # cs) \<noteq> []" by (cases cs) simp_all
    ultimately show ?case by auto
  qed simp_all
qed


section \<open>Round-robin placement\<close>

lemma count_periodic:
  assumes "0 < n" "\<And>j. f (j + n) = f j"
  shows "card {j. j < q * n + r \<and> f j} = q * card {j. j < n \<and> f j} + card {j. j < r \<and> f j}"
proof (induction q)
  case (Suc q)
  have per: "f (j + q * n) = f j" for j q by (induction q) (simp_all add: assms(2) add.assoc [symmetric] add.commute [of n])
  have split: "{j. j < Suc q * n + r \<and> f j} = {j. j < n \<and> f j} \<union> (\<lambda>j. j + n) ` {j. j < q * n + r \<and> f j}"
  proof (intro set_eqI iffI)
    fix j assume j: "j \<in> {j. j < Suc q * n + r \<and> f j}"
    show "j \<in> {j. j < n \<and> f j} \<union> (\<lambda>j. j + n) ` {j. j < q * n + r \<and> f j}"
    proof (cases "j < n")
      case False
      then have "j = (j - n) + n" "f (j - n)" using j assms(2) [of "j - n"] by auto
      moreover have "j - n < q * n + r" using j False by auto
      ultimately show ?thesis by blast
    qed (use j in simp)
  qed (auto simp: assms(2))
  have "card {j. j < Suc q * n + r \<and> f j} = card {j. j < n \<and> f j} + card ((\<lambda>j. j + n) ` {j. j < q * n + r \<and> f j})"
    unfolding split by (rule card_Un_disjoint) auto
  also have "card ((\<lambda>j. j + n) ` {j. j < q * n + r \<and> f j}) = card {j. j < q * n + r \<and> f j}"
    by (rule card_image) (simp add: inj_on_def)
  finally show ?case using Suc by simp
qed simp

lemma card_rotate:
  assumes "0 < (n :: nat)"
  shows "card {j. j < n \<and> P ((b + j) mod n)} = card {j. j < n \<and> P j}"
proof -
  have inj: "inj_on (\<lambda>j. (b + j) mod n) {..< n}"
    by (rule inj_onI) (auto intro: mod_add_inj_window)
  have sur: "(\<lambda>j. (b + j) mod n) ` {..< n} = {..< n}"
    by (rule endo_inj_surj [OF _ _ inj]) (use assms in auto)
  have im: "(\<lambda>j. (b + j) mod n) ` {j. j < n \<and> P ((b + j) mod n)} = {j. j < n \<and> P j}"
  proof (intro set_eqI iffI)
    fix k assume "k \<in> {j. j < n \<and> P j}"
    then have "k \<in> (\<lambda>j. (b + j) mod n) ` {..< n}" "P k" using sur by auto
    then show "k \<in> (\<lambda>j. (b + j) mod n) ` {j. j < n \<and> P ((b + j) mod n)}" by auto
  qed (use assms in auto)
  have "inj_on (\<lambda>j. (b + j) mod n) {j. j < n \<and> P ((b + j) mod n)}" by (rule inj_on_subset [OF inj]) auto
  from card_image [OF this] show ?thesis by (simp only: im)
qed

lemma mark_last_flags:
  "\<forall>c \<in> set cs. \<not> dc_is_last c \<Longrightarrow> map dc_is_last (mark_last cs) = map (\<lambda>i. Suc i = length cs) [0 ..< length cs]"
proof (induction cs rule: mark_last.induct)
  case (3 c c' cs)
  have "map (\<lambda>i. Suc i = length (c # c' # cs)) [0 ..< length (c # c' # cs)]
      = False # map (\<lambda>i. Suc i = length (c' # cs)) [0 ..< length (c' # cs)]"
    by (simp add: upt_conv_Cons comp_def del: upt_Suc flip: map_Suc_upt)
  then show ?case using 3 by simp
qed simp_all

lemma length_mark_last [simp]: "length (mark_last cs) = length cs"
  using arg_cong [OF mark_last_ok(1), of length cs] by simp

lemma configured_not_Nil [simp]: "configured_data_nodes cx \<noteq> []"
  by (simp add: configured_data_nodes_def Let_def)

lemma placement_slot_exact:
  assumes "i + length (configured_data_nodes cx) < 2 ^ 64"
  shows "placement_slot cx key i = (placement_base cx key + i) mod length (configured_data_nodes cx)"
proof -
  have "placement_base cx key < length (configured_data_nodes cx)" by (simp add: placement_base_def)
  then have "placement_base cx key + i < 2 ^ 64" using assms by linarith
  then show ?thesis by (simp add: placement_slot_def wadd64_exact)
qed


definition sample_node :: "string \<Rightarrow> cluster_node_config" where
  "sample_node n = \<lparr> cn_node_id = n, cn_grpc_endpoint = n @ '':50051'', cn_rdma_endpoint = n @ '':18515'' \<rparr>"

definition sample_nodes :: cluster_config where
  "sample_nodes = \<lparr> cl_node_id = ''a'', cl_grpc_advertise = ''a:50051'', cl_rdma_advertise = [],
     cl_data_nodes = [sample_node ''a'', sample_node ''b'', sample_node ''a''] \<rparr>"

definition sample_cx ::
  "(world, BlockMeta MemoryMetadataInner, CacheEntry lru_list, ChunksCacheEntry lru_list) KVServiceContext" where
  "sample_cx = \<lparr> cx_config = default_config\<lparr> cfg_cluster := sample_nodes \<rparr>, cx_env = (\<lambda>_. None),
     cx_memory = \<lparr> me_storage = sample_env, me_capacity_bytes = 1048576, me_cache = lru_list_ops, me_chunks = lru_list_ops \<rparr> \<rparr>"


section \<open>Properties\<close>

text \<open>
  C35. Disks rotate independently on every node.  The closed form the code computes for the device
  ordinal of a stripe is the number of earlier stripes of the object that go to this node, also when
  the node is listed more than once; and it is refused exactly for the stripes of other nodes.
\<close>

theorem local_stripe_ordinal:
  assumes "i + length (configured_data_nodes cx) < 2 ^ 64"
  shows "local_device_stripe_index cx key i =
    (if is_local_node cx (select_data_node cx key i)
     then Some (card {j. j < i \<and> is_local_node cx (select_data_node cx key j)}) else None)"
proof -
  let ?nodes = "configured_data_nodes cx" and ?n = "length (configured_data_nodes cx)" and ?b = "placement_base cx key"
  define P where "P k = is_local_node cx (?nodes ! k)" for k
  define f where "f j = P ((?b + j) mod ?n)" for j
  have sel: "is_local_node cx (select_data_node cx key j) = f j" if "j \<le> i" for j
    using placement_slot_exact [of j cx key] that assms by (simp add: select_data_node_def f_def P_def)
  have n: "0 < ?n" by simp
  have cnt: "length (filter (is_local_node cx) ?nodes) = card {j. j < ?n \<and> P j}"
    by (simp add: length_filter_conv_card P_def)
  let ?q = "i div ?n" and ?r = "i mod ?n"
  have i: "i = ?q * ?n + ?r" by simp
  have "card {j. j < i \<and> f j} = ?q * card {j. j < ?n \<and> f j} + card {j. j < ?r \<and> f j}"
    by (subst i, rule count_periodic [OF n]) (simp add: f_def flip: add.assoc)
  moreover have "card {j. j < ?n \<and> f j} = card {j. j < ?n \<and> P j}" unfolding f_def by (rule card_rotate [OF n])
  ultimately have ord: "card {j. j < i \<and> f j} = ?q * card {j. j < ?n \<and> P j} + card {j. j < ?r \<and> f j}" by simp
  have set_eq: "{j. j < i \<and> is_local_node cx (select_data_node cx key j)} = {j. j < i \<and> f j}" using sel by auto
  show ?thesis
  proof (cases "f i")
    case False
    then show ?thesis using sel [of i] by (simp add: local_device_stripe_index_def Let_def)
  next
    case True
    have "(?b + i) mod ?n < ?n" by simp
    then have "(?b + i) mod ?n \<in> {j. j < ?n \<and> P j}" using True by (simp add: f_def)
    moreover have "finite {j. j < ?n \<and> P j}" by simp
    ultimately have pos: "card {j. j < ?n \<and> P j} \<noteq> 0" by (metis card_eq_0_iff empty_iff)
    have fr: "f ?r" using True by (simp add: f_def mod_add_right_eq)
    have "length (filter (\<lambda>offset. is_local_node cx (select_data_node cx key offset)) [0 ..< Suc ?r])
        = length (filter f [0 ..< Suc ?r])"
    proof (rule arg_cong [where f = length], rule filter_cong [OF refl])
      fix j assume "j \<in> set [0 ..< Suc ?r]"
      then have "j \<le> ?r" by auto
      then have "j \<le> i" using mod_less_eq_dividend order.trans by blast
      then show "is_local_node cx (select_data_node cx key j) = f j" by (rule sel)
    qed
    also have "\<dots> = card {j. j < Suc ?r \<and> f j}"
    proof -
      have "distinct (filter f [0 ..< Suc ?r])" by (simp del: upt_Suc)
      from distinct_card [OF this] show ?thesis by (simp add: conj_commute del: upt_Suc cong: conj_cong)
    qed
    also have "{j. j < Suc ?r \<and> f j} = insert ?r {j. j < ?r \<and> f j}" using fr by (auto simp: less_Suc_eq)
    also have "card \<dots> = Suc (card {j. j < ?r \<and> f j})" by simp
    finally have part: "length (filter (\<lambda>offset. is_local_node cx (select_data_node cx key offset)) [0 ..< Suc ?r])
        = Suc (card {j. j < ?r \<and> f j})" .
    have "card {j. j < i \<and> f j} \<le> i" using card_mono [of "{..< i}" "{j. j < i \<and> f j}"] by auto
    then have "?q * card {j. j < ?n \<and> P j} + Suc (card {j. j < ?r \<and> f j}) < 2 ^ 64" using ord assms n by linarith
    then have "wadd64 (wmul64 ?q (card {j. j < ?n \<and> P j})) (Suc (card {j. j < ?r \<and> f j})) - 1 = card {j. j < i \<and> f j}"
      using ord by (simp add: wadd64_def wmul64_def)
    moreover have "length (filter (is_local_node cx) ?nodes) \<noteq> 0" unfolding cnt by (rule pos)
    ultimately show ?thesis
      unfolding local_device_stripe_index_def Let_def set_eq part using True sel [of i] cnt by simp
  qed
qed

theorem local_stripe_ordinal_witness:
  "local_device_stripe_index sample_cx sample_key 3 =
    (if is_local_node sample_cx (select_data_node sample_cx sample_key 3)
     then Some (card {j. j < 3 \<and> is_local_node sample_cx (select_data_node sample_cx sample_key j)}) else None)"
  by (rule local_stripe_ordinal) (simp add: sample_cx_def sample_nodes_def sample_node_def configured_data_nodes_def)

text \<open>
  C36. Streaming loses nothing.  The messages of a streamed read concatenate to the object; each is
  between one byte and 4 MiB, starts where the previous one ended, carries the total size, and
  exactly the final one is marked as last.  (An empty object has no message at all.)
\<close>

theorem stream_messages_exact:
  "concat (map dc_data (stream_segments segs)) = concat segs
   \<and> laid_out (int (length (concat segs))) 0 (stream_segments segs)
   \<and> map dc_is_last (stream_segments segs) = map (\<lambda>i. Suc i = length (stream_segments segs)) [0 ..< length (stream_segments segs)]"
  using stream_chunks_ok [of "int (length (concat segs))" 0 segs]
  by (simp add: stream_segments_def mark_last_ok mark_last_flags)

text \<open>
  Which descriptors are accepted.  The placement handed out for an object is accepted for it; its
  descriptor is accepted exactly when the metadata has an object handle.  For metadata without one a
  handle is made up for the descriptor, and the comparison with the stored, empty handle rejects it.
\<close>

theorem descriptor_accepted_iff:
  "(validate_descriptor (descriptor_from_meta key m) m = Inr () \<longleftrightarrow> object_handle m \<noteq> [])
   \<and> validate_placement_descriptor cx key m (Some (placement_from_meta cx key m)) = Inr ()"
proof
  show "validate_descriptor (descriptor_from_meta key m) m = Inr () \<longleftrightarrow> object_handle m \<noteq> []"
    by (cases "striping m") (simp_all add: validate_descriptor_def descriptor_from_meta_def service_object_handle_def)
  have "pd_key (placement_from_meta cx key m) = Some (internal_key_to_pb key)" by (simp add: placement_from_meta_def Let_def)
  moreover have "pb_key_to_internal (internal_key_to_pb key) = key" by (simp add: pb_key_to_internal_def internal_key_to_pb_def)
  ultimately show "validate_placement_descriptor cx key m (Some (placement_from_meta cx key m)) = Inr ()"
    by (simp add: validate_placement_descriptor_def)
qed

end
