(* ===== verification/Service.thy ===== *)
theory Service
  imports Placement
begin

text \<open>
  The stateful part of \<open>api/service.rs\<close>: the coordinator's distributed reads and writes, the garbage
  collector and the request handlers.

  A cluster is a set of nodes, each running this program with its own configuration, caches and
  files, over one shared metadata service.  \<open>cu_meta\<close> is the shared state; a node's own copy of the field is
  overwritten whenever it runs.  A call to another node looks its endpoint up (\<open>ce_resolve\<close>: name
  resolution) and takes one event from \<open>cu_net\<close>: the call goes through, the node cannot be reached, or
  the reply is lost after the work was done.  Tasks that the code runs concurrently run here one after
  the other in the order of their creation.
\<close>

section \<open>The cluster\<close>

datatype net_event = NetOk | NetUnreachable grpc_status | NetLost grpc_status

record ('x, 'm, 'c, 'd) ClusterEnv =
  ce_ctx :: "nat \<Rightarrow> ('x, 'm, 'c, 'd) KVServiceContext"
  ce_resolve :: "string \<Rightarrow> nat option"
  ce_status_text :: "grpc_status \<Rightarrow> string"

record ('x, 'm, 'c, 'd) Cluster =
  cu_tiers :: "nat \<Rightarrow> ('x, 'm, 'c, 'd) MemoryTier"
  cu_meta :: 'm
  cu_net :: "net_event list"

definition svc_step :: "'a sres \<times> 's \<Rightarrow> ('a \<Rightarrow> 's \<Rightarrow> 'b sres \<times> 's) \<Rightarrow> 'b sres \<times> 's" where
  "svc_step r f = (case r of (Inl e, s) \<Rightarrow> (Inl e, s) | (Inr x, s) \<Rightarrow> f x s)"

definition on_tier ::
  "nat \<Rightarrow> (('x, 'm, 'c, 'd) MemoryTier \<Rightarrow> 'a \<times> ('x, 'm, 'c, 'd) MemoryTier) \<Rightarrow> ('x, 'm, 'c, 'd) Cluster \<Rightarrow> 'a \<times> ('x, 'm, 'c, 'd) Cluster" where
  "on_tier i f c =
     (let t = cu_tiers c i in
      case f (t\<lparr> mt_storage := (mt_storage t)\<lparr> st_meta := cu_meta c \<rparr> \<rparr>) of
        (r, t') \<Rightarrow> (r, c\<lparr> cu_tiers := (cu_tiers c)(i := t'), cu_meta := st_meta (mt_storage t') \<rparr>))"

text \<open>A blocking task on the node's memory tier, storage tier or metadata; errors become statuses.\<close>

definition map_status :: "'a res \<Rightarrow> 'a sres" where
  "map_status r = (case r of Inl e \<Rightarrow> Inl (status_from e) | Inr x \<Rightarrow> Inr x)"

definition run_memory ::
  "nat \<Rightarrow> (('x, 'm, 'c, 'd) MemoryTier \<Rightarrow> 'a res \<times> ('x, 'm, 'c, 'd) MemoryTier) \<Rightarrow> ('x, 'm, 'c, 'd) Cluster
     \<Rightarrow> 'a sres \<times> ('x, 'm, 'c, 'd) Cluster" where
  "run_memory i f c = (case on_tier i f c of (r, c') \<Rightarrow> (map_status r, c'))"

definition run_storage ::
  "nat \<Rightarrow> (('x, 'm) StorageTier \<Rightarrow> 'a res \<times> ('x, 'm) StorageTier) \<Rightarrow> ('x, 'm, 'c, 'd) Cluster \<Rightarrow> 'a sres \<times> ('x, 'm, 'c, 'd) Cluster" where
  "run_storage i f = run_memory i (on_storage f)"

definition run_meta ::
  "nat \<Rightarrow> ('m \<Rightarrow> 'a res \<times> 'm) \<Rightarrow> ('x, 'm, 'c, 'd) Cluster \<Rightarrow> 'a sres \<times> ('x, 'm, 'c, 'd) Cluster" where
  "run_meta i f = run_storage i (on_meta f)"

definition invalidate_on :: "('x, 'm, 'c, 'd) ClusterEnv \<Rightarrow> nat \<Rightarrow> ObjectKey \<Rightarrow> ('x, 'm, 'c, 'd) Cluster \<Rightarrow> ('x, 'm, 'c, 'd) Cluster" where
  "invalidate_on CE i key c = snd (on_tier i (\<lambda>t. ((), memory_invalidate (cx_memory (ce_ctx CE i)) key t)) c)"

definition unavailable :: "string \<Rightarrow> grpc_status" where
  "unavailable m = Status Code_Unavailable m"

definition remote_call ::
  "('x, 'm, 'c, 'd) ClusterEnv \<Rightarrow> DataNode \<Rightarrow> string \<Rightarrow> (nat \<Rightarrow> ('x, 'm, 'c, 'd) Cluster \<Rightarrow> 'a sres \<times> ('x, 'm, 'c, 'd) Cluster)
     \<Rightarrow> ('x, 'm, 'c, 'd) Cluster \<Rightarrow> 'a sres \<times> ('x, 'm, 'c, 'd) Cluster" where
  "remote_call CE node what f c =
     (let refused = (\<lambda>m. Inl (unavailable (''connect data node '' @ dn_node_id node @ '': '' @ m)));
          failed = (\<lambda>st. Inl (unavailable (what @ dn_node_id node @ '': '' @ ce_status_text CE st))) in
      case ce_resolve CE (grpc_uri (dn_grpc_endpoint node)) of
        None \<Rightarrow> (refused ''connect data node: '', c)
      | Some j \<Rightarrow>
          (case cu_net c of
             NetUnreachable st # net \<Rightarrow> (refused (st_message st), c\<lparr> cu_net := net \<rparr>)
           | NetLost st # net \<Rightarrow> (failed st, snd (f j (c\<lparr> cu_net := net \<rparr>)))
           | net \<Rightarrow>
               (case f j (c\<lparr> cu_net := tl net \<rparr>) of
                  (Inl st, c') \<Rightarrow> (failed st, c')
                | (Inr x, c') \<Rightarrow> (Inr x, c'))))"

fun run_all :: "('s \<Rightarrow> 'a sres \<times> 's) list \<Rightarrow> 's \<Rightarrow> 'a sres list \<times> 's" where
  "run_all [] s = ([], s)"
| "run_all (f # fs) s = (case f s of (r, s1) \<Rightarrow> (case run_all fs s1 of (rs, s2) \<Rightarrow> (r # rs, s2)))"

definition join_all :: "('s \<Rightarrow> 'a sres \<times> 's) list \<Rightarrow> 's \<Rightarrow> 'a list sres \<times> 's" where
  "join_all fs s = (case run_all fs s of (rs, s') \<Rightarrow> (map_res id rs, s'))"


section \<open>Metadata with expiry\<close>

definition gc_delay :: "('x, 'm, 'c, 'd) KVServiceContext \<Rightarrow> int \<Rightarrow> int" where
  "gc_delay cx now = saturating_add_i64 now (as_i64 (int (gc_grace_seconds (cfg_gc (cx_config cx)))))"

definition purge_expired_object ::
  "('x, 'm, 'c, 'd) ClusterEnv \<Rightarrow> nat \<Rightarrow> int \<Rightarrow> ObjectKey \<Rightarrow> BlockMeta \<Rightarrow> ('x, 'm, 'c, 'd) Cluster \<Rightarrow> bool sres \<times> ('x, 'm, 'c, 'd) Cluster" where
  "purge_expired_object CE i now key meta c =
     (let cx = ce_ctx CE i; mo = se_mo (cx_storage cx); k = to_string_key key in
      if \<not> is_expired_at meta now then (Inr False, c)
      else if placement_has_remote_chunks cx (placement_from_meta cx key meta) then
        svc_step (run_meta i (mo_get_block mo k) c) (\<lambda>current c1.
          case current of
            None \<Rightarrow> (Inr False, c1)
          | Some cur \<Rightarrow>
              if \<not> (is_expired_at cur now \<and> meta_identity_matches cur meta) then (Inr False, c1)
              else svc_step (run_meta i (mo_retire_block_if_matches mo k meta (gc_delay cx now)) c1) (\<lambda>retired c2.
                if \<not> retired then (Inr False, c2) else (Inr True, invalidate_on CE i key c2)))
      else run_storage i (delete_if_expired (cx_storage cx) now key meta) c)"

definition metadata_get_live ::
  "('x, 'm, 'c, 'd) ClusterEnv \<Rightarrow> nat \<Rightarrow> int \<Rightarrow> ObjectKey \<Rightarrow> ('x, 'm, 'c, 'd) Cluster
     \<Rightarrow> BlockMeta option sres \<times> ('x, 'm, 'c, 'd) Cluster" where
  "metadata_get_live CE i now key c =
     (let get = run_meta i (mo_get_block (se_mo (cx_storage (ce_ctx CE i))) (to_string_key key)) in
      svc_step (get c) (\<lambda>meta c1.
        case meta of
          None \<Rightarrow> (Inr None, c1)
        | Some m \<Rightarrow>
            if \<not> is_expired_at m now then (Inr (Some m), c1)
            else svc_step (purge_expired_object CE i now key m c1) (\<lambda>purged c2.
              if purged then (Inr None, c2)
              else svc_step (get c2) (\<lambda>current c3.
                (Inr (case current of None \<Rightarrow> None | Some cur \<Rightarrow> if is_expired_at cur now then None else Some cur), c3)))))"


section \<open>Stripes on nodes\<close>

record PutPlacementChunkRequest =
  pp_key :: "PbKey option"
  pp_descriptor :: "ObjectDescriptor option"
  pp_stripe_index :: nat
  pp_chunk_size :: nat
  pp_data :: bytes

definition missing :: "string \<Rightarrow> 'a sres" where
  "missing what = Inl (Status Code_InvalidArgument (''missing '' @ what))"

definition other_node :: "'a sres" where
  "other_node = Inl (Status Code_FailedPrecondition ''stripe assigned to a different data node'')"

definition h_put_placement_chunk ::
  "('x, 'm, 'c, 'd) ClusterEnv \<Rightarrow> PutPlacementChunkRequest \<Rightarrow> nat \<Rightarrow> ('x, 'm, 'c, 'd) Cluster
     \<Rightarrow> PlacementChunk sres \<times> ('x, 'm, 'c, 'd) Cluster" where
  "h_put_placement_chunk CE req i c =
     (let cx = ce_ctx CE i; loc = local_node cx in
      case (pp_key req, pp_descriptor req) of
        (None, _) \<Rightarrow> (missing ''key'', c)
      | (_, None) \<Rightarrow> (missing ''descriptor'', c)
      | (Some k, Some desc) \<Rightarrow>
          let internal = pb_key_to_internal k; idx = pp_stripe_index req in
          (case local_device_stripe_index cx internal idx of
             None \<Rightarrow> (other_node, c)
           | Some dev_idx \<Rightarrow>
               svc_step (run_storage i (put_placement_chunk (cx_storage cx) internal idx dev_idx (od_object_generation desc)
                   (od_layout_version desc) (pp_data req)) c) (\<lambda>(dev, handle, checksum) c1.
                 (Inr \<lparr> pc_stripe_index = idx, pc_node_id = dn_node_id loc, pc_grpc_endpoint = dn_grpc_endpoint loc,
                    pc_rdma_endpoint = dn_rdma_endpoint loc, pc_device_id = dev, pc_storage_handle = handle,
                    pc_offset = wmul64 idx (pp_chunk_size req), pc_length = length (pp_data req), pc_checksum = checksum \<rparr>, c1))))"

definition local_location :: "DataNode \<Rightarrow> nat \<Rightarrow> nat \<Rightarrow> nat \<Rightarrow> nat \<times> string \<times> string \<Rightarrow> ChunkLocation" where
  "local_location node idx off len p =
     (case p of (dev, handle, checksum) \<Rightarrow>
        \<lparr> cl_stripe_index = as_u32 idx, cl_node = dn_node_id node, cl_grpc_endpoint = dn_grpc_endpoint node,
          cl_rdma_endpoint = dn_rdma_endpoint node, cl_device_id = dev, cl_storage_handle = handle, cl_offset = off,
          cl_length = len, cl_checksum = checksum \<rparr>)"

definition put_chunk_on_node ::
  "('x, 'm, 'c, 'd) ClusterEnv \<Rightarrow> nat \<Rightarrow> DataNode \<Rightarrow> ObjectKey \<Rightarrow> ObjectDescriptor \<Rightarrow> nat \<Rightarrow> nat \<Rightarrow> nat \<Rightarrow> bytes
     \<Rightarrow> ('x, 'm, 'c, 'd) Cluster \<Rightarrow> ChunkLocation sres \<times> ('x, 'm, 'c, 'd) Cluster" where
  "put_chunk_on_node CE i node key desc idx off chunk_sz data c =
     (let cx = ce_ctx CE i in
      if is_local_node cx node then
        (case local_device_stripe_index cx key idx of
           None \<Rightarrow> (other_node, c)
         | Some dev_idx \<Rightarrow>
             svc_step (run_storage i (put_placement_chunk (cx_storage cx) key idx dev_idx (od_object_generation desc)
                 (od_layout_version desc) data) c) (\<lambda>p c1. (Inr (local_location node idx off (length data) p), c1)))
      else
        svc_step (remote_call CE node ''put chunk to '' (h_put_placement_chunk CE
            \<lparr> pp_key = Some (internal_key_to_pb key), pp_descriptor = Some desc, pp_stripe_index = as_u32 idx,
              pp_chunk_size = chunk_sz, pp_data = data \<rparr>) c)
          (\<lambda>chunk c1. (Inr (pb_chunk_to_location chunk), c1)))"

definition put_stripe_segments_on_node ::
  "('x, 'm, 'c, 'd) ClusterEnv \<Rightarrow> nat \<Rightarrow> DataNode \<Rightarrow> ObjectKey \<Rightarrow> ObjectDescriptor \<Rightarrow> nat \<Rightarrow> nat \<Rightarrow> nat \<Rightarrow> bytes list
     \<Rightarrow> ('x, 'm, 'c, 'd) Cluster \<Rightarrow> ChunkLocation sres \<times> ('x, 'm, 'c, 'd) Cluster" where
  "put_stripe_segments_on_node CE i node key desc idx off chunk_sz segments c =
     (let cx = ce_ctx CE i in
      if is_local_node cx node then
        (case local_device_stripe_index cx key idx of
           None \<Rightarrow> (other_node, c)
         | Some dev_idx \<Rightarrow>
             svc_step (run_storage i (put_placement_chunk_segments (cx_storage cx) key idx dev_idx (od_object_generation desc)
                 (od_layout_version desc) segments) c)
               (\<lambda>p c1. (Inr (local_location node idx off (length (concat segments)) p), c1)))
      else put_chunk_on_node CE i node key desc idx off chunk_sz (flatten_segments segments) c)"

definition h_delete_placement_chunk ::
  "('x, 'm, 'c, 'd) ClusterEnv \<Rightarrow> PlacementChunk option \<Rightarrow> nat \<Rightarrow> ('x, 'm, 'c, 'd) Cluster \<Rightarrow> bool sres \<times> ('x, 'm, 'c, 'd) Cluster" where
  "h_delete_placement_chunk CE chunk i c =
     (case chunk of
        None \<Rightarrow> (missing ''placement chunk'', c)
      | Some ch \<Rightarrow> run_storage i (delete_placement_chunk (cx_storage (ce_ctx CE i)) (pc_storage_handle ch)) c)"

definition delete_chunk_from_placement ::
  "('x, 'm, 'c, 'd) ClusterEnv \<Rightarrow> nat \<Rightarrow> PlacementChunk \<Rightarrow> ('x, 'm, 'c, 'd) Cluster \<Rightarrow> unit sres \<times> ('x, 'm, 'c, 'd) Cluster" where
  "delete_chunk_from_placement CE i chunk c =
     (let cx = ce_ctx CE i; node = chunk_node chunk in
      if is_local_node cx node
      then svc_step (run_storage i (delete_placement_chunk (cx_storage cx) (pc_storage_handle chunk)) c) (\<lambda>_ c1. (Inr (), c1))
      else svc_step (remote_call CE node ''delete chunk from '' (h_delete_placement_chunk CE (Some chunk)) c) (\<lambda>_ c1. (Inr (), c1)))"

definition delete_distributed_chunks ::
  "('x, 'm, 'c, 'd) ClusterEnv \<Rightarrow> nat \<Rightarrow> PlacementDescriptor \<Rightarrow> ('x, 'm, 'c, 'd) Cluster \<Rightarrow> unit sres \<times> ('x, 'm, 'c, 'd) Cluster" where
  "delete_distributed_chunks CE i placement c =
     svc_step (join_all (map (delete_chunk_from_placement CE i) (pd_chunks placement)) c) (\<lambda>_ c1. (Inr (), c1))"

text \<open>Best-effort rollback: failures of the deletions are ignored.\<close>

definition rollback_chunks ::
  "('x, 'm, 'c, 'd) ClusterEnv \<Rightarrow> nat \<Rightarrow> PlacementChunk list \<Rightarrow> ('x, 'm, 'c, 'd) Cluster \<Rightarrow> ('x, 'm, 'c, 'd) Cluster" where
  "rollback_chunks CE i cks c = fold (\<lambda>chunk c. snd (delete_chunk_from_placement CE i chunk c)) cks c"

record ReadPlacementChunkRequest =
  rp_descriptor :: "ObjectDescriptor option"
  rp_chunk :: "PlacementChunk option"
  rp_placement :: "PlacementDescriptor option"

definition svc_pure :: "'a sres \<Rightarrow> 's \<Rightarrow> 'a sres \<times> 's" where
  "svc_pure r s = (r, s)"

definition chunk_checksum_arg :: "ObjectDescriptor \<Rightarrow> PlacementChunk \<Rightarrow> string option" where
  "chunk_checksum_arg desc chunk = (if od_is_striped desc then Some (pc_checksum chunk) else None)"

definition chunk_found :: "bytes option \<Rightarrow> bytes sres" where
  "chunk_found d = (case d of None \<Rightarrow> Inl (Status Code_NotFound ''placement chunk not found'') | Some x \<Rightarrow> Inr x)"

definition h_read_placement_chunk ::
  "('x, 'm, 'c, 'd) ClusterEnv \<Rightarrow> int \<Rightarrow> ReadPlacementChunkRequest \<Rightarrow> nat \<Rightarrow> ('x, 'm, 'c, 'd) Cluster
     \<Rightarrow> DataChunk list sres \<times> ('x, 'm, 'c, 'd) Cluster" where
  "h_read_placement_chunk CE now req i c =
     (let cx = ce_ctx CE i; E = cx_storage cx in
      case rp_descriptor req of
        None \<Rightarrow> (missing ''descriptor'', c)
      | Some desc \<Rightarrow>
          svc_step (svc_pure (key_from_descriptor desc) c) (\<lambda>internal c1.
          svc_step (case rp_placement req of
                None \<Rightarrow> (Inr (), c1)
              | Some placement \<Rightarrow>
                  svc_step (metadata_get_live CE i now internal c1) (\<lambda>active c2.
                    case active of
                      None \<Rightarrow> (Inl (Status Code_NotFound ''key not found''), c2)
                    | Some meta \<Rightarrow>
                        svc_step (svc_pure (validate_descriptor desc meta) c2) (\<lambda>_ c3.
                          svc_pure (validate_placement_descriptor cx internal meta (Some placement)) c3)))
            (\<lambda>_ c4.
          case rp_chunk req of
            None \<Rightarrow> (missing ''placement chunk'', c4)
          | Some chunk \<Rightarrow>
              svc_step (svc_pure (map_status (validate_placement_chunk_handle E internal (pc_stripe_index chunk)
                  (od_object_generation desc) (od_layout_version desc) (pc_device_id chunk) (pc_storage_handle chunk))) c4) (\<lambda>_ c5.
              svc_step (run_storage i (read_placement_chunk E (pc_storage_handle chunk) (pc_length chunk)
                  (chunk_checksum_arg desc chunk)) c5) (\<lambda>d c6.
              svc_step (svc_pure (chunk_found d) c6) (\<lambda>data c7.
                (Inr (placement_stream chunk data), c7)))))))"

text \<open>The receiver of the stream takes messages up to the one marked as last.\<close>

fun take_parts :: "DataChunk list \<Rightarrow> bytes list" where
  "take_parts [] = []"
| "take_parts (p # ps) = dc_data p # (if dc_is_last p then [] else take_parts ps)"

definition read_chunk_from_placement ::
  "('x, 'm, 'c, 'd) ClusterEnv \<Rightarrow> nat \<Rightarrow> int \<Rightarrow> ObjectDescriptor \<Rightarrow> PlacementDescriptor \<Rightarrow> PlacementChunk
     \<Rightarrow> ('x, 'm, 'c, 'd) Cluster \<Rightarrow> (nat \<times> bytes) sres \<times> ('x, 'm, 'c, 'd) Cluster" where
  "read_chunk_from_placement CE i now desc placement chunk c =
     (let cx = ce_ctx CE i; node = chunk_node chunk in
      if is_local_node cx node then
        svc_step (run_storage i (read_placement_chunk (cx_storage cx) (pc_storage_handle chunk) (pc_length chunk)
            (chunk_checksum_arg desc chunk)) c) (\<lambda>d c1.
        svc_step (svc_pure (chunk_found d) c1) (\<lambda>data c2. (Inr (pc_stripe_index chunk, data), c2)))
      else
        svc_step (remote_call CE node ''read chunk from '' (h_read_placement_chunk CE now
            \<lparr> rp_descriptor = Some desc, rp_chunk = Some chunk, rp_placement = Some placement \<rparr>) c) (\<lambda>parts c1.
          (Inr (pc_stripe_index chunk, flatten_segments (take_parts parts)), c1)))"

definition read_chunks_by_placement ::
  "('x, 'm, 'c, 'd) ClusterEnv \<Rightarrow> nat \<Rightarrow> int \<Rightarrow> ObjectDescriptor \<Rightarrow> PlacementDescriptor \<Rightarrow> ('x, 'm, 'c, 'd) Cluster
     \<Rightarrow> bytes list sres \<times> ('x, 'm, 'c, 'd) Cluster" where
  "read_chunks_by_placement CE i now desc placement c =
     (let validation = placement\<lparr> pd_chunks := [] \<rparr> in
      svc_step (join_all (map (read_chunk_from_placement CE i now desc validation) (pd_chunks placement)) c) (\<lambda>indexed c1.
        (Inr (map snd (sort_key fst indexed)), c1)))"

end
