(* ===== verification/Service_Write.thy ===== *)
theory Service_Write
  imports Service
begin

text \<open>
  Distributed writes of \<open>api/service.rs\<close>: the whole-object path, the streaming pipeline, the two-phase
  writes of clients that push stripes themselves, and the garbage collector.
\<close>

section \<open>Publishing\<close>

definition stripe_size :: "('x, 'm, 'c, 'd) KVServiceContext \<Rightarrow> nat" where
  "stripe_size cx = max (se_striping_chunk_size (cx_storage cx)) 1"

definition striped_meta :: "BlockMeta \<Rightarrow> nat \<Rightarrow> nat \<Rightarrow> ChunkLocation list \<Rightarrow> BlockMeta" where
  "striped_meta prepared tot chunk_sz locations =
     prepared\<lparr> bm_size := tot, file_path := [], device_id := (case locations of [] \<Rightarrow> 0 | l # _ \<Rightarrow> cl_device_id l),
       striping := Some \<lparr> chunk_size = chunk_sz, chunk_devices = map cl_device_id locations,
         chunk_paths = map cl_storage_handle locations, total_size = tot, chunk_locations = locations,
         chunk_checksums = map cl_checksum locations \<rparr> \<rparr>"

definition publish_meta ::
  "('x, 'm, 'c, 'd) ClusterEnv \<Rightarrow> nat \<Rightarrow> int \<Rightarrow> ObjectKey \<Rightarrow> BlockMeta \<Rightarrow> bool \<Rightarrow> ('x, 'm, 'c, 'd) Cluster
     \<Rightarrow> bool sres \<times> ('x, 'm, 'c, 'd) Cluster" where
  "publish_meta CE i now key meta if_absent c =
     (let cx = ce_ctx CE i; mo = se_mo (cx_storage cx); k = to_string_key key in
      if if_absent then run_meta i (mo_put_block_if_absent mo k meta) c
      else svc_step (run_meta i (mo_replace_block mo k meta (gc_delay cx now)) c) (\<lambda>_ c1. (Inr True, c1)))"

definition no_checksum :: "'a sres" where
  "no_checksum = Inl (Status Code_FailedPrecondition
     ''stripe integrity is enabled but a data node did not return a checksum'')"


section \<open>Whole objects\<close>

definition stripe_bytes :: "nat \<Rightarrow> bytes \<Rightarrow> nat \<Rightarrow> bytes" where
  "stripe_bytes chunk_sz data idx =
     (let start = idx * chunk_sz; stop = min (start + chunk_sz) (length data) in take (stop - start) (drop start data))"

definition put_distributed_bytes_impl ::
  "('x, 'm, 'c, 'd) ClusterEnv \<Rightarrow> nat \<Rightarrow> int \<Rightarrow> ObjectKey \<Rightarrow> bytes \<Rightarrow> BlockMeta \<Rightarrow> bool \<Rightarrow> ('x, 'm, 'c, 'd) Cluster
     \<Rightarrow> bool sres \<times> ('x, 'm, 'c, 'd) Cluster" where
  "put_distributed_bytes_impl CE i now key data meta if_absent c =
     (let cx = ce_ctx CE i; E = cx_storage cx; tot = length data; chunk_sz = stripe_size cx; n = div_ceil tot chunk_sz in
      svc_step (run_storage i (prepare_write_meta E key meta tot) c) (\<lambda>prepared c1.
        let desc = make_distributed_descriptor key prepared n chunk_sz;
            tasks = map (\<lambda>idx. put_chunk_on_node CE i (select_data_node cx key idx) key desc idx (idx * chunk_sz) chunk_sz
              (stripe_bytes chunk_sz data idx)) [0 ..< n]
        in svc_step (join_all tasks c1) (\<lambda>results c2.
          let locations = sort_key cl_stripe_index results; cks = map (chunk_location_to_pb key) locations in
          if se_verify_stripe_checksums E \<and> list_ex (\<lambda>l. cl_checksum l = []) locations
          then (no_checksum, rollback_chunks CE i cks c2)
          else (case publish_meta CE i now key (striped_meta prepared tot chunk_sz locations) if_absent (invalidate_on CE i key c2) of
              (Inl e, c3) \<Rightarrow> (Inl e, rollback_chunks CE i cks c3)
            | (Inr committed, c3) \<Rightarrow>
                if committed then (Inr True, c3) else (Inr False, rollback_chunks CE i cks c3)))))"

definition put_distributed_bytes ::
  "('x, 'm, 'c, 'd) ClusterEnv \<Rightarrow> nat \<Rightarrow> int \<Rightarrow> ObjectKey \<Rightarrow> bytes \<Rightarrow> BlockMeta \<Rightarrow> ('x, 'm, 'c, 'd) Cluster
     \<Rightarrow> unit sres \<times> ('x, 'm, 'c, 'd) Cluster" where
  "put_distributed_bytes CE i now key data meta c =
     svc_step (put_distributed_bytes_impl CE i now key data meta False c) (\<lambda>_ c1. (Inr (), c1))"

text \<open>The gate of a conditional write: a live object refuses it, an expired one is purged first.\<close>

definition absent_gate ::
  "('x, 'm, 'c, 'd) ClusterEnv \<Rightarrow> nat \<Rightarrow> int \<Rightarrow> ObjectKey \<Rightarrow> ('x, 'm, 'c, 'd) Cluster \<Rightarrow> bool sres \<times> ('x, 'm, 'c, 'd) Cluster" where
  "absent_gate CE i now key c =
     svc_step (run_meta i (mo_get_block (se_mo (cx_storage (ce_ctx CE i))) (to_string_key key)) c) (\<lambda>existing c1.
       case existing of
         None \<Rightarrow> (Inr True, c1)
       | Some m \<Rightarrow>
           if \<not> is_expired_at m now then (Inr False, c1)
           else svc_step (purge_expired_object CE i now key m c1) (\<lambda>_ c2. (Inr True, c2)))"

definition put_distributed_bytes_if_absent ::
  "('x, 'm, 'c, 'd) ClusterEnv \<Rightarrow> nat \<Rightarrow> int \<Rightarrow> ObjectKey \<Rightarrow> bytes \<Rightarrow> BlockMeta \<Rightarrow> ('x, 'm, 'c, 'd) Cluster
     \<Rightarrow> bool sres \<times> ('x, 'm, 'c, 'd) Cluster" where
  "put_distributed_bytes_if_absent CE i now key data meta c =
     svc_step (absent_gate CE i now key c) (\<lambda>go c1.
       if \<not> go then (Inr False, c1) else put_distributed_bytes_impl CE i now key data meta True c1)"


section \<open>The streaming pipeline\<close>

text \<open>
  \<open>put_distributed_stream_impl\<close>.  Incoming messages are cut at stripe boundaries; a full stripe is
  dispatched at once, with at most \<open>MAX_INFLIGHT_STRIPES\<close> writes outstanding.  A dispatched stripe waits
  in \<open>sw_inflight\<close> until it is joined.  Writes complete in any order: \<open>sw_order\<close>, an argument of the request like
  the clock, says which of those in flight is joined next.  A request whose stream breaks drops the
  writes in flight.
\<close>

definition MAX_INFLIGHT_STRIPES :: nat where
  "MAX_INFLIGHT_STRIPES = 4"

record StreamWrite =
  sw_segments :: "bytes list"
  sw_filled :: nat
  sw_next_stripe :: nat
  sw_received_total :: nat
  sw_inflight :: "(nat \<times> bytes list) list"
  sw_locations :: "ChunkLocation list"
  sw_first_err :: "grpc_status option"
  sw_order :: "nat list"

definition stream_start :: "nat list \<Rightarrow> StreamWrite" where
  "stream_start order = \<lparr> sw_segments = [], sw_filled = 0, sw_next_stripe = 0, sw_received_total = 0, sw_inflight = [],
     sw_locations = [], sw_first_err = None, sw_order = order \<rparr>"

definition absorb :: "ChunkLocation sres \<Rightarrow> StreamWrite \<Rightarrow> StreamWrite" where
  "absorb joined w =
     (case joined of
        Inr loc \<Rightarrow> w\<lparr> sw_locations := sw_locations w @ [loc] \<rparr>
      | Inl st \<Rightarrow> (if sw_first_err w = None then w\<lparr> sw_first_err := Some st \<rparr> else w))"

lemma absorb_inflight [simp]: "sw_inflight (absorb r w) = sw_inflight w"
  by (simp add: absorb_def split: sum.split)

text \<open>\<open>JoinSet::join_next\<close>: one of the writes in flight and the state without it.\<close>

definition join_next :: "StreamWrite \<Rightarrow> (nat \<times> bytes list) \<times> StreamWrite" where
  "join_next w =
     (let ts = sw_inflight w; j = (case sw_order w of [] \<Rightarrow> 0 | j # _ \<Rightarrow> j mod length ts)
      in (ts ! j, w\<lparr> sw_inflight := take j ts @ drop (Suc j) ts, sw_order := tl (sw_order w) \<rparr>))"

lemma join_next_shorter:
  assumes "sw_inflight w \<noteq> []"
  shows "length (sw_inflight (snd (join_next w))) < length (sw_inflight w)"
proof -
  have "(case sw_order w of [] \<Rightarrow> 0 | j # _ \<Rightarrow> j mod length (sw_inflight w)) < length (sw_inflight w)"
    using assms by (simp split: list.split)
  then show ?thesis by (simp add: join_next_def Let_def)
qed

text \<open>Join writes while at least \<open>k\<close> are outstanding.\<close>

function join_while ::
  "(nat \<times> bytes list \<Rightarrow> 's \<Rightarrow> ChunkLocation sres \<times> 's) \<Rightarrow> nat \<Rightarrow> StreamWrite \<Rightarrow> 's \<Rightarrow> StreamWrite \<times> 's" where
  "join_while run k w s =
     (if length (sw_inflight w) < k \<or> sw_inflight w = [] then (w, s)
      else (case join_next w of (t, w1) \<Rightarrow>
          (case run t s of (r, s1) \<Rightarrow> join_while run k (absorb r w1) s1)))"
  by pat_completeness auto
termination
  by (relation "measure (\<lambda>(run, k, w, s). length (sw_inflight w))") (auto, metis join_next_shorter snd_conv)

definition dispatch_stripe ::
  "(nat \<times> bytes list \<Rightarrow> 's \<Rightarrow> ChunkLocation sres \<times> 's) \<Rightarrow> bytes list \<Rightarrow> StreamWrite \<Rightarrow> 's \<Rightarrow> StreamWrite \<times> 's" where
  "dispatch_stripe run segments w s =
     (let idx = sw_next_stripe w in
      case join_while run MAX_INFLIGHT_STRIPES (w\<lparr> sw_next_stripe := Suc idx \<rparr>) s of (w1, s1) \<Rightarrow>
        (if sw_first_err w1 = None then w1\<lparr> sw_inflight := sw_inflight w1 @ [(idx, segments)] \<rparr> else w1, s1))"

text \<open>The loop of \<open>feed!\<close>.  The current stripe is never full here, so \<open>need\<close> is positive.\<close>

function feed_loop ::
  "(nat \<times> bytes list \<Rightarrow> 's \<Rightarrow> ChunkLocation sres \<times> 's) \<Rightarrow> nat \<Rightarrow> bytes \<Rightarrow> StreamWrite \<Rightarrow> 's \<Rightarrow> StreamWrite \<times> 's" where
  "feed_loop run chunk_sz data w s =
     (let need = chunk_sz - sw_filled w in
      if data = [] \<or> need = 0 then (w, s)
      else if length data < need
      then (w\<lparr> sw_filled := sw_filled w + length data, sw_segments := sw_segments w @ [data] \<rparr>, s)
      else (case dispatch_stripe run (sw_segments w @ [take need data]) (w\<lparr> sw_segments := [], sw_filled := 0 \<rparr>) s of
          (w1, s1) \<Rightarrow> feed_loop run chunk_sz (drop need data) w1 s1))"
  by pat_completeness auto
termination
  by (relation "measure (\<lambda>(run, chunk_sz, data, w, s). length data)") auto

declare join_while.simps [simp del] feed_loop.simps [simp del]

definition feed ::
  "(nat \<times> bytes list \<Rightarrow> 's \<Rightarrow> ChunkLocation sres \<times> 's) \<Rightarrow> nat \<Rightarrow> bytes \<Rightarrow> StreamWrite \<Rightarrow> 's \<Rightarrow> StreamWrite \<times> 's" where
  "feed run chunk_sz data w s =
     feed_loop run chunk_sz data (w\<lparr> sw_received_total := wadd64 (sw_received_total w) (length data) \<rparr>) s"

record PutChunk =
  pk_key :: "PbKey option"
  pk_data :: bytes
  pk_total_size :: int
  pk_metadata :: "KvMetadata option"
  pk_options :: "PutOptions option"
  pk_is_last :: bool

text \<open>The buffered path collects the messages up to the last one.\<close>

fun collect_segments :: "bool \<Rightarrow> PutChunk sres list \<Rightarrow> bytes list sres" where
  "collect_segments saw_last [] = Inr []"
| "collect_segments saw_last (m # ms) =
     (if saw_last then Inr []
      else res_bind m (\<lambda>ch. res_bind (collect_segments (pk_is_last ch) ms) (\<lambda>rest. Inr (pk_data ch # rest))))"

text \<open>The receive loop; a broken stream ends the request at once.\<close>

fun receive ::
  "(nat \<times> bytes list \<Rightarrow> 's \<Rightarrow> ChunkLocation sres \<times> 's) \<Rightarrow> nat \<Rightarrow> bool \<Rightarrow> PutChunk sres list \<Rightarrow> StreamWrite \<Rightarrow> 's
     \<Rightarrow> StreamWrite sres \<times> 's" where
  "receive run chunk_sz saw_last [] w s = (Inr w, s)"
| "receive run chunk_sz saw_last (m # ms) w s =
     (if saw_last \<or> sw_first_err w \<noteq> None then (Inr w, s)
      else (case m of
          Inl e \<Rightarrow> (Inl e, s)
        | Inr ch \<Rightarrow> (case feed run chunk_sz (pk_data ch) w s of (w1, s1) \<Rightarrow> receive run chunk_sz (pk_is_last ch) ms w1 s1)))"

definition flush_stripe ::
  "(nat \<times> bytes list \<Rightarrow> 's \<Rightarrow> ChunkLocation sres \<times> 's) \<Rightarrow> StreamWrite \<Rightarrow> 's \<Rightarrow> StreamWrite \<times> 's" where
  "flush_stripe run w s =
     (if sw_first_err w = None \<and> sw_segments w \<noteq> []
      then dispatch_stripe run (sw_segments w) (w\<lparr> sw_segments := [] \<rparr>) s else (w, s))"

definition length_mismatch :: "nat \<Rightarrow> nat \<Rightarrow> grpc_status" where
  "length_mismatch declared received = Status Code_InvalidArgument
     (''stream length mismatch: declared '' @ dec declared @ '' received '' @ dec received)"

definition stream_outcome :: "nat \<Rightarrow> StreamWrite \<Rightarrow> grpc_status option" where
  "stream_outcome declared w =
     (if sw_first_err w = None \<and> sw_received_total w \<noteq> declared then Some (length_mismatch declared (sw_received_total w))
      else sw_first_err w)"

text \<open>All stripes of a stream: receive and dispatch, flush the partial stripe, join what is in flight.\<close>

definition stream_stripes ::
  "(nat \<times> bytes list \<Rightarrow> 's \<Rightarrow> ChunkLocation sres \<times> 's) \<Rightarrow> nat list \<Rightarrow> nat \<Rightarrow> bytes \<Rightarrow> bool \<Rightarrow> PutChunk sres list \<Rightarrow> 's
     \<Rightarrow> StreamWrite sres \<times> 's" where
  "stream_stripes run order chunk_sz first_data first_is_last stream s =
     (case feed run chunk_sz first_data (stream_start order) s of (w1, s1) \<Rightarrow>
        svc_step (receive run chunk_sz first_is_last stream w1 s1) (\<lambda>w2 s2.
          case flush_stripe run w2 s2 of (w3, s3) \<Rightarrow>
            (case join_while run 1 w3 s3 of (w4, s4) \<Rightarrow> (Inr w4, s4))))"

definition put_distributed_stream_impl ::
  "('x, 'm, 'c, 'd) ClusterEnv \<Rightarrow> nat \<Rightarrow> int \<Rightarrow> nat list \<Rightarrow> PutChunk sres list \<Rightarrow> ObjectKey \<Rightarrow> BlockMeta \<Rightarrow> nat \<Rightarrow> bytes \<Rightarrow> bool \<Rightarrow> bool
     \<Rightarrow> ('x, 'm, 'c, 'd) Cluster \<Rightarrow> bool sres \<times> ('x, 'm, 'c, 'd) Cluster" where
  "put_distributed_stream_impl CE i now order stream key meta declared first_data first_is_last if_absent c =
     (let cx = ce_ctx CE i; chunk_sz = stripe_size cx; n = div_ceil declared chunk_sz in
      svc_step (run_storage i (prepare_write_meta (cx_storage cx) key meta declared) c) (\<lambda>prepared c1.
        let desc = make_distributed_descriptor key prepared n chunk_sz;
            run = (\<lambda>(idx, segments). put_stripe_segments_on_node CE i (select_data_node cx key idx) key desc idx
              (idx * chunk_sz) chunk_sz segments)
        in svc_step (stream_stripes run order chunk_sz first_data first_is_last stream c1) (\<lambda>w c2.
          case stream_outcome declared w of
            Some st \<Rightarrow> (Inl st, rollback_chunks CE i (map (chunk_location_to_pb key) (sw_locations w)) c2)
          | None \<Rightarrow>
              let locations = sort_key cl_stripe_index (sw_locations w) in
              svc_step (publish_meta CE i now key (striped_meta prepared declared chunk_sz locations) if_absent
                  (invalidate_on CE i key c2)) (\<lambda>committed c3.
                if committed then (Inr True, c3)
                else (Inr False, rollback_chunks CE i (map (chunk_location_to_pb key) locations) c3)))))"


section \<open>Two-phase writes\<close>

record PreparePutRequest =
  pq_key :: "PbKey option"
  pq_size :: nat
  pq_metadata :: "KvMetadata option"
  pq_options :: "PutOptions option"

record PreparePutResponse =
  pr_accepted :: bool
  pr_message :: string
  pr_descriptor :: "ObjectDescriptor option"
  pr_placement :: "PlacementDescriptor option"

definition prepare_reject :: "string \<Rightarrow> PreparePutResponse sres" where
  "prepare_reject m = Inr \<lparr> pr_accepted = False, pr_message = m, pr_descriptor = None, pr_placement = None \<rparr>"

definition planned_chunk :: "('x, 'm, 'c, 'd) KVServiceContext \<Rightarrow> ObjectKey \<Rightarrow> nat \<Rightarrow> nat \<Rightarrow> nat \<Rightarrow> PlacementChunk" where
  "planned_chunk cx key chunk_sz sz idx =
     (let node = select_data_node cx key idx; start = idx * chunk_sz in
      \<lparr> pc_stripe_index = as_u32 idx, pc_node_id = dn_node_id node, pc_grpc_endpoint = dn_grpc_endpoint node,
        pc_rdma_endpoint = dn_rdma_endpoint node, pc_device_id = 0, pc_storage_handle = [], pc_offset = start,
        pc_length = min (start + chunk_sz) sz - start, pc_checksum = [] \<rparr>)"

definition h_prepare_distributed_put ::
  "('x, 'm, 'c, 'd) ClusterEnv \<Rightarrow> int \<Rightarrow> PreparePutRequest \<Rightarrow> nat \<Rightarrow> ('x, 'm, 'c, 'd) Cluster
     \<Rightarrow> PreparePutResponse sres \<times> ('x, 'm, 'c, 'd) Cluster" where
  "h_prepare_distributed_put CE now req i c =
     (let cx = ce_ctx CE i; sz = pq_size req in
      case pq_key req of
        None \<Rightarrow> (missing ''key'', c)
      | Some pk \<Rightarrow>
          let key = pb_key_to_internal pk; chunk_sz = stripe_size cx; n = div_ceil sz chunk_sz; loc = local_node cx in
          if sz = 0 then (prepare_reject ''empty object'', c)
          else if \<not> distributed_placement_enabled cx sz
          then (prepare_reject ''below striping threshold or single data node'', c)
          else svc_step (if put_options_if_not_exists (pq_options req)
              then svc_step (metadata_get_live CE i now key c) (\<lambda>m c1. (Inr (m \<noteq> None), c1)) else (Inr False, c)) (\<lambda>taken c1.
            if taken then (prepare_reject ''already exists'', c1)
            else svc_step (run_storage i (prepare_write_meta (cx_storage cx) key
                (meta_from_pb now (pq_metadata req) (pq_options req)) sz) c1) (\<lambda>prepared c2.
              (Inr \<lparr> pr_accepted = True, pr_message = [],
                 pr_descriptor = Some (make_distributed_descriptor key prepared n chunk_sz),
                 pr_placement = Some \<lparr> pd_key = Some pk, pd_placement_epoch = placement_epoch cx,
                   pd_placement_policy_id = placement_policy_id cx, pd_layout_hash = [],
                   pd_primary_node_id = dn_node_id loc, pd_primary_grpc_endpoint = dn_grpc_endpoint loc,
                   pd_primary_rdma_endpoint = dn_rdma_endpoint loc,
                   pd_chunks = map (planned_chunk cx key chunk_sz sz) [0 ..< n] \<rparr> \<rparr>, c2))))"

record CommitPutRequest =
  cq_key :: "PbKey option"
  cq_descriptor :: "ObjectDescriptor option"
  cq_chunks :: "PlacementChunk list"
  cq_metadata :: "KvMetadata option"
  cq_options :: "PutOptions option"

definition covers_layout :: "nat \<Rightarrow> PlacementChunk list \<Rightarrow> bool" where
  "covers_layout n cks \<longleftrightarrow> length cks = n \<and> list_all (\<lambda>(i, ch). pc_stripe_index ch = i) (enumerate 0 cks)"

definition commit_meta :: "int \<Rightarrow> CommitPutRequest \<Rightarrow> ObjectDescriptor \<Rightarrow> PlacementChunk list \<Rightarrow> BlockMeta" where
  "commit_meta now req desc cks =
     (let tot = fold (\<lambda>ch t. wadd64 t (pc_length ch)) cks 0; locations = map pb_chunk_to_location cks in
      (striped_meta (meta_from_pb now (cq_metadata req) (cq_options req)) tot (od_chunk_size desc) locations)
        \<lparr> object_generation := od_object_generation desc, layout_version := od_layout_version desc,
          object_handle := od_object_handle desc, content_etag := od_content_etag desc \<rparr>)"

definition h_commit_distributed_put ::
  "('x, 'm, 'c, 'd) ClusterEnv \<Rightarrow> int \<Rightarrow> CommitPutRequest \<Rightarrow> nat \<Rightarrow> ('x, 'm, 'c, 'd) Cluster
     \<Rightarrow> bool sres \<times> ('x, 'm, 'c, 'd) Cluster" where
  "h_commit_distributed_put CE now req i c =
     (case (cq_key req, cq_descriptor req) of
        (None, _) \<Rightarrow> (missing ''key'', c)
      | (_, None) \<Rightarrow> (missing ''descriptor'', c)
      | (Some pk, Some desc) \<Rightarrow>
          let key = pb_key_to_internal pk; cks = sort_key pc_stripe_index (cq_chunks req) in
          if cq_chunks req = [] then (Inl (Status Code_InvalidArgument ''no stripe locations''), c)
          else if \<not> covers_layout (od_stripe_count desc) cks
          then (Inl (Status Code_InvalidArgument ''stripe locations do not cover the prepared layout''), c)
          else if se_verify_stripe_checksums (cx_storage (ce_ctx CE i)) \<and> list_ex (\<lambda>ch. pc_checksum ch = []) cks
          then (Inl (Status Code_FailedPrecondition ''stripe integrity is enabled but a stripe location lacks a checksum''), c)
          else svc_step (publish_meta CE i now key (commit_meta now req desc cks) (put_options_if_not_exists (cq_options req))
              (invalidate_on CE i key c)) (\<lambda>committed c1.
            if committed then (Inr True, c1)
            else (Inr False, rollback_chunks CE i (map (\<lambda>ch. ch\<lparr> pc_node_id := [] \<rparr>) cks) c1)))"


section \<open>Garbage collection\<close>

definition reschedule_gc ::
  "('x, 'm, 'c, 'd) ClusterEnv \<Rightarrow> nat \<Rightarrow> int \<Rightarrow> GcTask \<Rightarrow> ('x, 'm, 'c, 'd) Cluster \<Rightarrow> ('x, 'm, 'c, 'd) Cluster" where
  "reschedule_gc CE i now task c =
     (let attempts = min (gt_attempts task + 1) (2 ^ 32 - 1);
          delay = saturating_mul_i64 5 (2 ^ min attempts 6);
          task' = task\<lparr> gt_attempts := attempts, gt_not_before := saturating_add_i64 now (min delay 300) \<rparr>
      in snd (run_meta i (mo_reschedule_gc_task (se_mo (cx_storage (ce_ctx CE i))) task') c))"

definition gc_one ::
  "('x, 'm, 'c, 'd) ClusterEnv \<Rightarrow> nat \<Rightarrow> int \<Rightarrow> GcTask \<Rightarrow> ('x, 'm, 'c, 'd) Cluster \<Rightarrow> ('x, 'm, 'c, 'd) Cluster" where
  "gc_one CE i now task c =
     (let cx = ce_ctx CE i; mo = se_mo (cx_storage cx) in
      case from_string_key (gt_key task) of
        Inl _ \<Rightarrow> snd (run_meta i (mo_complete_gc_task mo (gt_id task)) c)
      | Inr key \<Rightarrow>
          (case run_meta i (mo_get_block mo (gt_key task)) c of
             (Inl _, c1) \<Rightarrow> reschedule_gc CE i now task c1
           | (Inr current, c1) \<Rightarrow>
               if (case current of None \<Rightarrow> False | Some m \<Rightarrow> meta_identity_matches m (gt_retired task))
               then reschedule_gc CE i now task c1
               else (case delete_distributed_chunks CE i (placement_from_meta cx key (gt_retired task)) c1 of
                   (Inl _, c2) \<Rightarrow> reschedule_gc CE i now task c2
                 | (Inr _, c2) \<Rightarrow>
                     (case run_meta i (mo_complete_gc_task mo (gt_id task)) c2 of
                        (Inl _, c3) \<Rightarrow> reschedule_gc CE i now task c3
                      | (Inr _, c3) \<Rightarrow> c3))))"

definition run_gc_once ::
  "('x, 'm, 'c, 'd) ClusterEnv \<Rightarrow> nat \<Rightarrow> int \<Rightarrow> ('x, 'm, 'c, 'd) Cluster \<Rightarrow> ('x, 'm, 'c, 'd) Cluster" where
  "run_gc_once CE i now c =
     (let gc = cfg_gc (cx_config (ce_ctx CE i)) in
      case run_meta i (mo_take_due_gc_tasks (se_mo (cx_storage (ce_ctx CE i))) now (gc_max_tasks_per_run gc) (gc_task_lease_seconds gc)) c of
        (Inl _, c1) \<Rightarrow> c1
      | (Inr tasks, c1) \<Rightarrow> fold (gc_one CE i now) tasks c1)"

end
