(* ===== verification/Service_Api.thy ===== *)
theory Service_Api
  imports Service_Write
begin

text \<open>
  The request handlers of \<open>api/service.rs\<close>.  A response stream is the list of its messages; an error
  ends it.  Request metrics and tracing are left out, and so are the GDS handlers.
\<close>

section \<open>Objects\<close>

record GetResponse =
  gr_data :: bytes
  gr_metadata :: "KvMetadata option"
  gr_found :: bool

definition get_found :: "bytes \<Rightarrow> BlockMeta \<Rightarrow> GetResponse" where
  "get_found data meta = \<lparr> gr_data = data, gr_metadata = Some (meta_to_pb meta), gr_found = True \<rparr>"

definition get_absent :: GetResponse where
  "get_absent = \<lparr> gr_data = [], gr_metadata = None, gr_found = False \<rparr>"

definition h_get ::
  "('x, 'm, 'c, 'd) ClusterEnv \<Rightarrow> int \<Rightarrow> PbKey option \<Rightarrow> nat \<Rightarrow> ('x, 'm, 'c, 'd) Cluster \<Rightarrow> GetResponse sres \<times> ('x, 'm, 'c, 'd) Cluster" where
  "h_get CE now pk i c =
     (let cx = ce_ctx CE i in
      case pk of
        None \<Rightarrow> (missing ''key'', c)
      | Some k \<Rightarrow>
          let internal = pb_key_to_internal k;
              from_memory = (\<lambda>c1. svc_step (run_memory i (memory_get (cx_memory cx) now internal) c1) (\<lambda>r c2.
                (Inr (case r of Some (data, m) \<Rightarrow> get_found data m | None \<Rightarrow> get_absent), c2)))
          in svc_step (metadata_get_live CE i now internal c) (\<lambda>meta c1.
            case meta of
              None \<Rightarrow> from_memory c1
            | Some m \<Rightarrow>
                let placement = placement_from_meta cx internal m in
                if placement_has_remote_chunks cx placement
                then svc_step (read_chunks_by_placement CE i now (descriptor_from_meta internal m) placement c1) (\<lambda>cs c2.
                  (Inr (get_found (flatten_segments cs) m), c2))
                else from_memory c1))"

record PutRequest =
  pu_key :: "PbKey option"
  pu_data :: bytes
  pu_metadata :: "KvMetadata option"
  pu_options :: "PutOptions option"

record PutResponse =
  rs_success :: bool
  rs_message :: string

definition put_response :: "bool \<Rightarrow> PutResponse" where
  "put_response inserted = \<lparr> rs_success = inserted, rs_message = (if inserted then [] else ''already exists'') \<rparr>"

definition put_done :: "bool sres \<times> 's \<Rightarrow> PutResponse sres \<times> 's" where
  "put_done r = svc_step r (\<lambda>inserted s. (Inr (put_response inserted), s))"

text \<open>The distributed write behind \<open>put\<close> and \<open>put_stream\<close>, and the local one.\<close>

definition put_distributed ::
  "('x, 'm, 'c, 'd) ClusterEnv \<Rightarrow> nat \<Rightarrow> int \<Rightarrow> ObjectKey \<Rightarrow> bytes \<Rightarrow> BlockMeta \<Rightarrow> bool \<Rightarrow> ('x, 'm, 'c, 'd) Cluster
     \<Rightarrow> bool sres \<times> ('x, 'm, 'c, 'd) Cluster" where
  "put_distributed CE i now key data meta if_not_exists c =
     (if if_not_exists then put_distributed_bytes_if_absent CE i now key data meta c
      else svc_step (put_distributed_bytes CE i now key data meta c) (\<lambda>_ c1. (Inr True, c1)))"

definition put_local ::
  "('x, 'm, 'c, 'd) ClusterEnv \<Rightarrow> nat \<Rightarrow> int \<Rightarrow> ObjectKey \<Rightarrow> bytes \<Rightarrow> BlockMeta \<Rightarrow> bool \<Rightarrow> ('x, 'm, 'c, 'd) Cluster
     \<Rightarrow> bool sres \<times> ('x, 'm, 'c, 'd) Cluster" where
  "put_local CE i now key data meta if_not_exists c =
     (let M = cx_memory (ce_ctx CE i) in
      if if_not_exists then run_memory i (memory_put_if_absent M now key data meta) c
      else svc_step (run_memory i (memory_put M now key data meta) c) (\<lambda>_ c1. (Inr True, c1)))"

definition h_put ::
  "('x, 'm, 'c, 'd) ClusterEnv \<Rightarrow> int \<Rightarrow> PutRequest \<Rightarrow> nat \<Rightarrow> ('x, 'm, 'c, 'd) Cluster \<Rightarrow> PutResponse sres \<times> ('x, 'm, 'c, 'd) Cluster" where
  "h_put CE now req i c =
     (case pu_key req of
        None \<Rightarrow> (missing ''key'', c)
      | Some k \<Rightarrow>
          let internal = pb_key_to_internal k; meta = meta_from_pb now (pu_metadata req) (pu_options req);
              ine = put_options_if_not_exists (pu_options req); data = pu_data req
          in put_done (if distributed_placement_enabled (ce_ctx CE i) (length data)
               then put_distributed CE i now internal data meta ine c
               else put_local CE i now internal data meta ine c))"

definition h_delete ::
  "('x, 'm, 'c, 'd) ClusterEnv \<Rightarrow> int \<Rightarrow> PbKey option \<Rightarrow> nat \<Rightarrow> ('x, 'm, 'c, 'd) Cluster \<Rightarrow> bool sres \<times> ('x, 'm, 'c, 'd) Cluster" where
  "h_delete CE now pk i c =
     (case pk of
        None \<Rightarrow> (missing ''key'', c)
      | Some k \<Rightarrow>
          let internal = pb_key_to_internal k in
          svc_step (run_storage i (storage_retire (cx_storage (ce_ctx CE i)) now internal) c) (\<lambda>ok c1.
            (Inr ok, invalidate_on CE i internal c1)))"

definition h_exists ::
  "('x, 'm, 'c, 'd) ClusterEnv \<Rightarrow> int \<Rightarrow> PbKey option \<Rightarrow> nat \<Rightarrow> ('x, 'm, 'c, 'd) Cluster \<Rightarrow> bool sres \<times> ('x, 'm, 'c, 'd) Cluster" where
  "h_exists CE now pk i c =
     (case pk of
        None \<Rightarrow> (missing ''key'', c)
      | Some k \<Rightarrow> run_memory i (memory_exists (cx_memory (ce_ctx CE i)) now (pb_key_to_internal k)) c)"


section \<open>Lookups and reads by descriptor\<close>

record LookupObjectResponse =
  lo_found :: bool
  lo_descriptor :: "ObjectDescriptor option"
  lo_placement :: "PlacementDescriptor option"

definition lookup_key ::
  "('x, 'm, 'c, 'd) ClusterEnv \<Rightarrow> nat \<Rightarrow> int \<Rightarrow> ObjectKey \<Rightarrow> ('x, 'm, 'c, 'd) Cluster \<Rightarrow> LookupObjectResponse sres \<times> ('x, 'm, 'c, 'd) Cluster" where
  "lookup_key CE i now key c =
     svc_step (metadata_get_live CE i now key c) (\<lambda>meta c1.
       (Inr \<lparr> lo_found = (meta \<noteq> None), lo_descriptor = map_option (descriptor_from_meta key) meta,
          lo_placement = map_option (placement_from_meta (ce_ctx CE i) key) meta \<rparr>, c1))"

definition h_lookup_object ::
  "('x, 'm, 'c, 'd) ClusterEnv \<Rightarrow> int \<Rightarrow> PbKey option \<Rightarrow> nat \<Rightarrow> ('x, 'm, 'c, 'd) Cluster \<Rightarrow> LookupObjectResponse sres \<times> ('x, 'm, 'c, 'd) Cluster" where
  "h_lookup_object CE now pk i c =
     (case pk of None \<Rightarrow> (missing ''key'', c) | Some k \<Rightarrow> lookup_key CE i now (pb_key_to_internal k) c)"

fun lookup_each ::
  "('x, 'm, 'c, 'd) ClusterEnv \<Rightarrow> nat \<Rightarrow> int \<Rightarrow> PbKey list \<Rightarrow> ('x, 'm, 'c, 'd) Cluster
     \<Rightarrow> LookupObjectResponse list sres \<times> ('x, 'm, 'c, 'd) Cluster" where
  "lookup_each CE i now [] c = (Inr [], c)"
| "lookup_each CE i now (k # ks) c =
     svc_step (lookup_key CE i now (pb_key_to_internal k) c) (\<lambda>r c1.
     svc_step (lookup_each CE i now ks c1) (\<lambda>rs c2. (Inr (r # rs), c2)))"

definition h_lookup_objects ::
  "('x, 'm, 'c, 'd) ClusterEnv \<Rightarrow> int \<Rightarrow> PbKey list \<Rightarrow> nat \<Rightarrow> ('x, 'm, 'c, 'd) Cluster
     \<Rightarrow> LookupObjectResponse list sres \<times> ('x, 'm, 'c, 'd) Cluster" where
  "h_lookup_objects CE now ks i c =
     (if length ks > 1024
      then (Inl (Status Code_InvalidArgument (''too many keys in one LookupObjects: '' @ dec (length ks) @ '' (max 1024)'')), c)
      else lookup_each CE i now ks c)"

record DataReadResponse =
  dr_found :: bool
  dr_data :: bytes
  dr_metadata :: "KvMetadata option"
  dr_descriptor :: "ObjectDescriptor option"
  dr_placement :: "PlacementDescriptor option"

definition read_absent :: DataReadResponse where
  "read_absent = \<lparr> dr_found = False, dr_data = [], dr_metadata = None, dr_descriptor = None, dr_placement = None \<rparr>"

definition read_found :: "('x, 'm, 'c, 'd) KVServiceContext \<Rightarrow> ObjectKey \<Rightarrow> BlockMeta \<Rightarrow> bytes \<Rightarrow> DataReadResponse" where
  "read_found cx key meta data =
     \<lparr> dr_found = True, dr_data = data, dr_metadata = Some (meta_to_pb meta), dr_descriptor = Some (descriptor_from_meta key meta),
       dr_placement = Some (placement_from_meta cx key meta) \<rparr>"

text \<open>The common front of both reads by descriptor: the live metadata, checked against the request.\<close>

definition descriptor_front ::
  "('x, 'm, 'c, 'd) ClusterEnv \<Rightarrow> nat \<Rightarrow> int \<Rightarrow> ObjectDescriptor option \<Rightarrow> PlacementDescriptor option \<Rightarrow> ('x, 'm, 'c, 'd) Cluster
     \<Rightarrow> (ObjectDescriptor \<times> ObjectKey \<times> BlockMeta option) sres \<times> ('x, 'm, 'c, 'd) Cluster" where
  "descriptor_front CE i now desc placement c =
     (case desc of
        None \<Rightarrow> (missing ''descriptor'', c)
      | Some d \<Rightarrow>
          svc_step (svc_pure (key_from_descriptor d) c) (\<lambda>key c1.
          svc_step (metadata_get_live CE i now key c1) (\<lambda>active c2.
            case active of
              None \<Rightarrow> (Inr (d, key, None), c2)
            | Some meta \<Rightarrow>
                svc_step (svc_pure (validate_descriptor d meta) c2) (\<lambda>_ c3.
                svc_step (svc_pure (validate_placement_descriptor (ce_ctx CE i) key meta placement) c3) (\<lambda>_ c4.
                  (Inr (d, key, Some meta), c4))))))"

definition h_read_by_descriptor ::
  "('x, 'm, 'c, 'd) ClusterEnv \<Rightarrow> int \<Rightarrow> ObjectDescriptor option \<Rightarrow> PlacementDescriptor option \<Rightarrow> nat \<Rightarrow> ('x, 'm, 'c, 'd) Cluster
     \<Rightarrow> DataReadResponse sres \<times> ('x, 'm, 'c, 'd) Cluster" where
  "h_read_by_descriptor CE now desc placement i c =
     (let cx = ce_ctx CE i in
      svc_step (descriptor_front CE i now desc placement c) (\<lambda>(d, key, active) c1.
        case active of
          None \<Rightarrow> (Inr read_absent, c1)
        | Some meta \<Rightarrow>
            let fresh = placement_from_meta cx key meta in
            if placement_has_remote_chunks cx fresh
            then svc_step (read_chunks_by_placement CE i now d fresh c1) (\<lambda>cs c2.
              (Inr (read_found cx key meta (flatten_segments cs)), c2))
            else svc_step (run_storage i (get_with_meta (cx_storage cx) now key meta) c1) (\<lambda>r c2.
              (Inr (case r of Some (data, _) \<Rightarrow> read_found cx key meta data | None \<Rightarrow> read_absent), c2))))"


section \<open>Batches\<close>

definition h_get_batch ::
  "('x, 'm, 'c, 'd) ClusterEnv \<Rightarrow> int \<Rightarrow> PbKey list \<Rightarrow> nat \<Rightarrow> ('x, 'm, 'c, 'd) Cluster \<Rightarrow> GetResponse list sres \<times> ('x, 'm, 'c, 'd) Cluster" where
  "h_get_batch CE now ks i c =
     (case on_tier i (memory_get_batch (cx_memory (ce_ctx CE i)) now (map pb_key_to_internal ks)) c of
        (results, c1) \<Rightarrow>
          (Inr (map (\<lambda>r. case r of Inr (Some (d, m)) \<Rightarrow> get_found d m | _ \<Rightarrow> get_absent) results), c1))"

fun batch_items :: "int \<Rightarrow> PutRequest list \<Rightarrow> (ObjectKey \<times> bytes \<times> BlockMeta \<times> bool) list sres" where
  "batch_items now [] = Inr []"
| "batch_items now (r # rs) =
     (case pu_key r of
        None \<Rightarrow> missing ''key in batch item''
      | Some k \<Rightarrow>
          res_bind (batch_items now rs) (\<lambda>items. Inr ((pb_key_to_internal k, pu_data r,
            meta_from_pb now (pu_metadata r) (pu_options r), put_options_if_not_exists (pu_options r)) # items)))"

fun put_each ::
  "('x, 'm, 'c, 'd) MemoryEnv \<Rightarrow> int \<Rightarrow> (ObjectKey \<times> bytes \<times> BlockMeta \<times> bool) list \<Rightarrow> ('x, 'm, 'c, 'd) MemoryTier
     \<Rightarrow> bool list \<times> ('x, 'm, 'c, 'd) MemoryTier" where
  "put_each M now [] t = ([], t)"
| "put_each M now ((key, data, meta, ine) # items) t =
     (case (if ine then memory_put_if_absent M now key data meta t
            else io_step (memory_put M now key data meta t) (\<lambda>_ t1. (Inr True, t1))) of
        (r, t1) \<Rightarrow> (case put_each M now items t1 of (rs, t2) \<Rightarrow> ((case r of Inr b \<Rightarrow> b | Inl _ \<Rightarrow> False) # rs, t2)))"

definition h_put_batch ::
  "('x, 'm, 'c, 'd) ClusterEnv \<Rightarrow> int \<Rightarrow> PutRequest list \<Rightarrow> nat \<Rightarrow> ('x, 'm, 'c, 'd) Cluster \<Rightarrow> bool list sres \<times> ('x, 'm, 'c, 'd) Cluster" where
  "h_put_batch CE now reqs i c =
     (let M = cx_memory (ce_ctx CE i) in
      svc_step (svc_pure (batch_items now reqs) c) (\<lambda>items c1.
        if list_ex (\<lambda>(_, _, _, ine). ine) items
        then (case on_tier i (put_each M now items) c1 of (bs, c2) \<Rightarrow> (Inr bs, c2))
        else (case on_tier i (memory_put_batch M now (map (\<lambda>(k, d, m, _). (k, d, m)) items)) c1 of
                (rs, c2) \<Rightarrow> (Inr (map is_ok rs), c2))))"


section \<open>Streams\<close>

text \<open>The messages of one stripe at \<open>base\<close>; \<open>final\<close> says whether it is the last stripe.\<close>

definition stripe_messages :: "int \<Rightarrow> int \<Rightarrow> bool \<Rightarrow> bytes \<Rightarrow> DataChunk list" where
  "stripe_messages tot base final seg =
     map (\<lambda>(i, (start, d)). \<lparr> dc_data = d, dc_offset = base + int start, dc_total_size = tot,
         dc_is_last = (final \<and> i + 1 = length (sub_chunks seg)) \<rparr>) (enumerate 0 (sub_chunks seg))"

fun stripe_pipeline ::
  "('x, 'm, 'c, 'd) ClusterEnv \<Rightarrow> nat \<Rightarrow> StripingInfo \<Rightarrow> nat list \<Rightarrow> ('x, 'm, 'c, 'd) Cluster
     \<Rightarrow> DataChunk sres list \<times> ('x, 'm, 'c, 'd) Cluster" where
  "stripe_pipeline CE i info [] c = ([], c)"
| "stripe_pipeline CE i info (idx # idxs) c =
     (case run_storage i (read_striped_chunk_at (cx_storage (ce_ctx CE i)) info idx) c of
        (Inl e, c1) \<Rightarrow> ([Inl e], c1)
      | (Inr seg, c1) \<Rightarrow>
          (case stripe_pipeline CE i info idxs c1 of (ms, c2) \<Rightarrow>
             (map Inr (stripe_messages (int (total_size info)) (int (idx * chunk_size info))
                (idx + 1 = length (chunk_paths info)) seg) @ ms, c2)))"

definition key_not_found :: "'a sres" where
  "key_not_found = Inl (Status Code_NotFound ''key not found'')"

definition h_get_stream ::
  "('x, 'm, 'c, 'd) ClusterEnv \<Rightarrow> int \<Rightarrow> PbKey option \<Rightarrow> nat \<Rightarrow> ('x, 'm, 'c, 'd) Cluster
     \<Rightarrow> DataChunk sres list sres \<times> ('x, 'm, 'c, 'd) Cluster" where
  "h_get_stream CE now pk i c =
     (let cx = ce_ctx CE i; M = cx_memory cx in
      case pk of
        None \<Rightarrow> (missing ''key'', c)
      | Some k \<Rightarrow>
          let internal = pb_key_to_internal k in
          svc_step (metadata_get_live CE i now internal c) (\<lambda>meta c1.
            if (case meta of None \<Rightarrow> False | Some m \<Rightarrow> placement_has_remote_chunks cx (placement_from_meta cx internal m))
            then svc_step (read_chunks_by_placement CE i now (descriptor_from_meta internal (the meta))
                (placement_from_meta cx internal (the meta)) c1) (\<lambda>segs c2. (Inr (map Inr (stream_segments segs)), c2))
            else (case on_tier i (memory_peek_chunks M internal) c1 of
                (Some (segs, _), c2) \<Rightarrow>
                  let slab = mt_slab (cu_tiers c2 i) in
                  (Inr (map Inr (stream_segments (map (seg_bytes slab) segs))),
                   snd (on_tier i (\<lambda>t. ((), drop_handles (seg_handles segs) t)) c2))
              | (None, c2) \<Rightarrow>
                  (case (case meta of None \<Rightarrow> None | Some m \<Rightarrow> striping m) of
                     Some info \<Rightarrow>
                       (case stripe_pipeline CE i info [0 ..< length (chunk_paths info)] c2 of (ms, c3) \<Rightarrow> (Inr ms, c3))
                   | None \<Rightarrow>
                       svc_step (run_memory i (memory_get_chunks M now internal) c2) (\<lambda>r c3.
                         case r of
                           None \<Rightarrow> (key_not_found, c3)
                         | Some (segs, _) \<Rightarrow>
                             (Inr (map Inr (stream_segments (map (seg_bytes (mt_slab (cu_tiers c3 i))) segs))),
                              snd (on_tier i (\<lambda>t. ((), drop_handles (seg_handles segs) t)) c3)))))))"

record DescriptorDataChunk =
  dd_chunk :: DataChunk
  dd_descriptor :: "ObjectDescriptor option"
  dd_placement :: "PlacementDescriptor option"

text \<open>The first message carries the descriptor and the placement.\<close>

definition descriptor_stream :: "ObjectDescriptor \<Rightarrow> PlacementDescriptor \<Rightarrow> bytes list \<Rightarrow> DescriptorDataChunk list" where
  "descriptor_stream desc placement segs =
     map (\<lambda>(j, ch). \<lparr> dd_chunk = ch, dd_descriptor = (if j = 0 then Some desc else None),
         dd_placement = (if j = 0 then Some placement else None) \<rparr>) (enumerate 0 (stream_segments segs))"

definition h_read_by_descriptor_stream ::
  "('x, 'm, 'c, 'd) ClusterEnv \<Rightarrow> int \<Rightarrow> ObjectDescriptor option \<Rightarrow> PlacementDescriptor option \<Rightarrow> nat \<Rightarrow> ('x, 'm, 'c, 'd) Cluster
     \<Rightarrow> DescriptorDataChunk list sres \<times> ('x, 'm, 'c, 'd) Cluster" where
  "h_read_by_descriptor_stream CE now desc placement i c =
     (let cx = ce_ctx CE i in
      svc_step (descriptor_front CE i now desc placement c) (\<lambda>(d, key, active) c1.
        case active of
          None \<Rightarrow> (key_not_found, c1)
        | Some meta \<Rightarrow>
            let fresh_d = descriptor_from_meta key meta; fresh_p = placement_from_meta cx key meta in
            if placement_has_remote_chunks cx fresh_p
            then svc_step (read_chunks_by_placement CE i now d fresh_p c1) (\<lambda>segs c2. (Inr (descriptor_stream fresh_d fresh_p segs), c2))
            else svc_step (run_storage i (get_chunks_with_meta (cx_storage cx) now key meta) c1) (\<lambda>r c2.
              case r of
                None \<Rightarrow> (key_not_found, c2)
              | Some (segs, _) \<Rightarrow> (Inr (descriptor_stream fresh_d fresh_p segs), c2))))"

text \<open>\<open>put_stream\<close>: the first message decides between the pipeline and the buffered path.\<close>

definition put_segments_local ::
  "('x, 'm, 'c, 'd) ClusterEnv \<Rightarrow> nat \<Rightarrow> int \<Rightarrow> ObjectKey \<Rightarrow> bytes list \<Rightarrow> BlockMeta \<Rightarrow> bool \<Rightarrow> ('x, 'm, 'c, 'd) Cluster
     \<Rightarrow> bool sres \<times> ('x, 'm, 'c, 'd) Cluster" where
  "put_segments_local CE i now key segs meta if_not_exists c =
     (let M = cx_memory (ce_ctx CE i) in
      if if_not_exists then run_memory i (memory_put_chunks_if_absent M now key segs meta) c
      else svc_step (run_memory i (memory_put_chunks M now key segs meta) c) (\<lambda>_ c1. (Inr True, c1)))"

definition h_put_stream ::
  "('x, 'm, 'c, 'd) ClusterEnv \<Rightarrow> int \<Rightarrow> nat list \<Rightarrow> PutChunk sres list \<Rightarrow> nat \<Rightarrow> ('x, 'm, 'c, 'd) Cluster
     \<Rightarrow> PutResponse sres \<times> ('x, 'm, 'c, 'd) Cluster" where
  "h_put_stream CE now order stream i c =
     (case stream of
        [] \<Rightarrow> (Inl (Status Code_InvalidArgument ''empty stream''), c)
      | Inl e # _ \<Rightarrow> (Inl e, c)
      | Inr first # rest \<Rightarrow>
          (case pk_key first of
             None \<Rightarrow> (Inl (Status Code_InvalidArgument ''first chunk must include key''), c)
           | Some k \<Rightarrow>
               let internal = pb_key_to_internal k; m = meta_from_pb now (pk_metadata first) (pk_options first);
                   ine = put_options_if_not_exists (pk_options first); declared = nat (pk_total_size first);
                   distributed = distributed_placement_enabled (ce_ctx CE i)
               in if pk_total_size first > 0 \<and> distributed declared
                  then svc_step (if ine then absent_gate CE i now internal c else (Inr True, c)) (\<lambda>go c1.
                    if \<not> go then (Inr (put_response False), c1)
                    else put_done (put_distributed_stream_impl CE i now order rest internal m declared (pk_data first) (pk_is_last first) ine c1))
                  else svc_step (svc_pure (collect_segments (pk_is_last first) rest) c) (\<lambda>more c1.
                    let segs = pk_data first # more in
                    put_done (if distributed (length (concat segs))
                      then put_distributed CE i now internal (flatten_segments segs) m ine c1
                      else put_segments_local CE i now internal segs m ine c1))))"

end
