(* ===== verification/Service_Stream.thy ===== *)
theory Service_Stream
  imports Service_Write "HOL-Library.Multiset"
begin

text \<open>
  The streaming write pipeline cuts the object at stripe boundaries, wherever the messages of the
  stream end and in whatever order the stripe writes complete.
\<close>

section \<open>A recording run\<close>

text \<open>The log is the list of the stripe writes, in the order in which they complete.\<close>

definition record_run :: "(nat \<times> bytes list \<Rightarrow> ChunkLocation sres) \<Rightarrow> nat \<times> bytes list \<Rightarrow> (nat \<times> bytes list) list
    \<Rightarrow> ChunkLocation sres \<times> (nat \<times> bytes list) list" where
  "record_run f t log = (f t, log @ [t])"

definition stripes_written :: "(nat \<times> bytes list) list \<Rightarrow> (nat \<times> bytes) multiset" where
  "stripes_written log = mset (map (\<lambda>(i, segs). (i, concat segs)) log)"

lemma stripes_written_simps [simp]:
  "stripes_written [] = {#}" "stripes_written (xs @ ys) = stripes_written xs + stripes_written ys" "stripes_written [(i, segs)] = {# (i, concat segs) #}"
  by (simp_all add: stripes_written_def)

lemma stripes_written_pick: "j < length ts \<Longrightarrow> stripes_written (log @ ts) = stripes_written ((log @ [ts ! j]) @ take j ts @ drop (Suc j) ts)"
  by (subst (1) id_take_nth_drop [of j ts]) (simp_all add: stripes_written_def)

definition all_ok :: "(nat \<times> bytes list \<Rightarrow> ChunkLocation sres) \<Rightarrow> bool" where
  "all_ok f \<longleftrightarrow> (\<forall>t. is_ok (f t))"

lemma join_while_record:
  assumes "all_ok f" "join_while (record_run f) k w log = (w', log')" "sw_first_err w = None"
  shows "stripes_written (log' @ sw_inflight w') = stripes_written (log @ sw_inflight w) \<and> length (log' @ sw_inflight w') = length (log @ sw_inflight w)
    \<and> sw_first_err w' = None \<and> sw_segments w' = sw_segments w
    \<and> sw_filled w' = sw_filled w \<and> sw_next_stripe w' = sw_next_stripe w \<and> sw_received_total w' = sw_received_total w
    \<and> (0 < k \<longrightarrow> length (sw_inflight w') < k)
    \<and> (length (sw_locations w) = length log \<longrightarrow> length (sw_locations w') = length log')"
  using assms(2,3)
proof (induction "record_run f" k w log arbitrary: w' log' rule: join_while.induct)
  case (1 k w log)
  show ?case
  proof (cases "length (sw_inflight w) < k \<or> sw_inflight w = []")
    case True
    then have "w' = w" "log' = log" using 1(2) by (auto simp: join_while.simps [of _ k w] split: if_splits)
    then show ?thesis using True 1(3) by auto
  next
    case False
    let ?ts = "sw_inflight w"
    define j where "j = (case sw_order w of [] \<Rightarrow> 0 | j # _ \<Rightarrow> j mod length ?ts)"
    have j: "j < length ?ts" using False by (simp add: j_def split: list.split)
    let ?w1 = "w\<lparr> sw_inflight := take j ?ts @ drop (Suc j) ?ts, sw_order := tl (sw_order w) \<rparr>"
    have nx: "join_next w = (?ts ! j, ?w1)" by (simp add: join_next_def j_def Let_def)
    obtain loc where loc: "f (?ts ! j) = Inr loc" using assms(1) by (metis all_ok_def is_ok_simps(1) old.sum.exhaust)
    let ?w2 = "absorb (Inr loc) ?w1"
    have rec: "join_while (record_run f) k ?w2 (log @ [?ts ! j]) = (w', log')"
      using 1(2) False nx loc by (simp add: join_while.simps [of _ k w] record_run_def)
    have w2: "sw_first_err ?w2 = None" "sw_inflight ?w2 = take j ?ts @ drop (Suc j) ?ts" "sw_segments ?w2 = sw_segments w"
      "sw_filled ?w2 = sw_filled w" "sw_next_stripe ?w2 = sw_next_stripe w" "sw_received_total ?w2 = sw_received_total w"
      "sw_locations ?w2 = sw_locations w @ [loc]"
      using 1(3) by (simp_all add: absorb_def)
    have IH: "stripes_written (log' @ sw_inflight w') = stripes_written ((log @ [?ts ! j]) @ sw_inflight ?w2)
      \<and> length (log' @ sw_inflight w') = length ((log @ [?ts ! j]) @ sw_inflight ?w2)
      \<and> sw_first_err w' = None \<and> sw_segments w' = sw_segments ?w2
      \<and> sw_filled w' = sw_filled ?w2 \<and> sw_next_stripe w' = sw_next_stripe ?w2 \<and> sw_received_total w' = sw_received_total ?w2
      \<and> (0 < k \<longrightarrow> length (sw_inflight w') < k)
      \<and> (length (sw_locations ?w2) = length (log @ [?ts ! j]) \<longrightarrow> length (sw_locations w') = length log')"
      by (rule 1(1) [OF False nx [symmetric] _ rec w2(1)]) (simp add: record_run_def loc)
    show ?thesis using IH w2 j stripes_written_pick [OF j, of log] by simp
  qed
qed

text \<open>
  The state of the pipeline after the bytes \<open>d\<close> have arrived: what was written or is in flight are the
  whole stripes of a prefix of \<open>d\<close>, each with its index, the rest is shorter than a stripe, and at most
  \<open>MAX_INFLIGHT_STRIPES\<close> stripes wait.
\<close>

definition stripe_cut :: "nat \<Rightarrow> bytes \<Rightarrow> (nat \<times> bytes) multiset" where
  "stripe_cut n d = mset (enumerate 0 (chunks n d))"

definition stream_inv :: "nat \<Rightarrow> bytes \<Rightarrow> StreamWrite \<Rightarrow> (nat \<times> bytes list) list \<Rightarrow> bool" where
  "stream_inv n d w log \<longleftrightarrow>
     sw_first_err w = None \<and> sw_filled w = length (concat (sw_segments w)) \<and> sw_filled w < n
     \<and> sw_next_stripe w = length (log @ sw_inflight w) \<and> length (sw_locations w) = length log
     \<and> (\<exists>full. d = full @ concat (sw_segments w) \<and> length full = n * sw_next_stripe w \<and> stripes_written (log @ sw_inflight w) = stripe_cut n full)
     \<and> length (sw_inflight w) \<le> MAX_INFLIGHT_STRIPES \<and> (\<forall>seg \<in> set (sw_segments w). seg \<noteq> [])"

lemma chunks_whole:
  assumes "0 < n" "length full = n * m"
  shows "chunks n (full @ r) = chunks n full @ chunks n r" "length (chunks n full) = m"
  using assms(2)
proof (induction m arbitrary: full)
  case (Suc m)
  { case 1
    have f: "full = take n full @ drop n full" "length (take n full) = n" "take n full \<noteq> []" "length (drop n full) = n * m"
      using 1 assms(1) by auto
    have "chunks n (full @ r) = take n full # chunks n (drop n full @ r)"
      by (subst f(1), simp only: append_assoc, rule chunks_append) (use assms(1) f in auto)
    moreover have "chunks n full = take n full # chunks n (drop n full)"
      using chunks_step [OF assms(1), of full] f(3) by auto
    ultimately show ?case using Suc.IH(1) [OF f(4)] by simp }
  { case 2
    have f: "full \<noteq> []" "length (drop n full) = n * m" using 2 assms(1) by auto
    then show ?case using chunks_step [OF assms(1) f(1)] Suc.IH(2) [OF f(2)] by simp }
qed simp_all

lemma cut_append:
  assumes "0 < n" "length full = n * m" "length blk \<le> n"
  shows "stripe_cut n (full @ blk) = stripe_cut n full + (if blk = [] then {#} else {# (m, blk) #})"
  using chunks_whole [OF assms(1,2)] assms(1,3) by (simp add: stripe_cut_def chunks_short enumerate_append_eq)

lemma dispatch_record:
  assumes "all_ok f" "sw_first_err w = None" "length (sw_locations w) = length log" "dispatch_stripe (record_run f) segs w log = (w', log')"
  shows "stripes_written (log' @ sw_inflight w') = stripes_written (log @ sw_inflight w) + {# (sw_next_stripe w, concat segs) #}
    \<and> length (log' @ sw_inflight w') = Suc (length (log @ sw_inflight w)) \<and> sw_first_err w' = None
    \<and> sw_segments w' = sw_segments w \<and> sw_filled w' = sw_filled w \<and> sw_next_stripe w' = Suc (sw_next_stripe w)
    \<and> sw_received_total w' = sw_received_total w \<and> length (sw_inflight w') \<le> MAX_INFLIGHT_STRIPES
    \<and> length (sw_locations w') = length log'"
proof -
  obtain w1 log1 where j: "join_while (record_run f) MAX_INFLIGHT_STRIPES (w\<lparr> sw_next_stripe := Suc (sw_next_stripe w) \<rparr>) log = (w1, log1)"
    by fastforce
  note r = join_while_record [OF assms(1) j]
  have "w' = w1\<lparr> sw_inflight := sw_inflight w1 @ [(sw_next_stripe w, segs)] \<rparr>" "log' = log1"
    using assms(4) j r assms(2) by (simp_all add: dispatch_stripe_def Let_def)
  then show ?thesis using r assms(2,3) by (simp add: MAX_INFLIGHT_STRIPES_def)
qed

lemma feed_loop_record:
  assumes "all_ok f" "stream_inv n d w log" "feed_loop (record_run f) n data w log = (w', log')"
  shows "stream_inv n (d @ data) w' log' \<and> sw_received_total w' = sw_received_total w"
  using assms(2,3)
proof (induction "record_run f" n data w log arbitrary: d w' log' rule: feed_loop.induct)
  case (1 n data w log)
  let ?need = "n - sw_filled w"
  have inv: "sw_first_err w = None" "sw_filled w = length (concat (sw_segments w))" "sw_filled w < n"
    "sw_next_stripe w = length (log @ sw_inflight w)" "length (sw_locations w) = length log"
    "length (sw_inflight w) \<le> MAX_INFLIGHT_STRIPES" "\<forall>seg \<in> set (sw_segments w). seg \<noteq> []"
    using 1(2) by (simp_all add: stream_inv_def)
  obtain full where full: "d = full @ concat (sw_segments w)" "length full = n * sw_next_stripe w"
    "stripes_written (log @ sw_inflight w) = stripe_cut n full" using 1(2) unfolding stream_inv_def by blast
  consider (empty) "data = []" | (short) "data \<noteq> []" "length data < ?need" | (whole) "data \<noteq> []" "?need \<le> length data" by linarith
  then show ?case
  proof cases
    case empty
    then have "w' = w" "log' = log" using 1(3) by (simp_all add: feed_loop.simps [of _ n "[]" w])
    then show ?thesis using 1(2) empty by simp
  next
    case short
    then have w': "w' = w\<lparr> sw_filled := sw_filled w + length data, sw_segments := sw_segments w @ [data] \<rparr>" "log' = log"
      using 1(3) inv(3) by (simp_all add: feed_loop.simps [of _ n data w])
    then show ?thesis using inv short full by (auto simp: stream_inv_def)
  next
    case whole
    let ?w0 = "w\<lparr> sw_segments := [], sw_filled := 0 \<rparr>" and ?segs = "sw_segments w @ [take ?need data]"
    obtain w1 log1 where dsp: "dispatch_stripe (record_run f) ?segs ?w0 log = (w1, log1)" by fastforce
    have rec: "feed_loop (record_run f) n (drop ?need data) w1 log1 = (w', log')"
      using 1(3) whole inv(3) dsp by (simp add: feed_loop.simps [of _ n data w])
    have r: "stripes_written (log1 @ sw_inflight w1) = stripe_cut n full + {# (sw_next_stripe w, concat ?segs) #}"
      "length (log1 @ sw_inflight w1) = Suc (sw_next_stripe w)" "sw_first_err w1 = None"
      "sw_segments w1 = []" "sw_filled w1 = 0" "sw_next_stripe w1 = Suc (sw_next_stripe w)"
      "sw_received_total w1 = sw_received_total w"
      "length (sw_inflight w1) \<le> MAX_INFLIGHT_STRIPES" "length (sw_locations w1) = length log1"
      using dispatch_record [OF assms(1) _ _ dsp] inv full(3) by simp_all
    have len: "length (concat ?segs) = n" using inv(2,3) whole by simp
    have ne: "concat ?segs \<noteq> []" using len inv(3) by (metis list.size(3) not_less_zero)
    have "stripe_cut n (full @ concat ?segs) = stripe_cut n full + {# (sw_next_stripe w, concat ?segs) #}"
      using cut_append [OF _ full(2), of "concat ?segs"] len inv(3) ne by (simp del: concat_append)
    then have "stream_inv n (d @ take ?need data) w1 log1"
      unfolding stream_inv_def using r inv(3) len full(1,2)
      by (intro conjI exI [of _ "full @ concat ?segs"]) simp_all
    from 1(1) [OF refl _ _ dsp [symmetric] this rec] whole inv(3) r(7) show ?thesis by simp
  qed
qed

lemma feed_record:
  assumes "all_ok f" "stream_inv n d w log" "sw_received_total w = length d" "length d + length data < 2 ^ 64"
    "feed (record_run f) n data w log = (w', log')"
  shows "stream_inv n (d @ data) w' log' \<and> sw_received_total w' = length (d @ data)"
proof -
  let ?w = "w\<lparr> sw_received_total := wadd64 (sw_received_total w) (length data) \<rparr>"
  have "stream_inv n d ?w log" using assms(2) by (auto simp: stream_inv_def)
  from feed_loop_record [OF assms(1) this] assms(3-5) show ?thesis by (simp add: feed_def wadd64_exact)
qed

lemma receive_record:
  assumes "all_ok f" "stream_inv n d w log" "sw_received_total w = length d"
    "collect_segments fin ms = Inr segs" "length d + length (concat segs) < 2 ^ 64"
  shows "\<exists>w' log'. receive (record_run f) n fin ms w log = (Inr w', log') \<and> stream_inv n (d @ concat segs) w' log'
    \<and> sw_received_total w' = length (d @ concat segs)"
  using assms(2-5)
proof (induction fin ms arbitrary: d w log segs rule: collect_segments.induct)
  case (2 fin m ms)
  show ?case
  proof (cases fin)
    case True
    then show ?thesis using 2 by auto
  next
    case False
    then obtain ch rest where m: "m = Inr ch" "collect_segments (pk_is_last ch) ms = Inr rest" "segs = pk_data ch # rest"
      using 2(4) by auto
    obtain w1 log1 where f: "feed (record_run f) n (pk_data ch) w log = (w1, log1)" by fastforce
    have "stream_inv n (d @ pk_data ch) w1 log1 \<and> sw_received_total w1 = length (d @ pk_data ch)"
      by (rule feed_record [OF assms(1) 2(2,3) _ f]) (use 2(5) m(3) in simp)
    moreover have "sw_first_err w = None" using 2(2) by (simp add: stream_inv_def)
    ultimately show ?thesis
      using 2(1) [OF False _ _ m(2), of "d @ pk_data ch" w1 log1] 2(5) m False f by simp
  qed
qed auto

lemma cut_eq_stripes:
  assumes "0 < n"
  shows "stripe_cut n d = mset (map (\<lambda>i. (i, stripe_bytes n d i)) [0 ..< div_ceil (length d) n])"
proof -
  have "enumerate 0 (chunks n d) = map (\<lambda>i. (i, chunks n d ! i)) [0 ..< length (chunks n d)]"
    by (rule nth_equalityI) (simp_all add: nth_enumerate_eq)
  moreover have "chunks n d ! i = stripe_bytes n d i" if "i < length (chunks n d)" for i
    using that nth_chunks [OF assms, of i d] assms by (simp add: stripe_bytes_def Let_def min_def length_chunks)
  ultimately have "enumerate 0 (chunks n d) = map (\<lambda>i. (i, stripe_bytes n d i)) [0 ..< length (chunks n d)]" by simp
  then show ?thesis by (simp only: stripe_cut_def length_chunks [OF assms])
qed


section \<open>Properties\<close>

text \<open>
  C34. The streaming pipeline and the buffered path write the same stripes.  If the messages of a
  stream, up to the one marked last, concatenate to an object, the pipeline writes every stripe that
  \<open>put_distributed_bytes_impl\<close> cuts out of that object exactly once, under its index and with exactly
  its bytes, wherever the messages were cut and in whatever order the writes in flight complete; it
  counts exactly the bytes it received and has one location per stripe.  (No stripe write fails.)
\<close>

theorem stream_cuts_at_stripes:
  assumes "0 < n" "all_ok f" "collect_segments fin ms = Inr segs" "length (first @ concat segs) < 2 ^ 64"
  shows "\<exists>w log. stream_stripes (record_run f) order n first fin ms [] = (Inr w, log)
    \<and> stripes_written log = mset (map (\<lambda>i. (i, stripe_bytes n (first @ concat segs) i)) [0 ..< div_ceil (length (first @ concat segs)) n])
    \<and> sw_received_total w = length (first @ concat segs) \<and> length (sw_locations w) = length log \<and> sw_first_err w = None"
proof -
  have "stream_inv n [] (stream_start order) []" "sw_received_total (stream_start order) = length ([] :: bytes)"
    using assms(1) by (simp_all add: stream_inv_def stream_start_def stripe_cut_def)
  moreover obtain w1 log1 where f: "feed (record_run f) n first (stream_start order) [] = (w1, log1)" by fastforce
  ultimately have i1: "stream_inv n first w1 log1" "sw_received_total w1 = length first"
    using feed_record [OF assms(2) _ _ _ f, of "[]"] assms(4) by auto
  obtain w2 log2 where r: "receive (record_run f) n fin ms w1 log1 = (Inr w2, log2)"
    "stream_inv n (first @ concat segs) w2 log2" "sw_received_total w2 = length (first @ concat segs)"
    using receive_record [OF assms(2) i1 assms(3)] assms(4) by auto
  then obtain full where inv: "sw_first_err w2 = None" "length (concat (sw_segments w2)) < n" "length (sw_locations w2) = length log2"
    "\<forall>seg \<in> set (sw_segments w2). seg \<noteq> []" "first @ concat segs = full @ concat (sw_segments w2)"
    "length full = n * sw_next_stripe w2" "stripes_written (log2 @ sw_inflight w2) = stripe_cut n full"
    by (auto simp: stream_inv_def)
  obtain w3 log3 where fl: "flush_stripe (record_run f) w2 log2 = (w3, log3)" by fastforce
  obtain w4 log4 where jn: "join_while (record_run f) 1 w3 log3 = (w4, log4)" by fastforce
  have res: "stream_stripes (record_run f) order n first fin ms [] = (Inr w4, log4)"
    using f r(1) fl jn by (simp add: stream_stripes_def svc_step_def)
  have nil: "concat (sw_segments w2) = [] \<longleftrightarrow> sw_segments w2 = []" using inv(4) by (cases "sw_segments w2") auto
  have fl3: "stripes_written (log3 @ sw_inflight w3) = stripe_cut n (full @ concat (sw_segments w2))
    \<and> sw_first_err w3 = None \<and> sw_received_total w3 = sw_received_total w2 \<and> length (sw_locations w3) = length log3"
  proof (cases "sw_segments w2 = []")
    case True
    then have "w3 = w2" "log3 = log2" using fl by (simp_all add: flush_stripe_def)
    then show ?thesis using True inv by simp
  next
    case False
    then have dsp: "dispatch_stripe (record_run f) (sw_segments w2) (w2\<lparr> sw_segments := [] \<rparr>) log2 = (w3, log3)"
      using fl inv(1) by (simp add: flush_stripe_def)
    show ?thesis
      using dispatch_record [OF assms(2) _ _ dsp] inv(1,3,7) cut_append [OF assms(1) inv(6), of "concat (sw_segments w2)"] inv(2) False nil by simp
  qed
  have fin4: "stripes_written log4 = stripes_written (log3 @ sw_inflight w3)" "sw_first_err w4 = None" "sw_received_total w4 = sw_received_total w3"
    "length (sw_locations w4) = length log4"
    using join_while_record [OF assms(2) jn] fl3 by auto
  then show ?thesis using res fl3 r(3) unfolding cut_eq_stripes [OF assms(1), symmetric] inv(5) by auto
qed

definition sample_location :: ChunkLocation where
  "sample_location = local_location (local_node sample_cx) 0 0 4 (0, ''/data/x'', [])"

theorem stream_cuts_at_stripes_witness:
  "\<exists>w log. stream_stripes (record_run (\<lambda>_. Inr sample_location)) [1] 4 [1, 2, 3] False
      [Inr \<lparr> pk_key = None, pk_data = [4, 5, 6], pk_total_size = 0, pk_metadata = None, pk_options = None, pk_is_last = True \<rparr>] [] = (Inr w, log)
    \<and> stripes_written log = {# (0, [1, 2, 3, 4]), (1, [5, 6]) #}
    \<and> sw_received_total w = 6 \<and> length (sw_locations w) = length log \<and> sw_first_err w = None"
proof -
  let ?d = "[1, 2, 3] @ concat [[4, 5, 6]] :: bytes"
  have m: "mset (map (\<lambda>i. (i, stripe_bytes 4 ?d i)) [0 ..< div_ceil (length ?d) 4]) = {# (0, [1, 2, 3, 4]), (1, [5, 6]) #}"
    by (simp add: stripe_bytes_def div_ceil_def Let_def upt_rec del: mset_map)
  have l: "length ?d = 6" by simp
  show ?thesis
    using stream_cuts_at_stripes [of 4 "\<lambda>_. Inr sample_location" False
      "[Inr \<lparr> pk_key = None, pk_data = [4, 5, 6], pk_total_size = 0, pk_metadata = None, pk_options = None, pk_is_last = True \<rparr>]"
      "[[4, 5, 6]]" "[1, 2, 3]" "[1]"] unfolding m unfolding l by (simp add: all_ok_def)
qed

end
