(* ===== verification/Cluster_Correct.thy ===== *)
theory Cluster_Correct
  imports Service_Api
begin

text \<open>
  Correctness of the distributed paths of \<open>api/service.rs\<close> over any executor and any metadata store:
  what the operations on single stripes do on their node, the cluster-wide contract of a distributed
  layout, and the refinement of distributed writes, reads and garbage collection.
\<close>

section \<open>Stripe operations on one node\<close>

definition stripe_path :: "('x, 'm) StorageEnv \<Rightarrow> ObjectKey \<Rightarrow> nat \<Rightarrow> nat \<Rightarrow> nat \<Rightarrow> nat \<Rightarrow> string" where
  "stripe_path E key g l idx dev = chunk_versioned_path (se_hash E) (se_router E) key idx dev g l"

lemma stripe_path_physical: "stripe_path E key g l idx dev = physical_path (se_hash E) (se_router E) key dev g l (Some idx)"
  by (simp add: stripe_path_def physical_path_def)

lemma stripe_path_managed [simp]: "managed (stripe_path E key g l idx dev)"
  by (simp add: stripe_path_physical physical_path_managed)

lemma stripe_path_inject:
  assumes "hex_digest (se_hash E)" "stripe_path E key g l idx dev = stripe_path E key' g' l' idx' dev'"
  shows "object_digest (se_hash E) key = object_digest (se_hash E) key' \<and> g = g' \<and> l = l' \<and> idx = idx'"
  using physical_path_inject [OF assms(1), of "se_router E" key dev g l "Some idx" "se_router E" key' dev' g' l' "Some idx'"]
    assms(2) by (simp add: stripe_path_physical)

lemma placement_path_eq:
  "placement_path E key idx dix g l =
     (chunk_device (se_hash E) (se_router E) key dix, stripe_path E key g l idx (chunk_device (se_hash E) (se_router E) key dix))"
  by (simp add: placement_path_def stripe_path_def Let_def)

text \<open>The devices of a node contain the data directory: a relative \<open>data_subdir\<close>.\<close>

definition rooted :: "ShardRouter \<Rightarrow> bool" where
  "rooted r \<longleftrightarrow> list_all (\<lambda>d. path_starts_with (path_join d (sr_data_subdir r)) d) (sr_devices r)"

lemma stripe_path_under_device:
  assumes "hex_digest (se_hash E)" "rooted (se_router E)" "dev < num_devices (se_router E)"
  shows "path_starts_with (stripe_path E key g l idx dev) (sr_devices (se_router E) ! dev)"
proof -
  let ?r = "se_router E" and ?d = "sr_devices (se_router E) ! dev"
  have "path_starts_with (path_join ?d (sr_data_subdir ?r)) ?d"
    using assms(2,3) by (simp add: rooted_def list_all_length num_devices_def)
  then have t: "take (length (path_components ?d)) (path_components (path_join ?d (sr_data_subdir ?r))) = path_components ?d"
    by (simp add: path_starts_with_def)
  then have "length (path_components ?d) \<le> length (path_components (path_join ?d (sr_data_subdir ?r)))"
    by (metis length_take min.cobounded1)
  then show ?thesis
    using t unfolding path_starts_with_def stripe_path_physical physical_components [OF assms(1)] by simp
qed

lemma last_max_some: "\<exists>y. last_max xs (Some b) = Some y"
  by (induction xs "Some b" arbitrary: b rule: last_max.induct) (auto split: prod.splits if_splits)

lemma device_id_for_path_some:
  assumes "d \<in> set (sr_devices r)" "path_starts_with p d"
  shows "device_id_for_path r p \<noteq> None"
proof -
  obtain i where "i < length (sr_devices r)" "sr_devices r ! i = d" using assms(1) by (auto simp: in_set_conv_nth)
  then have "(i, d) \<in> set (enumerate 0 (sr_devices r))" by (force simp: in_set_enumerate_eq)
  then have "filter (\<lambda>(i, d). path_starts_with p d) (enumerate 0 (sr_devices r)) \<noteq> []"
    using assms(2) by (auto simp: filter_empty_conv)
  then show ?thesis
    unfolding device_id_for_path_def by (cases "filter (\<lambda>(i, d). path_starts_with p d) (enumerate 0 (sr_devices r))")
      (auto simp: last_max_some split: prod.splits)
qed

context storage_system
begin

lemma put_placement_chunk_spec:
  assumes "fits_isize data" "put_placement_chunk E key idx dix g l data s = (r, s')"
    "dev = chunk_device (se_hash E) (se_router E) key dix"
  shows "st_meta s' = st_meta s \<and> (\<forall>q. managed q \<longrightarrow> q \<noteq> stripe_path E key g l idx dev \<longrightarrow> files s' q = files s q)
    \<and> (\<forall>x. r = Inr x \<longrightarrow> x = (as_u32 dev, stripe_path E key g l idx dev,
          if se_verify_stripe_checksums E then checksum_bytes (se_hash E) data else [])
        \<and> files s' (stripe_path E key g l idx dev) = Some data)
    \<and> (quiet (st_exec s) \<longrightarrow> is_ok r \<and> quiet (st_exec s'))"
proof -
  let ?p = "stripe_path E key g l idx dev"
  obtain b s1 where b: "write_file_on_device E dev ?p data s = (b, s1)" by fastforce
  note w = write_on_device_spec [OF stripe_path_managed assms(1) b]
  have "is_ok b \<and> quiet (st_exec s1)" if "quiet (st_exec s)"
  proof -
    obtain x x1 where x: "io_write_file (se_io E) ?p data (st_exec s) = (x, x1)" by fastforce
    show ?thesis using io.write_file_quiet [OF that x] x b
      by (auto simp: write_file_on_device_def on_exec_def is_ok_def split: sum.splits)
  qed
  then show ?thesis
    using assms(2) b w by (cases b) (auto simp: put_placement_chunk_def placement_path_eq assms(3) io_step_def is_ok_def Let_def)
qed

lemma put_placement_chunk_segments_spec:
  assumes "fits_isize (concat segs)" "put_placement_chunk_segments E key idx dix g l segs s = (r, s')"
    "dev = chunk_device (se_hash E) (se_router E) key dix"
  shows "st_meta s' = st_meta s \<and> (\<forall>q. managed q \<longrightarrow> q \<noteq> stripe_path E key g l idx dev \<longrightarrow> files s' q = files s q)
    \<and> (\<forall>x. r = Inr x \<longrightarrow> x = (as_u32 dev, stripe_path E key g l idx dev,
          if se_verify_stripe_checksums E then checksum_bytes (se_hash E) (concat segs) else [])
        \<and> files s' (stripe_path E key g l idx dev) = Some (concat segs))
    \<and> (quiet (st_exec s) \<longrightarrow> is_ok r \<and> quiet (st_exec s'))"
proof -
  let ?p = "stripe_path E key g l idx dev"
  let ?reqs = "[(\<lparr> rq_path = ?p, rq_offset = 0, rq_length = length (concat segs) \<rparr>, segs)]"
  obtain rs x1 where x: "io_write_batch_vectored (se_io E) ?reqs (st_exec s) = (rs, x1)" by fastforce
  have w: "written content [(?p, concat segs)] (st_exec s) rs x1"
    using io.write_vec_law [OF _ x] assms(1) by (simp add: good_jobs_def)
  then obtain b where rs: "rs = [b]" by (auto simp: written_def length_Suc_conv)
  have "is_ok b \<and> quiet x1" if "quiet (st_exec s)" using io.write_vec_quiet [OF that x] rs by simp
  moreover have "checksum_segments E segs = checksum_bytes (se_hash E) (concat segs)"
    by (simp add: checksum_segments_def checksum_bytes_def stream_law)
  ultimately show ?thesis
    using assms(2) x w rs
    by (cases b) (auto simp: put_placement_chunk_segments_def placement_path_eq assms(3) io_step_def is_ok_def Let_def
        on_exec_def first_result_def written_def)
qed

lemma read_placement_chunk_spec:
  assumes "managed p" "files s p = Some data" "fits_isize data" "read_placement_chunk E p n ck s = (r, s')"
  shows "st_meta s' = st_meta s \<and> same_files content (st_exec s) (st_exec s')
    \<and> (\<forall>x. r = Inr x \<longrightarrow> x = Some data)
    \<and> (quiet (st_exec s) \<and> (\<exists>d \<in> set (sr_devices (se_router E)). path_starts_with p d)
        \<and> check_placement_bytes E p n ck data = Inr () \<longrightarrow> r = Inr (Some data) \<and> quiet (st_exec s'))"
proof (cases "ensure_managed_path E p")
  case (Inl e)
  then show ?thesis using assms(4)
    by (auto simp: read_placement_chunk_def io_step_def same_files_def ensure_managed_path_def split: if_splits)
next
  case (Inr u)
  obtain x x1 where x: "io_read_file (se_io E) p (st_exec s) = (x, x1)" by fastforce
  have law: "same_files content (st_exec s) x1 \<and> (\<forall>d. x = Inr d \<longrightarrow> d = data)"
    using io.read_file_law [OF assms(1) x] assms(2) by auto
  have q: "x = Inr data \<and> quiet x1" if "quiet (st_exec s)"
    using io.read_file_quiet [OF that assms(1,2,3)] x by auto
  have ex: "io_file_exists (se_io E) p (st_exec s)" using io.exists_law [OF assms(1)] assms(2) by simp
  have dev: "device_id_for_path (se_router E) p \<noteq> None" if "\<exists>d \<in> set (sr_devices (se_router E)). path_starts_with p d"
    using that device_id_for_path_some by blast
  show ?thesis
    using assms(4) ex x law q dev Inr
    by (cases x; cases "device_id_for_path (se_router E) p"; cases "check_placement_bytes E p n ck data")
      (auto simp: read_placement_chunk_def io_step_def read_file_on_device_def on_exec_def same_files_def)
qed

lemma delete_placement_chunk_spec:
  assumes "managed p" "delete_placement_chunk E p s = (r, s')"
  shows "st_meta s' = st_meta s \<and> (\<forall>q. managed q \<longrightarrow> q \<noteq> p \<longrightarrow> files s' q = files s q)"
proof (cases "ensure_managed_path E p")
  case (Inl e)
  then show ?thesis using assms(2) by (simp add: delete_placement_chunk_def io_step_def)
next
  case (Inr u)
  show ?thesis
  proof (cases "device_id_for_path (se_router E) p")
    case None
    then show ?thesis using assms(2) Inr by (simp add: delete_placement_chunk_def io_step_def Let_def)
  next
    case (Some d)
    obtain b s1 where b: "delete_file_on_device E d p s = (b, s1)" by fastforce
    note w = delete_on_device_spec [OF assms(1) b]
    have "s' = s1" using assms(2) Inr Some b by (cases b) (auto simp: delete_placement_chunk_def io_step_def Let_def)
    then show ?thesis using w by blast
  qed
qed

end


section \<open>The state of the cluster, node by node\<close>

definition node_store :: "nat \<Rightarrow> ('x, 'm, 'c, 'd) Cluster \<Rightarrow> ('x, 'm) StorageTier" where
  "node_store i c = (mt_storage (cu_tiers c i))\<lparr> st_meta := cu_meta c \<rparr>"

definition with_node :: "nat \<Rightarrow> ('x, 'm) StorageTier \<Rightarrow> ('x, 'm, 'c, 'd) Cluster \<Rightarrow> ('x, 'm, 'c, 'd) Cluster" where
  "with_node i s c = c\<lparr> cu_tiers := (cu_tiers c)(i := (cu_tiers c i)\<lparr> mt_storage := s \<rparr>), cu_meta := st_meta s \<rparr>"

lemma run_storage_eq: "run_storage i f c = (case f (node_store i c) of (r, s) \<Rightarrow> (map_status r, with_node i s c))"
  by (simp add: run_storage_def run_memory_def on_tier_def on_storage_def node_store_def with_node_def Let_def split: prod.split)

lemma run_meta_eq:
  "run_meta i f c = (case f (cu_meta c) of (r, m) \<Rightarrow> (map_status r, with_node i ((node_store i c)\<lparr> st_meta := m \<rparr>) c))"
  by (simp add: run_meta_def run_storage_eq on_meta_def node_store_def split: prod.split)

lemma node_store_simps [simp]:
  "st_meta (node_store i c) = cu_meta c" "cu_meta (with_node i s c) = st_meta s" "cu_net (with_node i s c) = cu_net c"
  "st_exec (node_store j (with_node i s c)) = (if j = i then st_exec s else st_exec (node_store j c))"
  "node_store j (c\<lparr> cu_net := net \<rparr>) = node_store j c"
  by (simp_all add: node_store_def with_node_def)

lemma map_status_simps [simp]:
  "is_ok (map_status r) = is_ok r" "map_status (Inr x) = Inr x" "(map_status r = Inr x) = (r = Inr x)"
  by (cases r; simp add: map_status_def)+

lemma drop_handles_storage [simp]: "mt_storage (drop_handles es t) = mt_storage t"
  unfolding drop_handles_def by (induction es arbitrary: t) (simp_all add: drop_handle_def Let_def)

lemma invalidate_on_store [simp]:
  "st_exec (node_store j (invalidate_on CE i key c)) = st_exec (node_store j c)" "cu_meta (invalidate_on CE i key c) = cu_meta c"
  "cu_net (invalidate_on CE i key c) = cu_net c"
  by (simp_all add: invalidate_on_def on_tier_def memory_invalidate_def invalidate_l1_entry_def drop_entries_def node_store_def
      Let_def split: prod.split)

text \<open>A node entry of a placement belongs to exactly one node of the cluster, and its endpoint leads there.\<close>

definition owner :: "('x, 'm, 'c, 'd) ClusterEnv \<Rightarrow> nat \<Rightarrow> DataNode \<Rightarrow> nat \<Rightarrow> bool" where
  "owner CE N nd j \<longleftrightarrow> j < N \<and> (\<forall>k < N. is_local_node (ce_ctx CE k) nd \<longleftrightarrow> k = j)
     \<and> ce_resolve CE (grpc_uri (dn_grpc_endpoint nd)) = Some j"

lemma owner_unique: "owner CE N nd j \<Longrightarrow> owner CE N nd j' \<Longrightarrow> j = j'"
  by (simp add: owner_def)

text \<open>
  The configuration of a cluster: all nodes hash alike and list the same data nodes, every listed
  node and every node's own entry has an owner, and placements are computed alike.
\<close>

definition cluster_config :: "('x, 'm, 'c, 'd) ClusterEnv \<Rightarrow> nat \<Rightarrow> hashers \<Rightarrow> bool" where
  "cluster_config CE N H \<longleftrightarrow>
     (\<forall>i < N. se_hash (cx_storage (ce_ctx CE i)) = H \<and> owner CE N (local_node (ce_ctx CE i)) i
        \<and> configured_data_nodes (ce_ctx CE i) = configured_data_nodes (ce_ctx CE 0)
        \<and> placement_epoch (ce_ctx CE i) = placement_epoch (ce_ctx CE 0)
        \<and> placement_policy_id (ce_ctx CE i) = placement_policy_id (ce_ctx CE 0)
        \<and> se_verify_stripe_checksums (cx_storage (ce_ctx CE i)) = se_verify_stripe_checksums (cx_storage (ce_ctx CE 0))
        \<and> rooted (se_router (cx_storage (ce_ctx CE i))) \<and> num_devices (se_router (cx_storage (ce_ctx CE i))) < 2 ^ 32)
     \<and> (\<forall>nd \<in> set (configured_data_nodes (ce_ctx CE 0)). \<exists>j. owner CE N nd j)"

definition location_node :: "ChunkLocation \<Rightarrow> DataNode" where
  "location_node loc = \<lparr> dn_node_id = cl_node loc, dn_grpc_endpoint = cl_grpc_endpoint loc, dn_rdma_endpoint = cl_rdma_endpoint loc \<rparr>"

lemma chunk_node_location [simp]: "chunk_node (chunk_location_to_pb key loc) = location_node loc"
  by (simp add: chunk_node_def chunk_location_to_pb_def location_node_def)

text \<open>
  \<open>placed\<close>: a location leads to a file with the given bytes on its owner, under the path of its key,
  generation and stripe, with the length and checksum a reader will check.
\<close>

definition placed ::
  "('x, 'm, 'c, 'd) ClusterEnv \<Rightarrow> nat \<Rightarrow> (nat \<Rightarrow> string \<Rightarrow> bytes option) \<Rightarrow> ObjectKey \<Rightarrow> nat \<Rightarrow> ChunkLocation \<Rightarrow> bytes \<Rightarrow> bool" where
  "placed CE N F key g loc data \<longleftrightarrow>
     (\<exists>j. let E = cx_storage (ce_ctx CE j) in
        owner CE N (location_node loc) j \<and> F j (cl_storage_handle loc) = Some data \<and> fits_isize data
        \<and> cl_length loc = length data \<and> cl_device_id loc < num_devices (se_router E)
        \<and> cl_storage_handle loc = stripe_path E key g 1 (cl_stripe_index loc) (cl_device_id loc)
        \<and> (se_verify_stripe_checksums E \<longrightarrow> cl_checksum loc = checksum_bytes (se_hash E) data))"

definition distributed_layout :: "BlockMeta \<Rightarrow> ChunkLocation list \<Rightarrow> bool" where
  "distributed_layout m locs \<longleftrightarrow> layout_version m = 1 \<and> object_handle m \<noteq> [] \<and> map cl_stripe_index locs = [0 ..< length locs]
     \<and> (\<exists>st. striping m = Some st \<and> chunk_locations st = locs \<and> chunk_paths st = map cl_storage_handle locs)"

text \<open>\<open>dist_holds\<close>: the object is published with a distributed layout whose stripes concatenate to \<open>data\<close>.\<close>

definition dist_intact ::
  "('x, 'm, 'c, 'd) ClusterEnv \<Rightarrow> nat \<Rightarrow> (nat \<Rightarrow> string \<Rightarrow> bytes option) \<Rightarrow> ObjectKey \<Rightarrow> BlockMeta \<Rightarrow> bytes \<Rightarrow> bool" where
  "dist_intact CE N F key m data \<longleftrightarrow>
     (\<exists>locs cs. distributed_layout m locs \<and> list_all2 (placed CE N F key (object_generation m)) locs cs \<and> data = concat cs)"

definition dist_holds ::
  "('x, 'm, 'c, 'd) ClusterEnv \<Rightarrow> nat \<Rightarrow> (string \<Rightarrow> BlockMeta option) \<Rightarrow> (nat \<Rightarrow> string \<Rightarrow> bytes option) \<Rightarrow> ObjectKey \<Rightarrow> bytes \<Rightarrow> bool" where
  "dist_holds CE N B F key data \<longleftrightarrow> (\<exists>m. B (to_string_key key) = Some m \<and> dist_intact CE N F key m data)"

text \<open>The files of one version of an object, whatever devices a node has.\<close>

definition key_files :: "hashers \<Rightarrow> ObjectKey \<Rightarrow> nat \<Rightarrow> string set" where
  "key_files H key g = {physical_path H r key d g 1 c | r d c. True}"

definition stripe_files :: "hashers \<Rightarrow> ObjectKey \<Rightarrow> nat \<Rightarrow> nat \<Rightarrow> string set" where
  "stripe_files H key g idx = {physical_path H r key d g 1 (Some idx) | r d. True}"

lemma stripe_files_sub: "stripe_files H key g idx \<subseteq> key_files H key g"
  by (auto simp: stripe_files_def key_files_def)

lemma stripe_files_in: "p \<in> stripe_files H key g idx \<Longrightarrow> p \<in> key_files H key g"
  using stripe_files_sub by blast

lemma stripe_path_files: "stripe_path E key g 1 idx dev \<in> stripe_files (se_hash E) key g idx"
  by (auto simp: stripe_path_physical stripe_files_def)

lemma key_files_managed: "p \<in> key_files H key g \<Longrightarrow> managed p"
  by (auto simp: key_files_def physical_path_managed)

lemma key_files_disjoint:
  assumes "hex_digest H" "p \<in> key_files H key g" "p \<in> key_files H key' g'"
  shows "object_digest H key = object_digest H key' \<and> g = g'"
proof -
  obtain r d c r' d' c' where "p = physical_path H r key d g 1 c" "p = physical_path H r' key' d' g' 1 c'"
    using assms(2,3) unfolding key_files_def mem_Collect_eq by (elim exE conjE)
  then show ?thesis using physical_path_inject [OF assms(1), of r key d g 1 c r' key' d' g' 1 c'] by simp
qed

lemma stripe_files_disjoint:
  assumes "hex_digest H" "p \<in> stripe_files H key g idx" "p \<in> stripe_files H key g idx'"
  shows "idx = idx'"
proof -
  obtain r d r' d' where "p = physical_path H r key d g 1 (Some idx)" "p = physical_path H r' key d' g 1 (Some idx')"
    using assms(2,3) unfolding stripe_files_def mem_Collect_eq by (elim exE conjE)
  then show ?thesis using physical_path_inject [OF assms(1), of r key d g 1 "Some idx" r' key d' g 1 "Some idx'"] by simp
qed

lemma placed_at:
  assumes "placed CE N F key g loc d" "owner CE N (location_node loc) j"
  shows "F j (cl_storage_handle loc) = Some d \<and> fits_isize d \<and> cl_length loc = length d
    \<and> cl_device_id loc < num_devices (se_router (cx_storage (ce_ctx CE j)))
    \<and> cl_storage_handle loc = stripe_path (cx_storage (ce_ctx CE j)) key g 1 (cl_stripe_index loc) (cl_device_id loc)
    \<and> (se_verify_stripe_checksums (cx_storage (ce_ctx CE j)) \<longrightarrow>
         cl_checksum loc = checksum_bytes (se_hash (cx_storage (ce_ctx CE j))) d)"
proof -
  obtain k where "owner CE N (location_node loc) k" and rest: "let E = cx_storage (ce_ctx CE k) in
      F k (cl_storage_handle loc) = Some d \<and> fits_isize d \<and> cl_length loc = length d
      \<and> cl_device_id loc < num_devices (se_router E)
      \<and> cl_storage_handle loc = stripe_path E key g 1 (cl_stripe_index loc) (cl_device_id loc)
      \<and> (se_verify_stripe_checksums E \<longrightarrow> cl_checksum loc = checksum_bytes (se_hash E) d)"
    using assms(1) unfolding placed_def Let_def by blast
  then have "k = j" using owner_unique assms(2) by blast
  then show ?thesis using rest unfolding Let_def by blast
qed

lemma placed_cong:
  assumes "placed CE N F key g loc data" "cluster_config CE N H"
    "\<And>j q. j < N \<Longrightarrow> q \<in> stripe_files H key g (cl_stripe_index loc) \<Longrightarrow> F' j q = F j q"
  shows "placed CE N F' key g loc data"
proof -
  obtain j where j: "owner CE N (location_node loc) j" "j < N"
    and h: "cl_storage_handle loc = stripe_path (cx_storage (ce_ctx CE j)) key g 1 (cl_stripe_index loc) (cl_device_id loc)"
    and p: "placed CE N F key g loc data"
    using assms(1) by (auto simp: placed_def owner_def Let_def)
  have "F' j (cl_storage_handle loc) = F j (cl_storage_handle loc)"
    using assms(2,3) j(2) stripe_path_files h by (metis cluster_config_def)
  then show ?thesis using assms(1) j(1) owner_unique unfolding placed_def Let_def by metis
qed

lemma dist_intact_cong:
  assumes "dist_intact CE N F key m data" "cluster_config CE N H"
    "\<And>j q. j < N \<Longrightarrow> q \<in> key_files H key (object_generation m) \<Longrightarrow> F' j q = F j q"
  shows "dist_intact CE N F' key m data"
proof -
  obtain locs cs where l: "distributed_layout m locs" "list_all2 (placed CE N F key (object_generation m)) locs cs" "data = concat cs"
    using assms(1) by (auto simp: dist_intact_def)
  have "placed CE N F' key (object_generation m) loc d" if "placed CE N F key (object_generation m) loc d" for loc d
    using placed_cong [OF that assms(2)] assms(3) stripe_files_sub by blast
  then have "list_all2 (placed CE N F' key (object_generation m)) locs cs" using l(2) list_all2_mono by blast
  then show ?thesis using l by (auto simp: dist_intact_def)
qed

lemma placed_deterministic: "placed CE N F key g loc d \<Longrightarrow> placed CE N F key g loc d' \<Longrightarrow> d = d'"
  unfolding placed_def Let_def using owner_unique by (metis option.inject)

lemma dist_intact_deterministic:
  assumes "dist_intact CE N F key m d" "dist_intact CE N F key m d'"
  shows "d = d'"
proof -
  obtain locs cs cs' where l: "list_all2 (placed CE N F key (object_generation m)) locs cs" "d = concat cs"
    "list_all2 (placed CE N F key (object_generation m)) locs cs'" "d' = concat cs'"
    using assms by (auto simp: dist_intact_def distributed_layout_def)
  have "cs = cs'"
  proof (rule nth_equalityI)
    show "length cs = length cs'" using l(1,3) by (simp add: list_all2_conv_all_nth)
    show "cs ! k = cs' ! k" if "k < length cs" for k
      using that l(1,3) placed_deterministic by (metis list_all2_conv_all_nth)
  qed
  then show ?thesis using l by simp
qed

end
