(* ===== verification/Cluster_Ops.thy ===== *)
theory Cluster_Ops
  imports Cluster_Correct
begin

text \<open>
  The distributed operations over a cluster whose nodes meet the contract of the storage tier: what
  each of them keeps of the files and of the metadata, what it establishes, and that it succeeds on a
  cluster without failures.
\<close>

locale cluster_system =
  fixes CE :: "('x, 'm, 'c, 'd) ClusterEnv" and N :: nat and H :: hashers
    and content :: "'x \<Rightarrow> string \<Rightarrow> bytes option" and quiet :: "'x \<Rightarrow> bool"
    and view :: "'m \<Rightarrow> meta_view" and minv :: "'m \<Rightarrow> bool" and tid :: task_ids and up :: "'m \<Rightarrow> bool"
  assumes node_law: "i < N \<Longrightarrow> live_storage (cx_storage (ce_ctx CE i)) content quiet view minv tid up"
    and tasks_law: "i < N \<Longrightarrow> metadata_store (se_mo (cx_storage (ce_ctx CE i))) view minv tid"
    and config_law: "cluster_config CE N H"
    and hex_law: "hex_digest H"
begin

abbreviation E :: "nat \<Rightarrow> ('x, 'm) StorageEnv" where
  "E i \<equiv> cx_storage (ce_ctx CE i)"

definition F :: "('x, 'm, 'c, 'd) Cluster \<Rightarrow> nat \<Rightarrow> string \<Rightarrow> bytes option" where
  "F c j q = content (st_exec (node_store j c)) q"

definition fault_free :: "('x, 'm, 'c, 'd) Cluster \<Rightarrow> bool" where
  "fault_free c \<longleftrightarrow> (\<forall>j < N. quiet (st_exec (node_store j c))) \<and> cu_net c = [] \<and> up (cu_meta c) \<and> minv (cu_meta c)"

text \<open>
  \<open>keeps P c c'\<close>: the metadata means the same and every managed file outside \<open>P\<close> is as before.
\<close>

definition keeps :: "(string \<Rightarrow> bool) \<Rightarrow> ('x, 'm, 'c, 'd) Cluster \<Rightarrow> ('x, 'm, 'c, 'd) Cluster \<Rightarrow> bool" where
  "keeps P c c' \<longleftrightarrow> view (cu_meta c') = view (cu_meta c) \<and> (minv (cu_meta c) \<longrightarrow> minv (cu_meta c'))
     \<and> (\<forall>j < N. \<forall>q. managed q \<longrightarrow> \<not> P q \<longrightarrow> F c' j q = F c j q)"

lemma storage_law: "i < N \<Longrightarrow> storage_system (E i) content quiet view minv tid"
  using node_law [of i] by (simp add: live_storage_def)

lemma config_facts:
  assumes "i < N"
  shows "se_hash (E i) = H" "owner CE N (local_node (ce_ctx CE i)) i"
    "configured_data_nodes (ce_ctx CE i) = configured_data_nodes (ce_ctx CE 0)"
    "placement_epoch (ce_ctx CE i) = placement_epoch (ce_ctx CE 0)"
    "placement_policy_id (ce_ctx CE i) = placement_policy_id (ce_ctx CE 0)"
    "rooted (se_router (E i))" "num_devices (se_router (E i)) < 2 ^ 32"
    "se_verify_stripe_checksums (E i) = se_verify_stripe_checksums (E 0)"
  using config_law assms unfolding cluster_config_def by blast+

lemmas hash_law = config_facts(1)

lemma keeps_refl [simp]: "keeps P c c"
  by (simp add: keeps_def)

lemma keeps_trans: "keeps P c1 c2 \<Longrightarrow> keeps P c2 c3 \<Longrightarrow> keeps P c1 c3"
  by (simp add: keeps_def)

lemma keeps_mono: "keeps P c c' \<Longrightarrow> (\<And>q. P q \<Longrightarrow> Q q) \<Longrightarrow> keeps Q c c'"
  by (auto simp: keeps_def)

lemma keeps_file: "keeps P c c' \<Longrightarrow> j < N \<Longrightarrow> managed q \<Longrightarrow> \<not> P q \<Longrightarrow> F c' j q = F c j q"
  by (simp add: keeps_def)

lemma keeps_net [simp]: "keeps P (c\<lparr> cu_net := net \<rparr>) c' = keeps P c c'" "keeps P c (c'\<lparr> cu_net := net \<rparr>) = keeps P c c'"
  by (simp_all add: keeps_def F_def)

lemma keeps_invalidate [simp]: "keeps P c (invalidate_on CE i key c)"
  by (simp add: keeps_def F_def)

lemma calm_invalidate [simp]: "fault_free (invalidate_on CE i key c) = fault_free c"
  by (simp add: fault_free_def)

text \<open>
  \<open>task P Q c p\<close>: running a task from \<open>c\<close> gave \<open>p\<close>; it touched only files in \<open>P\<close>, a success establishes
  \<open>Q\<close>, and on a cluster without failures it succeeds.
\<close>

definition task :: "(string \<Rightarrow> bool) \<Rightarrow> ('a \<Rightarrow> ('x, 'm, 'c, 'd) Cluster \<Rightarrow> bool) \<Rightarrow> ('x, 'm, 'c, 'd) Cluster
    \<Rightarrow> 'a sres \<times> ('x, 'm, 'c, 'd) Cluster \<Rightarrow> bool" where
  "task P Q c p \<longleftrightarrow> keeps P c (snd p) \<and> (\<forall>x. fst p = Inr x \<longrightarrow> Q x (snd p)) \<and> (fault_free c \<longrightarrow> is_ok (fst p) \<and> fault_free (snd p))"

lemma task_step:
  assumes "task P Q c p" "\<And>x c1. Q x c1 \<Longrightarrow> keeps P c c1 \<Longrightarrow> task P R c1 (k x c1)"
  shows "task P R c (svc_step p k)"
proof (cases p)
  case (Pair r c1)
  show ?thesis
  proof (cases r)
    case (Inl e)
    then show ?thesis using assms(1) Pair by (simp add: task_def svc_step_def)
  next
    case (Inr x)
    then have "task P R c1 (k x c1)" using assms Pair by (simp add: task_def)
    then show ?thesis using assms(1) Pair Inr keeps_trans by (auto simp: task_def svc_step_def)
  qed
qed

lemma task_pure: "(\<And>x. r = Inr x \<Longrightarrow> Q x c) \<Longrightarrow> (fault_free c \<Longrightarrow> is_ok r) \<Longrightarrow> task P Q c (r, c)"
  by (simp add: task_def)

lemma task_return: "Q x c \<Longrightarrow> task P Q c (Inr x, c)"
  by (simp add: task_def)

lemma task_weaken: "task P Q c p \<Longrightarrow> (\<And>x c'. Q x c' \<Longrightarrow> keeps P c c' \<Longrightarrow> R x c') \<Longrightarrow> task P R c p"
  by (auto simp: task_def)

lemma task_mono: "task P Q c p \<Longrightarrow> (\<And>q. P q \<Longrightarrow> P' q) \<Longrightarrow> task P' Q c p"
  by (auto simp: task_def intro: keeps_mono)

lemma task_storage:
  assumes "i < N" "f (node_store i c) = (r, s)" "st_meta s = cu_meta c"
    "\<And>q. managed q \<Longrightarrow> \<not> P q \<Longrightarrow> content (st_exec s) q = F c i q"
    "\<And>x. r = Inr x \<Longrightarrow> Q x (with_node i s c)"
    "fault_free c \<Longrightarrow> is_ok r \<and> quiet (st_exec s)"
  shows "task P Q c (run_storage i f c)"
  using assms by (auto simp: task_def run_storage_eq keeps_def fault_free_def F_def)

lemma task_remote:
  assumes "ce_resolve CE (grpc_uri (dn_grpc_endpoint node)) = Some j" "\<And>c0. F c0 = F c \<Longrightarrow> view (cu_meta c0) = view (cu_meta c) \<Longrightarrow>
      minv (cu_meta c0) = minv (cu_meta c) \<Longrightarrow> task P Q c0 (f j c0)"
  shows "task P Q c (remote_call CE node what f c)"
proof -
  have t: "task P Q (c\<lparr> cu_net := net \<rparr>) (f j (c\<lparr> cu_net := net \<rparr>))" for net
    by (rule assms(2)) (simp_all add: F_def fun_eq_iff)
  have calm: "fault_free (c\<lparr> cu_net := net \<rparr>) \<longleftrightarrow> net = [] \<and> fault_free c" if "cu_net c = []" for net
    using that by (auto simp: fault_free_def)
  obtain r c1 where r: "f j (c\<lparr> cu_net := tl (cu_net c) \<rparr>) = (r, c1)" by fastforce
  have ok: "task P Q (c\<lparr> cu_net := tl (cu_net c) \<rparr>) (r, c1)" using t [of "tl (cu_net c)"] r by simp
  show ?thesis
  proof (cases "cu_net c")
    case Nil
    then show ?thesis using ok assms(1) r calm by (cases r) (auto simp: remote_call_def task_def)
  next
    case (Cons ev net)
    then have "\<not> fault_free c" by (simp add: fault_free_def)
    then show ?thesis using ok assms(1) r Cons by (cases ev; cases r) (auto simp: remote_call_def task_def)
  qed
qed

lemma run_all_spec:
  assumes "\<And>k c. k < length fs \<Longrightarrow> I c \<Longrightarrow> task (P k) (Q k) c ((fs ! k) c) \<and> I (snd ((fs ! k) c))"
    "\<And>k x c c'. Q k x c \<Longrightarrow> keeps (\<lambda>q. \<exists>k'. k < k' \<and> k' < length fs \<and> P k' q) c c' \<Longrightarrow> Q k x c'"
    "I c" "run_all fs c = (rs, c')"
  shows "length rs = length fs \<and> keeps (\<lambda>q. \<exists>k < length fs. P k q) c c' \<and> I c'
    \<and> (\<forall>k < length fs. \<forall>x. rs ! k = Inr x \<longrightarrow> Q k x c') \<and> (fault_free c \<longrightarrow> list_all is_ok rs \<and> fault_free c')"
  using assms
proof (induction fs arbitrary: P Q c rs)
  case Nil
  then show ?case by simp
next
  case (Cons f fs)
  obtain r c1 where r: "f c = (r, c1)" by fastforce
  obtain rs' where rs: "run_all fs c1 = (rs', c')" "rs = r # rs'" using Cons.prems(4) r by (auto split: prod.splits)
  have t: "task (P 0) (Q 0) c (r, c1)" "I c1" using Cons.prems(1) [of 0 c] Cons.prems(3) r by simp_all
  have ih: "length rs' = length fs \<and> keeps (\<lambda>q. \<exists>k < length fs. P (Suc k) q) c1 c' \<and> I c'
    \<and> (\<forall>k < length fs. \<forall>x. rs' ! k = Inr x \<longrightarrow> Q (Suc k) x c') \<and> (fault_free c1 \<longrightarrow> list_all is_ok rs' \<and> fault_free c')"
  proof (rule Cons.IH [OF _ _ t(2) rs(1)])
    show "k < length fs \<Longrightarrow> I c \<Longrightarrow> task (P (Suc k)) (Q (Suc k)) c ((fs ! k) c) \<and> I (snd ((fs ! k) c))" for k c
      using Cons.prems(1) [of "Suc k" c] by simp
    show "Q (Suc k) x c'" if "Q (Suc k) x c" "keeps (\<lambda>q. \<exists>k'. k < k' \<and> k' < length fs \<and> P (Suc k') q) c c'" for k x c c'
      by (rule Cons.prems(2) [OF that(1)], rule keeps_mono [OF that(2)]) auto
  qed
  have "keeps (\<lambda>q. \<exists>k < length (f # fs). P k q) c c'"
  proof (rule keeps_trans)
    show "keeps (\<lambda>q. \<exists>k < length (f # fs). P k q) c c1" using t(1) by (auto simp: task_def intro: keeps_mono)
    show "keeps (\<lambda>q. \<exists>k < length (f # fs). P k q) c1 c'" using ih by (auto intro: keeps_mono)
  qed
  moreover have "Q 0 x c'" if "r = Inr x" for x
  proof (rule Cons.prems(2))
    show "Q 0 x c1" using t(1) that by (simp add: task_def)
    show "keeps (\<lambda>q. \<exists>k'. 0 < k' \<and> k' < length (f # fs) \<and> P k' q) c1 c'"
      by (rule keeps_mono [of "\<lambda>q. \<exists>k < length fs. P (Suc k) q"]) (use ih in auto)
  qed
  ultimately show ?case
    using ih t(1) rs(2) by (auto simp: task_def nth_Cons less_Suc_eq_0_disj split: nat.split)
qed

lemma join_all_spec:
  assumes "\<And>k c. k < length fs \<Longrightarrow> I c \<Longrightarrow> task (P k) (Q k) c ((fs ! k) c) \<and> I (snd ((fs ! k) c))"
    "\<And>k x c c'. Q k x c \<Longrightarrow> keeps (\<lambda>q. \<exists>k'. k < k' \<and> k' < length fs \<and> P k' q) c c' \<Longrightarrow> Q k x c'" "I c"
  shows "task (\<lambda>q. \<exists>k < length fs. P k q)
    (\<lambda>xs c'. length xs = length fs \<and> I c' \<and> (\<forall>k < length fs. Q k (xs ! k) c')) c (join_all fs c)"
proof -
  obtain rs c' where rs: "run_all fs c = (rs, c')" by fastforce
  note spec = run_all_spec [OF assms(1,2,3) rs]
  have "is_ok (map_res id rs)" if "list_all is_ok rs"
    using that by (induction rs) (auto simp: is_ok_def split: sum.splits)
  then show ?thesis using spec by (auto simp: join_all_def rs task_def map_res_Inr_iff)
qed


section \<open>Stripes on their nodes\<close>

lemma nodes_nonempty: "configured_data_nodes cx \<noteq> []"
  by (simp add: configured_data_nodes_def Let_def)

lemma select_same: "i < N \<Longrightarrow> j < N \<Longrightarrow> select_data_node (ce_ctx CE i) key idx = select_data_node (ce_ctx CE j) key idx"
  unfolding select_data_node_def placement_slot_def placement_base_def
  by (simp only: config_facts(1) config_facts(3) [of i] config_facts(3) [of j])

lemma select_in: "select_data_node cx key idx \<in> set (configured_data_nodes cx)"
  using nodes_nonempty [of cx] by (simp add: select_data_node_def placement_slot_def)

lemma select_owner:
  assumes "i < N"
  obtains j where "owner CE N (select_data_node (ce_ctx CE i) key idx) j" "j < N"
    "local_device_stripe_index (ce_ctx CE j) key idx \<noteq> None"
proof -
  have "select_data_node (ce_ctx CE i) key idx \<in> set (configured_data_nodes (ce_ctx CE 0))"
    using select_in [of "ce_ctx CE i"] unfolding config_facts(3) [OF assms] .
  then obtain j where j: "owner CE N (select_data_node (ce_ctx CE i) key idx) j" "j < N"
    using config_law unfolding cluster_config_def by (meson owner_def)
  have l: "is_local_node (ce_ctx CE j) (select_data_node (ce_ctx CE j) key idx)"
    using j select_same [OF assms j(2)] by (simp add: owner_def)
  then have "filter (is_local_node (ce_ctx CE j)) (configured_data_nodes (ce_ctx CE j)) \<noteq> []"
    using select_in [of "ce_ctx CE j" key idx] by (auto simp: filter_empty_conv)
  with l have "local_device_stripe_index (ce_ctx CE j) key idx \<noteq> None"
    by (simp add: local_device_stripe_index_def Let_def)
  with j show ?thesis using that by blast
qed

lemma device_bounds:
  assumes "j < N" "dev = chunk_device (se_hash (E j)) (se_router (E j)) key dix"
  shows "dev < num_devices (se_router (E j))" "as_u32 dev = dev"
proof -
  have "router_ok (se_router (E j))" using storage_law [OF assms(1)] by (simp add: storage_system_def storage_system_axioms_def)
  then show "dev < num_devices (se_router (E j))" using assms(2) by (simp add: num_devices_def)
  then show "as_u32 dev = dev" using config_facts(7) [OF assms(1)] by (simp add: as_u32_def)
qed

definition stored_at :: "nat \<Rightarrow> ObjectKey \<Rightarrow> nat \<Rightarrow> nat \<Rightarrow> bytes \<Rightarrow> nat \<times> string \<times> string \<Rightarrow> ('x, 'm, 'c, 'd) Cluster \<Rightarrow> bool" where
  "stored_at j key g idx data p c \<longleftrightarrow>
     (case p of (dev, h, ck) \<Rightarrow> dev < num_devices (se_router (E j)) \<and> h = stripe_path (E j) key g 1 idx dev \<and> F c j h = Some data
        \<and> (se_verify_stripe_checksums (E j) \<longrightarrow> ck = checksum_bytes (se_hash (E j)) data))"

lemma store_stripe:
  assumes "j < N" "fits_isize data"
  shows "task (\<lambda>q. q \<in> stripe_files H key g idx) (stored_at j key g idx data) c
    (run_storage j (put_placement_chunk (E j) key idx dix g 1 data) c)"
proof -
  obtain dev where dev: "dev = chunk_device (se_hash (E j)) (se_router (E j)) key dix" by simp
  obtain r s where r: "put_placement_chunk (E j) key idx dix g 1 data (node_store j c) = (r, s)" by fastforce
  note spec = storage_system.put_placement_chunk_spec [OF storage_law [OF assms(1)] assms(2) r dev]
  have "stripe_path (E j) key g 1 idx dev \<in> stripe_files H key g idx"
    using stripe_path_files [of "E j"] hash_law [OF assms(1)] by simp
  then show ?thesis
    using spec device_bounds [OF assms(1) dev] assms(1)
    by (intro task_storage [where f = "put_placement_chunk (E j) key idx dix g 1 data", OF assms(1) r])
      (auto simp: F_def stored_at_def fault_free_def)
qed

lemma store_stripe_segments:
  assumes "j < N" "fits_isize (concat segs)"
  shows "task (\<lambda>q. q \<in> stripe_files H key g idx) (stored_at j key g idx (concat segs)) c
    (run_storage j (put_placement_chunk_segments (E j) key idx dix g 1 segs) c)"
proof -
  obtain dev where dev: "dev = chunk_device (se_hash (E j)) (se_router (E j)) key dix" by simp
  obtain r s where r: "put_placement_chunk_segments (E j) key idx dix g 1 segs (node_store j c) = (r, s)" by fastforce
  note spec = storage_system.put_placement_chunk_segments_spec [OF storage_law [OF assms(1)] assms(2) r dev]
  have "stripe_path (E j) key g 1 idx dev \<in> stripe_files H key g idx"
    using stripe_path_files [of "E j"] hash_law [OF assms(1)] by simp
  then show ?thesis
    using spec device_bounds [OF assms(1) dev] assms(1)
    by (intro task_storage [where f = "put_placement_chunk_segments (E j) key idx dix g 1 segs", OF assms(1) r])
      (auto simp: F_def stored_at_def fault_free_def)
qed

definition stripe_done :: "ObjectKey \<Rightarrow> nat \<Rightarrow> nat \<Rightarrow> bytes \<Rightarrow> ChunkLocation \<Rightarrow> ('x, 'm, 'c, 'd) Cluster \<Rightarrow> bool" where
  "stripe_done key g idx data loc c \<longleftrightarrow> placed CE N (F c) key g loc data \<and> cl_stripe_index loc = idx"

lemma location_node_local [simp]: "location_node (local_location nd idx off n p) = nd"
  by (cases p; cases nd) (simp add: location_node_def local_location_def)

lemma stored_location:
  assumes "stored_at j key g idx data p c" "owner CE N nd j" "fits_isize data" "idx < 2 ^ 32"
  shows "stripe_done key g idx data (local_location nd idx off (length data) p) c"
  using assms unfolding stripe_done_def placed_def Let_def location_node_local
  by (intro conjI exI [of _ j]) (auto simp: stored_at_def local_location_def as_u32_def split: prod.splits)

lemma store_remote:
  assumes "j < N" "fits_isize data" "idx < 2 ^ 32" "local_device_stripe_index (ce_ctx CE j) key idx \<noteq> None"
    "od_object_generation desc = g" "od_layout_version desc = 1"
  shows "task (\<lambda>q. q \<in> stripe_files H key g idx) (\<lambda>ch. stripe_done key g idx data (pb_chunk_to_location ch)) c
    (h_put_placement_chunk CE \<lparr> pp_key = Some (internal_key_to_pb key), pp_descriptor = Some desc, pp_stripe_index = as_u32 idx,
       pp_chunk_size = sz, pp_data = data \<rparr> j c)"
proof -
  obtain dix where dix: "local_device_stripe_index (ce_ctx CE j) key idx = Some dix" using assms(4) by blast
  have key: "pb_key_to_internal (internal_key_to_pb key) = key" by (simp add: pb_key_to_internal_def internal_key_to_pb_def)
  have own: "owner CE N (local_node (ce_ctx CE j)) j" by (rule config_facts(2) [OF assms(1)])
  have idx: "as_u32 idx = idx" using assms(3) by (simp add: as_u32_def)
  let ?loc = "\<lambda>p. local_location (local_node (ce_ctx CE j)) idx (wmul64 idx sz) (length data) p"
  have run: "h_put_placement_chunk CE \<lparr> pp_key = Some (internal_key_to_pb key), pp_descriptor = Some desc,
       pp_stripe_index = as_u32 idx, pp_chunk_size = sz, pp_data = data \<rparr> j c
     = svc_step (run_storage j (put_placement_chunk (E j) key idx dix g 1 data) c)
         (\<lambda>p c1. (Inr (chunk_location_to_pb key (?loc p)), c1))"
    unfolding h_put_placement_chunk_def Let_def
    by (simp add: key idx dix assms(5,6) local_location_def chunk_location_to_pb_def split_def fun_eq_iff del: One_nat_def)
  have loc_back: "pb_chunk_to_location (chunk_location_to_pb key l) = l" for l
    by (cases l) (simp add: pb_chunk_to_location_def chunk_location_to_pb_def)
  show ?thesis
    unfolding run
  proof (rule task_step [OF store_stripe [OF assms(1,2)]], rule task_return)
    show "stripe_done key g idx data (pb_chunk_to_location (chunk_location_to_pb key (?loc p))) c1"
      if "stored_at j key g idx data p c1" for p c1
      unfolding loc_back by (rule stored_location [OF that own assms(2,3)])
  qed
qed

lemma put_chunk_spec:
  assumes "i < N" "fits_isize data" "idx < 2 ^ 32" "od_object_generation desc = g" "od_layout_version desc = 1"
  shows "task (\<lambda>q. q \<in> stripe_files H key g idx) (stripe_done key g idx data) c
    (put_chunk_on_node CE i (select_data_node (ce_ctx CE i) key idx) key desc idx off sz data c)"
proof -
  let ?nd = "select_data_node (ce_ctx CE i) key idx"
  obtain j where j: "owner CE N ?nd j" "j < N" "local_device_stripe_index (ce_ctx CE j) key idx \<noteq> None"
    using select_owner [OF assms(1)] by blast
  show ?thesis
  proof (cases "i = j")
    case True
    then obtain dix where dix: "local_device_stripe_index (ce_ctx CE i) key idx = Some dix" using j(3) by blast
    have "is_local_node (ce_ctx CE i) ?nd" using j True by (simp add: owner_def)
    moreover have "task (\<lambda>q. q \<in> stripe_files H key g idx) (stripe_done key g idx data) c
       (svc_step (run_storage i (put_placement_chunk (E i) key idx dix g 1 data) c)
          (\<lambda>p c1. (Inr (local_location ?nd idx off (length data) p), c1)))"
    proof (rule task_step [OF store_stripe [OF assms(1,2)]], rule task_return)
      show "stripe_done key g idx data (local_location ?nd idx off (length data) p) c1" if "stored_at i key g idx data p c1" for p c1
        using stored_location [OF that _ assms(2,3)] j(1) True by blast
    qed
    ultimately show ?thesis using dix assms(4,5) by (simp add: put_chunk_on_node_def Let_def)
  next
    case False
    then have "\<not> is_local_node (ce_ctx CE i) ?nd" using j assms(1) by (simp add: owner_def)
    have "ce_resolve CE (grpc_uri (dn_grpc_endpoint ?nd)) = Some j" using j by (simp add: owner_def)
    have remote: "task (\<lambda>q. q \<in> stripe_files H key g idx) (\<lambda>ch. stripe_done key g idx data (pb_chunk_to_location ch)) c
       (remote_call CE ?nd ''put chunk to '' (h_put_placement_chunk CE \<lparr> pp_key = Some (internal_key_to_pb key),
          pp_descriptor = Some desc, pp_stripe_index = as_u32 idx, pp_chunk_size = sz, pp_data = data \<rparr>) c)"
      by (rule task_remote [OF \<open>ce_resolve CE _ = _\<close>]) (rule store_remote [OF j(2) assms(2,3) j(3) assms(4,5)])
    show ?thesis
      using \<open>\<not> is_local_node (ce_ctx CE i) ?nd\<close> unfolding put_chunk_on_node_def Let_def
      by (simp only: if_False) (rule task_step [OF remote], rule task_return)
  qed
qed


section \<open>Deleting stripes\<close>

lemma remote_keeps:
  assumes "\<And>c0. keeps P c0 (snd (f j c0))" "ce_resolve CE (grpc_uri (dn_grpc_endpoint node)) = Some j"
  shows "keeps P c (snd (remote_call CE node what f c))"
proof -
  have k: "keeps P c (snd (f j (c\<lparr> cu_net := net \<rparr>)))" for net using assms(1) [of "c\<lparr> cu_net := net \<rparr>"] by simp
  obtain r c1 where r: "f j (c\<lparr> cu_net := tl (cu_net c) \<rparr>) = (r, c1)" by fastforce
  have "keeps P c c1" using k [of "tl (cu_net c)"] r by simp
  then show ?thesis
    using assms(2) r by (cases "cu_net c"; cases "hd (cu_net c)"; cases r) (auto simp: remote_call_def)
qed

lemma snd_svc_step_map [simp]: "snd (svc_step p (\<lambda>x c. (f x, c))) = snd p"
  by (cases p; cases "fst p") (simp_all add: svc_step_def)

lemma delete_on_node:
  assumes "j < N" "managed p"
  shows "keeps (\<lambda>q. q = p) c (snd (run_storage j (delete_placement_chunk (E j) p) c))"
proof -
  obtain r s where r: "delete_placement_chunk (E j) p (node_store j c) = (r, s)" by fastforce
  note spec = storage_system.delete_placement_chunk_spec [OF storage_law [OF assms(1)] assms(2) r]
  show ?thesis using spec r by (simp add: run_storage_eq keeps_def F_def)
qed

lemma delete_chunk_keeps:
  assumes "i < N" "owner CE N (chunk_node ch) j" "managed (pc_storage_handle ch)"
  shows "keeps (\<lambda>q. q = pc_storage_handle ch) c (snd (delete_chunk_from_placement CE i ch c))"
proof (cases "is_local_node (ce_ctx CE i) (chunk_node ch)")
  case True
  then show ?thesis using delete_on_node [OF assms(1,3)] by (simp add: delete_chunk_from_placement_def Let_def)
next
  case False
  have "j < N" "ce_resolve CE (grpc_uri (dn_grpc_endpoint (chunk_node ch))) = Some j" using assms(2) by (simp_all add: owner_def)
  then have "keeps (\<lambda>q. q = pc_storage_handle ch) c
      (snd (remote_call CE (chunk_node ch) ''delete chunk from '' (h_delete_placement_chunk CE (Some ch)) c))"
    using delete_on_node [OF _ assms(3)] by (intro remote_keeps [where j = j]) (simp_all add: h_delete_placement_chunk_def)
  then show ?thesis using False by (simp add: delete_chunk_from_placement_def Let_def)
qed

lemma rollback_keeps:
  assumes "i < N" "\<And>ch. ch \<in> set cks \<Longrightarrow> (\<exists>j. owner CE N (chunk_node ch) j) \<and> managed (pc_storage_handle ch) \<and> P (pc_storage_handle ch)"
  shows "keeps P c (rollback_chunks CE i cks c)"
  using assms(2) unfolding rollback_chunks_def
proof (induction cks arbitrary: c)
  case (Cons ch cks)
  then obtain j where "owner CE N (chunk_node ch) j" "managed (pc_storage_handle ch)" "P (pc_storage_handle ch)" by auto
  then have "keeps P c (snd (delete_chunk_from_placement CE i ch c))"
    using delete_chunk_keeps [OF assms(1)] by (blast intro: keeps_mono)
  then show ?case using Cons by (auto intro: keeps_trans)
qed simp

lemma run_all_keeps:
  assumes "\<And>f c. f \<in> set fs \<Longrightarrow> keeps P c (snd (f c))"
  shows "keeps P c (snd (run_all fs c))"
  using assms
proof (induction fs arbitrary: c)
  case (Cons f fs)
  obtain r c1 where r: "f c = (r, c1)" by fastforce
  have "keeps P c c1" using Cons.prems [of f c] r by simp
  moreover have "keeps P c1 (snd (run_all fs c1))" using Cons by simp
  ultimately show ?case using r by (auto split: prod.split intro: keeps_trans)
qed simp

lemma delete_chunks_keeps:
  assumes "i < N" "\<And>ch. ch \<in> set (pd_chunks pl) \<Longrightarrow>
    (\<exists>j. owner CE N (chunk_node ch) j) \<and> managed (pc_storage_handle ch) \<and> P (pc_storage_handle ch)"
  shows "keeps P c (snd (delete_distributed_chunks CE i pl c))"
proof -
  have "keeps P c (snd (run_all (map (delete_chunk_from_placement CE i) (pd_chunks pl)) c))"
  proof (rule run_all_keeps)
    fix f c assume "f \<in> set (map (delete_chunk_from_placement CE i) (pd_chunks pl))"
    then obtain ch where ch: "ch \<in> set (pd_chunks pl)" "f = delete_chunk_from_placement CE i ch" by auto
    then obtain j where "owner CE N (chunk_node ch) j" "managed (pc_storage_handle ch)" "P (pc_storage_handle ch)"
      using assms(2) by blast
    then show "keeps P c (snd (f c))" using delete_chunk_keeps [OF assms(1)] ch by (blast intro: keeps_mono)
  qed
  then show ?thesis by (auto simp: delete_distributed_chunks_def join_all_def split: prod.split)
qed


section \<open>Distributed writes\<close>

abbreviation B :: "('x, 'm, 'c, 'd) Cluster \<Rightarrow> string \<Rightarrow> BlockMeta option" where
  "B c \<equiv> mv_blocks (view (cu_meta c))"

lemma meta_law: "i < N \<Longrightarrow> live_store (se_mo (E i)) view minv tid up" "i < N \<Longrightarrow> metadata_store (se_mo (E i)) view minv tid"
  using node_law [of i] tasks_law [of i] by (simp_all add: live_storage_def)

lemma F_meta [simp]: "F (with_node i ((node_store i c)\<lparr> st_meta := m \<rparr>) c) = F c"
  by (auto simp: F_def fun_eq_iff)

lemma fault_free_meta [simp]:
  "i < N \<Longrightarrow> fault_free (with_node i ((node_store i c)\<lparr> st_meta := m \<rparr>) c) \<longleftrightarrow>
     (\<forall>j < N. quiet (st_exec (node_store j c))) \<and> cu_net c = [] \<and> up m \<and> minv m"
  by (auto simp: fault_free_def)

text \<open>
  \<open>grows k c c' pub\<close>: generation counters never fall, and the tasks are those from before and, when a
  version was published (\<open>pub\<close>), one for the version of key \<open>k\<close> it replaced.
\<close>

definition grows :: "string \<Rightarrow> ('x, 'm, 'c, 'd) Cluster \<Rightarrow> ('x, 'm, 'c, 'd) Cluster \<Rightarrow> bool \<Rightarrow> bool" where
  "grows k c c' pub \<longleftrightarrow> (\<forall>k'. gen_base k' (view (cu_meta c)) \<le> gen_base k' (view (cu_meta c')))
     \<and> (\<forall>id t. mv_tasks (view (cu_meta c')) id = Some t \<longrightarrow> mv_tasks (view (cu_meta c)) id = Some t
          \<or> pub \<and> gt_key t = k \<and> B c k = Some (gt_retired t))"

lemma grows_same: "view (cu_meta c') = view (cu_meta c) \<Longrightarrow> grows k c c' pub"
  by (simp add: grows_def)

lemma grows_view: "grows k c c1 pub \<Longrightarrow> view (cu_meta c2) = view (cu_meta c1) \<Longrightarrow> grows k c c2 pub"
  by (simp add: grows_def)

lemma grows_trans: "grows k c c1 False \<Longrightarrow> B c1 = B c \<Longrightarrow> grows k c1 c' pub \<Longrightarrow> grows k c c' pub"
  unfolding grows_def
  apply (intro conjI allI impI)
  subgoal by (blast intro: le_trans)
  subgoal for i t by (elim conjE) (drule spec [of _ i], drule spec [of _ t], drule spec [of _ i], drule spec [of _ t], auto)
  done

lemma prepare_cluster:
  assumes "i < N" "minv (cu_meta c)" "gen_room (to_string_key key) (view (cu_meta c))"
    "run_storage i (prepare_write_meta (E i) key meta n) c = (r, c1)"
  shows "F c1 = F c \<and> B c1 = B c \<and> minv (cu_meta c1)
    \<and> (\<forall>m. r = Inr m \<longrightarrow> object_generation m = Suc (gen_base (to_string_key key) (view (cu_meta c))) \<and> layout_version m = 1
         \<and> object_handle m \<noteq> [] \<and> gen_base (to_string_key key) (view (cu_meta c1)) \<le> object_generation m)
    \<and> (fault_free c \<longrightarrow> is_ok r \<and> fault_free c1) \<and> grows (to_string_key key) c c1 False"
proof -
  obtain x s where x: "prepare_write_meta (E i) key meta n (node_store i c) = (x, s)" by fastforce
  have r: "r = map_status x" "c1 = with_node i s c" using assms(4) x by (simp_all add: run_storage_eq)
  note spec = storage_system.prepare_spec [OF storage_law [OF assms(1)] _ _ x]
  have s: "st_exec s = st_exec (node_store i c)" "minv (st_meta s)" "mv_blocks (view (st_meta s)) = B c"
    using spec(1-3) assms(2,3) by simp_all
  have F: "F c1 = F c" using s(1) unfolding r(2) by (simp add: F_def fun_eq_iff)
  have "object_handle m \<noteq> []" if "x = Inr m" for m
    using x that by (auto simp: prepare_write_meta_def io_step_def storage_object_handle_def split: prod.splits sum.splits)
  moreover have "fault_free c \<longrightarrow> is_ok x \<and> fault_free c1"
  proof
    assume ff: "fault_free c"
    then have "live_storage.healthy quiet minv up (node_store i c)"
      using assms(1) by (simp add: live_storage.healthy_def [OF node_law [OF assms(1)]] fault_free_def)
    from live_storage.prepare_live [OF node_law [OF assms(1)] this, of key meta n] assms(3) x
    have "is_ok x" "live_storage.healthy quiet minv up s" by auto
    then show "is_ok x \<and> fault_free c1"
      using ff assms(1) unfolding r(2) by (auto simp: live_storage.healthy_def [OF node_law [OF assms(1)]] fault_free_def)
  qed
  moreover have "grows (to_string_key key) c c1 False
    \<and> (is_ok x \<longrightarrow> gen_base (to_string_key key) (view (cu_meta c1)) = Suc (gen_base (to_string_key key) (view (cu_meta c))))"
  proof -
    obtain y m1 where y: "mo_next_generation (se_mo (E i)) (to_string_key key) (cu_meta c) = (y, m1)" by fastforce
    have "step_ok view minv (cu_meta c) (\<lambda>g v. (g, v) = spec_next_generation (to_string_key key) (view (cu_meta c))) (y, m1)"
      using block_store.next_gen_law [OF metadata_store.axioms(1) [OF meta_law(2) [OF assms(1)]] assms(2,3)] y by simp
    moreover have "cu_meta c1 = m1" "is_ok x = is_ok y"
      using x y r(2) by (cases y; auto simp: prepare_write_meta_def on_meta_def io_step_def)+
    ultimately show ?thesis
      by (cases y) (auto simp: grows_def step_ok_def spec_next_generation_def Let_def gen_base_def split: option.split)
  qed
  ultimately show ?thesis using F s spec(4) assms(2,3) r by auto
qed

lemma publish_cluster:
  assumes "i < N" "minv (cu_meta c)" "publish_meta CE i now key m if_absent c = (r, c1)"
  shows "F c1 = F c \<and> minv (cu_meta c1)
    \<and> B c1 = (if r = Inr True then (B c)(to_string_key key \<mapsto> m) else B c)
    \<and> (fault_free c \<and> \<not> if_absent \<longrightarrow> r = Inr True \<and> fault_free c1)
    \<and> (\<not> if_absent \<longrightarrow> r \<noteq> Inr False)
    \<and> (gen_base (to_string_key key) (view (cu_meta c)) \<le> object_generation m \<longrightarrow> grows (to_string_key key) c c1 (r = Inr True))"
proof (cases if_absent)
  case True
  obtain x m1 where x: "mo_put_block_if_absent (se_mo (E i)) (to_string_key key) m (cu_meta c) = (x, m1)" by fastforce
  have "step_ok view minv (cu_meta c) (\<lambda>x v. if B c (to_string_key key) = None
      then x \<and> v = spec_set (to_string_key key) (Some m) (view (cu_meta c)) else \<not> x \<and> v = view (cu_meta c)) (x, m1)"
    using block_store.if_absent_law [OF metadata_store.axioms(1) [OF meta_law(2) [OF assms(1)]] assms(2), of "to_string_key key" m] x by simp
  then show ?thesis
    using assms(3) True x
    by (cases x) (auto simp: publish_meta_def Let_def run_meta_eq step_ok_def map_status_def grows_def spec_set_def gen_base_def split: if_splits)
next
  case False
  let ?nb = "gc_delay (ce_ctx CE i) now"
  obtain x m1 where x: "mo_replace_block (se_mo (E i)) (to_string_key key) m ?nb (cu_meta c) = (x, m1)" by fastforce
  have law: "step_ok view minv (cu_meta c) (\<lambda>x v. x = B c (to_string_key key)
      \<and> v = spec_publish tid (to_string_key key) (Some m) ?nb (view (cu_meta c))) (x, m1)"
    using block_store.replace_law [OF metadata_store.axioms(1) [OF meta_law(2) [OF assms(1)]] assms(2), of "to_string_key key" m ?nb] x by simp
  have live: "is_ok x \<and> up m1" if "up (cu_meta c)"
    using live_store.replace_up [OF meta_law(1) [OF assms(1)] that assms(2), of "to_string_key key" m ?nb] x by simp
  show ?thesis
    using assms(1,3) False x law live
    by (cases x) (auto simp: publish_meta_def Let_def run_meta_eq step_ok_def map_status_def svc_step_def fault_free_def F_def fun_eq_iff
        grows_def spec_publish_def spec_enqueue_def spec_set_def gen_base_def split: option.splits if_splits)
qed


lemma stripe_bytes_chunks:
  assumes "0 < n" "idx < div_ceil (length data) n"
  shows "stripe_bytes n data idx = chunks n data ! idx"
  using nth_chunks [OF assms(1), of idx data] assms length_chunks [OF assms(1), of data]
  by (simp add: stripe_bytes_def Let_def min_def)

lemma placed_checksum: "placed CE N G key g loc d \<Longrightarrow> se_verify_stripe_checksums (E 0) \<Longrightarrow> cl_checksum loc \<noteq> []"
  using config_facts(8) by (auto simp: placed_def Let_def owner_def checksum_bytes_def hex16_def)

text \<open>All stripes of an object, written by the tasks of one request.\<close>

definition stripes_done :: "ObjectKey \<Rightarrow> nat \<Rightarrow> bytes list \<Rightarrow> ChunkLocation list \<Rightarrow> ('x, 'm, 'c, 'd) Cluster \<Rightarrow> bool" where
  "stripes_done key g cs locs c \<longleftrightarrow> map cl_stripe_index locs = [0 ..< length locs] \<and> list_all2 (placed CE N (F c) key g) locs cs"

lemma stripe_done_keeps:
  assumes "stripe_done key g idx d loc c" "keeps P c c'" "\<And>q. q \<in> stripe_files H key g idx \<Longrightarrow> \<not> P q"
  shows "stripe_done key g idx d loc c'"
proof -
  have "F c' j q = F c j q" if "j < N" "q \<in> stripe_files H key g idx" for j q
    using that by (intro keeps_file [OF assms(2)] assms(3) key_files_managed stripe_files_in)
  then show ?thesis using placed_cong [OF _ config_law] assms(1) by (auto simp: stripe_done_def)
qed

lemma write_stripes:
  assumes "i < N" "\<And>d. d \<in> set cs \<Longrightarrow> fits_isize d" "length cs \<le> 2 ^ 32" "od_object_generation desc = g" "od_layout_version desc = 1"
  shows "task (\<lambda>q. q \<in> key_files H key g) (stripes_done key g cs) c
    (join_all (map (\<lambda>idx. put_chunk_on_node CE i (select_data_node (ce_ctx CE i) key idx) key desc idx (off idx) sz (cs ! idx))
       [0 ..< length cs]) c)"
proof -
  let ?fs = "map (\<lambda>idx. put_chunk_on_node CE i (select_data_node (ce_ctx CE i) key idx) key desc idx (off idx) sz (cs ! idx)) [0 ..< length cs]"
  have "task (\<lambda>q. \<exists>k < length ?fs. q \<in> stripe_files H key g k)
      (\<lambda>xs c'. length xs = length ?fs \<and> True \<and> (\<forall>k < length ?fs. stripe_done key g k (cs ! k) (xs ! k) c')) c (join_all ?fs c)"
  proof (rule join_all_spec)
    show "task (\<lambda>q. q \<in> stripe_files H key g k) (stripe_done key g k (cs ! k)) c ((?fs ! k) c) \<and> True" if "k < length ?fs" for k c
      using that assms(3) put_chunk_spec [OF assms(1) assms(2) _ assms(4,5), of "cs ! k" k] by simp
    show "stripe_done key g k (cs ! k) x c'" if "stripe_done key g k (cs ! k) x c"
      "keeps (\<lambda>q. \<exists>k'. k < k' \<and> k' < length ?fs \<and> q \<in> stripe_files H key g k') c c'" for k x c c'
      by (rule stripe_done_keeps [OF that]) (use stripe_files_disjoint [OF hex_law] in blast)
  qed simp
  then have "task (\<lambda>q. q \<in> key_files H key g)
      (\<lambda>xs c'. length xs = length cs \<and> (\<forall>k < length cs. stripe_done key g k (cs ! k) (xs ! k) c')) c (join_all ?fs c)"
    by (rule task_mono [OF task_weaken]) (use stripe_files_in in auto)
  then show ?thesis
  proof (rule task_weaken)
    fix xs c' assume *: "length xs = length cs \<and> (\<forall>k < length cs. stripe_done key g k (cs ! k) (xs ! k) c')"
    then have "map cl_stripe_index xs = [0 ..< length xs]" by (auto simp: stripe_done_def intro!: nth_equalityI)
    then show "stripes_done key g cs xs c'" using * by (simp add: stripes_done_def stripe_done_def list_all2_conv_all_nth)
  qed
qed

text \<open>What a distributed write of \<open>data\<close> under \<open>key\<close> may do to the cluster.\<close>

definition dist_outcome :: "ObjectKey \<Rightarrow> bytes \<Rightarrow> ('x, 'm, 'c, 'd) Cluster \<Rightarrow> bool sres \<Rightarrow> ('x, 'm, 'c, 'd) Cluster \<Rightarrow> bool" where
  "dist_outcome key data c r c' \<longleftrightarrow>
     (let k = to_string_key key; g = Suc (gen_base k (view (cu_meta c))) in
      minv (cu_meta c') \<and> grows k c c' (r = Inr True) \<and> (\<forall>j < N. \<forall>q. managed q \<longrightarrow> q \<notin> key_files H key g \<longrightarrow> F c' j q = F c j q)
      \<and> (if r = Inr True
         then (\<exists>m. B c' = (B c)(k \<mapsto> m) \<and> object_generation m = g \<and> dist_intact CE N (F c') key m data) else B c' = B c))"

definition lifetime :: "ObjectKey \<Rightarrow> BlockMeta \<Rightarrow> ('x, 'm, 'c, 'd) Cluster \<Rightarrow> bool" where
  "lifetime key meta c \<longleftrightarrow> (\<exists>m. B c (to_string_key key) = Some m \<and> created_at m = created_at meta \<and> ttl_seconds m = ttl_seconds meta)"

lemma prepare_lifetime:
  "run_storage i (prepare_write_meta (E i) key meta n) c = (Inr pm, c1) \<Longrightarrow> created_at pm = created_at meta \<and> ttl_seconds pm = ttl_seconds meta"
  by (auto simp: run_storage_def run_memory_def on_tier_def on_storage_def prepare_write_meta_def io_step_def map_status_def Let_def
      split: prod.splits sum.splits)

lemma stripes_owned:
  assumes "stripes_done key g cs locs c" "ch \<in> set (map (chunk_location_to_pb key) locs)"
  shows "(\<exists>j. owner CE N (chunk_node ch) j) \<and> managed (pc_storage_handle ch) \<and> pc_storage_handle ch \<in> key_files H key g"
proof -
  obtain loc where loc: "loc \<in> set locs" "ch = chunk_location_to_pb key loc" using assms(2) by auto
  then obtain d where "placed CE N (F c) key g loc d"
    using assms(1) by (auto simp: stripes_done_def list_all2_conv_all_nth in_set_conv_nth)
  then obtain j where j: "owner CE N (location_node loc) j" "j < N"
    "cl_storage_handle loc = stripe_path (E j) key g 1 (cl_stripe_index loc) (cl_device_id loc)"
    by (auto simp: placed_def Let_def owner_def)
  have "cl_storage_handle loc \<in> key_files H key g"
    unfolding j(3) using stripe_path_files [of "E j"] stripe_files_sub hash_law [OF j(2)] by fastforce
  moreover have "pc_storage_handle ch = cl_storage_handle loc" by (simp add: loc(2) chunk_location_to_pb_def)
  ultimately show ?thesis using j(1) key_files_managed loc(2) by auto
qed

lemma stripes_layout:
  assumes "stripes_done key g cs locs c" "layout_version m = 1" "object_handle m \<noteq> []" "object_generation m = g" "F c' = F c"
  shows "dist_intact CE N (F c') key (striped_meta m n sz locs) (concat cs)"
  unfolding dist_intact_def
  by (rule exI [of _ locs], rule exI [of _ cs])
    (use assms in \<open>auto simp: stripes_done_def distributed_layout_def striped_meta_def\<close>)


lemma commit_outcome:
  assumes "i < N" "minv (cu_meta c)" "stripes_done key g cs locs c" "g = Suc (gen_base (to_string_key key) (view (cu_meta c0)))"
    "layout_version pm = 1" "object_handle pm \<noteq> []" "object_generation pm = g" "B c = B c0"
    "grows (to_string_key key) c0 c False" "gen_base (to_string_key key) (view (cu_meta c)) \<le> g"
    "\<And>j q. j < N \<Longrightarrow> managed q \<Longrightarrow> q \<notin> key_files H key g \<Longrightarrow> F c j q = F c0 j q"
    "publish_meta CE i now key (striped_meta pm n sz locs) if_absent (invalidate_on CE i key c) = (r1, c1)"
    "(r, c') = (if r1 = Inr True then (r1, c1) else (r1, rollback_chunks CE i (map (chunk_location_to_pb key) locs) c1))"
  shows "dist_outcome key (concat cs) c0 r c' \<and> (fault_free c \<and> \<not> if_absent \<longrightarrow> r = Inr True \<and> fault_free c')
    \<and> (\<not> if_absent \<longrightarrow> r \<noteq> Inr False) \<and> (r = Inr True \<longrightarrow> lifetime key pm c')"
proof -
  have F: "F (invalidate_on CE i key c) = F c" by (simp add: F_def fun_eq_iff)
  have pub: "F c1 = F c \<and> minv (cu_meta c1)
    \<and> B c1 = (if r1 = Inr True then (B c)(to_string_key key \<mapsto> striped_meta pm n sz locs) else B c)
    \<and> (fault_free c \<and> \<not> if_absent \<longrightarrow> r1 = Inr True \<and> fault_free c1) \<and> grows (to_string_key key) c c1 (r1 = Inr True)
    \<and> (\<not> if_absent \<longrightarrow> r1 \<noteq> Inr False)"
    using publish_cluster [OF assms(1) _ assms(12)] assms(2,7,10) by (simp add: F grows_def striped_meta_def)
  have hist: "grows (to_string_key key) c0 c1 (r1 = Inr True)" using grows_trans [OF assms(9,8)] pub by blast
  show ?thesis
  proof (cases "r1 = Inr True")
    case True
    have "dist_intact CE N (F c1) key (striped_meta pm n sz locs) (concat cs)"
      using stripes_layout [OF assms(3,5,6,7)] pub by simp
    moreover have "object_generation (striped_meta pm n sz locs) = g" using assms(7) by (simp add: striped_meta_def)
    moreover have "lifetime key pm c1" using True pub by (simp add: lifetime_def striped_meta_def)
    ultimately show ?thesis
      using True pub hist assms(4,8,11,13) by (auto simp: dist_outcome_def Let_def)
  next
    case False
    have k: "keeps (\<lambda>q. q \<in> key_files H key g) c1 (rollback_chunks CE i (map (chunk_location_to_pb key) locs) c1)"
      by (rule rollback_keeps [OF assms(1)]) (rule stripes_owned [OF assms(3)])
    then have "grows (to_string_key key) c0 (rollback_chunks CE i (map (chunk_location_to_pb key) locs) c1) (r1 = Inr True)"
      by (intro grows_view [OF hist]) (simp add: keeps_def)
    then show ?thesis
      using False k pub assms(4,8,11,13) by (auto simp: dist_outcome_def Let_def keeps_def)
  qed
qed

lemma put_impl_outcome:
  assumes "i < N" "minv (cu_meta c)" "gen_room (to_string_key key) (view (cu_meta c))" "fits_isize data"
    "div_ceil (length data) (stripe_size (ce_ctx CE i)) \<le> 2 ^ 32"
    "put_distributed_bytes_impl CE i now key data meta if_absent c = (r, c')"
  shows "dist_outcome key data c r c' \<and> (fault_free c \<and> \<not> if_absent \<longrightarrow> r = Inr True \<and> fault_free c')
    \<and> (\<not> if_absent \<longrightarrow> r \<noteq> Inr False) \<and> (r = Inr True \<longrightarrow> lifetime key meta c')"
proof -
  let ?cx = "ce_ctx CE i" and ?g = "Suc (gen_base (to_string_key key) (view (cu_meta c)))"
  let ?n = "stripe_size ?cx" and ?cs = "chunks (stripe_size ?cx) data"
  have n: "0 < ?n" by (simp add: stripe_size_def)
  obtain rp c1 where p: "run_storage i (prepare_write_meta (E i) key meta (length data)) c = (rp, c1)" by fastforce
  note prep = prepare_cluster [OF assms(1-3) p]
  show ?thesis
  proof (cases rp)
    case (Inl e)
    then show ?thesis
      using assms(6) p prep by (auto simp: put_distributed_bytes_impl_def Let_def svc_step_def dist_outcome_def)
  next
    case (Inr pm)
    let ?desc = "make_distributed_descriptor key pm (div_ceil (length data) ?n) ?n"
    let ?tasks = "map (\<lambda>idx. put_chunk_on_node CE i (select_data_node ?cx key idx) key ?desc idx (idx * ?n) ?n (stripe_bytes ?n data idx))
      [0 ..< div_ceil (length data) ?n]"
    have pm: "object_generation pm = ?g" "layout_version pm = 1" "object_handle pm \<noteq> []" using prep Inr by simp_all
    have tasks: "?tasks = map (\<lambda>idx. put_chunk_on_node CE i (select_data_node ?cx key idx) key ?desc idx (idx * ?n) ?n (?cs ! idx)) [0 ..< length ?cs]"
      using stripe_bytes_chunks [OF n] by (simp add: length_chunks n)
    obtain rj c2 where j: "join_all ?tasks c1 = (rj, c2)" by fastforce
    have "task (\<lambda>q. q \<in> key_files H key ?g) (stripes_done key ?g ?cs) c1 (join_all ?tasks c1)"
      unfolding tasks
    proof (rule write_stripes [OF assms(1)])
      show "fits_isize d" if "d \<in> set ?cs" for d using storage_system.chunks_fit [OF storage_law [OF assms(1)] assms(4) that] .
      show "length ?cs \<le> 2 ^ 32" using assms(5) by (simp add: length_chunks n)
      show "od_object_generation ?desc = ?g" "od_layout_version ?desc = 1"
        using pm by (simp_all add: make_distributed_descriptor_def descriptor_from_meta_def split: option.split)
    qed
    then have t: "task (\<lambda>q. q \<in> key_files H key ?g) (stripes_done key ?g ?cs) c1 (rj, c2)" unfolding j .
    show ?thesis
    proof (cases rj)
      case rj: (Inl e)
      then have "\<not> fault_free c1" "r = Inl e" "c' = c2"
        using assms(6) p j t Inr by (auto simp: put_distributed_bytes_impl_def Let_def svc_step_def task_def)
      moreover have "grows (to_string_key key) c c2 False"
      proof (rule grows_view)
        show "grows (to_string_key key) c c1 False" using prep by blast
        show "view (cu_meta c2) = view (cu_meta c1)" using t unfolding task_def keeps_def by simp
      qed
      ultimately show ?thesis using t prep Inr by (auto simp: dist_outcome_def task_def keeps_def)
    next
      case rj: (Inr locs)
      have sd: "stripes_done key ?g ?cs locs c2" "keeps (\<lambda>q. q \<in> key_files H key ?g) c1 c2"
        using t rj by (simp_all add: task_def)
      have srt: "sort_key cl_stripe_index locs = locs"
        using sd(1) by (intro sort_key_id_if_sorted) (simp add: stripes_done_def)
      have "cl_checksum l \<noteq> []" if l: "l \<in> set locs" "se_verify_stripe_checksums (E 0)" for l
      proof -
        obtain d where "placed CE N (F c2) key ?g l d"
          using sd(1) l(1) by (auto simp: stripes_done_def list_all2_conv_all_nth in_set_conv_nth)
        then show ?thesis using placed_checksum l(2) by blast
      qed
      then have ck: "\<not> (se_verify_stripe_checksums (E i) \<and> list_ex (\<lambda>l. cl_checksum l = []) locs)"
        using config_facts(8) [OF assms(1)] by (auto simp: list_ex_iff)
      obtain r1 c3 where pub: "publish_meta CE i now key (striped_meta pm (length data) ?n locs) if_absent (invalidate_on CE i key c2) = (r1, c3)"
        by fastforce
      have run: "(r, c') = (if r1 = Inr True then (r1, c3) else (r1, rollback_chunks CE i (map (chunk_location_to_pb key) locs) c3))"
        using assms(6) p j Inr rj pub ck unfolding put_distributed_bytes_impl_def Let_def
        by (auto simp: svc_step_def srt split: sum.splits if_splits)
      have "dist_outcome key (concat ?cs) c r c' \<and> (fault_free c2 \<and> \<not> if_absent \<longrightarrow> r = Inr True \<and> fault_free c')
          \<and> (\<not> if_absent \<longrightarrow> r \<noteq> Inr False) \<and> (r = Inr True \<longrightarrow> lifetime key pm c')"
        by (rule commit_outcome [OF assms(1) _ sd(1) refl pm(2,3,1) _ _ _ _ pub run])
          (use sd(2) prep Inr pm(1) grows_view [of _ c c1 False c2] in \<open>auto simp: keeps_def\<close>)
      moreover have "lifetime key pm = lifetime key meta"
        using prepare_lifetime [of i key meta "length data" c pm c1] p Inr by (simp add: lifetime_def fun_eq_iff)
      ultimately show ?thesis using t rj prep n by (auto simp: task_def)
    qed
  qed
qed

end

end
