(* ===== verification/Cluster_Read.thy ===== *)
theory Cluster_Read
  imports Cluster_Ops
begin

text \<open>Reading distributed objects, and the garbage collector.\<close>

section \<open>Placements and stream messages\<close>

lemma take_parts_mark_last:
  "list_all (\<lambda>ch. \<not> dc_is_last ch) cs \<Longrightarrow> take_parts (mark_last cs) = map dc_data cs"
  by (induction cs rule: mark_last.induct) simp_all

lemma checksum_nonempty: "checksum_bytes H d \<noteq> []"
  by (simp add: checksum_bytes_def hex16_def)

lemma placement_stream_bytes: "flatten_segments (take_parts (placement_stream ch data)) = data"
  unfolding placement_stream_def
  by (subst take_parts_mark_last)
    (simp_all add: list_all_iff flatten_segments_def o_def split_def sub_chunks_data)

lemma validate_own_descriptor: "object_handle m \<noteq> [] \<Longrightarrow> validate_descriptor (descriptor_from_meta key m) m = Inr ()"
  by (cases "striping m") (simp_all add: validate_descriptor_def descriptor_from_meta_def service_object_handle_def)

lemma key_back [simp]: "pb_key_to_internal (internal_key_to_pb key) = key"
  by (simp add: pb_key_to_internal_def internal_key_to_pb_def)

lemma descriptor_key [simp]: "key_from_descriptor (descriptor_from_meta key m) = Inr key"
  by (simp add: key_from_descriptor_def descriptor_from_meta_def split_def Let_def)

lemma distributed_chunks:
  assumes "distributed_layout m locs"
  shows "placement_chunks cx key m = map (chunk_location_to_pb key) locs"
  using assms by (auto simp: distributed_layout_def placement_chunks_def)

lemma placement_pd_chunks: "pd_chunks (placement_from_meta cx key m) = placement_chunks cx key m"
  by (simp add: placement_from_meta_def Let_def)

context cluster_system
begin

lemma placement_accepted:
  assumes "i < N" "j < N" "distributed_layout m locs"
  shows "validate_placement_descriptor (ce_ctx CE j) key m (Some ((placement_from_meta (ce_ctx CE i) key m)\<lparr> pd_chunks := [] \<rparr>)) = Inr ()"
proof -
  have "placement_epoch (ce_ctx CE i) = placement_epoch (ce_ctx CE j)" "placement_policy_id (ce_ctx CE i) = placement_policy_id (ce_ctx CE j)"
    using config_facts(4,5) assms(1,2) by metis+
  then show ?thesis
    by (simp add: validate_placement_descriptor_def placement_from_meta_def Let_def distributed_chunks [OF assms(3)]
        hash_law [OF assms(1)] hash_law [OF assms(2)])
qed

lemma get_block_cluster:
  assumes "i < N" "minv (cu_meta c)"
  shows "task (\<lambda>_. False) (\<lambda>x c'. x = B c (to_string_key key) \<and> F c' = F c \<and> minv (cu_meta c')) c
    (run_meta i (mo_get_block (se_mo (E i)) (to_string_key key)) c)"
proof -
  let ?k = "to_string_key key"
  obtain x m1 where x: "mo_get_block (se_mo (E i)) ?k (cu_meta c) = (x, m1)" by fastforce
  have "step_ok view minv (cu_meta c) (\<lambda>x v. x = B c ?k \<and> v = view (cu_meta c)) (x, m1)"
    using block_store.get_law [OF metadata_store.axioms(1) [OF meta_law(2) [OF assms(1)]] assms(2), of ?k] x by simp
  moreover have "is_ok x \<and> up m1" if "up (cu_meta c)"
    using live_store.get_up [OF meta_law(1) [OF assms(1)] that assms(2), of ?k] x by simp
  ultimately show ?thesis
    using assms x by (cases x) (auto simp: task_def run_meta_eq step_ok_def keeps_def fault_free_def)
qed

definition live_at :: "ObjectKey \<Rightarrow> int \<Rightarrow> BlockMeta \<Rightarrow> ('x, 'm, 'c, 'd) Cluster \<Rightarrow> bool" where
  "live_at key now m c \<longleftrightarrow> minv (cu_meta c) \<and> B c (to_string_key key) = Some m \<and> \<not> is_expired_at m now"

lemma live_keeps: "live_at key now m c \<Longrightarrow> keeps P c c' \<Longrightarrow> live_at key now m c'"
  by (simp add: live_at_def keeps_def)

lemma metadata_get_live_cluster:
  assumes "i < N" "live_at key now m c"
  shows "task (\<lambda>_. False) (\<lambda>x c'. x = Some m) c (metadata_get_live CE i now key c)"
proof -
  have "minv (cu_meta c)" "B c (to_string_key key) = Some m" "\<not> is_expired_at m now" using assms(2) by (simp_all add: live_at_def)
  then show ?thesis
    unfolding metadata_get_live_def Let_def
    by (intro task_step [OF get_block_cluster [OF assms(1)]]) (auto intro: task_return)
qed

lemma placed_under_device:
  assumes "j < N" "owner CE N (location_node loc) j" "placed CE N (F c) key g loc d"
  shows "\<exists>dev \<in> set (sr_devices (se_router (E j))). path_starts_with (cl_storage_handle loc) dev"
proof -
  note pl = placed_at [OF assms(3,2)]
  have "path_starts_with (stripe_path (E j) key g 1 (cl_stripe_index loc) (cl_device_id loc)) (sr_devices (se_router (E j)) ! cl_device_id loc)"
    by (rule stripe_path_under_device) (use pl hash_law [OF assms(1)] hex_law config_facts(6) [OF assms(1)] in simp_all)
  moreover have "sr_devices (se_router (E j)) ! cl_device_id loc \<in> set (sr_devices (se_router (E j)))"
    using pl by (simp add: num_devices_def)
  moreover have "cl_storage_handle loc = stripe_path (E j) key g 1 (cl_stripe_index loc) (cl_device_id loc)" using pl by blast
  ultimately show ?thesis by (simp only:) (rule bexI)
qed

lemma read_stripe_at:
  assumes "j < N" "owner CE N (location_node loc) j" "placed CE N (F c) key g loc d" "striping m \<noteq> None"
  shows "task (\<lambda>_. False) (\<lambda>x c'. x = Some d) c (run_storage j (read_placement_chunk (E j) (cl_storage_handle loc) (cl_length loc)
    (chunk_checksum_arg (descriptor_from_meta key m) (chunk_location_to_pb key loc))) c)"
proof -
  let ?p = "cl_storage_handle loc"
  let ?ck = "chunk_checksum_arg (descriptor_from_meta key m) (chunk_location_to_pb key loc)"
  have pl: "F c j ?p = Some d" "fits_isize d" "cl_length loc = length d" "cl_device_id loc < num_devices (se_router (E j))"
    "?p = stripe_path (E j) key g 1 (cl_stripe_index loc) (cl_device_id loc)"
    "se_verify_stripe_checksums (E j) \<Longrightarrow> cl_checksum loc = checksum_bytes (se_hash (E j)) d"
    using placed_at [OF assms(3,2)] by blast+
  have ck: "?ck = Some (cl_checksum loc)"
    using assms(4) by (auto simp: chunk_checksum_arg_def descriptor_from_meta_def chunk_location_to_pb_def)
  have check: "check_placement_bytes (E j) ?p (cl_length loc) ?ck d = Inr ()"
    using pl(3,6) by (auto simp: ck check_placement_bytes_def checksum_nonempty)
  note dir = placed_under_device [OF assms(1,2,3)]
  have man: "managed ?p" unfolding pl(5) by simp
  obtain r s where r: "read_placement_chunk (E j) ?p (cl_length loc) ?ck (node_store j c) = (r, s)" by fastforce
  have "content (st_exec (node_store j c)) ?p = Some d" using pl(1) by (simp add: F_def)
  note spec = storage_system.read_placement_chunk_spec [OF storage_law [OF assms(1)] _ this pl(2) r]
  note sp = spec [OF man]
  have safe1: "st_meta s = cu_meta c" using conjunct1 [OF sp] by simp
  note safe2 = conjunct1 [OF conjunct2 [OF sp]] and safe3 = conjunct1 [OF conjunct2 [OF conjunct2 [OF sp]]]
  have live: "r = Inr (Some d) \<and> quiet (st_exec s)" if "quiet (st_exec (node_store j c))"
    by (rule mp [OF conjunct2 [OF conjunct2 [OF conjunct2 [OF sp]]]]) (intro conjI that dir check)
  show ?thesis
  proof (rule task_storage [where f = "read_placement_chunk (E j) ?p (cl_length loc) ?ck", OF assms(1) r safe1])
    show "content (st_exec s) q = F c j q" if "managed q" for q using safe2 that by (simp add: same_files_def F_def)
    show "x = Some d" if "r = Inr x" for x using safe3 that by blast
    show "is_ok r \<and> quiet (st_exec s)" if "fault_free c" using live that assms(1) by (simp add: fault_free_def)
  qed
qed


lemma read_remote:
  assumes "i < N" "j < N" "owner CE N (location_node loc) j" "placed CE N (F c) key (object_generation m) loc d"
    "live_at key now m c" "distributed_layout m locs"
  shows "task (\<lambda>_. False) (\<lambda>parts c'. flatten_segments (take_parts parts) = d) c
    (h_read_placement_chunk CE now \<lparr> rp_descriptor = Some (descriptor_from_meta key m), rp_chunk = Some (chunk_location_to_pb key loc),
       rp_placement = Some ((placement_from_meta (ce_ctx CE i) key m)\<lparr> pd_chunks := [] \<rparr>) \<rparr> j c)"
proof -
  have lay: "layout_version m = 1" "object_handle m \<noteq> []" "striping m \<noteq> None" using assms(6) by (auto simp: distributed_layout_def)
  note pl = placed_at [OF assms(4,3)]
  note dir = placed_under_device [OF assms(2,3,4)]
  have handle: "validate_placement_chunk_handle (E j) key (cl_stripe_index loc) (object_generation m) 1 (cl_device_id loc) (cl_storage_handle loc) = Inr ()"
    using dir pl by (simp add: validate_placement_chunk_handle_def ensure_managed_path_def stripe_path_def)
  have od: "od_object_generation (descriptor_from_meta key m) = object_generation m" "od_layout_version (descriptor_from_meta key m) = 1"
    using lay by (simp_all add: descriptor_from_meta_def split_def Let_def)
  have front: "task (\<lambda>_. False) (\<lambda>_ c'. placed CE N (F c') key (object_generation m) loc d) c
     (svc_step (metadata_get_live CE j now key c) (\<lambda>active c2. case active of
          None \<Rightarrow> (Inl (Status Code_NotFound ''key not found''), c2)
        | Some meta \<Rightarrow> svc_step (svc_pure (validate_descriptor (descriptor_from_meta key m) meta) c2) (\<lambda>_ c3.
            svc_pure (validate_placement_descriptor (ce_ctx CE j) key meta
              (Some ((placement_from_meta (ce_ctx CE i) key m)\<lparr> pd_chunks := [] \<rparr>))) c3)))"
  proof (rule task_step [OF metadata_get_live_cluster [OF assms(2,5)]])
    fix x c1 assume x: "x = Some m" and k: "keeps (\<lambda>_. False) c c1"
    have "placed CE N (F c1) key (object_generation m) loc d"
      by (rule placed_cong [OF assms(4) config_law]) (use k stripe_files_in key_files_managed keeps_file in blast)
    then show "task (\<lambda>_. False) (\<lambda>_ c'. placed CE N (F c') key (object_generation m) loc d) c1
      (case x of None \<Rightarrow> (Inl (Status Code_NotFound ''key not found''), c1)
        | Some meta \<Rightarrow> svc_step (svc_pure (validate_descriptor (descriptor_from_meta key m) meta) c1) (\<lambda>_ c3.
            svc_pure (validate_placement_descriptor (ce_ctx CE j) key meta
              (Some ((placement_from_meta (ce_ctx CE i) key m)\<lparr> pd_chunks := [] \<rparr>))) c3))"
      using x lay(2) placement_accepted [OF assms(1,2,6)]
      by (simp add: validate_own_descriptor svc_pure_def svc_step_def task_return)
  qed
  let ?ch = "chunk_location_to_pb key loc" and ?desc = "descriptor_from_meta key m"
  have chunk: "pc_stripe_index ?ch = cl_stripe_index loc" "pc_device_id ?ch = cl_device_id loc"
    "pc_storage_handle ?ch = cl_storage_handle loc" "pc_length ?ch = cl_length loc"
    by (simp_all add: chunk_location_to_pb_def)
  have read: "task (\<lambda>_. False) (\<lambda>parts c'. flatten_segments (take_parts parts) = d) c1
      (svc_step (run_storage j (read_placement_chunk (E j) (cl_storage_handle loc) (cl_length loc) (chunk_checksum_arg ?desc ?ch)) c1)
        (\<lambda>x c2. svc_step (svc_pure (chunk_found x) c2) (\<lambda>data c3. (Inr (placement_stream ?ch data), c3))))"
    if "placed CE N (F c1) key (object_generation m) loc d" for c1
  proof (rule task_step [OF read_stripe_at [OF assms(2,3) that lay(3)]])
    fix x c2 assume "x = Some d"
    then show "task (\<lambda>_. False) (\<lambda>parts c'. flatten_segments (take_parts parts) = d) c2
      (svc_step (svc_pure (chunk_found x) c2) (\<lambda>data c3. (Inr (placement_stream ?ch data), c3)))"
      by (simp add: svc_pure_def svc_step_def chunk_found_def placement_stream_bytes task_return)
  qed
  have valid: "svc_step (svc_pure (map_status (validate_placement_chunk_handle (E j) key (cl_stripe_index loc)
      (object_generation m) 1 (cl_device_id loc) (cl_storage_handle loc))) c1) k = k () c1"
    for c1 and k :: "unit \<Rightarrow> ('x, 'm, 'c, 'd) Cluster \<Rightarrow> DataChunk list sres \<times> ('x, 'm, 'c, 'd) Cluster"
    unfolding handle by (simp add: svc_pure_def svc_step_def)
  have start: "svc_step (svc_pure (key_from_descriptor ?desc) c1) k = k key c1"
    for c1 and k :: "ObjectKey \<Rightarrow> ('x, 'm, 'c, 'd) Cluster \<Rightarrow> DataChunk list sres \<times> ('x, 'm, 'c, 'd) Cluster"
    by (simp add: svc_pure_def svc_step_def)
  show ?thesis
    unfolding h_read_placement_chunk_def Let_def ReadPlacementChunkRequest.simps option.case start chunk od valid
    by (rule task_step [OF front read])
qed


lemma read_chunk_spec:
  assumes "i < N" "placed CE N (F c) key (object_generation m) loc d" "live_at key now m c" "distributed_layout m locs"
  shows "task (\<lambda>_. False) (\<lambda>x c'. x = (cl_stripe_index loc, d)) c (read_chunk_from_placement CE i now (descriptor_from_meta key m)
    ((placement_from_meta (ce_ctx CE i) key m)\<lparr> pd_chunks := [] \<rparr>) (chunk_location_to_pb key loc) c)"
proof -
  let ?ch = "chunk_location_to_pb key loc" and ?desc = "descriptor_from_meta key m"
  have st: "striping m \<noteq> None" using assms(4) by (auto simp: distributed_layout_def)
  have chunk: "pc_stripe_index ?ch = cl_stripe_index loc" "pc_storage_handle ?ch = cl_storage_handle loc" "pc_length ?ch = cl_length loc"
    by (simp_all add: chunk_location_to_pb_def)
  obtain j where j: "owner CE N (location_node loc) j" "j < N" using assms(2) by (auto simp: placed_def Let_def owner_def)
  show ?thesis
  proof (cases "i = j")
    case True
    then have "is_local_node (ce_ctx CE i) (chunk_node ?ch)" using j by (simp add: owner_def)
    moreover have "task (\<lambda>_. False) (\<lambda>x c'. x = (cl_stripe_index loc, d)) c
      (svc_step (run_storage i (read_placement_chunk (E i) (cl_storage_handle loc) (cl_length loc) (chunk_checksum_arg ?desc ?ch)) c)
        (\<lambda>x c2. svc_step (svc_pure (chunk_found x) c2) (\<lambda>data c3. (Inr (cl_stripe_index loc, data), c3))))"
      using j(1) True
      by (intro task_step [OF read_stripe_at [OF assms(1) _ assms(2) st]])
        (simp_all add: svc_pure_def svc_step_def chunk_found_def task_return)
    ultimately show ?thesis unfolding read_chunk_from_placement_def Let_def chunk by simp
  next
    case False
    then have loc: "\<not> is_local_node (ce_ctx CE i) (chunk_node ?ch)" using j assms(1) by (simp add: owner_def)
    have res: "ce_resolve CE (grpc_uri (dn_grpc_endpoint (chunk_node ?ch))) = Some j" using j by (simp add: owner_def)
    have "task (\<lambda>_. False) (\<lambda>parts c'. flatten_segments (take_parts parts) = d) c
      (remote_call CE (chunk_node ?ch) ''read chunk from '' (h_read_placement_chunk CE now \<lparr> rp_descriptor = Some ?desc, rp_chunk = Some ?ch,
         rp_placement = Some ((placement_from_meta (ce_ctx CE i) key m)\<lparr> pd_chunks := [] \<rparr>) \<rparr>) c)"
    proof (rule task_remote [OF res])
      fix c0 :: "('x, 'm, 'c, 'd) Cluster"
      assume c0: "F c0 = F c" "view (cu_meta c0) = view (cu_meta c)" "minv (cu_meta c0) = minv (cu_meta c)"
      show "task (\<lambda>_. False) (\<lambda>parts c'. flatten_segments (take_parts parts) = d) c0
        (h_read_placement_chunk CE now \<lparr> rp_descriptor = Some ?desc, rp_chunk = Some ?ch,
         rp_placement = Some ((placement_from_meta (ce_ctx CE i) key m)\<lparr> pd_chunks := [] \<rparr>) \<rparr> j c0)"
        by (rule read_remote [OF assms(1) j(2,1) _ _ assms(4)]) (use assms(2,3) c0 in \<open>simp_all add: live_at_def\<close>)
    qed
    then show ?thesis
      using loc unfolding read_chunk_from_placement_def Let_def chunk
      by (simp only: if_False) (rule task_step, assumption, simp add: task_return)
  qed
qed

lemma read_chunks_spec:
  assumes "i < N" "live_at key now m c" "distributed_layout m locs" "list_all2 (placed CE N (F c) key (object_generation m)) locs cs"
  shows "task (\<lambda>_. False) (\<lambda>x c'. x = cs) c
    (read_chunks_by_placement CE i now (descriptor_from_meta key m) (placement_from_meta (ce_ctx CE i) key m) c)"
proof -
  let ?desc = "descriptor_from_meta key m" and ?pl = "placement_from_meta (ce_ctx CE i) key m"
  let ?fs = "map (read_chunk_from_placement CE i now ?desc (?pl\<lparr> pd_chunks := [] \<rparr>)) (map (chunk_location_to_pb key) locs)"
  define I where "I c0 \<longleftrightarrow> live_at key now m c0 \<and> list_all2 (placed CE N (F c0) key (object_generation m)) locs cs" for c0
  have len: "length locs = length cs" using assms(4) by (rule list_all2_lengthD)
  have keep: "I c'" if "I c0" "keeps (\<lambda>_. False) c0 c'" for c0 c'
  proof -
    have "placed CE N (F c') key (object_generation m) loc d" if "placed CE N (F c0) key (object_generation m) loc d" for loc d
      by (rule placed_cong [OF that config_law]) (use \<open>keeps _ c0 c'\<close> stripe_files_in key_files_managed keeps_file in blast)
    then show ?thesis using that live_keeps list_all2_mono unfolding I_def by blast
  qed
  have "task (\<lambda>q. \<exists>k < length ?fs. False)
    (\<lambda>xs c'. length xs = length ?fs \<and> I c' \<and> (\<forall>k < length ?fs. xs ! k = (cl_stripe_index (locs ! k), cs ! k))) c (join_all ?fs c)"
  proof (rule join_all_spec)
    fix k c0 assume k: "k < length ?fs" and I: "I c0"
    then have "task (\<lambda>_. False) (\<lambda>x c'. x = (cl_stripe_index (locs ! k), cs ! k)) c0 ((?fs ! k) c0)"
      using read_chunk_spec [OF assms(1) _ _ assms(3)] len by (simp add: I_def list_all2_conv_all_nth)
    then show "task (\<lambda>_. False) (\<lambda>x c'. x = (cl_stripe_index (locs ! k), cs ! k)) c0 ((?fs ! k) c0) \<and> I (snd ((?fs ! k) c0))"
      using keep I unfolding task_def by blast
  qed (use assms(2,4) in \<open>simp_all add: I_def\<close>)
  then have t: "task (\<lambda>_. False) (\<lambda>xs c'. xs = zip [0 ..< length cs] cs) c (join_all ?fs c)"
  proof (rule task_mono [OF task_weaken])
    fix xs c' assume *: "length xs = length ?fs \<and> I c' \<and> (\<forall>k < length ?fs. xs ! k = (cl_stripe_index (locs ! k), cs ! k))"
    have "cl_stripe_index (locs ! k) = k" if "k < length locs" for k
      using assms(3) that by (metis add_0 distributed_layout_def nth_map nth_upt)
    then show "xs = zip [0 ..< length cs] cs" using * len by (auto intro!: nth_equalityI)
  qed simp
  have sorted: "map snd (sort_key fst (zip [0 ..< length cs] cs)) = cs"
    by (subst sort_key_id_if_sorted) simp_all
  have "pd_chunks ?pl = map (chunk_location_to_pb key) locs" by (simp add: placement_pd_chunks distributed_chunks [OF assms(3)])
  then show ?thesis
    unfolding read_chunks_by_placement_def Let_def by (simp only:) (rule task_step [OF t], simp add: sorted task_return)
qed

end

end
