(* ===== verification/Cluster_Run.thy ===== *)
theory Cluster_Run
  imports Cluster_Read
begin

text \<open>
  The garbage collector, and runs of a cluster: any sequence of distributed writes and collections
  from any nodes, under any failures of the network, the devices and the metadata service.
\<close>

section \<open>Garbage collection\<close>

text \<open>A layout is owned when its chunks have owners and its files belong to its key and generation.\<close>

definition layout_owned :: "('x, 'm, 'c, 'd) ClusterEnv \<Rightarrow> nat \<Rightarrow> hashers \<Rightarrow> nat \<Rightarrow> ObjectKey \<Rightarrow> BlockMeta \<Rightarrow> bool" where
  "layout_owned CE N H i key m \<longleftrightarrow> (\<forall>ch \<in> set (placement_chunks (ce_ctx CE i) key m).
     (\<exists>j. owner CE N (chunk_node ch) j) \<and> pc_storage_handle ch \<in> key_files H key (object_generation m))"

text \<open>
  A task may run at node \<open>i\<close> when its layout is owned and, should its generation be current again,
  the current version is the very version it names.
\<close>

definition collectable ::
  "('x, 'm, 'c, 'd) ClusterEnv \<Rightarrow> nat \<Rightarrow> hashers \<Rightarrow> ObjectKey set \<Rightarrow> nat \<Rightarrow> (string \<Rightarrow> BlockMeta option) \<Rightarrow> GcTask \<Rightarrow> bool" where
  "collectable CE N H K i B t \<longleftrightarrow> (\<exists>key \<in> K. gt_key t = to_string_key key \<and> layout_owned CE N H i key (gt_retired t)
     \<and> (\<forall>m. B (gt_key t) = Some m \<longrightarrow> object_generation m = object_generation (gt_retired t) \<longrightarrow> meta_identity_matches m (gt_retired t)))"

context cluster_system
begin

lemma get_distributed:
  assumes "i < N" "live_at key now m c" "dist_intact CE N (F c) key m data" "pb_key_to_internal pk = key"
    "placement_has_remote_chunks (ce_ctx CE i) (placement_from_meta (ce_ctx CE i) key m)"
  shows "task (\<lambda>_. False) (\<lambda>x c'. x = get_found data m) c (h_get CE now (Some pk) i c)"
proof -
  obtain locs cs where l: "distributed_layout m locs" "list_all2 (placed CE N (F c) key (object_generation m)) locs cs" "data = concat cs"
    using assms(3) by (auto simp: dist_intact_def)
  show ?thesis
    unfolding h_get_def Let_def option.case assms(4)
  proof (rule task_step [OF metadata_get_live_cluster [OF assms(1,2)]])
    fix x c1 assume x: "x = Some m" and k: "keeps (\<lambda>_. False) c c1"
    have "placed CE N (F c1) key (object_generation m) loc d" if "placed CE N (F c) key (object_generation m) loc d" for loc d
      by (rule placed_cong [OF that config_law]) (use k stripe_files_in key_files_managed keeps_file in blast)
    then have pl: "list_all2 (placed CE N (F c1) key (object_generation m)) locs cs" using l(2) list_all2_mono by blast
    note read = read_chunks_spec [OF assms(1) live_keeps [OF assms(2) k] l(1) pl]
    show "task (\<lambda>_. False) (\<lambda>x c'. x = get_found data m) c1 (case x of
        None \<Rightarrow> svc_step (run_memory i (memory_get (cx_memory (ce_ctx CE i)) now key) c1) (\<lambda>r c2.
          (Inr (case r of Some (data, m) \<Rightarrow> get_found data m | None \<Rightarrow> get_absent), c2))
      | Some m \<Rightarrow> if placement_has_remote_chunks (ce_ctx CE i) (placement_from_meta (ce_ctx CE i) key m)
          then svc_step (read_chunks_by_placement CE i now (descriptor_from_meta key m) (placement_from_meta (ce_ctx CE i) key m) c1)
            (\<lambda>cs c2. (Inr (get_found (flatten_segments cs) m), c2))
          else svc_step (run_memory i (memory_get (cx_memory (ce_ctx CE i)) now key) c1) (\<lambda>r c2.
            (Inr (case r of Some (data, m) \<Rightarrow> get_found data m | None \<Rightarrow> get_absent), c2)))"
      unfolding x option.case using assms(5) l(3)
      by (simp only: if_True) (rule task_step [OF read], simp add: flatten_segments_def task_return)
  qed
qed

lemma run_meta_frame [simp]:
  "F (snd (run_meta i f c)) = F c" "cu_meta (snd (run_meta i f c)) = snd (f (cu_meta c))"
  by (simp_all add: run_meta_eq split: prod.split)

abbreviation owned_layout :: "nat \<Rightarrow> ObjectKey \<Rightarrow> BlockMeta \<Rightarrow> bool" where
  "owned_layout \<equiv> layout_owned CE N H"

abbreviation task_ok :: "ObjectKey set \<Rightarrow> nat \<Rightarrow> ('x, 'm, 'c, 'd) Cluster \<Rightarrow> GcTask \<Rightarrow> bool" where
  "task_ok K i c t \<equiv> collectable CE N H K i (B c) t"

text \<open>What a collection may change: tasks and leases, and files of versions that are not published.\<close>

definition known :: "(string \<times> BlockMeta) set \<Rightarrow> ('x, 'm, 'c, 'd) Cluster \<Rightarrow> bool" where
  "known T c \<longleftrightarrow> (\<forall>id t. mv_tasks (view (cu_meta c)) id = Some t \<longrightarrow> (gt_key t, gt_retired t) \<in> T)"

definition gc_safe :: "ObjectKey set \<Rightarrow> (string \<times> BlockMeta) set \<Rightarrow> ('x, 'm, 'c, 'd) Cluster \<Rightarrow> ('x, 'm, 'c, 'd) Cluster \<Rightarrow> bool" where
  "gc_safe K T c c' \<longleftrightarrow> (known T c \<longrightarrow> known T c') \<and> minv (cu_meta c') \<and> B c' = B c \<and> mv_gen (view (cu_meta c')) = mv_gen (view (cu_meta c))
     \<and> (\<forall>key m j q. key \<in> K \<longrightarrow> B c (to_string_key key) = Some m \<longrightarrow> j < N \<longrightarrow> q \<in> key_files H key (object_generation m)
          \<longrightarrow> F c' j q = F c j q)"

lemma gc_safe_trans: "gc_safe K T c1 c2 \<Longrightarrow> gc_safe K T c2 c3 \<Longrightarrow> gc_safe K T c1 c3"
  by (simp add: gc_safe_def)

lemma gc_safe_meta:
  assumes "minv m'" "mv_blocks (view m') = B c" "mv_gen (view m') = mv_gen (view (cu_meta c))" "snd (f (cu_meta c)) = m'"
    "\<And>id t. mv_tasks (view m') id = Some t \<Longrightarrow> (gt_key t, gt_retired t) \<in> T \<or> mv_tasks (view (cu_meta c)) id = Some t"
  shows "gc_safe K T c (snd (run_meta i f c))"
  using assms by (auto simp: gc_safe_def known_def)

lemma reschedule_safe:
  assumes "i < N" "minv (cu_meta c)" "(gt_key t, gt_retired t) \<in> T"
  shows "gc_safe K T c (reschedule_gc CE i now t c)"
proof -
  define t' where "t' = t\<lparr> gt_attempts := min (gt_attempts t + 1) (2 ^ 32 - 1),
    gt_not_before := saturating_add_i64 now (min (saturating_mul_i64 5 (2 ^ min (min (gt_attempts t + 1) (2 ^ 32 - 1)) 6)) 300) \<rparr>"
  obtain x m1 where x: "mo_reschedule_gc_task (se_mo (E i)) t' (cu_meta c) = (x, m1)" by fastforce
  have "step_ok view minv (cu_meta c) (\<lambda>_ v. v = (view (cu_meta c))\<lparr> mv_tasks := (mv_tasks (view (cu_meta c)))(gt_id t' \<mapsto> t'),
      mv_leases := (mv_leases (view (cu_meta c)))(gt_id t' := None) \<rparr>) (x, m1)"
    using metadata_store.reschedule_law [OF meta_law(2) [OF assms(1)] assms(2), of t'] x by simp
  then have "minv m1 \<and> mv_blocks (view m1) = B c \<and> mv_gen (view m1) = mv_gen (view (cu_meta c))
    \<and> (\<forall>id u. mv_tasks (view m1) id = Some u \<longrightarrow> (gt_key u, gt_retired u) \<in> T \<or> mv_tasks (view (cu_meta c)) id = Some u)"
    using assms(3) by (cases x) (auto simp: step_ok_def t'_def)
  moreover have "reschedule_gc CE i now t c = snd (run_meta i (mo_reschedule_gc_task (se_mo (E i)) t') c)"
    by (simp add: reschedule_gc_def t'_def Let_def)
  ultimately show ?thesis using x by (simp only:) (rule gc_safe_meta [of m1], auto)
qed

lemma complete_safe:
  assumes "i < N" "minv (cu_meta c)"
  shows "gc_safe K T c (snd (run_meta i (mo_complete_gc_task (se_mo (E i)) id0) c))"
proof -
  obtain x m1 where x: "mo_complete_gc_task (se_mo (E i)) id0 (cu_meta c) = (x, m1)" by fastforce
  have "step_ok view minv (cu_meta c) (\<lambda>_ v. v = (view (cu_meta c))\<lparr> mv_tasks := (mv_tasks (view (cu_meta c)))(id0 := None),
      mv_leases := (mv_leases (view (cu_meta c)))(id0 := None) \<rparr>) (x, m1)"
    using metadata_store.complete_law [OF meta_law(2) [OF assms(1)] assms(2), of id0] x by simp
  then have "minv m1 \<and> mv_blocks (view m1) = B c \<and> mv_gen (view m1) = mv_gen (view (cu_meta c))
    \<and> (\<forall>id u. mv_tasks (view m1) id = Some u \<longrightarrow> mv_tasks (view (cu_meta c)) id = Some u)"
    by (cases x) (auto simp: step_ok_def)
  then show ?thesis using x by (auto intro: gc_safe_meta)
qed

lemma delete_retired_safe:
  assumes "i < N" "minv (cu_meta c)" "inj_on (object_digest H) K" "key \<in> K" "owned_layout i key old"
    "\<And>m. B c (to_string_key key) = Some m \<Longrightarrow> object_generation m \<noteq> object_generation old"
  shows "gc_safe K T c (snd (delete_distributed_chunks CE i (placement_from_meta (ce_ctx CE i) key old) c))"
proof -
  have "keeps (\<lambda>q. q \<in> key_files H key (object_generation old)) c
      (snd (delete_distributed_chunks CE i (placement_from_meta (ce_ctx CE i) key old) c))" (is "keeps ?P c ?c'")
    by (rule delete_chunks_keeps [OF assms(1)])
      (use assms(5) key_files_managed in \<open>auto simp: placement_pd_chunks layout_owned_def\<close>)
  moreover have "F ?c' j q = F c j q"
    if "key' \<in> K" "B c (to_string_key key') = Some m" "j < N" "q \<in> key_files H key' (object_generation m)" for key' m j q
  proof (rule keeps_file [OF calculation that(3)])
    show "managed q" using that(4) by (rule key_files_managed)
    show "q \<notin> key_files H key (object_generation old)"
    proof
      assume "q \<in> key_files H key (object_generation old)"
      from key_files_disjoint [OF hex_law that(4) this]
      have "key' = key" "object_generation m = object_generation old" using assms(3,4) that(1) by (auto dest: inj_onD)
      then show False using assms(6) that(2) by simp
    qed
  qed
  ultimately show ?thesis using assms(2) by (auto simp: gc_safe_def keeps_def known_def)
qed

lemma gc_one_safe:
  assumes "i < N" "minv (cu_meta c)" "inj_on (object_digest H) K" "task_ok K i c t"
    "\<And>key. key \<in> K \<Longrightarrow> from_string_key (to_string_key key) = Inr key" "(gt_key t, gt_retired t) \<in> T"
  shows "gc_safe K T c (gc_one CE i now t c)"
proof -
  obtain key where key: "key \<in> K" "gt_key t = to_string_key key" "owned_layout i key (gt_retired t)"
    and cur: "\<And>m. B c (gt_key t) = Some m \<Longrightarrow> object_generation m = object_generation (gt_retired t) \<Longrightarrow> meta_identity_matches m (gt_retired t)"
    using assms(4) by (auto simp: collectable_def)
  obtain x c1 where x: "run_meta i (mo_get_block (se_mo (E i)) (to_string_key key)) c = (x, c1)" by fastforce
  have t1: "task (\<lambda>_. False) (\<lambda>x c'. x = B c (to_string_key key) \<and> F c' = F c \<and> minv (cu_meta c')) c (x, c1)"
    using get_block_cluster [OF assms(1,2), of key] x by simp
  have c1: "minv (cu_meta c1)" "B c1 = B c" "gc_safe K T c c1"
    using t1 assms(2) keeps_file [of "\<lambda>_. False" c c1] key_files_managed by (auto simp: task_def keeps_def gc_safe_def known_def)
  show ?thesis
  proof (cases x)
    case (Inl e)
    then have "gc_one CE i now t c = reschedule_gc CE i now t c1"
      using key x assms(5) by (simp add: gc_one_def Let_def)
    then show ?thesis using gc_safe_trans [OF c1(3) reschedule_safe [OF assms(1) c1(1) assms(6)]] by simp
  next
    case (Inr b)
    then have b: "b = B c (to_string_key key)" using t1 by (simp add: task_def)
    let ?same = "case b of None \<Rightarrow> False | Some m \<Rightarrow> meta_identity_matches m (gt_retired t)"
    let ?del = "delete_distributed_chunks CE i (placement_from_meta (ce_ctx CE i) key (gt_retired t)) c1"
    show ?thesis
    proof (cases ?same)
      case True
      then have "gc_one CE i now t c = reschedule_gc CE i now t c1"
        using key x assms(5) Inr by (simp add: gc_one_def Let_def)
      then show ?thesis using gc_safe_trans [OF c1(3) reschedule_safe [OF assms(1) c1(1) assms(6)]] by simp
    next
      case False
      have d: "gc_safe K T c1 (snd ?del)"
        by (rule delete_retired_safe [OF assms(1) c1(1) assms(3) key(1,3)])
          (use False b cur key(2) c1(2) in auto)
      then have c2: "minv (cu_meta (snd ?del))" by (simp add: gc_safe_def)
      note fin = complete_safe [OF assms(1) c2, of K T "gt_id t"]
      then have c3: "minv (cu_meta (snd (run_meta i (mo_complete_gc_task (se_mo (E i)) (gt_id t)) (snd ?del))))" by (simp add: gc_safe_def)
      have "gc_safe K T (snd ?del) (gc_one CE i now t c)"
        using key x assms(5) Inr False fin reschedule_safe [OF assms(1) c2 assms(6)] gc_safe_trans [OF fin reschedule_safe [OF assms(1) c3 assms(6)]]
        by (auto simp: gc_one_def Let_def split: prod.splits sum.splits option.splits)
      then show ?thesis using c1(3) d gc_safe_trans by blast
    qed
  qed
qed


lemma run_gc_safe:
  assumes "i < N" "minv (cu_meta c)" "inj_on (object_digest H) K" "\<And>key. key \<in> K \<Longrightarrow> from_string_key (to_string_key key) = Inr key"
    "\<And>id t. mv_tasks (view (cu_meta c)) id = Some t \<Longrightarrow> task_ok K i c t" "known T c"
  shows "gc_safe K T c (run_gc_once CE i now c)"
proof -
  let ?gc = "cfg_gc (cx_config (ce_ctx CE i))"
  let ?take = "mo_take_due_gc_tasks (se_mo (E i)) now (gc_max_tasks_per_run ?gc) (gc_task_lease_seconds ?gc)"
  obtain x m1 where x: "?take (cu_meta c) = (x, m1)" by fastforce
  have law: "step_ok view minv (cu_meta c) (\<lambda>ts v. spec_claims now (gc_max_tasks_per_run ?gc) (gc_task_lease_seconds ?gc) ts (view (cu_meta c)) v) (x, m1)"
    unfolding x [symmetric] by (rule metadata_store.take_law [OF meta_law(2) [OF assms(1)] assms(2)])
  obtain r c1 where r: "run_meta i ?take c = (r, c1)" by fastforce
  have c1: "c1 = snd (run_meta i ?take c)" "r = map_status x" using r x by (simp_all add: run_meta_eq)
  have s1: "gc_safe K T c c1"
    unfolding c1(1) by (rule gc_safe_meta [of m1]) (use law x in \<open>cases x; auto simp: step_ok_def spec_claims_def\<close>)+
  show ?thesis
  proof (cases x)
    case (Inl e)
    then show ?thesis using s1 r c1(2) by (simp add: run_gc_once_def Let_def map_status_def)
  next
    case (Inr ts)
    have B: "B c1 = B c" using s1 by (simp add: gc_safe_def)
    have t0: "mv_tasks (view (cu_meta c)) (gt_id t) = Some t" if "t \<in> set ts" for t
      using law Inr that by (simp add: step_ok_def spec_claims_def)
    have ok: "task_ok K i c1 t" if "t \<in> set ts" for t
      using assms(5) [OF t0 [OF that]] unfolding B .
    have fold: "gc_safe K T c1 c0 \<Longrightarrow> (\<And>t. t \<in> set us \<Longrightarrow> task_ok K i c1 t \<and> (gt_key t, gt_retired t) \<in> T) \<Longrightarrow> gc_safe K T c1 (fold (gc_one CE i now) us c0)" for us c0
    proof (induction us arbitrary: c0)
      case (Cons t us)
      have a: "gc_safe K T c0 (gc_one CE i now t c0)"
        by (rule gc_one_safe [OF assms(1) _ assms(3) _ assms(4)])
          (use Cons.prems in \<open>auto simp: gc_safe_def\<close>)
      show ?case using Cons.IH [OF gc_safe_trans [OF Cons.prems(1) a]] Cons.prems(2) by simp
    qed simp
    have "gc_safe K T c1 c1" using s1 by (simp add: gc_safe_def)
    moreover have "task_ok K i c1 t \<and> (gt_key t, gt_retired t) \<in> T" if "t \<in> set ts" for t
      using ok [OF that] t0 [OF that] assms(6) unfolding known_def by blast
    ultimately have "gc_safe K T c1 (fold (gc_one CE i now) ts c1)" by (rule fold)
    then have "gc_safe K T c (fold (gc_one CE i now) ts c1)" by (rule gc_safe_trans [OF s1])
    then show ?thesis using r c1(2) Inr by (simp add: run_gc_once_def Let_def)
  qed
qed


section \<open>The invariant of a run\<close>

lemma intact_owned:
  assumes "dist_intact CE N (F c) key m d"
  shows "owned_layout i key m"
proof -
  obtain locs cs where l: "distributed_layout m locs" "list_all2 (placed CE N (F c) key (object_generation m)) locs cs"
    using assms by (auto simp: dist_intact_def)
  then have "stripes_done key (object_generation m) cs locs c" by (simp add: stripes_done_def distributed_layout_def)
  from stripes_owned [OF this] show ?thesis unfolding layout_owned_def distributed_chunks [OF l(1)] by blast
qed

text \<open>
  \<open>A\<close> is the abstract store.  Published versions are exactly the entries of \<open>A\<close>, with the bytes \<open>A\<close>
  says; every pending task names an older, owned version.
\<close>

definition task_wf :: "ObjectKey set \<Rightarrow> ('x, 'm, 'c, 'd) Cluster \<Rightarrow> string \<times> BlockMeta \<Rightarrow> bool" where
  "task_wf K c p \<longleftrightarrow> (\<exists>key \<in> K. fst p = to_string_key key \<and> (\<forall>i < N. owned_layout i key (snd p))
     \<and> object_generation (snd p) \<le> gen_base (fst p) (view (cu_meta c))
     \<and> (\<forall>m. B c (fst p) = Some m \<longrightarrow> object_generation (snd p) < object_generation m))"

definition run_inv :: "ObjectKey set \<Rightarrow> (ObjectKey \<Rightarrow> bytes option) \<Rightarrow> ('x, 'm, 'c, 'd) Cluster \<Rightarrow> bool" where
  "run_inv K A c \<longleftrightarrow> minv (cu_meta c) \<and> (\<forall>k. B c k \<noteq> None \<longrightarrow> k \<in> to_string_key ` K)
     \<and> (\<forall>key \<in> K. case A key of None \<Rightarrow> B c (to_string_key key) = None | Some d \<Rightarrow> dist_holds CE N (B c) (F c) key d)
     \<and> known {p. task_wf K c p} c"

lemma run_inv_collectable:
  "run_inv K A c \<Longrightarrow> i < N \<Longrightarrow> mv_tasks (view (cu_meta c)) id0 = Some t \<Longrightarrow> task_ok K i c t"
  unfolding run_inv_def known_def task_wf_def collectable_def by fastforce

lemma run_inv_gc:
  assumes "i < N" "run_inv K A c" "inj_on (object_digest H) K" "\<And>key. key \<in> K \<Longrightarrow> from_string_key (to_string_key key) = Inr key"
  shows "run_inv K A (run_gc_once CE i now c)"
proof -
  let ?c' = "run_gc_once CE i now c"
  have inv: "minv (cu_meta c)" "known {p. task_wf K c p} c" using assms(2) by (simp_all add: run_inv_def)
  have safe: "gc_safe K {p. task_wf K c p} c ?c'"
    by (rule run_gc_safe [OF assms(1) inv(1) assms(3,4) run_inv_collectable [OF assms(2,1)] inv(2)])
  then have B: "B ?c' = B c" and g: "mv_gen (view (cu_meta ?c')) = mv_gen (view (cu_meta c))" by (simp_all add: gc_safe_def)
  have "dist_holds CE N (B ?c') (F ?c') key d" if key: "key \<in> K" and h: "dist_holds CE N (B c) (F c) key d" for key d
  proof -
    obtain m where m: "B c (to_string_key key) = Some m" "dist_intact CE N (F c) key m d" using h by (auto simp: dist_holds_def)
    have "dist_intact CE N (F ?c') key m d"
      by (rule dist_intact_cong [OF m(2) config_law]) (use safe key m(1) in \<open>auto simp: gc_safe_def\<close>)
    then show ?thesis using m(1) B by (auto simp: dist_holds_def)
  qed
  moreover have "task_wf K ?c' = task_wf K c" using B g by (simp add: task_wf_def gen_base_def fun_eq_iff)
  ultimately show ?thesis
    using assms(2) safe B unfolding run_inv_def gc_safe_def by (auto split: option.splits)
qed

lemma run_inv_put:
  assumes "run_inv K A c" "inj_on (object_digest H) K" "key \<in> K" "dist_outcome key data c r c'"
  shows "run_inv K (if r = Inr True then A(key \<mapsto> data) else A) c'"
proof -
  let ?k = "to_string_key key" and ?g = "Suc (gen_base (to_string_key key) (view (cu_meta c)))"
  have out: "minv (cu_meta c')" "grows ?k c c' (r = Inr True)"
    and fr: "\<And>j q. j < N \<Longrightarrow> managed q \<Longrightarrow> q \<notin> key_files H key ?g \<Longrightarrow> F c' j q = F c j q"
    and new: "r = Inr True \<Longrightarrow> \<exists>m. B c' = (B c)(?k \<mapsto> m) \<and> object_generation m = ?g \<and> dist_intact CE N (F c') key m data"
    and old: "r \<noteq> Inr True \<Longrightarrow> B c' = B c"
    using assms(4) by (simp_all add: dist_outcome_def Let_def)
  have below: "object_generation m < ?g" if "B c ?k = Some m" for m using that by (simp add: gen_base_def less_Suc_eq_le)
  have stay: "dist_intact CE N (F c') key' m d" if "key' \<in> K" "B c (to_string_key key') = Some m" "dist_intact CE N (F c) key' m d" for key' m d
  proof (rule dist_intact_cong [OF that(3) config_law])
    fix j q assume q: "j < N" "q \<in> key_files H key' (object_generation m)"
    have "q \<notin> key_files H key ?g"
    proof
      assume "q \<in> key_files H key ?g"
      from key_files_disjoint [OF hex_law q(2) this] have "key' = key" "object_generation m = ?g"
        using assms(2,3) that(1) by (auto dest: inj_onD)
      then show False using below that(2) by auto
    qed
    then show "F c' j q = F c j q" using fr q key_files_managed by blast
  qed
  have holds: "case (if r = Inr True then A(key \<mapsto> data) else A) key' of
      None \<Rightarrow> B c' (to_string_key key') = None | Some d \<Rightarrow> dist_holds CE N (B c') (F c') key' d" if "key' \<in> K" for key'
  proof (cases "r = Inr True \<and> key' = key")
    case True
    then show ?thesis using new by (auto simp: dist_holds_def)
  next
    case False
    then have A: "(if r = Inr True then A(key \<mapsto> data) else A) key' = A key'" by auto
    have B: "B c' (to_string_key key') = B c (to_string_key key')"
    proof (cases "r = Inr True")
      case True
      then obtain m where "B c' = (B c)(?k \<mapsto> m)" using new by blast
      then show ?thesis using False True by (simp add: to_string_key_eq)
    qed (simp add: old)
    have "dist_holds CE N (B c') (F c') key' d" if d: "dist_holds CE N (B c) (F c) key' d" for d
      using d B stay [OF \<open>key' \<in> K\<close>] by (auto simp: dist_holds_def)
    then show ?thesis unfolding A using B assms(1) \<open>key' \<in> K\<close> by (auto simp: run_inv_def split: option.splits)
  qed
  have wf: "task_wf K c' (gt_key t, gt_retired t)" if t0: "mv_tasks (view (cu_meta c')) id0 = Some t" for id0 t
  proof -
    have mono: "gen_base k (view (cu_meta c)) \<le> gen_base k (view (cu_meta c'))" for k using out(2) by (simp add: grows_def)
    consider "mv_tasks (view (cu_meta c)) id0 = Some t" | "r = Inr True" "gt_key t = ?k" "B c ?k = Some (gt_retired t)"
      using out(2) t0 unfolding grows_def by blast
    then show ?thesis
    proof cases
      case 1
      then have "task_wf K c (gt_key t, gt_retired t)" using assms(1) unfolding run_inv_def known_def by blast
      then obtain key' where t: "key' \<in> K" "gt_key t = to_string_key key'" "\<forall>i < N. owned_layout i key' (gt_retired t)"
        "object_generation (gt_retired t) \<le> gen_base (gt_key t) (view (cu_meta c))"
        "\<forall>m. B c (gt_key t) = Some m \<longrightarrow> object_generation (gt_retired t) < object_generation m"
        unfolding task_wf_def fst_conv snd_conv by blast
      have "object_generation (gt_retired t) < object_generation m" if "B c' (gt_key t) = Some m" for m
        using that t(4,5) new old by (cases "r = Inr True") (auto split: if_splits)
      then show ?thesis using t mono le_trans unfolding task_wf_def fst_conv snd_conv by blast
    next
      case 2
      obtain m where m: "B c' = (B c)(?k \<mapsto> m)" "object_generation m = ?g" using new 2(1) by blast
      obtain d where "A key = Some d" "dist_intact CE N (F c) key (gt_retired t) d"
        using assms(1,3) 2(3) by (auto simp: run_inv_def dist_holds_def split: option.splits)
      then have "\<forall>i < N. owned_layout i key (gt_retired t)" using intact_owned by blast
      moreover have "object_generation (gt_retired t) \<le> gen_base ?k (view (cu_meta c))" using below [OF 2(3)] by simp
      ultimately show ?thesis
        using 2 m assms(3) mono [of ?k] below [OF 2(3)] unfolding task_wf_def fst_conv snd_conv by (intro bexI [of _ key]) auto
    qed
  qed
  have "k \<in> to_string_key ` K" if "B c' k \<noteq> None" for k
    using that assms(1,3) new old by (cases "r = Inr True") (auto simp: run_inv_def split: if_splits)
  then show ?thesis using out(1) holds wf by (simp add: run_inv_def known_def)
qed

lemma dist_put_refines:
  assumes "dist_outcome key data c r c'" "key' = key \<or> object_digest H key' \<noteq> object_digest H key"
  shows "dist_holds CE N (B c') (F c') key' d \<longleftrightarrow>
      (if r = Inr True \<and> key' = key then d = data else dist_holds CE N (B c) (F c) key' d)"
proof -
  let ?k = "to_string_key key" and ?g = "Suc (gen_base (to_string_key key) (view (cu_meta c)))"
  have fr: "F c' j q = F c j q" if "j < N" "managed q" "q \<notin> key_files H key ?g" for j q
    using assms(1) that by (simp add: dist_outcome_def Let_def)
  have stay: "dist_intact CE N (F c') key' m d \<longleftrightarrow> dist_intact CE N (F c) key' m d" if m: "B c (to_string_key key') = Some m" for m
  proof -
    have "q \<notin> key_files H key ?g" if q: "q \<in> key_files H key' (object_generation m)" for q
    proof
      assume "q \<in> key_files H key ?g"
      from key_files_disjoint [OF hex_law q this] have e: "object_digest H key' = object_digest H key" "object_generation m = ?g" by auto
      then have "key' = key" using assms(2) by blast
      then show False using m e(2) by (simp add: gen_base_def)
    qed
    then have "F c' j q = F c j q" if "j < N" "q \<in> key_files H key' (object_generation m)" for j q
      using that fr key_files_managed by blast
    then show ?thesis using dist_intact_cong [OF _ config_law, of _ key' m d] by (metis (no_types, lifting))
  qed
  show ?thesis
  proof (cases "r = Inr True \<and> key' = key")
    case True
    then obtain m where m: "B c' ?k = Some m" "dist_intact CE N (F c') key m data" using assms(1) by (auto simp: dist_outcome_def Let_def)
    have "dist_intact CE N (F c') key m d \<longleftrightarrow> d = data" using m(2) dist_intact_deterministic by blast
    then show ?thesis using True m(1) by (simp add: dist_holds_def)
  next
    case False
    have "B c' (to_string_key key') = B c (to_string_key key')"
      using assms(1) False by (cases "r = Inr True") (auto simp: dist_outcome_def Let_def to_string_key_eq)
    then show ?thesis using False stay by (auto simp: dist_holds_def)
  qed
qed

lemma dist_read:
  assumes "run_inv K A c" "key \<in> K" "A key = Some data"
  obtains m where "B c (to_string_key key) = Some m" "dist_intact CE N (F c) key m data"
    "\<And>i now pk. i < N \<Longrightarrow> pb_key_to_internal pk = key \<Longrightarrow> \<not> is_expired_at m now \<Longrightarrow>
      placement_has_remote_chunks (ce_ctx CE i) (placement_from_meta (ce_ctx CE i) key m) \<Longrightarrow>
      task (\<lambda>_. False) (\<lambda>x c'. x = get_found data m) c (h_get CE now (Some pk) i c)"
proof -
  have inv: "minv (cu_meta c)" "dist_holds CE N (B c) (F c) key data" using assms by (auto simp: run_inv_def)
  then obtain m where m: "B c (to_string_key key) = Some m" "dist_intact CE N (F c) key m data" by (auto simp: dist_holds_def)
  show ?thesis
    by (rule that [OF m], rule get_distributed [OF _ _ m(2)]) (simp_all add: live_at_def inv m)
qed

end

end
