(* ===== verification/Cluster_Props.thy ===== *)
theory Cluster_Props
  imports Cluster_Run
begin

text \<open>
  The distributed store over the thread-pool executor and the in-process metadata backend: the
  properties of the cluster, each obtained from the locale \<open>cluster_system\<close> by interpretation.
\<close>

section \<open>The concrete cluster\<close>

definition cluster_ok :: "(world, 'b MemoryMetadataInner, 'c, 'd) ClusterEnv \<Rightarrow> nat \<Rightarrow> hashers \<Rightarrow> 'b serde \<Rightarrow> bool" where
  "cluster_ok CE N H sd \<longleftrightarrow> cluster_config CE N H \<and> hex_digest H \<and> (\<forall>i < N. stack_ok (cx_storage (ce_ctx CE i)) sd)"

abbreviation cluster_blocks :: "'b serde \<Rightarrow> (world, 'b MemoryMetadataInner, 'c, 'd) Cluster \<Rightarrow> string \<Rightarrow> BlockMeta option" where
  "cluster_blocks sd c \<equiv> mv_blocks (memory_view sd (cu_meta c))"

abbreviation cluster_files :: "(world, 'm, 'c, 'd) Cluster \<Rightarrow> nat \<Rightarrow> string \<Rightarrow> bytes option" where
  "cluster_files c \<equiv> \<lambda>j. w_files (st_exec (node_store j c))"

definition cluster_calm :: "nat \<Rightarrow> (world, 'b MemoryMetadataInner, 'c, 'd) Cluster \<Rightarrow> bool" where
  "cluster_calm N c \<longleftrightarrow> (\<forall>j < N. calm (st_exec (node_store j c))) \<and> cu_net c = [] \<and> mm_fail_next_puts (cu_meta c) = 0"

lemma cluster_ok_system:
  assumes "cluster_ok CE N H sd"
  shows "cluster_system CE N H w_files calm (memory_view sd) (memory_inv sd) task_id (\<lambda>m. mm_fail_next_puts m = 0)"
proof (rule cluster_system.intro)
  show "live_storage (cx_storage (ce_ctx CE i)) w_files calm (memory_view sd) (memory_inv sd) task_id (\<lambda>m. mm_fail_next_puts m = 0)"
    if "i < N" for i using stack_live assms that by (auto simp: cluster_ok_def)
  show "metadata_store (se_mo (cx_storage (ce_ctx CE i))) (memory_view sd) (memory_inv sd) task_id" if "i < N" for i
    using assms that memory_metadata_store by (auto simp: cluster_ok_def stack_ok_def)
  show "cluster_config CE N H" "hex_digest H" using assms by (simp_all add: cluster_ok_def)
qed

locale cluster_stack =
  fixes CE :: "(world, 'b MemoryMetadataInner, 'c, 'd) ClusterEnv" and N :: nat and H :: hashers and sd :: "'b serde"
  assumes cluster: "cluster_ok CE N H sd"

sublocale cluster_stack \<subseteq> cluster_system CE N H w_files calm "memory_view sd" "memory_inv sd" task_id "\<lambda>m. mm_fail_next_puts m = 0"
  by (rule cluster_ok_system [OF cluster])

context cluster_stack
begin

lemma F_eq: "F c = cluster_files c"
  by (auto simp: F_def fun_eq_iff)

lemma fault_free_eq: "memory_inv sd (cu_meta c) \<Longrightarrow> fault_free c \<longleftrightarrow> cluster_calm N c"
  by (auto simp: fault_free_def cluster_calm_def)

end

text \<open>\<open>can_place\<close> bounds the object, its number of stripes and the generation counter.\<close>

definition can_place :: "(world, 'b MemoryMetadataInner, 'c, 'd) ClusterEnv \<Rightarrow> nat \<Rightarrow> 'b serde \<Rightarrow> ObjectKey \<Rightarrow> bytes
    \<Rightarrow> (world, 'b MemoryMetadataInner, 'c, 'd) Cluster \<Rightarrow> bool" where
  "can_place CE i sd key data c \<longleftrightarrow> gen_room (to_string_key key) (memory_view sd (cu_meta c)) \<and> fits_isize data
     \<and> div_ceil (length data) (stripe_size (ce_ctx CE i)) \<le> 2 ^ 32"

text \<open>
  Keys of a run: their digests differ and their canonical form is read back (a namespace shorter
  than \<open>2^64\<close> bytes and a key in UTF-8).
\<close>

definition keys_ok :: "hashers \<Rightarrow> ObjectKey set \<Rightarrow> bool" where
  "keys_ok H K \<longleftrightarrow> inj_on (object_digest H) K \<and> (\<forall>key \<in> K. utf8_string (object_key key) \<and> length (namespace key) < 2 ^ 64)"

text \<open>
  Runs: distributed writes and collections, by any node at any time.  The failures are in the
  scripts of the nodes and of the network, which are arbitrary.  \<open>A\<close> is the abstract store.
\<close>

inductive cluster_run ::
  "(world, 'b MemoryMetadataInner, 'c, 'd) ClusterEnv \<Rightarrow> nat \<Rightarrow> 'b serde \<Rightarrow> ObjectKey set
    \<Rightarrow> (ObjectKey \<Rightarrow> bytes option) \<Rightarrow> (world, 'b MemoryMetadataInner, 'c, 'd) Cluster \<Rightarrow> bool"
  for CE N sd K where
  start: "cu_meta c = memory_empty \<Longrightarrow> cluster_run CE N sd K (\<lambda>_. None) c"
| put: "cluster_run CE N sd K A c \<Longrightarrow> i < N \<Longrightarrow> key \<in> K \<Longrightarrow> can_place CE i sd key data c \<Longrightarrow>
    put_distributed_bytes CE i now key data meta c = (r, c') \<Longrightarrow>
    cluster_run CE N sd K (if is_ok r then A(key \<mapsto> data) else A) c'"
| gc: "cluster_run CE N sd K A c \<Longrightarrow> i < N \<Longrightarrow> cluster_run CE N sd K A (run_gc_once CE i now c)"

context cluster_stack
begin

lemma run_ok:
  assumes "cluster_run CE N sd K A c" "keys_ok H K"
  shows "run_inv K A c"
  using assms(1)
proof (induction rule: cluster_run.induct)
  case (start c)
  have "mv_blocks (memory_view sd memory_empty) = (\<lambda>_. None)" "mv_tasks (memory_view sd memory_empty) = (\<lambda>_. None)"
    by (simp_all add: memory_view_def memory_empty_def decoded_def fun_eq_iff)
  then show ?case using start memory_inv_empty [of sd] by (simp add: run_inv_def known_def)
next
  case (put A c i key data now meta r c')
  obtain b where b: "put_distributed_bytes_impl CE i now key data meta False c = (b, c')" "r = (case b of Inl e \<Rightarrow> Inl e | Inr _ \<Rightarrow> Inr ())"
    using put.hyps(5) by (auto simp: put_distributed_bytes_def svc_step_def split: prod.splits sum.splits)
  have inv: "memory_inv sd (cu_meta c)" using put.IH by (simp add: run_inv_def)
  have room: "gen_room (to_string_key key) (memory_view sd (cu_meta c))" "fits_isize data"
    "div_ceil (length data) (stripe_size (ce_ctx CE i)) \<le> 2 ^ 32" using put.hyps(4) by (simp_all add: can_place_def)
  from put_impl_outcome [OF put.hyps(2) inv room b(1)]
  have out: "dist_outcome key data c b c'" "b \<noteq> Inr False" by simp_all
  have "is_ok r \<longleftrightarrow> b = Inr True" using b(2) out(2) by (cases b) auto
  moreover have "inj_on (object_digest H) K" using assms(2) by (simp add: keys_ok_def)
  ultimately show ?case using run_inv_put [OF put.IH _ put.hyps(3) out(1)] by simp
next
  case (gc A c i now)
  show ?case
    by (rule run_inv_gc [OF gc.hyps(2) gc.IH]) (use assms(2) from_string_key_canonical in \<open>auto simp: keys_ok_def\<close>)
qed

end


section \<open>A cluster of two nodes\<close>

definition pair_cx ::
  "string \<Rightarrow> (world, BlockMeta MemoryMetadataInner, CacheEntry lru_list, ChunksCacheEntry lru_list) KVServiceContext" where
  "pair_cx n = sample_cx\<lparr> cx_config := default_config\<lparr> cfg_cluster :=
     \<lparr> cl_node_id = n, cl_grpc_advertise = n @ '':50051'', cl_rdma_advertise = n @ '':18515'',
       cl_data_nodes = [sample_node ''a'', sample_node ''b''] \<rparr> \<rparr> \<rparr>"

definition pair_ce ::
  "(world, BlockMeta MemoryMetadataInner, CacheEntry lru_list, ChunksCacheEntry lru_list) ClusterEnv" where
  "pair_ce = \<lparr> ce_ctx = (\<lambda>i. pair_cx (if i = 0 then ''a'' else ''b'')),
     ce_resolve = (\<lambda>u. if u = ''http://a:50051'' then Some 0 else if u = ''http://b:50051'' then Some 1 else None),
     ce_status_text = st_message \<rparr>"

definition pair_start :: "(world, BlockMeta MemoryMetadataInner, CacheEntry lru_list, ChunksCacheEntry lru_list) Cluster" where
  "pair_start = \<lparr> cu_tiers = (\<lambda>_. memory_new_state (cx_memory sample_cx) sample_state), cu_meta = memory_empty, cu_net = [] \<rparr>"

lemma pair_local: "local_node (pair_cx n) = \<lparr> dn_node_id = (if n = [] then ''local'' else n), dn_grpc_endpoint = n @ '':50051'',
    dn_rdma_endpoint = n @ '':18515'' \<rparr>"
  by (simp add: local_node_def pair_cx_def sample_cx_def env_or_def)

lemma pair_nodes: "configured_data_nodes (pair_cx n) =
    [\<lparr> dn_node_id = ''a'', dn_grpc_endpoint = ''a:50051'', dn_rdma_endpoint = ''a:18515'' \<rparr>,
     \<lparr> dn_node_id = ''b'', dn_grpc_endpoint = ''b:50051'', dn_rdma_endpoint = ''b:18515'' \<rparr>]"
  by (simp add: configured_data_nodes_def pair_cx_def sample_cx_def sample_node_def)

lemma pair_env: "cx_storage (pair_cx n) = sample_env"
  by (simp add: pair_cx_def sample_cx_def)

lemma pair_policy: "placement_policy_id (pair_cx n) = placement_policy_id (pair_cx n')"
  by (simp add: placement_policy_id_def pair_cx_def sample_cx_def)

lemma pair_epoch: "placement_epoch (pair_cx n) = placement_epoch (pair_cx n')"
  unfolding placement_epoch_def Let_def pair_env pair_nodes pair_policy [of n n'] ..

lemma pair_owner:
  "owner pair_ce 2 \<lparr> dn_node_id = ''a'', dn_grpc_endpoint = ''a:50051'', dn_rdma_endpoint = ''a:18515'' \<rparr> 0"
  "owner pair_ce 2 \<lparr> dn_node_id = ''b'', dn_grpc_endpoint = ''b:50051'', dn_rdma_endpoint = ''b:18515'' \<rparr> 1"
  by (auto simp: owner_def pair_ce_def is_local_node_def pair_local grpc_uri_def starts_with_def less_Suc_eq numeral_2_eq_2)

lemma pair_config: "cluster_config pair_ce 2 sample_hashers"
  unfolding cluster_config_def
proof (intro conjI allI impI ballI)
  have ctx: "ce_ctx pair_ce k = pair_cx (if k = 0 then ''a'' else ''b'')" for k by (simp add: pair_ce_def)
  show "\<exists>j. owner pair_ce 2 nd j" if "nd \<in> set (configured_data_nodes (ce_ctx pair_ce 0))" for nd
    using that pair_owner unfolding ctx pair_nodes by auto
  fix i :: nat assume i: "i < 2"
  show "se_hash (cx_storage (ce_ctx pair_ce i)) = sample_hashers" by (simp add: ctx pair_env sample_env_def)
  show "owner pair_ce 2 (local_node (ce_ctx pair_ce i)) i"
    using i pair_owner by (cases "i = 0") (simp_all add: ctx pair_local less_2_cases_iff)
  show "configured_data_nodes (ce_ctx pair_ce i) = configured_data_nodes (ce_ctx pair_ce 0)" unfolding ctx pair_nodes ..
  show "placement_epoch (ce_ctx pair_ce i) = placement_epoch (ce_ctx pair_ce 0)" unfolding ctx by (rule pair_epoch)
  show "placement_policy_id (ce_ctx pair_ce i) = placement_policy_id (ce_ctx pair_ce 0)" unfolding ctx by (rule pair_policy)
  show "se_verify_stripe_checksums (cx_storage (ce_ctx pair_ce i)) = se_verify_stripe_checksums (cx_storage (ce_ctx pair_ce 0))"
    unfolding ctx pair_env ..
  have "rooted sample_router" by code_simp
  moreover have "num_devices sample_router < 2 ^ 32" by (simp add: num_devices_def sample_router_def)
  ultimately show "rooted (se_router (cx_storage (ce_ctx pair_ce i)))" "num_devices (se_router (cx_storage (ce_ctx pair_ce i))) < 2 ^ 32"
    unfolding ctx pair_env by (simp_all add: sample_env_def)
qed

lemma pair_ok: "cluster_ok pair_ce 2 sample_hashers plain_serde"
  using pair_config stack_ok_sample hex_digest_sample by (simp add: cluster_ok_def pair_ce_def pair_env)

interpretation pair: cluster_stack pair_ce 2 sample_hashers plain_serde
  by (rule cluster_stack.intro) (rule pair_ok)


lemma pair_empty [simp]: "memory_inv plain_serde (cu_meta pair_start)" "cluster_calm 2 pair_start"
  by (simp_all add: pair_start_def memory_inv_empty cluster_calm_def node_store_def memory_new_state_def sample_state_def
      storage_new_state_def calm_def) (simp add: memory_empty_def)

lemma pair_can_place: "can_place pair_ce i plain_serde sample_key [1, 2, 3, 4, 5] pair_start"
  by (simp add: can_place_def gen_room_def gen_base_def pair_start_def memory_view_def memory_empty_def decoded_def fits_isize_def
      pair_ce_def stripe_size_def pair_env sample_env_def div_ceil_def) (rule order_trans [OF div_le_dividend], simp)


lemma pair_run:
  assumes "put_distributed_bytes pair_ce 0 100 sample_key [1, 2, 3, 4, 5] sample_meta pair_start = (r, c')"
  shows "cluster_run pair_ce 2 plain_serde {sample_key} [sample_key \<mapsto> [1, 2, 3, 4, 5]] c'" "cluster_calm 2 c'"
    "\<exists>m. cluster_blocks plain_serde c' (to_string_key sample_key) = Some m \<and> \<not> is_expired_at m now"
proof -
  obtain b where b: "put_distributed_bytes_impl pair_ce 0 100 sample_key [1, 2, 3, 4, 5] sample_meta False pair_start = (b, c')"
      "r = (case b of Inl e \<Rightarrow> Inl e | Inr _ \<Rightarrow> Inr ())"
    using assms by (auto simp: put_distributed_bytes_def svc_step_def split: prod.splits sum.splits)
  have room: "gen_room (to_string_key sample_key) (memory_view plain_serde (cu_meta pair_start))" "fits_isize ([1, 2, 3, 4, 5] :: bytes)"
    "div_ceil (length ([1, 2, 3, 4, 5] :: bytes)) (stripe_size (ce_ctx pair_ce 0)) \<le> 2 ^ 32"
    using pair_can_place [of 0] by (simp_all only: can_place_def)
  have free: "pair.fault_free pair_start" using pair.fault_free_eq pair_empty by blast
  note out = pair.put_impl_outcome [OF _ pair_empty(1) room b(1)]
  have ok: "b = Inr True" "pair.fault_free c'" using out free by simp_all
  then have "memory_inv plain_serde (cu_meta c')" by (simp add: pair.fault_free_def)
  then show "cluster_calm 2 c'" using ok(2) pair.fault_free_eq by blast
  have "cluster_run pair_ce 2 plain_serde {sample_key} (\<lambda>_. None) pair_start" by (rule cluster_run.start) (simp add: pair_start_def)
  from cluster_run.put [OF this _ _ pair_can_place assms]
  show "cluster_run pair_ce 2 plain_serde {sample_key} [sample_key \<mapsto> [1, 2, 3, 4, 5]] c'" using b(2) ok(1) by (simp add: is_ok_def)
  have "pair.lifetime sample_key sample_meta c'" using out ok(1) by simp
  then show "\<exists>m. cluster_blocks plain_serde c' (to_string_key sample_key) = Some m \<and> \<not> is_expired_at m now"
    unfolding pair.lifetime_def by (rule ex_forward) (simp add: is_expired_at_def sample_meta_def)
qed

lemma pair_keys: "keys_ok sample_hashers {sample_key}"
proof -
  have "utf8_string (object_key sample_key)" by code_simp
  then show ?thesis by (simp add: keys_ok_def sample_key_def)
qed

text \<open>A node that does not own the first chunk of an object reads it over the network.\<close>

lemma pair_remote:
  assumes "dist_intact pair_ce 2 F key m data" "data \<noteq> []"
  obtains i where "i < 2" "placement_has_remote_chunks (ce_ctx pair_ce i) (placement_from_meta (ce_ctx pair_ce i) key m)"
proof -
  obtain locs cs where l: "distributed_layout m locs" "list_all2 (placed pair_ce 2 F key (object_generation m)) locs cs" "data = concat cs"
    using assms(1) by (auto simp: dist_intact_def)
  then have "locs \<noteq> []" using assms(2) by auto
  then obtain loc d where loc: "loc \<in> set locs" "placed pair_ce 2 F key (object_generation m) loc d"
    using l(2) by (cases locs; cases cs) auto
  then obtain j where j: "owner pair_ce 2 (location_node loc) j" by (auto simp: placed_def Let_def)
  then have j2: "j < 2" by (simp add: owner_def)
  then have "\<not> is_local_node (ce_ctx pair_ce (1 - j)) (location_node loc)" using j by (cases j) (auto simp: owner_def)
  then have "placement_has_remote_chunks (ce_ctx pair_ce (1 - j)) (placement_from_meta (ce_ctx pair_ce (1 - j)) key m)"
    using loc(1) by (auto simp: placement_has_remote_chunks_def placement_pd_chunks distributed_chunks [OF l(1)] list_ex_iff)
  then show thesis by (rule that [of "1 - j", rotated]) simp
qed


section \<open>Properties\<close>

text \<open>
  C3. A distributed write is an update of the abstract object map of the cluster.  If it succeeds, the
  key holds exactly the new bytes, spread over the nodes; if it fails or is refused, for whatever
  failures of devices, metadata or network, the previous version is still there; and no other object
  changes, in that every file outside the new version of the key is as before on every node.  The
  metadata service is the in-process one: writes to it may fail, without effect, reads do not.
\<close>

theorem distributed_put_refines:
  assumes "cluster_ok CE N H sd" "i < N" "memory_inv sd (cu_meta c)" "can_place CE i sd key data c"
    "put_distributed_bytes_impl CE i now key data meta if_absent c = (r, c')"
    "key' = key \<or> object_digest H key' \<noteq> object_digest H key"
  shows "(dist_holds CE N (cluster_blocks sd c') (cluster_files c') key' d \<longleftrightarrow>
      (if r = Inr True \<and> key' = key then d = data else dist_holds CE N (cluster_blocks sd c) (cluster_files c) key' d))
    \<and> (\<forall>j < N. \<forall>q. managed q \<longrightarrow> q \<notin> key_files H key (Suc (gen_base (to_string_key key) (memory_view sd (cu_meta c)))) \<longrightarrow>
         cluster_files c' j q = cluster_files c j q)
    \<and> memory_inv sd (cu_meta c')"
proof -
  have stack: "cluster_stack CE N H sd" using assms(1) by (rule cluster_stack.intro)
  have room: "gen_room (to_string_key key) (memory_view sd (cu_meta c))" "fits_isize data"
    "div_ceil (length data) (stripe_size (ce_ctx CE i)) \<le> 2 ^ 32" using assms(4) by (simp_all add: can_place_def)
  note sys = cluster_ok_system [OF assms(1)]
  have out: "cluster_system.dist_outcome CE N H w_files (memory_view sd) (memory_inv sd) key data c r c'"
    using cluster_system.put_impl_outcome [OF sys assms(2,3) room assms(5)] by blast
  from cluster_system.dist_put_refines [OF sys this assms(6), of d] out show ?thesis
    unfolding cluster_stack.F_eq [OF stack] cluster_system.dist_outcome_def [OF sys] Let_def by blast
qed

theorem distributed_put_refines_witness:
  "let (r, c') = put_distributed_bytes_impl pair_ce 0 100 sample_key [1, 2, 3, 4, 5] sample_meta True pair_start in
     dist_holds pair_ce 2 (cluster_blocks plain_serde c') (cluster_files c') sample_key [1, 2, 3, 4, 5] \<longleftrightarrow> r = Inr True"
proof -
  obtain r c' where run: "put_distributed_bytes_impl pair_ce 0 100 sample_key [1, 2, 3, 4, 5] sample_meta True pair_start = (r, c')" by fastforce
  have "\<not> dist_holds pair_ce 2 (cluster_blocks plain_serde pair_start) (cluster_files pair_start) sample_key d" for d
    by (simp add: dist_holds_def pair_start_def memory_empty_def decoded_def)
  then show ?thesis
    using distributed_put_refines [OF pair_ok _ pair_empty(1) pair_can_place run, of sample_key "[1, 2, 3, 4, 5]"] by (simp add: run)
qed

text \<open>
  C37. On a cluster where no device, no connection and not the metadata service fails, an unconditional
  distributed write always succeeds, at any node and for any object the limits allow; it publishes a
  version with the creation time and the lifetime the caller gave, and leaves the cluster free of faults.
\<close>

theorem distributed_put_succeeds:
  assumes "cluster_ok CE N H sd" "i < N" "memory_inv sd (cu_meta c)" "can_place CE i sd key data c" "cluster_calm N c"
    "put_distributed_bytes_impl CE i now key data meta False c = (r, c')"
  shows "r = Inr True \<and> cluster_calm N c' \<and> (\<exists>m. cluster_blocks sd c' (to_string_key key) = Some m
    \<and> dist_intact CE N (cluster_files c') key m data \<and> created_at m = created_at meta \<and> ttl_seconds m = ttl_seconds meta)"
proof -
  have stack: "cluster_stack CE N H sd" using assms(1) by (rule cluster_stack.intro)
  have room: "gen_room (to_string_key key) (memory_view sd (cu_meta c))" "fits_isize data"
    "div_ceil (length data) (stripe_size (ce_ctx CE i)) \<le> 2 ^ 32" using assms(4) by (simp_all add: can_place_def)
  note sys = cluster_ok_system [OF assms(1)]
  note free = cluster_stack.fault_free_eq [OF stack]
  note out = cluster_system.put_impl_outcome [OF sys assms(2,3) room assms(6)]
  have ok: "r = Inr True" "cluster_system.fault_free N calm (memory_inv sd) (\<lambda>m. mm_fail_next_puts m = 0) c'"
    using out free [OF assms(3)] assms(5) by simp_all
  then have inv: "memory_inv sd (cu_meta c')" by (simp add: cluster_system.fault_free_def [OF sys])
  from out ok(1) obtain m where m: "mv_blocks (memory_view sd (cu_meta c')) = (cluster_blocks sd c)(to_string_key key \<mapsto> m)"
      "dist_intact CE N (cluster_files c') key m data"
    unfolding cluster_stack.F_eq [OF stack] cluster_system.dist_outcome_def [OF sys] Let_def by fastforce
  have "created_at m = created_at meta \<and> ttl_seconds m = ttl_seconds meta"
    using out ok(1) unfolding cluster_system.lifetime_def [OF sys] m(1) by simp
  then show ?thesis using ok free [OF inv] m by simp
qed

theorem distributed_put_succeeds_witness:
  "fst (put_distributed_bytes_impl pair_ce 1 100 sample_key [1, 2, 3, 4, 5] sample_meta False pair_start) = Inr True"
proof -
  obtain r c' where run: "put_distributed_bytes_impl pair_ce 1 100 sample_key [1, 2, 3, 4, 5] sample_meta False pair_start = (r, c')" by fastforce
  show ?thesis using distributed_put_succeeds [OF pair_ok _ pair_empty(1) pair_can_place pair_empty(2) run] run by simp
qed

text \<open>
  C1. A cluster reads what was last written.  After any sequence of distributed writes and collections
  from any nodes, under any failures, a key is published exactly when some write of it was acknowledged,
  and then with the bytes of the last acknowledged write.  A \<open>Get\<close> at any node that has to fetch chunks
  from other nodes answers either with an error or with those bytes and the metadata of that version,
  and without failures it does answer.  The metadata service is the in-process one: writes to it may
  fail, without effect, reads do not.
\<close>

theorem cluster_reads_last_write:
  assumes "cluster_ok CE N H sd" "keys_ok H K" "cluster_run CE N sd K A c" "key \<in> K" "pb_key_to_internal pk = key"
  shows "case A key of
      None \<Rightarrow> cluster_blocks sd c (to_string_key key) = None
    | Some data \<Rightarrow> \<exists>m. cluster_blocks sd c (to_string_key key) = Some m \<and> dist_intact CE N (cluster_files c) key m data
        \<and> (\<forall>i < N. \<forall>now r c'. \<not> is_expired_at m now
             \<longrightarrow> placement_has_remote_chunks (ce_ctx CE i) (placement_from_meta (ce_ctx CE i) key m)
             \<longrightarrow> h_get CE now (Some pk) i c = (r, c')
             \<longrightarrow> (\<forall>x. r = Inr x \<longrightarrow> x = get_found data m) \<and> (cluster_calm N c \<longrightarrow> r = Inr (get_found data m)))"
proof -
  have stack: "cluster_stack CE N H sd" using assms(1) by (rule cluster_stack.intro)
  note sys = cluster_ok_system [OF assms(1)]
  note inv = cluster_stack.run_ok [OF stack assms(3,2)]
  have minv: "memory_inv sd (cu_meta c)" using inv unfolding cluster_system.run_inv_def [OF sys] by blast
  show ?thesis
  proof (cases "A key")
    case None
    then show ?thesis using inv assms(4) unfolding cluster_system.run_inv_def [OF sys] by fastforce
  next
    case (Some data)
    obtain m where m: "mv_blocks (memory_view sd (cu_meta c)) (to_string_key key) = Some m" "dist_intact CE N (cluster_files c) key m data"
      and read: "\<And>i now. i < N \<Longrightarrow> \<not> is_expired_at m now \<Longrightarrow>
        placement_has_remote_chunks (ce_ctx CE i) (placement_from_meta (ce_ctx CE i) key m) \<Longrightarrow>
        cluster_system.task N w_files calm (memory_view sd) (memory_inv sd) (\<lambda>m. mm_fail_next_puts m = 0)
          (\<lambda>_. False) (\<lambda>x c'. x = get_found data m) c (h_get CE now (Some pk) i c)"
      using cluster_system.dist_read [OF sys inv assms(4) Some] assms(5) unfolding cluster_stack.F_eq [OF stack] by metis
    have "(\<forall>x. r = Inr x \<longrightarrow> x = get_found data m) \<and> (cluster_calm N c \<longrightarrow> r = Inr (get_found data m))"
      if g: "i < N" "\<not> is_expired_at m now" "placement_has_remote_chunks (ce_ctx CE i) (placement_from_meta (ce_ctx CE i) key m)"
        "h_get CE now (Some pk) i c = (r, c')" for i now r c'
      using read [OF g(1-3)] cluster_stack.fault_free_eq [OF stack minv] g(4)
      unfolding cluster_system.task_def [OF sys] by (cases r) (auto simp: is_ok_def)
    then show ?thesis using m unfolding Some option.case by blast
  qed
qed

theorem cluster_reads_last_write_witness:
  "\<exists>i m. i < 2 \<and> fst (h_get pair_ce 200 (Some (internal_key_to_pb sample_key)) i
     (snd (put_distributed_bytes pair_ce 0 100 sample_key [1, 2, 3, 4, 5] sample_meta pair_start))) = Inr (get_found [1, 2, 3, 4, 5] m)"
proof -
  obtain r c where run: "put_distributed_bytes pair_ce 0 100 sample_key [1, 2, 3, 4, 5] sample_meta pair_start = (r, c)" by fastforce
  note start = pair_run [OF run]
  have key: "pb_key_to_internal (internal_key_to_pb sample_key) = sample_key" by (simp add: pb_key_to_internal_def internal_key_to_pb_def)
  obtain m where m: "cluster_blocks plain_serde c (to_string_key sample_key) = Some m"
      "dist_intact pair_ce 2 (cluster_files c) sample_key m [1, 2, 3, 4, 5]"
    and read: "\<And>i now r c'. i < 2 \<Longrightarrow> \<not> is_expired_at m now \<Longrightarrow>
      placement_has_remote_chunks (ce_ctx pair_ce i) (placement_from_meta (ce_ctx pair_ce i) sample_key m) \<Longrightarrow>
      h_get pair_ce now (Some (internal_key_to_pb sample_key)) i c = (r, c') \<Longrightarrow> r = Inr (get_found [1, 2, 3, 4, 5] m)"
    using cluster_reads_last_write [OF pair_ok pair_keys start(1) _ key] start(2) by auto
  obtain i where i: "i < 2" "placement_has_remote_chunks (ce_ctx pair_ce i) (placement_from_meta (ce_ctx pair_ce i) sample_key m)"
    using pair_remote [OF m(2)] by auto
  obtain r' c' where get: "h_get pair_ce 200 (Some (internal_key_to_pb sample_key)) i c = (r', c')" by fastforce
  have "\<not> is_expired_at m 200" using start(3) [of 200] m(1) by auto
  from read [OF i(1) this i(2) get] show ?thesis using i(1) by (intro exI [of _ i] exI [of _ m]) (simp add: get run)
qed

text \<open>
  C6. Garbage collection never touches a published version.  A collection at any node, whatever fails
  during it, changes no published metadata, and on no node a file that belongs to the current version of
  a key; it needs of the pending tasks only that the chunks they name belong to their own key and
  generation, and that a task for the current generation names the current version itself.
\<close>

theorem gc_keeps_published:
  assumes "cluster_ok CE N H sd" "keys_ok H K" "i < N" "memory_inv sd (cu_meta c)"
    "\<And>id t. mv_tasks (memory_view sd (cu_meta c)) id = Some t \<Longrightarrow> collectable CE N H K i (cluster_blocks sd c) t"
    "run_gc_once CE i now c = c'"
  shows "memory_inv sd (cu_meta c') \<and> cluster_blocks sd c' = cluster_blocks sd c
    \<and> (\<forall>key \<in> K. \<forall>m. cluster_blocks sd c (to_string_key key) = Some m \<longrightarrow>
         (\<forall>j < N. \<forall>q \<in> key_files H key (object_generation m). cluster_files c' j q = cluster_files c j q)
         \<and> (\<forall>data. dist_intact CE N (cluster_files c) key m data \<longrightarrow> dist_intact CE N (cluster_files c') key m data))"
proof -
  have stack: "cluster_stack CE N H sd" using assms(1) by (rule cluster_stack.intro)
  have config: "cluster_config CE N H" using assms(1) by (simp add: cluster_ok_def)
  note sys = cluster_ok_system [OF assms(1)]
  have inj: "inj_on (object_digest H) K" using assms(2) by (simp add: keys_ok_def)
  have canon: "from_string_key (to_string_key key) = Inr key" if "key \<in> K" for key
    using assms(2) that from_string_key_canonical by (auto simp: keys_ok_def)
  have known: "cluster_system.known (memory_view sd) UNIV c" by (simp add: cluster_system.known_def [OF sys])
  have "cluster_system.gc_safe N H w_files (memory_view sd) (memory_inv sd) K UNIV c (run_gc_once CE i now c)"
    by (rule cluster_system.run_gc_safe [OF sys assms(3,4) inj canon assms(5) known])
  then have safe: "memory_inv sd (cu_meta c')" "cluster_blocks sd c' = cluster_blocks sd c"
    and files: "\<And>key m j q. key \<in> K \<Longrightarrow> mv_blocks (memory_view sd (cu_meta c)) (to_string_key key) = Some m \<Longrightarrow> j < N \<Longrightarrow>
      q \<in> key_files H key (object_generation m) \<Longrightarrow> cluster_files c' j q = cluster_files c j q"
    unfolding cluster_system.gc_safe_def [OF sys] cluster_stack.F_eq [OF stack] assms(6) by simp_all
  moreover have "dist_intact CE N (cluster_files c') key m data"
    if "key \<in> K" "mv_blocks (memory_view sd (cu_meta c)) (to_string_key key) = Some m" "dist_intact CE N (cluster_files c) key m data" for key m data
    by (rule dist_intact_cong [OF that(3) config]) (rule files [OF that(1,2)])
  ultimately show ?thesis by blast
qed

theorem gc_keeps_published_witness:
  "cluster_blocks plain_serde (run_gc_once pair_ce 1 300 (snd (put_distributed_bytes pair_ce 0 100 sample_key [1, 2, 3, 4, 5] sample_meta pair_start)))
     = cluster_blocks plain_serde (snd (put_distributed_bytes pair_ce 0 100 sample_key [1, 2, 3, 4, 5] sample_meta pair_start))"
proof -
  obtain r c where run: "put_distributed_bytes pair_ce 0 100 sample_key [1, 2, 3, 4, 5] sample_meta pair_start = (r, c)" by fastforce
  note inv = pair.run_ok [OF pair_run(1) [OF run] pair_keys]
  then have "memory_inv plain_serde (cu_meta c)" unfolding pair.run_inv_def by blast
  from gc_keeps_published [where now = 300 and i = 1, OF pair_ok pair_keys _ this pair.run_inv_collectable [OF inv] refl]
  show ?thesis using run by simp
qed

end
