(* ===== verification/Py_Base.thy ===== *)
theory Py_Base
  imports KVError "HOL-Library.AList"
begin

text \<open>
  The Python side (\<open>src/contextstore\<close>): exceptions, dictionaries, the interface \<open>StorageBackend\<close> of
  \<open>storage/base.py\<close> and its contracts, and the in-memory backend of \<open>storage/memory.py\<close>.

  A call returns a value or raises.  A dictionary is an association list in insertion order, updated
  in place by \<open>AList.update\<close>.  A backend is a record of its methods; a method that only some classes
  have (tested by \<open>hasattr\<close> in the source) is an \<open>option\<close>.
\<close>

section \<open>Exceptions and dictionaries\<close>

datatype pyerr = ValueError string | RuntimeError string | AttributeError string | OSError string | RpcError status_code string

type_synonym 'a pres = "pyerr + 'a"

definition pstep :: "('e + 'a) \<times> 's \<Rightarrow> ('a \<Rightarrow> 's \<Rightarrow> ('e + 'b) \<times> 's) \<Rightarrow> ('e + 'b) \<times> 's" where
  "pstep p k = (case p of (Inl e, s) \<Rightarrow> (Inl e, s) | (Inr x, s) \<Rightarrow> k x s)"

lemma pstep_simps [simp]: "pstep (Inl e, s) k = (Inl e, s)" "pstep (Inr x, s) k = k x s"
  by (simp_all add: pstep_def)

text \<open>\<open>OrderedDict.move_to_end\<close>, \<open>popitem(last=False)\<close>, and \<open>pop(k, None)\<close>.\<close>

definition move_to_end :: "'k \<Rightarrow> ('k \<times> 'v) list \<Rightarrow> ('k \<times> 'v) list" where
  "move_to_end k d = (case map_of d k of None \<Rightarrow> d | Some v \<Rightarrow> AList.delete k d @ [(k, v)])"

definition dict_pop :: "'k \<Rightarrow> ('k \<times> 'v) list \<Rightarrow> ('k \<times> 'v) list" where
  "dict_pop k d = AList.delete k d"

definition dict_set_last :: "'k \<Rightarrow> 'v \<Rightarrow> ('k \<times> 'v) list \<Rightarrow> ('k \<times> 'v) list" where
  "dict_set_last k v d = move_to_end k (AList.update k v d)"

abbreviation is_dict :: "('k \<times> 'v) list \<Rightarrow> bool" where
  "is_dict d \<equiv> distinct (map fst d)"

lemma map_of_delete [simp]: "map_of (AList.delete k d) = (map_of d)(k := None)"
  by (simp add: delete_conv')

lemma map_of_update [simp]: "map_of (AList.update k v d) = (map_of d)(k \<mapsto> v)"
  by (simp add: update_conv')

lemma map_of_move_to_end [simp]: "map_of (move_to_end k d) = map_of d"
  by (auto simp: move_to_end_def fun_eq_iff map_add_def split: option.split)

lemma is_dict_delete [simp]: "is_dict d \<Longrightarrow> is_dict (AList.delete k d)"
  by (rule distinct_delete)

lemma is_dict_update [simp]: "is_dict d \<Longrightarrow> is_dict (AList.update k v d)"
  by (rule distinct_update)

lemma is_dict_move_to_end [simp]: "is_dict d \<Longrightarrow> is_dict (move_to_end k d)"
  by (auto simp: move_to_end_def delete_keys distinct_removeAll split: option.split)

lemma is_dict_set_last [simp]: "is_dict d \<Longrightarrow> is_dict (dict_set_last k v d)"
  by (simp add: dict_set_last_def)

lemma map_of_set_last [simp]: "map_of (dict_set_last k v d) = (map_of d)(k \<mapsto> v)"
  by (simp add: dict_set_last_def)

lemma map_of_pop [simp]: "map_of (dict_pop k d) = (map_of d)(k := None)"
  by (simp add: dict_pop_def)

lemma is_dict_pop [simp]: "is_dict d \<Longrightarrow> is_dict (dict_pop k d)"
  by (simp add: dict_pop_def)

lemma set_dict_update: "set (AList.update k v d) \<subseteq> insert (k, v) (set d)"
  by (induction d) auto

lemma set_dict_delete: "set (AList.delete k d) \<subseteq> set d"
  by (auto simp: AList.delete_eq)

text \<open>Writing the results of a batch to their positions.\<close>

lemma fold_update_nth:
  assumes "\<forall>m \<in> set ms. snd m = f (fst (fst m))" "j < length res"
  shows "fold (\<lambda>m res. res[fst (fst m) := snd m]) ms res ! j = (if j \<in> (fst \<circ> fst) ` set ms then f j else res ! j)"
  using assms by (induction ms arbitrary: res) (auto simp: nth_list_update)

lemma length_fold_update [simp]: "length (fold (\<lambda>m res. res[fst (fst m) := snd m]) ms res) = length res"
  by (induction ms arbitrary: res) auto

text \<open>Sums over the values of a dictionary.\<close>

definition dict_sum :: "('v \<Rightarrow> nat) \<Rightarrow> ('k \<times> 'v) list \<Rightarrow> nat" where
  "dict_sum f d = (\<Sum>(k, v) \<leftarrow> d. f v)"

definition value_size :: "('v \<Rightarrow> nat) \<Rightarrow> 'v option \<Rightarrow> nat" where
  "value_size f v = (case v of None \<Rightarrow> 0 | Some v \<Rightarrow> f v)"

lemma value_size_simps [simp]: "value_size f None = 0" "value_size f (Some v) = f v"
  by (simp_all add: value_size_def)

lemma dict_sum_simps [simp]:
  "dict_sum f [] = 0" "dict_sum f ((k, v) # d) = f v + dict_sum f d" "dict_sum f (d @ d') = dict_sum f d + dict_sum f d'"
  by (simp_all add: dict_sum_def)

lemma dict_sum_delete: "is_dict d \<Longrightarrow> dict_sum f (AList.delete k d) + value_size f (map_of d k) = dict_sum f d"
proof (induction d)
  case (Cons p d)
  show ?case
  proof (cases "fst p = k")
    case True
    then have "k \<notin> dom (map_of d)" using Cons.prems by (auto simp: dom_map_of_conv_image_fst)
    then have "AList.delete k d = d" by (simp add: delete_idem dom_map_of_conv_image_fst)
    then show ?thesis using True by (cases p) (simp add: value_size_def)
  next
    case False
    then show ?thesis using Cons by (cases p) auto
  qed
qed simp

lemma dict_sum_update: "is_dict d \<Longrightarrow> dict_sum f (AList.update k v d) + value_size f (map_of d k) = dict_sum f d + f v"
proof (induction d)
  case (Cons p d)
  obtain k' v' where p: "p = (k', v')" by (cases p)
  show ?case
  proof (cases "k' = k")
    case True
    then show ?thesis by (simp add: p)
  next
    case False
    then show ?thesis using Cons by (simp add: p)
  qed
qed simp

lemma dict_sum_move_to_end [simp]: "is_dict d \<Longrightarrow> dict_sum f (move_to_end k d) = dict_sum f d"
  using dict_sum_delete [of d f k] by (auto simp: move_to_end_def split: option.split)

lemma dict_sum_set_last: "is_dict d \<Longrightarrow> dict_sum f (dict_set_last k v d) + value_size f (map_of d k) = dict_sum f d + f v"
  by (simp add: dict_set_last_def dict_sum_update)

lemma dict_sum_pop: "is_dict d \<Longrightarrow> dict_sum f (dict_pop k d) + value_size f (map_of d k) = dict_sum f d"
  by (simp add: dict_pop_def dict_sum_delete)


section \<open>The interface of a backend\<close>

record PyBlockMeta =
  pm_num_tokens :: int
  pm_num_layers :: int
  pm_dtype :: string
  pm_shape :: "int list"
  pm_compressed :: bool
  pm_compression_level :: int

type_synonym 's put_method = "string \<Rightarrow> string \<Rightarrow> bytes \<Rightarrow> PyBlockMeta option \<Rightarrow> 's \<Rightarrow> unit pres \<times> 's"
type_synonym 's get_method = "string \<Rightarrow> string \<Rightarrow> 's \<Rightarrow> bytes option pres \<times> 's"

record 's StorageBackend =
  sb_put :: "'s put_method"
  sb_get :: "'s get_method"
  sb_exists :: "string \<Rightarrow> 's \<Rightarrow> bool pres \<times> 's"
  sb_delete :: "string \<Rightarrow> 's \<Rightarrow> unit pres \<times> 's"
  sb_get_meta :: "string \<Rightarrow> 's \<Rightarrow> PyBlockMeta option pres \<times> 's"
  sb_capacity_usage :: "'s \<Rightarrow> (int \<times> int) pres \<times> 's"
  sb_list_keys :: "'s \<Rightarrow> string set pres \<times> 's"
  sb_get_parallel :: "string list \<Rightarrow> string \<Rightarrow> 's \<Rightarrow> bytes option list pres \<times> 's"
  sb_put_parallel :: "(string \<times> string \<times> bytes \<times> PyBlockMeta option) list \<Rightarrow> 's \<Rightarrow> unit pres \<times> 's"
  sb_put_chunks :: "(string \<Rightarrow> string \<Rightarrow> bytes list \<Rightarrow> PyBlockMeta option \<Rightarrow> 's \<Rightarrow> unit pres \<times> 's) option"
  sb_get_chunks :: "(string \<Rightarrow> string \<Rightarrow> 's \<Rightarrow> bytes list option pres \<times> 's) option"
  sb_probe_layer_exists :: "(string \<Rightarrow> string \<Rightarrow> 's \<Rightarrow> bool pres \<times> 's) option"
  sb_supports_zerocopy :: "('s \<Rightarrow> bool pres \<times> 's) option"
  sb_supports_rdma_put :: "('s \<Rightarrow> bool pres \<times> 's) option"
  sb_ensure_rdma_region :: "(nat \<Rightarrow> nat \<Rightarrow> 's \<Rightarrow> nat pres \<times> 's) option"
  sb_get_chunks_into :: "(string \<Rightarrow> string \<Rightarrow> nat \<Rightarrow> nat \<Rightarrow> 's \<Rightarrow> nat option pres \<times> 's) option"
  sb_put_chunks_from :: "(string \<Rightarrow> string \<Rightarrow> nat \<Rightarrow> nat \<Rightarrow> nat \<Rightarrow> 's \<Rightarrow> bool pres \<times> 's) option"

text \<open>The default methods of the abstract class: one call after the other, the first exception ends the batch.\<close>

fun get_parallel_default :: "'s get_method \<Rightarrow> string list \<Rightarrow> string \<Rightarrow> 's \<Rightarrow> bytes option list pres \<times> 's" where
  "get_parallel_default get [] layer s = (Inr [], s)"
| "get_parallel_default get (key # keys) layer s =
     pstep (get key layer s) (\<lambda>data s1. pstep (get_parallel_default get keys layer s1) (\<lambda>rest s2. (Inr (data # rest), s2)))"

fun put_parallel_default ::
  "'s put_method \<Rightarrow> (string \<times> string \<times> bytes \<times> PyBlockMeta option) list \<Rightarrow> 's \<Rightarrow> unit pres \<times> 's" where
  "put_parallel_default put [] s = (Inr (), s)"
| "put_parallel_default put ((key, layer, data, meta) # items) s =
     pstep (put key layer data meta s) (\<lambda>_ s1. put_parallel_default put items s1)"

text \<open>
  The contract of a backend.  Its \<open>view\<close> maps a key and a layer to the stored bytes.  A write that
  returns has stored its bytes, a read that returns has read the view, a deletion that returns has
  emptied its key, and none of them touches other entries.  Names are restricted to those the
  backend can represent.
\<close>

locale storage_backend =
  fixes b :: "'s StorageBackend" and view :: "'s \<Rightarrow> string \<times> string \<Rightarrow> bytes option" and inv :: "'s \<Rightarrow> bool"
    and name_ok :: "string \<Rightarrow> bool"
  assumes put_law: "inv s \<Longrightarrow> name_ok k \<Longrightarrow> name_ok l \<Longrightarrow> sb_put b k l d m s = (r, s') \<Longrightarrow>
      inv s' \<and> (\<forall>x. x \<noteq> (k, l) \<longrightarrow> view s' x = view s x) \<and> (is_ok r \<longrightarrow> view s' (k, l) = Some d)"
    and get_law: "inv s \<Longrightarrow> name_ok k \<Longrightarrow> name_ok l \<Longrightarrow> sb_get b k l s = (rg, s') \<Longrightarrow>
      inv s' \<and> view s' = view s \<and> (\<forall>x. rg = Inr x \<longrightarrow> x = view s (k, l))"
    and delete_law: "inv s \<Longrightarrow> name_ok k \<Longrightarrow> sb_delete b k s = (r, s') \<Longrightarrow>
      inv s' \<and> (\<forall>k' l. k' \<noteq> k \<longrightarrow> view s' (k', l) = view s (k', l)) \<and> (is_ok r \<longrightarrow> (\<forall>l. view s' (k, l) = None))"
    and parallel_law: "inv s \<Longrightarrow> list_all name_ok ks \<Longrightarrow> name_ok l \<Longrightarrow> sb_get_parallel b ks l s = (rs, s') \<Longrightarrow>
      inv s' \<and> view s' = view s \<and> (\<forall>xs. rs = Inr xs \<longrightarrow> xs = map (\<lambda>k. view s (k, l)) ks)"

text \<open>Writes that raise may be required to change nothing, and a key with an entry to exist.\<close>

locale atomic_backend = storage_backend +
  assumes put_atomic: "inv s \<Longrightarrow> name_ok k \<Longrightarrow> name_ok l \<Longrightarrow> sb_put b k l d m s = (Inl e, s') \<Longrightarrow> view s' = view s"

locale keyed_backend = storage_backend +
  assumes exists_law: "inv s \<Longrightarrow> name_ok k \<Longrightarrow> sb_exists b k s = (r, s') \<Longrightarrow>
      inv s' \<and> view s' = view s \<and> (\<forall>x l. r = Inr x \<longrightarrow> view s (k, l) \<noteq> None \<longrightarrow> x)"

lemma get_parallel_default_law:
  fixes inv :: "'s \<Rightarrow> bool"
  assumes law: "\<And>s k r s'. inv s \<Longrightarrow> name_ok k \<Longrightarrow> get k l s = (r, s') \<Longrightarrow> inv s' \<and> view s' = view s \<and> (\<forall>x. r = Inr x \<longrightarrow> x = view s (k, l))"
    and "inv s" "list_all name_ok ks" "get_parallel_default get ks l s = (r, s')"
  shows "inv s' \<and> view s' = view s \<and> (\<forall>xs. r = Inr xs \<longrightarrow> xs = map (\<lambda>k. view s (k, l)) ks)"
  using assms(2-4)
proof (induction ks arbitrary: s r s')
  case (Cons k ks)
  obtain r1 s1 where g: "get k l s = (r1, s1)" by fastforce
  note one = law [OF Cons.prems(1) _ g]
  show ?case
  proof (cases r1)
    case (Inr x)
    obtain r2 s2 where p: "get_parallel_default get ks l s1 = (r2, s2)" by fastforce
    have "inv s1" "view s1 = view s" "x = view s (k, l)" using one Cons.prems(2) Inr by auto
    then show ?thesis using Cons.IH [OF _ _ p] Cons.prems g p Inr by (cases r2) auto
  qed (use one g Cons.prems in auto)
qed auto

abbreviation item_name :: "string \<times> string \<times> 'a \<Rightarrow> string \<times> string" where
  "item_name i \<equiv> (fst i, fst (snd i))"

context storage_backend
begin

lemma put_parallel_law:
  assumes "inv s" "\<forall>i \<in> set items. name_ok (fst i) \<and> name_ok (fst (snd i))" "distinct (map item_name items)"
    "put_parallel_default (sb_put b) items s = (r, s')"
  shows "inv s' \<and> (\<forall>i \<in> set items. is_ok r \<longrightarrow> view s' (item_name i) = Some (fst (snd (snd i))))
    \<and> (\<forall>x. x \<notin> item_name ` set items \<longrightarrow> view s' x = view s x)"
  using assms
proof (induction items arbitrary: s)
  case (Cons i items)
  obtain k l d m where i: "i = (k, l, d, m)" by (cases i) auto
  obtain r1 s1 where p: "sb_put b k l d m s = (r1, s1)" by fastforce
  have one: "inv s1" "\<And>x. x \<noteq> (k, l) \<Longrightarrow> view s1 x = view s x" "is_ok r1 \<longrightarrow> view s1 (k, l) = Some d"
    using put_law [OF Cons.prems(1) _ _ p] Cons.prems(2) i by (simp_all del: split_paired_All)
  show ?case
  proof (cases r1)
    case (Inr x)
    have run: "put_parallel_default (sb_put b) items s1 = (r, s')" using Cons.prems(4) i p Inr by simp
    have rest: "inv s'" "\<And>i. i \<in> set items \<Longrightarrow> is_ok r \<Longrightarrow> view s' (item_name i) = Some (fst (snd (snd i)))"
      "\<And>x. x \<notin> item_name ` set items \<Longrightarrow> view s' x = view s1 x"
      using Cons.IH [OF one(1) _ _ run] Cons.prems by (simp_all del: split_paired_All)
    have "(k, l) \<notin> item_name ` set items" using Cons.prems(3) by (simp add: i)
    then have "view s' (k, l) = Some d" using rest(3) one(3) Inr by simp
    then show ?thesis using rest one(2) by (auto simp: i)
  qed (use one p Cons.prems(4) i in auto)
qed simp

end

end
