(* ===== verification/Py_Backends.thy ===== *)
theory Py_Backends
  imports Py_Base "HOL-Library.Sublist"
begin

text \<open>
  The local backends of the Python side: \<open>storage/memory.py\<close>, \<open>storage/local.py\<close> (a directory per key and a
  file per layer) and \<open>storage/sharded.py\<close> (several local backends), each shown to satisfy the contracts
  of \<open>Py_Base\<close> it can satisfy.
\<close>

section \<open>The in-memory backend\<close>

record MemoryStorage =
  ms_store :: "(string \<times> (string \<times> bytes) list) list"
  ms_meta :: "(string \<times> PyBlockMeta) list"
  ms_max_capacity :: int
  ms_used_bytes :: int

definition memory_storage_init :: "int \<Rightarrow> MemoryStorage" where
  "memory_storage_init cap = \<lparr> ms_store = [], ms_meta = [], ms_max_capacity = cap, ms_used_bytes = 0 \<rparr>"

definition ms_layers :: "MemoryStorage \<Rightarrow> string \<Rightarrow> (string \<times> bytes) list" where
  "ms_layers s key = (case map_of (ms_store s) key of None \<Rightarrow> [] | Some layers \<Rightarrow> layers)"

definition ms_put :: "string \<Rightarrow> string \<Rightarrow> bytes \<Rightarrow> PyBlockMeta option \<Rightarrow> MemoryStorage \<Rightarrow> unit pres \<times> MemoryStorage" where
  "ms_put key layer data meta s =
     (let layers = ms_layers s key;
          old_size = value_size length (map_of layers layer)
      in (Inr (), s\<lparr> ms_store := AList.update key (AList.update layer data layers) (ms_store s),
           ms_used_bytes := ms_used_bytes s + (int (length data) - int old_size),
           ms_meta := (case meta of None \<Rightarrow> ms_meta s | Some m \<Rightarrow> AList.update key m (ms_meta s)) \<rparr>))"

definition ms_get :: "string \<Rightarrow> string \<Rightarrow> MemoryStorage \<Rightarrow> bytes option pres \<times> MemoryStorage" where
  "ms_get key layer s =
     (Inr (case map_of (ms_store s) key of None \<Rightarrow> None | Some layers \<Rightarrow> map_of layers layer), s)"

definition ms_exists :: "string \<Rightarrow> MemoryStorage \<Rightarrow> bool pres \<times> MemoryStorage" where
  "ms_exists key s = (Inr (map_of (ms_store s) key \<noteq> None), s)"

definition ms_delete :: "string \<Rightarrow> MemoryStorage \<Rightarrow> unit pres \<times> MemoryStorage" where
  "ms_delete key s =
     (let s1 = (case map_of (ms_store s) key of
                  None \<Rightarrow> s
                | Some layers \<Rightarrow>
                    s\<lparr> ms_used_bytes := foldl (\<lambda>used (_, data). used - int (length data)) (ms_used_bytes s) layers,
                       ms_store := AList.delete key (ms_store s) \<rparr>)
      in (Inr (), s1\<lparr> ms_meta := dict_pop key (ms_meta s1) \<rparr>))"

definition ms_get_meta :: "string \<Rightarrow> MemoryStorage \<Rightarrow> PyBlockMeta option pres \<times> MemoryStorage" where
  "ms_get_meta key s = (Inr (map_of (ms_meta s) key), s)"

definition ms_capacity_usage :: "MemoryStorage \<Rightarrow> (int \<times> int) pres \<times> MemoryStorage" where
  "ms_capacity_usage s = (Inr (ms_used_bytes s, ms_max_capacity s), s)"

definition ms_list_keys :: "MemoryStorage \<Rightarrow> string set pres \<times> MemoryStorage" where
  "ms_list_keys s = (Inr (fst ` set (ms_store s)), s)"

text \<open>A class that adds no method to the abstract one.\<close>

definition plain_backend ::
  "'s put_method \<Rightarrow> 's get_method \<Rightarrow> (string \<Rightarrow> 's \<Rightarrow> bool pres \<times> 's) \<Rightarrow> (string \<Rightarrow> 's \<Rightarrow> unit pres \<times> 's)
     \<Rightarrow> (string \<Rightarrow> 's \<Rightarrow> PyBlockMeta option pres \<times> 's) \<Rightarrow> ('s \<Rightarrow> (int \<times> int) pres \<times> 's) \<Rightarrow> ('s \<Rightarrow> string set pres \<times> 's)
     \<Rightarrow> 's StorageBackend" where
  "plain_backend put get ex del mt cap ks =
     \<lparr> sb_put = put, sb_get = get, sb_exists = ex, sb_delete = del, sb_get_meta = mt, sb_capacity_usage = cap, sb_list_keys = ks,
        sb_get_parallel = get_parallel_default get, sb_put_parallel = put_parallel_default put,
        sb_put_chunks = None, sb_get_chunks = None, sb_probe_layer_exists = None, sb_supports_zerocopy = None,
        sb_supports_rdma_put = None, sb_ensure_rdma_region = None, sb_get_chunks_into = None, sb_put_chunks_from = None \<rparr>"

definition memory_backend :: "MemoryStorage StorageBackend" where
  "memory_backend = plain_backend ms_put ms_get ms_exists ms_delete ms_get_meta ms_capacity_usage ms_list_keys"

definition ms_view :: "MemoryStorage \<Rightarrow> string \<times> string \<Rightarrow> bytes option" where
  "ms_view s = (\<lambda>(key, layer). map_of (ms_layers s key) layer)"

text \<open>The byte counter is exact, and no key is without layers.\<close>

definition ms_inv :: "MemoryStorage \<Rightarrow> bool" where
  "ms_inv s \<longleftrightarrow> is_dict (ms_store s) \<and> (\<forall>(key, layers) \<in> set (ms_store s). is_dict layers)
     \<and> ms_used_bytes s = int (dict_sum (dict_sum length) (ms_store s))"

lemma foldl_minus: "foldl (\<lambda>used (_, data). used - int (length data)) u d = u - int (dict_sum length d)"
  by (induction d arbitrary: u) auto

lemma ms_inv_layers: "ms_inv s \<Longrightarrow> is_dict (ms_layers s key)"
  by (auto simp: ms_inv_def ms_layers_def split: option.split dest: map_of_SomeD)

lemma ms_inv_put:
  assumes "ms_inv s" "ms_put key layer data meta s = (r, s')"
  shows "ms_inv s'"
proof -
  let ?d = "ms_layers s key"
  have d: "is_dict (ms_store s)" "is_dict ?d" using assms(1) ms_inv_layers by (auto simp: ms_inv_def)
  have "\<forall>(key, layers) \<in> set (AList.update key (AList.update layer data ?d) (ms_store s)). is_dict layers"
    using assms(1) d(2) set_dict_update [of key _ "ms_store s"] by (fastforce simp: ms_inv_def)
  moreover have "value_size (dict_sum length) (map_of (ms_store s) key) = dict_sum length ?d"
    by (simp add: ms_layers_def value_size_def split: option.split)
  ultimately show ?thesis
    using assms dict_sum_update [OF d(1), of "dict_sum length" key "AList.update layer data ?d"] dict_sum_update [OF d(2), of length layer data] d(1)
    by (auto simp: ms_inv_def ms_put_def Let_def)
qed

lemma ms_inv_delete:
  assumes "ms_inv s" "ms_delete key s = (r, s')"
  shows "ms_inv s'"
proof (cases "map_of (ms_store s) key")
  case None
  then show ?thesis using assms by (auto simp: ms_delete_def ms_inv_def)
next
  case (Some layers)
  have d: "is_dict (ms_store s)" using assms(1) by (simp add: ms_inv_def)
  have "set (AList.delete key (ms_store s)) \<subseteq> set (ms_store s)" by (rule set_dict_delete)
  then show ?thesis
    using assms Some dict_sum_delete [OF d, of "dict_sum length" key] d
    by (auto simp: ms_delete_def ms_inv_def foldl_minus Let_def)
qed

lemma ms_delete_view: "ms_delete key s = (r, s') \<Longrightarrow> ms_view s' = (\<lambda>(k, l). if k = key then None else ms_view s (k, l)) \<and> r = Inr ()"
  by (auto simp: ms_delete_def ms_view_def ms_layers_def Let_def fun_eq_iff split: option.splits)

lemma ms_put_view: "ms_put key layer data meta s = (r, s') \<Longrightarrow> ms_view s' = (ms_view s)((key, layer) \<mapsto> data) \<and> r = Inr ()"
  by (auto simp: ms_put_def ms_view_def ms_layers_def Let_def fun_eq_iff)

lemma ms_get_view: "ms_get key layer s = (Inr (ms_view s (key, layer)), s)"
  by (auto simp: ms_get_def ms_view_def ms_layers_def split: option.split)

lemma memory_backend_sel [simp]:
  "sb_put memory_backend = ms_put" "sb_get memory_backend = ms_get" "sb_delete memory_backend = ms_delete" "sb_exists memory_backend = ms_exists"
  "sb_get_parallel memory_backend = get_parallel_default ms_get"
  by (simp_all add: memory_backend_def plain_backend_def)

interpretation mem: storage_backend memory_backend ms_view ms_inv "\<lambda>_. True"
proof
  fix s ks l rs s' assume "ms_inv s" "sb_get_parallel memory_backend ks l s = (rs, s')"
  then show "ms_inv s' \<and> ms_view s' = ms_view s \<and> (\<forall>xs. rs = Inr xs \<longrightarrow> xs = map (\<lambda>k. ms_view s (k, l)) ks)"
    by (intro get_parallel_default_law [where name_ok = "\<lambda>_. True" and get = ms_get]) (auto simp: ms_get_view list_all_iff)
next
  fix s k l d m r s' assume a: "ms_inv s" "sb_put memory_backend k l d m s = (r, s')"
  then show "ms_inv s' \<and> (\<forall>x. x \<noteq> (k, l) \<longrightarrow> ms_view s' x = ms_view s x) \<and> (is_ok r \<longrightarrow> ms_view s' (k, l) = Some d)"
    using ms_inv_put [of s k l d m r s'] ms_put_view [of k l d m s r s'] by (simp del: split_paired_All)
next
  fix s k r s' assume a: "ms_inv s" "sb_delete memory_backend k s = (r, s')"
  then show "ms_inv s' \<and> (\<forall>k' l. k' \<noteq> k \<longrightarrow> ms_view s' (k', l) = ms_view s (k', l)) \<and> (is_ok r \<longrightarrow> (\<forall>l. ms_view s' (k, l) = None))"
    using ms_inv_delete [of s k r s'] ms_delete_view [of k s r s'] by simp
qed (auto simp: ms_get_view)

interpretation mem: atomic_backend memory_backend ms_view ms_inv "\<lambda>_. True"
  by unfold_locales (use ms_put_view in fastforce)

interpretation mem: keyed_backend memory_backend ms_view ms_inv "\<lambda>_. True"
  by unfold_locales (auto simp: ms_exists_def ms_view_def ms_layers_def split: option.splits)


section \<open>The local file system backend\<close>

text \<open>
  A path is the list of its parts, with a first part \<open>/\<close> when it is absolute, as \<open>pathlib\<close> has it: empty
  parts and \<open>.\<close> vanish, and joining with an absolute path replaces the left side.  The script of a file
  system says which calls fail; a write may fail after some of its bytes, for \<open>write_bytes\<close> truncates the
  file first.
\<close>

definition pl_parse :: "string \<Rightarrow> string list" where
  "pl_parse s = (if s \<noteq> [] \<and> hd s = slash then [[slash]] else []) @ filter (\<lambda>p. p \<noteq> [] \<and> p \<noteq> ''.'') (split_on slash s)"

definition pl_div :: "string list \<Rightarrow> string \<Rightarrow> string list" where
  "pl_div p s = (if s \<noteq> [] \<and> hd s = slash then pl_parse s else p @ pl_parse s)"

datatype fs_event = FsOk | FsFail string | FsShort nat string

record LocalFs =
  lf_files :: "(string list \<times> bytes) list"
  lf_dirs :: "string list list"
  lf_script :: "fs_event list"

definition fs_next :: "LocalFs \<Rightarrow> fs_event \<times> LocalFs" where
  "fs_next fs = (case lf_script fs of [] \<Rightarrow> (FsOk, fs) | e # es \<Rightarrow> (e, fs\<lparr> lf_script := es \<rparr>))"

definition fs_is_file :: "string list \<Rightarrow> LocalFs \<Rightarrow> bool" where
  "fs_is_file p fs \<longleftrightarrow> map_of (lf_files fs) p \<noteq> None"

definition fs_mkdir :: "string list \<Rightarrow> LocalFs \<Rightarrow> unit pres \<times> LocalFs" where
  "fs_mkdir p fs =
     (case fs_next fs of
        (FsOk, fs1) \<Rightarrow>
          if list_ex (\<lambda>q. fs_is_file q fs1) (prefixes p) then (Inl (OSError ''file exists''), fs1)
          else (Inr (), fs1\<lparr> lf_dirs := filter (\<lambda>q. q \<notin> set (lf_dirs fs1)) (prefixes p) @ lf_dirs fs1 \<rparr>)
      | (FsFail e, fs1) \<Rightarrow> (Inl (OSError e), fs1)
      | (FsShort _ e, fs1) \<Rightarrow> (Inl (OSError e), fs1))"

definition fs_write :: "string list \<Rightarrow> bytes \<Rightarrow> LocalFs \<Rightarrow> unit pres \<times> LocalFs" where
  "fs_write p data fs =
     (case fs_next fs of
        (FsFail e, fs1) \<Rightarrow> (Inl (OSError e), fs1)
      | (ev, fs1) \<Rightarrow>
          if p \<in> set (lf_dirs fs1) then (Inl (OSError ''is a directory''), fs1)
          else if butlast p \<notin> set (lf_dirs fs1) then (Inl (OSError ''no such file or directory''), fs1)
          else (case ev of
                  FsShort n e \<Rightarrow> (Inl (OSError e), fs1\<lparr> lf_files := AList.update p (take n data) (lf_files fs1) \<rparr>)
                | _ \<Rightarrow> (Inr (), fs1\<lparr> lf_files := AList.update p data (lf_files fs1) \<rparr>)))"

definition fs_read :: "string list \<Rightarrow> LocalFs \<Rightarrow> bytes pres \<times> LocalFs" where
  "fs_read p fs =
     (case fs_next fs of
        (FsOk, fs1) \<Rightarrow> (case map_of (lf_files fs1) p of Some data \<Rightarrow> (Inr data, fs1) | None \<Rightarrow> (Inl (OSError ''is a directory''), fs1))
      | (FsFail e, fs1) \<Rightarrow> (Inl (OSError e), fs1)
      | (FsShort _ e, fs1) \<Rightarrow> (Inl (OSError e), fs1))"

definition fs_exists :: "string list \<Rightarrow> LocalFs \<Rightarrow> bool" where
  "fs_exists p fs \<longleftrightarrow> p \<in> set (lf_dirs fs) \<or> fs_is_file p fs"

text \<open>\<open>shutil.rmtree\<close>: it may stop after some of the files.\<close>

definition fs_rmtree :: "string list \<Rightarrow> LocalFs \<Rightarrow> unit pres \<times> LocalFs" where
  "fs_rmtree p fs =
     (case fs_next fs of
        (FsFail e, fs1) \<Rightarrow> (Inl (OSError e), fs1)
      | (FsShort n e, fs1) \<Rightarrow>
          let gone = take n (filter (prefix p) (map fst (lf_files fs1)))
          in (Inl (OSError e), fs1\<lparr> lf_files := filter (\<lambda>(q, _). q \<notin> set gone) (lf_files fs1) \<rparr>)
      | (FsOk, fs1) \<Rightarrow>
          if fs_is_file p fs1 then (Inl (OSError ''not a directory''), fs1)
          else (Inr (), fs1\<lparr> lf_files := filter (\<lambda>(q, _). \<not> prefix p q) (lf_files fs1),
                            lf_dirs := filter (\<lambda>q. \<not> prefix p q) (lf_dirs fs1) \<rparr>))"

record LocalEnv =
  le_root :: "string list"
  le_max_capacity :: int
  le_dumps :: "PyBlockMeta \<Rightarrow> bytes"
  le_loads :: "bytes \<Rightarrow> PyBlockMeta pres"

definition local_init :: "string \<Rightarrow> LocalFs \<Rightarrow> unit pres \<times> LocalFs" where
  "local_init storage_path fs = fs_mkdir (pl_parse storage_path) fs"

definition local_put :: "LocalEnv \<Rightarrow> string \<Rightarrow> string \<Rightarrow> bytes \<Rightarrow> PyBlockMeta option \<Rightarrow> LocalFs \<Rightarrow> unit pres \<times> LocalFs" where
  "local_put le key layer data meta fs =
     (let block_dir = pl_div (le_root le) key in
      pstep (fs_mkdir block_dir fs) (\<lambda>_ fs1.
      pstep (fs_write (pl_div block_dir (layer @ ''.bin'')) data fs1) (\<lambda>_ fs2.
        case meta of None \<Rightarrow> (Inr (), fs2) | Some m \<Rightarrow> fs_write (pl_div block_dir ''meta.json'') (le_dumps le m) fs2)))"

definition local_get :: "LocalEnv \<Rightarrow> string \<Rightarrow> string \<Rightarrow> LocalFs \<Rightarrow> bytes option pres \<times> LocalFs" where
  "local_get le key layer fs =
     (let p = pl_div (pl_div (le_root le) key) (layer @ ''.bin'') in
      if \<not> fs_exists p fs then (Inr None, fs) else pstep (fs_read p fs) (\<lambda>data fs1. (Inr (Some data), fs1)))"

definition local_exists :: "LocalEnv \<Rightarrow> string \<Rightarrow> LocalFs \<Rightarrow> bool pres \<times> LocalFs" where
  "local_exists le key fs = (Inr (pl_div (le_root le) key \<in> set (lf_dirs fs)), fs)"

definition local_delete :: "LocalEnv \<Rightarrow> string \<Rightarrow> LocalFs \<Rightarrow> unit pres \<times> LocalFs" where
  "local_delete le key fs =
     (let block_dir = pl_div (le_root le) key in if fs_exists block_dir fs then fs_rmtree block_dir fs else (Inr (), fs))"

definition local_get_meta :: "LocalEnv \<Rightarrow> string \<Rightarrow> LocalFs \<Rightarrow> PyBlockMeta option pres \<times> LocalFs" where
  "local_get_meta le key fs =
     (let p = pl_div (pl_div (le_root le) key) ''meta.json'' in
      if \<not> fs_exists p fs then (Inr None, fs)
      else pstep (fs_read p fs) (\<lambda>text fs1. case le_loads le text of Inl e \<Rightarrow> (Inl e, fs1) | Inr m \<Rightarrow> (Inr (Some m), fs1)))"

definition local_capacity_usage :: "LocalEnv \<Rightarrow> LocalFs \<Rightarrow> (int \<times> int) pres \<times> LocalFs" where
  "local_capacity_usage le fs =
     (Inr (int (dict_sum length (filter (\<lambda>(p, _). strict_prefix (le_root le) p) (lf_files fs))), le_max_capacity le), fs)"

definition local_list_keys :: "LocalEnv \<Rightarrow> LocalFs \<Rightarrow> string set pres \<times> LocalFs" where
  "local_list_keys le fs =
     (Inr (if fs_exists (le_root le) fs then last ` {p \<in> set (lf_dirs fs). p \<noteq> [] \<and> butlast p = le_root le} else {}), fs)"

definition local_backend :: "LocalEnv \<Rightarrow> LocalFs StorageBackend" where
  "local_backend le = plain_backend (local_put le) (local_get le) (local_exists le) (local_delete le) (local_get_meta le)
     (local_capacity_usage le) (local_list_keys le)"


text \<open>Names with a file of their own: the digests and layer names the library uses.\<close>

definition plain_name :: "string \<Rightarrow> bool" where
  "plain_name s \<longleftrightarrow> s \<noteq> [] \<and> s \<noteq> ''.'' \<and> s \<noteq> ''..'' \<and> slash \<notin> set s"

definition local_view :: "LocalEnv \<Rightarrow> LocalFs \<Rightarrow> string \<times> string \<Rightarrow> bytes option" where
  "local_view le fs = (\<lambda>(key, layer).
     if plain_name key \<and> plain_name layer then map_of (lf_files fs) (le_root le @ [key, layer @ ''.bin'']) else None)"

definition fs_inv :: "LocalFs \<Rightarrow> bool" where
  "fs_inv fs \<longleftrightarrow> is_dict (lf_files fs) \<and> (\<forall>p d. (p, d) \<in> set (lf_files fs) \<longrightarrow> p \<notin> set (lf_dirs fs) \<and> butlast p \<in> set (lf_dirs fs))"

lemma plain_div [simp]:
  "plain_name s \<Longrightarrow> pl_div p s = p @ [s]"
  "plain_name s \<Longrightarrow> pl_div p (s @ ''.bin'') = p @ [s @ ''.bin'']"
  "pl_div p ''meta.json'' = p @ [''meta.json'']"
  by (auto simp: plain_name_def pl_div_def pl_parse_def hd_append dest: hd_in_set)

lemma fs_next_same: "fs_next fs = (e, fs1) \<Longrightarrow> lf_files fs1 = lf_files fs \<and> lf_dirs fs1 = lf_dirs fs"
  by (auto simp: fs_next_def split: list.splits)

lemma fs_is_file_iff: "fs_is_file p fs \<longleftrightarrow> p \<in> fst ` set (lf_files fs)"
  by (simp add: fs_is_file_def map_of_eq_None_iff)

lemma fs_mkdir_spec:
  assumes "fs_mkdir p fs = (r, fs')" "fs_inv fs"
  shows "fs_inv fs' \<and> lf_files fs' = lf_files fs"
  using assms
  by (auto simp: fs_mkdir_def fs_inv_def fs_is_file_iff list_ex_iff split: prod.splits fs_event.splits if_splits dest!: fs_next_same)
    (force+)

lemma fs_write_spec:
  assumes "fs_write p data fs = (r, fs')" "fs_inv fs"
  shows "fs_inv fs' \<and> (\<forall>q. q \<noteq> p \<longrightarrow> map_of (lf_files fs') q = map_of (lf_files fs) q)
    \<and> (is_ok r \<longrightarrow> map_of (lf_files fs') p = Some data)"
proof -
  have upd: "fs_inv (fs1\<lparr> lf_files := AList.update p d (lf_files fs1) \<rparr>)"
    if "lf_files fs1 = lf_files fs" "lf_dirs fs1 = lf_dirs fs" "p \<notin> set (lf_dirs fs)" "butlast p \<in> set (lf_dirs fs)" for fs1 d
    using that assms(2) by (auto simp: fs_inv_def dest!: set_dict_update [THEN subsetD])
  have id: "fs_inv fs1" if "lf_files fs1 = lf_files fs" "lf_dirs fs1 = lf_dirs fs" for fs1 using that assms(2) by (simp add: fs_inv_def)
  show ?thesis
    using assms(1) upd id
    by (auto simp: fs_write_def split: prod.splits fs_event.splits if_splits dest!: fs_next_same)
qed

lemma fs_read_spec:
  assumes "fs_read p fs = (r, fs')" "fs_inv fs"
  shows "fs_inv fs' \<and> lf_files fs' = lf_files fs \<and> (\<forall>d. r = Inr d \<longrightarrow> map_of (lf_files fs) p = Some d)"
  using assms
  by (auto simp: fs_read_def fs_inv_def split: prod.splits fs_event.splits option.splits dest!: fs_next_same) (blast+)

lemma map_of_filter_keys: "map_of (filter (\<lambda>(q, _). P q) d) q = (if P q then map_of d q else None)"
  by (induction d) auto

lemma is_dict_filter: "is_dict d \<Longrightarrow> is_dict (filter P d)"
  by (induction d) auto

lemma prefix_butlast: "prefix p (butlast q) \<Longrightarrow> prefix p q"
  by (metis append_butlast_last_id butlast.simps(1) prefix_append prefix_order.trans prefixI)

lemma fs_rmtree_spec:
  assumes "fs_rmtree p fs = (r, fs')" "fs_inv fs"
  shows "fs_inv fs' \<and> (\<forall>q. \<not> prefix p q \<longrightarrow> map_of (lf_files fs') q = map_of (lf_files fs) q)
    \<and> (is_ok r \<longrightarrow> (\<forall>q. prefix p q \<longrightarrow> map_of (lf_files fs') q = None))"
proof -
  obtain ev fs1 where n: "fs_next fs = (ev, fs1)" by fastforce
  have same: "lf_files fs1 = lf_files fs" "lf_dirs fs1 = lf_dirs fs" using fs_next_same [OF n] by simp_all
  have inv: "fs_inv fs1" "is_dict (lf_files fs)" using assms(2) same by (simp_all add: fs_inv_def)
  show ?thesis
  proof (cases ev)
    case FsOk
    then show ?thesis
      using assms n same inv prefix_butlast
      by (auto simp: fs_rmtree_def fs_inv_def map_of_filter_keys is_dict_filter split: if_splits) (blast+)
  next
    case (FsFail e)
    then show ?thesis using assms(1) n same inv by (auto simp: fs_rmtree_def)
  next
    case (FsShort k e)
    then have fs': "r = Inl (OSError e)" "lf_dirs fs' = lf_dirs fs"
      "lf_files fs' = filter (\<lambda>(q, _). q \<notin> set (take k (filter (prefix p) (map fst (lf_files fs))))) (lf_files fs)"
      using assms(1) n same by (auto simp: fs_rmtree_def Let_def)
    have "fs_inv fs'" using assms(2) fs' by (auto simp: fs_inv_def is_dict_filter)
    moreover have "q \<notin> set (take k (filter (prefix p) (map fst (lf_files fs))))" if "\<not> prefix p q" for q
      using that by (auto dest: in_set_takeD)
    ultimately show ?thesis using fs' by (simp add: map_of_filter_keys)
  qed
qed

lemma local_put_spec:
  assumes "local_put le k l d m fs = (r, fs')" "fs_inv fs" "plain_name k" "plain_name l"
  shows "fs_inv fs' \<and> (\<forall>x. x \<noteq> (k, l) \<longrightarrow> local_view le fs' x = local_view le fs x) \<and> (is_ok r \<longrightarrow> local_view le fs' (k, l) = Some d)"
proof -
  let ?p = "le_root le @ [k, l @ ''.bin'']" and ?q = "le_root le @ [k, ''meta.json'']"
  have ne: "x @ ''.bin'' \<noteq> ''meta.json''" for x
    using arg_cong [of "x @ ''.bin''" "''meta.json''" last] by auto
  have apart: "local_view le s' x = local_view le s x"
    if "x \<noteq> (k, l)" "\<forall>q. q \<noteq> ?p \<and> q \<noteq> ?q \<longrightarrow> map_of (lf_files s') q = map_of (lf_files s) q" for x s s'
    using that ne by (cases x) (auto simp: local_view_def)
  obtain r1 fs1 where m: "fs_mkdir (pl_div (le_root le) k) fs = (r1, fs1)" by fastforce
  note mk = fs_mkdir_spec [OF m assms(2)]
  show ?thesis
  proof (cases r1)
    case (Inl e)
    then show ?thesis using assms(1) m mk by (auto simp: local_put_def Let_def local_view_def)
  next
    case (Inr u)
    obtain r2 fs2 where w: "fs_write ?p d fs1 = (r2, fs2)" by fastforce
    have wr: "fs_inv fs2" "\<forall>q. q \<noteq> ?p \<longrightarrow> map_of (lf_files fs2) q = map_of (lf_files fs) q" "is_ok r2 \<longrightarrow> map_of (lf_files fs2) ?p = Some d"
      using fs_write_spec [OF w] mk by simp_all
    show ?thesis
    proof (cases "is_ok r2 \<and> m \<noteq> None")
      case True
      then obtain mt where mt: "m = Some mt" "fs_write ?q (le_dumps le mt) fs2 = (r, fs')"
        using assms m w Inr by (cases r2) (auto simp: local_put_def Let_def)
      note fin = fs_write_spec [OF mt(2) wr(1)]
      have "map_of (lf_files fs') ?p = Some d" using fin wr(3) True ne by simp
      then have "local_view le fs' (k, l) = Some d" using assms(3,4) by (simp add: local_view_def)
      moreover have "local_view le fs' x = local_view le fs x" if "x \<noteq> (k, l)" for x
        by (rule apart [OF that]) (use fin wr(2) in simp)
      ultimately show ?thesis using fin by blast
    next
      case False
      then have "r = r2" "fs' = fs2" using assms m w Inr by (cases r2; auto simp: local_put_def Let_def)+
      then show ?thesis using wr apart [of _ fs2 fs] assms(3,4) by (simp add: local_view_def del: split_paired_All)
    qed
  qed
qed

lemma local_get_spec:
  assumes "local_get le k l fs = (r, fs')" "fs_inv fs" "plain_name k" "plain_name l"
  shows "fs_inv fs' \<and> local_view le fs' = local_view le fs \<and> (\<forall>x. r = Inr x \<longrightarrow> x = local_view le fs (k, l))"
proof (cases "fs_exists (le_root le @ [k, l @ ''.bin'']) fs")
  case True
  obtain r1 fs1 where rd: "fs_read (le_root le @ [k, l @ ''.bin'']) fs = (r1, fs1)" by fastforce
  then show ?thesis
    using assms True fs_read_spec [OF rd assms(2)] by (cases r1) (auto simp: local_get_def local_view_def Let_def)
next
  case False
  then show ?thesis using assms by (auto simp: local_get_def local_view_def fs_exists_def fs_is_file_def)
qed

lemma local_delete_spec:
  assumes "local_delete le k fs = (r, fs')" "fs_inv fs" "plain_name k"
  shows "fs_inv fs' \<and> (\<forall>k' l. k' \<noteq> k \<longrightarrow> local_view le fs' (k', l) = local_view le fs (k', l)) \<and> (is_ok r \<longrightarrow> (\<forall>l. local_view le fs' (k, l) = None))"
proof (cases "fs_exists (le_root le @ [k]) fs")
  case True
  then have "fs_rmtree (le_root le @ [k]) fs = (r, fs')" using assms by (simp add: local_delete_def Let_def)
  from fs_rmtree_spec [OF this assms(2)] show ?thesis by (auto simp: local_view_def)
next
  case False
  have "map_of (lf_files fs) (le_root le @ [k, l @ ''.bin'']) = None" for l
  proof (rule ccontr)
    assume "map_of (lf_files fs) (le_root le @ [k, l @ ''.bin'']) \<noteq> None"
    then have "le_root le @ [k] \<in> set (lf_dirs fs)"
      using assms(2) by (force simp: fs_inv_def map_of_eq_None_iff butlast_append)
    then show False using False by (simp add: fs_exists_def)
  qed
  then show ?thesis using assms False by (simp add: local_delete_def Let_def local_view_def)
qed

lemma local_backend_sel [simp]:
  "sb_put (local_backend le) = local_put le" "sb_get (local_backend le) = local_get le" "sb_delete (local_backend le) = local_delete le"
  "sb_exists (local_backend le) = local_exists le" "sb_get_parallel (local_backend le) = get_parallel_default (local_get le)"
  by (simp_all add: local_backend_def plain_backend_def)

interpretation local: storage_backend "local_backend le" "local_view le" fs_inv plain_name for le
proof
  fix s ks l rs s' assume "fs_inv s" "list_all plain_name ks" "plain_name l" "sb_get_parallel (local_backend le) ks l s = (rs, s')"
  then show "fs_inv s' \<and> local_view le s' = local_view le s \<and> (\<forall>xs. rs = Inr xs \<longrightarrow> xs = map (\<lambda>k. local_view le s (k, l)) ks)"
    by (intro get_parallel_default_law [where get = "local_get le", OF local_get_spec]) auto
qed (simp_all only: local_backend_sel, rule local_put_spec, assumption+, rule local_get_spec, assumption+, rule local_delete_spec)

interpretation local: keyed_backend "local_backend le" "local_view le" fs_inv plain_name for le
proof
  fix s k r s' assume a: "fs_inv s" "plain_name k" "sb_exists (local_backend le) k s = (r, s')"
  have "le_root le @ [k] \<in> set (lf_dirs s)" if "local_view le s (k, l) \<noteq> None" for l
    using a(1) that by (force simp: fs_inv_def map_of_eq_None_iff butlast_append local_view_def split: if_splits)
  then show "fs_inv s' \<and> local_view le s' = local_view le s \<and> (\<forall>x l. r = Inr x \<longrightarrow> local_view le s (k, l) \<noteq> None \<longrightarrow> x)"
    using a by (auto simp: local_exists_def)
qed

end
