(* ===== verification/Py_Sharded.thy ===== *)
theory Py_Sharded
  imports Py_Backends
begin

text \<open>
  \<open>storage/sharded.py\<close>: keys spread over several local backends by the MD5 of the key, or of the layer
  name under the \<open>layer\<close> policy.  MD5 is a parameter.  Jobs of the thread pool run in the order in which
  they are submitted.
\<close>

record ShardedEnv =
  sh_shards :: "LocalEnv list"
  sh_stripe_policy :: string
  sh_md5 :: "bytes \<Rightarrow> nat"

definition sharded_new ::
  "(PyBlockMeta \<Rightarrow> bytes) \<Rightarrow> (bytes \<Rightarrow> PyBlockMeta pres) \<Rightarrow> (bytes \<Rightarrow> nat) \<Rightarrow> string list \<Rightarrow> int \<Rightarrow> string \<Rightarrow> LocalFs
     \<Rightarrow> ShardedEnv pres \<times> LocalFs" where
  "sharded_new dumps loads md5 device_paths cap policy fs =
     (if device_paths = [] then (Inl (ValueError ''device_paths must contain at least one path''), fs)
      else pstep (foldl (\<lambda>p path. pstep p (\<lambda>_ fs1. local_init path fs1)) (Inr (), fs) device_paths) (\<lambda>_ fs1.
        (Inr \<lparr> sh_shards = map (\<lambda>path. \<lparr> le_root = pl_parse path, le_max_capacity = cap, le_dumps = dumps, le_loads = loads \<rparr>) device_paths,
               sh_stripe_policy = policy, sh_md5 = md5 \<rparr>, fs1)))"

definition num_shards :: "ShardedEnv \<Rightarrow> nat" where
  "num_shards sh = length (sh_shards sh)"

definition shard_for_key :: "ShardedEnv \<Rightarrow> string \<Rightarrow> string \<Rightarrow> nat" where
  "shard_for_key sh key layer =
     (if sh_stripe_policy sh = ''layer'' \<and> layer \<noteq> [] then sh_md5 sh (as_bytes layer) mod num_shards sh
      else sh_md5 sh (as_bytes key) mod num_shards sh)"

definition shard_of :: "ShardedEnv \<Rightarrow> string \<Rightarrow> string \<Rightarrow> LocalEnv" where
  "shard_of sh key layer = sh_shards sh ! shard_for_key sh key layer"

definition sharded_put :: "ShardedEnv \<Rightarrow> LocalFs put_method" where
  "sharded_put sh key layer data meta fs = local_put (shard_of sh key layer) key layer data meta fs"

definition sharded_get :: "ShardedEnv \<Rightarrow> LocalFs get_method" where
  "sharded_get sh key layer fs = local_get (shard_of sh key layer) key layer fs"

text \<open>Every submitted job runs; then the results are taken, and the first exception among them is raised.\<close>

fun run_jobs :: "('s \<Rightarrow> 'a pres \<times> 's) list \<Rightarrow> 's \<Rightarrow> 'a pres list \<times> 's" where
  "run_jobs [] s = ([], s)"
| "run_jobs (job # jobs) s = (case job s of (r, s1) \<Rightarrow> case run_jobs jobs s1 of (rs, s2) \<Rightarrow> (r # rs, s2))"

definition sharded_put_parallel ::
  "ShardedEnv \<Rightarrow> (string \<times> string \<times> bytes \<times> PyBlockMeta option) list \<Rightarrow> LocalFs \<Rightarrow> unit pres \<times> LocalFs" where
  "sharded_put_parallel sh items fs =
     (case run_jobs (map (\<lambda>(key, layer, data, meta). sharded_put sh key layer data meta) items) fs of
        (rs, fs1) \<Rightarrow> (res_bind (map_res id rs) (\<lambda>_. Inr ()), fs1))"

definition sharded_get_parallel :: "ShardedEnv \<Rightarrow> string list \<Rightarrow> string \<Rightarrow> LocalFs \<Rightarrow> bytes option list pres \<times> LocalFs" where
  "sharded_get_parallel sh keys layer fs =
     (if keys = [] then (Inr [], fs)
      else case run_jobs (map (\<lambda>key. sharded_get sh key layer) keys) fs of (rs, fs1) \<Rightarrow> (map_res id rs, fs1))"

definition sharded_exists :: "ShardedEnv \<Rightarrow> string \<Rightarrow> LocalFs \<Rightarrow> bool pres \<times> LocalFs" where
  "sharded_exists sh key fs = local_exists (shard_of sh key []) key fs"

fun delete_on_shards :: "LocalEnv list \<Rightarrow> string \<Rightarrow> LocalFs \<Rightarrow> unit pres \<times> LocalFs" where
  "delete_on_shards [] key fs = (Inr (), fs)"
| "delete_on_shards (le # les) key fs = pstep (local_delete le key fs) (\<lambda>_ fs1. delete_on_shards les key fs1)"

definition sharded_delete :: "ShardedEnv \<Rightarrow> string \<Rightarrow> LocalFs \<Rightarrow> unit pres \<times> LocalFs" where
  "sharded_delete sh key fs = delete_on_shards (sh_shards sh) key fs"

definition sharded_get_meta :: "ShardedEnv \<Rightarrow> string \<Rightarrow> LocalFs \<Rightarrow> PyBlockMeta option pres \<times> LocalFs" where
  "sharded_get_meta sh key fs = local_get_meta (shard_of sh key []) key fs"

definition sharded_capacity_usage :: "ShardedEnv \<Rightarrow> LocalFs \<Rightarrow> (int \<times> int) pres \<times> LocalFs" where
  "sharded_capacity_usage sh fs =
     foldl (\<lambda>p le. pstep p (\<lambda>(used, cap) fs1. pstep (local_capacity_usage le fs1) (\<lambda>(u, c) fs2. (Inr (used + u, cap + c), fs2))))
       (Inr (0, 0), fs) (sh_shards sh)"

definition sharded_list_keys :: "ShardedEnv \<Rightarrow> LocalFs \<Rightarrow> string set pres \<times> LocalFs" where
  "sharded_list_keys sh fs =
     foldl (\<lambda>p le. pstep p (\<lambda>all fs1. pstep (local_list_keys le fs1) (\<lambda>ks fs2. (Inr (all \<union> ks), fs2)))) (Inr {}, fs) (sh_shards sh)"

definition sharded_backend :: "ShardedEnv \<Rightarrow> LocalFs StorageBackend" where
  "sharded_backend sh = (plain_backend (sharded_put sh) (sharded_get sh) (sharded_exists sh) (sharded_delete sh) (sharded_get_meta sh)
     (sharded_capacity_usage sh) (sharded_list_keys sh))
     \<lparr> sb_get_parallel := sharded_get_parallel sh, sb_put_parallel := sharded_put_parallel sh \<rparr>"

section \<open>The contract\<close>

definition sharded_view :: "ShardedEnv \<Rightarrow> LocalFs \<Rightarrow> string \<times> string \<Rightarrow> bytes option" where
  "sharded_view sh fs = (\<lambda>(key, layer). local_view (shard_of sh key layer) fs (key, layer))"

text \<open>The devices are different directories, none inside another.\<close>

definition sharded_ok :: "ShardedEnv \<Rightarrow> bool" where
  "sharded_ok sh \<longleftrightarrow> sh_shards sh \<noteq> []
     \<and> (\<forall>a \<in> set (sh_shards sh). \<forall>b \<in> set (sh_shards sh). prefix (le_root a) (le_root b) \<longrightarrow> le_root a = le_root b)"

lemma shard_of_in: "sharded_ok sh \<Longrightarrow> shard_of sh k l \<in> set (sh_shards sh)"
  by (auto simp: shard_of_def shard_for_key_def num_shards_def sharded_ok_def)

lemma shard_apart:
  assumes "sharded_ok sh" "a \<in> set (sh_shards sh)" "b \<in> set (sh_shards sh)" "prefix (le_root a @ [k]) (le_root b @ [k', x])"
  shows "k = k' \<and> le_root a = le_root b"
proof -
  have "prefix (le_root a) (le_root b @ [k', x])" using assms(4) by (metis prefix_def append.assoc)
  then have "prefix (le_root a) (le_root b) \<or> prefix (le_root b) (le_root a)"
    using prefix_same_cases [of "le_root a" "le_root b @ [k', x]" "le_root b"] by auto
  then have "le_root a = le_root b" using assms(1-3) unfolding sharded_ok_def by metis
  then show ?thesis using assms(4) by simp
qed

lemma local_write_elsewhere:
  assumes "local_put a k l d m fs = (r, fs')" "fs_inv fs" "plain_name k" "plain_name l" "\<not> prefix (le_root a @ [k]) q"
  shows "map_of (lf_files fs') q = map_of (lf_files fs) q"
proof -
  have p: "q \<noteq> le_root a @ [k, x]" for x using assms(5) by auto
  obtain r1 fs1 where m: "fs_mkdir (pl_div (le_root a) k) fs = (r1, fs1)" by fastforce
  note mk = fs_mkdir_spec [OF m assms(2)]
  obtain r2 fs2 where w: "fs_write (le_root a @ [k, l @ ''.bin'']) d fs1 = (r2, fs2)" by fastforce
  note wr = fs_write_spec [OF w]
  have "map_of (lf_files fs3) q = map_of (lf_files fs2) q" if "fs_write (le_root a @ [k, ''meta.json'']) t fs2 = (r3, fs3)" for t r3 fs3
    using fs_write_spec [OF that] wr mk p by simp
  then show ?thesis
    using assms(1,3,4) m w mk wr p
    by (cases r1; cases r2; cases m) (auto simp: local_put_def Let_def split: option.splits)
qed

lemma local_delete_files:
  assumes "local_delete a k fs = (r, fs')" "fs_inv fs" "plain_name k"
  shows "fs_inv fs' \<and> (\<forall>q. \<not> prefix (le_root a @ [k]) q \<longrightarrow> map_of (lf_files fs') q = map_of (lf_files fs) q)
    \<and> (is_ok r \<longrightarrow> (\<forall>x. map_of (lf_files fs') (le_root a @ [k, x]) = None)) \<and> (\<forall>q. map_of (lf_files fs) q = None \<longrightarrow> map_of (lf_files fs') q = None)"
proof (cases "fs_exists (le_root a @ [k]) fs")
  case True
  then have run: "fs_rmtree (le_root a @ [k]) fs = (r, fs')" using assms by (simp add: local_delete_def Let_def)
  have "map_of (lf_files fs') q = None" if "map_of (lf_files fs) q = None" for q
    using run that
    by (auto simp: fs_rmtree_def Let_def map_of_filter_keys split: prod.splits fs_event.splits if_splits dest!: fs_next_same)
  then show ?thesis using fs_rmtree_spec [OF run assms(2)] by simp
next
  case False
  have "map_of (lf_files fs) (le_root a @ [k, x]) = None" for x
  proof (rule ccontr)
    assume "map_of (lf_files fs) (le_root a @ [k, x]) \<noteq> None"
    then have "le_root a @ [k] \<in> set (lf_dirs fs)" using assms(2) by (force simp: fs_inv_def map_of_eq_None_iff butlast_append)
    then show False using False by (simp add: fs_exists_def)
  qed
  then show ?thesis using assms False by (simp add: local_delete_def Let_def)
qed

lemma delete_on_shards_files:
  assumes "delete_on_shards les k fs = (r, fs')" "fs_inv fs" "plain_name k"
  shows "fs_inv fs' \<and> (\<forall>q. (\<forall>a \<in> set les. \<not> prefix (le_root a @ [k]) q) \<longrightarrow> map_of (lf_files fs') q = map_of (lf_files fs) q)
    \<and> (is_ok r \<longrightarrow> (\<forall>a \<in> set les. \<forall>x. map_of (lf_files fs') (le_root a @ [k, x]) = None))
    \<and> (\<forall>q. map_of (lf_files fs) q = None \<longrightarrow> map_of (lf_files fs') q = None)"
  using assms(1,2)
proof (induction les arbitrary: fs)
  case (Cons a les)
  obtain r1 fs1 where d: "local_delete a k fs = (r1, fs1)" by fastforce
  note one = local_delete_files [OF d Cons.prems(2) assms(3)]
  show ?case
  proof (cases r1)
    case (Inr u)
    have "delete_on_shards les k fs1 = (r, fs')" using Cons.prems(1) d Inr by simp
    from Cons.IH [OF this] show ?thesis using one Inr by auto
  qed (use Cons.prems(1) d one in auto)
qed simp

lemma local_view_root: "le_root a = le_root b \<Longrightarrow> local_view a = local_view b"
  by (simp add: local_view_def fun_eq_iff)

lemma sharded_view_eq:
  assumes "\<And>l. plain_name k \<Longrightarrow> plain_name l \<Longrightarrow> map_of (lf_files fs') (le_root (shard_of sh k l) @ [k, l @ ''.bin'']) =
      map_of (lf_files fs) (le_root (shard_of sh k l) @ [k, l @ ''.bin''])"
  shows "sharded_view sh fs' (k, l) = sharded_view sh fs (k, l)"
  using assms by (simp add: sharded_view_def local_view_def)

lemma sharded_put_law:
  assumes "sharded_ok sh" "fs_inv fs" "plain_name k" "plain_name l" "sharded_put sh k l d m fs = (r, fs')"
  shows "fs_inv fs' \<and> (\<forall>x. x \<noteq> (k, l) \<longrightarrow> sharded_view sh fs' x = sharded_view sh fs x) \<and> (is_ok r \<longrightarrow> sharded_view sh fs' (k, l) = Some d)"
proof -
  have run: "local_put (shard_of sh k l) k l d m fs = (r, fs')" using assms(5) by (simp add: sharded_put_def)
  note one = local_put_spec [OF run assms(2-4)]
  have "sharded_view sh fs' (k', l') = sharded_view sh fs (k', l')" if ne: "(k', l') \<noteq> (k, l)" for k' l'
  proof (cases "prefix (le_root (shard_of sh k l) @ [k]) (le_root (shard_of sh k' l') @ [k', l' @ ''.bin''])")
    case True
    from shard_apart [OF assms(1) shard_of_in shard_of_in True] assms(1)
    have "k = k'" "local_view (shard_of sh k l) = local_view (shard_of sh k' l')" by (auto intro: local_view_root)
    moreover have "local_view (shard_of sh k l) fs' (k', l') = local_view (shard_of sh k l) fs (k', l')" using one ne by blast
    ultimately show ?thesis by (simp add: sharded_view_def)
  next
    case False
    show ?thesis using local_write_elsewhere [OF run assms(2-4) False] by (simp add: sharded_view_def local_view_def)
  qed
  then show ?thesis using one by (auto simp: sharded_view_def)
qed

lemma sharded_get_law:
  assumes "sharded_ok sh" "fs_inv fs" "plain_name k" "plain_name l" "sharded_get sh k l fs = (r, fs')"
  shows "fs_inv fs' \<and> sharded_view sh fs' = sharded_view sh fs \<and> (\<forall>x. r = Inr x \<longrightarrow> x = sharded_view sh fs (k, l))"
proof -
  have "lf_files fs' = lf_files fs"
    using assms(5) fs_read_spec [OF _ assms(2)]
    by (auto simp: sharded_get_def local_get_def Let_def pstep_def split: if_splits prod.splits sum.splits)
  then have "sharded_view sh fs' = sharded_view sh fs" by (simp add: sharded_view_def local_view_def fun_eq_iff)
  then show ?thesis using local_get_spec [of "shard_of sh k l" k l fs r fs'] assms(2-5) by (simp add: sharded_get_def sharded_view_def)
qed

lemma run_jobs_get:
  assumes "sharded_ok sh" "fs_inv fs" "list_all plain_name ks" "plain_name l" "run_jobs (map (\<lambda>key. sharded_get sh key l) ks) fs = (rs, fs')"
  shows "fs_inv fs' \<and> sharded_view sh fs' = sharded_view sh fs \<and> list_all2 (\<lambda>k r. \<forall>x. r = Inr x \<longrightarrow> x = sharded_view sh fs (k, l)) ks rs"
  using assms(2,3,5)
proof (induction ks arbitrary: fs rs)
  case (Cons k ks)
  obtain r fs1 rs' where g: "sharded_get sh k l fs = (r, fs1)" "run_jobs (map (\<lambda>key. sharded_get sh key l) ks) fs1 = (rs', fs')" "rs = r # rs'"
    using Cons.prems(3) by (auto split: prod.splits)
  have one: "fs_inv fs1 \<and> sharded_view sh fs1 = sharded_view sh fs \<and> (\<forall>x. r = Inr x \<longrightarrow> x = sharded_view sh fs (k, l))"
    by (rule sharded_get_law [OF assms(1) Cons.prems(1) _ assms(4) g(1)]) (use Cons.prems(2) in simp)
  have "fs_inv fs' \<and> sharded_view sh fs' = sharded_view sh fs1 \<and> list_all2 (\<lambda>k r. \<forall>x. r = Inr x \<longrightarrow> x = sharded_view sh fs1 (k, l)) ks rs'"
    by (rule Cons.IH) (use one Cons.prems(2) g in auto)
  then show ?case using one g(3) by simp
qed simp

lemma map_res_id: "map_res id rs = Inr xs \<longleftrightarrow> rs = map Inr xs"
  by (simp add: map_res_Inr_iff list_all2_conv_all_nth list_eq_iff_nth_eq) auto

lemma sharded_get_parallel_law:
  assumes "sharded_ok sh" "fs_inv fs" "list_all plain_name ks" "plain_name l" "sharded_get_parallel sh ks l fs = (r, fs')"
  shows "fs_inv fs' \<and> sharded_view sh fs' = sharded_view sh fs \<and> (\<forall>xs. r = Inr xs \<longrightarrow> xs = map (\<lambda>k. sharded_view sh fs (k, l)) ks)"
proof (cases "ks = []")
  case True
  then show ?thesis using assms by (auto simp: sharded_get_parallel_def)
next
  case False
  obtain rs fs1 where j: "run_jobs (map (\<lambda>key. sharded_get sh key l) ks) fs = (rs, fs1)" by fastforce
  have r: "r = map_res id rs" "fs' = fs1" using assms(5) j False by (simp_all add: sharded_get_parallel_def)
  note all = run_jobs_get [OF assms(1-4) j]
  have "xs = map (\<lambda>k. sharded_view sh fs (k, l)) ks" if "rs = map Inr xs" for xs
    using all that by (auto simp: list_all2_conv_all_nth intro: nth_equalityI)
  then show ?thesis using all r by (simp add: map_res_id)
qed

lemma sharded_delete_law:
  assumes "sharded_ok sh" "fs_inv fs" "plain_name k" "sharded_delete sh k fs = (r, fs')"
  shows "fs_inv fs' \<and> (\<forall>k' l. k' \<noteq> k \<longrightarrow> sharded_view sh fs' (k', l) = sharded_view sh fs (k', l)) \<and> (is_ok r \<longrightarrow> (\<forall>l. sharded_view sh fs' (k, l) = None))"
proof -
  note all = delete_on_shards_files [OF assms(4)[unfolded sharded_delete_def] assms(2,3)]
  have "sharded_view sh fs' (k', l) = sharded_view sh fs (k', l)" if ne: "k' \<noteq> k" for k' l
  proof (rule sharded_view_eq)
    fix l
    have "\<not> prefix (le_root a @ [k]) (le_root (shard_of sh k' l) @ [k', l @ ''.bin''])" if "a \<in> set (sh_shards sh)" for a
      using shard_apart [OF assms(1) that shard_of_in [OF assms(1), of k' l]] ne by metis
    then show "map_of (lf_files fs') (le_root (shard_of sh k' l) @ [k', l @ ''.bin'']) = map_of (lf_files fs) (le_root (shard_of sh k' l) @ [k', l @ ''.bin''])"
      using all by simp
  qed
  moreover have "sharded_view sh fs' (k, l) = None" if "is_ok r" for l
    using all that shard_of_in [OF assms(1)] by (simp add: sharded_view_def local_view_def)
  ultimately show ?thesis using all by blast
qed

lemma sharded_backend_sel [simp]:
  "sb_put (sharded_backend sh) = sharded_put sh" "sb_get (sharded_backend sh) = sharded_get sh" "sb_delete (sharded_backend sh) = sharded_delete sh"
  "sb_exists (sharded_backend sh) = sharded_exists sh" "sb_get_parallel (sharded_backend sh) = sharded_get_parallel sh"
  by (simp_all add: sharded_backend_def plain_backend_def)

lemma sharded_backend_law:
  assumes "sharded_ok sh"
  shows "storage_backend (sharded_backend sh) (sharded_view sh) fs_inv plain_name"
  by unfold_locales
    (simp_all only: sharded_backend_sel, rule sharded_put_law [OF assms], assumption+, rule sharded_get_law [OF assms], assumption+,
      rule sharded_delete_law [OF assms], assumption+, rule sharded_get_parallel_law [OF assms])

text \<open>Keys are found where they were put, unless the layer name decides: \<open>exists\<close> looks at the shard of the key.\<close>

lemma sharded_backend_keyed:
  assumes "sharded_ok sh" "sh_stripe_policy sh \<noteq> ''layer''"
  shows "keyed_backend (sharded_backend sh) (sharded_view sh) fs_inv plain_name"
proof (intro keyed_backend.intro sharded_backend_law [OF assms(1)] keyed_backend_axioms.intro)
  fix s k r s' assume a: "fs_inv s" "plain_name k" "sb_exists (sharded_backend sh) k s = (r, s')"
  have same: "shard_of sh k l = shard_of sh k []" for l using assms(2) by (simp add: shard_of_def shard_for_key_def)
  have "le_root (shard_of sh k []) @ [k] \<in> set (lf_dirs s)" if "sharded_view sh s (k, l) \<noteq> None" for l
    using a(1) that same [of l] by (force simp: fs_inv_def map_of_eq_None_iff butlast_append sharded_view_def local_view_def split: if_splits)
  then show "fs_inv s' \<and> sharded_view sh s' = sharded_view sh s \<and> (\<forall>x l. r = Inr x \<longrightarrow> sharded_view sh s (k, l) \<noteq> None \<longrightarrow> x)"
    using a by (auto simp: sharded_exists_def local_exists_def)
qed

end
