(* ===== verification/Host_Memory.thy ===== *)
theory Host_Memory
  imports Py_Sharded
begin

text \<open>
  \<open>storage/host_memory.py\<close>: a write-through cache of bytes and of pinned tensors in front of any backend.
  Tensors are of an arbitrary type with a size and a pinning operation, which may raise.
\<close>

section \<open>State and operations\<close>

type_synonym cache_key = "string \<times> string"

record ('s, 't) HostEnv =
  he_wrapped :: "'s StorageBackend"
  he_max_capacity :: int
  he_nbytes :: "'t \<Rightarrow> nat"
  he_pin_memory :: "'t \<Rightarrow> 't pres"

record ('s, 't) HostMemory =
  hm_wrapped :: 's
  hm_cache :: "(cache_key \<times> bytes) list"
  hm_tensor_cache :: "(cache_key \<times> 't) list"
  hm_meta_cache :: "(string \<times> PyBlockMeta) list"
  hm_used_bytes :: int

definition hm_init :: "'s \<Rightarrow> ('s, 't) HostMemory" where
  "hm_init w = \<lparr> hm_wrapped = w, hm_cache = [], hm_tensor_cache = [], hm_meta_cache = [], hm_used_bytes = 0 \<rparr>"

definition on_wrapped :: "('s \<Rightarrow> 'a pres \<times> 's) \<Rightarrow> ('s, 't) HostMemory \<Rightarrow> 'a pres \<times> ('s, 't) HostMemory" where
  "on_wrapped f s = (case f (hm_wrapped s) of (r, w) \<Rightarrow> (r, s\<lparr> hm_wrapped := w \<rparr>))"

text \<open>The eviction loop: bytes first, oldest first, then tensors.\<close>

fun evict_loop ::
  "('t \<Rightarrow> nat) \<Rightarrow> int \<Rightarrow> (cache_key \<times> bytes) list \<Rightarrow> (cache_key \<times> 't) list \<Rightarrow> int
     \<Rightarrow> (cache_key \<times> bytes) list \<times> (cache_key \<times> 't) list \<times> int" where
  "evict_loop nb cap cache tensors used =
     (if used > cap
      then (case cache of
              (_, data) # cache' \<Rightarrow> evict_loop nb cap cache' tensors (used - int (length data))
            | [] \<Rightarrow> (case tensors of
                      (_, t) # tensors' \<Rightarrow> evict_loop nb cap [] tensors' (used - int (nb t))
                    | [] \<Rightarrow> ([], [], used)))
      else (cache, tensors, used))"

declare evict_loop.simps [simp del]

definition evict_if_needed :: "('s, 't) HostEnv \<Rightarrow> ('s, 't) HostMemory \<Rightarrow> ('s, 't) HostMemory" where
  "evict_if_needed he s =
     (case evict_loop (he_nbytes he) (he_max_capacity he) (hm_cache s) (hm_tensor_cache s) (hm_used_bytes s) of
        (cache, tensors, used) \<Rightarrow> s\<lparr> hm_cache := cache, hm_tensor_cache := tensors, hm_used_bytes := used \<rparr>)"

definition note_meta :: "string \<Rightarrow> PyBlockMeta option \<Rightarrow> ('s, 't) HostMemory \<Rightarrow> ('s, 't) HostMemory" where
  "note_meta key meta s = (case meta of None \<Rightarrow> s | Some m \<Rightarrow> s\<lparr> hm_meta_cache := AList.update key m (hm_meta_cache s) \<rparr>)"

definition hm_put :: "('s, 't) HostEnv \<Rightarrow> ('s, 't) HostMemory put_method" where
  "hm_put he key layer data meta s =
     pstep (on_wrapped (sb_put (he_wrapped he) key layer data meta) s) (\<lambda>_ s1.
       let ck = (key, layer);
           s2 = (case map_of (hm_cache s1) ck of
                   None \<Rightarrow> s1
                 | Some old \<Rightarrow> s1\<lparr> hm_used_bytes := hm_used_bytes s1 - int (length old), hm_cache := move_to_end ck (hm_cache s1) \<rparr>);
           s3 = s2\<lparr> hm_cache := AList.update ck data (hm_cache s2), hm_used_bytes := hm_used_bytes s2 + int (length data),
                    hm_tensor_cache := dict_pop ck (hm_tensor_cache s2) \<rparr>
       in (Inr (), evict_if_needed he (note_meta key meta s3)))"

definition hm_put_tensor ::
  "('s, 't) HostEnv \<Rightarrow> string \<Rightarrow> string \<Rightarrow> 't \<Rightarrow> bytes \<Rightarrow> PyBlockMeta option \<Rightarrow> ('s, 't) HostMemory \<Rightarrow> unit pres \<times> ('s, 't) HostMemory" where
  "hm_put_tensor he key layer tensor data meta s =
     pstep (on_wrapped (sb_put (he_wrapped he) key layer data meta) s) (\<lambda>_ s1.
     case he_pin_memory he tensor of
       Inl e \<Rightarrow> (Inl e, s1)
     | Inr pinned \<Rightarrow>
         let ck = (key, layer);
             s2 = (case map_of (hm_cache s1) ck of
                     Some old \<Rightarrow> s1\<lparr> hm_used_bytes := hm_used_bytes s1 - int (length old) \<rparr>
                   | None \<Rightarrow> (case map_of (hm_tensor_cache s1) ck of
                       Some old_t \<Rightarrow> s1\<lparr> hm_used_bytes := hm_used_bytes s1 - int (he_nbytes he old_t) \<rparr>
                     | None \<Rightarrow> s1));
             s3 = s2\<lparr> hm_tensor_cache := dict_set_last ck pinned (hm_tensor_cache s2), hm_cache := dict_pop ck (hm_cache s2),
                      hm_used_bytes := hm_used_bytes s2 + int (he_nbytes he pinned) \<rparr>
         in (Inr (), evict_if_needed he (note_meta key meta s3)))"

definition hm_get_tensor :: "string \<Rightarrow> string \<Rightarrow> ('s, 't) HostMemory \<Rightarrow> 't option \<times> ('s, 't) HostMemory" where
  "hm_get_tensor key layer s =
     (case map_of (hm_tensor_cache s) (key, layer) of
        Some t \<Rightarrow> (Some t, s\<lparr> hm_tensor_cache := move_to_end (key, layer) (hm_tensor_cache s) \<rparr>)
      | None \<Rightarrow> (None, s))"

definition hm_get :: "('s, 't) HostEnv \<Rightarrow> ('s, 't) HostMemory get_method" where
  "hm_get he key layer s =
     (let ck = (key, layer) in
      case map_of (hm_cache s) ck of
        Some data \<Rightarrow> (Inr (Some data), s\<lparr> hm_cache := move_to_end ck (hm_cache s) \<rparr>)
      | None \<Rightarrow>
          pstep (on_wrapped (sb_get (he_wrapped he) key layer) s) (\<lambda>data s1.
            (Inr data, case data of
               None \<Rightarrow> s1
             | Some d \<Rightarrow> evict_if_needed he (s1\<lparr> hm_cache := dict_set_last ck d (hm_cache s1),
                           hm_used_bytes := hm_used_bytes s1 + int (length d) \<rparr>))))"

definition hm_exists :: "('s, 't) HostEnv \<Rightarrow> string \<Rightarrow> ('s, 't) HostMemory \<Rightarrow> bool pres \<times> ('s, 't) HostMemory" where
  "hm_exists he key s =
     (if list_ex (\<lambda>p. fst (fst p) = key) (hm_cache s) \<or> list_ex (\<lambda>p. fst (fst p) = key) (hm_tensor_cache s)
      then (Inr True, s) else on_wrapped (sb_exists (he_wrapped he) key) s)"

definition hm_delete :: "('s, 't) HostEnv \<Rightarrow> string \<Rightarrow> ('s, 't) HostMemory \<Rightarrow> unit pres \<times> ('s, 't) HostMemory" where
  "hm_delete he key s =
     (let mine = filter (\<lambda>p. fst (fst p) = key) (hm_cache s);
          mine_t = filter (\<lambda>p. fst (fst p) = key) (hm_tensor_cache s);
          s1 = s\<lparr> hm_cache := filter (\<lambda>p. fst (fst p) \<noteq> key) (hm_cache s),
                  hm_tensor_cache := filter (\<lambda>p. fst (fst p) \<noteq> key) (hm_tensor_cache s),
                  hm_used_bytes := hm_used_bytes s - int (dict_sum length mine) - int (dict_sum (he_nbytes he) mine_t),
                  hm_meta_cache := dict_pop key (hm_meta_cache s) \<rparr>
      in on_wrapped (sb_delete (he_wrapped he) key) s1)"

definition hm_get_meta :: "('s, 't) HostEnv \<Rightarrow> string \<Rightarrow> ('s, 't) HostMemory \<Rightarrow> PyBlockMeta option pres \<times> ('s, 't) HostMemory" where
  "hm_get_meta he key s =
     (case map_of (hm_meta_cache s) key of Some m \<Rightarrow> (Inr (Some m), s) | None \<Rightarrow> on_wrapped (sb_get_meta (he_wrapped he) key) s)"

definition hm_capacity_usage :: "('s, 't) HostEnv \<Rightarrow> ('s, 't) HostMemory \<Rightarrow> (int \<times> int) pres \<times> ('s, 't) HostMemory" where
  "hm_capacity_usage he s = (Inr (hm_used_bytes s, he_max_capacity he), s)"

definition hm_list_keys :: "('s, 't) HostEnv \<Rightarrow> ('s, 't) HostMemory \<Rightarrow> string set pres \<times> ('s, 't) HostMemory" where
  "hm_list_keys he s =
     pstep (on_wrapped (sb_list_keys (he_wrapped he)) s) (\<lambda>ks s1.
       (Inr (fst ` fst ` set (hm_cache s) \<union> fst ` fst ` set (hm_tensor_cache s) \<union> ks), s1))"

text \<open>A batch: hits from the cache, all misses in one call to the wrapped backend, one eviction at the end.\<close>

definition hm_misses :: "string list \<Rightarrow> string \<Rightarrow> ('s, 't) HostMemory \<Rightarrow> (nat \<times> string) list" where
  "hm_misses keys layer s = filter (\<lambda>(i, key). map_of (hm_cache s) (key, layer) = None) (enumerate 0 keys)"

definition fill_one ::
  "string \<Rightarrow> (nat \<times> string) \<times> bytes option \<Rightarrow> bytes option list \<times> ('s, 't) HostMemory \<Rightarrow> bytes option list \<times> ('s, 't) HostMemory" where
  "fill_one layer m acc =
     (case m of ((i, key), data) \<Rightarrow> case acc of (results, s) \<Rightarrow>
        (results[i := data], case data of
           None \<Rightarrow> s
         | Some d \<Rightarrow> s\<lparr> hm_cache := dict_set_last (key, layer) d (hm_cache s), hm_used_bytes := hm_used_bytes s + int (length d) \<rparr>))"

definition hm_get_parallel :: "('s, 't) HostEnv \<Rightarrow> string list \<Rightarrow> string \<Rightarrow> ('s, 't) HostMemory \<Rightarrow> bytes option list pres \<times> ('s, 't) HostMemory" where
  "hm_get_parallel he keys layer s =
     (let results = map (\<lambda>key. map_of (hm_cache s) (key, layer)) keys;
          misses = hm_misses keys layer s;
          s1 = s\<lparr> hm_cache := fold (\<lambda>key. move_to_end (key, layer)) keys (hm_cache s) \<rparr>
      in if misses = [] then (Inr results, s1)
         else pstep (on_wrapped (sb_get_parallel (he_wrapped he) (map snd misses) layer) s1) (\<lambda>fetched s2.
           case fold (fill_one layer) (zip misses fetched) (results, s2) of (results', s3) \<Rightarrow> (Inr results', evict_if_needed he s3)))"

definition hm_put_chunks ::
  "('s, 't) HostEnv \<Rightarrow> string \<Rightarrow> string \<Rightarrow> bytes list \<Rightarrow> PyBlockMeta option \<Rightarrow> ('s, 't) HostMemory \<Rightarrow> unit pres \<times> ('s, 't) HostMemory" where
  "hm_put_chunks he key layer segments meta s =
     (case sb_put_chunks (he_wrapped he) of
        Some put_chunks \<Rightarrow> on_wrapped (put_chunks key layer segments meta) s
      | None \<Rightarrow> hm_put he key layer (concat segments) meta s)"

definition hm_get_chunks :: "('s, 't) HostEnv \<Rightarrow> string \<Rightarrow> string \<Rightarrow> ('s, 't) HostMemory \<Rightarrow> bytes list option pres \<times> ('s, 't) HostMemory" where
  "hm_get_chunks he key layer s =
     (case sb_get_chunks (he_wrapped he) of
        Some get_chunks \<Rightarrow> on_wrapped (get_chunks key layer) s
      | None \<Rightarrow> pstep (hm_get he key layer s) (\<lambda>data s1. (Inr (map_option (\<lambda>d. [d]) data), s1)))"

definition hm_supports_zerocopy :: "('s, 't) HostEnv \<Rightarrow> ('s, 't) HostMemory \<Rightarrow> bool pres \<times> ('s, 't) HostMemory" where
  "hm_supports_zerocopy he s = (case sb_supports_zerocopy (he_wrapped he) of None \<Rightarrow> (Inr False, s) | Some f \<Rightarrow> on_wrapped f s)"

definition hm_ensure_rdma_region :: "('s, 't) HostEnv \<Rightarrow> nat \<Rightarrow> nat \<Rightarrow> ('s, 't) HostMemory \<Rightarrow> nat pres \<times> ('s, 't) HostMemory" where
  "hm_ensure_rdma_region he ptr sz s =
     (case sb_ensure_rdma_region (he_wrapped he) of
        None \<Rightarrow> (Inl (RuntimeError ''wrapped storage does not support RDMA region registration''), s)
      | Some f \<Rightarrow> on_wrapped (f ptr sz) s)"

definition hm_get_chunks_into ::
  "('s, 't) HostEnv \<Rightarrow> string \<Rightarrow> string \<Rightarrow> nat \<Rightarrow> nat \<Rightarrow> ('s, 't) HostMemory \<Rightarrow> nat option pres \<times> ('s, 't) HostMemory" where
  "hm_get_chunks_into he key layer region_id off s =
     (case sb_get_chunks_into (he_wrapped he) of None \<Rightarrow> (Inr None, s) | Some f \<Rightarrow> on_wrapped (f key layer region_id off) s)"

definition hm_supports_rdma_put :: "('s, 't) HostEnv \<Rightarrow> ('s, 't) HostMemory \<Rightarrow> bool pres \<times> ('s, 't) HostMemory" where
  "hm_supports_rdma_put he s = (case sb_supports_rdma_put (he_wrapped he) of None \<Rightarrow> (Inr False, s) | Some f \<Rightarrow> on_wrapped f s)"

definition hm_put_chunks_from ::
  "('s, 't) HostEnv \<Rightarrow> string \<Rightarrow> string \<Rightarrow> nat \<Rightarrow> nat \<Rightarrow> nat \<Rightarrow> ('s, 't) HostMemory \<Rightarrow> bool pres \<times> ('s, 't) HostMemory" where
  "hm_put_chunks_from he key layer region_id off sz s =
     (case sb_put_chunks_from (he_wrapped he) of None \<Rightarrow> (Inr False, s) | Some f \<Rightarrow> on_wrapped (f key layer region_id off sz) s)"

definition host_memory_backend :: "('s, 't) HostEnv \<Rightarrow> ('s, 't) HostMemory StorageBackend" where
  "host_memory_backend he =
     \<lparr> sb_put = hm_put he, sb_get = hm_get he, sb_exists = hm_exists he, sb_delete = hm_delete he, sb_get_meta = hm_get_meta he,
        sb_capacity_usage = hm_capacity_usage he, sb_list_keys = hm_list_keys he, sb_get_parallel = hm_get_parallel he,
        sb_put_parallel = put_parallel_default (hm_put he), sb_put_chunks = Some (hm_put_chunks he), sb_get_chunks = Some (hm_get_chunks he),
        sb_probe_layer_exists = None, sb_supports_zerocopy = Some (hm_supports_zerocopy he), sb_supports_rdma_put = Some (hm_supports_rdma_put he),
        sb_ensure_rdma_region = Some (hm_ensure_rdma_region he), sb_get_chunks_into = Some (hm_get_chunks_into he),
        sb_put_chunks_from = Some (hm_put_chunks_from he) \<rparr>"


section \<open>Eviction and accounting\<close>

text \<open>The counter minus what the caches hold.\<close>

definition hm_leak :: "('s, 't) HostEnv \<Rightarrow> ('s, 't) HostMemory \<Rightarrow> int" where
  "hm_leak he s = hm_used_bytes s - int (dict_sum length (hm_cache s)) - int (dict_sum (he_nbytes he) (hm_tensor_cache s))"

definition hm_dicts :: "('s, 't) HostMemory \<Rightarrow> bool" where
  "hm_dicts s \<longleftrightarrow> is_dict (hm_cache s) \<and> is_dict (hm_tensor_cache s)"

lemma map_of_drop: "is_dict d \<Longrightarrow> map_of (drop n d) k = Some v \<Longrightarrow> map_of d k = Some v"
  by (metis distinct_drop drop_map in_set_dropD map_of_SomeD map_of_is_SomeI)

lemma is_dict_drop: "is_dict d \<Longrightarrow> is_dict (drop n d)"
  by (simp add: drop_map [symmetric])

lemma evict_loop_spec:
  assumes "evict_loop nb cap c t u = (c', t', u')"
  shows "(\<exists>m. c' = drop m c) \<and> (\<exists>n. t' = drop n t)
    \<and> u' - int (dict_sum length c') - int (dict_sum nb t') = u - int (dict_sum length c) - int (dict_sum nb t)
    \<and> (u' \<le> cap \<or> c' = [] \<and> t' = [])"
  using assms
proof (induction nb cap c t u rule: evict_loop.induct)
  case (1 nb cap c t u)
  show ?case
  proof (cases "u > cap")
    case over: True
    show ?thesis
    proof (cases c)
      case (Cons p c1)
      obtain k d where p: "p = (k, d)" by (cases p)
      have run: "evict_loop nb cap c1 t (u - int (length d)) = (c', t', u')"
        using "1.prems" over Cons p by (simp add: evict_loop.simps [of nb cap "(k, d) # c1"])
      then have "(\<exists>m. c' = drop m c1) \<and> (\<exists>n. t' = drop n t)
        \<and> u' - int (dict_sum length c') - int (dict_sum nb t') = u - int (length d) - int (dict_sum length c1) - int (dict_sum nb t)
        \<and> (u' \<le> cap \<or> c' = [] \<and> t' = [])"
        using "1.IH"(2) [OF over Cons p [symmetric]] by simp
      moreover have "drop m c1 = drop (Suc m) c" for m using Cons by simp
      ultimately show ?thesis using Cons p by fastforce
    next
      case Nil
      show ?thesis
      proof (cases t)
        case (Cons p t1)
        obtain k d where p: "p = (k, d)" by (cases p)
        have run: "evict_loop nb cap [] t1 (u - int (nb d)) = (c', t', u')"
          using "1.prems" over Nil Cons p by (simp add: evict_loop.simps [of nb cap "[]" "(k, d) # t1"])
        then have "(\<exists>m. c' = drop m []) \<and> (\<exists>n. t' = drop n t1)
          \<and> u' - int (dict_sum length c') - int (dict_sum nb t') = u - int (nb d) - int (dict_sum nb t1)
          \<and> (u' \<le> cap \<or> c' = [] \<and> t' = [])"
          using "1.IH"(1) [OF over Nil Cons p [symmetric]] by auto
        moreover have "drop m t1 = drop (Suc m) t" for m using Cons by simp
        ultimately show ?thesis using Nil Cons p by fastforce
      next
        case t: Nil
        then show ?thesis using "1.prems" over \<open>c = []\<close> by (simp add: evict_loop.simps)
      qed
    qed
  next
    case False
    then have "c' = drop 0 c" "t' = drop 0 t" "u' = u" using "1.prems" by (simp_all add: evict_loop.simps [of nb cap c])
    then show ?thesis using False by (metis drop_0 linorder_not_less)
  qed
qed

lemma evict_if_needed_spec:
  assumes "s' = evict_if_needed he s" "hm_dicts s"
  shows "hm_dicts s'" "hm_wrapped s' = hm_wrapped s" "hm_leak he s' = hm_leak he s"
    "\<And>ck d. map_of (hm_cache s') ck = Some d \<Longrightarrow> map_of (hm_cache s) ck = Some d"
    "\<And>ck t. map_of (hm_tensor_cache s') ck = Some t \<Longrightarrow> map_of (hm_tensor_cache s) ck = Some t"
    "hm_used_bytes s' \<le> he_max_capacity he \<or> hm_cache s' = [] \<and> hm_tensor_cache s' = []"
proof -
  obtain c t u where e: "evict_loop (he_nbytes he) (he_max_capacity he) (hm_cache s) (hm_tensor_cache s) (hm_used_bytes s) = (c, t, u)"
    by (metis prod_cases3)
  have s': "s' = s\<lparr> hm_cache := c, hm_tensor_cache := t, hm_used_bytes := u \<rparr>" using assms(1) e by (simp add: evict_if_needed_def)
  obtain m n where mn: "c = drop m (hm_cache s)" "t = drop n (hm_tensor_cache s)" using evict_loop_spec [OF e] by blast
  show "hm_dicts s'" using assms(2) by (simp add: s' mn hm_dicts_def is_dict_drop)
  show "hm_wrapped s' = hm_wrapped s" by (simp add: s')
  show "hm_leak he s' = hm_leak he s" using evict_loop_spec [OF e] by (simp add: s' hm_leak_def)
  show "map_of (hm_cache s) ck = Some d" if "map_of (hm_cache s') ck = Some d" for ck d
    using that assms(2) map_of_drop [of "hm_cache s" m] by (simp add: s' mn hm_dicts_def)
  show "map_of (hm_tensor_cache s) ck = Some x" if "map_of (hm_tensor_cache s') ck = Some x" for ck x
    using that assms(2) map_of_drop [of "hm_tensor_cache s" n] by (simp add: s' mn hm_dicts_def)
  show "hm_used_bytes s' \<le> he_max_capacity he \<or> hm_cache s' = [] \<and> hm_tensor_cache s' = []"
    using evict_loop_spec [OF e] by (simp add: s')
qed

lemma note_meta_same [simp]:
  "hm_cache (note_meta k m s) = hm_cache s" "hm_tensor_cache (note_meta k m s) = hm_tensor_cache s" "hm_wrapped (note_meta k m s) = hm_wrapped s"
  "hm_used_bytes (note_meta k m s) = hm_used_bytes s" "hm_dicts (note_meta k m s) = hm_dicts s" "hm_leak he (note_meta k m s) = hm_leak he s"
  by (simp_all add: note_meta_def hm_dicts_def hm_leak_def split: option.split)


section \<open>Reads and writes\<close>

text \<open>
  The cache is coherent when it holds what the wrapped backend holds.  \<open>R\<close> relates a pinned tensor to
  the encoding it was stored with.
\<close>

definition coherent :: "('t \<Rightarrow> bytes \<Rightarrow> bool) \<Rightarrow> ('s \<Rightarrow> cache_key \<Rightarrow> bytes option) \<Rightarrow> ('s, 't) HostMemory \<Rightarrow> bool" where
  "coherent R view s \<longleftrightarrow> (\<forall>ck d. map_of (hm_cache s) ck = Some d \<longrightarrow> view (hm_wrapped s) ck = Some d)
     \<and> (\<forall>ck t. map_of (hm_tensor_cache s) ck = Some t \<longrightarrow> (\<exists>d. view (hm_wrapped s) ck = Some d \<and> R t d))"

definition hm_inv ::
  "('t \<Rightarrow> bytes \<Rightarrow> bool) \<Rightarrow> ('s \<Rightarrow> cache_key \<Rightarrow> bytes option) \<Rightarrow> ('s \<Rightarrow> bool) \<Rightarrow> ('s, 't) HostMemory \<Rightarrow> bool" where
  "hm_inv R view winv s \<longleftrightarrow> winv (hm_wrapped s) \<and> hm_dicts s \<and> coherent R view s"

lemma hm_inv_evict:
  assumes "hm_inv R view winv s"
  shows "hm_inv R view winv (evict_if_needed he s)"
  using assms evict_if_needed_spec [OF refl, of s he] unfolding hm_inv_def coherent_def by metis

lemma hm_inv_meta [simp]: "hm_inv R view winv (note_meta k m s) = hm_inv R view winv s"
  by (simp add: hm_inv_def coherent_def)

locale host_memory = atomic_backend "he_wrapped he" view inv name_ok
  for he :: "('s, 't) HostEnv" and view :: "'s \<Rightarrow> cache_key \<Rightarrow> bytes option" and inv :: "'s \<Rightarrow> bool" and name_ok :: "string \<Rightarrow> bool" +
  fixes R :: "'t \<Rightarrow> bytes \<Rightarrow> bool"
begin

abbreviation good :: "('s, 't) HostMemory \<Rightarrow> bool" where
  "good \<equiv> hm_inv R view inv"

abbreviation vw :: "('s, 't) HostMemory \<Rightarrow> cache_key \<Rightarrow> bytes option" where
  "vw s \<equiv> view (hm_wrapped s)"

lemma evicted [simp]: "hm_dicts s \<Longrightarrow> vw (evict_if_needed he s) = vw s"
  using evict_if_needed_spec(2) [OF refl] by metis

text \<open>A write through: the entry of the written key is replaced, all others keep their meaning.\<close>

lemma put_through:
  assumes "good s" "name_ok k" "name_ok l" "sb_put (he_wrapped he) k l d m (hm_wrapped s) = (r, w)"
  shows "inv w" "\<And>x. x \<noteq> (k, l) \<Longrightarrow> view w x = vw s x" "is_ok r \<Longrightarrow> view w (k, l) = Some d" "\<not> is_ok r \<Longrightarrow> view w = vw s"
proof -
  have i: "inv (hm_wrapped s)" using assms(1) by (simp add: hm_inv_def)
  show "inv w" "\<And>x. x \<noteq> (k, l) \<Longrightarrow> view w x = vw s x" "is_ok r \<Longrightarrow> view w (k, l) = Some d"
    using put_law [OF i assms(2,3,4)] by blast+
  show "\<not> is_ok r \<Longrightarrow> view w = vw s" using put_atomic [OF i assms(2,3)] assms(4) by (cases r) auto
qed

lemma failed_put:
  assumes "good s" "view w = vw s" "inv w"
  shows "good (s\<lparr> hm_wrapped := w \<rparr>)"
  using assms by (simp add: hm_inv_def hm_dicts_def coherent_def)

lemma hm_put_law:
  assumes "good s" "name_ok k" "name_ok l" "hm_put he k l d m s = (r, s')"
  shows "good s' \<and> (\<forall>x. x \<noteq> (k, l) \<longrightarrow> vw s' x = vw s x) \<and> (is_ok r \<longrightarrow> vw s' (k, l) = Some d) \<and> (\<not> is_ok r \<longrightarrow> vw s' = vw s)"
proof -
  obtain r1 w where p: "sb_put (he_wrapped he) k l d m (hm_wrapped s) = (r1, w)" by fastforce
  note thr = put_through [OF assms(1-3) p]
  show ?thesis
  proof (cases r1)
    case (Inl e)
    then show ?thesis using assms(4) p failed_put [OF assms(1) thr(4) thr(1)] thr(4) by (auto simp: hm_put_def on_wrapped_def)
  next
    case (Inr u)
    define s3 where "s3 = (let s1 = s\<lparr> hm_wrapped := w \<rparr>; s2 = (case map_of (hm_cache s1) (k, l) of None \<Rightarrow> s1
        | Some old \<Rightarrow> s1\<lparr> hm_used_bytes := hm_used_bytes s1 - int (length old), hm_cache := move_to_end (k, l) (hm_cache s1) \<rparr>)
      in s2\<lparr> hm_cache := AList.update (k, l) d (hm_cache s2), hm_used_bytes := hm_used_bytes s2 + int (length d),
             hm_tensor_cache := dict_pop (k, l) (hm_tensor_cache s2) \<rparr>)"
    have s3: "map_of (hm_cache s3) = (map_of (hm_cache s))((k, l) \<mapsto> d)" "map_of (hm_tensor_cache s3) = (map_of (hm_tensor_cache s))((k, l) := None)"
      "hm_wrapped s3 = w" "hm_dicts s3" using assms(1)
      by (auto simp: s3_def Let_def hm_dicts_def hm_inv_def split: option.split)
    have "good s3"
      using assms(1) thr(1,2,3) Inr s3 unfolding hm_inv_def coherent_def by (auto split: if_splits)
    moreover have "s' = evict_if_needed he (note_meta k m s3)" "r = Inr ()"
      using assms(4) p Inr by (simp_all add: hm_put_def on_wrapped_def s3_def Let_def)
    ultimately show ?thesis using hm_inv_evict [of R view inv "note_meta k m s3" he] s3 thr(2,3) Inr by simp
  qed
qed

lemma hm_put_tensor_law:
  assumes "good s" "name_ok k" "name_ok l" "hm_put_tensor he k l t d m s = (r, s')" "he_pin_memory he t = Inr pinned" "R pinned d"
  shows "good s' \<and> (\<forall>x. x \<noteq> (k, l) \<longrightarrow> vw s' x = vw s x) \<and> (is_ok r \<longrightarrow> vw s' (k, l) = Some d) \<and> (\<not> is_ok r \<longrightarrow> vw s' = vw s)"
proof -
  obtain r1 w where p: "sb_put (he_wrapped he) k l d m (hm_wrapped s) = (r1, w)" by fastforce
  note thr = put_through [OF assms(1-3) p]
  show ?thesis
  proof (cases r1)
    case (Inl e)
    then show ?thesis using assms(4) p failed_put [OF assms(1) thr(4) thr(1)] thr(4) by (auto simp: hm_put_tensor_def on_wrapped_def)
  next
    case (Inr u)
    define s3 where "s3 = (let s1 = s\<lparr> hm_wrapped := w \<rparr>; s2 = (case map_of (hm_cache s1) (k, l) of
          Some old \<Rightarrow> s1\<lparr> hm_used_bytes := hm_used_bytes s1 - int (length old) \<rparr>
        | None \<Rightarrow> (case map_of (hm_tensor_cache s1) (k, l) of
            Some old_t \<Rightarrow> s1\<lparr> hm_used_bytes := hm_used_bytes s1 - int (he_nbytes he old_t) \<rparr> | None \<Rightarrow> s1))
      in s2\<lparr> hm_tensor_cache := dict_set_last (k, l) pinned (hm_tensor_cache s2), hm_cache := dict_pop (k, l) (hm_cache s2),
             hm_used_bytes := hm_used_bytes s2 + int (he_nbytes he pinned) \<rparr>)"
    have s3: "map_of (hm_cache s3) = (map_of (hm_cache s))((k, l) := None)" "map_of (hm_tensor_cache s3) = (map_of (hm_tensor_cache s))((k, l) \<mapsto> pinned)"
      "hm_wrapped s3 = w" "hm_dicts s3" using assms(1)
      by (auto simp: s3_def Let_def hm_dicts_def hm_inv_def split: option.split)
    have "good s3"
      using assms(1,6) thr(1,2,3) Inr s3 unfolding hm_inv_def coherent_def by (auto split: if_splits)
    moreover have "s' = evict_if_needed he (note_meta k m s3)" "r = Inr ()"
      using assms(4,5) p Inr by (simp_all add: hm_put_tensor_def on_wrapped_def s3_def Let_def)
    ultimately show ?thesis using hm_inv_evict [of R view inv "note_meta k m s3" he] s3 thr(2,3) Inr by simp
  qed
qed

lemma hm_get_tensor_law:
  assumes "good s" "hm_get_tensor k l s = (r, s')"
  shows "good s' \<and> vw s' = vw s \<and> (\<forall>t. r = Some t \<longrightarrow> (\<exists>d. vw s (k, l) = Some d \<and> R t d))"
  using assms by (auto simp: hm_get_tensor_def hm_inv_def hm_dicts_def coherent_def split: option.splits)

lemma fill_good:
  assumes "good s" "vw s (k, l) = Some d"
  shows "good (s\<lparr> hm_cache := dict_set_last (k, l) d (hm_cache s), hm_used_bytes := u \<rparr>)"
  using assms by (simp add: hm_inv_def hm_dicts_def coherent_def)

lemma hm_get_law:
  assumes "good s" "name_ok k" "name_ok l" "hm_get he k l s = (r, s')"
  shows "good s' \<and> vw s' = vw s \<and> (\<forall>x. r = Inr x \<longrightarrow> x = vw s (k, l))"
proof (cases "map_of (hm_cache s) (k, l)")
  case (Some d)
  then show ?thesis using assms(1,4) by (auto simp: hm_get_def hm_inv_def hm_dicts_def coherent_def)
next
  case None
  obtain r1 w where g: "sb_get (he_wrapped he) k l (hm_wrapped s) = (r1, w)" by fastforce
  have i: "inv (hm_wrapped s)" using assms(1) by (simp add: hm_inv_def)
  have law: "inv w" "view w = vw s" "\<And>x. r1 = Inr x \<Longrightarrow> x = vw s (k, l)" using get_law [OF i assms(2,3) g] by auto
  have w: "good (s\<lparr> hm_wrapped := w \<rparr>)" by (rule failed_put [OF assms(1) law(2,1)])
  show ?thesis
  proof (cases "\<exists>d. r1 = Inr (Some d)")
    case True
    then obtain d where d: "r1 = Inr (Some d)" by blast
    let ?s3 = "s\<lparr> hm_wrapped := w, hm_cache := dict_set_last (k, l) d (hm_cache s), hm_used_bytes := hm_used_bytes s + int (length d) \<rparr>"
    have "good ?s3" using fill_good [OF w, of k l d] law(2) law(3) [OF d] by simp
    moreover have "s' = evict_if_needed he ?s3" "r = Inr (Some d)" using assms(4) None g d by (simp_all add: hm_get_def on_wrapped_def)
    moreover have "hm_dicts ?s3" using \<open>good ?s3\<close> by (simp only: hm_inv_def)
    ultimately show ?thesis using hm_inv_evict [of R view inv ?s3 he] evicted [of ?s3] law(2) law(3) [OF d] by simp
  next
    case False
    then have "s' = s\<lparr> hm_wrapped := w \<rparr>" "r = r1"
      using assms(4) None g by (cases r1; auto simp: hm_get_def on_wrapped_def split: option.splits)+
    then show ?thesis using w law by simp
  qed
qed

lemma fill_all:
  assumes "good s0" "\<forall>m \<in> set ms. snd m = vw s0 (snd (fst m), l)" "fold (fill_one l) ms (res, s0) = (res', s1)"
  shows "good s1 \<and> vw s1 = vw s0 \<and> res' = fold (\<lambda>m res. res[fst (fst m) := snd m]) ms res"
  using assms
proof (induction ms arbitrary: s0 res)
  case (Cons m ms)
  obtain i k d where m: "m = ((i, k), d)" by (metis prod.exhaust)
  let ?s = "case d of None \<Rightarrow> s0 | Some x \<Rightarrow> s0\<lparr> hm_cache := dict_set_last (k, l) x (hm_cache s0), hm_used_bytes := hm_used_bytes s0 + int (length x) \<rparr>"
  have g: "good ?s" "vw ?s = vw s0"
    using Cons.prems(1,2) fill_good [of s0 k l] by (auto simp: m split: option.split)
  have run: "fold (fill_one l) ms (res[i := d], ?s) = (res', s1)" using Cons.prems(3) by (simp add: m fill_one_def [of l "((i, k), d)"])
  show ?case using Cons.IH [OF g(1) _ run] Cons.prems(2) g(2) by (simp add: m)
qed simp

end

lemma fold_move_to_end [simp]: "map_of (fold (\<lambda>k. move_to_end (k, l)) ks d) = map_of d" "is_dict d \<Longrightarrow> is_dict (fold (\<lambda>k. move_to_end (k, l)) ks d)"
  by (induction ks arbitrary: d) auto

context host_memory
begin

lemma hm_get_parallel_law:
  assumes "good s" "list_all name_ok ks" "name_ok l" "hm_get_parallel he ks l s = (r, s')"
  shows "good s' \<and> vw s' = vw s \<and> (\<forall>xs. r = Inr xs \<longrightarrow> xs = map (\<lambda>k. vw s (k, l)) ks)"
proof -
  let ?res = "map (\<lambda>k. map_of (hm_cache s) (k, l)) ks" and ?ms = "hm_misses ks l s"
  let ?s1 = "s\<lparr> hm_cache := fold (\<lambda>k. move_to_end (k, l)) ks (hm_cache s) \<rparr>"
  have g1: "good ?s1" using assms(1) by (simp add: hm_inv_def hm_dicts_def coherent_def)
  have hit: "map_of (hm_cache s) (ks ! i, l) = vw s (ks ! i, l)" if "i < length ks" "i \<notin> fst ` set ?ms" for i
  proof -
    have "map_of (hm_cache s) (ks ! i, l) \<noteq> None" using that by (force simp: hm_misses_def in_set_enumerate_eq)
    then show ?thesis using assms(1) by (auto simp: hm_inv_def coherent_def)
  qed
  show ?thesis
  proof (cases "?ms = []")
    case True
    then have "s' = ?s1" "r = Inr ?res" using assms(4) by (simp_all add: hm_get_parallel_def)
    moreover have "?res = map (\<lambda>k. vw s (k, l)) ks" using hit True by (intro nth_equalityI) simp_all
    ultimately show ?thesis using g1 by simp
  next
    case False
    obtain r1 w where g: "sb_get_parallel (he_wrapped he) (map snd ?ms) l (hm_wrapped s) = (r1, w)" by fastforce
    have "list_all name_ok (map snd ?ms)" using assms(2) by (auto simp: hm_misses_def list_all_iff in_set_enumerate_eq)
    then have law: "inv w" "view w = vw s" "\<And>xs. r1 = Inr xs \<Longrightarrow> xs = map (\<lambda>k. vw s (k, l)) (map snd ?ms)"
      using parallel_law [OF _ _ assms(3) g] assms(1) by (auto simp: hm_inv_def)
    let ?s2 = "?s1\<lparr> hm_wrapped := w \<rparr>"
    have g2: "good ?s2" by (rule failed_put [OF g1]) (use law in simp_all)
    show ?thesis
    proof (cases r1)
      case (Inl e)
      then have "s' = ?s2" "r = Inl e" using assms(4) False g by (simp_all add: hm_get_parallel_def on_wrapped_def)
      then show ?thesis using g2 law by simp
    next
      case (Inr fetched)
      let ?zs = "zip ?ms fetched"
      have zs: "?zs = map (\<lambda>m. (m, vw s (snd m, l))) ?ms" using law(3) [OF Inr] by (simp add: zip_map2 zip_same_conv_map)
      obtain res' s3 where f: "fold (fill_one l) ?zs (?res, ?s2) = (res', s3)" by fastforce
      have all: "good s3 \<and> vw s3 = vw ?s2 \<and> res' = fold (\<lambda>m res. res[fst (fst m) := snd m]) ?zs ?res"
        by (rule fill_all [OF g2 _ f]) (auto simp: zs law(2))
      have out: "s' = evict_if_needed he s3" "r = Inr res'" using assms(4) False g Inr f by (simp_all add: hm_get_parallel_def on_wrapped_def)
      have "snd m = vw s (ks ! fst (fst m), l)" if "m \<in> set ?zs" for m
        using that unfolding zs by (auto simp: hm_misses_def in_set_enumerate_eq)
      then have "res' ! i = vw s (ks ! i, l)" if "i < length ks" for i
        using all fold_update_nth [of ?zs "\<lambda>j. vw s (ks ! j, l)" i ?res] that hit [OF that] by (auto simp: zs image_image)
      then have "res' = map (\<lambda>k. vw s (k, l)) ks" using all by (auto intro: nth_equalityI)
      then show ?thesis using out all hm_inv_evict [of R view inv s3 he] evicted [of s3] law(2) by (simp add: hm_inv_def)
    qed
  qed
qed

lemma hm_delete_law:
  assumes "good s" "name_ok k" "hm_delete he k s = (r, s')"
  shows "good s' \<and> (\<forall>k' l. k' \<noteq> k \<longrightarrow> vw s' (k', l) = vw s (k', l)) \<and> (is_ok r \<longrightarrow> (\<forall>l. vw s' (k, l) = None))"
proof -
  obtain r1 w where d: "sb_delete (he_wrapped he) k (hm_wrapped s) = (r1, w)" by fastforce
  have law: "inv w" "\<And>k' l. k' \<noteq> k \<Longrightarrow> view w (k', l) = vw s (k', l)" "is_ok r1 \<Longrightarrow> view w (k, l) = None" for l
    using delete_law [OF _ assms(2) d] assms(1) by (simp_all add: hm_inv_def)
  have f: "map_of (filter (\<lambda>p. fst (fst p) \<noteq> k) c) ck = (if fst ck = k then None else map_of c ck)" for c :: "(cache_key \<times> 'v) list" and ck
    by (induction c) auto
  have "good s'"
    using assms(1,3) d law(1,2)
    by (auto simp: hm_delete_def on_wrapped_def Let_def hm_inv_def hm_dicts_def coherent_def f is_dict_filter split: if_splits)
  moreover have "r = r1" "hm_wrapped s' = w" using assms(3) d by (auto simp: hm_delete_def on_wrapped_def Let_def)
  ultimately show ?thesis using law by simp
qed

lemma contract: "atomic_backend (host_memory_backend he) vw good name_ok"
proof (unfold_locales, goal_cases)
  case (1 s k l d m r s')
  then show ?case using hm_put_law [of s k l d m r s'] by (simp add: host_memory_backend_def del: split_paired_All)
next
  case (2 s k l r s')
  then show ?case using hm_get_law [of s k l r s'] by (simp add: host_memory_backend_def)
next
  case (3 s k r s')
  then show ?case using hm_delete_law [of s k r s'] by (simp add: host_memory_backend_def)
next
  case (4 s ks l r s')
  then show ?case using hm_get_parallel_law [of s ks l r s'] by (simp add: host_memory_backend_def)
next
  case (5 s k l d m e s')
  then show ?case using hm_put_law [of s k l d m "Inl e" s'] by (simp add: host_memory_backend_def)
qed

end

text \<open>
  The calls that keep the cache coherent: all that write through it, and those forwarded to the wrapped
  backend that change no cached entry there.
\<close>

inductive coherent_step ::
  "('s, 't) HostEnv \<Rightarrow> ('t \<Rightarrow> bytes \<Rightarrow> bool) \<Rightarrow> ('s \<Rightarrow> cache_key \<Rightarrow> bytes option) \<Rightarrow> ('s \<Rightarrow> bool) \<Rightarrow> (string \<Rightarrow> bool)
     \<Rightarrow> ('s, 't) HostMemory \<Rightarrow> ('s, 't) HostMemory \<Rightarrow> bool"
  for he :: "('s, 't) HostEnv" and R :: "'t \<Rightarrow> bytes \<Rightarrow> bool" and view :: "'s \<Rightarrow> cache_key \<Rightarrow> bytes option"
    and winv :: "'s \<Rightarrow> bool" and name_ok :: "string \<Rightarrow> bool" where
  put: "name_ok k \<Longrightarrow> name_ok l \<Longrightarrow> hm_put he k l d m s = (r, s') \<Longrightarrow> coherent_step he R view winv name_ok s s'"
| put_chunks: "name_ok k \<Longrightarrow> name_ok l \<Longrightarrow> sb_put_chunks (he_wrapped he) = None \<Longrightarrow> hm_put_chunks he k l segs m s = (r, s')
    \<Longrightarrow> coherent_step he R view winv name_ok s s'"
| put_tensor: "name_ok k \<Longrightarrow> name_ok l \<Longrightarrow> he_pin_memory he t = Inr pinned \<Longrightarrow> R pinned d \<Longrightarrow> hm_put_tensor he k l t d m s = (r, s')
    \<Longrightarrow> coherent_step he R view winv name_ok s s'"
| get: "name_ok k \<Longrightarrow> name_ok l \<Longrightarrow> hm_get he k l s = (rg, s') \<Longrightarrow> coherent_step he R view winv name_ok s s'"
| get_tensor: "hm_get_tensor k l s = (x, s') \<Longrightarrow> coherent_step he R view winv name_ok s s'"
| get_parallel: "list_all name_ok ks \<Longrightarrow> name_ok l \<Longrightarrow> hm_get_parallel he ks l s = (rs, s') \<Longrightarrow> coherent_step he R view winv name_ok s s'"
| delete: "name_ok k \<Longrightarrow> hm_delete he k s = (r, s') \<Longrightarrow> coherent_step he R view winv name_ok s s'"
| forward: "winv w \<Longrightarrow> (\<forall>ck. ck \<in> fst ` set (hm_cache s) \<union> fst ` set (hm_tensor_cache s) \<longrightarrow> view w ck = view (hm_wrapped s) ck)
    \<Longrightarrow> coherent_step he R view winv name_ok s (s\<lparr> hm_wrapped := w \<rparr>)"

context host_memory
begin

lemma forward_good:
  assumes "good s" "inv w" "\<forall>ck. ck \<in> fst ` set (hm_cache s) \<union> fst ` set (hm_tensor_cache s) \<longrightarrow> view w ck = vw s ck"
  shows "good (s\<lparr> hm_wrapped := w \<rparr>)"
proof -
  have "view w ck = vw s ck" if "map_of (hm_cache s) ck = Some x" for ck x
    using assms(3) map_of_SomeD [OF that] by (metis UnI1 fst_conv image_eqI)
  moreover have "view w ck = vw s ck" if "map_of (hm_tensor_cache s) ck = Some t" for ck t
    using assms(3) map_of_SomeD [OF that] by (metis UnI2 fst_conv image_eqI)
  ultimately have "coherent R view (s\<lparr> hm_wrapped := w \<rparr>)" using assms(1) unfolding hm_inv_def coherent_def
    by (simp del: split_paired_All)
  then show ?thesis using assms by (simp add: hm_inv_def hm_dicts_def)
qed

lemma coherent_step_good:
  assumes "coherent_step he R view inv name_ok s s'" "good s"
  shows "good s'"
  using assms(1)
proof cases
  case (put_chunks k l segs m r)
  then show ?thesis using hm_put_law [OF assms(2), of k l "concat segs" m r s'] by (simp add: hm_put_chunks_def)
next
  case (forward w)
  then show ?thesis using forward_good [OF assms(2)] by simp
next
  case (put_tensor k l t pinned d m r)
  then show ?thesis using hm_put_tensor_law [OF assms(2)] by simp
qed (use hm_put_law [OF assms(2)] hm_get_law [OF assms(2)] hm_get_tensor_law [OF assms(2)] hm_get_parallel_law [OF assms(2)]
    hm_delete_law [OF assms(2)] in simp)+

lemma coherent_runs:
  assumes "inv w" "(coherent_step he R view inv name_ok)\<^sup>*\<^sup>* (hm_init w) s"
  shows "good s"
  using assms(2)
proof (induction rule: rtranclp_induct)
  case base
  show ?case using assms(1) by (simp add: hm_init_def hm_inv_def hm_dicts_def coherent_def)
next
  case (step s1 s2)
  then show ?case using coherent_step_good by blast
qed

end

section \<open>Runs of the cache\<close>

text \<open>All calls, with any wrapped backend; those that only forward are one rule.\<close>

inductive host_step :: "('s, 't) HostEnv \<Rightarrow> ('s, 't) HostMemory \<Rightarrow> ('s, 't) HostMemory \<Rightarrow> bool" for he :: "('s, 't) HostEnv" where
  put: "hm_put he k l d m s = (r, s') \<Longrightarrow> host_step he s s'"
| put_tensor: "hm_put_tensor he k l t d m s = (r, s') \<Longrightarrow> host_step he s s'"
| get_tensor: "hm_get_tensor k l s = (x, s') \<Longrightarrow> host_step he s s'"
| get: "hm_get he k l s = (r, s') \<Longrightarrow> host_step he s s'"
| get_parallel: "hm_get_parallel he ks l s = (r, s') \<Longrightarrow> host_step he s s'"
| delete: "hm_delete he k s = (r, s') \<Longrightarrow> host_step he s s'"
| forward: "host_step he s (s\<lparr> hm_wrapped := w \<rparr>)"

text \<open>Within the budget, or holding nothing.\<close>

definition within :: "('s, 't) HostEnv \<Rightarrow> ('s, 't) HostMemory \<Rightarrow> bool" where
  "within he s \<longleftrightarrow> hm_used_bytes s \<le> he_max_capacity he \<or> hm_cache s = [] \<and> hm_tensor_cache s = []"

definition settles :: "('s, 't) HostEnv \<Rightarrow> ('s, 't) HostMemory \<Rightarrow> ('s, 't) HostMemory \<Rightarrow> bool" where
  "settles he s s' \<longleftrightarrow> hm_dicts s' \<and> hm_leak he s \<le> hm_leak he s' \<and> (within he s \<longrightarrow> within he s')"

lemma settles_evict:
  assumes "hm_dicts s1" "hm_leak he s \<le> hm_leak he s1"
  shows "settles he s (evict_if_needed he s1)"
  using assms evict_if_needed_spec [OF refl assms(1), of he] by (simp add: settles_def within_def)

lemma settles_same:
  assumes "hm_dicts s" "map_of (hm_cache s') = map_of (hm_cache s)" "is_dict (hm_cache s')" "is_dict (hm_tensor_cache s')"
    "dict_sum length (hm_cache s') = dict_sum length (hm_cache s)" "map_of (hm_tensor_cache s') = map_of (hm_tensor_cache s)"
    "dict_sum (he_nbytes he) (hm_tensor_cache s') = dict_sum (he_nbytes he) (hm_tensor_cache s)" "hm_used_bytes s' = hm_used_bytes s"
  shows "settles he s s'"
proof -
  have "hm_cache s = [] \<longleftrightarrow> hm_cache s' = []" "hm_tensor_cache s = [] \<longleftrightarrow> hm_tensor_cache s' = []"
    using assms(2,6) by (metis map_of_eq_empty_iff)+
  then show ?thesis using assms by (simp add: settles_def hm_dicts_def hm_leak_def within_def)
qed

lemma settles_wrapped: "hm_dicts s \<Longrightarrow> settles he s (s\<lparr> hm_wrapped := w \<rparr>)"
  by (rule settles_same) (simp_all add: hm_dicts_def)

lemma put_settles:
  assumes "hm_dicts s" "hm_put he k l d m s = (r, s')"
  shows "settles he s s'"
proof -
  obtain r1 w where p: "sb_put (he_wrapped he) k l d m (hm_wrapped s) = (r1, w)" by fastforce
  show ?thesis
  proof (cases r1)
    case (Inl e)
    then show ?thesis using assms p settles_wrapped by (auto simp: hm_put_def on_wrapped_def)
  next
    case (Inr u)
    have c: "is_dict (hm_cache s)" "is_dict (hm_tensor_cache s)" using assms(1) by (simp_all add: hm_dicts_def)
    have "s' = evict_if_needed he (note_meta k m (let s1 = s\<lparr> hm_wrapped := w \<rparr>; s2 = (case map_of (hm_cache s1) (k, l) of None \<Rightarrow> s1
        | Some old \<Rightarrow> s1\<lparr> hm_used_bytes := hm_used_bytes s1 - int (length old), hm_cache := move_to_end (k, l) (hm_cache s1) \<rparr>)
      in s2\<lparr> hm_cache := AList.update (k, l) d (hm_cache s2), hm_used_bytes := hm_used_bytes s2 + int (length d),
             hm_tensor_cache := dict_pop (k, l) (hm_tensor_cache s2) \<rparr>))"
      using assms(2) p Inr by (simp add: hm_put_def on_wrapped_def Let_def)
    then show ?thesis
      using c dict_sum_update [of "hm_cache s" length "(k, l)" d] dict_sum_update [of "move_to_end (k, l) (hm_cache s)" length "(k, l)" d]
        dict_sum_pop [OF c(2), of "he_nbytes he" "(k, l)"]
      by (simp only:, intro settles_evict) (auto simp: Let_def hm_dicts_def hm_leak_def split: option.split)
  qed
qed

lemma put_tensor_settles:
  assumes "hm_dicts s" "hm_put_tensor he k l t d m s = (r, s')"
  shows "settles he s s'"
proof -
  obtain r1 w where p: "sb_put (he_wrapped he) k l d m (hm_wrapped s) = (r1, w)" by fastforce
  show ?thesis
  proof (cases "is_ok r1 \<and> is_ok (he_pin_memory he t)")
    case False
    then have "s' = s\<lparr> hm_wrapped := w \<rparr>"
      using assms(2) p by (cases r1; cases "he_pin_memory he t") (auto simp: hm_put_tensor_def on_wrapped_def)
    then show ?thesis using settles_wrapped [OF assms(1)] by simp
  next
    case True
    then obtain u pin where pin: "r1 = Inr u" "he_pin_memory he t = Inr pin" by (cases r1; cases "he_pin_memory he t") auto
    have c: "is_dict (hm_cache s)" "is_dict (hm_tensor_cache s)" using assms(1) by (simp_all add: hm_dicts_def)
    have "s' = evict_if_needed he (note_meta k m (let s1 = s\<lparr> hm_wrapped := w \<rparr>; s2 = (case map_of (hm_cache s1) (k, l) of
          Some old \<Rightarrow> s1\<lparr> hm_used_bytes := hm_used_bytes s1 - int (length old) \<rparr>
        | None \<Rightarrow> (case map_of (hm_tensor_cache s1) (k, l) of
            Some old_t \<Rightarrow> s1\<lparr> hm_used_bytes := hm_used_bytes s1 - int (he_nbytes he old_t) \<rparr> | None \<Rightarrow> s1))
      in s2\<lparr> hm_tensor_cache := dict_set_last (k, l) pin (hm_tensor_cache s2), hm_cache := dict_pop (k, l) (hm_cache s2),
             hm_used_bytes := hm_used_bytes s2 + int (he_nbytes he pin) \<rparr>))"
      using assms(2) p pin by (simp add: hm_put_tensor_def on_wrapped_def Let_def)
    then show ?thesis
      using c dict_sum_set_last [OF c(2), of "he_nbytes he" "(k, l)" pin] dict_sum_pop [OF c(1), of length "(k, l)"]
      by (simp only:, intro settles_evict) (auto simp: Let_def hm_dicts_def hm_leak_def split: option.split)
  qed
qed

lemma fill_leak:
  assumes "hm_dicts s" "s' = s\<lparr> hm_cache := dict_set_last ck d (hm_cache s), hm_used_bytes := hm_used_bytes s + int (length d) \<rparr>"
  shows "hm_dicts s' \<and> hm_leak he s \<le> hm_leak he s'"
proof -
  have "is_dict (hm_cache s)" using assms(1) by (simp add: hm_dicts_def)
  from dict_sum_set_last [OF this, of length ck d] show ?thesis using assms by (simp add: hm_dicts_def hm_leak_def)
qed

lemma get_settles:
  assumes "hm_dicts s" "hm_get he k l s = (r, s')"
  shows "settles he s s'"
proof (cases "map_of (hm_cache s) (k, l)")
  case (Some d)
  then show ?thesis using assms by (intro settles_same) (auto simp: hm_get_def hm_dicts_def)
next
  case None
  obtain r1 w where g: "sb_get (he_wrapped he) k l (hm_wrapped s) = (r1, w)" by fastforce
  let ?s1 = "s\<lparr> hm_wrapped := w \<rparr>"
  have d1: "hm_dicts ?s1" "hm_leak he ?s1 = hm_leak he s" using assms(1) by (simp_all add: hm_dicts_def hm_leak_def)
  show ?thesis
  proof (cases "\<exists>d. r1 = Inr (Some d)")
    case True
    then obtain d where d: "r1 = Inr (Some d)" by blast
    have "s' = evict_if_needed he (?s1\<lparr> hm_cache := dict_set_last (k, l) d (hm_cache ?s1), hm_used_bytes := hm_used_bytes ?s1 + int (length d) \<rparr>)"
      using assms(2) None g d by (simp add: hm_get_def on_wrapped_def)
    then show ?thesis using fill_leak [where ck = "(k, l)" and d = d and he = he, OF d1(1) refl] d1(2) by (simp only:, intro settles_evict) auto
  next
    case False
    then have "s' = ?s1" using assms(2) None g by (cases r1) (auto simp: hm_get_def on_wrapped_def split: option.splits)
    then show ?thesis using settles_wrapped [OF assms(1)] by simp
  qed
qed

lemma fill_all_leak:
  assumes "hm_dicts s" "fold (fill_one l) ms (res, s) = (res', s')"
  shows "hm_dicts s' \<and> hm_leak he s \<le> hm_leak he s'"
  using assms
proof (induction ms arbitrary: s res)
  case (Cons m ms)
  obtain i k d where m: "m = ((i, k), d)" by (metis prod.exhaust)
  let ?s = "case d of None \<Rightarrow> s | Some x \<Rightarrow> s\<lparr> hm_cache := dict_set_last (k, l) x (hm_cache s), hm_used_bytes := hm_used_bytes s + int (length x) \<rparr>"
  have one: "hm_dicts ?s \<and> hm_leak he s \<le> hm_leak he ?s"
    using Cons.prems(1) fill_leak [OF Cons.prems(1) refl] by (auto split: option.split)
  have "fold (fill_one l) ms (res[i := d], ?s) = (res', s')" using Cons.prems(2) by (simp add: m fill_one_def [of l "((i, k), d)"])
  then show ?case using Cons.IH one by fastforce
qed simp

lemma dict_sum_fold_move [simp]: "is_dict d \<Longrightarrow> dict_sum f (fold (\<lambda>k. move_to_end (k, l)) ks d) = dict_sum f d"
  by (induction ks arbitrary: d) auto

lemma get_parallel_settles:
  assumes "hm_dicts s" "hm_get_parallel he ks l s = (r, s')"
  shows "settles he s s'"
proof -
  let ?s1 = "s\<lparr> hm_cache := fold (\<lambda>k. move_to_end (k, l)) ks (hm_cache s) \<rparr>" and ?ms = "hm_misses ks l s"
  have d: "is_dict (hm_cache s)" "is_dict (hm_tensor_cache s)" using assms(1) by (simp_all add: hm_dicts_def)
  obtain r1 w where g: "sb_get_parallel (he_wrapped he) (map snd ?ms) l (hm_wrapped s) = (r1, w)" by fastforce
  have s1: "settles he s ?s1" "settles he s (?s1\<lparr> hm_wrapped := w \<rparr>)" by (rule settles_same; use assms(1) d in simp)+
  consider "s' = ?s1" | "s' = ?s1\<lparr> hm_wrapped := w \<rparr>"
    | fetched res' s3 where "fold (fill_one l) (zip ?ms fetched) (map (\<lambda>k. map_of (hm_cache s) (k, l)) ks, ?s1\<lparr> hm_wrapped := w \<rparr>) = (res', s3)"
        "s' = evict_if_needed he s3"
    using assms(2) g by (cases r1) (auto simp: hm_get_parallel_def on_wrapped_def Let_def split: if_splits prod.splits)
  then show ?thesis
  proof cases
    case 3
    have "hm_dicts (?s1\<lparr> hm_wrapped := w \<rparr>)" using s1(2) by (simp add: settles_def)
    from fill_all_leak [OF this 3(1), of he] s1(2) show ?thesis
      unfolding 3(2) by (intro settles_evict) (auto simp: settles_def)
  qed (use s1 in simp_all)
qed

lemma dict_sum_filter_split: "dict_sum f (filter P d) + dict_sum f (filter (\<lambda>x. \<not> P x) d) = dict_sum f d"
  by (induction d) (auto split: if_splits)

lemma delete_settles:
  assumes "hm_dicts s" "hm_delete he k s = (r, s')"
  shows "settles he s s'"
  using assms dict_sum_filter_split [of length "\<lambda>p. fst (fst p) = k" "hm_cache s"]
    dict_sum_filter_split [of "he_nbytes he" "\<lambda>p. fst (fst p) = k" "hm_tensor_cache s"]
  by (auto simp: hm_delete_def on_wrapped_def Let_def settles_def hm_dicts_def hm_leak_def within_def is_dict_filter split: prod.splits)

lemma step_settles:
  assumes "host_step he s s'" "hm_dicts s"
  shows "settles he s s'"
  using assms(1)
proof cases
  case (get_tensor k l x)
  then show ?thesis using assms(2) by (intro settles_same) (auto simp: hm_get_tensor_def hm_dicts_def split: option.splits)
next
  case (forward w)
  then show ?thesis using settles_wrapped [OF assms(2)] by simp
qed (rule put_settles put_tensor_settles get_settles get_parallel_settles delete_settles, rule assms(2), assumption)+

lemma steps_settle:
  assumes "(host_step he)\<^sup>*\<^sup>* s s'" "hm_dicts s"
  shows "settles he s s'"
  using assms
proof (induction rule: rtranclp_induct)
  case base
  then show ?case by (simp add: settles_def)
next
  case (step s1 s2)
  then show ?case using step_settles [OF step.hyps(2)] by (auto simp: settles_def)
qed

text \<open>Reads and forwarded calls replace no cached entry: it stays or is evicted.\<close>

inductive read_step :: "('s, 't) HostEnv \<Rightarrow> ('s, 't) HostMemory \<Rightarrow> ('s, 't) HostMemory \<Rightarrow> bool" for he :: "('s, 't) HostEnv" where
  get_tensor: "hm_get_tensor k l s = (x, s') \<Longrightarrow> read_step he s s'"
| get: "hm_get he k l s = (r, s') \<Longrightarrow> read_step he s s'"
| get_parallel: "hm_get_parallel he ks l s = (r, s') \<Longrightarrow> read_step he s s'"
| forward: "read_step he s (s\<lparr> hm_wrapped := w \<rparr>)"

lemma read_step_host: "read_step he s s' \<Longrightarrow> host_step he s s'"
  by (erule read_step.cases) (auto intro: host_step.intros)

lemma fill_other:
  assumes "fold (fill_one l) ms (res, s) = (res', s')" "\<forall>m \<in> set ms. (snd (fst m), l) \<noteq> ck"
  shows "map_of (hm_cache s') ck = map_of (hm_cache s) ck"
  using assms
proof (induction ms arbitrary: s res)
  case (Cons m ms)
  obtain i k d where m: "m = ((i, k), d)" by (metis prod.exhaust)
  let ?s = "case d of None \<Rightarrow> s | Some x \<Rightarrow> s\<lparr> hm_cache := dict_set_last (k, l) x (hm_cache s), hm_used_bytes := hm_used_bytes s + int (length x) \<rparr>"
  have "fold (fill_one l) ms (res[i := d], ?s) = (res', s')" using Cons.prems(1) by (simp add: m fill_one_def [of l "((i, k), d)"])
  then have "map_of (hm_cache s') ck = map_of (hm_cache ?s) ck" using Cons.IH Cons.prems(2) by simp
  then show ?case using Cons.prems(2) m by (auto split: option.splits)
qed simp

lemma get_parallel_keeps:
  assumes "hm_get_parallel he ks l s = (r, s')" "hm_dicts s" "map_of (hm_cache s) ck = Some old"
  shows "map_of (hm_cache s') ck \<in> {None, Some old}"
proof -
  let ?s1 = "s\<lparr> hm_cache := fold (\<lambda>k. move_to_end (k, l)) ks (hm_cache s) \<rparr>" and ?ms = "hm_misses ks l s"
  obtain r1 w where g: "sb_get_parallel (he_wrapped he) (map snd ?ms) l (hm_wrapped s) = (r1, w)" by fastforce
  consider "map_of (hm_cache s') ck = map_of (hm_cache s) ck"
    | fetched res' s3 where "fold (fill_one l) (zip ?ms fetched) (map (\<lambda>k. map_of (hm_cache s) (k, l)) ks, ?s1\<lparr> hm_wrapped := w \<rparr>) = (res', s3)"
        "s' = evict_if_needed he s3"
    using assms(1) g by (cases r1) (auto simp: hm_get_parallel_def on_wrapped_def Let_def split: if_splits prod.splits)
  then show ?thesis
  proof cases
    case 2
    have d: "hm_dicts (?s1\<lparr> hm_wrapped := w \<rparr>)" using assms(2) by (simp add: hm_dicts_def)
    have "(snd (fst m), l) \<noteq> ck" if "m \<in> set (zip ?ms fetched)" for m
    proof -
      have "fst m \<in> set ?ms" using that by (metis prod.collapse set_zip_leftD)
      then show ?thesis using assms(3) by (auto simp: hm_misses_def)
    qed
    then have "map_of (hm_cache s3) ck = Some old" using fill_other [OF 2(1), of ck] assms(3) by simp
    then show ?thesis using evict_if_needed_spec(4) [OF 2(2), of ck] fill_all_leak [OF d 2(1)] by (cases "map_of (hm_cache s') ck") auto
  qed (use assms(3) in simp)
qed

lemma read_step_keeps:
  assumes "read_step he s s'" "hm_dicts s" "map_of (hm_cache s) ck = Some old" "map_of (hm_cache s') ck \<noteq> None"
  shows "map_of (hm_cache s') ck = Some old"
  using assms(1)
proof cases
  case (get_tensor k l x)
  then show ?thesis using assms(3) by (auto simp: hm_get_tensor_def split: option.splits)
next
  case (get k l r)
  consider "map_of (hm_cache s') ck = map_of (hm_cache s) ck"
    | w d where "map_of (hm_cache s) (k, l) = None"
        "s' = evict_if_needed he (s\<lparr> hm_wrapped := w, hm_cache := dict_set_last (k, l) d (hm_cache s), hm_used_bytes := hm_used_bytes s + int (length d) \<rparr>)"
  proof (cases "map_of (hm_cache s) (k, l)")
    case (Some d)
    then show ?thesis using get that(1) by (auto simp: hm_get_def)
  next
    case None
    obtain r1 w where g: "sb_get (he_wrapped he) k l (hm_wrapped s) = (r1, w)" by fastforce
    show ?thesis
    proof (cases "\<exists>d. r1 = Inr (Some d)")
      case True
      then show ?thesis using get None g that(2) by (auto simp: hm_get_def on_wrapped_def)
    next
      case False
      then have "s' = s\<lparr> hm_wrapped := w \<rparr>" using get None g by (cases r1) (auto simp: hm_get_def on_wrapped_def split: option.splits)
      then show ?thesis using that(1) by simp
    qed
  qed
  then show ?thesis
  proof cases
    case 2
    have "(k, l) \<noteq> ck" using 2(1) assms(3) by auto
    then show ?thesis using evict_if_needed_spec(4) [OF 2(2), of ck] assms(2-4) by (auto simp: hm_dicts_def)
  qed (use assms(3) in simp)
next
  case (get_parallel ks l r)
  then show ?thesis using get_parallel_keeps [OF _ assms(2,3), of he ks l r s'] assms(4) by simp
next
  case (forward w)
  then show ?thesis using assms(3) by simp
qed

interpretation host: host_memory
  "\<lparr> he_wrapped = memory_backend, he_max_capacity = cap, he_nbytes = nb, he_pin_memory = pin \<rparr>" ms_view ms_inv "\<lambda>_. True" R for cap nb pin R
  by (simp add: host_memory_def mem.atomic_backend_axioms)


section \<open>Properties\<close>

text \<open>
  C8. The host cache is transparent for what goes through it.  In front of any backend whose failed
  writes change nothing, after any sequence of \<open>put\<close>, \<open>put_tensor\<close> (with a pinning that succeeds),
  \<open>put_chunks\<close> without native segments, \<open>get\<close>, \<open>get_tensor\<close>, \<open>get_parallel\<close>, \<open>delete\<close> and forwarded
  calls that change no cached entry: a byte read (single or batched, with any hits, misses and evictions)
  that returns has exactly what the wrapped backend holds and changes nothing there; a hit is answered
  from the cache and a miss by the wrapped backend itself; a cached tensor stands for the stored bytes; a
  write that returns is stored and the next read agrees, one that raises changes nothing; a deletion that
  returns leaves nothing to read.  Forwarded writes over a cached entry are outside this contract.
\<close>

theorem host_memory_transparent:
  assumes "atomic_backend (he_wrapped he) view winv name_ok" "winv w" "(coherent_step he R view winv name_ok)\<^sup>*\<^sup>* (hm_init w) s"
    "list_all name_ok (k # ks)" "name_ok l"
    "hm_get he k l s = (rg, s1)" "hm_get_parallel he ks l s = (rp, s2)" "hm_get_tensor k l s = (rt, s3)"
    "hm_put he k l d m s = (ru, s4)" "hm_delete he k s = (rd, s5)"
  shows "view (hm_wrapped s1) = view (hm_wrapped s) \<and> (\<forall>x. rg = Inr x \<longrightarrow> x = view (hm_wrapped s) (k, l))
    \<and> rg = (case map_of (hm_cache s) (k, l) of Some x \<Rightarrow> Inr (Some x) | None \<Rightarrow> fst (sb_get (he_wrapped he) k l (hm_wrapped s)))
    \<and> view (hm_wrapped s2) = view (hm_wrapped s) \<and> (\<forall>xs. rp = Inr xs \<longrightarrow> xs = map (\<lambda>k. view (hm_wrapped s) (k, l)) ks)
    \<and> hm_wrapped s3 = hm_wrapped s \<and> (\<forall>t. rt = Some t \<longrightarrow> (\<exists>x. view (hm_wrapped s) (k, l) = Some x \<and> R t x))
    \<and> (if is_ok ru then view (hm_wrapped s4) = (view (hm_wrapped s))((k, l) \<mapsto> d) \<and> (\<forall>x. fst (hm_get he k l s4) = Inr x \<longrightarrow> x = Some d)
       else view (hm_wrapped s4) = view (hm_wrapped s))
    \<and> (\<forall>k' l'. k' \<noteq> k \<longrightarrow> view (hm_wrapped s5) (k', l') = view (hm_wrapped s) (k', l'))
    \<and> (is_ok rd \<longrightarrow> (\<forall>l'. view (hm_wrapped s5) (k, l') = None) \<and> (\<forall>x. fst (hm_get he k l s5) = Inr x \<longrightarrow> x = None))"
proof -
  have hm: "host_memory he view winv name_ok" by (simp add: host_memory_def assms(1))
  have good: "hm_inv R view winv s" by (rule host_memory.coherent_runs [OF hm assms(2,3)])
  have names: "name_ok k" "list_all name_ok ks" using assms(4) by simp_all
  note put = host_memory.hm_put_law [OF hm good names(1) assms(5,9)] and del = host_memory.hm_delete_law [OF hm good names(1) assms(10)]
  have after: "x = view (hm_wrapped t) (k, l)" if "hm_inv R view winv t" "fst (hm_get he k l t) = Inr x" for t x
    using host_memory.hm_get_law [OF hm that(1) names(1) assms(5) surjective_pairing] that(2) by simp
  have hit: "rg = (case map_of (hm_cache s) (k, l) of Some x \<Rightarrow> Inr (Some x) | None \<Rightarrow> fst (sb_get (he_wrapped he) k l (hm_wrapped s)))"
    using assms(6) by (cases "fst (sb_get (he_wrapped he) k l (hm_wrapped s))") (auto simp: hm_get_def on_wrapped_def pstep_def split: option.splits prod.splits)
  have "hm_wrapped s3 = hm_wrapped s" using assms(8) by (auto simp: hm_get_tensor_def split: option.splits)
  moreover have "view (hm_wrapped s4) = (view (hm_wrapped s))((k, l) \<mapsto> d)" if "is_ok ru" using put that by (intro ext) auto
  moreover have "x = Some d" if "is_ok ru" "fst (hm_get he k l s4) = Inr x" for x using put that after [of s4 x] by simp
  moreover have "x = None" if "is_ok rd" "fst (hm_get he k l s5) = Inr x" for x using del that after [of s5 x] by simp
  ultimately show ?thesis
    using hit put del host_memory.hm_get_law [OF hm good names(1) assms(5,6)] host_memory.hm_get_parallel_law [OF hm good names(2) assms(5,7)]
      host_memory.hm_get_tensor_law [OF hm good assms(8)]
    by (simp del: split_paired_All)
qed

definition sample_host :: "(MemoryStorage, bytes) HostEnv" where
  "sample_host = \<lparr> he_wrapped = memory_backend, he_max_capacity = 4, he_nbytes = length, he_pin_memory = Inr \<rparr>"

definition host_start :: "(MemoryStorage, bytes) HostMemory" where
  "host_start = hm_init (memory_storage_init 100)"

text \<open>Two entries written, the first evicted by the second, which stays cached.\<close>

definition host_used :: "(MemoryStorage, bytes) HostMemory" where
  "host_used = snd (hm_put sample_host ''b'' ''l'' [3, 4] None (snd (hm_put sample_host ''a'' ''l'' [1, 2, 3] None host_start)))"

theorem host_memory_transparent_witness:
  "hm_cache host_used = [((''b'', ''l''), [3, 4])]
   \<and> fst (hm_get_parallel sample_host [''a'', ''b'', ''c''] ''l'' host_used) = Inr [Some [1, 2, 3], Some [3, 4], None]
   \<and> fst (hm_get sample_host ''b'' ''l'' (snd (hm_delete sample_host ''b'' host_used))) = Inr None"
proof -
  obtain r1 t1 where p1: "hm_put sample_host ''a'' ''l'' [1, 2, 3] None host_start = (r1, t1)" by fastforce
  obtain r2 t2 where p2: "hm_put sample_host ''b'' ''l'' [3, 4] None t1 = (r2, t2)" by fastforce
  let ?step = "coherent_step sample_host (=) ms_view ms_inv (\<lambda>_. True)"
  have "?step host_start t1" "?step t1 t2" by (rule coherent_step.put [OF _ _ p1] coherent_step.put [OF _ _ p2]; simp)+
  then have "?step\<^sup>*\<^sup>* host_start t2" by (rule converse_rtranclp_into_rtranclp [OF _ r_into_rtranclp])
  moreover have t2: "t2 = host_used" using p1 p2 by (simp add: host_used_def)
  ultimately have run: "(coherent_step sample_host (=) ms_view ms_inv (\<lambda>_. True))\<^sup>*\<^sup>* (hm_init (memory_storage_init 100)) host_used"
    by (simp add: host_start_def)
  have facts: "hm_cache host_used = [((''b'', ''l''), [3, 4])]" "ms_inv (memory_storage_init 100)"
    "is_ok (fst (hm_get_parallel sample_host [''a'', ''b'', ''c''] ''l'' host_used))"
    "map (\<lambda>k. ms_view (hm_wrapped host_used) (k, ''l'')) [''a'', ''b'', ''c''] = [Some [1, 2, 3], Some [3, 4], None]"
    "is_ok (fst (hm_delete sample_host ''b'' host_used))"
    "is_ok (fst (hm_get sample_host ''b'' ''l'' (snd (hm_delete sample_host ''b'' host_used))))"
    by code_simp+
  have b: "atomic_backend (he_wrapped sample_host) ms_view ms_inv (\<lambda>_. True)" by (simp add: sample_host_def mem.atomic_backend_axioms)
  note law = host_memory_transparent [OF b facts(2) run _ _ surjective_pairing surjective_pairing surjective_pairing surjective_pairing surjective_pairing,
      of "''b''" "[''a'', ''b'', ''c'']" "''l''" "[]" None]
  have "xs = [Some [1, 2, 3], Some [3, 4], None]" if "fst (hm_get_parallel sample_host [''a'', ''b'', ''c''] ''l'' host_used) = Inr xs" for xs
    using law that facts(4) by simp
  moreover have "x = None" if "fst (hm_get sample_host ''b'' ''l'' (snd (hm_delete sample_host ''b'' host_used))) = Inr x" for x
    using law that facts(5) by simp
  ultimately show ?thesis using facts(1,3,6) unfolding is_ok_def by (auto split: sum.splits)
qed

text \<open>
  C18. The host cache stays within its budget.  After any sequence of calls, on any wrapped backend and
  whatever it raises, the bytes and tensors held never exceed the configured capacity, and the usage
  counter is never below what is held.
\<close>

theorem host_memory_bounded:
  assumes "(host_step he)\<^sup>*\<^sup>* (hm_init w) s" "0 \<le> he_max_capacity he"
  shows "int (dict_sum length (hm_cache s) + dict_sum (he_nbytes he) (hm_tensor_cache s)) \<le> he_max_capacity he
    \<and> int (dict_sum length (hm_cache s) + dict_sum (he_nbytes he) (hm_tensor_cache s)) \<le> hm_used_bytes s"
proof -
  have "settles he (hm_init w) s" by (rule steps_settle [OF assms(1)]) (simp add: hm_init_def hm_dicts_def)
  then have "within he s" "0 \<le> hm_leak he s" using assms(2) by (simp_all add: settles_def within_def hm_init_def hm_leak_def)
  then show ?thesis using assms(2) by (auto simp: within_def hm_leak_def)
qed

theorem host_memory_bounded_witness:
  "dict_sum length (hm_cache (snd (hm_put sample_host ''k'' ''l'' [1, 2, 3, 4, 5] None host_start))) \<le> 4"
proof -
  obtain r s where run: "hm_put sample_host ''k'' ''l'' [1, 2, 3, 4, 5] None host_start = (r, s)" by fastforce
  have "(host_step sample_host)\<^sup>*\<^sup>* (hm_init (memory_storage_init 100)) s"
    using host_step.put [OF run] by (simp add: host_start_def)
  moreover have "he_max_capacity sample_host = 4" "he_nbytes sample_host = length" by (simp_all add: sample_host_def)
  ultimately show ?thesis using host_memory_bounded [of sample_host "memory_storage_init 100" s] run by simp
qed

text \<open>
  C19. The usage counter leaks.  Storing bytes under a key whose tensor is cached drops the tensor without
  giving its bytes back, so the counter exceeds the contents by the size of the tensor from then on; no
  later call repairs it, and every later state can hold only what the excess leaves of the capacity.
\<close>

theorem host_memory_leak:
  assumes "hm_dicts s" "within he s" "map_of (hm_tensor_cache s) (k, l) = Some t" "hm_put he k l d m s = (Inr (), s1)"
    "(host_step he)\<^sup>*\<^sup>* s1 s2" "0 \<le> he_max_capacity he"
  shows "hm_leak he s1 = hm_leak he s + int (he_nbytes he t) \<and> hm_leak he s1 \<le> hm_leak he s2
    \<and> int (dict_sum length (hm_cache s2) + dict_sum (he_nbytes he) (hm_tensor_cache s2)) \<le> max 0 (he_max_capacity he - hm_leak he s1)"
proof -
  have c: "is_dict (hm_cache s)" "is_dict (hm_tensor_cache s)" using assms(1) by (simp_all add: hm_dicts_def)
  obtain u w where p: "sb_put (he_wrapped he) k l d m (hm_wrapped s) = (Inr u, w)"
    using assms(4) by (cases "sb_put (he_wrapped he) k l d m (hm_wrapped s)"; cases "fst (sb_put (he_wrapped he) k l d m (hm_wrapped s))")
      (auto simp: hm_put_def on_wrapped_def)
  let ?s3 = "let s1 = s\<lparr> hm_wrapped := w \<rparr>; s2 = (case map_of (hm_cache s1) (k, l) of None \<Rightarrow> s1
        | Some old \<Rightarrow> s1\<lparr> hm_used_bytes := hm_used_bytes s1 - int (length old), hm_cache := move_to_end (k, l) (hm_cache s1) \<rparr>)
      in s2\<lparr> hm_cache := AList.update (k, l) d (hm_cache s2), hm_used_bytes := hm_used_bytes s2 + int (length d),
             hm_tensor_cache := dict_pop (k, l) (hm_tensor_cache s2) \<rparr>"
  have s1: "s1 = evict_if_needed he (note_meta k m ?s3)" using assms(4) p by (simp add: hm_put_def on_wrapped_def Let_def)
  have d3: "hm_dicts ?s3" using c by (auto simp: Let_def hm_dicts_def split: option.split)
  have "hm_leak he ?s3 = hm_leak he s + int (he_nbytes he t)"
    using c dict_sum_update [of "hm_cache s" length "(k, l)" d] dict_sum_update [of "move_to_end (k, l) (hm_cache s)" length "(k, l)" d]
      dict_sum_pop [OF c(2), of "he_nbytes he" "(k, l)"] assms(3)
    by (auto simp: Let_def hm_leak_def split: option.split)
  then have leak: "hm_leak he s1 = hm_leak he s + int (he_nbytes he t)"
    using evict_if_needed_spec(3) [OF s1] d3 by simp
  have "settles he s s1" by (rule put_settles [OF assms(1,4)])
  then have "hm_dicts s1" "within he s1" using assms(2) by (simp_all add: settles_def)
  with steps_settle [OF assms(5)] have "hm_leak he s1 \<le> hm_leak he s2" "within he s2" by (simp_all add: settles_def)
  then show ?thesis using leak by (auto simp: within_def hm_leak_def)
qed

definition host_leaking :: "(MemoryStorage, bytes) HostMemory" where
  "host_leaking = snd (hm_put_tensor sample_host ''k'' ''l'' [1, 2, 3, 4] [1] None host_start)"

theorem host_memory_leak_witness:
  "\<forall>s. \<not> ((host_step sample_host)\<^sup>*\<^sup>* (snd (hm_put sample_host ''k'' ''l'' [] None host_leaking)) s \<and> hm_cache s = [((''x'', ''l''), [7])])"
proof -
  have facts: "hm_dicts host_leaking" "within sample_host host_leaking" "map_of (hm_tensor_cache host_leaking) (''k'', ''l'') = Some [1, 2, 3, 4]"
    "hm_leak sample_host host_leaking = 0" "fst (hm_put sample_host ''k'' ''l'' [] None host_leaking) = Inr ()"
    "he_max_capacity sample_host = 4"
    by code_simp+
  have len: "he_nbytes sample_host = length" by (simp add: sample_host_def)
  obtain s1 where run: "hm_put sample_host ''k'' ''l'' [] None host_leaking = (Inr (), s1)" using facts(5) by (metis prod.collapse)
  have "\<not> ((host_step sample_host)\<^sup>*\<^sup>* s1 s \<and> hm_cache s = [((''x'', ''l''), [7])])" for s
    using host_memory_leak [OF facts(1-3) run, of s] facts(4,6) len by auto
  then show ?thesis using run by simp
qed

text \<open>
  C38. Segmented writes bypass the cache.  When the wrapped backend takes segments, \<open>put_chunks\<close> writes them
  there and leaves a cached entry of the same key in place.  As long as that entry is not evicted, any
  sequence of reads and forwarded calls, further segmented writes included, goes on returning the old
  bytes, by \<open>get\<close> and by \<open>get_parallel\<close>, whatever the wrapped backend holds.
\<close>

theorem host_memory_put_chunks_stale:
  assumes "(host_step he)\<^sup>*\<^sup>* (hm_init w) s" "map_of (hm_cache s) (k, l) = Some old" "sb_put_chunks (he_wrapped he) = Some f"
    "hm_put_chunks he k l segments m s = (r, s1)" "(\<lambda>t t'. read_step he t t' \<and> map_of (hm_cache t') (k, l) \<noteq> None)\<^sup>*\<^sup>* s1 s2"
  shows "(r, hm_wrapped s1) = f k l segments m (hm_wrapped s) \<and> hm_cache s1 = hm_cache s
    \<and> fst (hm_get he k l s2) = Inr (Some old) \<and> fst (hm_get_parallel he [k] l s2) = Inr [Some old]"
proof -
  have "settles he (hm_init w) s" by (rule steps_settle [OF assms(1)]) (simp add: hm_init_def hm_dicts_def)
  then have d: "hm_dicts s" by (simp add: settles_def)
  have s1: "(r, hm_wrapped s1) = f k l segments m (hm_wrapped s)" "hm_cache s1 = hm_cache s" "hm_tensor_cache s1 = hm_tensor_cache s"
    using assms(3,4) by (auto simp: hm_put_chunks_def on_wrapped_def split: prod.splits)
  from assms(5) have "hm_dicts s2 \<and> map_of (hm_cache s2) (k, l) = Some old"
  proof (induction rule: rtranclp_induct)
    case base
    then show ?case using d s1(2,3) assms(2) by (simp add: hm_dicts_def)
  next
    case (step t t')
    then show ?case using read_step_keeps [of he t t' "(k, l)" old] step_settles [OF read_step_host, of he t t'] by (auto simp: settles_def)
  qed
  then show ?thesis using s1 by (simp add: hm_get_def hm_get_parallel_def hm_misses_def)
qed

definition chunky_host :: "(MemoryStorage, bytes) HostEnv" where
  "chunky_host = sample_host\<lparr> he_wrapped := memory_backend\<lparr> sb_put_chunks := Some (\<lambda>k l segs m. ms_put k l (concat segs) m) \<rparr> \<rparr>"

theorem host_memory_put_chunks_stale_witness:
  "let s = snd (hm_put_chunks chunky_host ''k'' ''l'' [[8], [9]] None (snd (hm_put chunky_host ''k'' ''l'' [1] None host_start)));
       s2 = snd (hm_get chunky_host ''k'' ''l'' s)
   in fst (hm_get chunky_host ''k'' ''l'' s2) = Inr (Some [1]) \<and> fst (hm_get_parallel chunky_host [''k''] ''l'' s2) = Inr [Some [1]]
     \<and> ms_view (hm_wrapped s) (''k'', ''l'') = Some [8, 9]"
proof -
  let ?s = "snd (hm_put chunky_host ''k'' ''l'' [1] None host_start)"
  obtain r s1 where run: "hm_put_chunks chunky_host ''k'' ''l'' [[8], [9]] None ?s = (r, s1)" by fastforce
  obtain x s2 where get: "hm_get chunky_host ''k'' ''l'' s1 = (x, s2)" by fastforce
  have start: "(host_step chunky_host)\<^sup>*\<^sup>* (hm_init (memory_storage_init 100)) ?s"
    using host_step.put [OF surjective_pairing] unfolding host_start_def by (rule r_into_rtranclp)
  have old: "map_of (hm_cache ?s) (''k'', ''l'') = Some [1]" by code_simp
  have "map_of (hm_cache (snd (hm_get chunky_host ''k'' ''l'' (snd (hm_put_chunks chunky_host ''k'' ''l'' [[8], [9]] None ?s))))) (''k'', ''l'') = Some [1]" by code_simp
  then have "read_step chunky_host s1 s2 \<and> map_of (hm_cache s2) (''k'', ''l'') \<noteq> None" using read_step.get [OF get] run get by simp
  then have reads: "(\<lambda>t t'. read_step chunky_host t t' \<and> map_of (hm_cache t') (''k'', ''l'') \<noteq> None)\<^sup>*\<^sup>* s1 s2" by (rule r_into_rtranclp)
  have "ms_view (snd (ms_put ''k'' ''l'' (concat [[8], [9]]) None (hm_wrapped ?s))) (''k'', ''l'') = Some [8, 9]" by code_simp
  then show ?thesis
    using host_memory_put_chunks_stale [OF start old _ run reads, of "\<lambda>k l segs m. ms_put k l (concat segs) m"] run get
    by (auto simp: chunky_host_def prod_eq_iff)
qed

end
