(* ===== verification/HA_Service.thy ===== *)
theory HA_Service
  imports Py_Backends
begin

text \<open>
  \<open>storage/ha_kvservice.py\<close>: keys are spread over several servers by the MD5 of the key, and a circuit
  breaker per server turns the calls to a failing one into misses.  Calls run one after the other.
  The clock is a sequence of readings; MD5 is a parameter.
\<close>

section \<open>The circuit breaker\<close>

datatype breaker_state = CLOSED | OPEN | HALF_OPEN

record CircuitBreaker =
  cb_state :: breaker_state
  cb_opened_at :: int
  cb_trial_inflight :: bool

definition breaker_init :: CircuitBreaker where
  "breaker_init = \<lparr> cb_state = CLOSED, cb_opened_at = 0, cb_trial_inflight = False \<rparr>"

text \<open>\<open>allow\<close> reads the clock only when the breaker is open.\<close>

definition breaker_allow :: "int \<Rightarrow> int \<Rightarrow> CircuitBreaker \<Rightarrow> bool \<times> CircuitBreaker" where
  "breaker_allow cooldown now cb =
     (case cb_state cb of
        CLOSED \<Rightarrow> (True, cb)
      | OPEN \<Rightarrow>
          if now - cb_opened_at cb \<ge> cooldown then (True, cb\<lparr> cb_state := HALF_OPEN, cb_trial_inflight := True \<rparr>) else (False, cb)
      | HALF_OPEN \<Rightarrow> if cb_trial_inflight cb then (False, cb) else (True, cb\<lparr> cb_trial_inflight := True \<rparr>))"

definition breaker_record :: "bool \<Rightarrow> int \<Rightarrow> CircuitBreaker \<Rightarrow> CircuitBreaker" where
  "breaker_record ok now cb =
     (if ok then cb\<lparr> cb_state := CLOSED, cb_trial_inflight := False \<rparr>
      else cb\<lparr> cb_state := OPEN, cb_opened_at := now, cb_trial_inflight := False \<rparr>)"

section \<open>The backend\<close>

record 's HaEnv =
  ha_child_backends :: "'s StorageBackend list"
  ha_cooldown :: int
  ha_md5 :: "bytes \<Rightarrow> nat"
  ha_clock :: "nat \<Rightarrow> int"
  ha_zc_hint :: "bool option"
  ha_rdma_put_hint :: "bool option"

record 's HaState =
  ha_children :: "'s list"
  ha_breakers :: "CircuitBreaker list"
  ha_tick :: nat
  ha_regions :: "(nat \<times> nat \<times> nat) list"
  ha_region_ids :: "((nat \<times> nat) \<times> nat) list"
  ha_next_region_id :: nat

definition ha_new :: "'s HaEnv \<Rightarrow> 's list \<Rightarrow> 's HaState pres" where
  "ha_new E children =
     (if children = [] then Inl (ValueError ''HaKVServiceBackend requires at least one child backend'')
      else Inr \<lparr> ha_children = children, ha_breakers = replicate (length children) breaker_init, ha_tick = 0,
                 ha_regions = [], ha_region_ids = [], ha_next_region_id = 1 \<rparr>)"

definition ha_route :: "'s HaEnv \<Rightarrow> string \<Rightarrow> nat" where
  "ha_route E key = ha_md5 E (as_bytes key) mod length (ha_child_backends E)"

abbreviation child_backend :: "'s HaEnv \<Rightarrow> nat \<Rightarrow> 's StorageBackend" where
  "child_backend E idx \<equiv> ha_child_backends E ! idx"

definition ha_allow :: "'s HaEnv \<Rightarrow> nat \<Rightarrow> 's HaState \<Rightarrow> bool \<times> 's HaState" where
  "ha_allow E idx s =
     (case breaker_allow (ha_cooldown E) (ha_clock E (ha_tick s)) (ha_breakers s ! idx) of
        (ok, cb) \<Rightarrow> (ok, s\<lparr> ha_breakers := (ha_breakers s)[idx := cb], ha_tick := Suc (ha_tick s) \<rparr>))"

definition ha_record :: "'s HaEnv \<Rightarrow> nat \<Rightarrow> bool \<Rightarrow> 's HaState \<Rightarrow> 's HaState" where
  "ha_record E idx ok s =
     s\<lparr> ha_breakers := (ha_breakers s)[idx := breaker_record ok (ha_clock E (ha_tick s)) (ha_breakers s ! idx)], ha_tick := Suc (ha_tick s) \<rparr>"

definition on_child :: "nat \<Rightarrow> ('s \<Rightarrow> 'a pres \<times> 's) \<Rightarrow> 's HaState \<Rightarrow> 'a pres \<times> 's HaState" where
  "on_child idx f s = (case f (ha_children s ! idx) of (r, c) \<Rightarrow> (r, s\<lparr> ha_children := (ha_children s)[idx := c] \<rparr>))"

text \<open>The guarded part after \<open>allow\<close>: a value closes the breaker, an exception opens it.\<close>

definition ha_attempt :: "'s HaEnv \<Rightarrow> nat \<Rightarrow> ('s \<Rightarrow> 'a pres \<times> 's) \<Rightarrow> 'a \<Rightarrow> 's HaState \<Rightarrow> 'a \<times> 's HaState" where
  "ha_attempt E idx f miss s =
     (case on_child idx f s of (Inr x, s1) \<Rightarrow> (x, ha_record E idx True s1) | (Inl _, s1) \<Rightarrow> (miss, ha_record E idx False s1))"

definition ha_call :: "'s HaEnv \<Rightarrow> nat \<Rightarrow> ('s \<Rightarrow> 'a pres \<times> 's) \<Rightarrow> 'a \<Rightarrow> 's HaState \<Rightarrow> 'a \<times> 's HaState" where
  "ha_call E idx f miss s =
     (case ha_allow E idx s of (ok, s1) \<Rightarrow> if \<not> ok then (miss, s1) else ha_attempt E idx f miss s1)"

text \<open>A method with a result \<open>None\<close> for a miss.\<close>

definition ha_call_opt :: "'s HaEnv \<Rightarrow> nat \<Rightarrow> ('s \<Rightarrow> 'a pres \<times> 's) \<Rightarrow> 's HaState \<Rightarrow> 'a option \<times> 's HaState" where
  "ha_call_opt E idx f s = ha_call E idx (\<lambda>c. pstep (f c) (\<lambda>x c1. (Inr (Some x), c1))) None s"

definition ha_put :: "'s HaEnv \<Rightarrow> string \<Rightarrow> string \<Rightarrow> bytes \<Rightarrow> PyBlockMeta option \<Rightarrow> 's HaState \<Rightarrow> 's HaState" where
  "ha_put E key layer data meta s =
     (let idx = ha_route E key in snd (ha_call E idx (sb_put (child_backend E idx) key layer data meta) () s))"

definition ha_get :: "'s HaEnv \<Rightarrow> string \<Rightarrow> string \<Rightarrow> 's HaState \<Rightarrow> bytes option \<times> 's HaState" where
  "ha_get E key layer s = (let idx = ha_route E key in ha_call E idx (sb_get (child_backend E idx) key layer) None s)"

definition ha_exists :: "'s HaEnv \<Rightarrow> string \<Rightarrow> 's HaState \<Rightarrow> bool \<times> 's HaState" where
  "ha_exists E key s = (let idx = ha_route E key in ha_call E idx (sb_exists (child_backend E idx) key) False s)"

definition ha_delete :: "'s HaEnv \<Rightarrow> string \<Rightarrow> 's HaState \<Rightarrow> 's HaState" where
  "ha_delete E key s = (let idx = ha_route E key in snd (ha_call E idx (sb_delete (child_backend E idx) key) () s))"

definition ha_get_meta :: "'s HaEnv \<Rightarrow> string \<Rightarrow> 's HaState \<Rightarrow> PyBlockMeta option \<times> 's HaState" where
  "ha_get_meta E key s = (let idx = ha_route E key in ha_call E idx (sb_get_meta (child_backend E idx) key) None s)"

definition ha_capacity_usage :: "'s HaEnv \<Rightarrow> 's HaState \<Rightarrow> (int \<times> int) \<times> 's HaState" where
  "ha_capacity_usage E s =
     fold (\<lambda>idx ((used, cap), s). case ha_call_opt E idx (sb_capacity_usage (child_backend E idx)) s of
         (None, s1) \<Rightarrow> ((used, cap), s1) | (Some (u, c), s1) \<Rightarrow> ((used + u, cap + c), s1))
       [0 ..< length (ha_child_backends E)] ((0, 0), s)"

definition ha_list_keys :: "'s HaEnv \<Rightarrow> 's HaState \<Rightarrow> string set \<times> 's HaState" where
  "ha_list_keys E s =
     fold (\<lambda>idx (all, s). case ha_call_opt E idx (sb_list_keys (child_backend E idx)) s of
         (None, s1) \<Rightarrow> (all, s1) | (Some ks, s1) \<Rightarrow> (all \<union> ks, s1))
       [0 ..< length (ha_child_backends E)] ({}, s)"

text \<open>The keys of a batch by child, in the order of first occurrence.\<close>

definition ha_groups :: "'s HaEnv \<Rightarrow> string list \<Rightarrow> (nat \<times> (nat \<times> string) list) list" where
  "ha_groups E keys =
     fold (\<lambda>(i, key) gs. AList.map_default (ha_route E key) [(i, key)] (\<lambda>items. items @ [(i, key)]) gs) (enumerate 0 keys) []"

definition scatter :: "(nat \<times> string) list \<Rightarrow> 'a option list \<Rightarrow> 'a option list \<Rightarrow> 'a option list" where
  "scatter items fetched results = fold (\<lambda>((i, _), data) res. res[i := data]) (zip items fetched) results"

definition ha_get_parallel :: "'s HaEnv \<Rightarrow> string list \<Rightarrow> string \<Rightarrow> 's HaState \<Rightarrow> bytes option list \<times> 's HaState" where
  "ha_get_parallel E keys layer s =
     (if keys = [] then ([], s)
      else fold (\<lambda>(idx, items) (results, s). case ha_call_opt E idx (sb_get_parallel (child_backend E idx) (map snd items) layer) s of
               (None, s1) \<Rightarrow> (results, s1) | (Some fetched, s1) \<Rightarrow> (scatter items fetched results, s1))
             (ha_groups E keys) (replicate (length keys) None, s))"

text \<open>The methods of a single-server backend that the abstract class does not have.\<close>

definition ha_put_chunks :: "'s HaEnv \<Rightarrow> string \<Rightarrow> string \<Rightarrow> bytes list \<Rightarrow> PyBlockMeta option \<Rightarrow> 's HaState \<Rightarrow> unit pres \<times> 's HaState" where
  "ha_put_chunks E key layer segments meta s =
     (let idx = ha_route E key in
      case sb_put_chunks (child_backend E idx) of
        None \<Rightarrow> (Inl (AttributeError ''put_chunks''), s)
      | Some put_chunks \<Rightarrow> (Inr (), snd (ha_call E idx (put_chunks key layer segments meta) () s)))"

definition ha_get_chunks :: "'s HaEnv \<Rightarrow> string \<Rightarrow> string \<Rightarrow> 's HaState \<Rightarrow> bytes list option pres \<times> 's HaState" where
  "ha_get_chunks E key layer s =
     (let idx = ha_route E key in
      case sb_get_chunks (child_backend E idx) of
        None \<Rightarrow> (Inl (AttributeError ''get_chunks''), s)
      | Some get_chunks \<Rightarrow> (case ha_call E idx (get_chunks key layer) None s of (x, s1) \<Rightarrow> (Inr x, s1)))"

definition ha_probe_layer_exists :: "'s HaEnv \<Rightarrow> string \<Rightarrow> string \<Rightarrow> 's HaState \<Rightarrow> bool pres \<times> 's HaState" where
  "ha_probe_layer_exists E key layer s =
     (let idx = ha_route E key in
      case sb_probe_layer_exists (child_backend E idx) of
        None \<Rightarrow> (Inl (AttributeError ''probe_layer_exists''), s)
      | Some probe \<Rightarrow> (case ha_call E idx (probe key layer) False s of (x, s1) \<Rightarrow> (Inr x, s1)))"

text \<open>\<open>all\<close> over the children, which stops at the first that does not support the feature.\<close>

fun all_children :: "('s StorageBackend \<Rightarrow> ('s \<Rightarrow> bool pres \<times> 's) option) \<Rightarrow> (nat \<times> 's StorageBackend) list \<Rightarrow> 's HaState \<Rightarrow> bool pres \<times> 's HaState" where
  "all_children feature [] s = (Inr True, s)"
| "all_children feature ((idx, b) # bs) s =
     (case feature b of
        None \<Rightarrow> (Inr False, s)
      | Some f \<Rightarrow> pstep (on_child idx f s) (\<lambda>ok s1. if ok then all_children feature bs s1 else (Inr False, s1)))"

definition ha_supports_zerocopy :: "'s HaEnv \<Rightarrow> 's HaState \<Rightarrow> bool pres \<times> 's HaState" where
  "ha_supports_zerocopy E s =
     (case ha_zc_hint E of Some hint \<Rightarrow> (Inr hint, s) | None \<Rightarrow> all_children sb_supports_zerocopy (enumerate 0 (ha_child_backends E)) s)"

definition ha_supports_rdma_put :: "'s HaEnv \<Rightarrow> 's HaState \<Rightarrow> bool pres \<times> 's HaState" where
  "ha_supports_rdma_put E s =
     (case ha_rdma_put_hint E of Some hint \<Rightarrow> (Inr hint, s) | None \<Rightarrow> all_children sb_supports_rdma_put (enumerate 0 (ha_child_backends E)) s)"

definition ha_region_id :: "nat \<Rightarrow> nat \<Rightarrow> 's HaState \<Rightarrow> nat \<times> 's HaState" where
  "ha_region_id ptr sz s =
     (case map_of (ha_region_ids s) (ptr, sz) of
        Some cached \<Rightarrow> (cached, s)
      | None \<Rightarrow>
          (ha_next_region_id s, s\<lparr> ha_next_region_id := Suc (ha_next_region_id s),
             ha_regions := AList.update (ha_next_region_id s) (ptr, sz) (ha_regions s),
             ha_region_ids := AList.update (ptr, sz) (ha_next_region_id s) (ha_region_ids s) \<rparr>))"

definition ha_ensure_rdma_region :: "'s HaEnv \<Rightarrow> nat \<Rightarrow> nat \<Rightarrow> 's HaState \<Rightarrow> nat \<times> 's HaState" where
  "ha_ensure_rdma_region E ptr sz s =
     (case ha_region_id ptr sz s of (ha_id, s1) \<Rightarrow>
        (ha_id, fold (\<lambda>idx s. case sb_ensure_rdma_region (child_backend E idx) of
            None \<Rightarrow> s | Some ensure \<Rightarrow> snd (ha_call_opt E idx (ensure ptr sz) s)) [0 ..< length (ha_child_backends E)] s1))"

definition ha_translate_region :: "'s HaEnv \<Rightarrow> nat \<Rightarrow> nat \<Rightarrow> 's HaState \<Rightarrow> nat option \<times> 's HaState" where
  "ha_translate_region E idx rid s =
     (case map_of (ha_regions s) rid of
        None \<Rightarrow> (None, s)
      | Some (ptr, sz) \<Rightarrow>
          (case sb_ensure_rdma_region (child_backend E idx) of
             None \<Rightarrow> (None, s)
           | Some ensure \<Rightarrow> ha_call_opt E idx (ensure ptr sz) s))"

definition ha_get_chunks_into :: "'s HaEnv \<Rightarrow> string \<Rightarrow> string \<Rightarrow> nat \<Rightarrow> nat \<Rightarrow> 's HaState \<Rightarrow> nat option \<times> 's HaState" where
  "ha_get_chunks_into E key layer region_id off s =
     (let idx = ha_route E key in
      case ha_allow E idx s of (ok, s1) \<Rightarrow>
      if \<not> ok then (None, s1)
      else (case ha_translate_region E idx region_id s1 of
              (None, s2) \<Rightarrow> (None, s2)
            | (Some child_rid, s2) \<Rightarrow>
                (case sb_get_chunks_into (child_backend E idx) of
                   None \<Rightarrow> (None, s2)
                 | Some get_into \<Rightarrow> ha_attempt E idx (get_into key layer child_rid off) None s2)))"

definition ha_put_chunks_from :: "'s HaEnv \<Rightarrow> string \<Rightarrow> string \<Rightarrow> nat \<Rightarrow> nat \<Rightarrow> nat \<Rightarrow> 's HaState \<Rightarrow> bool \<times> 's HaState" where
  "ha_put_chunks_from E key layer region_id off sz s =
     (let idx = ha_route E key in
      case ha_allow E idx s of (ok, s1) \<Rightarrow>
      if \<not> ok then (False, s1)
      else (case ha_translate_region E idx region_id s1 of
              (None, s2) \<Rightarrow> (False, s2)
            | (Some child_rid, s2) \<Rightarrow>
                (case sb_put_chunks_from (child_backend E idx) of
                   None \<Rightarrow> (False, s2)
                 | Some put_from \<Rightarrow> ha_attempt E idx (put_from key layer child_rid off sz) False s2)))"

section \<open>Frames\<close>

text \<open>Everything a call to child \<open>idx\<close> leaves alone.\<close>

definition ha_frame :: "nat \<Rightarrow> 's HaState \<Rightarrow> 's HaState \<Rightarrow> bool" where
  "ha_frame idx s s' \<longleftrightarrow> length (ha_children s') = length (ha_children s) \<and> length (ha_breakers s') = length (ha_breakers s)
     \<and> (\<forall>j. j \<noteq> idx \<longrightarrow> ha_children s' ! j = ha_children s ! j \<and> ha_breakers s' ! j = ha_breakers s ! j)"

lemma ha_frame_refl [simp]: "ha_frame idx s s"
  by (simp add: ha_frame_def)

lemma ha_frame_trans: "ha_frame idx s s1 \<Longrightarrow> ha_frame idx s1 s2 \<Longrightarrow> ha_frame idx s s2"
  by (simp add: ha_frame_def)

lemma allow_frame: "ha_allow E idx s = (ok, s1) \<Longrightarrow> ha_frame idx s s1 \<and> ha_children s1 = ha_children s"
  by (auto simp: ha_allow_def ha_frame_def split: prod.splits)

lemma record_frame: "ha_frame idx s (ha_record E idx ok s) \<and> ha_children (ha_record E idx ok s) = ha_children s"
  by (simp add: ha_record_def ha_frame_def)

lemma on_child_frame: "on_child idx f s = (r, s1) \<Longrightarrow> ha_frame idx s s1 \<and> ha_breakers s1 = ha_breakers s"
  by (auto simp: on_child_def ha_frame_def split: prod.splits)

lemma attempt_frame:
  assumes "ha_attempt E idx f miss s = (x, s')"
  shows "ha_frame idx s s'"
proof -
  obtain r s1 where c: "on_child idx f s = (r, s1)" by fastforce
  show ?thesis
    using assms on_child_frame [OF c] record_frame [of idx s1 E] ha_frame_trans [of idx s s1 s'] c
    by (cases r) (auto simp: ha_attempt_def)
qed

lemma call_frame:
  assumes "ha_call E idx f miss s = (x, s')"
  shows "ha_frame idx s s'"
proof -
  obtain ok s1 where a: "ha_allow E idx s = (ok, s1)" by fastforce
  show ?thesis
    using assms a allow_frame [OF a] attempt_frame [of E idx f miss s1 x s'] ha_frame_trans [of idx s s1 s']
    by (cases ok) (auto simp: ha_call_def)
qed

lemma call_opt_frame: "ha_call_opt E idx f s = (x, s') \<Longrightarrow> ha_frame idx s s'"
  unfolding ha_call_opt_def by (rule call_frame)

section \<open>The breaker as a state machine\<close>

text \<open>A call returns the value of the child or the miss value; in the latter case the child was not called or raised.\<close>

lemma call_result:
  assumes "ha_call E idx f miss s = (x, s')" "idx < length (ha_children s)"
  shows "(\<exists>c. f (ha_children s ! idx) = (Inr x, c) \<and> ha_children s' ! idx = c)
    \<or> x = miss \<and> (ha_children s' ! idx = ha_children s ! idx \<or> (\<exists>e. f (ha_children s ! idx) = (Inl e, ha_children s' ! idx)))"
proof -
  obtain ok s1 where a: "ha_allow E idx s = (ok, s1)" by fastforce
  have s1: "ha_children s1 = ha_children s" using allow_frame [OF a] by simp
  obtain r c where f: "f (ha_children s ! idx) = (r, c)" by fastforce
  show ?thesis
    using assms a s1 f
    by (cases ok; cases r) (auto simp: ha_call_def ha_attempt_def on_child_def ha_record_def)
qed

definition wedged :: "nat \<Rightarrow> 's HaState \<Rightarrow> bool" where
  "wedged i s \<longleftrightarrow> i < length (ha_breakers s) \<and> cb_state (ha_breakers s ! i) = HALF_OPEN \<and> cb_trial_inflight (ha_breakers s ! i)"

lemma wedged_allow:
  assumes "wedged i s" "ha_allow E i s = (ok, s1)"
  shows "\<not> ok \<and> wedged i s1 \<and> ha_children s1 = ha_children s"
  using assms by (auto simp: wedged_def ha_allow_def breaker_allow_def split: prod.splits)

lemma wedged_frame: "wedged i s \<Longrightarrow> ha_frame j s s' \<Longrightarrow> i \<noteq> j \<Longrightarrow> wedged i s' \<and> ha_children s' ! i = ha_children s ! i"
  by (simp add: wedged_def ha_frame_def)

text \<open>\<open>shut E i s s'\<close>: a wedged breaker stays wedged and its child gets at most capability queries.\<close>

definition capability_query :: "'s HaEnv \<Rightarrow> nat \<Rightarrow> 's \<Rightarrow> 's \<Rightarrow> bool" where
  "capability_query E i c c' \<longleftrightarrow>
     (\<exists>f. (ha_zc_hint E = None \<and> sb_supports_zerocopy (child_backend E i) = Some f
        \<or> ha_rdma_put_hint E = None \<and> sb_supports_rdma_put (child_backend E i) = Some f) \<and> c' = snd (f c))"

definition shut :: "'s HaEnv \<Rightarrow> nat \<Rightarrow> 's HaState \<Rightarrow> 's HaState \<Rightarrow> bool" where
  "shut E i s s' \<longleftrightarrow> (wedged i s \<longrightarrow> wedged i s' \<and> (capability_query E i)\<^sup>*\<^sup>* (ha_children s ! i) (ha_children s' ! i))"

lemma shut_refl [simp]: "shut E i s s"
  by (simp add: shut_def)

lemma shut_trans: "shut E i s s1 \<Longrightarrow> shut E i s1 s2 \<Longrightarrow> shut E i s s2"
  by (auto simp: shut_def)

lemma shut_call: "shut E i s (snd (ha_call E j f miss s))"
proof (cases "i = j")
  case True
  obtain ok s1 where a: "ha_allow E i s = (ok, s1)" by fastforce
  show ?thesis using wedged_allow [OF _ a] a True by (auto simp: shut_def ha_call_def)
next
  case False
  obtain x s' where c: "ha_call E j f miss s = (x, s')" by fastforce
  show ?thesis using wedged_frame [OF _ call_frame [OF c] False] c by (auto simp: shut_def)
qed

lemma shut_call_eq: "ha_call E j f miss s = (x, s') \<Longrightarrow> shut E i s s'"
  using shut_call [of E i s j f miss] by simp

lemma shut_call_opt: "shut E i s (snd (ha_call_opt E j f s))"
  unfolding ha_call_opt_def by (rule shut_call)

lemma shut_fold:
  assumes "\<And>x a. shut E i (snd a) (snd (f x a))"
  shows "shut E i (snd a) (snd (fold f xs a))"
proof (induction xs arbitrary: a)
  case (Cons x xs)
  then show ?case using shut_trans [OF assms [of a x] Cons.IH [of "f x a"]] by simp
qed simp

lemma shut_fold_state:
  assumes "\<And>x s. shut E i s (f x s)"
  shows "shut E i s (fold f xs s)"
  by (induction xs arbitrary: s) (auto intro: shut_trans assms)

lemma shut_translate: "shut E i s (snd (ha_translate_region E j rid s))"
  using shut_call_opt by (auto simp: ha_translate_region_def split: option.split)

lemma shut_guarded:
  assumes "ha_allow E j s = (ok, s1)" "i \<noteq> j \<Longrightarrow> shut E i s1 s2"
  shows "shut E i s (if ok then s2 else s1)"
proof (cases "i = j")
  case True
  then show ?thesis using wedged_allow [of i s E ok s1] assms(1) by (auto simp: shut_def)
next
  case False
  then have "shut E i s s1" using wedged_frame [of i s j s1] allow_frame [OF assms(1)] by (auto simp: shut_def)
  then show ?thesis using assms(2) [OF False] shut_trans by auto
qed

lemma shut_attempt: "i \<noteq> j \<Longrightarrow> shut E i s (snd (ha_attempt E j f miss s))"
  using wedged_frame [of i s j "snd (ha_attempt E j f miss s)"] attempt_frame [OF prod.collapse [symmetric], of j s E f miss] by (auto simp: shut_def)

lemma shut_get_into: "shut E i s (snd (ha_get_chunks_into E key layer rid off s))"
proof -
  let ?j = "ha_route E key"
  obtain ok s1 where a: "ha_allow E ?j s = (ok, s1)" by fastforce
  obtain cr s2 where t: "ha_translate_region E ?j rid s1 = (cr, s2)" by fastforce
  let ?s3 = "case cr of None \<Rightarrow> s2 | Some c \<Rightarrow> (case sb_get_chunks_into (child_backend E ?j) of None \<Rightarrow> s2
    | Some g \<Rightarrow> snd (ha_attempt E ?j (g key layer c off) None s2))"
  have "shut E i s1 ?s3" if "i \<noteq> ?j"
    using shut_translate [of E i s1 ?j rid] t shut_attempt [OF that] shut_trans by (fastforce split: option.split)
  from shut_guarded [OF a this] have "shut E i s (if ok then ?s3 else s1)" .
  moreover have "snd (ha_get_chunks_into E key layer rid off s) = (if ok then ?s3 else s1)"
    using a t by (auto simp: ha_get_chunks_into_def Let_def split: option.split)
  ultimately show ?thesis by simp
qed

lemma shut_put_from: "shut E i s (snd (ha_put_chunks_from E key layer rid off sz s))"
proof -
  let ?j = "ha_route E key"
  obtain ok s1 where a: "ha_allow E ?j s = (ok, s1)" by fastforce
  obtain cr s2 where t: "ha_translate_region E ?j rid s1 = (cr, s2)" by fastforce
  let ?s3 = "case cr of None \<Rightarrow> s2 | Some c \<Rightarrow> (case sb_put_chunks_from (child_backend E ?j) of None \<Rightarrow> s2
    | Some g \<Rightarrow> snd (ha_attempt E ?j (g key layer c off sz) False s2))"
  have "shut E i s1 ?s3" if "i \<noteq> ?j"
    using shut_translate [of E i s1 ?j rid] t shut_attempt [OF that] shut_trans by (fastforce split: option.split)
  from shut_guarded [OF a this] have "shut E i s (if ok then ?s3 else s1)" .
  moreover have "snd (ha_put_chunks_from E key layer rid off sz s) = (if ok then ?s3 else s1)"
    using a t by (auto simp: ha_put_chunks_from_def Let_def split: option.split)
  ultimately show ?thesis by simp
qed

text \<open>All calls of the backend.\<close>

inductive ha_step :: "'s HaEnv \<Rightarrow> 's HaState \<Rightarrow> 's HaState \<Rightarrow> bool" for E where
  put: "ha_step E s (ha_put E key layer data meta s)"
| get: "ha_step E s (snd (ha_get E key layer s))"
| exists: "ha_step E s (snd (ha_exists E key s))"
| delete: "ha_step E s (ha_delete E key s)"
| get_meta: "ha_step E s (snd (ha_get_meta E key s))"
| capacity_usage: "ha_step E s (snd (ha_capacity_usage E s))"
| list_keys: "ha_step E s (snd (ha_list_keys E s))"
| get_parallel: "ha_step E s (snd (ha_get_parallel E keys layer s))"
| put_chunks: "ha_step E s (snd (ha_put_chunks E key layer segments meta s))"
| get_chunks: "ha_step E s (snd (ha_get_chunks E key layer s))"
| probe_layer_exists: "ha_step E s (snd (ha_probe_layer_exists E key layer s))"
| ensure_rdma_region: "ha_step E s (snd (ha_ensure_rdma_region E ptr sz s))"
| get_chunks_into: "ha_step E s (snd (ha_get_chunks_into E key layer rid off s))"
| put_chunks_from: "ha_step E s (snd (ha_put_chunks_from E key layer rid off sz s))"
| supports_zerocopy: "ha_step E s (snd (ha_supports_zerocopy E s))"
| supports_rdma_put: "ha_step E s (snd (ha_supports_rdma_put E s))"

lemma snd_case_option: "snd (case p of (None, s) \<Rightarrow> (a, s) | (Some x, s) \<Rightarrow> (f x, s)) = snd p"
  by (simp split: prod.split option.split)

lemma snd_case_option2: "snd (case p of (None, s) \<Rightarrow> (a, s) | (Some (x, y), s) \<Rightarrow> (f x y, s)) = snd p"
  by (simp split: prod.split option.split)

lemma shut_region_id: "shut E i s (snd (ha_region_id ptr sz s))"
  by (simp add: ha_region_id_def shut_def wedged_def split: option.split)

lemma shut_ensure: "shut E i s (snd (ha_ensure_rdma_region E ptr sz s))"
proof -
  obtain h s1 where r: "ha_region_id ptr sz s = (h, s1)" by fastforce
  have "shut E i s1 (snd (ha_ensure_rdma_region E ptr sz s))"
    unfolding ha_ensure_rdma_region_def r prod.case snd_conv
    by (rule shut_fold_state) (auto split: option.split intro: shut_call_opt)
  then show ?thesis using shut_region_id [of E i s ptr sz] r shut_trans by fastforce
qed

lemma shut_capacity: "shut E i s (snd (ha_capacity_usage E s))"
proof -
  have "shut E i (snd ((0 :: int, 0 :: int), s)) (snd (ha_capacity_usage E s))"
    unfolding ha_capacity_usage_def
    by (rule shut_fold) (auto simp: snd_case_option2 split: prod.split intro: shut_call_opt)
  then show ?thesis by simp
qed

lemma shut_list_keys: "shut E i s (snd (ha_list_keys E s))"
proof -
  have "shut E i (snd ({} :: string set, s)) (snd (ha_list_keys E s))"
    unfolding ha_list_keys_def
    by (rule shut_fold) (auto simp: snd_case_option split: prod.split intro: shut_call_opt)
  then show ?thesis by simp
qed

lemma shut_get_parallel: "shut E i s (snd (ha_get_parallel E keys layer s))"
proof (cases "keys = []")
  case False
  have "shut E i (snd (replicate (length keys) (None :: bytes option), s)) (snd (ha_get_parallel E keys layer s))"
    unfolding ha_get_parallel_def if_not_P [OF False]
    by (rule shut_fold) (auto simp: snd_case_option split: prod.split intro: shut_call_opt)
  then show ?thesis by simp
qed (simp add: ha_get_parallel_def)

lemma shut_all_children:
  assumes "\<And>b f c. (i, b) \<in> set bs \<Longrightarrow> feature b = Some f \<Longrightarrow> capability_query E i c (snd (f c))"
  shows "shut E i s (snd (all_children feature bs s))"
  using assms
proof (induction bs arbitrary: s)
  case (Cons p bs)
  obtain j b where p: "p = (j, b)" by (cases p)
  show ?case
  proof (cases "feature b")
    case (Some f)
    obtain r c where f: "f (ha_children s ! j) = (r, c)" by fastforce
    let ?s1 = "s\<lparr> ha_children := (ha_children s)[j := c] \<rparr>"
    have "shut E i s ?s1"
    proof (cases "i = j")
      case True
      then have "capability_query E i (ha_children s ! i) c" using Cons.prems(1) [of b f "ha_children s ! i"] p Some f by simp
      then show ?thesis using True by (cases "i < length (ha_children s)") (auto simp: shut_def wedged_def list_update_beyond)
    qed (simp add: shut_def wedged_def)
    moreover have "shut E i ?s1 (snd (all_children feature bs ?s1))"
      by (rule Cons.IH) (use Cons.prems in auto)
    ultimately show ?thesis using p Some f shut_trans by (cases r) (auto simp: on_child_def)
  qed (simp add: p)
qed simp

lemma shut_queries:
  shows "shut E i s (snd (ha_supports_zerocopy E s))" "shut E i s (snd (ha_supports_rdma_put E s))"
proof -
  have b: "i < length (ha_child_backends E) \<and> b = child_backend E i" if "(i, b) \<in> set (enumerate 0 (ha_child_backends E))" for b i
    using that by (auto simp: in_set_enumerate_eq)
  show "shut E i s (snd (ha_supports_zerocopy E s))"
    by (auto simp: ha_supports_zerocopy_def capability_query_def dest!: b split: option.split intro!: shut_all_children)
  show "shut E i s (snd (ha_supports_rdma_put E s))"
    by (auto simp: ha_supports_rdma_put_def capability_query_def dest!: b split: option.split intro!: shut_all_children)
qed

lemma step_shut:
  assumes "ha_step E s s'"
  shows "shut E i s s'"
  using assms
  by cases
    (auto simp: ha_put_def ha_get_def ha_exists_def ha_delete_def ha_get_meta_def ha_put_chunks_def ha_get_chunks_def
      ha_probe_layer_exists_def Let_def shut_queries split: option.split prod.split
      intro: shut_call shut_call_eq shut_capacity shut_list_keys shut_get_parallel shut_ensure shut_get_into shut_put_from)

lemma steps_shut: "(ha_step E)\<^sup>*\<^sup>* s s' \<Longrightarrow> shut E i s s'"
  by (induction rule: rtranclp_induct) (auto intro: shut_trans step_shut)


section \<open>Reads and writes\<close>

text \<open>The contents: what the child of a key holds.\<close>

definition ha_view :: "'s HaEnv \<Rightarrow> ('s \<Rightarrow> string \<times> string \<Rightarrow> bytes option) \<Rightarrow> 's HaState \<Rightarrow> string \<times> string \<Rightarrow> bytes option" where
  "ha_view E view s x = view (ha_children s ! ha_route E (fst x)) x"

definition ha_good :: "'s HaEnv \<Rightarrow> ('s \<Rightarrow> bool) \<Rightarrow> 's HaState \<Rightarrow> bool" where
  "ha_good E cinv s \<longleftrightarrow> length (ha_children s) = length (ha_child_backends E) \<and> length (ha_breakers s) = length (ha_child_backends E)
     \<and> (\<forall>i < length (ha_child_backends E). cinv (ha_children s ! i))"

definition all_closed :: "'s HaEnv \<Rightarrow> 's HaState \<Rightarrow> bool" where
  "all_closed E s \<longleftrightarrow> (\<forall>i < length (ha_child_backends E). cb_state (ha_breakers s ! i) = CLOSED)"

definition no_failures :: "'s HaEnv \<Rightarrow> bool" where
  "no_failures E \<longleftrightarrow> (\<forall>b \<in> set (ha_child_backends E). \<forall>ks l s. is_ok (fst (sb_get_parallel b ks l s)))"

locale ha_cluster =
  fixes E :: "'s HaEnv" and view :: "'s \<Rightarrow> string \<times> string \<Rightarrow> bytes option" and inv :: "'s \<Rightarrow> bool" and name_ok :: "string \<Rightarrow> bool"
  assumes children_law: "b \<in> set (ha_child_backends E) \<Longrightarrow> atomic_backend b view inv name_ok"
    and children_nonempty: "ha_child_backends E \<noteq> []"
begin

abbreviation width :: nat where
  "width \<equiv> length (ha_child_backends E)"

abbreviation good :: "'s HaState \<Rightarrow> bool" where
  "good \<equiv> ha_good E inv"

abbreviation vw :: "'s HaState \<Rightarrow> string \<times> string \<Rightarrow> bytes option" where
  "vw \<equiv> ha_view E view"

lemma route_below [simp]: "ha_route E key < width"
  using children_nonempty by (simp add: ha_route_def)

lemma child_laws:
  assumes "i < width"
  shows "storage_backend (child_backend E i) view inv name_ok" "atomic_backend (child_backend E i) view inv name_ok"
  using children_law [OF nth_mem [OF assms]] by (simp_all add: atomic_backend_def)

text \<open>A call that reads: the child's view is kept, so is the whole contents.\<close>

lemma call_reads:
  assumes "good s" "ha_call E i f miss s = (x, s')" "i < width"
    "\<And>r c. f (ha_children s ! i) = (r, c) \<Longrightarrow> inv c \<and> view c = view (ha_children s ! i) \<and> (\<forall>y. r = Inr y \<longrightarrow> P y)"
  shows "good s' \<and> (\<forall>j < width. view (ha_children s' ! j) = view (ha_children s ! j)) \<and> (x = miss \<or> P x)"
proof -
  have len: "i < length (ha_children s)" using assms(1,3) by (simp add: ha_good_def)
  note fr = call_frame [OF assms(2)]
  obtain r c where f: "f (ha_children s ! i) = (r, c)" by fastforce
  have here: "inv (ha_children s' ! i) \<and> view (ha_children s' ! i) = view (ha_children s ! i) \<and> (x = miss \<or> P x)"
    using call_result [OF assms(2) len] assms(4) [OF f] assms(1,3) f by (auto simp: ha_good_def)
  have "inv (ha_children s' ! j) \<and> view (ha_children s' ! j) = view (ha_children s ! j)" if "j < width" "j \<noteq> i" for j
    using fr that assms(1) by (simp add: ha_frame_def ha_good_def)
  then have "inv (ha_children s' ! j) \<and> view (ha_children s' ! j) = view (ha_children s ! j)" if "j < width" for j
    using that here by (cases "j = i") auto
  moreover have "length (ha_children s') = width" "length (ha_breakers s') = width" using fr assms(1) by (simp_all add: ha_good_def ha_frame_def)
  ultimately show ?thesis using here by (simp add: ha_good_def)
qed

lemma vw_cong: "(\<And>j. j < width \<Longrightarrow> view (ha_children s' ! j) = view (ha_children s ! j)) \<Longrightarrow> vw s' = vw s"
  by (simp add: ha_view_def fun_eq_iff)

lemma get_law:
  assumes "good s" "name_ok key" "name_ok layer" "ha_get E key layer s = (x, s')"
  shows "good s' \<and> vw s' = vw s \<and> (x = None \<or> x = vw s (key, layer))"
proof -
  let ?i = "ha_route E key"
  have run: "ha_call E ?i (sb_get (child_backend E ?i) key layer) None s = (x, s')" using assms(4) by (simp add: ha_get_def Let_def)
  have i: "inv (ha_children s ! ?i)" using assms(1) by (simp add: ha_good_def)
  have "good s' \<and> (\<forall>j < width. view (ha_children s' ! j) = view (ha_children s ! j)) \<and> (x = None \<or> x = vw s (key, layer))"
    by (rule call_reads [OF assms(1) run])
      (use storage_backend.get_law [OF child_laws(1) [OF route_below] i assms(2,3)] in \<open>auto simp: ha_view_def\<close>)
  then show ?thesis using vw_cong by blast
qed

lemma put_law:
  assumes "good s" "name_ok key" "name_ok layer"
  shows "good (ha_put E key layer data meta s) \<and> (\<forall>x. x \<noteq> (key, layer) \<longrightarrow> vw (ha_put E key layer data meta s) x = vw s x)
    \<and> vw (ha_put E key layer data meta s) (key, layer) \<in> {vw s (key, layer), Some data}"
proof -
  let ?i = "ha_route E key" and ?s = "ha_put E key layer data meta s"
  let ?f = "sb_put (child_backend E ?i) key layer data meta"
  obtain x where run: "ha_call E ?i ?f () s = (x, ?s)" by (metis ha_put_def prod.collapse)
  note fr = call_frame [OF run]
  have len: "?i < length (ha_children s)" and i: "inv (ha_children s ! ?i)" using assms(1) by (simp_all add: ha_good_def)
  obtain r c where f: "?f (ha_children s ! ?i) = (r, c)" by fastforce
  have law: "inv c" "\<And>x. x \<noteq> (key, layer) \<Longrightarrow> view c x = view (ha_children s ! ?i) x"
      "view c (key, layer) \<in> {view (ha_children s ! ?i) (key, layer), Some data}"
    using storage_backend.put_law [OF child_laws(1) [OF route_below] i assms(2,3) f] atomic_backend.put_atomic [OF child_laws(2) [OF route_below] i assms(2,3)] f
    by (cases r; auto)+
  have child: "ha_children ?s ! ?i \<in> {ha_children s ! ?i, c}" using call_result [OF run len] f by auto
  have other: "ha_children ?s ! j = ha_children s ! j" if "j \<noteq> ?i" for j using fr that by (simp add: ha_frame_def)
  have "inv (ha_children ?s ! j)" if "j < width" for j
    using child law(1) i other [of j] assms(1) that by (cases "j = ?i") (auto simp: ha_good_def)
  then have "good ?s" using fr assms(1) by (simp add: ha_good_def ha_frame_def)
  moreover have "vw ?s x = vw s x" if "x \<noteq> (key, layer)" for x
    using child law(2) [OF that] other [of "ha_route E (fst x)"] by (cases "ha_route E (fst x) = ?i") (auto simp: ha_view_def)
  moreover have "vw ?s (key, layer) \<in> {vw s (key, layer), Some data}" using child law(3) by (auto simp: ha_view_def)
  ultimately show ?thesis by blast
qed

end

subsection \<open>Batches\<close>

lemma ha_groups_spec:
  "is_dict (ha_groups E keys)
   \<and> (\<forall>idx. map_of (ha_groups E keys) idx =
       (let items = filter (\<lambda>p. ha_route E (snd p) = idx) (enumerate 0 keys) in if items = [] then None else Some items))"
proof -
  let ?g = "\<lambda>xs. fold (\<lambda>(i, key) gs. AList.map_default (ha_route E key) [(i, key)] (\<lambda>items. items @ [(i, key)]) gs) xs []"
  have "is_dict (?g xs) \<and> (\<forall>idx. map_of (?g xs) idx =
      (let items = filter (\<lambda>p. ha_route E (snd p) = idx) xs in if items = [] then None else Some items))" for xs :: "(nat \<times> string) list"
  proof (induction xs rule: rev_induct)
    case (snoc p xs)
    obtain i key where p: "p = (i, key)" by (cases p)
    show ?case using snoc distinct_map_default [of "?g xs"] by (simp add: p map_of_map_default Let_def)
  qed simp
  then show ?thesis by (simp add: ha_groups_def)
qed

lemma scatter_nth:
  assumes "\<forall>p \<in> set items. g (snd p) = f (fst p)" "i < length res"
  shows "scatter items (map g (map snd items)) res ! i = (if i \<in> fst ` set items then f i else res ! i)"
proof -
  have "scatter items (map g (map snd items)) res = fold (\<lambda>m res. res[fst (fst m) := snd m]) (map (\<lambda>p. (p, g (snd p))) items) res"
    by (simp add: scatter_def case_prod_unfold zip_map2 zip_same_conv_map comp_def)
  then show ?thesis using fold_update_nth [of "map (\<lambda>p. (p, g (snd p))) items" f i res] assms by (simp add: image_image)
qed

lemma length_scatter [simp]: "length (scatter items fetched res) = length res"
  by (simp add: scatter_def case_prod_unfold)

lemma call_closed:
  assumes "cb_state (ha_breakers s ! idx) = CLOSED" "f (ha_children s ! idx) = (Inr x, c)" "idx < length (ha_breakers s)" "idx < length (ha_children s)"
  shows "\<exists>s'. ha_call E idx f miss s = (x, s') \<and> cb_state (ha_breakers s' ! idx) = CLOSED"
  using assms by (auto simp: ha_call_def ha_allow_def breaker_allow_def ha_attempt_def on_child_def ha_record_def breaker_record_def)

context ha_cluster
begin

lemma group_step:
  assumes "good s" "\<forall>j < width. view (ha_children s ! j) = view (ha_children s0 ! j)" "list_all name_ok keys" "name_ok layer"
    "items = filter (\<lambda>p. ha_route E (snd p) = idx) (enumerate 0 keys)" "idx < width" "length res = length keys"
    "(case ha_call_opt E idx (sb_get_parallel (child_backend E idx) (map snd items) layer) s of
        (None, s1) \<Rightarrow> (res, s1) | (Some fetched, s1) \<Rightarrow> (scatter items fetched res, s1)) = (res', s')"
  shows "good s' \<and> (\<forall>j < width. view (ha_children s' ! j) = view (ha_children s0 ! j)) \<and> length res' = length keys
    \<and> (\<forall>i < length keys. res' ! i = res ! i \<or> res' ! i = vw s0 (keys ! i, layer))
    \<and> (all_closed E s \<and> no_failures E \<longrightarrow> all_closed E s' \<and> (\<forall>i \<in> fst ` set items. res' ! i = vw s0 (keys ! i, layer)))"
proof -
  let ?p = "sb_get_parallel (child_backend E idx) (map snd items) layer"
  let ?f = "\<lambda>c. pstep (?p c) (\<lambda>x c1. (Inr (Some x), c1))"
  obtain x s1 where call: "ha_call E idx ?f None s = (x, s1)" by fastforce
  have idx: "inv (ha_children s ! idx)" using assms(1,6) by (simp add: ha_good_def)
  have names: "list_all name_ok (map snd items)" using assms(3) by (auto simp: assms(5) list_all_iff in_set_enumerate_eq)
  have law: "inv c \<and> view c = view (ha_children s ! idx) \<and> (\<forall>y. r = Inr y \<longrightarrow> y = Some (map (\<lambda>k. vw s0 (k, layer)) (map snd items)))"
    if "?f (ha_children s ! idx) = (r, c)" for r c
  proof -
    obtain r1 c1 where g: "?p (ha_children s ! idx) = (r1, c1)" by fastforce
    note one = storage_backend.parallel_law [OF child_laws(1) [OF assms(6)] idx names assms(4) g]
    have "view (ha_children s ! idx) (k, layer) = vw s0 (k, layer)" if "k \<in> snd ` set items" for k
      using that assms(2,5,6) by (auto simp: ha_view_def)
    then have "map (\<lambda>k. view (ha_children s ! idx) (k, layer)) (map snd items) = map (\<lambda>k. vw s0 (k, layer)) (map snd items)" by auto
    then show ?thesis using one that g by (cases r1) auto
  qed
  have read: "good s1 \<and> (\<forall>j < width. view (ha_children s1 ! j) = view (ha_children s ! j))
    \<and> (x = None \<or> x = Some (map (\<lambda>k. vw s0 (k, layer)) (map snd items)))"
    by (rule call_reads [OF assms(1) call assms(6)]) (use law in blast)
  have out: "s' = s1" "res' = (case x of None \<Rightarrow> res | Some fetched \<Rightarrow> scatter items fetched res)"
    using assms(8) call by (auto simp: ha_call_opt_def split: option.splits)
  have nth: "scatter items (map (\<lambda>k. vw s0 (k, layer)) (map snd items)) res ! i = (if i \<in> fst ` set items then vw s0 (keys ! i, layer) else res ! i)"
    if "i < length keys" for i
    by (rule scatter_nth) (use that assms(5,7) in \<open>auto simp: in_set_enumerate_eq\<close>)
  have "all_closed E s' \<and> x \<noteq> None" if h: "all_closed E s" "no_failures E"
  proof -
    obtain y c where y: "?p (ha_children s ! idx) = (Inr y, c)"
      using h(2) nth_mem [OF assms(6)] unfolding no_failures_def by (metis (no_types, lifting) is_ok_def prod.collapse sum.case_eq_if sum.collapse(2))
    have "\<exists>s'. ha_call E idx ?f None s = (Some y, s') \<and> cb_state (ha_breakers s' ! idx) = CLOSED"
      by (rule call_closed) (use h(1) assms(1,6) y in \<open>auto simp: all_closed_def ha_good_def\<close>)
    then have "x = Some y" "cb_state (ha_breakers s1 ! idx) = CLOSED" using call by auto
    moreover have "cb_state (ha_breakers s1 ! j) = CLOSED" if "j < width" "j \<noteq> idx" for j
      using call_frame [OF call] that h(1) by (simp add: ha_frame_def all_closed_def)
    ultimately show ?thesis using out(1) by (auto simp: all_closed_def)
  qed
  moreover have "\<forall>i \<in> fst ` set items. i < length keys" by (auto simp: assms(5) in_set_enumerate_eq)
  ultimately show ?thesis using read out assms(2,7) nth by (auto split: option.splits)
qed

lemma groups_fold:
  assumes "good s" "\<forall>j < width. view (ha_children s ! j) = view (ha_children s0 ! j)" "list_all name_ok keys" "name_ok layer"
    "\<forall>g \<in> set gs. fst g < width \<and> snd g = filter (\<lambda>p. ha_route E (snd p) = fst g) (enumerate 0 keys)" "length res = length keys"
    "fold (\<lambda>(idx, items) (results, s). case ha_call_opt E idx (sb_get_parallel (child_backend E idx) (map snd items) layer) s of
        (None, s1) \<Rightarrow> (results, s1) | (Some fetched, s1) \<Rightarrow> (scatter items fetched results, s1)) gs (res, s) = (res', s')"
  shows "good s' \<and> (\<forall>j < width. view (ha_children s' ! j) = view (ha_children s0 ! j)) \<and> length res' = length keys
    \<and> (\<forall>i < length keys. res' ! i = res ! i \<or> res' ! i = vw s0 (keys ! i, layer))
    \<and> (all_closed E s \<and> no_failures E \<longrightarrow> (\<forall>g \<in> set gs. \<forall>i \<in> fst ` set (snd g). res' ! i = vw s0 (keys ! i, layer)))"
  using assms(1,2,5-7)
proof (induction gs arbitrary: s res)
  case (Cons g gs)
  obtain idx items where g: "g = (idx, items)" by (cases g)
  obtain res1 s1 where one: "(case ha_call_opt E idx (sb_get_parallel (child_backend E idx) (map snd items) layer) s of
      (None, s1) \<Rightarrow> (res, s1) | (Some fetched, s1) \<Rightarrow> (scatter items fetched res, s1)) = (res1, s1)" by fastforce
  have gi: "items = filter (\<lambda>p. ha_route E (snd p) = idx) (enumerate 0 keys)" "idx < width" using Cons.prems(3) g by auto
  note st = group_step [OF Cons.prems(1,2) assms(3,4) gi Cons.prems(4) one]
  have run: "fold (\<lambda>(idx, items) (results, s). case ha_call_opt E idx (sb_get_parallel (child_backend E idx) (map snd items) layer) s of
      (None, s1) \<Rightarrow> (results, s1) | (Some fetched, s1) \<Rightarrow> (scatter items fetched results, s1)) gs (res1, s1) = (res', s')"
    using Cons.prems(5) one by (simp add: g)
  have gs: "\<forall>g \<in> set gs. fst g < width \<and> snd g = filter (\<lambda>p. ha_route E (snd p) = fst g) (enumerate 0 keys)" using Cons.prems(3) by simp
  have rest: "good s' \<and> (\<forall>j < width. view (ha_children s' ! j) = view (ha_children s0 ! j)) \<and> length res' = length keys
    \<and> (\<forall>i < length keys. res' ! i = res1 ! i \<or> res' ! i = vw s0 (keys ! i, layer))
    \<and> (all_closed E s1 \<and> no_failures E \<longrightarrow> (\<forall>g \<in> set gs. \<forall>i \<in> fst ` set (snd g). res' ! i = vw s0 (keys ! i, layer)))"
    by (rule Cons.IH [OF _ _ gs _ run]) (use st in auto)
  have lt: "i < length keys" if "i \<in> fst ` set items" for i using that gi(1) by (auto simp: in_set_enumerate_eq)
  have sound: "res' ! i = res ! i \<or> res' ! i = vw s0 (keys ! i, layer)" if "i < length keys" for i using st rest that by metis
  have "res' ! i = vw s0 (keys ! i, layer)" if "all_closed E s \<and> no_failures E" "h \<in> set (g # gs)" "i \<in> fst ` set (snd h)" for h i
  proof (cases "h = g")
    case True
    then have i: "i \<in> fst ` set items" using that(3) g by simp
    then have "res1 ! i = vw s0 (keys ! i, layer)" using st that(1) by blast
    then show ?thesis using rest lt [OF i] by metis
  next
    case False
    then show ?thesis using rest st that by fastforce
  qed
  then show ?case using rest sound by blast
qed auto

lemma get_parallel_law:
  assumes "good s" "list_all name_ok keys" "name_ok layer" "ha_get_parallel E keys layer s = (res, s')"
  shows "good s' \<and> vw s' = vw s \<and> length res = length keys \<and> (\<forall>i < length keys. res ! i = None \<or> res ! i = vw s (keys ! i, layer))
    \<and> (all_closed E s \<and> no_failures E \<longrightarrow> res = map (\<lambda>k. vw s (k, layer)) keys)"
proof (cases "keys = []")
  case True
  then show ?thesis using assms by (simp add: ha_get_parallel_def)
next
  case False
  let ?gs = "ha_groups E keys"
  have dict: "is_dict ?gs" using ha_groups_spec by blast
  have gs: "\<forall>g \<in> set ?gs. fst g < width \<and> snd g = filter (\<lambda>p. ha_route E (snd p) = fst g) (enumerate 0 keys)"
  proof
    fix g assume "g \<in> set ?gs"
    then have m: "map_of ?gs (fst g) = Some (snd g)" using dict by (simp add: map_of_is_SomeI)
    then have items: "snd g = filter (\<lambda>p. ha_route E (snd p) = fst g) (enumerate 0 keys)" "snd g \<noteq> []"
      using ha_groups_spec [of E keys] by (auto simp: Let_def split: if_splits)
    then obtain p where "p \<in> set (snd g)" by (meson list.set_sel(1))
    then have "ha_route E (snd p) = fst g" using items(1) by auto
    then show "fst g < width \<and> snd g = filter (\<lambda>p. ha_route E (snd p) = fst g) (enumerate 0 keys)" using items(1) route_below by metis
  qed
  have run: "fold (\<lambda>(idx, items) (results, s). case ha_call_opt E idx (sb_get_parallel (child_backend E idx) (map snd items) layer) s of
      (None, s1) \<Rightarrow> (results, s1) | (Some fetched, s1) \<Rightarrow> (scatter items fetched results, s1)) ?gs (replicate (length keys) None, s) = (res, s')"
    using assms(4) False by (simp add: ha_get_parallel_def)
  have all: "good s' \<and> (\<forall>j < width. view (ha_children s' ! j) = view (ha_children s ! j)) \<and> length res = length keys
    \<and> (\<forall>i < length keys. res ! i = replicate (length keys) None ! i \<or> res ! i = vw s (keys ! i, layer))
    \<and> (all_closed E s \<and> no_failures E \<longrightarrow> (\<forall>g \<in> set ?gs. \<forall>i \<in> fst ` set (snd g). res ! i = vw s (keys ! i, layer)))"
    by (rule groups_fold [OF assms(1) _ assms(2,3) gs _ run]) simp_all
  have cover: "\<exists>g \<in> set ?gs. i \<in> fst ` set (snd g)" if "i < length keys" for i
  proof -
    let ?items = "filter (\<lambda>p. ha_route E (snd p) = ha_route E (keys ! i)) (enumerate 0 keys)"
    have p: "(i, keys ! i) \<in> set ?items" using that by (simp add: in_set_enumerate_eq)
    then have "?items \<noteq> []" by (metis empty_iff empty_set)
    then have "map_of ?gs (ha_route E (keys ! i)) = Some ?items" using ha_groups_spec [of E keys] by (simp add: Let_def)
    then show ?thesis using p map_of_SomeD by (metis fst_conv imageI snd_conv)
  qed
  have "res = map (\<lambda>k. vw s (k, layer)) keys" if "all_closed E s \<and> no_failures E"
  proof (rule nth_equalityI)
    fix i assume "i < length res"
    then have i: "i < length keys" using all by simp
    from cover [OF this] show "res ! i = map (\<lambda>k. vw s (k, layer)) keys ! i" using all that i by auto
  qed (use all in simp)
  then show ?thesis using all vw_cong [of s' s] by auto
qed

end

interpretation ha: ha_cluster
  "\<lparr> ha_child_backends = [memory_backend, memory_backend], ha_cooldown = cooldown, ha_md5 = md5, ha_clock = clock, ha_zc_hint = zc, ha_rdma_put_hint = rp \<rparr>"
  ms_view ms_inv "\<lambda>_. True" for cooldown md5 clock zc rp
  by (rule ha_cluster.intro) (use mem.atomic_backend_axioms in auto)


section \<open>Properties\<close>

text \<open>
  C9. Failures turn into misses, never into wrong data.  Over children whose failed writes change
  nothing, and whatever calls raise or the breakers refuse, a read returns nothing or exactly what the
  server of the key holds, a batch has an answer of that kind for every key in its position, a write
  changes at most its own entry and leaves it old or new, and with all breakers closed and no failing
  server a batch is complete.
\<close>

theorem ha_misses_never_lies:
  assumes "\<And>b. b \<in> set (ha_child_backends E) \<Longrightarrow> atomic_backend b view cinv name_ok" "ha_child_backends E \<noteq> []"
    "ha_good E cinv s" "list_all name_ok (key # keys)" "name_ok layer"
    "ha_get E key layer s = (x, s1)" "ha_get_parallel E keys layer s = (res, s2)" "s3 = ha_put E key layer data meta s"
  shows "(x = None \<or> x = ha_view E view s (key, layer)) \<and> ha_view E view s1 = ha_view E view s
    \<and> list_all2 (\<lambda>k r. r = None \<or> r = ha_view E view s (k, layer)) keys res \<and> ha_view E view s2 = ha_view E view s
    \<and> (all_closed E s \<and> no_failures E \<longrightarrow> res = map (\<lambda>k. ha_view E view s (k, layer)) keys)
    \<and> (\<forall>y. y \<noteq> (key, layer) \<longrightarrow> ha_view E view s3 y = ha_view E view s y) \<and> ha_view E view s3 (key, layer) \<in> {ha_view E view s (key, layer), Some data}
    \<and> ha_good E cinv s1 \<and> ha_good E cinv s2 \<and> ha_good E cinv s3"
proof -
  have ha: "ha_cluster E view cinv name_ok" using assms(1,2) by (rule ha_cluster.intro)
  have names: "name_ok key" "list_all name_ok keys" using assms(4) by simp_all
  from ha_cluster.get_law [OF ha assms(3) names(1) assms(5,6)] ha_cluster.get_parallel_law [OF ha assms(3) names(2) assms(5,7)]
    ha_cluster.put_law [OF ha assms(3) names(1) assms(5), of data meta]
  show ?thesis unfolding assms(8) by (simp add: list_all2_conv_all_nth del: split_paired_All)
qed

definition ha_pair :: "MemoryStorage HaEnv" where
  "ha_pair = \<lparr> ha_child_backends = [memory_backend, memory_backend], ha_cooldown = 5, ha_md5 = length, ha_clock = int, ha_zc_hint = None, ha_rdma_put_hint = None \<rparr>"

definition ha_pair_start :: "MemoryStorage HaState" where
  "ha_pair_start = \<lparr> ha_children = [memory_storage_init 100, memory_storage_init 100], ha_breakers = [breaker_init, breaker_init], ha_tick = 0,
     ha_regions = [], ha_region_ids = [], ha_next_region_id = 1 \<rparr>"

text \<open>Two servers with data; every read of the second raises.\<close>

definition down_backend :: "MemoryStorage StorageBackend" where
  "down_backend = memory_backend\<lparr> sb_get := \<lambda>k l s. (Inl (RuntimeError ''down''), s), sb_get_parallel := \<lambda>ks l s. (Inl (RuntimeError ''down''), s) \<rparr>"

lemma down_backend_atomic: "atomic_backend down_backend ms_view ms_inv (\<lambda>_. True)"
proof (unfold_locales, goal_cases)
  case (1 s k l d m r s')
  then show ?case using mem.put_law [of s k l d m r s'] by (simp add: down_backend_def del: split_paired_All)
next
  case (3 s k r s')
  then show ?case using mem.delete_law [of s k r s'] by (simp add: down_backend_def)
next
  case (5 s k l d m e s')
  then show ?case using mem.put_atomic [of s k l d m e s'] by (simp add: down_backend_def)
qed (auto simp: down_backend_def)

definition ha_half :: "MemoryStorage HaEnv" where
  "ha_half = ha_pair\<lparr> ha_child_backends := [memory_backend, down_backend] \<rparr>"

definition ha_half_used :: "MemoryStorage HaState" where
  "ha_half_used = ha_put ha_half ''kk'' ''l'' [7] None (ha_put ha_half ''k'' ''l'' [1, 2] None ha_pair_start)"

theorem ha_misses_never_lies_witness:
  "let s' = ha_put ha_half ''k'' ''l'' [9] None ha_half_used in
   fst (ha_get_parallel ha_half [''kk'', ''k''] ''l'' ha_half_used) = [Some [7], None]
   \<and> fst (ha_get ha_half ''k'' ''l'' ha_half_used) = None
   \<and> ha_view ha_half ms_view ha_half_used (''k'', ''l'') = Some [1, 2]
   \<and> ha_view ha_half ms_view s' (''kk'', ''l'') = Some [7] \<and> ha_view ha_half ms_view s' (''k'', ''l'') \<in> {Some [1, 2], Some [9]}"
proof -
  have good: "ha_good ha_half ms_inv ha_half_used" by code_simp
  have law: "atomic_backend b ms_view ms_inv (\<lambda>_. True)" if "b \<in> set (ha_child_backends ha_half)" for b
    using that mem.atomic_backend_axioms down_backend_atomic by (auto simp: ha_half_def)
  have ev: "fst (ha_get_parallel ha_half [''kk'', ''k''] ''l'' ha_half_used) = [Some [7], None]" "fst (ha_get ha_half ''k'' ''l'' ha_half_used) = None"
    "ha_view ha_half ms_view ha_half_used (''k'', ''l'') = Some [1, 2]" "ha_view ha_half ms_view ha_half_used (''kk'', ''l'') = Some [7]"
    by code_simp+
  have "ha_child_backends ha_half \<noteq> []" by (simp add: ha_half_def)
  from ha_misses_never_lies [OF law this good _ _ surjective_pairing surjective_pairing refl, of "''k''" "[''kk'', ''k'']" "''l''" "[9]" None]
  show ?thesis using ev by (simp del: split_paired_All)
qed

text \<open>
  C17. The breaker on every branch.  While it is open and the cooldown has not passed, a call answers the
  miss value and does not reach the server.  After the cooldown the next call is made: its value is
  returned and closes the breaker, its exception becomes the miss value and restarts the cooldown.
\<close>

theorem ha_breaker_cycle:
  assumes "idx < length (ha_breakers s)" "idx < length (ha_children s)" "cb_state (ha_breakers s ! idx) = OPEN" "ha_call E idx f miss s = (x, s')"
  shows "if ha_clock E (ha_tick s) - cb_opened_at (ha_breakers s ! idx) < ha_cooldown E
    then x = miss \<and> ha_children s' = ha_children s \<and> ha_breakers s' = ha_breakers s
    else (case f (ha_children s ! idx) of
        (Inr y, c) \<Rightarrow> x = y \<and> ha_children s' = (ha_children s)[idx := c] \<and> cb_state (ha_breakers s' ! idx) = CLOSED
      | (Inl e, c) \<Rightarrow> x = miss \<and> ha_children s' = (ha_children s)[idx := c] \<and> cb_state (ha_breakers s' ! idx) = OPEN
          \<and> cb_opened_at (ha_breakers s' ! idx) = ha_clock E (Suc (ha_tick s)) \<and> \<not> cb_trial_inflight (ha_breakers s' ! idx))"
  using assms
  by (auto simp: ha_call_def ha_allow_def breaker_allow_def ha_attempt_def on_child_def ha_record_def breaker_record_def
      split: prod.splits sum.splits if_splits)

theorem ha_breaker_cycle_witness:
  "let s = ha_pair_start\<lparr> ha_breakers := [breaker_init\<lparr> cb_state := OPEN, cb_opened_at := 10 \<rparr>, breaker_init] \<rparr> in
   fst (ha_call ha_pair 0 (ms_get ''k'' ''l'') None s) = None"
proof -
  let ?s = "ha_pair_start\<lparr> ha_breakers := [breaker_init\<lparr> cb_state := OPEN, cb_opened_at := 10 \<rparr>, breaker_init] \<rparr>"
  obtain x s' where run: "ha_call ha_pair 0 (ms_get ''k'' ''l'') None ?s = (x, s')" by fastforce
  show ?thesis using ha_breaker_cycle [OF _ _ _ run] run by (simp add: ha_pair_start_def ha_pair_def)
qed

text \<open>
  C16. A lost trial.  When the first call after a cooldown is \<open>get_chunks_into\<close>, it takes the single trial of
  the half-open breaker, and the translation of the region, guarded by the same breaker, is refused: the
  call ends without reaching the server and without recording a result.  No later sequence of calls of
  any kind sends that server another request, and every read of its keys is a miss.  What still
  reaches it are the two capability queries, which bypass the breaker; with both hints configured they
  are answered locally and the server's state is frozen.
\<close>

theorem ha_lost_trial:
  assumes "idx = ha_route E key" "idx < length (ha_breakers s)" "cb_state (ha_breakers s ! idx) = OPEN"
    "ha_cooldown E \<le> ha_clock E (ha_tick s) - cb_opened_at (ha_breakers s ! idx)"
    "map_of (ha_regions s) rid = Some (ptr, sz)" "sb_ensure_rdma_region (child_backend E idx) = Some ensure"
    "ha_get_chunks_into E key layer rid off s = (x, s1)" "(ha_step E)\<^sup>*\<^sup>* s1 s2"
  shows "x = None \<and> ha_children s1 = ha_children s
    \<and> (capability_query E idx)\<^sup>*\<^sup>* (ha_children s ! idx) (ha_children s2 ! idx)
    \<and> (ha_zc_hint E \<noteq> None \<and> ha_rdma_put_hint E \<noteq> None \<longrightarrow> ha_children s2 ! idx = ha_children s ! idx)
    \<and> (\<forall>key' layer'. ha_route E key' = idx \<longrightarrow> fst (ha_get E key' layer' s2) = None)"
proof -
  obtain ok t1 where a: "ha_allow E idx s = (ok, t1)" by fastforce
  have t1: "ok" "wedged idx t1" "ha_children t1 = ha_children s" "ha_regions t1 = ha_regions s"
    using a assms(2-4) by (auto simp: ha_allow_def breaker_allow_def wedged_def)
  obtain ok2 t2 where a2: "ha_allow E idx t1 = (ok2, t2)" by fastforce
  have t2: "\<not> ok2" "wedged idx t2" "ha_children t2 = ha_children t1" using wedged_allow [OF t1(2) a2] by simp_all
  have "ha_translate_region E idx rid t1 = (None, t2)"
    using a2 t2(1) assms(5,6) t1(4) by (simp add: ha_translate_region_def ha_call_opt_def ha_call_def)
  then have out: "x = None" "s1 = t2" using assms(1,7) a t1(1) by (simp_all add: ha_get_chunks_into_def Let_def)
  then have w: "wedged idx s1" "ha_children s1 = ha_children s" using t2 t1(3) by simp_all
  have s2: "wedged idx s2" "(capability_query E idx)\<^sup>*\<^sup>* (ha_children s1 ! idx) (ha_children s2 ! idx)" using steps_shut [OF assms(8), of idx] w(1) by (simp_all add: shut_def)
  have "fst (ha_get E key' layer' s2) = None" if "ha_route E key' = idx" for key' layer'
  proof -
    obtain ok3 t3 where "ha_allow E idx s2 = (ok3, t3)" by fastforce
    then show ?thesis using wedged_allow [OF s2(1)] that by (auto simp: ha_get_def ha_call_def Let_def)
  qed
  moreover have "ha_children s2 ! idx = ha_children s1 ! idx" if "ha_zc_hint E \<noteq> None \<and> ha_rdma_put_hint E \<noteq> None"
    using s2(2) that by (induction rule: rtranclp_induct) (auto simp: capability_query_def)
  ultimately show ?thesis using out(1) w(2) s2(2) by simp
qed

definition ha_rdma :: "MemoryStorage HaEnv" where
  "ha_rdma = ha_pair\<lparr> ha_child_backends := replicate 2 (memory_backend\<lparr> sb_ensure_rdma_region := Some (\<lambda>ptr sz s. (Inr 1, s)) \<rparr>) \<rparr>"

theorem ha_lost_trial_witness:
  "let s = ha_pair_start\<lparr> ha_breakers := [breaker_init, breaker_init\<lparr> cb_state := OPEN \<rparr>], ha_regions := [(1, 4096, 64)], ha_tick := 9 \<rparr>;
       s1 = snd (ha_get_chunks_into ha_rdma ''k'' ''l'' 1 0 s)
   in fst (ha_get ha_rdma ''k'' ''l'' (ha_put ha_rdma ''k'' ''l'' [1] None s1)) = None"
proof -
  let ?s = "ha_pair_start\<lparr> ha_breakers := [breaker_init, breaker_init\<lparr> cb_state := OPEN \<rparr>], ha_regions := [(1, 4096, 64)], ha_tick := 9 \<rparr>"
  obtain x s1 where run: "ha_get_chunks_into ha_rdma ''k'' ''l'' 1 0 ?s = (x, s1)" by fastforce
  have r: "1 = ha_route ha_rdma ''k''" by (simp add: ha_route_def ha_rdma_def ha_pair_def)
  have "(ha_step ha_rdma)\<^sup>*\<^sup>* s1 (ha_put ha_rdma ''k'' ''l'' [1] None s1)" by (rule r_into_rtranclp) (rule ha_step.put)
  from ha_lost_trial [OF r _ _ _ _ _ run this, of 4096 64] show ?thesis
    using r run by (simp add: ha_rdma_def ha_pair_def ha_pair_start_def breaker_init_def)
qed

end
