(* ===== verification/Spec2Isabelle.thy ===== *)
theory Spec2Isabelle
  imports IO_Props Memory_Props Memory_Size Service_Api Service_Stream Cluster_Props
    Host_Memory HA_Service
begin

text \<open>
  \<^bold>\<open>ContextStore KVService: a verification of the server and of its client backends.\<close>

  \<^bold>\<open>The program.\<close>  ContextStore (\<open>src/kv-service\<close>) is an object store for KV-cache blocks.  A server
  process keeps hot objects in memory (\<open>memory_tier.rs\<close>), writes all of them to NVMe devices
  (\<open>storage_tier.rs\<close>) through an I/O executor (\<open>io_executor/\<close>), stripes large objects over devices and
  over the data nodes of a cluster (\<open>router.rs\<close>, \<open>api/service.rs\<close>), keeps a metadata entry per object
  (\<open>metadata.rs\<close>), and moves bytes over gRPC (\<open>api/service.rs\<close>) or RDMA (\<open>rdma/\<close>).  A write stores the
  files of a fresh generation first and publishes its metadata entry last; the files of the replaced
  generation are retired and deleted later by a garbage collector.  On the client side the Python
  package \<open>src/src/contextstore\<close> offers storage backends with one interface: dictionaries, directories,
  shards over directories, a cache in host memory, and a client that spreads keys over several servers.

  \<^bold>\<open>Conventions.\<close>  Rust strings are \<^typ>\<open>string\<close>, buffers are lists of 8-bit words.  Unsigned 64-bit
  counters and lengths are natural numbers with the wrap-around written out (\<open>wadd64\<close>, \<open>wsub64\<close>,
  \<open>wmul64\<close>), signed 64-bit values are integers with \<open>saturating_add_i64\<close> and \<open>as_i64\<close>.  Fallible functions
  return \<open>kverror + 'a\<close>, handlers a gRPC status or a response.  State is passed explicitly.  The clock is
  an argument \<open>now\<close>.  Code outside the repository is a parameter: the hash functions (\<open>hashers\<close>), the
  serialiser of metadata entries (\<open>serde\<close>), the LRU container (\<open>lru_ops\<close>), the text of a gRPC status and
  the resolution of an endpoint; what the code relies on is a named hypothesis or a locale law.  The
  operating system is a \<open>world\<close>: a file map and a script that says which of the next system calls fail or
  transfer fewer bytes than asked.  Registered memory is a function from addresses to bytes.
  On the Python side exceptions are \<open>pyerr\<close> values, dictionaries are association lists in insertion
  order, a class is a record of its methods (optional methods are options), and times are integers.

  \<^bold>\<open>The theories.\<close>

  \<^item> \<open>Prelude\<close>: machine arithmetic, paths, hexadecimal and decimal text, lists cut into chunks.
  \<^item> \<open>KVError\<close>, \<open>Config\<close>: \<open>error.rs\<close> and \<open>config.rs\<close>.
  \<^item> \<open>Router\<close>: \<open>router.rs\<close>.  Canonical keys, digests, device routing, file paths.
  \<^item> \<open>Slab\<close>: \<open>rdma/slab.rs\<close>.  The free list and extents of registered memory, with the locale
    \<open>region_allocator\<close> for its contract.
  \<^item> \<open>Wire\<close>: \<open>rdma/wire.rs\<close>, the queue-pair exchange of \<open>rdma/qp.rs\<close>, the request dispatcher of
    \<open>rdma/server.rs\<close> and the request frames of the Rust client (\<open>client-rs/src/rdma.rs\<close>), with the locale
    \<open>wire_codec\<close> for a frame and its decoder.
  \<^item> \<open>Metadata\<close>: \<open>metadata.rs\<close>.  The abstract metadata service (\<open>meta_view\<close> and its specification
    operations), the locales \<open>block_store\<close> (what the tiers rely on), \<open>metadata_store\<close> (with the task queue
    of the collector) and \<open>live_store\<close>, and the in-process backend \<open>MemoryMetadataBackend\<close>, the one the
    repository's tests run on.
  \<^item> \<open>IO_Executor\<close>, \<open>IO_Contract\<close>, \<open>IO_Props\<close>: the thread-pool executor of \<open>io_executor/tier_a.rs\<close>, the
    locale \<open>io_executor\<close> for the trait of \<open>io_executor/mod.rs\<close>, and its properties.
  \<^item> \<open>Storage_Tier\<close>, \<open>Storage_Correct\<close>, \<open>Storage_Props\<close>: \<open>storage_tier.rs\<close> over any executor and any
    metadata store (locale \<open>storage_system\<close>), and over the concrete ones.
  \<^item> \<open>Object_Store\<close>, \<open>Storage_Ptr\<close>: the storage tier as a map from keys to values that may expire; writes
    from registered memory.
  \<^item> \<open>LRU\<close>, \<open>Memory_Tier\<close>, \<open>Memory_Correct\<close>, \<open>Memory_Ops\<close>, \<open>Memory_Props\<close>, \<open>Memory_Size\<close>:
    \<open>memory_tier.rs\<close> over any LRU container (locale \<open>lru_cache\<close>) and any metadata store: values,
    slab-backed segments, sizes.
  \<^item> \<open>Rdma_Server\<close>: the write handler of \<open>rdma/server.rs\<close>, which stores an object out of the slab extent
    that a client has written and hands the extent to the memory tier.
  \<^item> \<open>Placement\<close>, \<open>Service\<close>, \<open>Service_Write\<close>, \<open>Service_Api\<close>, \<open>Service_Stream\<close>: \<open>api/service.rs\<close> over a
    cluster of nodes that share the metadata service and call each other over a network that may
    refuse a call or lose its answer.
  \<^item> \<open>Cluster_Correct\<close>, \<open>Cluster_Ops\<close>, \<open>Cluster_Read\<close>, \<open>Cluster_Run\<close>, \<open>Cluster_Props\<close>: the distributed write,
    read and collection of \<open>api/service.rs\<close> over any executor and metadata store (locale
    \<open>cluster_system\<close>), and over the concrete ones (locale \<open>cluster_stack\<close>).
  \<^item> \<open>Py_Base\<close>, \<open>Py_Backends\<close>, \<open>Py_Sharded\<close>: \<open>storage/base.py\<close>, \<open>memory.py\<close>, \<open>local.py\<close> and \<open>sharded.py\<close>, with the
    locales \<open>storage_backend\<close>, \<open>atomic_backend\<close> and \<open>keyed_backend\<close> for what a backend promises.
  \<^item> \<open>Host_Memory\<close>: \<open>storage/host_memory.py\<close>, over any backend (locale \<open>host_memory\<close>).
  \<^item> \<open>HA_Service\<close>: \<open>storage/ha_kvservice.py\<close>, over any child backends (locale \<open>ha_cluster\<close>).

  \<^bold>\<open>What the lemmas show.\<close>  Routing: keys and paths are injective, files stay below their directory,
  stripes rotate over the devices.  Slab: live extents never overlap, an allocation fails only when
  there is no room, all memory is recovered.  Wire: every frame is decoded to the message that was
  sent, a truncated one is rejected.  Metadata: the in-process backend refines the abstract service.
  Executor: a file is written completely or not at all whatever system calls fail, and the retry
  loops finish.  Storage tier: a write is an update of an abstract object map and a read returns its
  value.  Memory tier: in every history, with RDMA writes and with failing metadata and system calls,
  a read hands out the bytes of the last acknowledged write or of a write since then that was stored
  but not acknowledged in full, unexpired ones except for peeks; slab-backed segments stay intact
  while a reader holds them, and the byte counter is exact below the entry limit.  Service: placement arithmetic, streamed messages, and the
  equivalence of the streaming and the buffered write path.  Cluster: in every run of distributed
  writes and collections, with any failures, a key holds the bytes of its last acknowledged write,
  remote reads answer them, and the collector leaves published versions alone.  Client backends: the
  host cache is transparent and bounded, failing servers turn into misses and never into wrong data,
  and the exact behaviour of the circuit breakers.

  \<^bold>\<open>Bounds.\<close>  Loops are recursions that terminate: on the list, on the bytes left to transfer, or on
  the writes in flight; no fuel is used.  Hypotheses bound an object by \<open>isize::MAX\<close> bytes (a Rust
  allocation), sums of lengths by \<open>2^64\<close>, and the generation counter of a key below \<open>2^53 - 1\<close>.

  \<^bold>\<open>Metadata backends.\<close>  In production the metadata service runs on Redis: \<open>MemoryMetadataBackend\<close> is
  compiled for tests only, and \<open>validate\<close> rejects a \<open>memory://\<close> address.  The tiers are verified over any
  metadata store that keeps the contract \<open>block_store\<close>, under which any call may fail, a read as well as
  a write, but a call that fails has had no effect.  The storage, cluster and collector properties of
  \<open>Storage_Props\<close> and \<open>Cluster_Props\<close> are stated over the in-process backend, whose reads do not fail.  A
  Redis whose answers get lost does not keep the contract: see the findings on \<open>run_with_reconnect\<close>.

  \<^bold>\<open>Not modelled.\<close>  The io_uring executor (\<open>tier_b.rs\<close>), the Redis backend, GPUDirect Storage, the read
  handlers and the verbs calls of \<open>rdma/\<close>, metrics, process start-up, benchmarks, and the clients but for
  their RDMA frames.  They drive foreign libraries and devices.  The concurrent tasks of one request run
  one after the other; per-key locks and thread scheduling are not part of the state.
\<close>

end
